(* ===== verification/Prelude.thy ===== *)
theory Prelude
  imports Main "HOL-Library.Word"
begin

text \<open>
  Shared vocabulary of the development.

  Unsigned C integers of width \<open>w\<close> are values of type \<open>w word\<close>; signed ones are
  \<open>int\<close>s, and every store into an \<open>int8_t\<close>, \<open>int16_t\<close> or \<open>int32_t\<close> object goes
  through \<open>to_i8\<close>, \<open>to_i16\<close> or \<open>to_i32\<close>, which keep the low bits and read them as
  two's complement (what gcc and clang do for an out-of-range conversion).
  \<open>size_t\<close> values that are bounded by the size of an object in memory are \<open>nat\<close>s.

  The servers run on a little-endian host and copy integers to and from packets with
  \<open>memcpy\<close>; \<open>le_bytes\<close> is that object representation and \<open>le_val\<close> its inverse.
\<close>

subsection \<open>Machine integers\<close>

type_synonym u8 = "8 word"
type_synonym u16 = "16 word"
type_synonym u32 = "32 word"
type_synonym u64 = "64 word"
type_synonym bytes = "8 word list"

definition to_i8 :: "int \<Rightarrow> int" where
  "to_i8 v = signed_take_bit 7 v"

definition to_i16 :: "int \<Rightarrow> int" where
  "to_i16 v = signed_take_bit 15 v"

definition to_i32 :: "int \<Rightarrow> int" where
  "to_i32 v = signed_take_bit 31 v"

abbreviation in_i8 :: "int \<Rightarrow> bool" where
  "in_i8 v \<equiv> - 128 \<le> v \<and> v \<le> 127"

abbreviation in_i16 :: "int \<Rightarrow> bool" where
  "in_i16 v \<equiv> - 32768 \<le> v \<and> v \<le> 32767"

abbreviation in_i32 :: "int \<Rightarrow> bool" where
  "in_i32 v \<equiv> - 2147483648 \<le> v \<and> v \<le> 2147483647"

named_theorems machine_int \<open>facts on conversions between integer widths\<close>

lemma to_i8_id [machine_int]: "in_i8 v \<Longrightarrow> to_i8 v = v"
  by (simp add: to_i8_def signed_take_bit_int_eq_self)

lemma to_i16_id [machine_int]: "in_i16 v \<Longrightarrow> to_i16 v = v"
  by (simp add: to_i16_def signed_take_bit_int_eq_self)

lemma to_i32_id [machine_int]: "in_i32 v \<Longrightarrow> to_i32 v = v"
  by (simp add: to_i32_def signed_take_bit_int_eq_self)

lemma to_i16_range [machine_int]: "in_i16 (to_i16 v)"
proof -
  have "- (2 ^ 15) \<le> signed_take_bit 15 v" "signed_take_bit 15 v < 2 ^ 15"
    by (rule signed_take_bit_int_greater_eq_minus_exp signed_take_bit_int_less_exp)+
  then show ?thesis by (simp add: to_i16_def)
qed

lemma to_i32_range [machine_int]: "in_i32 (to_i32 v)"
proof -
  have "- (2 ^ 31) \<le> signed_take_bit 31 v" "signed_take_bit 31 v < 2 ^ 31"
    by (rule signed_take_bit_int_greater_eq_minus_exp signed_take_bit_int_less_exp)+
  then show ?thesis by (simp add: to_i32_def)
qed

subsection \<open>Little-endian object representation\<close>

primrec le_bytes :: "nat \<Rightarrow> int \<Rightarrow> bytes" where
  "le_bytes 0 v = []"
| "le_bytes (Suc n) v = word_of_int v # le_bytes n (v div 256)"

fun le_val :: "bytes \<Rightarrow> int" where
  "le_val [] = 0"
| "le_val (b # bs) = uint b + 256 * le_val bs"

lemma length_le_bytes [simp]: "length (le_bytes n v) = n"
  by (induction n arbitrary: v) auto

lemma le_val_bounds: "0 \<le> le_val bs \<and> le_val bs < 256 ^ length bs"
proof (induction bs)
  case Nil
  then show ?case by simp
next
  case (Cons b bs)
  have "uint b < 256" "0 \<le> uint b"
    using uint_bounded [of b] by simp_all
  with Cons show ?case by simp
qed

lemma le_val_le_bytes: "le_val (le_bytes n v) = v mod 256 ^ n"
proof (induction n arbitrary: v)
  case 0
  then show ?case by simp
next
  case (Suc n)
  have "le_val (le_bytes (Suc n) v) = v mod 256 + 256 * ((v div 256) mod 256 ^ n)"
    by (simp add: Suc uint_word_of_int)
  also have "\<dots> = v mod (256 * 256 ^ n)"
    by (simp add: zmod_zmult2_eq)
  finally show ?case by simp
qed

lemma word_256_eq_0: "(256 :: u8) = 0"
  by simp

lemma le_bytes_le_val: "le_bytes (length bs) (le_val bs) = bs"
proof (induction bs)
  case Nil
  then show ?case by simp
next
  case (Cons b bs)
  have b: "0 \<le> uint b" "uint b < 256"
    using uint_bounded [of b] by simp_all
  then have "(uint b + 256 * le_val bs) div 256 = le_val bs"
    by simp
  moreover have "word_of_int (uint b + 256 * le_val bs) = b"
  proof -
    have "(256 :: u8) * word_of_int (le_val bs) = 0"
      by (simp only: word_256_eq_0 mult_zero_left)
    then show ?thesis by simp
  qed
  ultimately show ?case by (simp add: Cons)
qed

lemma le_bytes_mod: "le_bytes n (v mod 256 ^ n) = le_bytes n v"
  using le_bytes_le_val [of "le_bytes n v"] by (simp add: le_val_le_bytes)

text \<open>Reading a word back from its bytes, unsigned and signed.\<close>

lemma word_of_int_le_val_16 [simp]: "(word_of_int (le_val (le_bytes 2 (uint x))) :: u16) = x"
  using uint_bounded [of x] by (simp add: le_val_le_bytes)

lemma word_of_int_le_val_32 [simp]: "(word_of_int (le_val (le_bytes 4 (uint x))) :: u32) = x"
  using uint_bounded [of x] by (simp add: le_val_le_bytes)

lemma word_of_int_le_val_8 [simp]: "(word_of_int (le_val (le_bytes 1 (uint x))) :: u8) = x"
  using uint_bounded [of x] by (simp add: le_val_le_bytes)

lemma to_i8_le_val [simp]: "to_i8 (le_val (le_bytes 1 v)) = to_i8 v"
  using signed_take_bit_take_bit [of 7 8 v]
  by (simp add: le_val_le_bytes to_i8_def take_bit_eq_mod del: le_bytes.simps)

lemma to_i16_le_val [simp]: "to_i16 (le_val (le_bytes 2 v)) = to_i16 v"
  using signed_take_bit_take_bit [of 15 16 v] by (simp add: le_val_le_bytes to_i16_def take_bit_eq_mod)

lemma to_i32_le_val [simp]: "to_i32 (le_val (le_bytes 4 v)) = to_i32 v"
  using signed_take_bit_take_bit [of 31 32 v] by (simp add: le_val_le_bytes to_i32_def take_bit_eq_mod)

subsection \<open>Integers as disjoint bits\<close>

lemma word_of_bytes4:
  "(word_of_int (le_val [a, b, c, d]) :: u32) =
     or (ucast a) (or (push_bit 8 (ucast b)) (or (push_bit 16 (ucast c)) (push_bit 24 (ucast d))))"
proof -
  have small: "\<not> bit x n" if "8 \<le> n" for x :: u8 and n
    using bit_imp_le_length [of x n] that by auto
  let ?a = "ucast a :: u32" and ?b = "push_bit 8 (ucast b) :: u32"
    and ?c = "push_bit 16 (ucast c) :: u32" and ?d = "push_bit 24 (ucast d) :: u32"
  have "(word_of_int (le_val [a, b, c, d]) :: u32) = ?a + (?b + (?c + ?d))"
    by (simp add: push_bit_eq_mult algebra_simps unsigned_ucast_eq flip: word_of_int_uint)
  moreover have "?c + ?d = or ?c ?d"
    by (rule disjunctive_add) (auto simp: bit_simps small)
  moreover have "?b + or ?c ?d = or ?b (or ?c ?d)"
    by (rule disjunctive_add) (auto simp: bit_simps small)
  moreover have "?a + or ?b (or ?c ?d) = or ?a (or ?b (or ?c ?d))"
    by (rule disjunctive_add) (auto simp: bit_simps small)
  ultimately show ?thesis by simp
qed

lemma unat_u16_of_u8 [simp]: "unat (ucast (x :: u8) :: u16) = unat x"
proof -
  have "unat x < 2 ^ LENGTH(8)" by (rule unsigned_less)
  then show ?thesis by (simp add: unsigned_ucast_eq take_bit_nat_eq_self)
qed

lemma unat_u16_of_nat: "n < 65536 \<Longrightarrow> unat (of_nat n :: u16) = n"
  by (simp add: unat_of_nat)

subsection \<open>Partial maps\<close>

lemma map_eqI_Some:
  assumes "\<And>k v. f k = Some v \<longleftrightarrow> g k = Some v"
  shows "f = g"
proof
  fix k
  show "f k = g k" using assms by (metis not_Some_eq)
qed

end
