(* ===== verification/Crypt.thy ===== *)
theory Crypt
  imports Prelude
begin

unbundle bit_operations_syntax

text \<open>
  The packet cipher of \<^verbatim>\<open>src/src/crypt.c\<close>.

  Outgoing data is scrambled by six passes over the bytes and then XORed with a key stream;
  incoming data is XORed with the key stream and unscrambled by six passes in the opposite
  order. The key stream is AES-256 (in output feedback, with precomputed round keys) started
  from the four bytes of the current IV, and restarted after \<open>0x5B0\<close> and then every
  \<open>0x5B4\<close> bytes; every packet then replaces the IV by a shuffle of itself.

  Arithmetic on \<open>uint8_t\<close> is carried out on \<open>8 word\<close>s: C computes in \<open>int\<close> and
  truncates on assignment, which gives the same low eight bits.
\<close>

subsection \<open>AES (from tinyAES)\<close>

definition sbox :: bytes where
  "sbox =
    [
     0x63, 0x7C, 0x77, 0x7B, 0xF2, 0x6B, 0x6F, 0xC5, 0x30, 0x01, 0x67, 0x2B, 0xFE, 0xD7, 0xAB, 0x76,
     0xCA, 0x82, 0xC9, 0x7D, 0xFA, 0x59, 0x47, 0xF0, 0xAD, 0xD4, 0xA2, 0xAF, 0x9C, 0xA4, 0x72, 0xC0,
     0xB7, 0xFD, 0x93, 0x26, 0x36, 0x3F, 0xF7, 0xCC, 0x34, 0xA5, 0xE5, 0xF1, 0x71, 0xD8, 0x31, 0x15,
     0x04, 0xC7, 0x23, 0xC3, 0x18, 0x96, 0x05, 0x9A, 0x07, 0x12, 0x80, 0xE2, 0xEB, 0x27, 0xB2, 0x75,
     0x09, 0x83, 0x2C, 0x1A, 0x1B, 0x6E, 0x5A, 0xA0, 0x52, 0x3B, 0xD6, 0xB3, 0x29, 0xE3, 0x2F, 0x84,
     0x53, 0xD1, 0x00, 0xED, 0x20, 0xFC, 0xB1, 0x5B, 0x6A, 0xCB, 0xBE, 0x39, 0x4A, 0x4C, 0x58, 0xCF,
     0xD0, 0xEF, 0xAA, 0xFB, 0x43, 0x4D, 0x33, 0x85, 0x45, 0xF9, 0x02, 0x7F, 0x50, 0x3C, 0x9F, 0xA8,
     0x51, 0xA3, 0x40, 0x8F, 0x92, 0x9D, 0x38, 0xF5, 0xBC, 0xB6, 0xDA, 0x21, 0x10, 0xFF, 0xF3, 0xD2,
     0xCD, 0x0C, 0x13, 0xEC, 0x5F, 0x97, 0x44, 0x17, 0xC4, 0xA7, 0x7E, 0x3D, 0x64, 0x5D, 0x19, 0x73,
     0x60, 0x81, 0x4F, 0xDC, 0x22, 0x2A, 0x90, 0x88, 0x46, 0xEE, 0xB8, 0x14, 0xDE, 0x5E, 0x0B, 0xDB,
     0xE0, 0x32, 0x3A, 0x0A, 0x49, 0x06, 0x24, 0x5C, 0xC2, 0xD3, 0xAC, 0x62, 0x91, 0x95, 0xE4, 0x79,
     0xE7, 0xC8, 0x37, 0x6D, 0x8D, 0xD5, 0x4E, 0xA9, 0x6C, 0x56, 0xF4, 0xEA, 0x65, 0x7A, 0xAE, 0x08,
     0xBA, 0x78, 0x25, 0x2E, 0x1C, 0xA6, 0xB4, 0xC6, 0xE8, 0xDD, 0x74, 0x1F, 0x4B, 0xBD, 0x8B, 0x8A,
     0x70, 0x3E, 0xB5, 0x66, 0x48, 0x03, 0xF6, 0x0E, 0x61, 0x35, 0x57, 0xB9, 0x86, 0xC1, 0x1D, 0x9E,
     0xE1, 0xF8, 0x98, 0x11, 0x69, 0xD9, 0x8E, 0x94, 0x9B, 0x1E, 0x87, 0xE9, 0xCE, 0x55, 0x28, 0xDF,
     0x8C, 0xA1, 0x89, 0x0D, 0xBF, 0xE6, 0x42, 0x68, 0x41, 0x99, 0x2D, 0x0F, 0xB0, 0x54, 0xBB, 0x16]"

text \<open>\<open>state[i][j]\<close> is element \<open>4 * i + j\<close> of the 16 bytes.\<close>

definition AddRoundKey :: "nat \<Rightarrow> bytes \<Rightarrow> bytes \<Rightarrow> bytes" where
  "AddRoundKey round st RoundKey = map2 (XOR) st (take 16 (drop (round * 16) RoundKey))"

definition xtime :: "u8 \<Rightarrow> u8" where
  "xtime x = push_bit 1 x XOR (drop_bit 7 x AND 1) * 0x1b"

definition SubBytes :: "bytes \<Rightarrow> bytes" where
  "SubBytes st = map (\<lambda>b. sbox ! unat b) st"

definition ShiftRows :: "bytes \<Rightarrow> bytes" where
  "ShiftRows st =
     [st ! 0, st ! 5, st ! 10, st ! 15,
      st ! 4, st ! 9, st ! 14, st ! 3,
      st ! 8, st ! 13, st ! 2, st ! 7,
      st ! 12, st ! 1, st ! 6, st ! 11]"

fun mix_columns :: "bytes \<Rightarrow> bytes" where
  "mix_columns (a # b # c # d # rest) =
     (let t = a;
          Tmp = a XOR b XOR c XOR d;
          a' = a XOR (xtime (a XOR b) XOR Tmp);
          b' = b XOR (xtime (b XOR c) XOR Tmp);
          c' = c XOR (xtime (c XOR d) XOR Tmp);
          d' = d XOR (xtime (d XOR t) XOR Tmp)
      in a' # b' # c' # d' # mix_columns rest)"
| "mix_columns st = st"

definition aes_Nr :: nat where
  "aes_Nr = 14"

definition AES_ECB_encrypt :: "bytes \<Rightarrow> bytes \<Rightarrow> bytes" where
  "AES_ECB_encrypt RoundKey buf =
     (let st = AddRoundKey 0 buf RoundKey;
          st = fold (\<lambda>round st. AddRoundKey round (mix_columns (ShiftRows (SubBytes st))) RoundKey)
                 [1..<aes_Nr] st;
          st = ShiftRows (SubBytes st)
      in AddRoundKey aes_Nr st RoundKey)"

definition CONTEXT :: bytes where
  "CONTEXT =
    [
     0x13, 0x00, 0x00, 0x00, 0x08, 0x00, 0x00, 0x00, 0x06, 0x00, 0x00, 0x00, 0xB4, 0x00, 0x00, 0x00,
     0x1B, 0x00, 0x00, 0x00, 0x0F, 0x00, 0x00, 0x00, 0x33, 0x00, 0x00, 0x00, 0x52, 0x00, 0x00, 0x00,
     0x71, 0x63, 0x63, 0x00, 0x79, 0x63, 0x63, 0x00, 0x7F, 0x63, 0x63, 0x00, 0xCB, 0x63, 0x63, 0x00,
     0x04, 0xFB, 0xFB, 0x63, 0x0B, 0xFB, 0xFB, 0x63, 0x38, 0xFB, 0xFB, 0x63, 0x6A, 0xFB, 0xFB, 0x63,
     0x7C, 0x6C, 0x98, 0x02, 0x05, 0x0F, 0xFB, 0x02, 0x7A, 0x6C, 0x98, 0x02, 0xB1, 0x0F, 0xFB, 0x02,
     0xCC, 0x8D, 0xF4, 0x14, 0xC7, 0x76, 0x0F, 0x77, 0xFF, 0x8D, 0xF4, 0x14, 0x95, 0x76, 0x0F, 0x77,
     0x40, 0x1A, 0x6D, 0x28, 0x45, 0x15, 0x96, 0x2A, 0x3F, 0x79, 0x0E, 0x28, 0x8E, 0x76, 0xF5, 0x2A,
     0xD5, 0xB5, 0x12, 0xF1, 0x12, 0xC3, 0x1D, 0x86, 0xED, 0x4E, 0xE9, 0x92, 0x78, 0x38, 0xE6, 0xE5,
     0x4F, 0x94, 0xB4, 0x94, 0x0A, 0x81, 0x22, 0xBE, 0x35, 0xF8, 0x2C, 0x96, 0xBB, 0x8E, 0xD9, 0xBC,
     0x3F, 0xAC, 0x27, 0x94, 0x2D, 0x6F, 0x3A, 0x12, 0xC0, 0x21, 0xD3, 0x80, 0xB8, 0x19, 0x35, 0x65,
     0x8B, 0x02, 0xF9, 0xF8, 0x81, 0x83, 0xDB, 0x46, 0xB4, 0x7B, 0xF7, 0xD0, 0x0F, 0xF5, 0x2E, 0x6C,
     0x49, 0x4A, 0x16, 0xC4, 0x64, 0x25, 0x2C, 0xD6, 0xA4, 0x04, 0xFF, 0x56, 0x1C, 0x1D, 0xCA, 0x33,
     0x0F, 0x76, 0x3A, 0x64, 0x8E, 0xF5, 0xE1, 0x22, 0x3A, 0x8E, 0x16, 0xF2, 0x35, 0x7B, 0x38, 0x9E,
     0xDF, 0x6B, 0x11, 0xCF, 0xBB, 0x4E, 0x3D, 0x19, 0x1F, 0x4A, 0xC2, 0x4F, 0x03, 0x57, 0x08, 0x7C,
     0x14, 0x46, 0x2A, 0x1F, 0x9A, 0xB3, 0xCB, 0x3D, 0xA0, 0x3D, 0xDD, 0xCF, 0x95, 0x46, 0xE5, 0x51]"

subsection \<open>Rotations\<close>

definition roll_left :: "u8 \<Rightarrow> u8 \<Rightarrow> u8" where
  "roll_left x count =
     (let tmp = (push_bit (unat count mod 8) (ucast x) :: u16) in ucast (tmp OR drop_bit 8 tmp))"

definition roll_right :: "u8 \<Rightarrow> u8 \<Rightarrow> u8" where
  "roll_right x count =
     (let tmp = (drop_bit (unat count mod 8) (push_bit 8 (ucast x)) :: u16)
      in ucast (tmp OR drop_bit 8 tmp))"

subsection \<open>The key stream and the IV\<close>

definition FUNNY_BYTES :: bytes where
  "FUNNY_BYTES =
    [
     0xEC, 0x3F, 0x77, 0xA4, 0x45, 0xD0, 0x71, 0xBF, 0xB7, 0x98, 0x20, 0xFC, 0x4B, 0xE9, 0xB3, 0xE1,
     0x5C, 0x22, 0xF7, 0x0C, 0x44, 0x1B, 0x81, 0xBD, 0x63, 0x8D, 0xD4, 0xC3, 0xF2, 0x10, 0x19, 0xE0,
     0xFB, 0xA1, 0x6E, 0x66, 0xEA, 0xAE, 0xD6, 0xCE, 0x06, 0x18, 0x4E, 0xEB, 0x78, 0x95, 0xDB, 0xBA,
     0xB6, 0x42, 0x7A, 0x2A, 0x83, 0x0B, 0x54, 0x67, 0x6D, 0xE8, 0x65, 0xE7, 0x2F, 0x07, 0xF3, 0xAA,
     0x27, 0x7B, 0x85, 0xB0, 0x26, 0xFD, 0x8B, 0xA9, 0xFA, 0xBE, 0xA8, 0xD7, 0xCB, 0xCC, 0x92, 0xDA,
     0xF9, 0x93, 0x60, 0x2D, 0xDD, 0xD2, 0xA2, 0x9B, 0x39, 0x5F, 0x82, 0x21, 0x4C, 0x69, 0xF8, 0x31,
     0x87, 0xEE, 0x8E, 0xAD, 0x8C, 0x6A, 0xBC, 0xB5, 0x6B, 0x59, 0x13, 0xF1, 0x04, 0x00, 0xF6, 0x5A,
     0x35, 0x79, 0x48, 0x8F, 0x15, 0xCD, 0x97, 0x57, 0x12, 0x3E, 0x37, 0xFF, 0x9D, 0x4F, 0x51, 0xF5,
     0xA3, 0x70, 0xBB, 0x14, 0x75, 0xC2, 0xB8, 0x72, 0xC0, 0xED, 0x7D, 0x68, 0xC9, 0x2E, 0x0D, 0x62,
     0x46, 0x17, 0x11, 0x4D, 0x6C, 0xC4, 0x7E, 0x53, 0xC1, 0x25, 0xC7, 0x9A, 0x1C, 0x88, 0x58, 0x2C,
     0x89, 0xDC, 0x02, 0x64, 0x40, 0x01, 0x5D, 0x38, 0xA5, 0xE2, 0xAF, 0x55, 0xD5, 0xEF, 0x1A, 0x7C,
     0xA7, 0x5B, 0xA6, 0x6F, 0x86, 0x9F, 0x73, 0xE6, 0x0A, 0xDE, 0x2B, 0x99, 0x4A, 0x47, 0x9C, 0xDF,
     0x09, 0x76, 0x9E, 0x30, 0x0E, 0xE4, 0xB2, 0x94, 0xA0, 0x3B, 0x34, 0x1D, 0x28, 0x0F, 0x36, 0xE3,
     0x23, 0xB4, 0x03, 0xD8, 0x90, 0xC8, 0x3C, 0xFE, 0x5E, 0x32, 0x24, 0x50, 0x1F, 0x3A, 0x43, 0x8A,
     0x96, 0x41, 0x74, 0xAC, 0x52, 0x33, 0xF0, 0xD9, 0x29, 0x80, 0xB1, 0x16, 0xD3, 0xAB, 0x91, 0xB9,
     0x84, 0x7F, 0x61, 0x1E, 0xCF, 0xC5, 0xD1, 0x56, 0x3D, 0xCA, 0xF4, 0x05, 0xC6, 0xE5, 0x08, 0x49]"

text \<open>The loop over one run of the key stream; \<open>k\<close> is \<open>i - start\<close>.\<close>

fun crypt_run :: "nat \<Rightarrow> bytes \<Rightarrow> bytes \<Rightarrow> bytes" where
  "crypt_run k my_iv [] = []"
| "crypt_run k my_iv (d # ds) =
     (let my_iv = (if k mod 16 = 0 then AES_ECB_encrypt CONTEXT my_iv else my_iv)
      in (d XOR my_iv ! (k mod 16)) # crypt_run (Suc k) my_iv ds)"

text \<open>The \<open>while (length > 0)\<close> loop: the first run has \<open>0x5B0\<close> bytes, the others \<open>0x5B4\<close>.\<close>

function crypt_loop :: "bool \<Rightarrow> bytes \<Rightarrow> bytes \<Rightarrow> bytes" where
  "crypt_loop first iv ds =
     (if ds = [] then []
      else let llength = (if first then 0x5B0 else 0x5B4);
               my_iv = map (\<lambda>i. iv ! (i mod 4)) [0..<16]
           in crypt_run 0 my_iv (take llength ds) @ crypt_loop False iv (drop llength ds))"
  by pat_completeness auto
termination
  by (relation "measure (\<lambda>(first, iv, ds). length ds)") auto

declare crypt_loop.simps [simp del]

definition funny :: "u8 \<Rightarrow> u8" where
  "funny b = FUNNY_BYTES ! unat b"

definition shuffle_step :: "u8 \<Rightarrow> u8 \<times> u8 \<times> u8 \<times> u8 \<Rightarrow> u8 \<times> u8 \<times> u8 \<times> u8" where
  "shuffle_step b = (\<lambda>(n0, n1, n2, n3).
     let n0 = n0 + (funny n1 - b);
         n1 = n1 - (n2 XOR funny b);
         n2 = n2 XOR (funny n3 + b);
         n3 = n3 - (n0 - funny b);
         merry = (ucast n0 OR push_bit 8 (ucast n1) OR push_bit 16 (ucast n2) OR push_bit 24 (ucast n3) :: u32);
         merry = drop_bit 29 merry OR push_bit 3 merry
     in (ucast merry, ucast (drop_bit 8 merry), ucast (drop_bit 16 merry), ucast (drop_bit 24 merry)))"

definition update_iv :: "bytes \<Rightarrow> bytes" where
  "update_iv iv =
     (case fold shuffle_step (take 4 iv) (0xF2, 0x53, 0x50, 0xC6) of (n0, n1, n2, n3) \<Rightarrow> [n0, n1, n2, n3])"

definition crypt :: "bytes \<Rightarrow> bytes \<Rightarrow> bytes \<times> bytes" where
  "crypt iv ds = (update_iv iv, crypt_loop True iv ds)"

subsection \<open>Encryption\<close>

record encryption_context =
  enc_iv :: bytes
  mapleVersion :: u16

definition encryption_context_new :: "bytes \<Rightarrow> u16 \<Rightarrow> encryption_context" where
  "encryption_context_new iv maple_version =
     \<lparr>enc_iv = take 4 iv,
      mapleVersion = (drop_bit 8 maple_version AND 0xFF) OR (push_bit 8 maple_version AND 0xFF00)\<rparr>"

fun encrypt_forward :: "u8 \<Rightarrow> u8 \<Rightarrow> bytes \<Rightarrow> bytes" where
  "encrypt_forward remember data_length [] = []"
| "encrypt_forward remember data_length (d # ds) =
     (let cur = (roll_left d 3 + data_length) XOR remember;
          data_length = data_length - 1
      in (NOT (roll_right cur (data_length + 1)) + 0x48) # encrypt_forward cur data_length ds)"

fun encrypt_backward :: "u8 \<Rightarrow> u8 \<Rightarrow> bytes \<Rightarrow> bytes" where
  "encrypt_backward remember data_length [] = []"
| "encrypt_backward remember data_length (d # ds) =
     (let cur = (roll_left d 4 + data_length) XOR remember;
          data_length = data_length - 1
      in roll_right (cur XOR 0x13) 3 # encrypt_backward cur data_length ds)"

text \<open>Pass \<open>j\<close>; the odd passes run over the data from its last byte to its first.\<close>

definition encrypt_pass :: "nat \<Rightarrow> bytes \<Rightarrow> bytes" where
  "encrypt_pass j ds =
     (let data_length = of_nat (length ds)
      in if j mod 2 = 0 then encrypt_forward 0 data_length ds
         else rev (encrypt_backward 0 data_length (rev ds)))"

definition encryption_context_encrypt :: "encryption_context \<Rightarrow> bytes \<Rightarrow> encryption_context \<times> bytes" where
  "encryption_context_encrypt context ds =
     (case crypt (enc_iv context) (fold encrypt_pass [0..<6] ds) of
        (iv, ds) \<Rightarrow> (context\<lparr>enc_iv := iv\<rparr>, ds))"

definition encryption_context_header :: "encryption_context \<Rightarrow> u16 \<Rightarrow> bytes" where
  "encryption_context_header context sz =
     (let iiv = (ucast (enc_iv context ! 3) :: u16);
          iiv = iiv OR push_bit 8 (ucast (enc_iv context ! 2));
          iiv = iiv XOR mapleVersion context;
          xor_iv = iiv XOR (push_bit 8 sz OR drop_bit 8 sz)
      in [ucast (drop_bit 8 iiv), ucast iiv, ucast (drop_bit 8 xor_iv), ucast xor_iv])"

definition encryption_context_get_iv :: "encryption_context \<Rightarrow> bytes" where
  "encryption_context_get_iv context = enc_iv context"

subsection \<open>Decryption\<close>

record decryption_context =
  dec_iv :: bytes

definition decryption_context_new :: "bytes \<Rightarrow> decryption_context" where
  "decryption_context_new iv = \<lparr>dec_iv = take 4 iv\<rparr>"

fun decrypt_forward :: "u8 \<Rightarrow> u8 \<Rightarrow> bytes \<Rightarrow> bytes" where
  "decrypt_forward remember dataLength [] = []"
| "decrypt_forward remember dataLength (d # ds) =
     (let cur = roll_left (NOT (d - 0x48)) dataLength;
          tmp = cur;
          cur = cur XOR remember
      in roll_right (cur - dataLength) 3 # decrypt_forward tmp (dataLength - 1) ds)"

fun decrypt_backward :: "u8 \<Rightarrow> u8 \<Rightarrow> bytes \<Rightarrow> bytes" where
  "decrypt_backward remember dataLength [] = []"
| "decrypt_backward remember dataLength (d # ds) =
     (let cur = roll_left d 3;
          cur = cur XOR 0x13;
          tmp = cur;
          cur = cur XOR remember
      in roll_right (cur - dataLength) 4 # decrypt_backward tmp (dataLength - 1) ds)"

definition decrypt_pass :: "nat \<Rightarrow> bytes \<Rightarrow> bytes" where
  "decrypt_pass j ds =
     (let dataLength = of_nat (length ds)
      in if j mod 2 = 0 then decrypt_forward 0 dataLength ds
         else rev (decrypt_backward 0 dataLength (rev ds)))"

definition decryption_context_decrypt :: "decryption_context \<Rightarrow> bytes \<Rightarrow> decryption_context \<times> bytes" where
  "decryption_context_decrypt context ds =
     (case crypt (dec_iv context) ds of
        (iv, ds) \<Rightarrow> (context\<lparr>dec_iv := iv\<rparr>, fold decrypt_pass [1..<7] ds))"

definition decryption_context_get_iv :: "decryption_context \<Rightarrow> bytes" where
  "decryption_context_get_iv context = dec_iv context"

subsection \<open>The rotations are inverse to each other\<close>

lemma bit_u8_ge: "8 \<le> n \<Longrightarrow> \<not> bit (x :: u8) n"
  using bit_imp_le_length [of x n] by auto

lemma bit_roll_left:
  assumes "n < 8"
  shows "bit (roll_left x c) n =
    (let k = unat c mod 8 in if k \<le> n then bit x (n - k) else bit x (n + 8 - k))"
proof -
  have "unat c mod 8 < 8" by simp
  with assms show ?thesis
    by (auto simp: roll_left_def Let_def bit_simps bit_u8_ge ac_simps)
qed

lemma bit_roll_right:
  assumes "n < 8"
  shows "bit (roll_right x c) n =
    (let k = unat c mod 8 in if n + k < 8 then bit x (n + k) else bit x (n + k - 8))"
proof -
  have "unat c mod 8 < 8" by simp
  with assms show ?thesis
    by (auto simp: roll_right_def Let_def bit_simps bit_u8_ge ac_simps)
qed

lemma roll_inverse [simp]:
  "roll_right (roll_left x c) c = x" "roll_left (roll_right x c) c = x"
proof -
  obtain k where k: "unat c mod 8 = k" "k < 8" by simp
  show "roll_right (roll_left x c) c = x"
  proof (rule bit_word_eqI)
    fix n :: nat assume "n < LENGTH(8)"
    with k(2) show "bit (roll_right (roll_left x c) c) n = bit x n"
      by (auto simp: bit_roll_left bit_roll_right Let_def k(1))
  qed
  show "roll_left (roll_right x c) c = x"
  proof (rule bit_word_eqI)
    fix n :: nat assume "n < LENGTH(8)"
    with k(2) show "bit (roll_left (roll_right x c) c) n = bit x n"
      by (auto simp: bit_roll_left bit_roll_right Let_def k(1))
  qed
qed

subsection \<open>The six passes\<close>

lemma length_passes [simp]:
  "length (encrypt_forward r l ds) = length ds" "length (encrypt_backward r l ds) = length ds"
  "length (decrypt_forward r l ds) = length ds" "length (decrypt_backward r l ds) = length ds"
  by (induction ds arbitrary: r l) (simp_all add: Let_def)

lemma length_encrypt_pass [simp]: "length (encrypt_pass j ds) = length ds"
  by (simp add: encrypt_pass_def Let_def)

lemma length_decrypt_pass [simp]: "length (decrypt_pass j ds) = length ds"
  by (simp add: decrypt_pass_def Let_def)

lemma xor_cancel: "(a XOR b) XOR b = (a :: u8)" "a XOR (a XOR b) = b"
  by (simp_all add: xor.assoc flip: xor.assoc [of a a b])

lemma decrypt_encrypt_forward: "decrypt_forward r l (encrypt_forward r l ds) = ds"
  by (induction ds arbitrary: r l) (simp_all add: Let_def xor_cancel)

lemma decrypt_encrypt_backward: "decrypt_backward r l (encrypt_backward r l ds) = ds"
  by (induction ds arbitrary: r l) (simp_all add: Let_def xor_cancel)

lemma decrypt_encrypt_pass:
  "odd i = odd j \<Longrightarrow> decrypt_pass i (encrypt_pass j ds) = ds"
  by (auto simp: decrypt_pass_def encrypt_pass_def Let_def decrypt_encrypt_forward
      decrypt_encrypt_backward even_iff_mod_2_eq_zero)

lemma decrypt_passes_encrypt_passes: "fold decrypt_pass [1..<7] (fold encrypt_pass [0..<6] ds) = ds"
proof -
  have "[1..<7] = [1, 2, 3, 4, 5, 6]" "[0..<6] = [0, 1, 2, 3, 4, 5]"
    by (simp_all add: upt_rec)
  then show ?thesis by (simp add: decrypt_encrypt_pass)
qed

lemma length_encrypt_passes [simp]: "length (fold encrypt_pass js ds) = length ds"
  by (induction js arbitrary: ds) simp_all

lemma length_decrypt_passes [simp]: "length (fold decrypt_pass js ds) = length ds"
  by (induction js arbitrary: ds) simp_all

subsection \<open>The key stream\<close>

lemma length_crypt_run [simp]: "length (crypt_run k v ds) = length ds"
  by (induction k v ds rule: crypt_run.induct) (simp_all add: Let_def)

lemma crypt_run_involution: "crypt_run k v (crypt_run k v ds) = ds"
  by (induction k v ds rule: crypt_run.induct) (simp_all add: Let_def xor_cancel)

lemma crypt_loop_length_involution:
  "length (crypt_loop first iv ds) = length ds \<and> crypt_loop first iv (crypt_loop first iv ds) = ds"
proof (induction first iv ds rule: crypt_loop.induct)
  case (1 first iv ds)
  show ?case
  proof (cases "ds = []")
    case True
    then show ?thesis by (simp add: crypt_loop.simps)
  next
    case False
    define n where "n = (if first then 0x5B0 else 0x5B4 :: nat)"
    define v where "v = map (\<lambda>i. iv ! (i mod 4)) [0..<16]"
    let ?a = "crypt_run 0 v (take n ds)" and ?b = "crypt_loop False iv (drop n ds)"
    have eq: "crypt_loop first iv ds = ?a @ ?b"
      using False by (simp add: crypt_loop.simps [of first] n_def v_def Let_def)
    have IH: "length ?b = length ds - n" "crypt_loop False iv ?b = drop n ds"
      using "1.IH" [OF False refl refl] by (simp_all add: n_def)
    have b0: "?b = []" if "length ds < n"
      using IH(1) that by simp
    have ab: "take n (?a @ ?b) = ?a" "drop n (?a @ ?b) = ?b"
      using b0 by (cases "length ds < n"; simp)+
    have "crypt_loop first iv (?a @ ?b) = crypt_run 0 v ?a @ crypt_loop False iv ?b"
      using False IH(1) ab
      by (subst crypt_loop.simps) (auto simp: n_def [symmetric] v_def [symmetric] Let_def)
    then show ?thesis
      using IH(1) by (simp add: eq IH(2) crypt_run_involution)
  qed
qed

lemmas length_crypt_loop [simp] = crypt_loop_length_involution [THEN conjunct1]
lemmas crypt_loop_involution [simp] = crypt_loop_length_involution [THEN conjunct2]

lemma length_update_iv [simp]: "length (update_iv iv) = 4"
  by (simp add: update_iv_def split: prod.splits)

subsection \<open>Encryption followed by decryption\<close>

lemma encrypt_decrypt:
  assumes "enc_iv e = dec_iv d"
  shows "decryption_context_decrypt d (snd (encryption_context_encrypt e ds)) =
    (d\<lparr>dec_iv := enc_iv (fst (encryption_context_encrypt e ds))\<rparr>, ds)"
  using assms decrypt_passes_encrypt_passes [of ds]
  by (simp add: decryption_context_decrypt_def encryption_context_encrypt_def crypt_def)

lemma length_encrypt [simp]: "length (snd (encryption_context_encrypt e ds)) = length ds"
  by (simp add: encryption_context_encrypt_def crypt_def)

lemma length_decrypt [simp]: "length (snd (decryption_context_decrypt d ds)) = length ds"
  by (simp add: decryption_context_decrypt_def crypt_def)

lemma length_encrypt_iv [simp]: "length (enc_iv (fst (encryption_context_encrypt e ds))) = 4"
  by (simp add: encryption_context_encrypt_def crypt_def)

lemma mapleVersion_encrypt [simp]: "mapleVersion (fst (encryption_context_encrypt e ds)) = mapleVersion e"
  by (simp add: encryption_context_encrypt_def crypt_def)

lemma length_header [simp]: "length (encryption_context_header e n) = 4"
  by (simp add: encryption_context_header_def Let_def)

subsection \<open>The AES tables\<close>

text \<open>
  The key schedule of AES-256 (FIPS-197, section 5.2) as a reference, eight words of four
  bytes at a time: each word is the XOR of the word eight places before and of the previous
  one, which is rotated, substituted and XORed with the round constant at the start of a
  block, and substituted half way through it.
\<close>

definition xor_word :: "bytes \<Rightarrow> bytes \<Rightarrow> bytes" where
  "xor_word v w = map2 (XOR) v w"

definition sub_word :: "bytes \<Rightarrow> bytes" where
  "sub_word w = map (\<lambda>b. sbox ! unat b) w"

fun expand_block :: "u8 \<Rightarrow> bytes list \<Rightarrow> bytes list" where
  "expand_block rcon [w0, w1, w2, w3, w4, w5, w6, w7] =
     (let n0 = xor_word w0 (xor_word (sub_word (rotate1 w7)) [rcon, 0, 0, 0]);
          n1 = xor_word w1 n0;
          n2 = xor_word w2 n1;
          n3 = xor_word w3 n2;
          n4 = xor_word w4 (sub_word n3);
          n5 = xor_word w5 n4;
          n6 = xor_word w6 n5;
          n7 = xor_word w7 n6
      in [n0, n1, n2, n3, n4, n5, n6, n7])"
| "expand_block rcon _ = []"

primrec key_schedule :: "nat \<Rightarrow> u8 \<Rightarrow> bytes list \<Rightarrow> bytes list" where
  "key_schedule 0 rcon ws = []"
| "key_schedule (Suc n) rcon ws = ws @ key_schedule n (xtime rcon) (expand_block rcon ws)"

fun words_of :: "bytes \<Rightarrow> bytes list" where
  "words_of (a # b # c # d # rest) = [a, b, c, d] # words_of rest"
| "words_of _ = []"

lemma length_tables: "length sbox = 256" "length FUNNY_BYTES = 256" "length CONTEXT = 240"
  by (simp_all add: sbox_def FUNNY_BYTES_def CONTEXT_def)

lemmas schedule_simps = xor_word_def sub_word_def Let_def sbox_def xtime_def

text \<open>The blocks of the precomputed table, one key-schedule step after the other.\<close>

definition key_block_0 :: "bytes list" where
  "key_block_0 =
     [[0x13, 0x00, 0x00, 0x00], [0x08, 0x00, 0x00, 0x00], [0x06, 0x00, 0x00, 0x00], [0xB4, 0x00, 0x00, 0x00],
      [0x1B, 0x00, 0x00, 0x00], [0x0F, 0x00, 0x00, 0x00], [0x33, 0x00, 0x00, 0x00], [0x52, 0x00, 0x00, 0x00]]"

definition key_block_1 :: "bytes list" where
  "key_block_1 =
     [[0x71, 0x63, 0x63, 0x00], [0x79, 0x63, 0x63, 0x00], [0x7F, 0x63, 0x63, 0x00], [0xCB, 0x63, 0x63, 0x00],
      [0x04, 0xFB, 0xFB, 0x63], [0x0B, 0xFB, 0xFB, 0x63], [0x38, 0xFB, 0xFB, 0x63], [0x6A, 0xFB, 0xFB, 0x63]]"

definition key_block_2 :: "bytes list" where
  "key_block_2 =
     [[0x7C, 0x6C, 0x98, 0x02], [0x05, 0x0F, 0xFB, 0x02], [0x7A, 0x6C, 0x98, 0x02], [0xB1, 0x0F, 0xFB, 0x02],
      [0xCC, 0x8D, 0xF4, 0x14], [0xC7, 0x76, 0x0F, 0x77], [0xFF, 0x8D, 0xF4, 0x14], [0x95, 0x76, 0x0F, 0x77]]"

definition key_block_3 :: "bytes list" where
  "key_block_3 =
     [[0x40, 0x1A, 0x6D, 0x28], [0x45, 0x15, 0x96, 0x2A], [0x3F, 0x79, 0x0E, 0x28], [0x8E, 0x76, 0xF5, 0x2A],
      [0xD5, 0xB5, 0x12, 0xF1], [0x12, 0xC3, 0x1D, 0x86], [0xED, 0x4E, 0xE9, 0x92], [0x78, 0x38, 0xE6, 0xE5]]"

definition key_block_4 :: "bytes list" where
  "key_block_4 =
     [[0x4F, 0x94, 0xB4, 0x94], [0x0A, 0x81, 0x22, 0xBE], [0x35, 0xF8, 0x2C, 0x96], [0xBB, 0x8E, 0xD9, 0xBC],
      [0x3F, 0xAC, 0x27, 0x94], [0x2D, 0x6F, 0x3A, 0x12], [0xC0, 0x21, 0xD3, 0x80], [0xB8, 0x19, 0x35, 0x65]]"

definition key_block_5 :: "bytes list" where
  "key_block_5 =
     [[0x8B, 0x02, 0xF9, 0xF8], [0x81, 0x83, 0xDB, 0x46], [0xB4, 0x7B, 0xF7, 0xD0], [0x0F, 0xF5, 0x2E, 0x6C],
      [0x49, 0x4A, 0x16, 0xC4], [0x64, 0x25, 0x2C, 0xD6], [0xA4, 0x04, 0xFF, 0x56], [0x1C, 0x1D, 0xCA, 0x33]]"

definition key_block_6 :: "bytes list" where
  "key_block_6 =
     [[0x0F, 0x76, 0x3A, 0x64], [0x8E, 0xF5, 0xE1, 0x22], [0x3A, 0x8E, 0x16, 0xF2], [0x35, 0x7B, 0x38, 0x9E],
      [0xDF, 0x6B, 0x11, 0xCF], [0xBB, 0x4E, 0x3D, 0x19], [0x1F, 0x4A, 0xC2, 0x4F], [0x03, 0x57, 0x08, 0x7C]]"

definition key_block_7 :: "bytes list" where
  "key_block_7 =
     [[0x14, 0x46, 0x2A, 0x1F], [0x9A, 0xB3, 0xCB, 0x3D], [0xA0, 0x3D, 0xDD, 0xCF], [0x95, 0x46, 0xE5, 0x51],
      [0xF5, 0x31, 0xC8, 0x1E], [0x4E, 0x7F, 0xF5, 0x07], [0x51, 0x35, 0x37, 0x48], [0x52, 0x62, 0x3F, 0x34]]"

lemmas key_block_defs = key_block_0_def key_block_1_def key_block_2_def key_block_3_def key_block_4_def key_block_5_def key_block_6_def key_block_7_def

lemma expand_key_block_0: "expand_block 1 key_block_0 = key_block_1"
  by (simp add: key_block_defs schedule_simps)

lemma expand_key_block_1: "expand_block 2 key_block_1 = key_block_2"
  by (simp add: key_block_defs schedule_simps)

lemma expand_key_block_2: "expand_block 4 key_block_2 = key_block_3"
  by (simp add: key_block_defs schedule_simps)

lemma expand_key_block_3: "expand_block 8 key_block_3 = key_block_4"
  by (simp add: key_block_defs schedule_simps)

lemma expand_key_block_4: "expand_block 16 key_block_4 = key_block_5"
  by (simp add: key_block_defs schedule_simps)

lemma expand_key_block_5: "expand_block 32 key_block_5 = key_block_6"
  by (simp add: key_block_defs schedule_simps)

lemma expand_key_block_6: "expand_block 64 key_block_6 = key_block_7"
  by (simp add: key_block_defs schedule_simps)

lemma round_constants:
  "xtime 1 = 2" "xtime 2 = 4" "xtime 4 = 8" "xtime 8 = 16" "xtime 16 = 32" "xtime 32 = 64" "xtime 64 = 128"
  by (simp_all add: xtime_def)

lemmas expand_key_blocks =
  expand_key_block_0 expand_key_block_1 expand_key_block_2 expand_key_block_3 expand_key_block_4 expand_key_block_5 expand_key_block_6

lemma key_schedule_blocks:
  "key_schedule 8 1 key_block_0 =
     key_block_0 @ key_block_1 @ key_block_2 @ key_block_3 @
     key_block_4 @ key_block_5 @ key_block_6 @ key_block_7"
proof -
  have 8: "8 = Suc (Suc (Suc (Suc (Suc (Suc (Suc (Suc 0)))))))" by simp
  show ?thesis
    unfolding 8 key_schedule.simps round_constants expand_key_blocks by simp
qed

lemma words_of_CONTEXT:
  "words_of CONTEXT = take 60 (key_block_0 @ key_block_1 @ key_block_2 @ key_block_3 @
     key_block_4 @ key_block_5 @ key_block_6 @ key_block_7)"
  by (simp add: CONTEXT_def key_block_defs)

text \<open>MixColumns as FIPS-197 has it: a matrix over the field with \<open>xtime\<close> as doubling.\<close>

fun mix_columns_matrix :: "bytes \<Rightarrow> bytes" where
  "mix_columns_matrix (a # b # c # d # rest) =
     (let two = xtime; three = (\<lambda>x. xtime x XOR x)
      in (two a XOR three b XOR c XOR d) # (a XOR two b XOR three c XOR d) #
         (a XOR b XOR two c XOR three d) # (three a XOR b XOR c XOR two d) #
         mix_columns_matrix rest)"
| "mix_columns_matrix st = st"

lemma top_bit: "drop_bit 7 x AND 1 = (if bit (x :: u8) 7 then 1 else 0)"
proof (rule bit_word_eqI)
  fix n :: nat
  show "bit (drop_bit 7 x AND 1) n = bit (if bit x 7 then 1 else 0 :: u8) n"
    by (cases n) (auto simp: bit_simps bit_1_iff)
qed

lemma xtime_cases: "xtime x = push_bit 1 x XOR (if bit x 7 then 0x1b else 0)"
  unfolding xtime_def top_bit by simp

lemma xtime_xor: "xtime (x XOR y) = xtime x XOR xtime y"
proof -
  have "push_bit 1 (x XOR y) = push_bit 1 x XOR push_bit 1 y"
    by (rule bit_word_eqI) (auto simp: bit_simps)
  then show ?thesis
    unfolding xtime_cases bit_xor_iff
    by (cases "bit x 7"; cases "bit y 7") (simp_all only: if_True if_False simp_thms ac_simps xor_self_eq xor.right_neutral xor.left_neutral xor.left_commute)
qed

lemma mix_columns_eq_matrix: "mix_columns st = mix_columns_matrix st"
  by (induction st rule: mix_columns.induct) (simp_all add: Let_def xtime_xor ac_simps)

subsection \<open>A session\<close>

text \<open>The packets of a session, encrypted (decrypted) one after the other by one context.\<close>

fun encrypt_packets :: "encryption_context \<Rightarrow> bytes list \<Rightarrow> bytes list" where
  "encrypt_packets e [] = []"
| "encrypt_packets e (p # ps) =
     (case encryption_context_encrypt e p of (e', c) \<Rightarrow> c # encrypt_packets e' ps)"

fun decrypt_packets :: "decryption_context \<Rightarrow> bytes list \<Rightarrow> bytes list" where
  "decrypt_packets d [] = []"
| "decrypt_packets d (c # cs) =
     (case decryption_context_decrypt d c of (d', p) \<Rightarrow> p # decrypt_packets d' cs)"

lemma decrypt_packets_encrypt_packets:
  assumes "enc_iv e = dec_iv d"
  shows "decrypt_packets d (encrypt_packets e ps) = ps"
  using assms by (induction ps arbitrary: e d) (simp_all add: case_prod_unfold encrypt_decrypt)

subsection \<open>Properties\<close>

text \<open>
  C31: The cipher is lossless for a whole session: a decryption context created with the IV of
  an encryption context gives back every packet the latter encrypted, in order, whatever the
  packets' lengths and contents (so both sides also update their IVs alike).
\<close>

theorem session_cipher_round_trip:
  "decrypt_packets (decryption_context_new iv) (encrypt_packets (encryption_context_new iv maple_version) ps) = ps"
  by (rule decrypt_packets_encrypt_packets) (simp add: encryption_context_new_def decryption_context_new_def)

text \<open>
  The precomputed round keys \<open>CONTEXT\<close> are the AES-256 key schedule of FIPS-197 applied
  to their own first 32 bytes: all 60 words of it.
\<close>

theorem CONTEXT_is_key_schedule:
  "words_of CONTEXT = take 60 (key_schedule 8 1 (take 8 (words_of CONTEXT)))"
proof -
  have "take 8 (words_of CONTEXT) = key_block_0"
    unfolding words_of_CONTEXT by (simp add: key_block_0_def)
  then show ?thesis
    by (simp only: key_schedule_blocks words_of_CONTEXT)
qed

end
