(* ===== verification/Framing.thy ===== *)
theory Framing
  imports Crypt
begin

unbundle bit_operations_syntax

text \<open>
  The bufferevent filters of \<^verbatim>\<open>src/src/channel/server.c\<close> and \<^verbatim>\<open>src/src/login/server.c\<close>,
  between the packets of the server and the encrypted stream on the socket.

  \<open>session_write\<close> queues the length of a packet (16 bits) and the packet; \<open>output_filter\<close>
  takes one packet out of that queue and emits the cipher's 4-byte header and the encrypted
  data; \<open>input_filter\<close> recovers the length from a received header, waits for the whole
  packet, decrypts it and queues it (the channel server with its length, the login server
  without).

  The \<open>evbuffer\<close>s belong to libevent. Their operations are an argument of the definitions,
  the record \<open>evbuffer_api\<close>; \<open>evbuffer_laws api contents\<close> states libevent's documented
  behaviour, that of a queue of bytes whose content is \<open>contents\<close>.
\<close>

record 'b evbuffer_api =
  evbuffer_get_length :: "'b \<Rightarrow> nat"
  evbuffer_copyout :: "'b \<Rightarrow> nat \<Rightarrow> bytes"
  evbuffer_drain :: "'b \<Rightarrow> nat \<Rightarrow> 'b"
  evbuffer_remove :: "'b \<Rightarrow> nat \<Rightarrow> 'b \<times> bytes"
  evbuffer_add :: "'b \<Rightarrow> bytes \<Rightarrow> 'b"

definition evbuffer_laws :: "'b evbuffer_api \<Rightarrow> ('b \<Rightarrow> bytes) \<Rightarrow> bool" where
  "evbuffer_laws api contents \<longleftrightarrow>
     (\<forall>b. evbuffer_get_length api b = length (contents b)) \<and>
     (\<forall>b n. evbuffer_copyout api b n = take n (contents b)) \<and>
     (\<forall>b n. contents (evbuffer_drain api b n) = drop n (contents b)) \<and>
     (\<forall>b n. contents (fst (evbuffer_remove api b n)) = drop n (contents b)) \<and>
     (\<forall>b n. snd (evbuffer_remove api b n) = take n (contents b)) \<and>
     (\<forall>b bs. contents (evbuffer_add api b bs) = contents b @ bs)"

text \<open>\<open>Undefined_length\<close>: \<open>packet_len\<close> is used although fewer than two bytes were copied into it.\<close>

datatype bufferevent_filter_result = BEV_OK | BEV_NEED_MORE | Undefined_length

subsection \<open>The filters\<close>

definition frame_length :: "bytes \<Rightarrow> u16" where
  "frame_length hdr = (let header = (word_of_int (le_val hdr) :: u32) in ucast (drop_bit 16 header XOR header))"

text \<open>The filter of the channel server: the length goes in front of the packet.\<close>

definition input_filter ::
  "'b evbuffer_api \<Rightarrow> decryption_context \<Rightarrow> 'b \<Rightarrow> 'b \<Rightarrow>
   bufferevent_filter_result \<times> decryption_context \<times> 'b \<times> 'b" where
  "input_filter api ctx src dst =
     (if evbuffer_get_length api src < 4 then (BEV_NEED_MORE, ctx, src, dst)
      else let packet_len = frame_length (evbuffer_copyout api src 4)
           in if 4 + unat packet_len > evbuffer_get_length api src then (BEV_NEED_MORE, ctx, src, dst)
              else let src = evbuffer_drain api src 4;
                       (src, ds) = evbuffer_remove api src (unat packet_len);
                       (ctx, ds) = decryption_context_decrypt ctx ds;
                       dst = evbuffer_add api dst (le_bytes 2 (uint packet_len) @ ds)
                   in (BEV_OK, ctx, src, dst))"

text \<open>The filter of the login server: the packet alone.\<close>

definition login_input_filter ::
  "'b evbuffer_api \<Rightarrow> decryption_context \<Rightarrow> 'b \<Rightarrow> 'b \<Rightarrow>
   bufferevent_filter_result \<times> decryption_context \<times> 'b \<times> 'b" where
  "login_input_filter api ctx src dst =
     (if evbuffer_get_length api src < 4 then (BEV_NEED_MORE, ctx, src, dst)
      else let packet_len = frame_length (evbuffer_copyout api src 4)
           in if 4 + unat packet_len > evbuffer_get_length api src then (BEV_NEED_MORE, ctx, src, dst)
              else let src = evbuffer_drain api src 4;
                       (src, ds) = evbuffer_remove api src (unat packet_len);
                       (ctx, ds) = decryption_context_decrypt ctx ds;
                       dst = evbuffer_add api dst ds
                   in (BEV_OK, ctx, src, dst))"

definition output_filter ::
  "'b evbuffer_api \<Rightarrow> encryption_context \<Rightarrow> 'b \<Rightarrow> 'b \<Rightarrow>
   bufferevent_filter_result \<times> encryption_context \<times> 'b \<times> 'b" where
  "output_filter api ctx src dst =
     (let len = evbuffer_get_length api src;
          copied = evbuffer_copyout api src 2
      in if length copied < 2 then (Undefined_length, ctx, src, dst)
         else let packet_len = (word_of_int (le_val copied) :: u16)
              in if 2 + unat packet_len > len then (BEV_NEED_MORE, ctx, src, dst)
                 else let src = evbuffer_drain api src 2;
                          header = encryption_context_header ctx packet_len;
                          (src, ds) = evbuffer_remove api src (unat packet_len);
                          (ctx, ds) = encryption_context_encrypt ctx ds;
                          dst = evbuffer_add api dst (header @ ds)
                      in (BEV_OK, ctx, src, dst))"

definition session_write :: "'b evbuffer_api \<Rightarrow> 'b \<Rightarrow> nat \<Rightarrow> bytes \<Rightarrow> 'b" where
  "session_write api out len pkt =
     (if len = 0 then out
      else let packet_len = (of_nat len :: u16);
               out = evbuffer_add api out (le_bytes 2 (uint packet_len))
           in evbuffer_add api out (take len pkt))"

subsection \<open>The header\<close>

lemma u16_bits: "16 \<le> n \<Longrightarrow> \<not> bit (x :: u16) n"
  using bit_imp_le_length [of x n] by auto

lemma frame_length_header: "frame_length (encryption_context_header e n) = n"
proof -
  define iiv where "iiv = ((ucast (enc_iv e ! 3) :: u16) OR push_bit 8 (ucast (enc_iv e ! 2))) XOR mapleVersion e"
  define x where "x = iiv XOR (push_bit 8 n OR drop_bit 8 n)"
  have hdr: "encryption_context_header e n =
      [ucast (drop_bit 8 iiv), ucast iiv, ucast (drop_bit 8 x), ucast x]"
    by (simp add: encryption_context_header_def Let_def iiv_def x_def)
  show ?thesis
  proof (rule bit_word_eqI)
    fix k :: nat
    assume "k < LENGTH(16)"
    then consider "k < 8" | "8 \<le> k" "k < 16" by fastforce
    then show "bit (frame_length (encryption_context_header e n)) k = bit n k"
    proof cases
      case 1
      then show ?thesis
        unfolding hdr frame_length_def word_of_bytes4 Let_def
        by (auto simp: bit_simps x_def u16_bits ac_simps)
    next
      case 2
      then obtain j where "k = 8 + j" "j < 8" by (metis add_less_cancel_left le_Suc_ex numeral_Bit0)
      then show ?thesis
        unfolding hdr frame_length_def word_of_bytes4 Let_def
        by (auto simp: bit_simps x_def u16_bits ac_simps)
    qed
  qed
qed

subsection \<open>One packet\<close>

definition framed :: "bytes \<Rightarrow> bytes" where
  "framed p = le_bytes 2 (int (length p)) @ p"

lemma evbuffer_lawsD:
  assumes "evbuffer_laws api contents"
  shows "evbuffer_get_length api b = length (contents b)"
    "evbuffer_copyout api b n = take n (contents b)"
    "contents (evbuffer_drain api b n) = drop n (contents b)"
    "contents (fst (evbuffer_remove api b n)) = drop n (contents b)"
    "snd (evbuffer_remove api b n) = take n (contents b)"
    "contents (evbuffer_add api b bs) = contents b @ bs"
  using assms by (simp_all add: evbuffer_laws_def)

lemma uint_u16_of_length: "length p < 65536 \<Longrightarrow> uint (of_nat (length p) :: u16) = int (length p)"
  by (simp add: uint_nat unat_of_nat)

lemma u16_length:
  assumes "length p < 65536"
  shows "(word_of_int (le_val (le_bytes 2 (int (length p)))) :: u16) = of_nat (length p)"
    and "unat (of_nat (length p) :: u16) = length p"
proof -
  show "unat (of_nat (length p) :: u16) = length p"
    using assms by (simp add: unat_of_nat)
  show "(word_of_int (le_val (le_bytes 2 (int (length p)))) :: u16) = of_nat (length p)"
    using word_of_int_le_val_16 [of "of_nat (length p)"] uint_u16_of_length [OF assms] by simp
qed

lemma session_write_contents:
  assumes "evbuffer_laws api contents" and "0 < length p" and "length p < 65536"
  shows "contents (session_write api out (length p) p) = contents out @ framed p"
  using assms(2,3) evbuffer_lawsD [OF assms(1)] uint_u16_of_length [of p]
  by (simp add: session_write_def framed_def Let_def)

lemma output_filter_frame:
  assumes laws: "evbuffer_laws api contents" and src: "contents src = framed p @ rest"
    and len: "length p < 65536"
  shows "\<exists>src' dst'. output_filter api e src dst = (BEV_OK, fst (encryption_context_encrypt e p), src', dst') \<and>
    contents src' = rest \<and>
    contents dst' = contents dst @ encryption_context_header e (of_nat (length p)) @
      snd (encryption_context_encrypt e p)"
proof -
  note api = evbuffer_lawsD [OF laws]
  obtain src1 ds where rm: "evbuffer_remove api (evbuffer_drain api src 2) (length p) = (src1, ds)"
    by (cases "evbuffer_remove api (evbuffer_drain api src 2) (length p)")
  have "ds = p" "contents src1 = rest"
    using api(4,5) [of "evbuffer_drain api src 2" "length p"] by (simp_all add: rm api(3) src framed_def)
  then show ?thesis
    using len u16_length [OF len] rm
    by (simp add: output_filter_def api src framed_def Let_def case_prod_unfold)
qed

lemma input_filter_frame:
  assumes laws: "evbuffer_laws api contents"
    and src: "contents src = encryption_context_header e (of_nat (length p)) @
      snd (encryption_context_encrypt e p) @ rest"
    and len: "length p < 65536" and iv: "enc_iv e = dec_iv d"
  shows "\<exists>src' dst'. input_filter api d src dst =
      (BEV_OK, d\<lparr>dec_iv := enc_iv (fst (encryption_context_encrypt e p))\<rparr>, src', dst') \<and>
    contents src' = rest \<and> contents dst' = contents dst @ framed p"
proof -
  note api = evbuffer_lawsD [OF laws]
  obtain src1 ds where rm: "evbuffer_remove api (evbuffer_drain api src 4) (length p) = (src1, ds)"
    by (cases "evbuffer_remove api (evbuffer_drain api src 4) (length p)")
  have "ds = snd (encryption_context_encrypt e p)" "contents src1 = rest"
    using api(4,5) [of "evbuffer_drain api src 4" "length p"] by (simp_all add: rm api(3) src)
  then show ?thesis
    using len u16_length [OF len] rm encrypt_decrypt [OF iv] uint_u16_of_length [OF len]
    by (simp add: input_filter_def api src framed_def Let_def frame_length_header case_prod_unfold)
qed

lemma login_input_filter_frame:
  assumes laws: "evbuffer_laws api contents"
    and src: "contents src = encryption_context_header e (of_nat (length p)) @
      snd (encryption_context_encrypt e p) @ rest"
    and len: "length p < 65536" and iv: "enc_iv e = dec_iv d"
  shows "\<exists>src' dst'. login_input_filter api d src dst =
      (BEV_OK, d\<lparr>dec_iv := enc_iv (fst (encryption_context_encrypt e p))\<rparr>, src', dst') \<and>
    contents src' = rest \<and> contents dst' = contents dst @ p"
proof -
  note api = evbuffer_lawsD [OF laws]
  obtain src1 ds where rm: "evbuffer_remove api (evbuffer_drain api src 4) (length p) = (src1, ds)"
    by (cases "evbuffer_remove api (evbuffer_drain api src 4) (length p)")
  have "ds = snd (encryption_context_encrypt e p)" "contents src1 = rest"
    using api(4,5) [of "evbuffer_drain api src 4" "length p"] by (simp_all add: rm api(3) src)
  then show ?thesis
    using len u16_length [OF len] rm encrypt_decrypt [OF iv]
    by (simp add: login_input_filter_def api src Let_def frame_length_header case_prod_unfold)
qed

text \<open>A packet that has not arrived completely stays in the buffer, and the cipher is not advanced.\<close>

lemma input_filter_partial:
  assumes laws: "evbuffer_laws api contents"
    and src: "contents src = take k (encryption_context_header e (of_nat (length p)) @ ds)"
    and len: "length p < 65536" "length ds = length p" and k: "k < 4 + length p"
  shows "input_filter api d src dst = (BEV_NEED_MORE, d, src, dst)"
proof (cases "k < 4")
  case True
  with src len(2) show ?thesis
    by (simp add: input_filter_def evbuffer_lawsD [OF laws])
next
  case False
  with src have "evbuffer_copyout api src 4 = encryption_context_header e (of_nat (length p))"
    by (simp add: evbuffer_lawsD [OF laws] min_def)
  moreover have "evbuffer_get_length api src = k"
    using src len(2) k by (simp add: evbuffer_lawsD [OF laws])
  ultimately show ?thesis
    using False k u16_length [OF len(1)]
    by (simp add: input_filter_def Let_def frame_length_header)
qed

subsection \<open>Streams of packets\<close>

text \<open>\<open>pump f n\<close>: libevent calls the filter \<open>n\<close> times, as long as it answers \<open>BEV_OK\<close>.\<close>

fun pump :: "('c \<Rightarrow> 'b \<Rightarrow> 'b \<Rightarrow> bufferevent_filter_result \<times> 'c \<times> 'b \<times> 'b) \<Rightarrow> nat \<Rightarrow>
  'c \<Rightarrow> 'b \<Rightarrow> 'b \<Rightarrow> bufferevent_filter_result \<times> 'c \<times> 'b \<times> 'b" where
  "pump f 0 ctx src dst = (BEV_OK, ctx, src, dst)"
| "pump f (Suc n) ctx src dst =
     (case f ctx src dst of
        (BEV_OK, ctx, src, dst) \<Rightarrow> pump f n ctx src dst
      | r \<Rightarrow> r)"

text \<open>The encrypted stream of a list of packets and the encryption state after it.\<close>

fun stream_of :: "encryption_context \<Rightarrow> bytes list \<Rightarrow> encryption_context \<times> bytes" where
  "stream_of e [] = (e, [])"
| "stream_of e (p # ps) =
     (case encryption_context_encrypt e p of (e', c) \<Rightarrow>
        (case stream_of e' ps of (e'', cs) \<Rightarrow>
           (e'', encryption_context_header e (of_nat (length p)) @ c @ cs)))"

lemma pump_output:
  assumes laws: "evbuffer_laws api contents" and "\<forall>p \<in> set ps. length p < 65536"
    and "contents src = concat (map framed ps) @ rest"
  shows "\<exists>src' dst'. pump (output_filter api) (length ps) e src dst = (BEV_OK, fst (stream_of e ps), src', dst') \<and>
    contents src' = rest \<and> contents dst' = contents dst @ snd (stream_of e ps)"
  using assms(2,3)
proof (induction ps arbitrary: e src dst)
  case Nil
  then show ?case by simp
next
  case (Cons p ps)
  then obtain src1 dst1 where
    1: "output_filter api e src dst = (BEV_OK, fst (encryption_context_encrypt e p), src1, dst1)"
    "contents src1 = concat (map framed ps) @ rest"
    "contents dst1 = contents dst @ encryption_context_header e (of_nat (length p)) @
      snd (encryption_context_encrypt e p)"
    using output_filter_frame [OF laws, of src p "concat (map framed ps) @ rest" e dst] by auto
  from Cons.IH [OF _ 1(2)] Cons.prems(1) obtain src2 dst2 where
    "pump (output_filter api) (length ps) (fst (encryption_context_encrypt e p)) src1 dst1 =
      (BEV_OK, fst (stream_of (fst (encryption_context_encrypt e p)) ps), src2, dst2)"
    "contents src2 = rest"
    "contents dst2 = contents dst1 @ snd (stream_of (fst (encryption_context_encrypt e p)) ps)"
    by fastforce
  with 1 show ?case by (simp add: case_prod_unfold)
qed

lemma pump_input:
  assumes laws: "evbuffer_laws api contents" and "\<forall>p \<in> set ps. length p < 65536"
    and "contents src = snd (stream_of e ps) @ rest" and "enc_iv e = dec_iv d"
  shows "\<exists>d' src' dst'. pump (input_filter api) (length ps) d src dst = (BEV_OK, d', src', dst') \<and>
    dec_iv d' = enc_iv (fst (stream_of e ps)) \<and> contents src' = rest \<and>
    contents dst' = contents dst @ concat (map framed ps)"
  using assms(2-4)
proof (induction ps arbitrary: e d src dst)
  case Nil
  then show ?case by simp
next
  case (Cons p ps)
  let ?e = "fst (encryption_context_encrypt e p)"
  from Cons.prems have "contents src = encryption_context_header e (of_nat (length p)) @
      snd (encryption_context_encrypt e p) @ (snd (stream_of ?e ps) @ rest)"
    by (simp add: case_prod_unfold)
  from input_filter_frame [OF laws this, of d dst] Cons.prems obtain src1 dst1 where
    1: "input_filter api d src dst = (BEV_OK, d\<lparr>dec_iv := enc_iv ?e\<rparr>, src1, dst1)"
    "contents src1 = snd (stream_of ?e ps) @ rest" "contents dst1 = contents dst @ framed p"
    by auto
  from Cons.IH [OF _ 1(2), of "d\<lparr>dec_iv := enc_iv ?e\<rparr>"] Cons.prems(1) obtain d' src2 dst2 where
    "pump (input_filter api) (length ps) (d\<lparr>dec_iv := enc_iv ?e\<rparr>) src1 dst1 = (BEV_OK, d', src2, dst2)"
    "dec_iv d' = enc_iv (fst (stream_of ?e ps))" "contents src2 = rest"
    "contents dst2 = contents dst1 @ concat (map framed ps)"
    by fastforce
  with 1 show ?case by (simp add: case_prod_unfold)
qed

subsection \<open>Properties\<close>

text \<open>
  The packet length survives the header: the receiving side's \<open>(header >> 16) ^ header\<close>
  on the four bytes that \<open>encryption_context_header\<close> produces is the length given to it,
  for every IV, version and 16-bit length.
\<close>

theorem header_length_round_trip: "frame_length (encryption_context_header e n) = n"
  by (rule frame_length_header)

text \<open>
  C1: End to end, for buffers that behave like libevent's: the packets that
  \<open>session_write\<close> queues on one side, pushed through \<open>output_filter\<close>, carried as one byte
  stream and pushed through \<open>input_filter\<close> on the other side (created with the same IV), come
  out exactly as queued, each after its length, in order, with nothing left in the stream and
  the two IVs equal again.
\<close>

theorem filters_deliver_packets:
  assumes "evbuffer_laws api contents"
    and "\<forall>p \<in> set ps. 0 < length p \<and> length p < 65536"
    and "contents none = []"
    and "queue = fold (\<lambda>p out. session_write api out (length p) p) ps none"
    and "pump (output_filter api) (length ps) (encryption_context_new iv v) queue none = (r1, e', queue', wire)"
    and "pump (input_filter api) (length ps) (decryption_context_new iv) wire none = (r2, d', wire', delivered)"
  shows "r1 = BEV_OK \<and> contents queue' = [] \<and> r2 = BEV_OK \<and> contents wire' = [] \<and>
    contents delivered = concat (map (\<lambda>p. le_bytes 2 (int (length p)) @ p) ps) \<and> dec_iv d' = enc_iv e'"
proof -
  have "contents (fold (\<lambda>p out. session_write api out (length p) p) qs b) = contents b @ concat (map framed qs)"
    if "\<forall>p \<in> set qs. 0 < length p \<and> length p < 65536" for qs b
    using that by (induction qs arbitrary: b) (simp_all add: session_write_contents [OF assms(1)])
  from this [OF assms(2)] have q: "contents queue = concat (map framed ps) @ []"
    by (simp add: assms(3,4))
  have short: "\<forall>p \<in> set ps. length p < 65536" using assms(2) by simp
  from pump_output [OF assms(1) short q, of "encryption_context_new iv v" none] assms(3,5)
  have 1: "r1 = BEV_OK" "contents queue' = []" "e' = fst (stream_of (encryption_context_new iv v) ps)"
    "contents wire = snd (stream_of (encryption_context_new iv v) ps) @ []"
    by auto
  have "enc_iv (encryption_context_new iv v) = dec_iv (decryption_context_new iv)"
    by (simp add: encryption_context_new_def decryption_context_new_def)
  from pump_input [OF assms(1) short 1(4) this, of none] assms(3,6) 1(1-3)
  show ?thesis by (auto simp: framed_def [abs_def])
qed

text \<open>Byte queues as lists, for the witnesses.\<close>

definition list_evbuffer :: "bytes evbuffer_api" where
  "list_evbuffer =
     \<lparr>evbuffer_get_length = length, evbuffer_copyout = (\<lambda>b n. take n b), evbuffer_drain = (\<lambda>b n. drop n b),
      evbuffer_remove = (\<lambda>b n. (drop n b, take n b)), evbuffer_add = (@)\<rparr>"

lemma list_evbuffer_laws: "evbuffer_laws list_evbuffer id"
  by (simp add: evbuffer_laws_def list_evbuffer_def)

theorem filters_deliver_packets_witness:
  "\<exists>r1 e' queue' wire r2 d' wire' delivered.
     pump (output_filter list_evbuffer) (length [[7, 8], [9 :: u8]]) (encryption_context_new [1, 2, 3, 4] 83)
       (fold (\<lambda>p out. session_write list_evbuffer out (length p) p) [[7, 8], [9]] []) [] = (r1, e', queue', wire) \<and>
     pump (input_filter list_evbuffer) (length [[7, 8], [9 :: u8]]) (decryption_context_new [1, 2, 3, 4]) wire [] =
       (r2, d', wire', delivered) \<and>
     r1 = BEV_OK \<and> queue' = [] \<and> r2 = BEV_OK \<and> wire' = [] \<and> delivered = [2, 0, 7, 8, 1, 0, 9] \<and>
     dec_iv d' = enc_iv e'"
proof -
  let ?q = "fold (\<lambda>p out. session_write list_evbuffer out (length p) p) [[7, 8], [9]] []"
  let ?n = "length [[7, 8], [9 :: u8]]"
  obtain r1 e' queue' wire where
    1: "pump (output_filter list_evbuffer) ?n (encryption_context_new [1, 2, 3, 4] 83) ?q [] = (r1, e', queue', wire)"
    by (rule prod_cases4)
  obtain r2 d' wire' delivered where
    2: "pump (input_filter list_evbuffer) ?n (decryption_context_new [1, 2, 3, 4]) wire [] = (r2, d', wire', delivered)"
    by (rule prod_cases4)
  have "r1 = BEV_OK \<and> id queue' = [] \<and> r2 = BEV_OK \<and> id wire' = [] \<and>
    id delivered = concat (map (\<lambda>p. le_bytes 2 (int (length p)) @ p) [[7, 8], [9]]) \<and> dec_iv d' = enc_iv e'"
    by (rule filters_deliver_packets [OF list_evbuffer_laws _ _ refl 1 2]) simp_all
  then have "r1 = BEV_OK" "queue' = []" "r2 = BEV_OK" "wire' = []" "delivered = [2, 0, 7, 8, 1, 0, 9]"
    "dec_iv d' = enc_iv e'"
    by (simp_all add: numeral_2_eq_2)
  with 1 2 show ?thesis by blast
qed

text \<open>
  A packet that has only partly arrived is left alone: as long as fewer than the header
  and the announced number of bytes are in the buffer, \<open>input_filter\<close> asks for more and
  changes neither the buffers nor the decryption state.
\<close>

theorem partial_packet_waits:
  assumes "evbuffer_laws api contents" and "length p < 65536"
    and "contents src = take k (encryption_context_header e (of_nat (length p)) @
      snd (encryption_context_encrypt e p))"
    and "k < 4 + length p"
  shows "input_filter api d src dst = (BEV_NEED_MORE, d, src, dst)"
  using input_filter_partial [OF assms(1,3,2) _ assms(4)] by simp

theorem partial_packet_waits_witness:
  "input_filter list_evbuffer (decryption_context_new [1, 2, 3, 4])
     (take 5 (encryption_context_header (encryption_context_new [1, 2, 3, 4] 83) 2 @
       snd (encryption_context_encrypt (encryption_context_new [1, 2, 3, 4] 83) [7, 8]))) [] =
   (BEV_NEED_MORE, decryption_context_new [1, 2, 3, 4],
    take 5 (encryption_context_header (encryption_context_new [1, 2, 3, 4] 83) 2 @
       snd (encryption_context_encrypt (encryption_context_new [1, 2, 3, 4] 83) [7, 8])), [])"
  by (rule partial_packet_waits [OF list_evbuffer_laws, where p = "[7, 8]" and k = 5
        and e = "encryption_context_new [1, 2, 3, 4] 83"]) simp_all

end
