(* ===== verification/Writer.thy ===== *)
theory Writer
  imports Prelude
begin

text \<open>
  The packet writer of \<^verbatim>\<open>src/src/writer.c\<close>: a cursor into a caller-supplied buffer.

  Every primitive first asserts that it stays below \<open>size\<close> and then copies into
  \<open>packet + pos\<close>; \<open>writer_zero\<close> has no assertion. A failed \<open>assert\<close> aborts the server;
  a copy past the end of the caller's array is undefined behaviour. Both are error values
  here, and so are a copy that reads past the end of its source array and the use of a null
  pointer. The buffer really
  handed over (\<open>packet\<close>) and the length the writer believes in (\<open>wsize\<close>) are separate
  fields, since \<^verbatim>\<open>packet.c\<close> passes them separately.

  A packet builder is a sequence of writer calls: \<open>run_ops\<close> executes a list of calls in
  order and stops at the first error. \<open>emits op bs\<close> is the contract of a call: it appends
  exactly \<open>bs\<close> when these fit and nothing else is ever its result.
\<close>

datatype werror = AssertionFailed | BufferOverrun | SourceOverread | NullDereference

record writer =
  wsize :: nat
  wpos :: nat
  packet :: bytes

type_synonym wop = "writer \<Rightarrow> werror + writer"

subsection \<open>The primitives\<close>

definition writer_init :: "nat \<Rightarrow> bytes \<Rightarrow> writer" where
  "writer_init sz pkt = \<lparr>wsize = sz, wpos = 0, packet = pkt\<rparr>"

text \<open>\<open>memcpy (writer->packet + writer->pos, ...)\<close> followed by \<open>writer->pos += n\<close>.\<close>

definition appended :: "bytes \<Rightarrow> writer \<Rightarrow> writer" where
  "appended bs w =
     w\<lparr>packet := take (wpos w) (packet w) @ bs @ drop (wpos w + length bs) (packet w),
       wpos := wpos w + length bs\<rparr>"

definition copy_in :: "bytes \<Rightarrow> wop" where
  "copy_in bs w =
     (if wpos w + length bs \<le> length (packet w) then Inr (appended bs w) else Inl BufferOverrun)"

definition has_room :: "nat \<Rightarrow> writer \<Rightarrow> bool" where
  "has_room n w \<longleftrightarrow> wpos w + n \<le> wsize w"

definition writer_bool :: "bool \<Rightarrow> wop" where
  "writer_bool d w = (if has_room 1 w then copy_in [if d then 1 else 0] w else Inl AssertionFailed)"

definition writer_i8 :: "int \<Rightarrow> wop" where
  "writer_i8 d w = (if has_room 1 w then copy_in (le_bytes 1 d) w else Inl AssertionFailed)"

definition writer_u8 :: "u8 \<Rightarrow> wop" where
  "writer_u8 d w = (if has_room 1 w then copy_in (le_bytes 1 (uint d)) w else Inl AssertionFailed)"

definition writer_i16 :: "int \<Rightarrow> wop" where
  "writer_i16 d w = (if has_room 2 w then copy_in (le_bytes 2 d) w else Inl AssertionFailed)"

definition writer_u16 :: "u16 \<Rightarrow> wop" where
  "writer_u16 d w = (if has_room 2 w then copy_in (le_bytes 2 (uint d)) w else Inl AssertionFailed)"

definition writer_i32 :: "int \<Rightarrow> wop" where
  "writer_i32 d w = (if has_room 4 w then copy_in (le_bytes 4 d) w else Inl AssertionFailed)"

definition writer_u32 :: "u32 \<Rightarrow> wop" where
  "writer_u32 d w = (if has_room 4 w then copy_in (le_bytes 4 (uint d)) w else Inl AssertionFailed)"

definition writer_i64 :: "int \<Rightarrow> wop" where
  "writer_i64 d w = (if has_room 8 w then copy_in (le_bytes 8 d) w else Inl AssertionFailed)"

definition writer_u64 :: "u64 \<Rightarrow> wop" where
  "writer_u64 d w = (if has_room 8 w then copy_in (le_bytes 8 (uint d)) w else Inl AssertionFailed)"

definition writer_zero :: "nat \<Rightarrow> wop" where
  "writer_zero count w = copy_in (replicate count 0) w"

definition writer_array :: "u16 \<Rightarrow> bytes \<Rightarrow> wop" where
  "writer_array n d w =
     (if \<not> has_room (unat n) w then Inl AssertionFailed
      else if length d < unat n then Inl SourceOverread
      else copy_in (take (unat n) d) w)"

definition writer_sized_string :: "u16 \<Rightarrow> bytes \<Rightarrow> wop" where
  "writer_sized_string n d w =
     (case writer_u16 n w of
        Inl e \<Rightarrow> Inl e
      | Inr w' \<Rightarrow>
          (if \<not> has_room (unat n) w' then Inl AssertionFailed
           else if length d < unat n then Inl SourceOverread
           else copy_in (take (unat n) d) w'))"

subsection \<open>Sequences of calls\<close>

fun run_ops :: "wop list \<Rightarrow> wop" where
  "run_ops [] w = Inr w"
| "run_ops (f # fs) w = (case f w of Inl e \<Rightarrow> Inl e | Inr w' \<Rightarrow> run_ops fs w')"

lemma run_ops_append:
  "run_ops (fs @ gs) w = (case run_ops fs w of Inl e \<Rightarrow> Inl e | Inr w' \<Rightarrow> run_ops gs w')"
  by (induction fs arbitrary: w) (auto split: sum.splits)

text \<open>Using the element \<open>xs[i]\<close> of an array.\<close>

definition with_elem :: "'a list \<Rightarrow> nat \<Rightarrow> ('a \<Rightarrow> wop) \<Rightarrow> wop" where
  "with_elem xs i f w = (if i < length xs then f (xs ! i) w else Inl SourceOverread)"

subsection \<open>The contract of a call\<close>

definition emits :: "wop \<Rightarrow> bytes \<Rightarrow> bool" where
  "emits op bs \<longleftrightarrow>
     (\<forall>w. wpos w + length bs \<le> wsize w \<and> wpos w + length bs \<le> length (packet w) \<longrightarrow>
        op w = Inr (appended bs w)) \<and>
     (\<forall>w w'. wpos w \<le> length (packet w) \<and> op w = Inr w' \<longrightarrow>
        w' = appended bs w \<and> wpos w + length bs \<le> length (packet w))"

named_theorems emits_intro \<open>contracts of writer calls\<close>

lemma emitsI:
  assumes "\<And>w. wpos w + length bs \<le> wsize w \<Longrightarrow> wpos w + length bs \<le> length (packet w) \<Longrightarrow>
      op w = Inr (appended bs w)"
    and "\<And>w w'. wpos w \<le> length (packet w) \<Longrightarrow> op w = Inr w' \<Longrightarrow>
      w' = appended bs w \<and> wpos w + length bs \<le> length (packet w)"
  shows "emits op bs"
  unfolding emits_def using assms by blast

lemma emitsD:
  assumes "emits op bs"
  shows emits_success: "wpos w + length bs \<le> wsize w \<Longrightarrow> wpos w + length bs \<le> length (packet w) \<Longrightarrow>
      op w = Inr (appended bs w)"
    and emits_result: "wpos w \<le> length (packet w) \<Longrightarrow> op w = Inr w' \<Longrightarrow> w' = appended bs w"
    and emits_room: "wpos w \<le> length (packet w) \<Longrightarrow> op w = Inr w' \<Longrightarrow>
      wpos w + length bs \<le> length (packet w)"
  using assms unfolding emits_def by blast+

lemma wpos_appended [simp]: "wpos (appended bs w) = wpos w + length bs"
  and wsize_appended [simp]: "wsize (appended bs w) = wsize w"
  by (simp_all add: appended_def)

lemma packet_appended:
  "packet (appended bs w) = take (wpos w) (packet w) @ bs @ drop (wpos w + length bs) (packet w)"
  by (simp add: appended_def)

lemma length_packet_appended [simp]:
  "wpos w + length bs \<le> length (packet w) \<Longrightarrow> length (packet (appended bs w)) = length (packet w)"
  by (simp add: appended_def)

lemma appended_Nil: "wpos w \<le> length (packet w) \<Longrightarrow> appended [] w = w"
  by (simp add: appended_def)

lemma appended_appended:
  assumes "wpos w + length bs + length cs \<le> length (packet w)"
  shows "appended cs (appended bs w) = appended (bs @ cs) w"
  using assms by (simp add: appended_def ac_simps)

lemma emits_copy_in: "emits (copy_in bs) bs"
  by (rule emitsI) (auto simp: copy_in_def split: if_splits)

lemma emits_bool [emits_intro]: "emits (writer_bool d) [if d then 1 else 0]"
  and emits_i8 [emits_intro]: "emits (writer_i8 i) (le_bytes 1 i)"
  and emits_u8 [emits_intro]: "emits (writer_u8 b) (le_bytes 1 (uint b))"
  and emits_i16 [emits_intro]: "emits (writer_i16 i) (le_bytes 2 i)"
  and emits_u16 [emits_intro]: "emits (writer_u16 h) (le_bytes 2 (uint h))"
  and emits_i32 [emits_intro]: "emits (writer_i32 i) (le_bytes 4 i)"
  and emits_u32 [emits_intro]: "emits (writer_u32 u) (le_bytes 4 (uint u))"
  and emits_i64 [emits_intro]: "emits (writer_i64 i) (le_bytes 8 i)"
  and emits_u64 [emits_intro]: "emits (writer_u64 l) (le_bytes 8 (uint l))"
  by (rule emitsI; auto simp: writer_bool_def writer_i8_def writer_u8_def writer_i16_def
      writer_u16_def writer_i32_def writer_u32_def writer_i64_def writer_u64_def has_room_def
      copy_in_def split: if_splits)+

lemma emits_zero [emits_intro]: "emits (writer_zero n) (replicate n 0)"
  using emits_copy_in [of "replicate n 0"] by (simp add: writer_zero_def [abs_def])

lemma emits_array:
  assumes "unat n \<le> length d"
  shows "emits (writer_array n d) (take (unat n) d)"
  using assms by (intro emitsI) (auto simp: writer_array_def copy_in_def has_room_def split: if_splits)

lemma emits_sized_string:
  assumes "unat n \<le> length d"
  shows "emits (writer_sized_string n d) (le_bytes 2 (uint n) @ take (unat n) d)"
proof (rule emitsI)
  fix w :: writer
  assume "wpos w + length (le_bytes 2 (uint n) @ take (unat n) d) \<le> wsize w"
    and "wpos w + length (le_bytes 2 (uint n) @ take (unat n) d) \<le> length (packet w)"
  with assms show "writer_sized_string n d w = Inr (appended (le_bytes 2 (uint n) @ take (unat n) d) w)"
    by (simp add: writer_sized_string_def writer_u16_def copy_in_def has_room_def appended_appended)
next
  fix w w' :: writer
  assume "wpos w \<le> length (packet w)" and "writer_sized_string n d w = Inr w'"
  with assms show "w' = appended (le_bytes 2 (uint n) @ take (unat n) d) w \<and>
      wpos w + length (le_bytes 2 (uint n) @ take (unat n) d) \<le> length (packet w)"
    by (auto simp: writer_sized_string_def writer_u16_def copy_in_def has_room_def
        appended_appended split: if_splits)
qed

text \<open>Sequencing: the contract of a list of calls is the concatenation of theirs.\<close>

lemma emits_seq:
  assumes f: "emits f bs" and g: "emits g cs"
  shows "emits (\<lambda>w. case f w of Inl e \<Rightarrow> Inl e | Inr w' \<Rightarrow> g w') (bs @ cs)"
proof (rule emitsI)
  fix w :: writer
  assume "wpos w + length (bs @ cs) \<le> wsize w" and "wpos w + length (bs @ cs) \<le> length (packet w)"
  with f g show "(case f w of Inl e \<Rightarrow> Inl e | Inr w' \<Rightarrow> g w') = Inr (appended (bs @ cs) w)"
    by (simp add: emits_success [OF f] emits_success [OF g] appended_appended)
next
  fix w w' :: writer
  assume w: "wpos w \<le> length (packet w)"
    and "(case f w of Inl e \<Rightarrow> Inl e | Inr w' \<Rightarrow> g w') = Inr w'"
  then obtain v where v: "f w = Inr v" "g v = Inr w'"
    by (auto split: sum.splits)
  from w v(1) have 1: "v = appended bs w" "wpos w + length bs \<le> length (packet w)"
    by (rule emits_result [OF f], rule emits_room [OF f])
  then have "wpos v \<le> length (packet v)" by simp
  with v(2) have "w' = appended cs v" "wpos v + length cs \<le> length (packet v)"
    by (auto dest: emits_result [OF g] emits_room [OF g])
  with 1 show "w' = appended (bs @ cs) w \<and> wpos w + length (bs @ cs) \<le> length (packet w)"
    by (simp add: appended_appended)
qed

lemma emits_Nil [emits_intro]: "emits (run_ops []) []"
  by (rule emitsI) (auto simp: appended_Nil)

lemma emits_Cons [emits_intro]:
  assumes "emits f bs" and "emits (run_ops fs) cs"
  shows "emits (run_ops (f # fs)) (bs @ cs)"
proof -
  have "run_ops (f # fs) = (\<lambda>w. case f w of Inl e \<Rightarrow> Inl e | Inr w' \<Rightarrow> run_ops fs w')"
    by (rule ext) simp
  with emits_seq [OF assms] show ?thesis by simp
qed

lemma emits_append [emits_intro]:
  assumes "emits (run_ops fs) bs" and "emits (run_ops gs) cs"
  shows "emits (run_ops (fs @ gs)) (bs @ cs)"
proof -
  have "run_ops (fs @ gs) = (\<lambda>w. case run_ops fs w of Inl e \<Rightarrow> Inl e | Inr w' \<Rightarrow> run_ops gs w')"
    by (rule ext) (simp add: run_ops_append)
  with emits_seq [OF assms] show ?thesis by simp
qed

text \<open>A loop that makes the calls \<open>f x\<close> for every \<open>x\<close> of a list.\<close>

lemma emits_for:
  assumes "\<And>x. x \<in> set xs \<Longrightarrow> emits (run_ops (f x)) (g x)"
  shows "emits (run_ops (concat (map f xs))) (concat (map g xs))"
  using assms by (induction xs) (auto intro: emits_intro)

subsection \<open>Lengths\<close>

text \<open>
  \<open>writes op n\<close>: the call appends some \<open>n\<close> bytes, the same ones whatever the buffer held;
  \<open>writes_upto op n\<close>: at most \<open>n\<close>.
\<close>

definition writes :: "wop \<Rightarrow> nat \<Rightarrow> bool" where
  "writes op n \<longleftrightarrow> (\<exists>bs. emits op bs \<and> length bs = n)"

definition writes_upto :: "wop \<Rightarrow> nat \<Rightarrow> bool" where
  "writes_upto op n \<longleftrightarrow> (\<exists>bs. emits op bs \<and> length bs \<le> n)"

named_theorems writes_intro \<open>lengths of writer calls\<close>

lemma writesI: "emits op bs \<Longrightarrow> length bs = n \<Longrightarrow> writes op n"
  by (auto simp: writes_def)

lemma writes_eq: "writes op m \<Longrightarrow> m = n \<Longrightarrow> writes op n"
  by simp

lemma writes_primitives [writes_intro]:
  "writes (writer_bool d) 1" "writes (writer_i8 i) 1" "writes (writer_u8 b) 1"
  "writes (writer_i16 i) 2" "writes (writer_u16 h) 2"
  "writes (writer_i32 i) 4" "writes (writer_u32 u) 4"
  "writes (writer_i64 i) 8" "writes (writer_u64 l) 8"
  "writes (writer_zero n) n"
  by (rule writesI, rule emits_intro, simp)+

lemma writes_array [writes_intro]:
  "unat n \<le> length d \<Longrightarrow> writes (writer_array n d) (unat n)"
  by (rule writesI [OF emits_array]) simp_all

lemma writes_sized_string [writes_intro]:
  "unat n \<le> length d \<Longrightarrow> writes (writer_sized_string n d) (2 + unat n)"
  by (rule writesI [OF emits_sized_string]) simp_all

lemma writes_Nil [writes_intro]: "writes (run_ops []) 0"
  by (rule writesI [OF emits_Nil]) simp

lemma writes_Cons [writes_intro]:
  "writes f m \<Longrightarrow> writes (run_ops fs) n \<Longrightarrow> writes (run_ops (f # fs)) (m + n)"
  unfolding writes_def by (metis emits_Cons length_append)

lemma writes_append [writes_intro]:
  "writes (run_ops fs) m \<Longrightarrow> writes (run_ops gs) n \<Longrightarrow> writes (run_ops (fs @ gs)) (m + n)"
  unfolding writes_def by (metis emits_append length_append)

lemma writes_if [writes_intro]:
  "writes (run_ops fs) m \<Longrightarrow> writes (run_ops gs) n \<Longrightarrow>
   writes (run_ops (if b then fs else gs)) (if b then m else n)"
  by simp

lemma writes_with_elem [writes_intro]:
  assumes "i < length xs" and "writes (f (xs ! i)) n"
  shows "writes (with_elem xs i f) n"
proof -
  have "with_elem xs i f = f (xs ! i)" using assms(1) by (auto simp: with_elem_def)
  with assms(2) show ?thesis by simp
qed

lemma writes_for [writes_intro]:
  assumes "\<And>x. x \<in> set xs \<Longrightarrow> writes (run_ops (f x)) (n x)"
  shows "writes (run_ops (concat (map f xs))) (sum_list (map n xs))"
  using assms by (induction xs) (auto intro: writes_intro)

text \<open>A loop over the first \<open>n\<close> elements of an array.\<close>

lemma writes_each:
  assumes n: "n \<le> length xs" and f: "\<And>i. i < n \<Longrightarrow> writes (f i (xs ! i)) (g (xs ! i))"
  shows "writes (run_ops (concat (map (\<lambda>i. [with_elem xs i (f i)]) [0..<n]))) (sum_list (map g (take n xs)))"
proof -
  have "writes (run_ops [with_elem xs i (f i)]) (g (xs ! i))" if "i < n" for i
    using writes_Cons [OF writes_with_elem [where f = "f i" and xs = xs, OF _ f [OF that]] writes_Nil] that n by simp
  then have "writes (run_ops (concat (map (\<lambda>i. [with_elem xs i (f i)]) [0..<n]))) (sum_list (map (\<lambda>i. g (xs ! i)) [0..<n]))"
    by (intro writes_for) simp
  moreover have "map (\<lambda>i. g (xs ! i)) [0..<n] = map g (take n xs)"
    using n by (intro nth_equalityI) simp_all
  ultimately show ?thesis by simp
qed

text \<open>Upper bounds.\<close>

lemma upto_writes: "writes op m \<Longrightarrow> m \<le> n \<Longrightarrow> writes_upto op n"
  by (auto simp: writes_def writes_upto_def)

lemma upto_mono: "writes_upto op m \<Longrightarrow> m \<le> n \<Longrightarrow> writes_upto op n"
  by (auto simp: writes_upto_def)

lemma uptoE:
  assumes "writes_upto op n"
  obtains m where "writes op m" "m \<le> n"
  using assms by (auto simp: writes_def writes_upto_def)

lemma upto_Nil: "writes_upto (run_ops []) 0"
  by (rule upto_writes [OF writes_Nil]) simp

lemma upto_Cons: "writes_upto f m \<Longrightarrow> writes_upto (run_ops fs) n \<Longrightarrow> writes_upto (run_ops (f # fs)) (m + n)"
  by (elim uptoE) (rule upto_writes [OF writes_Cons], assumption+, simp)

lemma upto_append:
  "writes_upto (run_ops fs) m \<Longrightarrow> writes_upto (run_ops gs) n \<Longrightarrow> writes_upto (run_ops (fs @ gs)) (m + n)"
  by (elim uptoE) (rule upto_writes [OF writes_append], assumption+, simp)

lemma upto_with_elem:
  assumes "i < length xs" and "writes_upto (f (xs ! i)) n"
  shows "writes_upto (with_elem xs i f) n"
  using assms(2) by (elim uptoE) (rule upto_writes [OF writes_with_elem [where f = f, OF assms(1)]])

lemma upto_list:
  assumes "\<And>op. op \<in> set ops \<Longrightarrow> writes_upto op b"
  shows "writes_upto (run_ops ops) (length ops * b)"
  using assms by (induction ops) (simp_all add: upto_Nil upto_Cons del: run_ops.simps)

lemma upto_each:
  assumes "n \<le> length xs" and "\<And>i. i < n \<Longrightarrow> writes_upto (f i (xs ! i)) b"
  shows "writes_upto (run_ops (concat (map (\<lambda>i. [with_elem xs i (f i)]) [0..<n]))) (n * b)"
proof -
  have "writes_upto (run_ops (map (\<lambda>i. with_elem xs i (f i)) [0..<n])) (length (map (\<lambda>i. with_elem xs i (f i)) [0..<n]) * b)"
    using assms by (intro upto_list) (auto intro: upto_with_elem)
  then show ?thesis by simp
qed

lemma sum_list_bound: "(\<And>x. x \<in> set xs \<Longrightarrow> g x \<le> (b :: nat)) \<Longrightarrow> sum_list (map g xs) \<le> length xs * b"
  by (induction xs) (simp_all add: add_mono)

subsection \<open>Whole packets\<close>

text \<open>
  A builder with a fixed length leaves the packet in the caller's array, all of which is
  then sent; one with a variable length also returns the number of bytes to send.
\<close>

definition build_fixed :: "nat \<Rightarrow> wop list \<Rightarrow> bytes \<Rightarrow> werror + bytes" where
  "build_fixed sz ops pkt =
     (case run_ops ops (writer_init sz pkt) of Inl e \<Rightarrow> Inl e | Inr w \<Rightarrow> Inr (packet w))"

definition build_sized :: "nat \<Rightarrow> wop list \<Rightarrow> bytes \<Rightarrow> werror + bytes \<times> nat" where
  "build_sized sz ops pkt =
     (case run_ops ops (writer_init sz pkt) of Inl e \<Rightarrow> Inl e | Inr w \<Rightarrow> Inr (packet w, wpos w))"

text \<open>
  \<open>fills n P\<close>: given any array of \<open>n\<close> bytes, \<open>P\<close> succeeds and overwrites all of it, so that
  no earlier content of the array reaches the client. \<open>fits n P\<close>: given any array of \<open>n\<close>
  bytes, \<open>P\<close> succeeds, and the bytes it asks to send are the ones it wrote.
\<close>

definition fills :: "nat \<Rightarrow> (bytes \<Rightarrow> werror + bytes) \<Rightarrow> bool" where
  "fills n P \<longleftrightarrow> (\<exists>bs. length bs = n \<and> (\<forall>pkt. length pkt = n \<longrightarrow> P pkt = Inr bs))"

definition fits :: "nat \<Rightarrow> (bytes \<Rightarrow> werror + bytes \<times> nat) \<Rightarrow> bool" where
  "fits n P \<longleftrightarrow>
     (\<exists>bs. length bs \<le> n \<and>
        (\<forall>pkt. length pkt = n \<longrightarrow> P pkt = Inr (bs @ drop (length bs) pkt, length bs)))"

lemma writer_init_simps [simp]:
  "wsize (writer_init sz pkt) = sz" "wpos (writer_init sz pkt) = 0" "packet (writer_init sz pkt) = pkt"
  by (simp_all add: writer_init_def)

lemma fills_build_fixed:
  assumes "writes (run_ops ops) n" and "n \<le> sz"
  shows "fills n (build_fixed sz ops)"
proof -
  from assms obtain bs where bs: "emits (run_ops ops) bs" "length bs = n"
    by (auto simp: writes_def)
  have "build_fixed sz ops pkt = Inr bs" if "length pkt = n" for pkt
    using that bs(2) assms(2) emits_success [OF bs(1), of "writer_init sz pkt"]
    by (simp add: build_fixed_def packet_appended)
  with bs(2) show ?thesis by (auto simp: fills_def)
qed

lemma fillsI: "writes (run_ops ops) m \<Longrightarrow> m = n \<Longrightarrow> n \<le> sz \<Longrightarrow> fills n (build_fixed sz ops)"
  using fills_build_fixed by simp

lemma fits_build_sized:
  assumes "writes (run_ops ops) m" and "m \<le> n" and "m \<le> sz"
  shows "fits n (build_sized sz ops)"
proof -
  from assms obtain bs where bs: "emits (run_ops ops) bs" "length bs = m"
    by (auto simp: writes_def)
  have "build_sized sz ops pkt = Inr (bs @ drop (length bs) pkt, length bs)" if "length pkt = n" for pkt
    using that bs(2) assms(2,3) emits_success [OF bs(1), of "writer_init sz pkt"]
    by (simp add: build_sized_def packet_appended)
  with bs(2) assms(2) show ?thesis by (auto simp: fits_def)
qed

lemma fits_upto:
  assumes "writes_upto (run_ops ops) m" and "m \<le> n" and "m \<le> sz"
  shows "fits n (build_sized sz ops)"
  using assms by (elim uptoE) (rule fits_build_sized, assumption, simp_all)

text \<open>A sequence longer than the buffer can only end in an error.\<close>

lemma overlong_fails:
  assumes "writes (run_ops ops) m" and "length pkt < m"
  shows "\<exists>e. run_ops ops (writer_init sz pkt) = Inl e"
proof (cases "run_ops ops (writer_init sz pkt)")
  case (Inr w)
  from assms(1) obtain bs where bs: "emits (run_ops ops) bs" "length bs = m"
    by (auto simp: writes_def)
  from emits_room [OF bs(1) _ Inr] bs(2) assms(2) show ?thesis by simp
qed simp

end
