(* ===== verification/Reader.thy ===== *)
theory Reader
  imports Writer
begin

text \<open>
  The packet reader of \<^verbatim>\<open>src/src/reader.c\<close>: a cursor into a received packet.

  A C reader returns \<open>bool\<close> and delivers the value through a pointer. Here it returns the
  reader together with \<open>Some\<close> value (true) or \<open>None\<close> (false): on failure the reader is the one the
  C code leaves behind, which for \<open>reader_sized_string\<close> has already consumed the length.
  The last section relates the reader to the writer.
\<close>

record reader =
  rsize :: nat
  rpos :: nat
  rpacket :: bytes

type_synonym 'a rop = "reader \<Rightarrow> reader \<times> 'a option"

definition reader_init :: "nat \<Rightarrow> bytes \<Rightarrow> reader" where
  "reader_init sz pkt = \<lparr>rsize = sz, rpos = 0, rpacket = pkt\<rparr>"

definition reader_end :: "reader \<Rightarrow> bool" where
  "reader_end r \<longleftrightarrow> rpos r = rsize r"

definition reader_skip :: "nat \<Rightarrow> reader \<Rightarrow> reader" where
  "reader_skip len r = r\<lparr>rpos := rpos r + len\<rparr>"

text \<open>\<open>memcpy (data, reader->packet + reader->pos, n)\<close>.\<close>

definition bytes_at :: "nat \<Rightarrow> reader \<Rightarrow> bytes" where
  "bytes_at n r = take n (drop (rpos r) (rpacket r))"

definition reader_i8 :: "int rop" where
  "reader_i8 r =
     (if rpos r + 1 > rsize r then (r, None)
      else (r\<lparr>rpos := rpos r + 1\<rparr>, Some (to_i8 (le_val (bytes_at 1 r)))))"

definition reader_u8 :: "u8 rop" where
  "reader_u8 r =
     (if rpos r + 1 > rsize r then (r, None)
      else (r\<lparr>rpos := rpos r + 1\<rparr>, Some (word_of_int (le_val (bytes_at 1 r)))))"

definition reader_i16 :: "int rop" where
  "reader_i16 r =
     (if rpos r + 2 > rsize r then (r, None)
      else (r\<lparr>rpos := rpos r + 2\<rparr>, Some (to_i16 (le_val (bytes_at 2 r)))))"

definition reader_u16 :: "u16 rop" where
  "reader_u16 r =
     (if rpos r + 2 > rsize r then (r, None)
      else (r\<lparr>rpos := rpos r + 2\<rparr>, Some (word_of_int (le_val (bytes_at 2 r)))))"

definition reader_i32 :: "int rop" where
  "reader_i32 r =
     (if rpos r + 4 > rsize r then (r, None)
      else (r\<lparr>rpos := rpos r + 4\<rparr>, Some (to_i32 (le_val (bytes_at 4 r)))))"

definition reader_u32 :: "u32 rop" where
  "reader_u32 r =
     (if rpos r + 4 > rsize r then (r, None)
      else (r\<lparr>rpos := rpos r + 4\<rparr>, Some (word_of_int (le_val (bytes_at 4 r)))))"

definition reader_sized_string :: "u16 \<Rightarrow> bytes rop" where
  "reader_sized_string max_len r =
     (case reader_u16 r of
        (r1, None) \<Rightarrow> (r1, None)
      | (r1, Some len) \<Rightarrow>
          (if len > max_len \<or> rpos r1 + unat len > rsize r1 then (r1, None)
           else (r1\<lparr>rpos := rpos r1 + unat len\<rparr>, Some (bytes_at (unat len) r1))))"

definition reader_array :: "nat \<Rightarrow> bytes rop" where
  "reader_array len r =
     (if rpos r + len > rsize r then (r, None)
      else (r\<lparr>rpos := rpos r + len\<rparr>, Some (bytes_at len r)))"

subsection \<open>Safety of the cursor\<close>

lemmas reader_defs = reader_i8_def reader_u8_def reader_i16_def reader_u16_def reader_i32_def
  reader_u32_def reader_array_def

text \<open>
  The calls as one datatype, so that a handler's sequence of calls can be quantified over.
  \<open>run_call\<close> returns the reader left behind and whether a value was delivered
  (\<open>reader_skip\<close> delivers none and checks nothing).
\<close>

datatype read_call = R_i8 | R_u8 | R_i16 | R_u16 | R_i32 | R_u32 | R_array nat | R_sized_string u16
  | R_skip nat

definition delivers :: "reader \<times> 'a option \<Rightarrow> reader \<times> bool" where
  "delivers p = (fst p, snd p \<noteq> None)"

fun run_call :: "read_call \<Rightarrow> reader \<Rightarrow> reader \<times> bool" where
  "run_call R_i8 r = delivers (reader_i8 r)"
| "run_call R_u8 r = delivers (reader_u8 r)"
| "run_call R_i16 r = delivers (reader_i16 r)"
| "run_call R_u16 r = delivers (reader_u16 r)"
| "run_call R_i32 r = delivers (reader_i32 r)"
| "run_call R_u32 r = delivers (reader_u32 r)"
| "run_call (R_array n) r = delivers (reader_array n r)"
| "run_call (R_sized_string m) r = delivers (reader_sized_string m r)"
| "run_call (R_skip n) r = (reader_skip n r, False)"

text \<open>The size stays the packet's length, and a call that delivers a value took it from inside.\<close>

lemma run_call_safe:
  assumes "rsize r = length (rpacket r)" and "run_call c r = (r', ok)"
  shows "rpacket r' = rpacket r \<and> rsize r' = rsize r \<and> rpos r \<le> rpos r' \<and> (ok \<longrightarrow> rpos r' \<le> rsize r)"
  using assms
  by (cases c) (auto simp: delivers_def reader_defs reader_skip_def reader_sized_string_def split: if_splits)

lemma run_calls_safe:
  assumes "rsize r = length (rpacket r)"
  shows "rpacket (fold (\<lambda>c r. fst (run_call c r)) cs r) = rpacket r \<and>
    rsize (fold (\<lambda>c r. fst (run_call c r)) cs r) = rsize r"
  using assms
proof (induction cs arbitrary: r)
  case (Cons c cs)
  then show ?case
    using run_call_safe [of r c "fst (run_call c r)" "snd (run_call c r)"] by simp
qed simp

subsection \<open>Reading back what the writer wrote\<close>

text \<open>\<open>reading bs r\<close>: the bytes \<open>bs\<close> lie at the cursor, inside the packet.\<close>

definition reading :: "bytes \<Rightarrow> reader \<Rightarrow> bool" where
  "reading bs r \<longleftrightarrow> rpos r + length bs \<le> rsize r \<and> bytes_at (length bs) r = bs"

definition advance :: "nat \<Rightarrow> reader \<Rightarrow> reader" where
  "advance n r = r\<lparr>rpos := rpos r + n\<rparr>"

lemma reading_append:
  "reading (bs @ cs) r \<longleftrightarrow> reading bs r \<and> reading cs (advance (length bs) r)"
  by (auto simp: reading_def bytes_at_def advance_def take_add add.commute append_eq_conv_conj
      take_Suc min_def drop_drop [symmetric] simp del: drop_drop)

named_theorems reading_simps \<open>a read at bytes a writer call produced\<close>

lemma reading_i8 [reading_simps]: "reading (le_bytes 1 i) r \<Longrightarrow> reader_i8 r = (advance 1 r, Some (to_i8 i))"
  and reading_u8 [reading_simps]: "reading (le_bytes 1 (uint b)) r \<Longrightarrow> reader_u8 r = (advance 1 r, Some b)"
  and reading_i16 [reading_simps]: "reading (le_bytes 2 i) r \<Longrightarrow> reader_i16 r = (advance 2 r, Some (to_i16 i))"
  and reading_u16 [reading_simps]: "reading (le_bytes 2 (uint h)) r \<Longrightarrow> reader_u16 r = (advance 2 r, Some h)"
  and reading_i32 [reading_simps]: "reading (le_bytes 4 i) r \<Longrightarrow> reader_i32 r = (advance 4 r, Some (to_i32 i))"
  and reading_u32 [reading_simps]: "reading (le_bytes 4 (uint u)) r \<Longrightarrow> reader_u32 r = (advance 4 r, Some u)"
  by (simp_all add: reading_def reader_defs advance_def del: le_bytes.simps One_nat_def)

lemma reading_array [reading_simps]: "reading bs r \<Longrightarrow> length bs = n \<Longrightarrow> reader_array n r = (advance n r, Some bs)"
  by (auto simp: reading_def reader_array_def advance_def)

lemma reading_sized_string [reading_simps]:
  assumes "reading (le_bytes 2 (uint n) @ bs) r" and "length bs = unat n" and "n \<le> max_len"
  shows "reader_sized_string max_len r = (advance (2 + unat n) r, Some bs)"
proof -
  from assms(1) have r: "reading (le_bytes 2 (uint n)) r" "reading bs (advance 2 r)"
    by (simp_all add: reading_append)
  from r(2) assms(2) have "rpos (advance 2 r) + unat n \<le> rsize (advance 2 r)"
    "bytes_at (unat n) (advance 2 r) = bs"
    by (simp_all add: reading_def)
  with reading_u16 [OF r(1)] assms(3) show ?thesis
    by (simp add: reader_sized_string_def advance_def)
qed

lemma emitted_reading:
  assumes "emits op bs" and "length bs \<le> sz" and "length bs \<le> length pkt"
  shows "\<exists>w. op (writer_init sz pkt) = Inr w \<and> wpos w = length bs \<and>
    reading bs (reader_init (wpos w) (take (wpos w) (packet w)))"
  using emits_success [OF assms(1), of "writer_init sz pkt"] assms(2,3)
  by (auto simp: reading_def bytes_at_def reader_init_def packet_appended)

subsection \<open>Typed fields\<close>

text \<open>
  The fields both sides of a connection exchange; \<open>put_field\<close> is the writer call for a field
  and \<open>get_field\<close> the read call that expects a field of the same type.
\<close>

datatype field = F_i8 int | F_u8 u8 | F_i16 int | F_u16 u16 | F_i32 int | F_u32 u32
  | F_array bytes | F_sized_string bytes

fun field_ok :: "field \<Rightarrow> bool" where
  "field_ok (F_i8 i) = in_i8 i"
| "field_ok (F_i16 i) = in_i16 i"
| "field_ok (F_i32 i) = in_i32 i"
| "field_ok (F_array bs) = (length bs < 65536)"
| "field_ok (F_sized_string bs) = (length bs < 65536)"
| "field_ok _ = True"

fun put_field :: "field \<Rightarrow> wop" where
  "put_field (F_i8 i) = writer_i8 i"
| "put_field (F_u8 b) = writer_u8 b"
| "put_field (F_i16 i) = writer_i16 i"
| "put_field (F_u16 h) = writer_u16 h"
| "put_field (F_i32 i) = writer_i32 i"
| "put_field (F_u32 u) = writer_u32 u"
| "put_field (F_array bs) = writer_array (of_nat (length bs)) bs"
| "put_field (F_sized_string bs) = writer_sized_string (of_nat (length bs)) bs"

fun get_field :: "field \<Rightarrow> field rop" where
  "get_field (F_i8 _) r = map_prod id (map_option F_i8) (reader_i8 r)"
| "get_field (F_u8 _) r = map_prod id (map_option F_u8) (reader_u8 r)"
| "get_field (F_i16 _) r = map_prod id (map_option F_i16) (reader_i16 r)"
| "get_field (F_u16 _) r = map_prod id (map_option F_u16) (reader_u16 r)"
| "get_field (F_i32 _) r = map_prod id (map_option F_i32) (reader_i32 r)"
| "get_field (F_u32 _) r = map_prod id (map_option F_u32) (reader_u32 r)"
| "get_field (F_array bs) r = map_prod id (map_option F_array) (reader_array (length bs) r)"
| "get_field (F_sized_string bs) r = map_prod id (map_option F_sized_string) (reader_sized_string 65535 r)"

fun field_bytes :: "field \<Rightarrow> bytes" where
  "field_bytes (F_i8 i) = le_bytes 1 i"
| "field_bytes (F_u8 b) = le_bytes 1 (uint b)"
| "field_bytes (F_i16 i) = le_bytes 2 i"
| "field_bytes (F_u16 h) = le_bytes 2 (uint h)"
| "field_bytes (F_i32 i) = le_bytes 4 i"
| "field_bytes (F_u32 u) = le_bytes 4 (uint u)"
| "field_bytes (F_array bs) = bs"
| "field_bytes (F_sized_string bs) = le_bytes 2 (int (length bs)) @ bs"

lemma length_as_u16:
  assumes "length bs < 65536"
  shows "unat (of_nat (length bs) :: u16) = length bs" "uint (of_nat (length bs) :: u16) = int (length bs)"
  using assms by (simp_all add: unat_of_nat uint_nat)

lemma emits_put_field: "field_ok f \<Longrightarrow> emits (put_field f) (field_bytes f)"
proof (cases f)
  case (F_array bs)
  then show "field_ok f \<Longrightarrow> ?thesis"
    using emits_array [of "of_nat (length bs)" bs] by (simp add: length_as_u16)
next
  case (F_sized_string bs)
  then show "field_ok f \<Longrightarrow> ?thesis"
    using emits_sized_string [of "of_nat (length bs)" bs] by (simp add: length_as_u16 del: le_bytes.simps)
qed (simp_all add: emits_i8 emits_u8 emits_i16 emits_u16 emits_i32 emits_u32 del: le_bytes.simps One_nat_def)

lemma get_put_field:
  assumes "field_ok f" and "reading (field_bytes f) r"
  shows "get_field f r = (advance (length (field_bytes f)) r, Some f)"
proof (cases f)
  case (F_sized_string bs)
  have "(of_nat (length bs) :: u16) \<le> 65535"
    using assms(1) F_sized_string by (simp add: word_le_nat_alt length_as_u16)
  with F_sized_string assms show ?thesis
    using reading_sized_string [of "of_nat (length bs)" bs r 65535]
    by (simp add: length_as_u16 del: le_bytes.simps)
qed (use assms in \<open>simp_all add: reading_simps to_i8_id to_i16_id to_i32_id del: le_bytes.simps One_nat_def\<close>)

fun get_fields :: "field list \<Rightarrow> field list rop" where
  "get_fields [] r = (r, Some [])"
| "get_fields (f # fs) r =
     (case get_field f r of
        (r, None) \<Rightarrow> (r, None)
      | (r, Some v) \<Rightarrow> (case get_fields fs r of (r, vs) \<Rightarrow> (r, map_option ((#) v) vs)))"

lemma emits_put_fields:
  "\<forall>f \<in> set fs. field_ok f \<Longrightarrow> emits (run_ops (map put_field fs)) (concat (map field_bytes fs))"
  by (induction fs) (simp_all add: emits_Nil emits_Cons emits_put_field del: run_ops.simps)

lemma get_put_fields:
  assumes "\<forall>f \<in> set fs. field_ok f" and "reading (concat (map field_bytes fs)) r"
  shows "get_fields fs r = (advance (length (concat (map field_bytes fs))) r, Some fs)"
  using assms
proof (induction fs arbitrary: r)
  case Nil
  then show ?case by (simp add: advance_def)
next
  case (Cons f fs)
  then have "reading (field_bytes f) r" "reading (concat (map field_bytes fs)) (advance (length (field_bytes f)) r)"
    by (simp_all add: reading_append)
  with Cons show ?case by (simp add: get_put_field) (simp add: advance_def add.assoc)
qed

subsection \<open>Properties\<close>



text \<open>
  C29: Whatever fields are written into a buffer that has room for them are read back with the
  same values by reads of the same types, and the reader is then at the end of the packet.
\<close>

theorem written_fields_are_read_back:
  assumes "\<forall>f \<in> set fs. field_ok f"
    and "length (concat (map field_bytes fs)) \<le> sz" and "sz \<le> length pkt"
  shows "\<exists>w r. run_ops (map put_field fs) (writer_init sz pkt) = Inr w \<and>
    get_fields fs (reader_init (wpos w) (take (wpos w) (packet w))) = (r, Some fs) \<and> reader_end r"
proof -
  obtain w where w: "run_ops (map put_field fs) (writer_init sz pkt) = Inr w"
    "wpos w = length (concat (map field_bytes fs))"
    "reading (concat (map field_bytes fs)) (reader_init (wpos w) (take (wpos w) (packet w)))"
    using emitted_reading [OF emits_put_fields [OF assms(1)], of sz pkt] assms(2,3) by auto
  from get_put_fields [OF assms(1) w(3)] w(1,2) show ?thesis
    by (auto simp: reader_end_def advance_def reader_init_def)
qed

theorem written_fields_are_read_back_witness:
  "\<exists>w r. run_ops (map put_field [F_u16 0x7FFF, F_i32 (- 5), F_sized_string [65, 66], F_u8 255])
      (writer_init 12 (replicate 12 0)) = Inr w \<and>
    get_fields [F_u16 0x7FFF, F_i32 (- 5), F_sized_string [65, 66], F_u8 255]
      (reader_init (wpos w) (take (wpos w) (packet w))) =
      (r, Some [F_u16 0x7FFF, F_i32 (- 5), F_sized_string [65, 66], F_u8 255]) \<and> reader_end r"
  by (rule written_fields_are_read_back) simp_all

end
