(* ===== verification/Probing.thy ===== *)
theory Probing
  imports Main "HOL-Library.While_Combinator" "HOL-Library.Multiset"
begin

text \<open>
  Linear probing, shared by the hash sets of \<^verbatim>\<open>src/src/hash-map.c\<close> and the object list of
  \<^verbatim>\<open>src/src/channel/map.c\<close>: both walk the slots of an array from the hash of a key with
  \<open>index++; index %= capacity\<close>. One kind of walk runs until a condition holds and may run
  forever; the other kind gives up when it is back where it started.
\<close>

subsection \<open>Walks around a circle of slots\<close>

definition probe :: "(nat \<Rightarrow> bool) \<Rightarrow> nat \<Rightarrow> nat \<Rightarrow> nat option" where
  "probe stop cap i = while_option (\<lambda>i. \<not> stop i) (\<lambda>i. (i + 1) mod cap) i"

text \<open>\<open>probe_once\<close> returns the slot it stopped at, or \<open>None\<close> after a whole round; the outer
  \<open>option\<close> says whether the loop returns at all.\<close>

definition probe_once :: "(nat \<Rightarrow> bool) \<Rightarrow> nat \<Rightarrow> nat \<Rightarrow> nat option option" where
  "probe_once skip cap start =
     map_option (\<lambda>(i, round). if round then None else Some i)
       (while_option (\<lambda>(i, round). \<not> round \<and> skip i)
          (\<lambda>(i, round). let i = (i + 1) mod cap in (i, i = start)) (start, False))"

lemma mod_add_inj:
  assumes "(s + a) mod cap = (s + b) mod cap" and "a < cap" and "b < (cap :: nat)"
  shows "a = b"
proof -
  have "a = b" if "a \<le> b" "(s + b) mod cap = (s + a) mod cap" "b < cap" for a b :: nat
  proof -
    from that have "cap dvd (s + b) - (s + a)"
      by (subst (asm) mod_eq_dvd_iff_nat) simp_all
    then have "cap dvd b - a" by simp
    with that show ?thesis by (metis diff_is_0_eq diff_less_mono2 dvd_imp_le le_antisym
        less_imp_diff_less linorder_not_less zero_less_diff)
  qed
  from this [of a b] this [of b a] assms show ?thesis by (metis linear)
qed

lemma slot_at_offset:
  assumes "j < (cap :: nat)"
  shows "\<exists>n < cap. (i + n) mod cap = j"
proof (intro exI conjI)
  let ?n = "(j + cap - i mod cap) mod cap"
  show "?n < cap" using assms by simp
  have "i mod cap < cap" using assms by simp
  then have "i mod cap + (j + cap - i mod cap) = j + cap" by simp
  then have "(i mod cap + (j + cap - i mod cap)) mod cap = j"
    using assms by (metis mod_add_self2 mod_less)
  then show "(i + ?n) mod cap = j"
    by (metis mod_add_left_eq mod_add_right_eq)
qed

lemma probe_at:
  assumes "stop ((i + n) mod cap)" and "\<forall>m < n. \<not> stop ((i + m) mod cap)"
  shows "probe stop cap (i mod cap) = Some ((i + n) mod cap)"
  using assms
proof (induction n arbitrary: i)
  case 0
  then show ?case by (simp add: probe_def while_option_unfold)
next
  case (Suc n)
  have "probe stop cap (i mod cap) = probe stop cap (Suc i mod cap)"
    using Suc.prems(2) by (subst (1) probe_def, subst while_option_unfold)
      (auto simp: probe_def mod_Suc_eq)
  also have "\<dots> = Some ((Suc i + n) mod cap)"
  proof (rule Suc.IH)
    show "stop ((Suc i + n) mod cap)" using Suc.prems(1) by simp
    show "\<forall>m < n. \<not> stop ((Suc i + m) mod cap)"
      using Suc.prems(2) by (metis Suc_mono add_Suc_shift)
  qed
  finally show ?case by simp
qed

lemma probe_finds:
  assumes "i < cap" and "j < cap" and "stop j"
  shows "\<exists>n < cap. probe stop cap i = Some ((i + n) mod cap) \<and> stop ((i + n) mod cap) \<and>
    (\<forall>m < n. \<not> stop ((i + m) mod cap))"
proof -
  let ?P = "\<lambda>n. stop ((i + n) mod cap)"
  obtain n0 where n0: "n0 < cap" "?P n0"
    using slot_at_offset [OF assms(2), of i] assms(3) by metis
  define n where "n = (LEAST n. ?P n)"
  have n: "?P n" "n \<le> n0" "\<forall>m < n. \<not> ?P m"
    unfolding n_def using n0(2) by (auto intro: LeastI Least_le dest: not_less_Least)
  have "probe stop cap (i mod cap) = Some ((i + n) mod cap)"
    by (rule probe_at [where stop = stop, OF n(1) n(3)])
  with n n0(1) assms(1) show ?thesis by (metis le_less_trans mod_less)
qed

lemma probe_stops:
  assumes "i < cap" and "probe stop cap i = Some r"
  shows "r < cap \<and> stop r"
proof -
  have r: "while_option (\<lambda>i. \<not> stop i) (\<lambda>i. (i + 1) mod cap) i = Some r"
    using assms(2) by (simp add: probe_def)
  have "r < cap"
    by (rule while_option_rule [where P = "\<lambda>r. r < cap", OF _ r]) (use assms(1) in auto)
  moreover have "stop r"
    using while_option_stop [OF r] by simp
  ultimately show ?thesis by blast
qed

lemma probe_diverges:
  assumes "i < cap" and "\<forall>j < cap. \<not> stop j"
  shows "probe stop cap i = None"
proof (rule ccontr)
  assume "probe stop cap i \<noteq> None"
  then obtain r where "probe stop cap i = Some r" by auto
  from probe_stops [where stop = stop, OF assms(1) this] assms(2) show False by blast
qed

lemma probe_once_loop_at:
  fixes k n cap start :: nat
  assumes "k + n < cap" and "start < cap"
    and "\<not> skip ((start + k + n) mod cap)" and "\<forall>m < n. skip ((start + k + m) mod cap)"
  shows "while_option (\<lambda>(i, round). \<not> round \<and> skip i)
      (\<lambda>(i, round). let i = (i + 1) mod cap in (i, i = start)) ((start + k) mod cap, False) =
    Some ((start + k + n) mod cap, False)"
  using assms
proof (induction n arbitrary: k)
  case 0
  then show ?case by (simp add: while_option_unfold)
next
  case (Suc n)
  have "(start + Suc k) mod cap \<noteq> start"
    using mod_add_inj [of start "Suc k" cap 0] Suc.prems(1,2) by auto
  moreover have "skip ((start + k) mod cap)"
    using Suc.prems(4) by (metis add_0_right zero_less_Suc)
  moreover have "\<forall>m < n. skip ((start + Suc k + m) mod cap)"
    using Suc.prems(4) by (metis Suc_mono add_Suc_shift add_Suc_right)
  ultimately show ?case
    using Suc.IH [of "Suc k"] Suc.prems
    by (subst while_option_unfold) (simp add: mod_Suc_eq Let_def)
qed

lemma probe_once_loop_round:
  fixes k cap start :: nat
  assumes "k < cap" and "start < cap" and "\<forall>m. k \<le> m \<and> m < cap \<longrightarrow> skip ((start + m) mod cap)"
  shows "while_option (\<lambda>(i, round). \<not> round \<and> skip i)
      (\<lambda>(i, round). let i = (i + 1) mod cap in (i, i = start)) ((start + k) mod cap, False) =
    Some (start, True)"
  using assms
proof (induction "cap - Suc k" arbitrary: k)
  case 0
  then have "Suc k = cap" by simp
  then have "Suc (start + k) mod cap = start"
    using 0 by (metis add_Suc_right mod_add_self2 mod_less)
  moreover have "skip ((start + k) mod cap)" using 0 by simp
  ultimately show ?case
    by (subst while_option_unfold) (simp add: mod_Suc_eq Let_def while_option_unfold)
next
  case (Suc d)
  then have k: "Suc k < cap" by simp
  then have "(start + Suc k) mod cap \<noteq> start"
    using mod_add_inj [of start "Suc k" cap 0] Suc.prems(2) by auto
  moreover have "skip ((start + k) mod cap)" using Suc.prems by simp
  ultimately show ?case
    using Suc.hyps(1) [of "Suc k"] Suc.hyps(2) Suc.prems k
    by (subst while_option_unfold) (simp add: mod_Suc_eq Let_def)
qed

text \<open>The bounded walk always returns: at the first slot that is not skipped, or empty-handed.\<close>

lemma probe_once_finds:
  assumes "start < cap" and "n < cap" and "\<not> skip ((start + n) mod cap)"
    and "\<forall>m < n. skip ((start + m) mod cap)"
  shows "probe_once skip cap start = Some (Some ((start + n) mod cap))"
  using probe_once_loop_at [of 0 n cap start skip] assms by (simp add: probe_once_def)

lemma probe_once_round:
  assumes "start < cap" and "\<forall>j < cap. skip j"
  shows "probe_once skip cap start = Some None"
  using probe_once_loop_round [of 0 cap start skip] assms by (simp add: probe_once_def)

lemma probe_once_cases:
  assumes "start < cap"
  obtains (Found) n where "n < cap" "probe_once skip cap start = Some (Some ((start + n) mod cap))"
      "\<not> skip ((start + n) mod cap)" "\<forall>m < n. skip ((start + m) mod cap)"
    | (Round) "probe_once skip cap start = Some None" "\<forall>j < cap. skip j"
proof (cases "\<forall>j < cap. skip j")
  case True
  with assms show ?thesis using Round probe_once_round by blast
next
  case False
  then obtain j where "j < cap" "\<not> skip j" by auto
  with probe_finds [OF assms, of j "\<lambda>j. \<not> skip j"] obtain n where
    n: "n < cap" "\<not> skip ((start + n) mod cap)" "\<forall>m < n. skip ((start + m) mod cap)"
    by auto
  then show ?thesis using Found probe_once_finds [OF assms] by blast
qed

text \<open>Only the answers for the slots of the table matter.\<close>

lemma probe_cong:
  assumes "s < cap" and eq: "\<And>i. i < cap \<Longrightarrow> stop i = stop' i"
  shows "probe stop cap s = probe stop' cap s"
proof (cases "\<exists>j < cap. stop j")
  case True
  then obtain j where "j < cap" "stop j" by blast
  from probe_finds [where stop = stop, OF assms(1) this] obtain n where n: "n < cap"
    "probe stop cap s = Some ((s + n) mod cap)" "stop ((s + n) mod cap)" "\<forall>m < n. \<not> stop ((s + m) mod cap)"
    by blast
  have "(s + m) mod cap < cap" for m using assms(1) by simp
  then have "probe stop' cap (s mod cap) = Some ((s + n) mod cap)"
    using n(3,4) eq by (intro probe_at) auto
  with n(2) assms(1) show ?thesis by simp
next
  case False
  then show ?thesis using probe_diverges [OF assms(1)] eq by metis
qed

lemma probe_once_cong:
  assumes "s < cap" and eq: "\<And>i. i < cap \<Longrightarrow> skip i = skip' i"
  shows "probe_once skip cap s = probe_once skip' cap s"
  using assms(1)
proof (cases rule: probe_once_cases [where skip = skip])
  case (Found n)
  have "(s + m) mod cap < cap" for m using assms(1) by simp
  with Found eq have "probe_once skip' cap s = Some (Some ((s + n) mod cap))"
    by (intro probe_once_finds [OF assms(1)]) auto
  with Found(2) show ?thesis by simp
next
  case Round
  with eq probe_once_round [OF assms(1), of skip'] show ?thesis by simp
qed

end
