(* ===== verification/Hash_Set.thy ===== *)
theory Hash_Set
  imports Prelude Probing
begin

text \<open>
  The open-addressing hash set of \<^verbatim>\<open>src/src/hash-map.c\<close>.

  An element is a value of type \<open>'d\<close>; \<open>key\<close> is the part of it at \<open>keyOffset\<close>, and \<open>memcmp\<close>
  on keys is equality. The hash (\<open>XXH3_64bits\<close>, a library) is an argument \<open>hash\<close>. An entry of
  \<open>data\<close> is \<open>None\<close> where \<open>malloc\<close>ed memory has not been written. Whether the allocations of an
  operation succeed is its argument \<open>mem\<close>.

  The probing loops are unbounded in C: an operation returns \<open>None\<close> where its loop does not
  return (or reads a key that was never written), so totality is a theorem and not an
  artefact of the model.
\<close>

datatype slot = Free | Occupied | Deleted

record 'd hash_set =
  capacity :: nat
  count :: nat
  states :: "slot list"
  data :: "'d option list"
  iterating :: bool

subsection \<open>Operations\<close>

definition hash_set_init :: "bool \<Rightarrow> 'd hash_set option" where
  "hash_set_init mem =
     (if mem then Some \<lparr>capacity = 1, count = 0, states = [Free], data = [None], iterating = False\<rparr>
      else None)"

text \<open>The loops that fill a new table: \<open>while (new_states[new_i] != 0) ...\<close>.\<close>

fun rehash :: "('k \<Rightarrow> nat) \<Rightarrow> ('d \<Rightarrow> 'k) \<Rightarrow> nat \<Rightarrow> 'd option list \<Rightarrow>
    slot list \<times> 'd option list \<Rightarrow> (slot list \<times> 'd option list) option" where
  "rehash hash key cap [] t = Some t"
| "rehash hash key cap (None # xs) t = None"
| "rehash hash key cap (Some d # xs) (sts, ds) =
     (case probe (\<lambda>i. sts ! i = Free) cap (hash (key d) mod cap) of
        None \<Rightarrow> None
      | Some i \<Rightarrow> rehash hash key cap xs (sts[i := Occupied], ds[i := Some d]))"

definition new_table :: "nat \<Rightarrow> slot list \<times> 'd option list" where
  "new_table cap = (replicate cap Free, replicate cap None)"

definition insert_slot :: "('k \<Rightarrow> nat) \<Rightarrow> ('d \<Rightarrow> 'k) \<Rightarrow> 'd hash_set \<Rightarrow> 'd \<Rightarrow> ('d hash_set \<times> int) option" where
  "insert_slot hash key hs d =
     (case probe (\<lambda>i. states hs ! i \<noteq> Occupied) (capacity hs) (hash (key d) mod capacity hs) of
        None \<Rightarrow> None
      | Some i \<Rightarrow> Some (hs\<lparr>states := (states hs)[i := Occupied],
                             data := (data hs)[i := Some d],
                             count := count hs + 1\<rparr>, 0))"

definition hash_set_insert ::
  "('k \<Rightarrow> nat) \<Rightarrow> ('d \<Rightarrow> 'k) \<Rightarrow> bool \<Rightarrow> 'd hash_set \<Rightarrow> 'd \<Rightarrow> ('d hash_set \<times> int) option" where
  "hash_set_insert hash key mem hs d =
     (if count hs = capacity hs then
        (if \<not> mem then Some (hs, - 1)
         else case rehash hash key (capacity hs * 2) (data hs) (new_table (capacity hs * 2)) of
                None \<Rightarrow> None
              | Some (sts, ds) \<Rightarrow>
                  insert_slot hash key (hs\<lparr>data := ds, states := sts, capacity := capacity hs * 2\<rparr>) d)
      else insert_slot hash key hs d)"

text \<open>The loop condition of \<open>hash_set_get\<close> and of \<open>hash_set_remove\<close>.\<close>

definition skips :: "('d \<Rightarrow> 'k) \<Rightarrow> 'd hash_set \<Rightarrow> 'k \<Rightarrow> nat \<Rightarrow> bool" where
  "skips key hs k i \<longleftrightarrow>
     states hs ! i = Deleted \<or> states hs ! i = Occupied \<and> map_option key (data hs ! i) \<noteq> Some k"

definition hash_set_get :: "('k \<Rightarrow> nat) \<Rightarrow> ('d \<Rightarrow> 'k) \<Rightarrow> 'd hash_set \<Rightarrow> 'k \<Rightarrow> 'd option option" where
  "hash_set_get hash key hs k =
     (case probe_once (skips key hs k) (capacity hs) (hash k mod capacity hs) of
        None \<Rightarrow> None
      | Some None \<Rightarrow> Some None
      | Some (Some i) \<Rightarrow> if states hs ! i = Free then Some None else Some (data hs ! i))"

text \<open>\<open>realloc_set\<close>: halve the table; on a failed allocation it stays as it is.\<close>

definition occupied_data :: "slot list \<Rightarrow> 'd option list \<Rightarrow> 'd option list" where
  "occupied_data sts ds = map snd (filter (\<lambda>(st, d). st = Occupied) (zip sts ds))"

definition realloc_set :: "('k \<Rightarrow> nat) \<Rightarrow> ('d \<Rightarrow> 'k) \<Rightarrow> bool \<Rightarrow> 'd hash_set \<Rightarrow> 'd hash_set option" where
  "realloc_set hash key mem hs =
     (if \<not> mem then Some hs
      else case rehash hash key (capacity hs div 2) (occupied_data (states hs) (data hs))
                  (new_table (capacity hs div 2)) of
             None \<Rightarrow> None
           | Some (sts, ds) \<Rightarrow> Some (hs\<lparr>data := ds, states := sts, capacity := capacity hs div 2\<rparr>))"

text \<open>\<open>count--\<close> on a \<open>size_t\<close>.\<close>

definition size_dec :: "nat \<Rightarrow> nat" where
  "size_dec n = (if n = 0 then 2 ^ 64 - 1 else n - 1)"

definition hash_set_remove :: "('k \<Rightarrow> nat) \<Rightarrow> ('d \<Rightarrow> 'k) \<Rightarrow> bool \<Rightarrow> 'd hash_set \<Rightarrow> 'k \<Rightarrow> 'd hash_set option" where
  "hash_set_remove hash key mem hs k =
     (case probe (\<lambda>i. \<not> skips key hs k i) (capacity hs) (hash k mod capacity hs) of
        None \<Rightarrow> None
      | Some i \<Rightarrow>
          let hs = hs\<lparr>states := (states hs)[i := Deleted], count := size_dec (count hs)\<rparr>
          in if \<not> iterating hs \<and> count hs < capacity hs div 4 then realloc_set hash key mem hs
             else Some hs)"

definition hash_set_clear :: "'d hash_set \<Rightarrow> 'd hash_set" where
  "hash_set_clear hs =
     hs\<lparr>capacity := 1, count := 0, states := [Free], data := take 1 (data hs)\<rparr>"

text \<open>
  Iteration: the callback may change the element it is given (not its key) and its context.
  \<open>foreach_slots\<close> is the \<open>for\<close> loop over the slots.
\<close>

fun foreach_slots :: "('d \<Rightarrow> 'c \<Rightarrow> 'd \<times> 'c) \<Rightarrow> slot list \<Rightarrow> 'd option list \<Rightarrow> 'c \<Rightarrow> 'd option list \<times> 'c" where
  "foreach_slots f (Occupied # sts) (Some d # ds) c =
     (case f d c of (d, c) \<Rightarrow> case foreach_slots f sts ds c of (ds, c) \<Rightarrow> (Some d # ds, c))"
| "foreach_slots f (st # sts) (x # ds) c = (case foreach_slots f sts ds c of (ds, c) \<Rightarrow> (x # ds, c))"
| "foreach_slots f _ ds c = (ds, c)"

definition hash_set_foreach_keep :: "('d \<Rightarrow> 'c \<Rightarrow> 'd \<times> 'c) \<Rightarrow> 'd hash_set \<Rightarrow> 'c \<Rightarrow> 'd hash_set \<times> 'c" where
  "hash_set_foreach_keep f hs c =
     (case foreach_slots f (states hs) (data hs) c of (ds, c) \<Rightarrow> (hs\<lparr>data := ds\<rparr>, c))"

definition hash_set_foreach_shrink ::
  "('k \<Rightarrow> nat) \<Rightarrow> ('d \<Rightarrow> 'k) \<Rightarrow> bool \<Rightarrow> ('d \<Rightarrow> 'c \<Rightarrow> 'd \<times> 'c) \<Rightarrow> 'd hash_set \<Rightarrow> 'c \<Rightarrow>
   ('d hash_set \<times> 'c) option" where
  "hash_set_foreach_shrink hash key mem f hs c =
     (case hash_set_foreach_keep f (hs\<lparr>iterating := True\<rparr>) c of
        (hs, c) \<Rightarrow>
          let hs = hs\<lparr>iterating := False\<rparr>
          in if count hs < capacity hs div 4
             then map_option (\<lambda>hs. (hs, c)) (realloc_set hash key mem hs)
             else Some (hs, c))"

subsection \<open>The elements of a table\<close>

definition elems :: "slot list \<Rightarrow> 'd option list \<Rightarrow> 'd list" where
  "elems sts ds = List.map_filter (\<lambda>(st, d). if st = Occupied then d else None) (zip sts ds)"

lemma elems_simps [simp]:
  "elems [] ds = []" "elems sts [] = []"
  "elems (st # sts) (x # ds) = (case x of Some d \<Rightarrow> if st = Occupied then [d] else [] | None \<Rightarrow> []) @ elems sts ds"
  by (auto simp: elems_def List.map_filter_def split: option.splits)

lemma elems_append:
  "length sts = length ds \<Longrightarrow> elems (sts @ sts') (ds @ ds') = elems sts ds @ elems sts' ds'"
  by (induction sts ds rule: list_induct2) auto

lemma elems_replicate_Free [simp]: "elems (replicate n Free) ds = []"
  by (auto simp: elems_def List.map_filter_def zip_replicate1 filter_empty_conv)

lemma in_elems:
  assumes "length sts = length ds"
  shows "d \<in> set (elems sts ds) \<longleftrightarrow> (\<exists>i < length sts. sts ! i = Occupied \<and> ds ! i = Some d)"
  using assms
proof (induction sts ds rule: list_induct2)
  case (Cons st sts x ds)
  show ?case by (auto simp: Cons less_Suc_eq_0_disj split: option.splits)
qed simp

lemma elems_split:
  assumes "length sts = length ds" and "i < length sts"
  shows "elems (sts[i := st]) (ds[i := x]) =
    elems (take i sts) (take i ds) @ elems [st] [x] @ elems (drop (Suc i) sts) (drop (Suc i) ds)"
proof -
  have "elems (take i sts @ st # drop (Suc i) sts) (take i ds @ x # drop (Suc i) ds) =
      elems (take i sts) (take i ds) @ elems (st # drop (Suc i) sts) (x # drop (Suc i) ds)"
    using assms by (intro elems_append) simp
  then show ?thesis using assms by (simp add: upd_conv_take_nth_drop)
qed

lemma mset_elems_occupy:
  assumes "length sts = length ds" and "i < length sts" and "sts ! i \<noteq> Occupied"
  shows "mset (elems (sts[i := Occupied]) (ds[i := Some d])) = add_mset d (mset (elems sts ds))"
  using elems_split [OF assms(1,2), of Occupied "Some d"]
    elems_split [OF assms(1,2), of "sts ! i" "ds ! i"] assms(3)
  by (simp split: option.splits)

lemma mset_elems_delete:
  assumes "length sts = length ds" and "i < length sts" and "sts ! i = Occupied" and "ds ! i = Some d"
  shows "add_mset d (mset (elems (sts[i := Deleted]) ds)) = mset (elems sts ds)"
proof -
  have "ds[i := Some d] = ds" "sts[i := Occupied] = sts"
    using assms by (metis list_update_id)+
  then show ?thesis
    using elems_split [OF assms(1,2), of Deleted "Some d"]
      elems_split [OF assms(1,2), of Occupied "Some d"] by simp
qed

lemma length_elems:
  assumes "length sts = length ds" and "\<forall>i < length sts. sts ! i = Occupied \<longrightarrow> ds ! i \<noteq> None"
  shows "length (elems sts ds) = length (filter (\<lambda>st. st = Occupied) sts)"
  using assms
proof (induction sts ds rule: list_induct2)
  case (Cons st sts x ds)
  have "\<forall>i < length sts. sts ! i = Occupied \<longrightarrow> ds ! i \<noteq> None"
    using Cons.prems by (metis Suc_mono length_Cons nth_Cons_Suc)
  moreover have "st = Occupied \<longrightarrow> x \<noteq> None"
    using Cons.prems by fastforce
  ultimately show ?case using Cons.IH by (auto split: option.splits)
qed simp

subsection \<open>Tables in which every element can be found\<close>

definition reach :: "slot list \<Rightarrow> nat \<Rightarrow> nat \<Rightarrow> nat \<Rightarrow> bool" where
  "reach sts cap s i \<longleftrightarrow> (\<exists>n < cap. (s + n) mod cap = i \<and> (\<forall>m < n. sts ! ((s + m) mod cap) \<noteq> Free))"

definition table_ok :: "('k \<Rightarrow> nat) \<Rightarrow> ('d \<Rightarrow> 'k) \<Rightarrow> nat \<Rightarrow> slot list \<Rightarrow> 'd option list \<Rightarrow> bool" where
  "table_ok hash key cap sts ds \<longleftrightarrow>
     0 < cap \<and> length sts = cap \<and> length ds = cap \<and>
     (\<forall>i < cap. sts ! i = Occupied \<longrightarrow> (\<exists>d. ds ! i = Some d \<and> reach sts cap (hash (key d) mod cap) i))"

lemma table_okD:
  assumes "table_ok hash key cap sts ds"
  shows "0 < cap" "length sts = cap" "length ds = cap"
    "\<And>i. i < cap \<Longrightarrow> sts ! i = Occupied \<Longrightarrow> \<exists>d. ds ! i = Some d \<and> reach sts cap (hash (key d) mod cap) i"
  using assms by (auto simp: table_ok_def)

lemma reach_mono:
  assumes "reach sts cap s i" and "\<And>j. j < cap \<Longrightarrow> sts ! j \<noteq> Free \<Longrightarrow> sts' ! j \<noteq> Free"
  shows "reach sts' cap s i"
  using assms unfolding reach_def by (metis gr_zeroI less_nat_zero_code mod_less_divisor)

lemma table_ok_new [simp]: "0 < cap \<Longrightarrow> table_ok hash key cap (replicate cap Free) (replicate cap None)"
  by (simp add: table_ok_def)

lemma table_ok_occupy:
  assumes ok: "table_ok hash key cap sts ds" and "i < cap" and "reach sts cap (hash (key d) mod cap) i"
  shows "table_ok hash key cap (sts[i := Occupied]) (ds[i := Some d])"
proof -
  note T = table_okD [OF ok]
  have mono: "reach (sts[i := Occupied]) cap s j" if "reach sts cap s j" for s j
    using that by (rule reach_mono) (use T(2) assms(2) in \<open>auto simp: nth_list_update split: if_splits\<close>)
  have "\<exists>x. ds[i := Some d] ! j = Some x \<and> reach (sts[i := Occupied]) cap (hash (key x) mod cap) j"
    if "j < cap" "sts[i := Occupied] ! j = Occupied" for j
    using T(4) [of j] that assms(2,3) T(2,3) mono by (cases "j = i") auto
  with T(1-3) show ?thesis by (simp add: table_ok_def)
qed

lemma table_ok_delete:
  assumes ok: "table_ok hash key cap sts ds" and "i < cap"
  shows "table_ok hash key cap (sts[i := Deleted]) ds"
proof -
  note T = table_okD [OF ok]
  have mono: "reach (sts[i := Deleted]) cap s j" if "reach sts cap s j" for s j
    using that by (rule reach_mono) (use T(2) assms(2) in \<open>auto simp: nth_list_update split: if_splits\<close>)
  have "\<exists>x. ds ! j = Some x \<and> reach (sts[i := Deleted]) cap (hash (key x) mod cap) j"
    if "j < cap" "sts[i := Deleted] ! j = Occupied" for j
    using T(4) [of j] that assms(2) T(2) mono by (cases "j = i") auto
  with T(1-3) show ?thesis by (simp add: table_ok_def)
qed

lemma table_ok_count:
  assumes "table_ok hash key cap sts ds"
  shows "length (elems sts ds) = length (filter (\<lambda>st. st = Occupied) sts)"
  using table_okD [OF assms] by (intro length_elems) fastforce+

lemma count_le_cap: "table_ok hash key cap sts ds \<Longrightarrow> length (elems sts ds) \<le> cap"
  using table_ok_count table_okD(2) length_filter_le by metis

lemma exists_unoccupied:
  assumes "table_ok hash key cap sts ds" and "length (elems sts ds) < cap"
  shows "\<exists>j < cap. sts ! j \<noteq> Occupied"
proof -
  have "length (filter (\<lambda>st. st = Occupied) sts) < length sts"
    using table_ok_count [OF assms(1)] table_okD(2) [OF assms(1)] assms(2) by simp
  then have "\<exists>st \<in> set sts. st \<noteq> Occupied"
    by (metis (mono_tags, lifting) filter_True less_irrefl)
  then show ?thesis using table_okD(2) [OF assms(1)] by (auto simp: in_set_conv_nth)
qed

lemma all_occupied:
  assumes "table_ok hash key cap sts ds" and "length (elems sts ds) = cap" and "i < cap"
  shows "sts ! i = Occupied"
proof (rule ccontr)
  assume "sts ! i \<noteq> Occupied"
  then have "length (filter (\<lambda>st. st = Occupied) sts) < length sts"
    using assms(3) table_okD(2) [OF assms(1)] by (auto intro!: length_filter_less [of "sts ! i"])
  then show False
    using table_ok_count [OF assms(1)] table_okD(2) [OF assms(1)] assms(2) by simp
qed

text \<open>One insertion: the probe ends at a slot that is not occupied, and the table stays in order.\<close>

lemma occupy_probed:
  assumes ok: "table_ok hash key cap sts ds"
    and j: "j < cap" "stop (sts ! j)" and stop: "\<And>st. \<not> stop st \<Longrightarrow> st \<noteq> Free" "\<not> stop Occupied"
  shows "\<exists>i < cap. probe (\<lambda>i. stop (sts ! i)) cap (hash (key d) mod cap) = Some i \<and> stop (sts ! i) \<and>
    table_ok hash key cap (sts[i := Occupied]) (ds[i := Some d]) \<and>
    mset (elems (sts[i := Occupied]) (ds[i := Some d])) = add_mset d (mset (elems sts ds))"
proof -
  note T = table_okD [OF ok]
  let ?s = "hash (key d) mod cap"
  have "?s < cap" using T(1) by simp
  from probe_finds [OF this j(1), of "\<lambda>i. stop (sts ! i)"] j(2) obtain n where
    n: "n < cap" "probe (\<lambda>i. stop (sts ! i)) cap ?s = Some ((?s + n) mod cap)"
    "stop (sts ! ((?s + n) mod cap))" "\<forall>m < n. \<not> stop (sts ! ((?s + m) mod cap))"
    by auto
  let ?i = "(?s + n) mod cap"
  have i: "?i < cap" using T(1) by simp
  have "reach sts cap ?s ?i"
    unfolding reach_def using n(1,4) stop(1) by blast
  then have "table_ok hash key cap (sts[?i := Occupied]) (ds[?i := Some d])"
    by (rule table_ok_occupy [OF ok i])
  moreover have "mset (elems (sts[?i := Occupied]) (ds[?i := Some d])) = add_mset d (mset (elems sts ds))"
    using n(3) stop(2) T(2,3) i by (intro mset_elems_occupy) auto
  ultimately show ?thesis using n i by blast
qed

lemma rehash_ok:
  assumes "table_ok hash key cap sts ds" and "\<forall>st \<in> set sts. st \<noteq> Deleted"
    and "\<forall>x \<in> set xs. x \<noteq> None" and "length (elems sts ds) + length xs \<le> cap"
  shows "\<exists>sts' ds'. rehash hash key cap xs (sts, ds) = Some (sts', ds') \<and>
    table_ok hash key cap sts' ds' \<and> mset (elems sts' ds') = mset (elems sts ds) + mset (map the xs)"
  using assms
proof (induction xs arbitrary: sts ds)
  case Nil
  then show ?case by simp
next
  case (Cons x xs)
  from Cons.prems(3) obtain d where x: "x = Some d" by auto
  from exists_unoccupied [OF Cons.prems(1)] Cons.prems(4) obtain j where "j < cap" "sts ! j \<noteq> Occupied"
    by auto
  with Cons.prems(2) table_okD(2) [OF Cons.prems(1)] have j: "j < cap" "sts ! j = Free"
    by (auto simp: set_conv_nth) (metis slot.exhaust)
  from occupy_probed [OF Cons.prems(1), of j "\<lambda>st. st = Free" d] j obtain i where
    i: "i < cap" "probe (\<lambda>i. sts ! i = Free) cap (hash (key d) mod cap) = Some i"
    "table_ok hash key cap (sts[i := Occupied]) (ds[i := Some d])"
    "mset (elems (sts[i := Occupied]) (ds[i := Some d])) = add_mset d (mset (elems sts ds))"
    by auto
  have "\<forall>st \<in> set (sts[i := Occupied]). st \<noteq> Deleted"
    using Cons.prems(2) set_update_subset_insert [of sts i Occupied] by blast
  moreover have "length (elems (sts[i := Occupied]) (ds[i := Some d])) = Suc (length (elems sts ds))"
    using arg_cong [OF i(4), of size] by simp
  ultimately obtain sts' ds' where
    "rehash hash key cap xs (sts[i := Occupied], ds[i := Some d]) = Some (sts', ds')"
    "table_ok hash key cap sts' ds'"
    "mset (elems sts' ds') = mset (elems (sts[i := Occupied]) (ds[i := Some d])) + mset (map the xs)"
    using Cons.IH [OF i(3)] Cons.prems(3,4) by auto
  then show ?case using i(2,4) by (simp add: x)
qed

lemma rehash_new_table:
  assumes "\<forall>x \<in> set xs. x \<noteq> None" and "length xs \<le> cap" and "0 < cap"
  shows "\<exists>sts ds. rehash hash key cap xs (new_table cap) = Some (sts, ds) \<and>
    table_ok hash key cap sts ds \<and> mset (elems sts ds) = mset (map the xs)"
  using rehash_ok [of hash key cap "replicate cap Free" "replicate cap None" xs] assms
  by (simp add: new_table_def)

subsection \<open>The invariant and the abstraction\<close>

definition hash_set_inv :: "('k \<Rightarrow> nat) \<Rightarrow> ('d \<Rightarrow> 'k) \<Rightarrow> 'd hash_set \<Rightarrow> bool" where
  "hash_set_inv hash key hs \<longleftrightarrow>
     table_ok hash key (capacity hs) (states hs) (data hs) \<and>
     count hs = length (elems (states hs) (data hs)) \<and>
     distinct (map key (elems (states hs) (data hs)))"

definition hash_set_map :: "('d \<Rightarrow> 'k) \<Rightarrow> 'd hash_set \<Rightarrow> 'k \<Rightarrow> 'd option" where
  "hash_set_map key hs = map_of (map (\<lambda>d. (key d, d)) (elems (states hs) (data hs)))"

lemma hash_set_map_iff:
  assumes "distinct (map key (elems (states hs) (data hs)))"
  shows "hash_set_map key hs k = Some d \<longleftrightarrow> d \<in> set (elems (states hs) (data hs)) \<and> key d = k"
  using assms by (auto simp: hash_set_map_def map_of_eq_Some_iff comp_def)

lemma dom_hash_set_map: "dom (hash_set_map key hs) = key ` set (elems (states hs) (data hs))"
  by (simp add: hash_set_map_def dom_map_of_conv_image_fst image_image)

lemma distinct_keys_mset:
  "mset xs = mset ys \<Longrightarrow> distinct (map key xs) = distinct (map key ys)"
  by (metis mset_eq_imp_distinct_iff mset_map)

lemma hash_set_map_same:
  assumes "mset (elems (states hs') (data hs')) = mset (elems (states hs) (data hs))"
    and "distinct (map key (elems (states hs) (data hs)))"
  shows "hash_set_map key hs' = hash_set_map key hs"
proof (rule map_eqI_Some)
  fix k d
  show "hash_set_map key hs' k = Some d \<longleftrightarrow> hash_set_map key hs k = Some d"
    using assms distinct_keys_mset [OF assms(1), of key] mset_eq_setD [OF assms(1)]
    by (simp add: hash_set_map_iff)
qed

lemma hash_set_map_add:
  assumes "mset (elems (states hs') (data hs')) = add_mset d (mset (elems (states hs) (data hs)))"
    and "distinct (map key (elems (states hs') (data hs')))"
  shows "hash_set_map key hs' = (hash_set_map key hs)(key d \<mapsto> d)"
    and "distinct (map key (elems (states hs) (data hs)))"
    and "hash_set_map key hs (key d) = None"
proof -
  let ?xs = "elems (states hs) (data hs)"
  have m: "mset (elems (states hs') (data hs')) = mset (d # ?xs)"
    using assms(1) by simp
  have dist: "distinct (map key (d # ?xs))"
    using distinct_keys_mset [OF m, of key] assms(2) by simp
  then show dist': "distinct (map key ?xs)" by simp
  have "key d \<notin> key ` set ?xs" using dist by simp
  then show "hash_set_map key hs (key d) = None"
    by (simp add: dom_hash_set_map [symmetric] domIff)
  show "hash_set_map key hs' = (hash_set_map key hs)(key d \<mapsto> d)"
  proof (rule map_eqI_Some)
    fix k x
    show "hash_set_map key hs' k = Some x \<longleftrightarrow> ((hash_set_map key hs)(key d \<mapsto> d)) k = Some x"
      using assms(2) dist mset_eq_setD [OF m] by (auto simp: hash_set_map_iff [OF dist'] hash_set_map_iff dest: sym intro: rev_image_eqI)
  qed
qed

subsection \<open>Correctness of the operations\<close>

lemma hash_set_init_ok:
  "\<exists>hs. hash_set_init True = Some hs \<and> hash_set_inv hash key hs \<and> hash_set_map key hs = Map.empty"
  by (simp add: hash_set_init_def hash_set_inv_def table_ok_def hash_set_map_def)

lemma hash_set_count:
  assumes "hash_set_inv hash key hs"
  shows "count hs = card (dom (hash_set_map key hs))"
  using assms unfolding hash_set_inv_def dom_hash_set_map
  by (metis distinct_card length_map list.set_map)

lemma hash_set_get_ok:
  assumes inv: "hash_set_inv hash key hs"
  shows "hash_set_get hash key hs k = Some (hash_set_map key hs k)"
proof -
  let ?cap = "capacity hs" and ?sts = "states hs" and ?ds = "data hs"
  let ?s = "hash k mod ?cap"
  have ok: "table_ok hash key ?cap ?sts ?ds" and dist: "distinct (map key (elems ?sts ?ds))"
    using inv by (simp_all add: hash_set_inv_def)
  note T = table_okD [OF ok]
  have s: "?s < ?cap" using T(1) by simp
  have absent: "hash_set_map key hs k = None"
    if *: "\<And>i. i < ?cap \<Longrightarrow> ?sts ! i = Occupied \<Longrightarrow> map_option key (?ds ! i) \<noteq> Some k"
  proof (rule ccontr)
    assume "hash_set_map key hs k \<noteq> None"
    then obtain d where "d \<in> set (elems ?sts ?ds)" "key d = k"
      by (auto simp: hash_set_map_iff [OF dist])
    with * T(2,3) show False by (auto simp: in_elems)
  qed
  show ?thesis
  proof (rule probe_once_cases [OF s, of "skips key hs k"])
    fix n
    assume n: "n < ?cap" "probe_once (skips key hs k) ?cap ?s = Some (Some ((?s + n) mod ?cap))"
      "\<not> skips key hs k ((?s + n) mod ?cap)" "\<forall>m < n. skips key hs k ((?s + m) mod ?cap)"
    let ?i = "(?s + n) mod ?cap"
    have i: "?i < ?cap" using T(1) by simp
    show ?thesis
    proof (cases "?sts ! ?i = Free")
      case True
      have "hash_set_map key hs k = None"
      proof (rule absent)
        fix j
        assume j: "j < ?cap" "?sts ! j = Occupied"
        show "map_option key (?ds ! j) \<noteq> Some k"
        proof
          assume k: "map_option key (?ds ! j) = Some k"
          with T(4) [OF j] obtain d where "?ds ! j = Some d" "reach ?sts ?cap ?s j" by auto
          then obtain n' where n': "n' < ?cap" "(?s + n') mod ?cap = j"
            "\<forall>m < n'. ?sts ! ((?s + m) mod ?cap) \<noteq> Free"
            by (auto simp: reach_def)
          have "\<not> n < n'" using n'(3) True by blast
          moreover have "\<not> n' < n" using n(4) n'(2) j(2) k by (auto simp: skips_def)
          ultimately have "n = n'" by simp
          with n'(2) j(2) True show False by simp
        qed
      qed
      with n(2) True show ?thesis by (simp add: hash_set_get_def)
    next
      case False
      with n(3) have occ: "?sts ! ?i = Occupied" "map_option key (?ds ! ?i) = Some k"
        by (cases "?sts ! ?i"; simp add: skips_def)+
      then obtain d where d: "?ds ! ?i = Some d" "key d = k" by auto
      with occ(1) i T(2,3) have "d \<in> set (elems ?sts ?ds)" by (auto simp: in_elems)
      with d have "hash_set_map key hs k = Some d" by (simp add: hash_set_map_iff [OF dist])
      with n(2) False d(1) show ?thesis by (simp add: hash_set_get_def)
    qed
  next
    assume r: "probe_once (skips key hs k) ?cap ?s = Some None" "\<forall>j < ?cap. skips key hs k j"
    then have "hash_set_map key hs k = None"
      by (intro absent) (auto simp: skips_def)
    with r(1) show ?thesis by (simp add: hash_set_get_def)
  qed
qed

lemma insert_slot_ok:
  assumes inv: "hash_set_inv hash key hs" and room: "count hs < capacity hs"
    and new: "hash_set_map key hs (key d) = None"
  shows "\<exists>hs'. insert_slot hash key hs d = Some (hs', 0) \<and> hash_set_inv hash key hs' \<and>
    hash_set_map key hs' = (hash_set_map key hs)(key d \<mapsto> d) \<and> iterating hs' = iterating hs"
proof -
  let ?cap = "capacity hs" and ?sts = "states hs" and ?ds = "data hs"
  have ok: "table_ok hash key ?cap ?sts ?ds" and cnt: "count hs = length (elems ?sts ?ds)"
    and dist: "distinct (map key (elems ?sts ?ds))"
    using inv by (simp_all add: hash_set_inv_def)
  obtain j where "j < ?cap" "?sts ! j \<noteq> Occupied"
    using exists_unoccupied [OF ok] room cnt by auto
  then obtain i where i: "probe (\<lambda>i. ?sts ! i \<noteq> Occupied) ?cap (hash (key d) mod ?cap) = Some i"
    "table_ok hash key ?cap (?sts[i := Occupied]) (?ds[i := Some d])"
    "mset (elems (?sts[i := Occupied]) (?ds[i := Some d])) = add_mset d (mset (elems ?sts ?ds))"
    using occupy_probed [OF ok, of j "\<lambda>st. st \<noteq> Occupied" d] by auto
  define hs' where "hs' = hs\<lparr>states := ?sts[i := Occupied], data := ?ds[i := Some d], count := count hs + 1\<rparr>"
  have m: "mset (elems (states hs') (data hs')) = mset (d # elems ?sts ?ds)"
    using i(3) by (simp add: hs'_def)
  have "key d \<notin> key ` set (elems ?sts ?ds)"
    using new by (simp add: dom_hash_set_map [symmetric] domIff)
  with dist have dist': "distinct (map key (elems (states hs') (data hs')))"
    by (simp add: distinct_keys_mset [OF m])
  moreover have "count hs' = length (elems (states hs') (data hs'))"
    using arg_cong [OF m, of size] cnt by (simp add: hs'_def)
  ultimately have "hash_set_inv hash key hs'"
    using i(2) by (simp add: hash_set_inv_def hs'_def)
  moreover have "hash_set_map key hs' = (hash_set_map key hs)(key d \<mapsto> d)"
    using m by (intro hash_set_map_add(1) [OF _ dist']) simp
  moreover have "insert_slot hash key hs d = Some (hs', 0)"
    by (simp add: insert_slot_def i(1) hs'_def)
  ultimately show ?thesis by (auto simp: hs'_def)
qed

text \<open>Replacing the table by one with the same elements keeps the invariant and the content.\<close>

lemma retable:
  assumes inv: "hash_set_inv hash key hs" and ok: "table_ok hash key cap sts ds"
    and m: "mset (elems sts ds) = mset (elems (states hs) (data hs))"
  shows "hash_set_inv hash key (hs\<lparr>data := ds, states := sts, capacity := cap\<rparr>)"
    and "hash_set_map key (hs\<lparr>data := ds, states := sts, capacity := cap\<rparr>) = hash_set_map key hs"
proof -
  have "length (elems sts ds) = length (elems (states hs) (data hs))"
    using m by (metis size_mset)
  then show "hash_set_inv hash key (hs\<lparr>data := ds, states := sts, capacity := cap\<rparr>)"
    using inv ok distinct_keys_mset [OF m, of key] by (simp add: hash_set_inv_def)
  show "hash_set_map key (hs\<lparr>data := ds, states := sts, capacity := cap\<rparr>) = hash_set_map key hs"
    using inv m by (intro hash_set_map_same) (simp_all add: hash_set_inv_def)
qed

lemma elems_full:
  assumes "length sts = length ds" and "\<forall>i < length sts. sts ! i = Occupied \<and> ds ! i \<noteq> None"
  shows "elems sts ds = map the ds \<and> None \<notin> set ds"
  using assms
proof (induction sts ds rule: list_induct2)
  case (Cons st sts x ds)
  have "\<forall>i < length sts. sts ! i = Occupied \<and> ds ! i \<noteq> None"
    using Cons.prems by (metis Suc_mono length_Cons nth_Cons_Suc)
  moreover have "st = Occupied \<and> x \<noteq> None"
    using Cons.prems by fastforce
  ultimately show ?case using Cons.IH by auto
qed simp

lemma hash_set_insert_ok:
  assumes inv: "hash_set_inv hash key hs" and new: "hash_set_map key hs (key d) = None"
  shows "\<exists>hs'. hash_set_insert hash key True hs d = Some (hs', 0) \<and> hash_set_inv hash key hs' \<and>
    hash_set_map key hs' = (hash_set_map key hs)(key d \<mapsto> d) \<and> iterating hs' = iterating hs"
proof (cases "count hs = capacity hs")
  case False
  have "count hs \<le> capacity hs"
    using inv count_le_cap by (metis hash_set_inv_def)
  with False insert_slot_ok [OF inv _ new] show ?thesis by (simp add: hash_set_insert_def)
next
  case True
  let ?cap = "capacity hs"
  have ok: "table_ok hash key ?cap (states hs) (data hs)"
    and cnt: "length (elems (states hs) (data hs)) = ?cap"
    using inv True unfolding hash_set_inv_def by metis+
  note T = table_okD [OF ok]
  have "\<forall>i < length (states hs). states hs ! i = Occupied \<and> data hs ! i \<noteq> None"
    using all_occupied [OF ok cnt] T(2,4) by fastforce
  then have full: "elems (states hs) (data hs) = map the (data hs)" "None \<notin> set (data hs)"
    using elems_full [of "states hs" "data hs"] T(2,3) by simp_all
  have "\<forall>x \<in> set (data hs). x \<noteq> None" "length (data hs) \<le> ?cap * 2" "0 < ?cap * 2"
    using full(2) T(1,3) by (metis, simp, simp)
  then obtain sts ds where r: "rehash hash key (?cap * 2) (data hs) (new_table (?cap * 2)) = Some (sts, ds)"
    "table_ok hash key (?cap * 2) sts ds" "mset (elems sts ds) = mset (map the (data hs))"
    using rehash_new_table [of "data hs" "?cap * 2" hash key] by blast
  let ?hs = "hs\<lparr>data := ds, states := sts, capacity := ?cap * 2\<rparr>"
  have "hash_set_inv hash key ?hs" "hash_set_map key ?hs = hash_set_map key hs"
    using retable [OF inv r(2)] r(3) full(1) by simp_all
  moreover have "count ?hs < capacity ?hs" using True T(1) by simp
  ultimately obtain hs' where "insert_slot hash key ?hs d = Some (hs', 0)" "hash_set_inv hash key hs'"
    "hash_set_map key hs' = (hash_set_map key hs)(key d \<mapsto> d)" "iterating hs' = iterating hs"
    using insert_slot_ok [of hash key ?hs d] new by auto
  then show ?thesis using True r(1) by (simp add: hash_set_insert_def)
qed

text \<open>Without memory an insertion into a full set fails and changes nothing.\<close>

lemma hash_set_insert_no_memory:
  assumes "hash_set_inv hash key hs" and "hash_set_map key hs (key d) = None"
  shows "if count hs = capacity hs then hash_set_insert hash key False hs d = Some (hs, - 1)
    else hash_set_insert hash key False hs d = hash_set_insert hash key True hs d"
  by (simp add: hash_set_insert_def)

lemma occupied_data_elems:
  assumes "length sts = length ds" and "\<forall>i < length sts. sts ! i = Occupied \<longrightarrow> ds ! i \<noteq> None"
  shows "map the (occupied_data sts ds) = elems sts ds \<and> None \<notin> set (occupied_data sts ds)"
  using assms
proof (induction sts ds rule: list_induct2)
  case (Cons st sts x ds)
  have "\<forall>i < length sts. sts ! i = Occupied \<longrightarrow> ds ! i \<noteq> None"
    using Cons.prems by (metis Suc_mono length_Cons nth_Cons_Suc)
  moreover have "st = Occupied \<longrightarrow> x \<noteq> None"
    using Cons.prems by fastforce
  ultimately show ?case using Cons.IH by (auto simp: occupied_data_def split: option.splits)
qed (simp add: occupied_data_def)

lemma realloc_set_ok:
  assumes inv: "hash_set_inv hash key hs" and small: "count hs < capacity hs div 4"
  shows "\<exists>hs'. realloc_set hash key mem hs = Some hs' \<and> hash_set_inv hash key hs' \<and>
    hash_set_map key hs' = hash_set_map key hs"
proof (cases mem)
  case False
  with inv show ?thesis by (simp add: realloc_set_def)
next
  case True
  let ?cap = "capacity hs" and ?xs = "occupied_data (states hs) (data hs)"
  have ok: "table_ok hash key ?cap (states hs) (data hs)"
    and cnt: "count hs = length (elems (states hs) (data hs))"
    using inv by (simp_all add: hash_set_inv_def)
  note T = table_okD [OF ok]
  have xs: "map the ?xs = elems (states hs) (data hs)" "None \<notin> set ?xs"
    using occupied_data_elems [of "states hs" "data hs"] T(2-4) by fastforce+
  then have "length ?xs = count hs" using cnt by (metis length_map)
  then have "length ?xs \<le> ?cap div 2" "0 < ?cap div 2" using small by simp_all
  then obtain sts ds where r: "rehash hash key (?cap div 2) ?xs (new_table (?cap div 2)) = Some (sts, ds)"
    "table_ok hash key (?cap div 2) sts ds" "mset (elems sts ds) = mset (map the ?xs)"
    using rehash_new_table [of ?xs "?cap div 2" hash key] xs(2) by metis
  with True xs(1) retable [OF inv r(2)] show ?thesis by (simp add: realloc_set_def)
qed

text \<open>The loop of \<open>hash_set_remove\<close> ends at the slot of the key, if the key is in the set.\<close>

lemma remove_probe:
  assumes inv: "hash_set_inv hash key hs" and d: "hash_set_map key hs k = Some d"
  shows "\<exists>i < capacity hs. probe (\<lambda>i. \<not> skips key hs k i) (capacity hs) (hash k mod capacity hs) = Some i \<and>
    states hs ! i = Occupied \<and> data hs ! i = Some d"
proof -
  let ?cap = "capacity hs" and ?sts = "states hs" and ?ds = "data hs"
  let ?s = "hash k mod ?cap"
  have ok: "table_ok hash key ?cap ?sts ?ds" and dist: "distinct (map key (elems ?sts ?ds))"
    using inv by (simp_all add: hash_set_inv_def)
  note T = table_okD [OF ok]
  have s: "?s < ?cap" using T(1) by simp
  have "d \<in> set (elems ?sts ?ds)" "key d = k" using d by (simp_all add: hash_set_map_iff [OF dist])
  then obtain j where j: "j < ?cap" "?sts ! j = Occupied" "?ds ! j = Some d"
    using T(2,3) by (auto simp: in_elems)
  then have "\<not> skips key hs k j" using \<open>key d = k\<close> by (simp add: skips_def)
  from probe_finds [OF s j(1), of "\<lambda>i. \<not> skips key hs k i"] this obtain n where
    n: "n < ?cap" "probe (\<lambda>i. \<not> skips key hs k i) ?cap ?s = Some ((?s + n) mod ?cap)"
    "\<not> skips key hs k ((?s + n) mod ?cap)" "\<forall>m < n. skips key hs k ((?s + m) mod ?cap)"
    by auto
  let ?i = "(?s + n) mod ?cap"
  from T(4) [OF j(1,2)] j(3) \<open>key d = k\<close> obtain n' where
    n': "(?s + n') mod ?cap = j" "\<forall>m < n'. ?sts ! ((?s + m) mod ?cap) \<noteq> Free"
    by (auto simp: reach_def)
  have "?sts ! ?i \<noteq> Free"
  proof (cases "n < n'")
    case False
    then have "n = n'" using n(4) n'(1) \<open>\<not> skips key hs k j\<close> by (metis linorder_neqE_nat)
    with n'(1) j(2) show ?thesis by simp
  qed (use n'(2) in simp)
  with n(3) have occ: "?sts ! ?i = Occupied" "map_option key (?ds ! ?i) = Some k"
    by (cases "?sts ! ?i"; simp add: skips_def)+
  then obtain x where x: "?ds ! ?i = Some x" "key x = k" by auto
  moreover have "?i < ?cap" using T(1) by simp
  ultimately have "x \<in> set (elems ?sts ?ds)" using occ(1) T(2,3) by (auto simp: in_elems)
  with x(2) d have "x = d" by (metis hash_set_map_iff [OF dist] option.inject)
  with n(2) occ(1) x(1) \<open>?i < ?cap\<close> show ?thesis by blast
qed

lemma hash_set_remove_ok:
  assumes inv: "hash_set_inv hash key hs" and d: "hash_set_map key hs k = Some d"
  shows "\<exists>hs'. hash_set_remove hash key mem hs k = Some hs' \<and> hash_set_inv hash key hs' \<and>
    hash_set_map key hs' = (hash_set_map key hs)(k := None)"
proof -
  let ?sts = "states hs" and ?ds = "data hs"
  have ok: "table_ok hash key (capacity hs) ?sts ?ds" and cnt: "count hs = length (elems ?sts ?ds)"
    and dist: "distinct (map key (elems ?sts ?ds))"
    using inv by (simp_all add: hash_set_inv_def)
  obtain i where i: "i < capacity hs"
    "probe (\<lambda>i. \<not> skips key hs k i) (capacity hs) (hash k mod capacity hs) = Some i"
    "?sts ! i = Occupied" "?ds ! i = Some d"
    using remove_probe [OF assms] by blast
  define h1 where "h1 = hs\<lparr>states := ?sts[i := Deleted], count := size_dec (count hs)\<rparr>"
  have m: "mset (elems ?sts ?ds) = add_mset d (mset (elems (states h1) (data h1)))"
    using mset_elems_delete [of ?sts ?ds i d] i table_okD(2,3) [OF ok] by (simp add: h1_def)
  have "count hs = Suc (length (elems (states h1) (data h1)))"
    using arg_cong [OF m, of size] cnt by simp
  then have inv1: "hash_set_inv hash key h1"
    using table_ok_delete [OF ok i(1)] hash_set_map_add(2) [OF m dist]
    by (simp add: hash_set_inv_def h1_def size_dec_def)
  have "key d = k" using d by (simp add: hash_set_map_iff [OF dist])
  then have map1: "hash_set_map key h1 = (hash_set_map key hs)(k := None)"
    using hash_set_map_add(1,3) [OF m dist] by (auto simp: fun_eq_iff)
  have "hash_set_remove hash key mem hs k =
      (if \<not> iterating h1 \<and> count h1 < capacity h1 div 4 then realloc_set hash key mem h1 else Some h1)"
    by (simp add: hash_set_remove_def i(2) h1_def Let_def)
  then show ?thesis using inv1 map1 realloc_set_ok [OF inv1, of mem] by auto
qed

text \<open>
  Removing a key that is not in the set: the loop never ends when no slot is free; otherwise it
  ends at a free slot, which becomes a deleted one, and the count goes down although nothing
  was removed.
\<close>

lemma absent_skips:
  assumes inv: "hash_set_inv hash key hs" and "hash_set_map key hs k = None" and "i < capacity hs"
  shows "skips key hs k i \<longleftrightarrow> states hs ! i \<noteq> Free"
proof -
  have ok: "table_ok hash key (capacity hs) (states hs) (data hs)"
    using inv by (simp add: hash_set_inv_def)
  have "map_option key (data hs ! i) \<noteq> Some k" if occ: "states hs ! i = Occupied"
  proof
    assume "map_option key (data hs ! i) = Some k"
    then obtain d where d: "data hs ! i = Some d" "key d = k" by auto
    with occ assms(3) table_okD(2,3) [OF ok] have "d \<in> set (elems (states hs) (data hs))"
      by (auto simp: in_elems)
    with d(2) assms(2) show False by (metis dom_hash_set_map domIff imageI)
  qed
  then show ?thesis by (cases "states hs ! i") (auto simp: skips_def)
qed

lemma hash_set_remove_absent_diverges:
  assumes inv: "hash_set_inv hash key hs" and "hash_set_map key hs k = None"
    and "\<forall>i < capacity hs. states hs ! i \<noteq> Free"
  shows "hash_set_remove hash key mem hs k = None"
proof -
  have "0 < capacity hs" using inv by (simp add: hash_set_inv_def table_ok_def)
  then have "probe (\<lambda>i. \<not> skips key hs k i) (capacity hs) (hash k mod capacity hs) = None"
    using absent_skips [OF assms(1,2)] assms(3) by (intro probe_diverges) auto
  then show ?thesis by (simp add: hash_set_remove_def)
qed

lemma hash_set_clear_ok:
  assumes "hash_set_inv hash key hs"
  shows "hash_set_inv hash key (hash_set_clear hs) \<and> hash_set_map key (hash_set_clear hs) = Map.empty"
proof -
  have "data hs \<noteq> []" using assms by (auto simp: hash_set_inv_def table_ok_def)
  then obtain x xs where "data hs = x # xs" by (cases "data hs") auto
  then show ?thesis
    by (auto simp: hash_set_inv_def table_ok_def hash_set_clear_def hash_set_map_def split: option.splits)
qed

text \<open>Iteration visits every element once, in slot order, and keeps the set if keys are kept.\<close>

lemma foreach_slots_elems:
  assumes "length sts = length ds" and "\<forall>d c. key (fst (f d c)) = key d"
  shows "length (fst (foreach_slots f sts ds c)) = length ds \<and>
    snd (foreach_slots f sts ds c) = fold (\<lambda>d c. snd (f d c)) (elems sts ds) c \<and>
    map key (elems sts (fst (foreach_slots f sts ds c))) = map key (elems sts ds) \<and>
    (\<forall>i < length sts. map_option key (fst (foreach_slots f sts ds c) ! i) = map_option key (ds ! i))"
  using assms(1)
proof (induction sts ds arbitrary: c rule: list_induct2)
  case (Cons st sts x ds)
  obtain d' c' where f: "x = Some d \<Longrightarrow> f d c = (d', c')" for d
    by (cases x) (auto, meson surj_pair)
  show ?case
  proof (cases "st = Occupied \<and> x \<noteq> None")
    case True
    then obtain d where x: "st = Occupied" "x = Some d" by auto
    have "key d' = key d" using assms(2) f [OF x(2)] by (metis fst_conv)
    with Cons.IH [of c'] f [OF x(2)] show ?thesis
      by (auto simp: x split: prod.splits simp: nth_Cons split: nat.splits)
  next
    case False
    have step: "foreach_slots f (st # sts) (x # ds) c = (case foreach_slots f sts ds c of (ds, c) \<Rightarrow> (x # ds, c))"
      using False by (cases st; cases x) simp_all
    have "elems (st # sts) (x # ys) = elems sts ys" for ys :: "'a option list"
      using False by (auto split: option.splits)
    with step Cons.IH [of c] show ?thesis
      by (auto simp del: elems_simps split: prod.splits simp: nth_Cons split: nat.splits)
  qed
qed simp

lemma hash_set_foreach_ok:
  assumes inv: "hash_set_inv hash key hs" and f: "\<forall>d c. key (fst (f d c)) = key d"
  shows "hash_set_inv hash key (fst (hash_set_foreach_keep f hs c))"
    and "dom (hash_set_map key (fst (hash_set_foreach_keep f hs c))) = dom (hash_set_map key hs)"
    and "snd (hash_set_foreach_keep f hs c) = fold (\<lambda>d c. snd (f d c)) (elems (states hs) (data hs)) c"
proof -
  let ?ds = "fst (foreach_slots f (states hs) (data hs) c)"
  have ok: "table_ok hash key (capacity hs) (states hs) (data hs)"
    using inv by (simp add: hash_set_inv_def)
  note T = table_okD [OF ok]
  have F: "length ?ds = length (data hs)"
    "snd (foreach_slots f (states hs) (data hs) c) = fold (\<lambda>d c. snd (f d c)) (elems (states hs) (data hs)) c"
    "map key (elems (states hs) ?ds) = map key (elems (states hs) (data hs))"
    "\<And>i. i < capacity hs \<Longrightarrow> map_option key (?ds ! i) = map_option key (data hs ! i)"
    using foreach_slots_elems [of "states hs" "data hs" key f c] T(2,3) f by auto
  have hs': "fst (hash_set_foreach_keep f hs c) = hs\<lparr>data := ?ds\<rparr>"
    by (simp add: hash_set_foreach_keep_def split: prod.splits)
  have "\<exists>d. ?ds ! i = Some d \<and> reach (states hs) (capacity hs) (hash (key d) mod capacity hs) i"
    if "i < capacity hs" "states hs ! i = Occupied" for i
    using T(4) [OF that] F(4) [OF that(1)] by force
  then have "table_ok hash key (capacity hs) (states hs) ?ds"
    using T F(1) by (simp add: table_ok_def)
  moreover have "length (elems (states hs) ?ds) = length (elems (states hs) (data hs))"
    using F(3) by (metis length_map)
  ultimately show "hash_set_inv hash key (fst (hash_set_foreach_keep f hs c))"
    using inv F(3) by (simp add: hash_set_inv_def hs')
  show "dom (hash_set_map key (fst (hash_set_foreach_keep f hs c))) = dom (hash_set_map key hs)"
    using arg_cong [OF F(3), of set] by (simp add: dom_hash_set_map hs')
  show "snd (hash_set_foreach_keep f hs c) = fold (\<lambda>d c. snd (f d c)) (elems (states hs) (data hs)) c"
    using F(2) by (simp add: hash_set_foreach_keep_def case_prod_unfold)
qed

subsection \<open>Properties\<close>

text \<open>
  Removing a key that is not in the set does not return when the table has no free slot:
  the loop skips occupied slots with other keys and deleted slots, and all slots are such.
\<close>

theorem remove_absent_never_returns:
  assumes "hash_set_inv hash key hs" and "hash_set_map key hs k = None"
    and "Free \<notin> set (states hs)"
  shows "hash_set_remove hash key mem hs k = None"
proof (rule hash_set_remove_absent_diverges [OF assms(1,2)], intro allI impI)
  fix i
  assume "i < capacity hs"
  then have "states hs ! i \<in> set (states hs)"
    using assms(1) by (simp add: hash_set_inv_def table_ok_def)
  with assms(3) show "states hs ! i \<noteq> Free" by metis
qed

theorem remove_absent_never_returns_witness:
  "hash_set_remove id id True \<lparr>capacity = 1, count = 1, states = [Occupied], data = [Some 5], iterating = False\<rparr> (6 :: nat) = None"
  by (rule remove_absent_never_returns)
    (simp_all add: hash_set_inv_def table_ok_def reach_def hash_set_map_def)

text \<open>
  Iteration calls the callback once for every element, in slot order, threading its
  context, and as long as the callback keeps keys the set stays well formed with the same
  keys.
\<close>

theorem foreach_visits_every_element:
  assumes "hash_set_inv hash key hs" and "\<forall>d c. key (fst (f d c)) = key d"
    and "hash_set_foreach_keep f hs c = (hs', c')"
  shows "hash_set_inv hash key hs' \<and> dom (hash_set_map key hs') = dom (hash_set_map key hs) \<and>
    c' = fold (\<lambda>d c. snd (f d c)) (elems (states hs) (data hs)) c"
  using hash_set_foreach_ok [OF assms(1,2), of c] assms(3) by simp

theorem foreach_visits_every_element_witness:
  "let hs = \<lparr>capacity = 2, count = 1, states = [Deleted, Occupied], data = [None, Some (3, 5)], iterating = False\<rparr>;
       (hs', c') = hash_set_foreach_keep (\<lambda>(k, v) c. ((k, v + 1), c + v)) hs (10 :: nat)
   in hash_set_inv id fst hs' \<and> dom (hash_set_map fst hs') = {3 :: nat} \<and> c' = (15 :: nat)"
proof -
  let ?hs = "\<lparr>capacity = 2, count = 1, states = [Deleted, Occupied], data = [None, Some (3 :: nat, 5 :: nat)], iterating = False\<rparr>"
  have "reach [Deleted, Occupied] 2 1 1"
    unfolding reach_def by (rule exI [of _ 0]) simp
  then have reach0: "reach [Deleted, Occupied] 2 (Suc 0) (Suc 0)" by simp
  have inv: "hash_set_inv id fst ?hs"
    using reach0 by (simp add: hash_set_inv_def table_ok_def less_2_cases_iff)
  from foreach_visits_every_element [OF inv, of "\<lambda>(k, v) c. ((k, v + 1), c + v)" 10] show ?thesis
    by (auto simp: dom_hash_set_map split: prod.splits)
qed

end
