(* ===== verification/Keyed_Set.thy ===== *)
theory Keyed_Set
  imports Hash_Set
begin

text \<open>
  The public hash sets of \<^verbatim>\<open>src/src/hash-map.h\<close> (\<open>HashSetU32\<close>, \<open>HashSetU16\<close>,
  \<open>HashSetAddr\<close>) and the interface their clients rely on.

  The locale \<open>keyed_set\<close> is the contract: a finite map from keys to elements, with the laws of
  get, insert, remove and size. The integer-keyed sets implement it
  (interpretations \<open>u32\<close> and \<open>u16\<close>, for any hash function and any element type). The
  address-keyed set does not, since it hashes with a key length that depends on the address
  that happens to be inserted.
\<close>

subsection \<open>The interface\<close>

locale keyed_set =
  fixes invar :: "'s \<Rightarrow> bool"
    and content :: "'s \<Rightarrow> 'k \<Rightarrow> 'd option"
    and key :: "'d \<Rightarrow> 'k"
    and create :: "bool \<Rightarrow> 's option"
    and get :: "'s \<Rightarrow> 'k \<Rightarrow> 'd option option"
    and insert :: "bool \<Rightarrow> 's \<Rightarrow> 'd \<Rightarrow> ('s \<times> int) option"
    and remove :: "bool \<Rightarrow> 's \<Rightarrow> 'k \<Rightarrow> 's option"
    and size :: "'s \<Rightarrow> nat"
  assumes create_law: "\<exists>s. create True = Some s \<and> invar s \<and> content s = Map.empty"
    and get_law: "invar s \<Longrightarrow> get s k = Some (content s k)"
    and insert_law: "invar s \<Longrightarrow> content s (key d) = None \<Longrightarrow>
      \<exists>s'. insert True s d = Some (s', 0) \<and> invar s' \<and> content s' = (content s)(key d \<mapsto> d)"
    and insert_no_memory: "invar s \<Longrightarrow> content s (key d) = None \<Longrightarrow>
      insert False s d = Some (s, - 1) \<or> insert False s d = insert True s d"
    and remove_law: "invar s \<Longrightarrow> content s k \<noteq> None \<Longrightarrow>
      \<exists>s'. remove mem s k = Some s' \<and> invar s' \<and> content s' = (content s)(k := None)"
    and size_law: "invar s \<Longrightarrow> size s = card (dom (content s))"
    and content_key: "invar s \<Longrightarrow> content s k = Some d \<Longrightarrow> key d = k"
begin

lemma insert_cases:
  assumes "invar s" and "content s (key d) = None"
  obtains (Ok) s' where "insert mem s d = Some (s', 0)" "invar s'" "content s' = (content s)(key d \<mapsto> d)"
    | (No_memory) "\<not> mem" "insert mem s d = Some (s, - 1)"
  using insert_law [OF assms] insert_no_memory [OF assms] by (cases mem) auto

lemma get_after_insert:
  assumes "invar s" and "content s (key d) = None" and "insert mem s d = Some (s', 0)"
  shows "get s' k = (if k = key d then Some (Some d) else get s k)"
  using assms(1,2)
  by (cases rule: insert_cases [where mem = mem]) (use assms(1,3) in \<open>auto simp: get_law\<close>)

lemma get_after_remove:
  assumes "invar s" and "content s k \<noteq> None" and "remove mem s k = Some s'"
  shows "get s' k' = (if k' = k then Some None else get s k')"
proof -
  from remove_law [OF assms(1,2), of mem] assms(3)
  have "invar s'" "content s' = (content s)(k := None)" by auto
  with assms(1) show ?thesis by (simp add: get_law)
qed

text \<open>The pattern of the clients: look a key up and insert an element for it if there is none.\<close>

lemma get_or_insert:
  assumes "invar s" and "get s (key d) = Some None" and "insert mem s d = Some (s', r)"
  shows "invar s' \<and> (r = 0 \<and> content s' = (content s)(key d \<mapsto> d) \<or> r = - 1 \<and> s' = s)"
proof -
  from assms(1,2) have "content s (key d) = None" by (simp add: get_law)
  then show ?thesis
    using assms(1) by (cases rule: insert_cases [where mem = mem, OF assms(1)]) (use assms(3) in auto)
qed

lemma size_after_insert:
  assumes "invar s" and "content s (key d) = None" and "insert mem s d = Some (s', 0)"
    and "finite (dom (content s))"
  shows "size s' = Suc (size s)"
  using assms(1,2)
proof (cases rule: insert_cases [where mem = mem])
  case (Ok t)
  then have "size s' = card (dom ((content s)(key d \<mapsto> d)))"
    using assms(3) by (simp add: size_law)
  moreover have "key d \<notin> dom (content s)" using assms(2) by auto
  ultimately show ?thesis using assms(1,4) by (simp add: size_law)
qed (use assms(3) in auto)

end

subsection \<open>Integer keys\<close>

definition hash_u32 :: "(bytes \<Rightarrow> u64) \<Rightarrow> u32 \<Rightarrow> nat" where
  "hash_u32 xxh3 k = unat (xxh3 (le_bytes 4 (uint k)))"

definition hash_u16 :: "(bytes \<Rightarrow> u64) \<Rightarrow> u16 \<Rightarrow> nat" where
  "hash_u16 xxh3 k = unat (xxh3 (le_bytes 2 (uint k)))"

definition hash_set_u32_create :: "bool \<Rightarrow> 'd hash_set option" where
  "hash_set_u32_create mem = hash_set_init mem"

definition hash_set_u32_insert ::
  "(bytes \<Rightarrow> u64) \<Rightarrow> ('d \<Rightarrow> u32) \<Rightarrow> bool \<Rightarrow> 'd hash_set \<Rightarrow> 'd \<Rightarrow> ('d hash_set \<times> int) option" where
  "hash_set_u32_insert xxh3 key mem hs d = hash_set_insert (hash_u32 xxh3) key mem hs d"

definition hash_set_u32_get :: "(bytes \<Rightarrow> u64) \<Rightarrow> ('d \<Rightarrow> u32) \<Rightarrow> 'd hash_set \<Rightarrow> u32 \<Rightarrow> 'd option option" where
  "hash_set_u32_get xxh3 key hs k = hash_set_get (hash_u32 xxh3) key hs k"

definition hash_set_u32_remove ::
  "(bytes \<Rightarrow> u64) \<Rightarrow> ('d \<Rightarrow> u32) \<Rightarrow> bool \<Rightarrow> 'd hash_set \<Rightarrow> u32 \<Rightarrow> 'd hash_set option" where
  "hash_set_u32_remove xxh3 key mem hs k = hash_set_remove (hash_u32 xxh3) key mem hs k"

definition hash_set_u32_size :: "'d hash_set \<Rightarrow> nat" where
  "hash_set_u32_size hs = count hs"

definition hash_set_u32_foreach ::
  "(bytes \<Rightarrow> u64) \<Rightarrow> ('d \<Rightarrow> u32) \<Rightarrow> bool \<Rightarrow> ('d \<Rightarrow> 'c \<Rightarrow> 'd \<times> 'c) \<Rightarrow> 'd hash_set \<Rightarrow> 'c \<Rightarrow>
   ('d hash_set \<times> 'c) option" where
  "hash_set_u32_foreach xxh3 key mem f hs c = hash_set_foreach_shrink (hash_u32 xxh3) key mem f hs c"

definition hash_set_u32_clear :: "'d hash_set \<Rightarrow> 'd hash_set" where
  "hash_set_u32_clear hs = hash_set_clear hs"

definition hash_set_u16_create :: "bool \<Rightarrow> 'd hash_set option" where
  "hash_set_u16_create mem = hash_set_init mem"

definition hash_set_u16_insert ::
  "(bytes \<Rightarrow> u64) \<Rightarrow> ('d \<Rightarrow> u16) \<Rightarrow> bool \<Rightarrow> 'd hash_set \<Rightarrow> 'd \<Rightarrow> ('d hash_set \<times> int) option" where
  "hash_set_u16_insert xxh3 key mem hs d = hash_set_insert (hash_u16 xxh3) key mem hs d"

definition hash_set_u16_get :: "(bytes \<Rightarrow> u64) \<Rightarrow> ('d \<Rightarrow> u16) \<Rightarrow> 'd hash_set \<Rightarrow> u16 \<Rightarrow> 'd option option" where
  "hash_set_u16_get xxh3 key hs k = hash_set_get (hash_u16 xxh3) key hs k"

definition hash_set_u16_remove ::
  "(bytes \<Rightarrow> u64) \<Rightarrow> ('d \<Rightarrow> u16) \<Rightarrow> bool \<Rightarrow> 'd hash_set \<Rightarrow> u16 \<Rightarrow> 'd hash_set option" where
  "hash_set_u16_remove xxh3 key mem hs k = hash_set_remove (hash_u16 xxh3) key mem hs k"

definition hash_set_u16_size :: "'d hash_set \<Rightarrow> nat" where
  "hash_set_u16_size hs = count hs"

definition hash_set_u16_foreach :: "('d \<Rightarrow> 'c \<Rightarrow> 'd \<times> 'c) \<Rightarrow> 'd hash_set \<Rightarrow> 'c \<Rightarrow> 'd hash_set \<times> 'c" where
  "hash_set_u16_foreach f hs c = hash_set_foreach_keep f hs c"

subsection \<open>Socket addresses as keys\<close>

text \<open>
  The key is the object at \<open>keyOffset\<close>, a \<open>struct sockaddr_in\<close> (16 bytes) or a
  \<open>struct sockaddr_in6\<close> (28 bytes); its first two bytes are the family. The length of the key
  is taken from the address at hand, for the whole operation.
\<close>

definition addr_key_size :: "bytes \<Rightarrow> nat" where
  "addr_key_size addr = (if le_val (take 2 addr) = 2 then 16 else 28)"

definition hash_addr :: "(bytes \<Rightarrow> u64) \<Rightarrow> bytes \<Rightarrow> nat" where
  "hash_addr xxh3 k = unat (xxh3 k)"

definition hash_set_addr_create :: "bool \<Rightarrow> 'd hash_set option" where
  "hash_set_addr_create mem = hash_set_init mem"

definition hash_set_addr_size :: "'d hash_set \<Rightarrow> nat" where
  "hash_set_addr_size hs = count hs"

definition hash_set_addr_foreach :: "('d \<Rightarrow> 'c \<Rightarrow> 'd \<times> 'c) \<Rightarrow> 'd hash_set \<Rightarrow> 'c \<Rightarrow> 'd hash_set \<times> 'c" where
  "hash_set_addr_foreach f hs c = hash_set_foreach_keep f hs c"

definition hash_set_addr_insert ::
  "(bytes \<Rightarrow> u64) \<Rightarrow> ('d \<Rightarrow> bytes) \<Rightarrow> bool \<Rightarrow> 'd hash_set \<Rightarrow> 'd \<Rightarrow> ('d hash_set \<times> int) option" where
  "hash_set_addr_insert xxh3 addr mem hs d =
     hash_set_insert (hash_addr xxh3) (\<lambda>x. take (addr_key_size (addr d)) (addr x)) mem hs d"

definition hash_set_addr_get :: "(bytes \<Rightarrow> u64) \<Rightarrow> ('d \<Rightarrow> bytes) \<Rightarrow> 'd hash_set \<Rightarrow> bytes \<Rightarrow> 'd option option" where
  "hash_set_addr_get xxh3 addr hs k =
     hash_set_get (hash_addr xxh3) (\<lambda>x. take (addr_key_size k) (addr x)) hs (take (addr_key_size k) k)"

definition hash_set_addr_remove ::
  "(bytes \<Rightarrow> u64) \<Rightarrow> ('d \<Rightarrow> bytes) \<Rightarrow> bool \<Rightarrow> 'd hash_set \<Rightarrow> bytes \<Rightarrow> 'd hash_set option" where
  "hash_set_addr_remove xxh3 addr mem hs k =
     hash_set_remove (hash_addr xxh3) (\<lambda>x. take (addr_key_size k) (addr x)) mem hs (take (addr_key_size k) k)"

subsection \<open>The integer-keyed sets implement the interface\<close>

lemma hash_set_keyed_set:
  fixes hash :: "'k \<Rightarrow> nat" and key :: "'d \<Rightarrow> 'k"
  shows "keyed_set (hash_set_inv hash key) (hash_set_map key) key hash_set_init (hash_set_get hash key)
     (hash_set_insert hash key) (hash_set_remove hash key) count"
proof
  show "\<exists>s. hash_set_init True = Some s \<and> hash_set_inv hash key s \<and> hash_set_map key s = Map.empty"
    by (rule hash_set_init_ok)
next
  fix s :: "'d hash_set" and k
  assume inv: "hash_set_inv hash key s"
  then show "hash_set_get hash key s k = Some (hash_set_map key s k)"
    by (rule hash_set_get_ok)
  show "count s = card (dom (hash_set_map key s))"
    using inv by (rule hash_set_count)
  fix d
  show "hash_set_map key s k = Some d \<Longrightarrow> key d = k"
    using inv by (simp add: hash_set_inv_def hash_set_map_iff)
next
  fix s :: "'d hash_set" and d
  assume inv: "hash_set_inv hash key s" and new: "hash_set_map key s (key d) = None"
  show "\<exists>s'. hash_set_insert hash key True s d = Some (s', 0) \<and> hash_set_inv hash key s' \<and>
      hash_set_map key s' = (hash_set_map key s)(key d \<mapsto> d)"
    using hash_set_insert_ok [OF inv new] by blast
  show "hash_set_insert hash key False s d = Some (s, - 1) \<or>
      hash_set_insert hash key False s d = hash_set_insert hash key True s d"
    using hash_set_insert_no_memory [OF inv new] by (auto split: if_splits)
next
  fix s :: "'d hash_set" and k mem
  assume inv: "hash_set_inv hash key s" and "hash_set_map key s k \<noteq> None"
  then show "\<exists>s'. hash_set_remove hash key mem s k = Some s' \<and> hash_set_inv hash key s' \<and>
      hash_set_map key s' = (hash_set_map key s)(k := None)"
    using hash_set_remove_ok [OF inv] by blast
qed

interpretation u32: keyed_set "hash_set_inv (hash_u32 xxh3) key" "hash_set_map key" key
  hash_set_u32_create "hash_set_u32_get xxh3 key" "hash_set_u32_insert xxh3 key"
  "hash_set_u32_remove xxh3 key" hash_set_u32_size
  for xxh3 :: "bytes \<Rightarrow> u64" and key :: "'d \<Rightarrow> u32"
  using hash_set_keyed_set [of "hash_u32 xxh3" key]
  by (simp add: hash_set_u32_create_def [abs_def] hash_set_u32_get_def [abs_def]
      hash_set_u32_insert_def [abs_def] hash_set_u32_remove_def [abs_def] hash_set_u32_size_def [abs_def])

interpretation u16: keyed_set "hash_set_inv (hash_u16 xxh3) key" "hash_set_map key" key
  hash_set_u16_create "hash_set_u16_get xxh3 key" "hash_set_u16_insert xxh3 key"
  "hash_set_u16_remove xxh3 key" hash_set_u16_size
  for xxh3 :: "bytes \<Rightarrow> u64" and key :: "'d \<Rightarrow> u16"
  using hash_set_keyed_set [of "hash_u16 xxh3" key]
  by (simp add: hash_set_u16_create_def [abs_def] hash_set_u16_get_def [abs_def]
      hash_set_u16_insert_def [abs_def] hash_set_u16_remove_def [abs_def] hash_set_u16_size_def [abs_def])

subsection \<open>The address-keyed set loses elements\<close>

text \<open>
  A concrete run: an IPv4 address goes in first, two IPv6 addresses follow, and the second of
  them makes the table grow. The growing table hashes the IPv4 element over 28 bytes, so that
  a look-up over its 16 bytes ends at a free slot.
\<close>

definition ipv4_addr :: bytes where
  "ipv4_addr = [2, 0] @ replicate 26 0"

definition ipv6_addr :: "u8 \<Rightarrow> bytes" where
  "ipv6_addr b = [10, 0] @ replicate 25 0 @ [b]"

definition length_hash :: "bytes \<Rightarrow> u64" where
  "length_hash bs = of_nat (length bs div 8)"

definition mixed_families :: "bytes hash_set option" where
  "mixed_families =
     (case hash_set_addr_create True of None \<Rightarrow> None | Some hs \<Rightarrow>
      (case hash_set_addr_insert length_hash id True hs ipv4_addr of None \<Rightarrow> None | Some (hs, _) \<Rightarrow>
      (case hash_set_addr_insert length_hash id True hs (ipv6_addr 1) of None \<Rightarrow> None | Some (hs, _) \<Rightarrow>
       map_option fst (hash_set_addr_insert length_hash id True hs (ipv6_addr 2)))))"

subsection \<open>Sequences of operations\<close>

text \<open>
  The calls a client makes and what it observes: the result code of an insertion, the element
  found, the number of elements. \<open>mem\<close> tells for each call whether the allocator has memory.
  \<open>legal\<close> is what the callers respect: only absent keys are inserted, only present ones
  removed (under it, every insertion is assumed to find memory).
\<close>

datatype ('k, 'd) set_call = Insert 'd | Remove bool 'k | Get 'k | Size

datatype 'd observation = Code int | Found "'d option" | Count nat | Done

fun legal :: "('d \<Rightarrow> 'k) \<Rightarrow> ('k, 'd) set_call list \<Rightarrow> ('k \<Rightarrow> 'd option) \<Rightarrow> bool" where
  "legal key [] m = True"
| "legal key (Insert d # cs) m = (m (key d) = None \<and> legal key cs (m(key d \<mapsto> d)))"
| "legal key (Remove mem k # cs) m = (m k \<noteq> None \<and> legal key cs (m(k := None)))"
| "legal key (Get k # cs) m = legal key cs m"
| "legal key (Size # cs) m = legal key cs m"

text \<open>What a finite map would answer.\<close>

fun map_answers :: "('d \<Rightarrow> 'k) \<Rightarrow> ('k, 'd) set_call list \<Rightarrow> ('k \<Rightarrow> 'd option) \<Rightarrow> 'd observation list" where
  "map_answers key [] m = []"
| "map_answers key (Insert d # cs) m = Code 0 # map_answers key cs (m(key d \<mapsto> d))"
| "map_answers key (Remove mem k # cs) m = Done # map_answers key cs (m(k := None))"
| "map_answers key (Get k # cs) m = Found (m k) # map_answers key cs m"
| "map_answers key (Size # cs) m = Count (card (dom m)) # map_answers key cs m"

text \<open>What the hash set answers; \<open>None\<close> if one of its loops does not end.\<close>

fun set_answers :: "(bytes \<Rightarrow> u64) \<Rightarrow> ('d \<Rightarrow> u32) \<Rightarrow> (u32, 'd) set_call list \<Rightarrow> 'd hash_set \<Rightarrow>
    'd observation list option" where
  "set_answers xxh3 key [] hs = Some []"
| "set_answers xxh3 key (Insert d # cs) hs =
     (case hash_set_u32_insert xxh3 key True hs d of
        None \<Rightarrow> None
      | Some (hs, r) \<Rightarrow> map_option ((#) (Code r)) (set_answers xxh3 key cs hs))"
| "set_answers xxh3 key (Remove mem k # cs) hs =
     (case hash_set_u32_remove xxh3 key mem hs k of
        None \<Rightarrow> None
      | Some hs \<Rightarrow> map_option ((#) Done) (set_answers xxh3 key cs hs))"
| "set_answers xxh3 key (Get k # cs) hs =
     (case hash_set_u32_get xxh3 key hs k of
        None \<Rightarrow> None
      | Some r \<Rightarrow> map_option ((#) (Found r)) (set_answers xxh3 key cs hs))"
| "set_answers xxh3 key (Size # cs) hs =
     map_option ((#) (Count (hash_set_u32_size hs))) (set_answers xxh3 key cs hs)"

lemma set_answers_refine:
  assumes "hash_set_inv (hash_u32 xxh3) key hs" and "legal key cs (hash_set_map key hs)"
  shows "set_answers xxh3 key cs hs = Some (map_answers key cs (hash_set_map key hs))"
  using assms
proof (induction cs arbitrary: hs)
  case (Cons c cs)
  note inv = Cons.prems(1)
  show ?case
  proof (cases c)
    case (Insert d)
    with Cons.prems u32.insert_law [OF inv, of d] obtain hs' where
      "hash_set_u32_insert xxh3 key True hs d = Some (hs', 0)" "hash_set_inv (hash_u32 xxh3) key hs'"
      "hash_set_map key hs' = (hash_set_map key hs)(key d \<mapsto> d)" by auto
    moreover from this Cons.prems(2) Insert have
      "set_answers xxh3 key cs hs' = Some (map_answers key cs (hash_set_map key hs'))"
      by (intro Cons.IH) (simp_all only: legal.simps)
    ultimately show ?thesis by (simp add: Insert)
  next
    case (Remove mem k)
    with Cons.prems u32.remove_law [OF inv, of k mem] obtain hs' where
      "hash_set_u32_remove xxh3 key mem hs k = Some hs'" "hash_set_inv (hash_u32 xxh3) key hs'"
      "hash_set_map key hs' = (hash_set_map key hs)(k := None)" by auto
    moreover from this Cons.prems(2) Remove have
      "set_answers xxh3 key cs hs' = Some (map_answers key cs (hash_set_map key hs'))"
      by (intro Cons.IH) (simp_all only: legal.simps)
    ultimately show ?thesis by (simp add: Remove)
  qed (use Cons inv in \<open>simp_all add: u32.get_law u32.size_law\<close>)
qed simp

subsection \<open>Properties\<close>

text \<open>
  C5: The hash set is a finite map, for every hash function and element type: after creation,
  any sequence of insertions of absent keys, removals of present ones, look-ups and size
  queries terminates (growing, shrinking and probing past deleted slots included) and answers
  exactly what a finite map answers.
\<close>

theorem hash_set_refines_map:
  assumes "hash_set_u32_create True = Some hs" and "legal key cs Map.empty"
  shows "set_answers xxh3 key cs hs = Some (map_answers key cs Map.empty)"
proof -
  from u32.create_law [of xxh3 key] assms(1)
  have "hash_set_inv (hash_u32 xxh3) key hs" "hash_set_map key hs = Map.empty" by auto
  with set_answers_refine [of xxh3 key hs cs] assms(2) show ?thesis by simp
qed

theorem hash_set_refines_map_witness:
  "\<exists>hs. hash_set_u32_create True = Some hs \<and>
     set_answers (\<lambda>bs. 7) id [Insert 5, Insert 9, Get 9, Remove False 5, Insert 3, Insert 5, Get 3, Size] hs =
       Some [Code 0, Code 0, Found (Some 9), Done, Code 0, Code 0, Found (Some 3), Count 3]"
proof -
  obtain hs :: "u32 hash_set" where hs: "hash_set_u32_create True = Some hs"
    by (simp add: hash_set_u32_create_def hash_set_init_def)
  have "legal id [Insert 5, Insert 9, Get 9, Remove False 5, Insert 3, Insert 5, Get 3, Size] (Map.empty :: u32 \<Rightarrow> u32 option)"
    by simp
  from hash_set_refines_map [OF hs this, of "\<lambda>bs. 7"] hs show ?thesis by simp
qed

text \<open>
  A set keyed by socket addresses can lose an element: after an IPv4 address and two IPv6
  addresses were inserted, a look-up of the IPv4 address finds nothing although the element
  is still in the table, because growing the table hashed it over the wrong length.
\<close>

theorem addr_set_loses_element:
  "case mixed_families of
     Some hs \<Rightarrow> hash_set_addr_get length_hash id hs ipv4_addr = Some None \<and>
       ipv4_addr \<in> set (elems (states hs) (data hs))
   | None \<Rightarrow> False"
  by code_simp

end
