(* ===== verification/Item.thy ===== *)
theory Item
  imports Prelude
begin

text \<open>
  Items and equipment slots (\<^verbatim>\<open>src/src/item.h\<close>) and job families (\<^verbatim>\<open>src/src/job.h\<close>).

  An \<open>enum EquipSlot\<close> or \<open>enum Job\<close> is its number. The worn equipment of a character is an
  array with one entry per slot, in a compact numbering without the gaps of the protocol's
  slot numbers; the lemmas show that the two numberings are inverse to each other, and that
  the slot with the largest number has no place in the array.
\<close>

subsection \<open>Equipment slots\<close>

definition EQUIP_SLOT_COUNT :: nat where "EQUIP_SLOT_COUNT = 64"

definition EQUIP_SLOT_NON_COSMETIC_COUNT :: nat where "EQUIP_SLOT_NON_COSMETIC_COUNT = 17"

definition CHARACTER_MAX_NAME_LENGTH :: nat where "CHARACTER_MAX_NAME_LENGTH = 12"

definition EQUIP_SLOT_ERROR :: nat where "EQUIP_SLOT_ERROR = 0"
definition EQUIP_SLOT_CAP :: nat where "EQUIP_SLOT_CAP = 1"
definition EQUIP_SLOT_EAR_ACCESSORY :: nat where "EQUIP_SLOT_EAR_ACCESSORY = 4"
definition EQUIP_SLOT_TOP_OR_OVERALL :: nat where "EQUIP_SLOT_TOP_OR_OVERALL = 5"
definition EQUIP_SLOT_BOTTOM :: nat where "EQUIP_SLOT_BOTTOM = 6"
definition EQUIP_SLOT_SHOES :: nat where "EQUIP_SLOT_SHOES = 7"
definition EQUIP_SLOT_GLOVES :: nat where "EQUIP_SLOT_GLOVES = 8"
definition EQUIP_SLOT_MANTLE :: nat where "EQUIP_SLOT_MANTLE = 9"
definition EQUIP_SLOT_SHIELD :: nat where "EQUIP_SLOT_SHIELD = 10"
definition EQUIP_SLOT_WEAPON :: nat where "EQUIP_SLOT_WEAPON = 11"
definition EQUIP_SLOT_PENDANT :: nat where "EQUIP_SLOT_PENDANT = 17"
definition EQUIP_SLOT_MEDAL :: nat where "EQUIP_SLOT_MEDAL = 49"
definition EQUIP_SLOT_BELT :: nat where "EQUIP_SLOT_BELT = 50"
definition EQUIP_SLOT_WEAPON_COSMETIC :: nat where "EQUIP_SLOT_WEAPON_COSMETIC = 111"

lemmas equip_slot_defs = EQUIP_SLOT_ERROR_def EQUIP_SLOT_CAP_def EQUIP_SLOT_EAR_ACCESSORY_def
  EQUIP_SLOT_TOP_OR_OVERALL_def EQUIP_SLOT_BOTTOM_def EQUIP_SLOT_SHOES_def EQUIP_SLOT_GLOVES_def
  EQUIP_SLOT_MANTLE_def EQUIP_SLOT_SHIELD_def EQUIP_SLOT_WEAPON_def EQUIP_SLOT_PENDANT_def
  EQUIP_SLOT_MEDAL_def EQUIP_SLOT_BELT_def EQUIP_SLOT_WEAPON_COSMETIC_def

definition is_valid_equip_slot :: "nat \<Rightarrow> bool" where
  "is_valid_equip_slot slot \<longleftrightarrow>
     1 \<le> slot \<and> slot \<le> 11 \<or> 17 \<le> slot \<and> slot \<le> 20 \<or> slot = 49 \<or> slot = 50 \<or> 101 \<le> slot \<and> slot \<le> 148"

definition equip_slot_from_compact :: "u8 \<Rightarrow> nat" where
  "equip_slot_from_compact compact =
     (let slot = unat compact + 1;
          slot = (if 11 \<le> unat compact then slot + 5 else slot);
          slot = (if 15 \<le> unat compact then slot + 28 else slot);
          slot = (if 17 \<le> unat compact then slot + 50 else slot)
      in slot)"

definition equip_slot_to_compact :: "nat \<Rightarrow> u8" where
  "equip_slot_to_compact slot =
     (let compact = (word_of_int (int slot - 1) :: u8);
          compact = (if 17 \<le> slot then compact - 5 else compact);
          compact = (if 49 \<le> slot then compact - 28 else compact);
          compact = (if 101 \<le> slot then compact - 50 else compact)
      in compact)"

text \<open>\<open>uint32_t\<close> item identifiers; division is unsigned.\<close>

definition equip_slot_from_id :: "u32 \<Rightarrow> nat" where
  "equip_slot_from_id iid =
     (if iid div 10000 = 100 then EQUIP_SLOT_CAP
      else if iid div 10000 = 103 then EQUIP_SLOT_EAR_ACCESSORY
      else if iid div 10000 = 104 \<or> iid div 10000 = 105 then EQUIP_SLOT_TOP_OR_OVERALL
      else if iid div 10000 = 106 then EQUIP_SLOT_BOTTOM
      else if iid div 10000 = 107 then EQUIP_SLOT_SHOES
      else if iid div 10000 = 108 then EQUIP_SLOT_GLOVES
      else if iid div 10000 = 109 then EQUIP_SLOT_SHIELD
      else if iid div 10000 = 110 then EQUIP_SLOT_MANTLE
      else if iid div 10000 = 112 then EQUIP_SLOT_PENDANT
      else if iid div 10000 = 113 then EQUIP_SLOT_BELT
      else if iid div 10000 = 114 then EQUIP_SLOT_MEDAL
      else if iid div 100000 = 13 \<or> iid div 100000 = 14 then EQUIP_SLOT_WEAPON
      else EQUIP_SLOT_ERROR)"

datatype equip_type =
    EQUIP_TYPE_ACCESSORY | EQUIP_TYPE_CAP | EQUIP_TYPE_CAPE | EQUIP_TYPE_COAT | EQUIP_TYPE_GLOVE
  | EQUIP_TYPE_LONGCOAT | EQUIP_TYPE_PANTS | EQUIP_TYPE_RING | EQUIP_TYPE_SHIELD | EQUIP_TYPE_SHOES
  | EQUIP_TYPE_WEAPON

text \<open>\<open>None\<close> is the \<open>-1\<close> the C function returns for the types it does not know.\<close>

definition equip_type_from_id :: "u32 \<Rightarrow> equip_type option" where
  "equip_type_from_id iid =
     (if iid div 10000 = 100 then Some EQUIP_TYPE_CAP
      else if iid div 10000 = 104 then Some EQUIP_TYPE_COAT
      else if iid div 10000 = 105 then Some EQUIP_TYPE_LONGCOAT
      else if iid div 10000 = 106 then Some EQUIP_TYPE_PANTS
      else None)"

subsection \<open>Items\<close>

datatype inventory_type =
    INVENTORY_TYPE_EQUIP | INVENTORY_TYPE_USE | INVENTORY_TYPE_SET_UP | INVENTORY_TYPE_ETC
  | INVENTORY_TYPE_CASH

record item =
  item_uid :: u64
  itemId :: u32
  cashId :: u32
  sn :: u32
  ownerLength :: u8
  owner :: bytes
  flags :: u32
  expiration :: int
  giftFromLength :: u8
  giftFrom :: bytes

record equipment =
  eq_uid :: u64
  equipId :: u64
  eq_item :: item
  eq_level :: int
  eq_slots :: int
  eq_str :: int
  eq_dex :: int
  eq_int :: int
  eq_luk :: int
  eq_hp :: int
  eq_mp :: int
  eq_atk :: int
  eq_matk :: int
  eq_def :: int
  eq_mdef :: int
  eq_acc :: int
  eq_avoid :: int
  eq_hands :: int
  eq_speed :: int
  eq_jump :: int
  eq_cash :: bool

record inventory_item =
  ii_item :: item
  quantity :: int

text \<open>The part of \<open>struct EquipInfo\<close> (\<^verbatim>\<open>wz.h\<close>) that new equipment is made from.\<close>

record equip_info =
  info_id :: u32
  info_str :: int
  info_dex :: int
  info_int :: int
  info_luk :: int
  info_hp :: int
  info_mp :: int
  info_atk :: int
  info_matk :: int
  info_def :: int
  info_mdef :: int
  info_acc :: int
  info_avoid :: int
  info_speed :: int
  info_jump :: int
  info_slots :: int
  info_cash :: bool

definition equipment_from_info :: "equip_info \<Rightarrow> equipment" where
  "equipment_from_info info =
     \<lparr>eq_uid = 0, equipId = 0,
      eq_item = \<lparr>item_uid = 0, itemId = info_id info, cashId = 0, sn = 0,
        ownerLength = 0, owner = replicate 12 0, flags = 0, expiration = - 1,
        giftFromLength = 0, giftFrom = replicate 12 0\<rparr>,
      eq_level = 0, eq_slots = info_slots info,
      eq_str = info_str info, eq_dex = info_dex info, eq_int = info_int info, eq_luk = info_luk info,
      eq_hp = info_hp info, eq_mp = info_mp info, eq_atk = info_atk info, eq_matk = info_matk info,
      eq_def = info_def info, eq_mdef = info_mdef info, eq_acc = info_acc info,
      eq_avoid = info_avoid info, eq_hands = 0, eq_speed = info_speed info,
      eq_jump = info_jump info, eq_cash = info_cash info\<rparr>"

definition ITEM_IS_THROWING_STAR :: "u32 \<Rightarrow> bool" where
  "ITEM_IS_THROWING_STAR iid \<longleftrightarrow> iid div 10000 = 207"

definition ITEM_IS_BULLET :: "u32 \<Rightarrow> bool" where
  "ITEM_IS_BULLET iid \<longleftrightarrow> iid div 10000 = 233"

definition ITEM_IS_RECHARGEABLE :: "u32 \<Rightarrow> bool" where
  "ITEM_IS_RECHARGEABLE iid \<longleftrightarrow> ITEM_IS_THROWING_STAR iid \<or> ITEM_IS_BULLET iid"

definition ITEM_IS_CHAIR :: "u32 \<Rightarrow> bool" where
  "ITEM_IS_CHAIR iid \<longleftrightarrow> iid div 10000 = 301"

definition item_get_inventory :: "u32 \<Rightarrow> inventory_type" where
  "item_get_inventory iid =
     (if iid div 1000000 = 1 then INVENTORY_TYPE_EQUIP
      else if iid div 1000000 = 2 then INVENTORY_TYPE_USE
      else if iid div 1000000 = 3 then INVENTORY_TYPE_SET_UP
      else if iid div 1000000 = 4 then INVENTORY_TYPE_ETC
      else INVENTORY_TYPE_CASH)"

subsection \<open>Jobs\<close>

definition job_type :: "nat \<Rightarrow> nat" where
  "job_type job = job div 1000"

definition job_is_a :: "nat \<Rightarrow> nat \<Rightarrow> bool" where
  "job_is_a job base \<longleftrightarrow>
     job div 10 = base div 10 \<and> base \<le> job \<or> (base div 10) mod 10 = 0 \<and> job div 100 = base div 100"

subsection \<open>Facts on slots\<close>

lemma to_compact_unat:
  assumes "is_valid_equip_slot slot"
  shows "unat (equip_slot_to_compact slot) =
    (if slot \<le> 11 then slot - 1 else if slot \<le> 20 then slot - 6
     else if slot \<le> 50 then slot - 34 else slot - 84)"
proof -
  have mem: "slot \<in> set ([1..<12] @ [17..<21] @ [49, 50] @ [101..<149])"
    using assms unfolding is_valid_equip_slot_def set_append set_upt Un_iff atLeastLessThan_iff list.set insert_iff
    by linarith
  have "list_all (\<lambda>slot. unat (equip_slot_to_compact slot) =
      (if slot \<le> 11 then slot - 1 else if slot \<le> 20 then slot - 6
       else if slot \<le> 50 then slot - 34 else slot - 84)) ([1..<12] @ [17..<21] @ [49, 50] @ [101..<149])"
    by code_simp
  then show ?thesis unfolding list_all_iff using mem by (rule bspec)
qed

lemma slot_round_trip:
  assumes "is_valid_equip_slot slot"
  shows "equip_slot_from_compact (equip_slot_to_compact slot) = slot"
  using to_compact_unat [OF assms] assms
  by (auto simp: equip_slot_from_compact_def Let_def is_valid_equip_slot_def)

lemma to_compact_bound:
  assumes "is_valid_equip_slot slot"
  shows "unat (equip_slot_to_compact slot) < EQUIP_SLOT_COUNT \<longleftrightarrow> slot \<noteq> 148"
  using to_compact_unat [OF assms] assms by (auto simp: EQUIP_SLOT_COUNT_def is_valid_equip_slot_def)

lemma from_compact_valid:
  assumes "unat c \<le> 64"
  shows "is_valid_equip_slot (equip_slot_from_compact c)"
  using assms by (auto simp: is_valid_equip_slot_def equip_slot_from_compact_def Let_def)

lemma to_from_compact:
  assumes "unat c \<le> 64"
  shows "equip_slot_to_compact (equip_slot_from_compact c) = c"
proof -
  have "unat (equip_slot_to_compact (equip_slot_from_compact c)) = unat c"
    using to_compact_unat [OF from_compact_valid [OF assms]] assms
    by (auto simp: equip_slot_from_compact_def Let_def)
  then show ?thesis by (simp only: word_unat_eq_iff)
qed

lemma equip_slot_from_id_cases:
  "equip_slot_from_id iid = EQUIP_SLOT_ERROR \<or>
   is_valid_equip_slot (equip_slot_from_id iid) \<and> equip_slot_from_id iid \<le> 50"
  unfolding equip_slot_from_id_def is_valid_equip_slot_def equip_slot_defs by simp

lemma u32_div: "unat (iid div numeral n) = unat (iid :: u32) div unat (numeral n :: u32)"
  by (simp add: unat_div)

lemma equip_slot_inventory:
  assumes "equip_slot_from_id iid \<noteq> EQUIP_SLOT_ERROR"
  shows "item_get_inventory iid = INVENTORY_TYPE_EQUIP"
proof -
  have d: "(iid div numeral n = numeral m) = (unat iid div unat (numeral n :: u32) = unat (numeral m :: u32))" for n m
    by (simp only: word_unat_eq_iff u32_div)
  have "unat iid div 10000 \<in> {100, 103, 104, 105, 106, 107, 108, 109, 110, 112, 113, 114} \<or>
      unat iid div 100000 \<in> {13, 14}"
    using assms unfolding equip_slot_from_id_def d by (auto split: if_splits)
  then have "unat iid div 1000000 = 1" by auto
  then have "unat (iid div 1000000) = unat (1 :: u32)" by (simp add: unat_div)
  then have "iid div 1000000 = 1" by (simp only: word_unat_eq_iff)
  then show ?thesis by (simp add: item_get_inventory_def)
qed

lemma job_is_a_refl: "job_is_a job job"
  by (simp add: job_is_a_def)

lemma job_is_a_trans:
  assumes "job_is_a a b" and "job_is_a b c"
  shows "job_is_a a c"
proof -
  have "n div 100 = n div 10 div 10" for n :: nat
    by (simp flip: div_mult2_eq)
  with assms show ?thesis unfolding job_is_a_def by auto
qed

subsection \<open>Properties\<close>

text \<open>
  The protocol's slot numbers and the compact ones are in bijection: every valid slot comes
  back from its compact number, every compact number up to 64 comes back from its slot, which
  is valid; and exactly the slot 148 has a compact number outside the array of
  \<open>EQUIP_SLOT_COUNT\<close> entries.
\<close>

theorem equip_slot_numbering:
  "(is_valid_equip_slot slot \<longrightarrow> equip_slot_from_compact (equip_slot_to_compact slot) = slot) \<and>
   (unat c \<le> 64 \<longrightarrow> is_valid_equip_slot (equip_slot_from_compact c) \<and>
      equip_slot_to_compact (equip_slot_from_compact c) = c) \<and>
   (is_valid_equip_slot slot \<longrightarrow>
      (unat (equip_slot_to_compact slot) < EQUIP_SLOT_COUNT \<longleftrightarrow> slot \<noteq> 148))"
  using slot_round_trip to_compact_bound from_compact_valid to_from_compact by blast

theorem equip_slot_numbering_witness:
  "is_valid_equip_slot 49 \<and> equip_slot_from_compact (equip_slot_to_compact 49) = 49 \<and>
   equip_slot_to_compact (equip_slot_from_compact 15) = 15 \<and>
   unat (equip_slot_to_compact 49) < EQUIP_SLOT_COUNT"
  using equip_slot_numbering [of 49 15] by (simp add: is_valid_equip_slot_def)

end
