(* ===== verification/Character.thy ===== *)
theory Character
  imports Keyed_Set Item Writer
begin

text \<open>
  Characters (\<^verbatim>\<open>src/src/character.h\<close>, \<^verbatim>\<open>src/src/character.c\<close>) and the tables of
  \<^verbatim>\<open>src/src/constants.c\<close>.

  \<open>character\<close> is \<open>struct Character\<close>, with its hash sets as values of type \<open>hash_set\<close> and
  the numbers of an \<open>int16_t\<close> or \<open>int32_t\<close> field as \<open>int\<close>s. Setters and effective stats are
  translated with the conversions the C code performs. An access outside \<open>EXP_TABLE\<close> and a
  signed overflow, both undefined in C, are error values.
\<close>

subsection \<open>Tables\<close>

definition EXP_TABLE :: "int list" where
  "EXP_TABLE =
     [
      15, 34, 57, 92, 135, 372, 560, 840, 1144, 1242, 1573, 2144, 2800, 3640, 4700, 5893,
      7360, 9144, 11120, 13477, 16268, 19320, 22880, 27008, 31477, 36600, 42444, 48720,
      55813, 63800, 86784, 98208, 110932, 124432, 139372, 155865, 173280, 192400, 213345,
      235372, 259392, 285532, 312928, 342624, 374760, 408336, 445544, 483532, 524160,
      567772, 598886, 631704, 666321, 702836, 741351, 781976, 824828, 870028, 917625,
      967995, 1021041, 1076994, 1136013, 1198266, 1263930, 1333194, 1406252, 1483314,
      1564600, 1650340, 1740778, 1836173, 1936794, 2042930, 2154882, 2272970, 2397528,
      2528912, 2667496, 2813674, 2967863, 3130502, 3302053, 3483005, 3673873, 3875201,
      4087562, 4311559, 4547832, 4797053, 5059931, 5337215, 5629694, 5938202, 6263614,
      6606860, 6968915, 7350811, 7753635, 8178534, 8626718, 9099462, 9598112, 10124088,
      10678888, 11264090, 11881362, 12532461, 13219239, 13943653, 14707765, 15513750,
      16363902, 17260644, 18206527, 19204245, 20256637, 21366700, 22537594, 23772654,
      25075395, 26449526, 27898960, 29427822, 31040466, 32741483, 34535716, 36428273,
      38424542, 40530206, 42751262, 45094030, 47565183, 50171755, 52921167, 55821246,
      58880250, 62106888, 65510344, 69100311, 72887008, 76881216, 81094306, 85594273,
      90225770, 95170142, 100385466, 105886589, 111689174, 117809740, 124265714, 131075474,
      138258410, 145834970, 153826726, 162256430, 171148082, 180526997, 190419876,
      200854885, 211861732, 223471711, 223471711, 248635353, 262260570, 276632449,
      291791906, 307782102, 324648562, 342439302, 361204976, 380999008, 401877754,
      423900654, 447130410, 471633156, 497478653, 524740482, 553496261, 583827855,
      615821622, 649568646, 685165008, 722712050, 762316670, 804091623, 848155844,
      894634784, 943660770, 995373379, 1049919840, 1107455447, 1168144006, 1232158297,
      1299680571, 1370903066, 1446028554, 1525246918, 1608855764, 1697021059]"

definition DEFAULT_KEY :: "u32 list" where
  "DEFAULT_KEY =
     [
      18, 65, 2, 23, 3, 4, 5, 6, 16, 17, 19, 25, 26, 27, 31, 34, 35, 37, 38, 40, 43, 44,
      45, 46, 50, 56, 59, 60, 61, 62, 63, 64, 57, 48, 29, 7, 24, 33, 41, 39]"

definition DEFAULT_TYPE :: "u8 list" where
  "DEFAULT_TYPE =
     [
      4, 6, 4, 4, 4, 4, 4, 4, 4, 4, 4, 4, 4, 4, 4, 4, 4, 4, 4, 4, 4, 5, 5, 4, 4, 5, 6, 6,
      6, 6, 6, 6, 5, 4, 5, 4, 4, 4, 4, 4]"

definition DEFAULT_ACTION :: "u32 list" where
  "DEFAULT_ACTION =
     [
      0, 106, 10, 1, 12, 13, 18, 24, 8, 5, 4, 19, 14, 15, 2, 17, 11, 3, 20, 16, 9, 50, 51,
      6, 7, 53, 100, 101, 102, 103, 104, 105, 54, 22, 52, 21, 25, 26, 23, 27]"

subsection \<open>Data\<close>

definition MAX_ITEM_COUNT :: nat where "MAX_ITEM_COUNT = 252"

definition KEYMAP_MAX_KEYS :: nat where "KEYMAP_MAX_KEYS = 90"

definition HP_MAX :: int where "HP_MAX = 30000"

definition MP_MAX :: int where "MP_MAX = 30000"

record equipment_id =
  ap_isEmpty :: bool
  ap_id :: u32

record character_appearance =
  ap_nameLength :: u8
  ap_name :: bytes
  ap_gender :: bool
  ap_skin :: u8
  ap_face :: u32
  ap_hair :: u32
  ap_gachaExp :: int
  ap_map :: u32
  ap_spawnPoint :: u8
  ap_equipments :: "equipment_id list"

record character_info =
  appearance :: character_appearance
  in_level :: u8
  in_job :: nat
  in_fame :: int

record character_stats =
  st_id :: u32
  st_info :: character_info
  st_str :: int
  st_dex :: int
  st_int :: int
  st_luk :: int
  st_maxHp :: int
  st_hp :: int
  st_maxMp :: int
  st_mp :: int
  st_ap :: int
  st_sp :: int
  st_exp :: int

text \<open>The anonymous structs of the inventories: an entry and whether it is in use.\<close>

record equip_entry =
  ee_isEmpty :: bool
  ee_equip :: equipment

record item_entry =
  ie_isEmpty :: bool
  ie_item :: inventory_item

record equip_inventory =
  eqi_slotCount :: u8
  eqi_items :: "equip_entry list"

record inventory =
  inv_slotCount :: u8
  inv_items :: "item_entry list"

record quest_info_progress =
  qi_id :: u16
  qi_length :: u8
  qi_value :: bytes

record quest =
  q_id :: u16
  q_progressCount :: u8
  q_progress :: "int list"

record monster_ref_count =
  mr_id :: u32
  mr_refCount :: int

record completed_quest =
  cq_id :: u16
  cq_time :: int

record skill =
  sk_id :: u32
  sk_level :: int
  sk_masterLevel :: int

record monster_book_entry =
  mb_id :: u32
  mb_count :: int

record key_map_entry =
  km_type :: u8
  km_action :: u32

datatype stored_item = Stored_equip equipment | Stored_item inventory_item

record storage =
  sto_id :: u64
  sto_slots :: u8
  sto_count :: u8
  sto_mesos :: int
  sto_storage :: "stored_item list"

record character =
  chr_id :: u32
  chr_accountId :: u32
  chr_nameLength :: u8
  chr_name :: bytes
  chr_map :: u32
  chr_x :: int
  chr_y :: int
  chr_fh :: u16
  chr_stance :: u8
  chr_gender :: bool
  chr_skin :: u8
  chr_face :: u32
  chr_hair :: u32
  chr_chair :: u32
  chr_seat :: u16
  chr_level :: u8
  chr_job :: nat
  chr_fame :: int
  chr_str :: int
  chr_dex :: int
  chr_int :: int
  chr_luk :: int
  chr_hpmp :: int
  chr_maxHp :: int
  chr_hp :: int
  chr_maxMp :: int
  chr_mp :: int
  chr_ap :: int
  chr_sp :: int
  chr_exp :: int
  chr_estr :: int
  chr_edex :: int
  chr_eint :: int
  chr_eluk :: int
  chr_eMaxHp :: int
  chr_eMaxMp :: int
  chr_gachaExp :: int
  chr_spawnPoint :: u8
  chr_mesos :: int
  chr_storage :: storage
  equippedEquipment :: "equip_entry list"
  equipmentInventory :: equip_inventory
  chr_inventory :: "inventory list"
  activeProjectile :: u8
  quests :: "quest hash_set"
  monsterQuests :: "monster_ref_count hash_set"
  itemQuests :: "u32 hash_set"
  questInfos :: "quest_info_progress hash_set"
  completedQuests :: "completed_quest hash_set"
  skills :: "skill hash_set"
  monsterBook :: "monster_book_entry hash_set"
  keyMap :: "key_map_entry list"

subsection \<open>Quest progress as text\<close>

fun dec_digits :: "nat \<Rightarrow> bytes" where
  "dec_digits n = (if n < 10 then [of_nat (48 + n)] else dec_digits (n div 10) @ [of_nat (48 + n mod 10)])"

declare dec_digits.simps [simp del]

text \<open>\<open>printf ("%03d", v)\<close>.\<close>

definition format_03d :: "int \<Rightarrow> bytes" where
  "format_03d v =
     (let sign = (if v < 0 then [45] else []);
          digits = dec_digits (nat \<bar>v\<bar>)
      in sign @ replicate (3 - length sign - length digits) 48 @ digits)"

text \<open>
  The loop prints every counter with \<open>snprintf (out + 3 * i, 4, ...)\<close>: three characters and
  a terminating zero, which the next one overwrites.
\<close>

definition quest_get_progress_string :: "quest \<Rightarrow> bytes \<Rightarrow> werror + bytes \<times> nat" where
  "quest_get_progress_string q out =
     (let n = unat (q_progressCount q);
          text = concat (map (\<lambda>v. take 3 (format_03d v)) (take n (q_progress q)))
      in if length (q_progress q) < n then Inl SourceOverread
         else if n = 0 then Inr (out, 0)
         else if length out < length text + 1 then Inl BufferOverrun
         else Inr (text @ [0] @ drop (length text + 1) out, 3 * n))"

subsection \<open>Views of a character\<close>

definition character_to_character_appearance :: "character \<Rightarrow> character_appearance" where
  "character_to_character_appearance chr =
     \<lparr>ap_nameLength = chr_nameLength chr,
      ap_name = take (unat (chr_nameLength chr)) (chr_name chr),
      ap_gender = chr_gender chr, ap_skin = chr_skin chr, ap_face = chr_face chr, ap_hair = chr_hair chr,
      ap_gachaExp = chr_gachaExp chr, ap_map = chr_map chr, ap_spawnPoint = chr_spawnPoint chr,
      ap_equipments = map (\<lambda>e. \<lparr>ap_isEmpty = ee_isEmpty e, ap_id = itemId (eq_item (ee_equip e))\<rparr>)
        (take EQUIP_SLOT_COUNT (equippedEquipment chr))\<rparr>"

definition character_to_character_stats :: "character \<Rightarrow> character_stats" where
  "character_to_character_stats chr =
     \<lparr>st_id = chr_id chr,
      st_info = \<lparr>appearance = character_to_character_appearance chr,
        in_level = chr_level chr, in_job = chr_job chr, in_fame = chr_fame chr\<rparr>,
      st_str = chr_str chr, st_dex = chr_dex chr, st_int = chr_int chr, st_luk = chr_luk chr,
      st_maxHp = chr_maxHp chr, st_hp = chr_hp chr, st_maxMp = chr_maxMp chr, st_mp = chr_mp chr,
      st_ap = chr_ap chr, st_sp = chr_sp chr, st_exp = chr_exp chr\<rparr>"

subsection \<open>Effective stats\<close>

definition character_get_effective_str :: "character \<Rightarrow> int" where
  "character_get_effective_str chr =
     (if chr_str chr > 32767 - chr_estr chr then 32767 else to_i16 (chr_str chr + chr_estr chr))"

definition character_get_effective_dex :: "character \<Rightarrow> int" where
  "character_get_effective_dex chr =
     (if chr_dex chr > 32767 - chr_edex chr then 32767 else to_i16 (chr_dex chr + chr_edex chr))"

definition character_get_effective_int :: "character \<Rightarrow> int" where
  "character_get_effective_int chr =
     (if chr_int chr > 32767 - chr_eint chr then 32767 else to_i16 (chr_int chr + chr_eint chr))"

definition character_get_effective_luk :: "character \<Rightarrow> int" where
  "character_get_effective_luk chr =
     (if chr_luk chr > 32767 - chr_eluk chr then 32767 else to_i16 (chr_luk chr + chr_eluk chr))"

definition character_get_effective_hp :: "character \<Rightarrow> int" where
  "character_get_effective_hp chr =
     (if chr_maxHp chr > HP_MAX - chr_eMaxHp chr then HP_MAX else to_i16 (chr_maxHp chr + chr_eMaxHp chr))"

definition character_get_effective_mp :: "character \<Rightarrow> int" where
  "character_get_effective_mp chr =
     (if chr_maxMp chr > MP_MAX - chr_eMaxMp chr then MP_MAX else to_i16 (chr_maxMp chr + chr_eMaxMp chr))"

subsection \<open>Setters\<close>

definition character_set_job :: "character \<Rightarrow> u16 \<Rightarrow> character" where
  "character_set_job chr job = chr\<lparr>chr_job := unat job\<rparr>"

definition character_set_max_hp :: "character \<Rightarrow> int \<Rightarrow> character" where
  "character_set_max_hp chr hp =
     chr\<lparr>chr_maxHp := (if hp > 30000 then 30000 else if hp < 0 then 0 else hp)\<rparr>"

definition character_set_hp :: "character \<Rightarrow> int \<Rightarrow> character" where
  "character_set_hp chr hp =
     chr\<lparr>chr_hp := (if hp < 0 then 0
       else if hp > character_get_effective_hp chr then character_get_effective_hp chr else hp)\<rparr>"

definition character_set_max_mp :: "character \<Rightarrow> int \<Rightarrow> character" where
  "character_set_max_mp chr mp =
     chr\<lparr>chr_maxMp := (if mp > 30000 then 30000 else if mp < 0 then 0 else mp)\<rparr>"

definition character_set_mp :: "character \<Rightarrow> int \<Rightarrow> character" where
  "character_set_mp chr mp =
     chr\<lparr>chr_mp := (if mp < 0 then 0
       else if mp > character_get_effective_mp chr then character_get_effective_mp chr else mp)\<rparr>"

definition character_set_str :: "character \<Rightarrow> int \<Rightarrow> character" where
  "character_set_str chr v = chr\<lparr>chr_str := (if v < 0 then 0 else v)\<rparr>"

definition character_set_dex :: "character \<Rightarrow> int \<Rightarrow> character" where
  "character_set_dex chr v = chr\<lparr>chr_dex := (if v < 0 then 0 else v)\<rparr>"

definition character_set_int :: "character \<Rightarrow> int \<Rightarrow> character" where
  "character_set_int chr v = chr\<lparr>chr_int := (if v < 0 then 0 else v)\<rparr>"

definition character_set_luk :: "character \<Rightarrow> int \<Rightarrow> character" where
  "character_set_luk chr v = chr\<lparr>chr_luk := (if v < 0 then 0 else v)\<rparr>"

definition character_set_fame :: "character \<Rightarrow> int \<Rightarrow> character" where
  "character_set_fame chr v = chr\<lparr>chr_fame := v\<rparr>"

definition character_set_ap :: "character \<Rightarrow> int \<Rightarrow> character" where
  "character_set_ap chr v = chr\<lparr>chr_ap := v\<rparr>"

text \<open>The guard of \<open>character_set_sp\<close> is on the old value, which is then overwritten.\<close>

definition character_set_sp :: "character \<Rightarrow> int \<Rightarrow> character" where
  "character_set_sp chr v =
     (let chr = (if chr_sp chr < 0 then chr\<lparr>chr_sp := 0\<rparr> else chr) in chr\<lparr>chr_sp := v\<rparr>)"

definition character_set_meso :: "character \<Rightarrow> int \<Rightarrow> character" where
  "character_set_meso chr meso = chr\<lparr>chr_mesos := (if meso < 0 then 0 else meso)\<rparr>"

subsection \<open>Experience\<close>

datatype exp_error = Table_index | Signed_overflow

definition character_gain_exp :: "character \<Rightarrow> int \<Rightarrow> exp_error + character \<times> int" where
  "character_gain_exp chr gain =
     (let i = uint (chr_level chr) - 1
      in if i < 0 \<or> i \<ge> int (length EXP_TABLE) then Inl Table_index
         else let remaining = EXP_TABLE ! nat i - chr_exp chr
              in if \<not> in_i32 remaining \<or> \<not> in_i32 (gain - remaining) then Inl Signed_overflow
                 else if gain \<ge> remaining
                 then Inr (chr\<lparr>chr_exp := 0, chr_level := chr_level chr + 1\<rparr>, gain - remaining)
                 else if \<not> in_i32 (chr_exp chr + gain) then Inl Signed_overflow
                 else Inr (chr\<lparr>chr_exp := chr_exp chr + gain\<rparr>, gain - remaining))"

subsection \<open>Facts on stats and experience\<close>

lemma effective_hp_bounds:
  assumes "0 \<le> chr_maxHp chr" and "chr_maxHp chr \<le> 30000" and "0 \<le> chr_eMaxHp chr"
  shows "chr_maxHp chr \<le> character_get_effective_hp chr \<and> character_get_effective_hp chr \<le> 30000"
  using assms by (auto simp: character_get_effective_hp_def HP_MAX_def to_i16_id)

lemma effective_mp_bounds:
  assumes "0 \<le> chr_maxMp chr" and "chr_maxMp chr \<le> 30000" and "0 \<le> chr_eMaxMp chr"
  shows "chr_maxMp chr \<le> character_get_effective_mp chr \<and> character_get_effective_mp chr \<le> 30000"
  using assms by (auto simp: character_get_effective_mp_def MP_MAX_def to_i16_id)

lemma EXP_TABLE_facts:
  "length EXP_TABLE = 200" "\<forall>e \<in> set EXP_TABLE. 0 < e \<and> e \<le> 1697021059"
  by (simp_all add: EXP_TABLE_def)

text \<open>All the experience a character has ever collected: that of the levels below and the current one.\<close>

definition total_exp :: "character \<Rightarrow> int" where
  "total_exp chr = sum_list (take (unat (chr_level chr) - 1) EXP_TABLE) + chr_exp chr"

definition exp_ok :: "character \<Rightarrow> bool" where
  "exp_ok chr \<longleftrightarrow> 1 \<le> unat (chr_level chr) \<and> unat (chr_level chr) \<le> 200 \<and>
     0 \<le> chr_exp chr \<and> chr_exp chr < EXP_TABLE ! (unat (chr_level chr) - 1)"

lemma level_up_total:
  assumes "1 \<le> unat l" and "unat (l :: u8) \<le> 200"
  shows "sum_list (take (unat (l + 1) - 1) EXP_TABLE) =
    sum_list (take (unat l - 1) EXP_TABLE) + EXP_TABLE ! (unat l - 1)" and "unat (l + 1) = unat l + 1"
proof -
  have "unat l < 255" using assms by simp
  then show l: "unat (l + 1) = unat l + 1" by (simp add: unat_word_ariths)
  have "take (unat l) EXP_TABLE = take (unat l - 1) EXP_TABLE @ [EXP_TABLE ! (unat l - 1)]"
    using assms take_Suc_conv_app_nth [of "unat l - 1" EXP_TABLE] by (simp add: EXP_TABLE_facts(1))
  then show "sum_list (take (unat (l + 1) - 1) EXP_TABLE) =
    sum_list (take (unat l - 1) EXP_TABLE) + EXP_TABLE ! (unat l - 1)"
    by (simp add: l)
qed

lemma gain_exp_cases:
  assumes "exp_ok chr" and "0 \<le> gain" and "gain \<le> 2147483647"
  defines "remaining \<equiv> EXP_TABLE ! (unat (chr_level chr) - 1) - chr_exp chr"
  shows "character_gain_exp chr gain = Inr
    (if gain \<ge> remaining then chr\<lparr>chr_exp := 0, chr_level := chr_level chr + 1\<rparr>
     else chr\<lparr>chr_exp := chr_exp chr + gain\<rparr>, gain - remaining)"
proof -
  obtain l where l: "unat (chr_level chr) = l" "uint (chr_level chr) = int l"
    by (metis uint_nat)
  have ok: "1 \<le> l" "l \<le> 200" "0 \<le> chr_exp chr" "chr_exp chr < EXP_TABLE ! (l - 1)"
    using assms(1) by (simp_all add: exp_ok_def l)
  have i: "nat (int l - 1) = l - 1" "\<not> (int l - 1 < 0 \<or> int l - 1 \<ge> int (length EXP_TABLE))"
    using ok(1,2) by (simp_all add: nat_diff_distrib EXP_TABLE_facts(1))
  have "EXP_TABLE ! (l - 1) \<in> set EXP_TABLE" using ok(1,2) EXP_TABLE_facts(1) by (intro nth_mem) simp
  then have "EXP_TABLE ! (l - 1) \<le> 1697021059" using EXP_TABLE_facts(2) by blast
  then have r: "\<not> (\<not> in_i32 remaining \<or> \<not> in_i32 (gain - remaining))"
    using ok(3,4) assms(2,3) unfolding remaining_def l by auto
  have s: "gain \<ge> remaining \<or> in_i32 (chr_exp chr + gain)"
    using ok(3,4) assms(2) \<open>EXP_TABLE ! (l - 1) \<le> 1697021059\<close> unfolding remaining_def l by auto
  have eq: "EXP_TABLE ! (l - 1) - chr_exp chr = remaining"
    by (simp only: remaining_def l)
  show ?thesis
    unfolding character_gain_exp_def Let_def l(2) i(1) eq using i(2) r s by (simp only: if_False if_True split: if_split) auto
qed

subsection \<open>Properties\<close>

text \<open>
  Experience is conserved: for a character below the level cap whose experience is less
  than what the level needs, gaining a non-negative amount never fails; the total collected
  plus what is returned to be consumed (if positive) is the old total plus the gain; the
  character is again in such a state unless it left the table; and the result is negative
  exactly when no level was gained.
\<close>

theorem gain_exp_conserves:
  assumes "exp_ok chr" and "0 \<le> gain" and "gain \<le> 2147483647"
  shows "\<exists>chr' r. character_gain_exp chr gain = Inr (chr', r) \<and>
    total_exp chr' + max 0 r = total_exp chr + gain \<and>
    (exp_ok chr' \<or> unat (chr_level chr') = 201 \<and> chr_exp chr' = 0) \<and>
    (r < 0 \<longleftrightarrow> chr_level chr' = chr_level chr)"
proof (cases "gain \<ge> EXP_TABLE ! (unat (chr_level chr) - 1) - chr_exp chr")
  case True
  have l: "1 \<le> unat (chr_level chr)" "unat (chr_level chr) \<le> 200"
    using assms(1) by (simp_all add: exp_ok_def)
  have pos: "0 < EXP_TABLE ! unat (chr_level chr)" if "unat (chr_level chr) < 200"
    using that EXP_TABLE_facts nth_mem [of "unat (chr_level chr)" EXP_TABLE] by metis
  have "chr_level chr + 1 \<noteq> chr_level chr" by simp
  with True assms(1) gain_exp_cases [OF assms] level_up_total [OF l] pos show ?thesis
    by (auto simp: total_exp_def exp_ok_def)
next
  case False
  with assms(1,2) gain_exp_cases [OF assms] show ?thesis
    by (auto simp: total_exp_def exp_ok_def)
qed

text \<open>A concrete character, wearing nothing, for the witnesses.\<close>

definition no_equip :: equip_entry where
  "no_equip = \<lparr>ee_isEmpty = True, ee_equip = equipment_from_info
     \<lparr>info_id = 0, info_str = 0, info_dex = 0, info_int = 0, info_luk = 0, info_hp = 0, info_mp = 0, info_atk = 0,
      info_matk = 0, info_def = 0, info_mdef = 0, info_acc = 0, info_avoid = 0, info_speed = 0, info_jump = 0,
      info_slots = 0, info_cash = False\<rparr>\<rparr>"

definition beginner :: character where
  "beginner = (\<lparr>chr_id = 1, chr_accountId = 1, chr_nameLength = 3, chr_name = replicate 12 65, chr_map = 0,
     chr_x = 0, chr_y = 0, chr_fh = 0, chr_stance = 0, chr_gender = False, chr_skin = 0, chr_face = 0,
     chr_hair = 0, chr_chair = 0, chr_seat = 0, chr_level = 1, chr_job = 0, chr_fame = 0,
     chr_str = 12, chr_dex = 5, chr_int = 4, chr_luk = 4, chr_hpmp = 0, chr_maxHp = 50, chr_hp = 50,
     chr_maxMp = 5, chr_mp = 5, chr_ap = 0, chr_sp = 0, chr_exp = 10, chr_estr = 0, chr_edex = 0,
     chr_eint = 0, chr_eluk = 0, chr_eMaxHp = 25, chr_eMaxMp = 0, chr_gachaExp = 0, chr_spawnPoint = 0,
     chr_mesos = 0,
     chr_storage = \<lparr>sto_id = 0, sto_slots = 0, sto_count = 0, sto_mesos = 0, sto_storage = []\<rparr>,
     equippedEquipment = replicate 64 no_equip, equipmentInventory = \<lparr>eqi_slotCount = 0, eqi_items = []\<rparr>,
     chr_inventory = replicate 4 \<lparr>inv_slotCount = 0, inv_items = []\<rparr>, activeProjectile = 0,
     quests = \<lparr>capacity = 1, count = 0, states = [Free], data = [None], iterating = False\<rparr>,
     monsterQuests = \<lparr>capacity = 1, count = 0, states = [Free], data = [None], iterating = False\<rparr>,
     itemQuests = \<lparr>capacity = 1, count = 0, states = [Free], data = [None], iterating = False\<rparr>,
     questInfos = \<lparr>capacity = 1, count = 0, states = [Free], data = [None], iterating = False\<rparr>,
     completedQuests = \<lparr>capacity = 1, count = 0, states = [Free], data = [None], iterating = False\<rparr>,
     skills = \<lparr>capacity = 1, count = 0, states = [Free], data = [None], iterating = False\<rparr>,
     monsterBook = \<lparr>capacity = 1, count = 0, states = [Free], data = [None], iterating = False\<rparr>,
     keyMap = replicate 90 \<lparr>km_type = 0, km_action = 0\<rparr>\<rparr>)"

theorem gain_exp_conserves_witness:
  "\<exists>chr' r. character_gain_exp beginner 20 = Inr (chr', r) \<and> total_exp chr' + max 0 r = 30"
proof -
  have "exp_ok beginner" by (simp add: exp_ok_def beginner_def EXP_TABLE_def)
  moreover have "total_exp beginner = 10" by (simp add: total_exp_def beginner_def)
  ultimately show ?thesis using gain_exp_conserves [of beginner 20] by auto
qed

text \<open>
  Hit points and mana stay in range: if the maximum is in range and equipment adds a
  non-negative amount, then after setting HP (MP) to any value whatsoever it lies between zero
  and the effective maximum, which is itself at least the base maximum and at most 30000; and
  setting the maximum to any value puts it in range.
\<close>

theorem set_hp_mp_in_range:
  assumes "0 \<le> chr_maxHp chr" "chr_maxHp chr \<le> 30000" "0 \<le> chr_eMaxHp chr"
    and "0 \<le> chr_maxMp chr" "chr_maxMp chr \<le> 30000" "0 \<le> chr_eMaxMp chr"
  shows "0 \<le> chr_hp (character_set_hp chr v) \<and>
    chr_hp (character_set_hp chr v) \<le> character_get_effective_hp chr \<and>
    chr_maxHp chr \<le> character_get_effective_hp chr \<and> character_get_effective_hp chr \<le> 30000 \<and>
    0 \<le> chr_mp (character_set_mp chr v) \<and>
    chr_mp (character_set_mp chr v) \<le> character_get_effective_mp chr \<and>
    chr_maxMp chr \<le> character_get_effective_mp chr \<and> character_get_effective_mp chr \<le> 30000 \<and>
    0 \<le> chr_maxHp (character_set_max_hp chr v) \<and> chr_maxHp (character_set_max_hp chr v) \<le> 30000 \<and>
    0 \<le> chr_maxMp (character_set_max_mp chr v) \<and> chr_maxMp (character_set_max_mp chr v) \<le> 30000"
  using effective_hp_bounds [OF assms(1-3)] effective_mp_bounds [OF assms(4-6)] assms(1,4)
  by (simp add: character_set_hp_def character_set_mp_def character_set_max_hp_def character_set_max_mp_def)

theorem set_hp_mp_in_range_witness:
  "chr_hp (character_set_hp beginner 30000) \<le> 75 \<and> 0 \<le> chr_mp (character_set_mp beginner (- 7))"
  using set_hp_mp_in_range [of beginner 30000] set_hp_mp_in_range [of beginner "- 7"]
  by (simp add: beginner_def character_get_effective_hp_def to_i16_id HP_MAX_def)

end
