(* ===== verification/Packets.thy ===== *)
theory Packets
  imports Writer Item
begin

unbundle bit_operations_syntax

text \<open>
  The packet builders of \<^verbatim>\<open>src/src/packet.c\<close> that need no character, in the order of
  the file, with the lengths of \<^verbatim>\<open>src/src/packet.h\<close>.

  A builder is \<open>build_fixed\<close> (no result: the caller sends the declared length) or
  \<open>build_sized\<close> (the number of bytes to send is returned) applied to the size given to
  \<open>writer_init\<close> and the list of writer calls the function makes; its last argument is the
  caller's array. Enumerations are numbers. The lemmas compute the length of each packet:
  every fixed-length builder overwrites exactly the array its callers declare, and every
  variable-length one stays inside its maximum for strings of the intended lengths.
\<close>

subsection \<open>Lengths\<close>

definition LOGIN_SUCCESS_PACKET_MAX_LENGTH :: nat where "LOGIN_SUCCESS_PACKET_MAX_LENGTH = 54"
definition LOGIN_FAILURE_PACKET_LENGTH :: nat where "LOGIN_FAILURE_PACKET_LENGTH = 8"
definition PIN_PACKET_LENGTH :: nat where "PIN_PACKET_LENGTH = 3"
definition SERVER_LIST_PACKET_MAX_LENGTH :: nat where "SERVER_LIST_PACKET_MAX_LENGTH = 65535"
definition SERVER_LIST_END_PACKET_LENGTH :: nat where "SERVER_LIST_END_PACKET_LENGTH = 3"
definition SERVER_STATUS_PACKET_LENGTH :: nat where "SERVER_STATUS_PACKET_LENGTH = 4"
definition CHARACTER_LIST_PACKET_MAX_LENGTH :: nat where "CHARACTER_LIST_PACKET_MAX_LENGTH = 2673"
definition CHANNEL_IP_PACKET_LENGTH :: nat where "CHANNEL_IP_PACKET_LENGTH = 19"
definition LOGIN_ERROR_PACKET_LENGTH :: nat where "LOGIN_ERROR_PACKET_LENGTH = 4"
definition NAME_CHECK_RESPONSE_PACKET_MAX_LENGTH :: nat where "NAME_CHECK_RESPONSE_PACKET_MAX_LENGTH = 17"
definition CREATE_CHARACTER_RESPONSE_PACKET_LENGTH :: nat where "CREATE_CHARACTER_RESPONSE_PACKET_LENGTH = 162"
definition SET_FIELD_PACKET_MAX_LENGTH :: nat where "SET_FIELD_PACKET_MAX_LENGTH = 65535"
definition SET_GENDER_PACKET_LENGTH :: nat where "SET_GENDER_PACKET_LENGTH = 3"
definition CHANGE_MAP_PACKET_LENGTH :: nat where "CHANGE_MAP_PACKET_LENGTH = 27"
definition ADD_PLAYER_TO_MAP_PACKET_MAX_LENGTH :: nat where "ADD_PLAYER_TO_MAP_PACKET_MAX_LENGTH = 554"
definition MOVE_PLAYER_PACKET_MAX_LENGTH :: nat where "MOVE_PLAYER_PACKET_MAX_LENGTH = 3863"
definition DAMAGE_PLAYER_PACKET_MAX_LENGTH :: nat where "DAMAGE_PLAYER_PACKET_MAX_LENGTH = 26"
definition REMOVE_PLAYER_FROM_MAP_PACKET_LENGTH :: nat where "REMOVE_PLAYER_FROM_MAP_PACKET_LENGTH = 6"
definition SPAWN_NPC_PACKET_LENGTH :: nat where "SPAWN_NPC_PACKET_LENGTH = 22"
definition SPAWN_NPC_CONTROLLER_PACKET_LENGTH :: nat where "SPAWN_NPC_CONTROLLER_PACKET_LENGTH = 23"
definition SPAWN_MONSTER_PACKET_LENGTH :: nat where "SPAWN_MONSTER_PACKET_LENGTH = 42"
definition SPAWN_MONSTER_CONTROLLER_PACKET_LENGTH :: nat where "SPAWN_MONSTER_CONTROLLER_PACKET_LENGTH = 43"
definition REMOVE_MONSTER_CONTROLLER_PACKET_LENGTH :: nat where "REMOVE_MONSTER_CONTROLLER_PACKET_LENGTH = 7"
definition SPAWN_REACTOR_PACKET_LENGTH :: nat where "SPAWN_REACTOR_PACKET_LENGTH = 18"
definition CHANGE_REACTOR_STATE_PACKET_LENGTH :: nat where "CHANGE_REACTOR_STATE_PACKET_LENGTH = 15"
definition DESTROY_REACTOR_PACKET_LENGTH :: nat where "DESTROY_REACTOR_PACKET_LENGTH = 11"
definition MOVE_MONSTER_PACKET_MAX_LENGTH :: nat where "MOVE_MONSTER_PACKET_MAX_LENGTH = 3843"
definition MOVE_MONSTER_RESPONSE_PACKET_LENGTH :: nat where "MOVE_MONSTER_RESPONSE_PACKET_LENGTH = 13"
definition CLOSE_RANGE_ATTACK_PACKET_MAX_LENGTH :: nat where "CLOSE_RANGE_ATTACK_PACKET_MAX_LENGTH = 997"
definition RANGED_ATTACK_PACKET_MAX_LENGTH :: nat where "RANGED_ATTACK_PACKET_MAX_LENGTH = 1001"
definition MAGIC_ATTACK_PACKET_MAX_LENGTH :: nat where "MAGIC_ATTACK_PACKET_MAX_LENGTH = 1001"
definition MONSTER_HP_PACKET_LENGTH :: nat where "MONSTER_HP_PACKET_LENGTH = 7"
definition KILL_MONSTER_PACKET_LENGTH :: nat where "KILL_MONSTER_PACKET_LENGTH = 8"
definition OPEN_SHOP_PACKET_MAX_LENGTH :: nat where "OPEN_SHOP_PACKET_MAX_LENGTH = 6128"
definition SHOP_ACTION_RESPONSE_PACKET_LENGTH :: nat where "SHOP_ACTION_RESPONSE_PACKET_LENGTH = 3"
definition STAT_CHANGE_PACKET_MAX_LENGTH :: nat where "STAT_CHANGE_PACKET_MAX_LENGTH = 57"
definition EXP_GAIN_PACKET_LENGTH :: nat where "EXP_GAIN_PACKET_LENGTH = 36"
definition EXP_GAIN_IN_CHAT_PACKET_LENGTH :: nat where "EXP_GAIN_IN_CHAT_PACKET_LENGTH = 37"
definition SHOW_EFFECT_PACKET_LENGTH :: nat where "SHOW_EFFECT_PACKET_LENGTH = 3"
definition SHOW_FOREIGN_EFFECT_PACKET_LENGTH :: nat where "SHOW_FOREIGN_EFFECT_PACKET_LENGTH = 7"
definition DROP_ITEM_FROM_OBJECT_PACKET_LENGTH :: nat where "DROP_ITEM_FROM_OBJECT_PACKET_LENGTH = 40"
definition SPAWN_ITEM_DROP_PACKET_LENGTH :: nat where "SPAWN_ITEM_DROP_PACKET_LENGTH = 34"
definition REMOVE_DROP_PACKET_LENGTH :: nat where "REMOVE_DROP_PACKET_LENGTH = 7"
definition PICKUP_DROP_PACKET_LENGTH :: nat where "PICKUP_DROP_PACKET_LENGTH = 11"
definition PET_PICKUP_DROP_PACKET_LENGTH :: nat where "PET_PICKUP_DROP_PACKET_LENGTH = 12"
definition DROP_MESO_FROM_OBJECT_PACKET_LENGTH :: nat where "DROP_MESO_FROM_OBJECT_PACKET_LENGTH = 32"
definition SPAWN_MESO_DROP_PACKET_LENGTH :: nat where "SPAWN_MESO_DROP_PACKET_LENGTH = 26"
definition MESO_GAIN_PACKET_LENGTH :: nat where "MESO_GAIN_PACKET_LENGTH = 11"
definition MESO_GAIN_IN_CHAT_PACKET_LENGTH :: nat where "MESO_GAIN_IN_CHAT_PACKET_LENGTH = 9"
definition ITEM_GAIN_PACKET_LENGTH :: nat where "ITEM_GAIN_PACKET_LENGTH = 20"
definition ITEM_GAIN_IN_CHAT_PACKET_LENGTH :: nat where "ITEM_GAIN_IN_CHAT_PACKET_LENGTH = 12"
definition ITEM_UNAVAILABLE_NOTIFICATION_PACKET_LENGTH :: nat where "ITEM_UNAVAILABLE_NOTIFICATION_PACKET_LENGTH = 12"
definition INVENTORY_FULL_NOTIFICATION_PACKET_LENGTH :: nat where "INVENTORY_FULL_NOTIFICATION_PACKET_LENGTH = 12"
definition START_QUEST_PACKET_LENGTH :: nat where "START_QUEST_PACKET_LENGTH = 13"
definition END_QUEST_PACKET_LENGTH :: nat where "END_QUEST_PACKET_LENGTH = 11"
definition UPDATE_QUEST_PACKET_MAX_LENGTH :: nat where "UPDATE_QUEST_PACKET_MAX_LENGTH = 28"
definition UPDATE_QUEST_COMPLETION_TIME_PACKET_LENGTH :: nat where "UPDATE_QUEST_COMPLETION_TIME_PACKET_LENGTH = 14"
definition FORFEIT_QUEST_PACKET_LENGTH :: nat where "FORFEIT_QUEST_PACKET_LENGTH = 6"
definition CHAT_PACKET_MAX_LENGTH :: nat where "CHAT_PACKET_MAX_LENGTH = 90"
definition FACE_EXPRESSION_PACKET_LENGTH :: nat where "FACE_EXPRESSION_PACKET_LENGTH = 10"
definition ADD_CARD_PACKET_LENGTH :: nat where "ADD_CARD_PACKET_LENGTH = 11"
definition MODIFY_ITEMS_PACKET_MAX_LENGTH :: nat where "MODIFY_ITEMS_PACKET_MAX_LENGTH = 10204"
definition NPC_DIALOGUE_PACKET_MAX_LENGTH :: nat where "NPC_DIALOGUE_PACKET_MAX_LENGTH = 65535"
definition UPDATE_SKILL_PACKET_LENGTH :: nat where "UPDATE_SKILL_PACKET_LENGTH = 26"
definition POPUP_MESSAGE_PACKET_MAX_LENGTH :: nat where "POPUP_MESSAGE_PACKET_MAX_LENGTH = 132"
definition SERVER_MESSAGE_PACKET_MAX_LENGTH :: nat where "SERVER_MESSAGE_PACKET_MAX_LENGTH = 65535"
definition SERVER_NOTICE_PACKET_MAX_LENGTH :: nat where "SERVER_NOTICE_PACKET_MAX_LENGTH = 65535"
definition KEYMAP_PACKET_LENGTH :: nat where "KEYMAP_PACKET_LENGTH = 453"
definition UPDATE_CHAR_LOOK_MAX_LENGTH :: nat where "UPDATE_CHAR_LOOK_MAX_LENGTH = 363"
definition SET_CHAIR_PACKET_LENGTH :: nat where "SET_CHAIR_PACKET_LENGTH = 10"
definition STAND_UP_PACKET_LENGTH :: nat where "STAND_UP_PACKET_LENGTH = 3"
definition SIT_ON_MAP_SEAT_PACKET_LENGTH :: nat where "SIT_ON_MAP_SEAT_PACKET_LENGTH = 5"
definition OPEN_STORAGE_PACKET_MAX_LENGTH :: nat where "OPEN_STORAGE_PACKET_MAX_LENGTH = 23210"
definition BOAT_PACKET_LENGTH :: nat where "BOAT_PACKET_LENGTH = 4"
definition SHOW_INFO_PACKET_MAX_LENGTH :: nat where "SHOW_INFO_PACKET_MAX_LENGTH = 128"
definition SHOW_INTRO_PACKET_MAX_LENGTH :: nat where "SHOW_INTRO_PACKET_MAX_LENGTH = 128"
definition PLAY_SOUND_PACKET_MAX_LENGTH :: nat where "PLAY_SOUND_PACKET_MAX_LENGTH = 128"
definition PARTY_STATUS_MESSAGE_PACKET_LENGTH :: nat where "PARTY_STATUS_MESSAGE_PACKET_LENGTH = 3"
definition PARTY_CREATE_PACKET_LENGTH :: nat where "PARTY_CREATE_PACKET_LENGTH = 23"
definition PARTY_INVITE_PACKET_MAX_LENGTH :: nat where "PARTY_INVITE_PACKET_MAX_LENGTH = 22"
definition PARTY_JOIN_PACKET_LENGTH :: nat where "PARTY_JOIN_PACKET_LENGTH = 128"
definition PARTY_DISBAND_PACKET_LENGTH :: nat where "PARTY_DISBAND_PACKET_LENGTH = 16"

lemmas packet_lengths =
  LOGIN_SUCCESS_PACKET_MAX_LENGTH_def
  LOGIN_FAILURE_PACKET_LENGTH_def
  PIN_PACKET_LENGTH_def
  SERVER_LIST_PACKET_MAX_LENGTH_def
  SERVER_LIST_END_PACKET_LENGTH_def
  SERVER_STATUS_PACKET_LENGTH_def
  CHARACTER_LIST_PACKET_MAX_LENGTH_def
  CHANNEL_IP_PACKET_LENGTH_def
  LOGIN_ERROR_PACKET_LENGTH_def
  NAME_CHECK_RESPONSE_PACKET_MAX_LENGTH_def
  CREATE_CHARACTER_RESPONSE_PACKET_LENGTH_def
  SET_FIELD_PACKET_MAX_LENGTH_def
  SET_GENDER_PACKET_LENGTH_def
  CHANGE_MAP_PACKET_LENGTH_def
  ADD_PLAYER_TO_MAP_PACKET_MAX_LENGTH_def
  MOVE_PLAYER_PACKET_MAX_LENGTH_def
  DAMAGE_PLAYER_PACKET_MAX_LENGTH_def
  REMOVE_PLAYER_FROM_MAP_PACKET_LENGTH_def
  SPAWN_NPC_PACKET_LENGTH_def
  SPAWN_NPC_CONTROLLER_PACKET_LENGTH_def
  SPAWN_MONSTER_PACKET_LENGTH_def
  SPAWN_MONSTER_CONTROLLER_PACKET_LENGTH_def
  REMOVE_MONSTER_CONTROLLER_PACKET_LENGTH_def
  SPAWN_REACTOR_PACKET_LENGTH_def
  CHANGE_REACTOR_STATE_PACKET_LENGTH_def
  DESTROY_REACTOR_PACKET_LENGTH_def
  MOVE_MONSTER_PACKET_MAX_LENGTH_def
  MOVE_MONSTER_RESPONSE_PACKET_LENGTH_def
  CLOSE_RANGE_ATTACK_PACKET_MAX_LENGTH_def
  RANGED_ATTACK_PACKET_MAX_LENGTH_def
  MAGIC_ATTACK_PACKET_MAX_LENGTH_def
  MONSTER_HP_PACKET_LENGTH_def
  KILL_MONSTER_PACKET_LENGTH_def
  OPEN_SHOP_PACKET_MAX_LENGTH_def
  SHOP_ACTION_RESPONSE_PACKET_LENGTH_def
  STAT_CHANGE_PACKET_MAX_LENGTH_def
  EXP_GAIN_PACKET_LENGTH_def
  EXP_GAIN_IN_CHAT_PACKET_LENGTH_def
  SHOW_EFFECT_PACKET_LENGTH_def
  SHOW_FOREIGN_EFFECT_PACKET_LENGTH_def
  DROP_ITEM_FROM_OBJECT_PACKET_LENGTH_def
  SPAWN_ITEM_DROP_PACKET_LENGTH_def
  REMOVE_DROP_PACKET_LENGTH_def
  PICKUP_DROP_PACKET_LENGTH_def
  PET_PICKUP_DROP_PACKET_LENGTH_def
  DROP_MESO_FROM_OBJECT_PACKET_LENGTH_def
  SPAWN_MESO_DROP_PACKET_LENGTH_def
  MESO_GAIN_PACKET_LENGTH_def
  MESO_GAIN_IN_CHAT_PACKET_LENGTH_def
  ITEM_GAIN_PACKET_LENGTH_def
  ITEM_GAIN_IN_CHAT_PACKET_LENGTH_def
  ITEM_UNAVAILABLE_NOTIFICATION_PACKET_LENGTH_def
  INVENTORY_FULL_NOTIFICATION_PACKET_LENGTH_def
  START_QUEST_PACKET_LENGTH_def
  END_QUEST_PACKET_LENGTH_def
  UPDATE_QUEST_PACKET_MAX_LENGTH_def
  UPDATE_QUEST_COMPLETION_TIME_PACKET_LENGTH_def
  FORFEIT_QUEST_PACKET_LENGTH_def
  CHAT_PACKET_MAX_LENGTH_def
  FACE_EXPRESSION_PACKET_LENGTH_def
  ADD_CARD_PACKET_LENGTH_def
  MODIFY_ITEMS_PACKET_MAX_LENGTH_def
  NPC_DIALOGUE_PACKET_MAX_LENGTH_def
  UPDATE_SKILL_PACKET_LENGTH_def
  POPUP_MESSAGE_PACKET_MAX_LENGTH_def
  SERVER_MESSAGE_PACKET_MAX_LENGTH_def
  SERVER_NOTICE_PACKET_MAX_LENGTH_def
  KEYMAP_PACKET_LENGTH_def
  UPDATE_CHAR_LOOK_MAX_LENGTH_def
  SET_CHAIR_PACKET_LENGTH_def
  STAND_UP_PACKET_LENGTH_def
  SIT_ON_MAP_SEAT_PACKET_LENGTH_def
  OPEN_STORAGE_PACKET_MAX_LENGTH_def
  BOAT_PACKET_LENGTH_def
  SHOW_INFO_PACKET_MAX_LENGTH_def
  SHOW_INTRO_PACKET_MAX_LENGTH_def
  PLAY_SOUND_PACKET_MAX_LENGTH_def
  PARTY_STATUS_MESSAGE_PACKET_LENGTH_def
  PARTY_CREATE_PACKET_LENGTH_def
  PARTY_INVITE_PACKET_MAX_LENGTH_def
  PARTY_JOIN_PACKET_LENGTH_def
  PARTY_DISBAND_PACKET_LENGTH_def

subsection \<open>Login\<close>

definition login_success_packet :: "u32 \<Rightarrow> u8 \<Rightarrow> u8 \<Rightarrow> bytes \<Rightarrow> nat \<Rightarrow> bytes \<Rightarrow> werror + bytes \<times> nat" where
  "login_success_packet cid gender name_len name pic =
     build_sized LOGIN_SUCCESS_PACKET_MAX_LENGTH
        [writer_u16 0x0000, writer_zero 6, writer_u32 cid, writer_u8 gender, writer_u8 0,
         writer_u8 0, writer_u8 0, writer_sized_string (ucast name_len) name, writer_u8 0,
         writer_u8 0, writer_u64 0, writer_u64 0, writer_u32 1, writer_u8 1, writer_u8 (of_nat pic)]"

definition login_failure_packet :: "nat \<Rightarrow> bytes \<Rightarrow> werror + bytes" where
  "login_failure_packet reason =
     build_fixed LOGIN_FAILURE_PACKET_LENGTH
        [writer_u16 0x0000, writer_u16 (of_nat reason), writer_u32 0]"

definition pin_packet :: "nat \<Rightarrow> bytes \<Rightarrow> werror + bytes" where
  "pin_packet mode =
     build_fixed PIN_PACKET_LENGTH
        [writer_u16 0x0006, writer_u8 (of_nat mode)]"

definition WORLD_NAMES :: "bytes list" where
  "WORLD_NAMES = [[83, 99, 97, 110, 105, 97], [66, 101, 114, 97]]"

definition server_list_packet :: "u8 \<Rightarrow> nat \<Rightarrow> u16 \<Rightarrow> bytes \<Rightarrow> bytes \<Rightarrow> werror + bytes \<times> nat" where
  "server_list_packet world flag mes_len mes =
     build_sized SERVER_LIST_PACKET_MAX_LENGTH
        [writer_u16 0x000A, writer_u8 world,
         with_elem WORLD_NAMES (unat world) (\<lambda>name. writer_sized_string (of_nat (length name)) name),
         writer_u8 (of_nat flag), writer_sized_string mes_len mes,
         writer_u8 100, writer_u8 0, writer_u8 100, writer_u8 0, writer_u8 0,
         writer_u8 2,
         writer_sized_string 1 [48, 0], writer_u32 0, writer_u8 world, writer_u8 0, writer_bool False,
         writer_sized_string 1 [49, 0], writer_u32 0, writer_u8 world, writer_u8 1, writer_bool False,
         writer_u16 0]"

definition server_list_end_packet :: "bytes \<Rightarrow> werror + bytes" where
  "server_list_end_packet =
     build_fixed SERVER_LIST_END_PACKET_LENGTH
        [writer_u16 0x000A, writer_u8 0xFF]"

definition server_status_packet :: "nat \<Rightarrow> bytes \<Rightarrow> werror + bytes" where
  "server_status_packet status =
     build_fixed SERVER_STATUS_PACKET_LENGTH
        [writer_u16 0x0003, writer_u16 (of_nat status)]"

definition channel_ip_packet :: "u32 \<Rightarrow> u16 \<Rightarrow> u32 \<Rightarrow> bytes \<Rightarrow> werror + bytes" where
  "channel_ip_packet addr port token =
     build_fixed CHANNEL_IP_PACKET_LENGTH
        [writer_u16 0x000C, writer_u16 0, writer_u32 addr, writer_u16 port, writer_u32 token,
         writer_zero 5]"

definition login_error_packet :: "u8 \<Rightarrow> bytes \<Rightarrow> werror + bytes" where
  "login_error_packet err =
     build_fixed LOGIN_ERROR_PACKET_LENGTH
        [writer_u16 0x0009, writer_u16 (ucast err)]"

definition name_check_response_packet :: "u8 \<Rightarrow> bytes \<Rightarrow> bool \<Rightarrow> bytes \<Rightarrow> werror + bytes \<times> nat" where
  "name_check_response_packet name_len name available =
     build_sized NAME_CHECK_RESPONSE_PACKET_MAX_LENGTH
        [writer_u16 0x000D, writer_sized_string (ucast name_len) name,
         writer_u8 (if available then 0 else 1)]"

subsection \<open>Objects of a map\<close>

definition set_gender_packet :: "bool \<Rightarrow> bytes \<Rightarrow> werror + bytes" where
  "set_gender_packet gender =
     build_fixed SET_GENDER_PACKET_LENGTH
        [writer_u16 0x003A, writer_bool gender]"

text \<open>The writer is given the size it needs, not the size of the caller's array.\<close>

definition move_player_packet :: "u32 \<Rightarrow> nat \<Rightarrow> bytes \<Rightarrow> bytes \<Rightarrow> werror + bytes \<times> nat" where
  "move_player_packet cid len bs pkt =
     map_sum id (\<lambda>(p, _). (p, 10 + len))
       (build_sized (10 + len) [writer_u16 0x00B9, writer_u32 cid, writer_u32 0, writer_array (of_nat len) bs] pkt)"

definition damange_player_packet :: "u8 \<Rightarrow> u32 \<Rightarrow> u32 \<Rightarrow> int \<Rightarrow> int \<Rightarrow> u8 \<Rightarrow> bytes \<Rightarrow> werror + bytes \<times> nat" where
  "damange_player_packet skill monster_id char_id damage fake direction =
     build_sized DAMAGE_PLAYER_PACKET_MAX_LENGTH
        ([writer_u16 0x00C0, writer_u32 char_id, writer_u8 skill, writer_i32 damage] @
         (if skill \<noteq> - 4
          then [writer_u32 monster_id, writer_u8 direction, writer_u16 0, writer_i32 damage] @
            (if fake > 0 then [writer_i32 fake] else [])
          else [writer_i32 damage]))"

definition remove_player_from_map_packet :: "u32 \<Rightarrow> bytes \<Rightarrow> werror + bytes" where
  "remove_player_from_map_packet cid =
     build_fixed REMOVE_PLAYER_FROM_MAP_PACKET_LENGTH
        [writer_u16 0x00A1, writer_u32 cid]"

definition spawn_npc_packet :: "u32 \<Rightarrow> u32 \<Rightarrow> int \<Rightarrow> int \<Rightarrow> bool \<Rightarrow> u16 \<Rightarrow> int \<Rightarrow> int \<Rightarrow> bytes \<Rightarrow> werror + bytes" where
  "spawn_npc_packet oid cid x cy f fh rx0 rx1 =
     build_fixed SPAWN_NPC_PACKET_LENGTH
        [writer_u16 0x0101, writer_u32 oid, writer_u32 cid, writer_i16 x, writer_i16 cy,
         writer_u8 (if f then 0 else 1), writer_u16 fh, writer_i16 rx0, writer_i16 rx1, writer_u8 1]"

definition spawn_npc_controller_packet :: "u32 \<Rightarrow> u32 \<Rightarrow> int \<Rightarrow> int \<Rightarrow> bool \<Rightarrow> u16 \<Rightarrow> int \<Rightarrow> int \<Rightarrow> bytes \<Rightarrow> werror + bytes" where
  "spawn_npc_controller_packet oid cid x cy f fh rx0 rx1 =
     build_fixed SPAWN_NPC_CONTROLLER_PACKET_LENGTH
        [writer_u16 0x0103, writer_u8 1, writer_u32 oid, writer_u32 cid, writer_i16 x,
         writer_i16 cy, writer_u8 (if f then 0 else 1), writer_u16 fh, writer_i16 rx0,
         writer_i16 rx1, writer_bool True]"

definition spawn_monster_packet :: "u32 \<Rightarrow> u32 \<Rightarrow> int \<Rightarrow> int \<Rightarrow> u16 \<Rightarrow> bool \<Rightarrow> bytes \<Rightarrow> werror + bytes" where
  "spawn_monster_packet oid cid x y fh fresh =
     build_fixed SPAWN_MONSTER_PACKET_LENGTH
        [writer_u16 0x00EC, writer_u32 oid, writer_u8 5, writer_u32 cid, writer_zero 16,
         writer_i16 x, writer_i16 y, writer_u8 5, writer_i16 0, writer_u16 fh,
         writer_i8 (if fresh then (- 2) else (- 1)), writer_i8 (- 1), writer_u32 0]"

definition spawn_monster_controller_packet :: "u32 \<Rightarrow> bool \<Rightarrow> u32 \<Rightarrow> int \<Rightarrow> int \<Rightarrow> u16 \<Rightarrow> bool \<Rightarrow> bytes \<Rightarrow> werror + bytes" where
  "spawn_monster_controller_packet oid aggro cid x y fh fresh =
     build_fixed SPAWN_MONSTER_CONTROLLER_PACKET_LENGTH
        [writer_u16 0x00EE, writer_u8 (if aggro then 2 else 1), writer_u32 oid, writer_u8 1,
         writer_u32 cid, writer_zero 16, writer_i16 x, writer_i16 y, writer_u8 5, writer_i16 0,
         writer_u16 fh, writer_i8 (if fresh then (- 2) else (- 1)), writer_i8 (- 1), writer_u32 0]"

definition remove_monster_controller_packet :: "u32 \<Rightarrow> bytes \<Rightarrow> werror + bytes" where
  "remove_monster_controller_packet oid =
     build_fixed REMOVE_MONSTER_CONTROLLER_PACKET_LENGTH
        [writer_u16 0x00EE, writer_u8 0, writer_u32 oid]"

definition spawn_reactor_packet :: "u32 \<Rightarrow> u32 \<Rightarrow> int \<Rightarrow> int \<Rightarrow> u8 \<Rightarrow> bytes \<Rightarrow> werror + bytes" where
  "spawn_reactor_packet oid cid x y state =
     build_fixed SPAWN_REACTOR_PACKET_LENGTH
        [writer_u16 0x0117, writer_u32 oid, writer_u32 cid, writer_u8 state, writer_i16 x,
         writer_i16 y, writer_u8 0, writer_u16 0]"

definition change_reactor_state_packet :: "u32 \<Rightarrow> u8 \<Rightarrow> int \<Rightarrow> int \<Rightarrow> u8 \<Rightarrow> bytes \<Rightarrow> werror + bytes" where
  "change_reactor_state_packet oid state x y stance =
     build_fixed CHANGE_REACTOR_STATE_PACKET_LENGTH
        [writer_u16 0x0115, writer_u32 oid, writer_u8 state, writer_i16 x, writer_i16 y,
         writer_u8 stance, writer_u16 0, writer_u8 5]"

definition destroy_reactor_packet :: "u32 \<Rightarrow> u8 \<Rightarrow> int \<Rightarrow> int \<Rightarrow> bytes \<Rightarrow> werror + bytes" where
  "destroy_reactor_packet oid state x y =
     build_fixed DESTROY_REACTOR_PACKET_LENGTH
        [writer_u16 0x0118, writer_u32 oid, writer_u8 state, writer_i16 x, writer_i16 y]"

definition npc_action_packet :: "nat \<Rightarrow> bytes \<Rightarrow> bytes \<Rightarrow> werror + bytes" where
  "npc_action_packet sz bs =
     build_fixed (2 + sz)
        [writer_u16 0x0104, writer_array (of_nat sz) bs]"

definition move_monster_packet :: "u32 \<Rightarrow> bool \<Rightarrow> u8 \<Rightarrow> u8 \<Rightarrow> u8 \<Rightarrow> u16 \<Rightarrow> nat \<Rightarrow> bytes \<Rightarrow> bytes \<Rightarrow> werror + bytes \<times> nat" where
  "move_monster_packet oid skill_possible activity skill_id skill_level opt len bs =
     build_sized MOVE_MONSTER_PACKET_MAX_LENGTH
        [writer_u16 0x00EF, writer_u32 oid, writer_u8 0, writer_bool False, writer_u8 activity,
         writer_u8 skill_id, writer_u8 skill_level, writer_u16 opt, writer_array (of_nat len) bs]"

definition move_monster_response_packet :: "u32 \<Rightarrow> u16 \<Rightarrow> bytes \<Rightarrow> werror + bytes" where
  "move_monster_response_packet oid moveid =
     build_fixed MOVE_MONSTER_RESPONSE_PACKET_LENGTH
        [writer_u16 0x00F0, writer_u32 oid, writer_u16 moveid, writer_bool True, writer_i16 100,
         writer_u8 0, writer_u8 0]"

subsection \<open>Attacks\<close>

text \<open>The loops over the monsters hit, shared by the three attack packets.\<close>

definition attack_targets :: "u8 \<Rightarrow> u8 \<Rightarrow> u32 list \<Rightarrow> int list \<Rightarrow> wop list" where
  "attack_targets monster_count hit_count oids damage =
     concat (map (\<lambda>i.
       [with_elem oids i writer_u32, writer_u8 0] @
       concat (map (\<lambda>j. [with_elem damage (i * unat hit_count + j) writer_i32]) [0..<unat hit_count]))
       [0..<unat monster_count])"

definition close_range_attack_packet ::
  "u32 \<Rightarrow> u32 \<Rightarrow> u8 \<Rightarrow> u8 \<Rightarrow> u8 \<Rightarrow> u32 list \<Rightarrow> int list \<Rightarrow> u8 \<Rightarrow> u8 \<Rightarrow> u8 \<Rightarrow> u8 \<Rightarrow> bytes \<Rightarrow> werror + bytes \<times> nat" where
  "close_range_attack_packet cid skill skill_level monster_count hit_count oids damage display direction stance speed =
     build_sized CLOSE_RANGE_ATTACK_PACKET_MAX_LENGTH
        ([writer_u16 0x00BA, writer_u32 cid, writer_u8 (push_bit 4 monster_count OR hit_count),
          writer_u8 0x5B, writer_u8 skill_level] @
         (if skill_level > 0 then [writer_u32 skill] else []) @
         [writer_u8 display, writer_u8 direction, writer_u8 stance, writer_u8 speed, writer_u8 0x0A,
          writer_u32 0] @
         attack_targets monster_count hit_count oids damage)"

definition ranged_attack_packet ::
  "u32 \<Rightarrow> u32 \<Rightarrow> u8 \<Rightarrow> u8 \<Rightarrow> u8 \<Rightarrow> u32 list \<Rightarrow> int list \<Rightarrow> u8 \<Rightarrow> u8 \<Rightarrow> u8 \<Rightarrow> u8 \<Rightarrow> u32 \<Rightarrow> bytes \<Rightarrow> werror + bytes \<times> nat" where
  "ranged_attack_packet cid skill skill_level monster_count hit_count oids damage display direction stance speed projectile =
     build_sized RANGED_ATTACK_PACKET_MAX_LENGTH
        ([writer_u16 0x00BB, writer_u32 cid, writer_u8 (push_bit 4 monster_count OR hit_count),
          writer_u8 0x5B, writer_u8 skill_level] @
         (if skill_level > 0 then [writer_u32 skill] else []) @
         [writer_u8 display, writer_u8 direction, writer_u8 stance, writer_u8 speed, writer_u8 0x0A,
          writer_u32 projectile] @
         attack_targets monster_count hit_count oids damage @
         [writer_u32 0])"

definition magic_attack_packet ::
  "u32 \<Rightarrow> u32 \<Rightarrow> u8 \<Rightarrow> u8 \<Rightarrow> u8 \<Rightarrow> u32 list \<Rightarrow> int list \<Rightarrow> u8 \<Rightarrow> u8 \<Rightarrow> u8 \<Rightarrow> u8 \<Rightarrow> bytes \<Rightarrow> werror + bytes \<times> nat" where
  "magic_attack_packet cid skill skill_level monster_count hit_count oids damage display direction stance speed =
     build_sized MAGIC_ATTACK_PACKET_MAX_LENGTH
        ([writer_u16 0x00BC, writer_u32 cid, writer_u8 (push_bit 4 monster_count OR hit_count),
          writer_u8 0x5B, writer_u8 skill_level] @
         (if skill_level > 0 then [writer_u32 skill] else []) @
         [writer_u8 display, writer_u8 direction, writer_u8 stance, writer_u8 speed, writer_u8 0x0A,
          writer_u32 0] @
         attack_targets monster_count hit_count oids damage)"

definition monster_hp_packet :: "u32 \<Rightarrow> u8 \<Rightarrow> bytes \<Rightarrow> werror + bytes" where
  "monster_hp_packet oid hp =
     build_fixed MONSTER_HP_PACKET_LENGTH
        [writer_u16 0x00FA, writer_u32 oid, writer_u8 hp]"

definition kill_monster_packet :: "u32 \<Rightarrow> bool \<Rightarrow> bytes \<Rightarrow> werror + bytes" where
  "kill_monster_packet oid animation =
     build_fixed KILL_MONSTER_PACKET_LENGTH
        [writer_u16 0x00ED, writer_u32 oid, writer_bool animation, writer_bool animation]"

subsection \<open>Shops\<close>

record shop_item =
  shop_id :: u32
  shop_price :: int

text \<open>
  The part of \<open>struct ItemInfo\<close> the packet uses; \<open>unitPrice\<close> is the representation of the
  \<open>double\<close>. The table itself is read from the game's data files, so that the look-up
  \<open>wz_get_item_info\<close> is an argument; it has no entry for unknown items.
\<close>

record item_info =
  info_itemId :: u32
  info_slotMax :: int
  info_price :: int
  info_unitPrice :: u64
  info_untradable :: bool
  info_oneOfAKind :: bool
  info_monsterBook :: bool
  info_quest :: bool

definition rechargeable_info :: "item_info option \<Rightarrow> wop" where
  "rechargeable_info info w =
     (case info of
        None \<Rightarrow> Inl NullDereference
      | Some info \<Rightarrow>
          run_ops [writer_u16 (ucast (drop_bit 48 (info_unitPrice info))), writer_u16 (word_of_int (info_slotMax info))] w)"

definition shop_entry :: "(u32 \<Rightarrow> item_info option) \<Rightarrow> shop_item \<Rightarrow> wop" where
  "shop_entry wz_get_item_info it =
     run_ops
       ([writer_u32 (shop_id it), writer_i32 (shop_price it), writer_u32 0, writer_u32 0, writer_u32 0] @
        (if \<not> ITEM_IS_RECHARGEABLE (shop_id it)
         then [writer_u16 1, writer_u16 1000]
         else [writer_u16 0, writer_u32 0, rechargeable_info (wz_get_item_info (shop_id it))]))"

definition open_shop_packet ::
  "(u32 \<Rightarrow> item_info option) \<Rightarrow> u32 \<Rightarrow> u16 \<Rightarrow> shop_item list \<Rightarrow> bytes \<Rightarrow> werror + bytes \<times> nat" where
  "open_shop_packet wz_get_item_info cid item_count items =
     build_sized OPEN_SHOP_PACKET_MAX_LENGTH
        ([writer_u16 0x0131, writer_u32 cid, writer_u16 item_count] @
         concat (map (\<lambda>i. [with_elem items i (shop_entry wz_get_item_info)]) [0..<unat item_count]))"

definition shop_action_response :: "u8 \<Rightarrow> bytes \<Rightarrow> werror + bytes" where
  "shop_action_response code =
     build_fixed SHOP_ACTION_RESPONSE_PACKET_LENGTH
        [writer_u16 0x0132, writer_u8 code]"

subsection \<open>Stat changes\<close>

text \<open>
  A \<open>union StatValue\<close> is its four bytes, as a \<open>u32\<close>. \<open>STAT_TABLE\<close> lists the branches of
  the \<open>if\<close> cascade in order: the flag tested and the member written.
\<close>

definition STAT_TABLE :: "(u32 \<times> (u32 \<Rightarrow> wop)) list" where
  "STAT_TABLE =
     [(0x1, \<lambda>v. writer_u8 (ucast v)),
      (0x2, writer_u32),
      (0x4, writer_u32),
      (0x10, \<lambda>v. writer_u8 (ucast v)),
      (0x20, \<lambda>v. writer_i16 (uint (ucast v :: u16))),
      (0x40, \<lambda>v. writer_i16 (to_i16 (uint v))),
      (0x80, \<lambda>v. writer_i16 (to_i16 (uint v))),
      (0x100, \<lambda>v. writer_i16 (to_i16 (uint v))),
      (0x200, \<lambda>v. writer_i16 (to_i16 (uint v))),
      (0x400, \<lambda>v. writer_i16 (to_i16 (uint v))),
      (0x800, \<lambda>v. writer_i16 (to_i16 (uint v))),
      (0x1000, \<lambda>v. writer_i16 (to_i16 (uint v))),
      (0x2000, \<lambda>v. writer_i16 (to_i16 (uint v))),
      (0x4000, \<lambda>v. writer_i16 (to_i16 (uint v))),
      (0x8000, \<lambda>v. writer_i16 (to_i16 (uint v))),
      (0x10000, \<lambda>v. writer_i32 (to_i32 (uint v))),
      (0x20000, \<lambda>v. writer_i16 (to_i16 (uint v))),
      (0x40000, \<lambda>v. writer_i32 (to_i32 (uint v))),
      (0x180008, writer_u32),
      (0x200000, \<lambda>v. writer_i32 (to_i32 (uint v)))]"

text \<open>The loop \<open>for (; s; count++) s &= s - 1\<close>; \<open>count\<close> is a \<open>uint8_t\<close>.\<close>

function count_bits :: "u32 \<Rightarrow> u8 \<Rightarrow> u8" where
  "count_bits s c = (if s = 0 then c else count_bits (s AND (s - 1)) (c + 1))"
  by pat_completeness auto
termination
proof (relation "measure (\<lambda>(s, c). unat s)")
  fix s :: u32 and c :: u8
  assume "s \<noteq> 0"
  then have "unat (s - 1) < unat s" by (simp add: measure_unat)
  moreover have "unat (s AND (s - 1)) \<le> unat (s - 1)"
    using word_and_le1 [of s "s - 1"] by (simp add: word_le_nat_alt)
  ultimately show "((s AND (s - 1), c + 1), s, c) \<in> measure (\<lambda>(s, c). unat s)" by simp
qed simp

declare count_bits.simps [simp del]

definition stat_count :: "u32 \<Rightarrow> u8" where
  "stat_count stats =
     (if stats AND 0x180008 \<noteq> 0 then count_bits (stats AND NOT 0x180008) 1 else count_bits stats 0)"

fun stat_values :: "nat \<Rightarrow> nat \<Rightarrow> u32 \<Rightarrow> u32 list \<Rightarrow> wop list" where
  "stat_values 0 i stats values = []"
| "stat_values (Suc n) i stats values =
     (case find (\<lambda>(flag, put). stats AND flag \<noteq> 0) STAT_TABLE of
        None \<Rightarrow> stat_values n (Suc i) stats values
      | Some (flag, put) \<Rightarrow> with_elem values i put # stat_values n (Suc i) (stats AND NOT flag) values)"

definition stat_change_packet :: "bool \<Rightarrow> u32 \<Rightarrow> u32 list \<Rightarrow> bytes \<Rightarrow> werror + bytes \<times> nat" where
  "stat_change_packet enable_actions stats values =
     build_sized STAT_CHANGE_PACKET_MAX_LENGTH
        ([writer_u16 0x001F, writer_bool enable_actions, writer_u32 stats] @
         stat_values (unat (stat_count stats)) 0 stats values)"

subsection \<open>Experience, effects and drops\<close>

definition exp_gain_packet_internal :: "int \<Rightarrow> int \<Rightarrow> int \<Rightarrow> bool \<Rightarrow> bool \<Rightarrow> wop list" where
  "exp_gain_packet_internal gained equip_bonus party_bonus white in_chat =
     [writer_u16 0x0027, writer_u8 3, writer_bool white, writer_i32 gained, writer_bool in_chat,
      writer_i32 0, writer_u8 0, writer_u8 0, writer_i32 0] @
     (if in_chat then [writer_u8 0] else []) @
     [writer_u8 0, writer_i32 party_bonus, writer_i32 equip_bonus, writer_i32 0, writer_i32 0]"

definition exp_gain_packet :: "int \<Rightarrow> int \<Rightarrow> int \<Rightarrow> bool \<Rightarrow> bytes \<Rightarrow> werror + bytes" where
  "exp_gain_packet gained equip_bonus party_bonus white =
     build_fixed EXP_GAIN_PACKET_LENGTH (exp_gain_packet_internal gained equip_bonus party_bonus white False)"

definition exp_gain_in_chat_packet :: "int \<Rightarrow> int \<Rightarrow> int \<Rightarrow> bool \<Rightarrow> bytes \<Rightarrow> werror + bytes" where
  "exp_gain_in_chat_packet gained equip_bonus party_bonus white =
     build_fixed EXP_GAIN_IN_CHAT_PACKET_LENGTH (exp_gain_packet_internal gained equip_bonus party_bonus white True)"

definition show_effect_packet :: "u8 \<Rightarrow> bytes \<Rightarrow> werror + bytes" where
  "show_effect_packet effect =
     build_fixed SHOW_EFFECT_PACKET_LENGTH
        [writer_u16 0x00CE, writer_u8 effect]"

definition show_foreign_effect_packet :: "u32 \<Rightarrow> u8 \<Rightarrow> bytes \<Rightarrow> werror + bytes" where
  "show_foreign_effect_packet cid effect =
     build_fixed SHOW_FOREIGN_EFFECT_PACKET_LENGTH
        [writer_u16 0x00C6, writer_u32 cid, writer_u8 effect]"

definition drop_item_from_object_packet :: "u32 \<Rightarrow> u32 \<Rightarrow> u32 \<Rightarrow> u8 \<Rightarrow> int \<Rightarrow> int \<Rightarrow> int \<Rightarrow> int \<Rightarrow> u32 \<Rightarrow> bool \<Rightarrow> bytes \<Rightarrow> werror + bytes" where
  "drop_item_from_object_packet oid item_id owner_id kind from_x from_y to_x to_y dropper_oid player_drop =
     build_fixed DROP_ITEM_FROM_OBJECT_PACKET_LENGTH
        [writer_u16 0x010C, writer_u8 1, writer_u32 oid, writer_bool False, writer_u32 item_id,
         writer_u32 owner_id, writer_u8 kind, writer_i16 to_x, writer_i16 to_y,
         writer_u32 dropper_oid, writer_i16 from_x, writer_i16 from_y, writer_u16 0,
         writer_u64 150842304000000000, writer_bool (\<not> player_drop)]"

definition spawn_item_drop_packet :: "u32 \<Rightarrow> u32 \<Rightarrow> u32 \<Rightarrow> u8 \<Rightarrow> int \<Rightarrow> int \<Rightarrow> bool \<Rightarrow> bytes \<Rightarrow> werror + bytes" where
  "spawn_item_drop_packet oid item_id owner_id kind x y player_drop =
     build_fixed SPAWN_ITEM_DROP_PACKET_LENGTH
        [writer_u16 0x010C, writer_u8 2, writer_u32 oid, writer_bool False, writer_u32 item_id,
         writer_u32 owner_id, writer_u8 kind, writer_i16 x, writer_i16 y, writer_u32 0,
         writer_u64 150842304000000000, writer_bool (\<not> player_drop)]"

definition remove_drop_packet :: "u32 \<Rightarrow> bytes \<Rightarrow> werror + bytes" where
  "remove_drop_packet oid =
     build_fixed REMOVE_DROP_PACKET_LENGTH
        [writer_u16 0x010D, writer_u8 0, writer_u32 oid]"

definition pickup_drop_packet :: "u32 \<Rightarrow> bool \<Rightarrow> u32 \<Rightarrow> bytes \<Rightarrow> werror + bytes" where
  "pickup_drop_packet oid is_exploding char_id =
     build_fixed PICKUP_DROP_PACKET_LENGTH
        [writer_u16 0x010D, writer_u8 (if is_exploding then 4 else 2), writer_u32 oid,
         writer_u32 char_id]"

definition pet_pickup_drop_packet :: "u32 \<Rightarrow> bool \<Rightarrow> u32 \<Rightarrow> u8 \<Rightarrow> bytes \<Rightarrow> werror + bytes" where
  "pet_pickup_drop_packet oid is_exploding char_id pet =
     build_fixed PET_PICKUP_DROP_PACKET_LENGTH
        [writer_u16 0x010D, writer_u8 (if is_exploding then 4 else 2), writer_u32 oid,
         writer_u32 char_id, writer_u8 pet]"

definition drop_meso_from_object_packet :: "u32 \<Rightarrow> int \<Rightarrow> u32 \<Rightarrow> u8 \<Rightarrow> int \<Rightarrow> int \<Rightarrow> int \<Rightarrow> int \<Rightarrow> u32 \<Rightarrow> bool \<Rightarrow> bytes \<Rightarrow> werror + bytes" where
  "drop_meso_from_object_packet oid meso owner_id kind from_x from_y to_x to_y dropper_oid player_drop =
     build_fixed DROP_MESO_FROM_OBJECT_PACKET_LENGTH
        [writer_u16 0x010C, writer_u8 1, writer_u32 oid, writer_bool True, writer_i32 meso,
         writer_u32 owner_id, writer_u8 kind, writer_i16 to_x, writer_i16 to_y,
         writer_u32 dropper_oid, writer_i16 from_x, writer_i16 from_y, writer_u16 0,
         writer_bool (\<not> player_drop)]"

definition spawn_meso_drop_packet :: "u32 \<Rightarrow> int \<Rightarrow> u32 \<Rightarrow> u8 \<Rightarrow> int \<Rightarrow> int \<Rightarrow> bool \<Rightarrow> bytes \<Rightarrow> werror + bytes" where
  "spawn_meso_drop_packet oid meso owner_id kind x y player_drop =
     build_fixed SPAWN_MESO_DROP_PACKET_LENGTH
        [writer_u16 0x010C, writer_u8 2, writer_u32 oid, writer_bool True, writer_i32 meso,
         writer_u32 owner_id, writer_u8 kind, writer_i16 x, writer_i16 y, writer_u32 0,
         writer_bool (\<not> player_drop)]"

definition meso_gain_packet :: "int \<Rightarrow> bytes \<Rightarrow> werror + bytes" where
  "meso_gain_packet amount =
     build_fixed MESO_GAIN_PACKET_LENGTH
        [writer_u16 0x0027, writer_u8 0, writer_u16 1, writer_i32 amount, writer_u16 0]"

definition meso_gain_in_chat_packet :: "int \<Rightarrow> bytes \<Rightarrow> werror + bytes" where
  "meso_gain_in_chat_packet amount =
     build_fixed MESO_GAIN_IN_CHAT_PACKET_LENGTH
        [writer_u16 0x0027, writer_u8 5, writer_i32 amount, writer_u16 0]"

definition item_gain_packet :: "u32 \<Rightarrow> int \<Rightarrow> bytes \<Rightarrow> werror + bytes" where
  "item_gain_packet cid amount =
     build_fixed ITEM_GAIN_PACKET_LENGTH
        [writer_u16 0x0027, writer_u16 0, writer_u32 cid, writer_i32 amount, writer_u64 0]"

definition item_gain_in_chat_packet :: "u32 \<Rightarrow> int \<Rightarrow> bytes \<Rightarrow> werror + bytes" where
  "item_gain_in_chat_packet cid amount =
     build_fixed ITEM_GAIN_PACKET_LENGTH
        [writer_u16 0x00CE, writer_u8 3, writer_u8 1, writer_u32 cid, writer_i32 amount]"

definition item_unavailable_notification_packet :: "bytes \<Rightarrow> werror + bytes" where
  "item_unavailable_notification_packet =
     build_fixed ITEM_UNAVAILABLE_NOTIFICATION_PACKET_LENGTH
        [writer_u16 0x0027, writer_u8 0, writer_u8 0xFE, writer_u64 0]"

definition inventory_full_notification_packet :: "bytes \<Rightarrow> werror + bytes" where
  "inventory_full_notification_packet =
     build_fixed INVENTORY_FULL_NOTIFICATION_PACKET_LENGTH
        [writer_u16 0x0027, writer_u8 0, writer_u8 0xFF, writer_u64 0]"

subsection \<open>Quests\<close>

definition start_quest_packet :: "u16 \<Rightarrow> u32 \<Rightarrow> bytes \<Rightarrow> werror + bytes" where
  "start_quest_packet qid npc =
     build_fixed START_QUEST_PACKET_LENGTH
        [writer_u16 0x00D3, writer_u8 8, writer_u16 qid, writer_u32 npc, writer_u32 0]"

definition end_quest_packet :: "u16 \<Rightarrow> u32 \<Rightarrow> u16 \<Rightarrow> bytes \<Rightarrow> werror + bytes" where
  "end_quest_packet qid npc nxt =
     build_fixed END_QUEST_PACKET_LENGTH
        [writer_u16 0x00D3, writer_u8 8, writer_u16 qid, writer_u32 npc, writer_u16 nxt]"

definition update_quest_packet :: "u16 \<Rightarrow> u16 \<Rightarrow> bytes \<Rightarrow> bytes \<Rightarrow> werror + bytes \<times> nat" where
  "update_quest_packet cid len progress =
     build_sized UPDATE_QUEST_PACKET_MAX_LENGTH
        [writer_u16 0x0027, writer_u8 1, writer_u16 cid, writer_u8 1,
         writer_sized_string len progress, writer_zero 5]"

text \<open>
  Times in the protocol count 100 ns steps; the offset of the local time zone,
  \<open>tm_gmtoff\<close> of \<open>localtime_r\<close>, is an argument.
\<close>

definition file_time :: "int \<Rightarrow> int \<Rightarrow> int \<Rightarrow> u64" where
  "file_time sec usec gmtoff =
     word_of_int ((sec * 1000 + usec div 1000) * 10000 + 116444736010800000 + gmtoff * 1000 * 10000)"

definition update_quest_completion_time_packet :: "(int \<Rightarrow> int) \<Rightarrow> u16 \<Rightarrow> int \<Rightarrow> bytes \<Rightarrow> werror + bytes" where
  "update_quest_completion_time_packet gmtoff qid sec =
     build_fixed UPDATE_QUEST_COMPLETION_TIME_PACKET_LENGTH
        [writer_u16 0x0027, writer_u8 1, writer_u16 qid, writer_u8 2, writer_u64 (file_time sec 0 (gmtoff sec))]"

definition forfeit_quest_packet :: "u16 \<Rightarrow> bytes \<Rightarrow> werror + bytes" where
  "forfeit_quest_packet qid =
     build_fixed FORFEIT_QUEST_PACKET_LENGTH
        [writer_u16 0x0027, writer_u8 1, writer_u16 qid, writer_u8 0]"

subsection \<open>Chat, dialogues and messages\<close>

definition chat_packet :: "u32 \<Rightarrow> bool \<Rightarrow> u16 \<Rightarrow> bytes \<Rightarrow> u8 \<Rightarrow> bytes \<Rightarrow> werror + bytes \<times> nat" where
  "chat_packet cid gm len msg shown =
     build_sized CHAT_PACKET_MAX_LENGTH
        [writer_u16 0x00A2, writer_u32 cid, writer_bool gm, writer_sized_string len msg,
         writer_u8 shown]"

definition face_expression_packet :: "u32 \<Rightarrow> u32 \<Rightarrow> bytes \<Rightarrow> werror + bytes" where
  "face_expression_packet cid emote =
     build_fixed FACE_EXPRESSION_PACKET_LENGTH
        [writer_u16 0x00C1, writer_u32 cid, writer_u32 emote]"

definition add_card_packet :: "bool \<Rightarrow> u32 \<Rightarrow> int \<Rightarrow> bytes \<Rightarrow> werror + bytes" where
  "add_card_packet full cid count =
     build_fixed ADD_CARD_PACKET_LENGTH
        [writer_u16 0x0053, writer_bool (\<not> full), writer_u32 cid, writer_i32 count]"

text \<open>The dialogue types are numbers: 0 ok, 1 yes/no, 4 simple, 5 next, 6 prev/next, 7 prev, 12 accept/decline.\<close>

definition npc_dialogue_packet :: "u32 \<Rightarrow> nat \<Rightarrow> u16 \<Rightarrow> bytes \<Rightarrow> u8 \<Rightarrow> bytes \<Rightarrow> werror + bytes \<times> nat" where
  "npc_dialogue_packet npc kind message_len message speaker =
     build_sized NPC_DIALOGUE_PACKET_MAX_LENGTH
        ([writer_u16 0x0130, writer_u8 4, writer_u32 npc,
          writer_u8 (if kind = 5 \<or> kind = 6 \<or> kind = 7 then 0 else of_nat kind),
          writer_u8 speaker, writer_sized_string message_len message] @
         (if kind = 0 then [writer_u8 0, writer_u8 0]
          else if kind = 5 then [writer_u8 0, writer_u8 1]
          else if kind = 6 then [writer_u8 1, writer_u8 1]
          else if kind = 7 then [writer_u8 1, writer_u8 0]
          else []))"

definition npc_get_number_packet :: "u32 \<Rightarrow> u16 \<Rightarrow> bytes \<Rightarrow> u8 \<Rightarrow> int \<Rightarrow> int \<Rightarrow> int \<Rightarrow> bytes \<Rightarrow> werror + bytes \<times> nat" where
  "npc_get_number_packet npc message_len message speaker dflt lo hi =
     build_sized NPC_DIALOGUE_PACKET_MAX_LENGTH
        [writer_u16 0x0130, writer_u8 4, writer_u32 npc, writer_u8 3, writer_u8 speaker,
         writer_sized_string message_len message, writer_i32 dflt, writer_i32 lo, writer_i32 hi,
         writer_u32 0]"

definition update_skill_packet :: "u32 \<Rightarrow> int \<Rightarrow> int \<Rightarrow> bytes \<Rightarrow> werror + bytes" where
  "update_skill_packet cid level master_level =
     build_fixed UPDATE_SKILL_PACKET_LENGTH
        [writer_u16 0x0024, writer_u8 1, writer_u16 1, writer_u32 cid, writer_i32 level,
         writer_i32 master_level, writer_u64 150842304000000000, writer_u8 4]"

definition popup_message_packet :: "u16 \<Rightarrow> bytes \<Rightarrow> bytes \<Rightarrow> werror + bytes \<times> nat" where
  "popup_message_packet len message =
     build_sized POPUP_MESSAGE_PACKET_MAX_LENGTH
        [writer_u16 0x0044, writer_u8 1, writer_sized_string len message]"

definition server_message_packet :: "u16 \<Rightarrow> bytes \<Rightarrow> bytes \<Rightarrow> werror + bytes \<times> nat" where
  "server_message_packet len message =
     build_sized SERVER_MESSAGE_PACKET_MAX_LENGTH
        [writer_u16 0x0044, writer_u8 5, writer_sized_string len message]"

definition server_notice_packet :: "u16 \<Rightarrow> bytes \<Rightarrow> bytes \<Rightarrow> werror + bytes \<times> nat" where
  "server_notice_packet len message =
     build_sized SERVER_NOTICE_PACKET_MAX_LENGTH
        [writer_u16 0x0044, writer_u8 6, writer_sized_string len message, writer_u32 0]"

definition set_chair_packet :: "u32 \<Rightarrow> u32 \<Rightarrow> bytes \<Rightarrow> werror + bytes" where
  "set_chair_packet cid chair_id =
     build_fixed SET_CHAIR_PACKET_LENGTH
        [writer_u16 0x00C4, writer_u32 cid, writer_u32 chair_id]"

definition stand_up_packet :: "bytes \<Rightarrow> werror + bytes" where
  "stand_up_packet =
     build_fixed STAND_UP_PACKET_LENGTH
        [writer_u16 0x00CD, writer_u8 0]"

definition sit_on_map_seat_packet :: "u16 \<Rightarrow> bytes \<Rightarrow> werror + bytes" where
  "sit_on_map_seat_packet cid =
     build_fixed SIT_ON_MAP_SEAT_PACKET_LENGTH
        [writer_u16 0x00CD, writer_u8 1, writer_u16 cid]"

definition boat_packet :: "bool \<Rightarrow> bytes \<Rightarrow> werror + bytes" where
  "boat_packet state =
     build_fixed BOAT_PACKET_LENGTH
        [writer_u16 0x0095, writer_u8 (if state then 1 else 2), writer_u8 0]"

definition show_info_packet :: "u16 \<Rightarrow> bytes \<Rightarrow> bytes \<Rightarrow> werror + bytes \<times> nat" where
  "show_info_packet len path =
     build_sized SHOW_INFO_PACKET_MAX_LENGTH
        [writer_u16 0x00CE, writer_u8 0x17, writer_sized_string len path, writer_u32 1]"

definition show_intro_packet :: "u16 \<Rightarrow> bytes \<Rightarrow> bytes \<Rightarrow> werror + bytes \<times> nat" where
  "show_intro_packet len path =
     build_sized SHOW_INTRO_PACKET_MAX_LENGTH
        [writer_u16 0x00CE, writer_u8 0x12, writer_sized_string len path]"

definition play_sound_packet :: "u16 \<Rightarrow> bytes \<Rightarrow> bytes \<Rightarrow> werror + bytes \<times> nat" where
  "play_sound_packet len path =
     build_sized PLAY_SOUND_PACKET_MAX_LENGTH
        [writer_u16 0x008A, writer_u8 4, writer_sized_string len path]"

subsection \<open>Parties\<close>

definition party_status_message_packet :: "u8 \<Rightarrow> bytes \<Rightarrow> werror + bytes" where
  "party_status_message_packet code =
     build_fixed PARTY_STATUS_MESSAGE_PACKET_LENGTH
        [writer_u16 0x003E, writer_u8 code]"

definition party_create_packet :: "u32 \<Rightarrow> bytes \<Rightarrow> werror + bytes" where
  "party_create_packet party_id =
     build_fixed PARTY_CREATE_PACKET_LENGTH
        [writer_u16 0x003E, writer_u8 8, writer_u32 party_id, writer_u32 999999999,
         writer_u32 999999999, writer_u32 0, writer_u32 0]"

definition party_invite_packet :: "u32 \<Rightarrow> u8 \<Rightarrow> bytes \<Rightarrow> bytes \<Rightarrow> werror + bytes \<times> nat" where
  "party_invite_packet party_id inviter_len inviter =
     build_sized PARTY_INVITE_PACKET_MAX_LENGTH
        [writer_u16 0x003E, writer_u8 4, writer_u32 party_id,
         writer_sized_string (ucast inviter_len) inviter, writer_u8 0]"

definition party_join_packet :: "u32 \<Rightarrow> u8 \<Rightarrow> bytes \<Rightarrow> bytes \<Rightarrow> werror + bytes \<times> nat" where
  "party_join_packet cid name_len name pkt = Inr (pkt, 0)"

definition party_disband_packet :: "u32 \<Rightarrow> u32 \<Rightarrow> bytes \<Rightarrow> werror + bytes" where
  "party_disband_packet party_id leader_id =
     build_fixed PLAY_SOUND_PACKET_MAX_LENGTH
        [writer_u16 0x003E, writer_u8 12, writer_u32 party_id, writer_u32 leader_id, writer_u8 0,
         writer_u32 party_id]"

subsection \<open>Every fixed-length packet fills its array\<close>

lemmas fixed_packet_defs =
  login_failure_packet_def
  pin_packet_def
  server_list_end_packet_def
  server_status_packet_def
  channel_ip_packet_def
  login_error_packet_def
  set_gender_packet_def
  remove_player_from_map_packet_def
  spawn_npc_packet_def
  spawn_npc_controller_packet_def
  spawn_monster_packet_def
  spawn_monster_controller_packet_def
  remove_monster_controller_packet_def
  spawn_reactor_packet_def
  change_reactor_state_packet_def
  destroy_reactor_packet_def
  move_monster_response_packet_def
  monster_hp_packet_def
  kill_monster_packet_def
  shop_action_response_def
  exp_gain_packet_def
  exp_gain_in_chat_packet_def
  show_effect_packet_def
  show_foreign_effect_packet_def
  drop_item_from_object_packet_def
  spawn_item_drop_packet_def
  remove_drop_packet_def
  pickup_drop_packet_def
  pet_pickup_drop_packet_def
  drop_meso_from_object_packet_def
  spawn_meso_drop_packet_def
  meso_gain_packet_def
  meso_gain_in_chat_packet_def
  item_gain_packet_def
  item_gain_in_chat_packet_def
  item_unavailable_notification_packet_def
  inventory_full_notification_packet_def
  start_quest_packet_def
  end_quest_packet_def
  update_quest_completion_time_packet_def
  forfeit_quest_packet_def
  face_expression_packet_def
  add_card_packet_def
  update_skill_packet_def
  set_chair_packet_def
  stand_up_packet_def
  sit_on_map_seat_packet_def
  boat_packet_def
  party_status_message_packet_def
  party_create_packet_def
  party_disband_packet_def
  exp_gain_packet_internal_def

lemma fixed_packets:
  "fills LOGIN_FAILURE_PACKET_LENGTH (login_failure_packet reason)"
  "fills PIN_PACKET_LENGTH (pin_packet mode)"
  "fills SERVER_LIST_END_PACKET_LENGTH server_list_end_packet"
  "fills SERVER_STATUS_PACKET_LENGTH (server_status_packet status)"
  "fills CHANNEL_IP_PACKET_LENGTH (channel_ip_packet addr port token)"
  "fills LOGIN_ERROR_PACKET_LENGTH (login_error_packet err)"
  "fills SET_GENDER_PACKET_LENGTH (set_gender_packet gender)"
  "fills REMOVE_PLAYER_FROM_MAP_PACKET_LENGTH (remove_player_from_map_packet cid)"
  "fills SPAWN_NPC_PACKET_LENGTH (spawn_npc_packet oid cid x cy f fh rx0 rx1)"
  "fills SPAWN_NPC_CONTROLLER_PACKET_LENGTH (spawn_npc_controller_packet oid cid x cy f fh rx0 rx1)"
  "fills SPAWN_MONSTER_PACKET_LENGTH (spawn_monster_packet oid cid x y fh fresh)"
  "fills SPAWN_MONSTER_CONTROLLER_PACKET_LENGTH (spawn_monster_controller_packet oid aggro cid x y fh fresh)"
  "fills REMOVE_MONSTER_CONTROLLER_PACKET_LENGTH (remove_monster_controller_packet oid)"
  "fills SPAWN_REACTOR_PACKET_LENGTH (spawn_reactor_packet oid cid x y state)"
  "fills CHANGE_REACTOR_STATE_PACKET_LENGTH (change_reactor_state_packet oid state x y stance)"
  "fills DESTROY_REACTOR_PACKET_LENGTH (destroy_reactor_packet oid state x y)"
  "fills MOVE_MONSTER_RESPONSE_PACKET_LENGTH (move_monster_response_packet oid moveid)"
  "fills MONSTER_HP_PACKET_LENGTH (monster_hp_packet oid hp)"
  "fills KILL_MONSTER_PACKET_LENGTH (kill_monster_packet oid animation)"
  "fills SHOP_ACTION_RESPONSE_PACKET_LENGTH (shop_action_response code)"
  "fills EXP_GAIN_PACKET_LENGTH (exp_gain_packet gained equip_bonus party_bonus white)"
  "fills EXP_GAIN_IN_CHAT_PACKET_LENGTH (exp_gain_in_chat_packet gained equip_bonus party_bonus white)"
  "fills SHOW_EFFECT_PACKET_LENGTH (show_effect_packet effect)"
  "fills SHOW_FOREIGN_EFFECT_PACKET_LENGTH (show_foreign_effect_packet cid effect)"
  "fills DROP_ITEM_FROM_OBJECT_PACKET_LENGTH (drop_item_from_object_packet oid item_id owner_id kind from_x from_y to_x to_y dropper_oid player_drop)"
  "fills SPAWN_ITEM_DROP_PACKET_LENGTH (spawn_item_drop_packet oid item_id owner_id kind x y player_drop)"
  "fills REMOVE_DROP_PACKET_LENGTH (remove_drop_packet oid)"
  "fills PICKUP_DROP_PACKET_LENGTH (pickup_drop_packet oid is_exploding char_id)"
  "fills PET_PICKUP_DROP_PACKET_LENGTH (pet_pickup_drop_packet oid is_exploding char_id pet)"
  "fills DROP_MESO_FROM_OBJECT_PACKET_LENGTH (drop_meso_from_object_packet oid meso owner_id kind from_x from_y to_x to_y dropper_oid player_drop)"
  "fills SPAWN_MESO_DROP_PACKET_LENGTH (spawn_meso_drop_packet oid meso owner_id kind x y player_drop)"
  "fills MESO_GAIN_PACKET_LENGTH (meso_gain_packet amount)"
  "fills MESO_GAIN_IN_CHAT_PACKET_LENGTH (meso_gain_in_chat_packet amount)"
  "fills ITEM_GAIN_PACKET_LENGTH (item_gain_packet cid amount)"
  "fills ITEM_GAIN_IN_CHAT_PACKET_LENGTH (item_gain_in_chat_packet cid amount)"
  "fills ITEM_UNAVAILABLE_NOTIFICATION_PACKET_LENGTH item_unavailable_notification_packet"
  "fills INVENTORY_FULL_NOTIFICATION_PACKET_LENGTH inventory_full_notification_packet"
  "fills START_QUEST_PACKET_LENGTH (start_quest_packet qid npc)"
  "fills END_QUEST_PACKET_LENGTH (end_quest_packet qid npc nxt)"
  "fills UPDATE_QUEST_COMPLETION_TIME_PACKET_LENGTH (update_quest_completion_time_packet gmtoff qid sec)"
  "fills FORFEIT_QUEST_PACKET_LENGTH (forfeit_quest_packet qid)"
  "fills FACE_EXPRESSION_PACKET_LENGTH (face_expression_packet cid emote)"
  "fills ADD_CARD_PACKET_LENGTH (add_card_packet full cid count)"
  "fills UPDATE_SKILL_PACKET_LENGTH (update_skill_packet cid level master_level)"
  "fills SET_CHAIR_PACKET_LENGTH (set_chair_packet cid chair_id)"
  "fills STAND_UP_PACKET_LENGTH stand_up_packet"
  "fills SIT_ON_MAP_SEAT_PACKET_LENGTH (sit_on_map_seat_packet cid')"
  "fills BOAT_PACKET_LENGTH (boat_packet state')"
  "fills PARTY_STATUS_MESSAGE_PACKET_LENGTH (party_status_message_packet code)"
  "fills PARTY_CREATE_PACKET_LENGTH (party_create_packet party_id)"
  "fills PARTY_DISBAND_PACKET_LENGTH (party_disband_packet party_id leader_id)"
  unfolding fixed_packet_defs packet_lengths
  by (rule fillsI, (rule writes_intro)+, simp, simp)+

lemma npc_action_packet_fills:
  assumes "sz < 65536" and "sz \<le> length bs"
  shows "fills (2 + sz) (npc_action_packet sz bs)"
  using assms unfolding npc_action_packet_def
  by (intro fillsI [where m = "2 + (sz + 0)"] writes_Cons writes_Nil writes_primitives)
    (simp_all add: writes_eq [OF writes_array] unat_u16_of_nat)

subsection \<open>Every variable-length packet stays inside its maximum\<close>

lemmas variable_packet_defs =
  login_success_packet_def
  name_check_response_packet_def
  party_invite_packet_def
  update_quest_packet_def
  chat_packet_def
  popup_message_packet_def
  server_message_packet_def
  server_notice_packet_def
  npc_dialogue_packet_def
  npc_get_number_packet_def
  show_info_packet_def
  show_intro_packet_def
  play_sound_packet_def
  damange_player_packet_def
  move_monster_packet_def

lemma variable_packets:
  "unat name_len \<le> 12 \<Longrightarrow> unat name_len \<le> length name \<Longrightarrow> fits LOGIN_SUCCESS_PACKET_MAX_LENGTH (login_success_packet cid gender name_len name pic)"
  "unat name_len \<le> 12 \<Longrightarrow> unat name_len \<le> length name \<Longrightarrow> fits NAME_CHECK_RESPONSE_PACKET_MAX_LENGTH (name_check_response_packet name_len name available)"
  "unat inviter_len \<le> 12 \<Longrightarrow> unat inviter_len \<le> length inviter \<Longrightarrow> fits PARTY_INVITE_PACKET_MAX_LENGTH (party_invite_packet party_id inviter_len inviter)"
  "unat len \<le> 15 \<Longrightarrow> unat len \<le> length progress \<Longrightarrow> fits UPDATE_QUEST_PACKET_MAX_LENGTH (update_quest_packet qid len progress)"
  "unat len \<le> 80 \<Longrightarrow> unat len \<le> length msg \<Longrightarrow> fits CHAT_PACKET_MAX_LENGTH (chat_packet cid gm len msg shown)"
  "unat len \<le> 127 \<Longrightarrow> unat len \<le> length message \<Longrightarrow> fits POPUP_MESSAGE_PACKET_MAX_LENGTH (popup_message_packet len message)"
  "unat len \<le> 65530 \<Longrightarrow> unat len \<le> length message \<Longrightarrow> fits SERVER_MESSAGE_PACKET_MAX_LENGTH (server_message_packet len message)"
  "unat len \<le> 65526 \<Longrightarrow> unat len \<le> length message \<Longrightarrow> fits SERVER_NOTICE_PACKET_MAX_LENGTH (server_notice_packet len message)"
  "unat len \<le> 65522 \<Longrightarrow> unat len \<le> length message \<Longrightarrow> fits NPC_DIALOGUE_PACKET_MAX_LENGTH (npc_dialogue_packet npc kind len message speaker)"
  "unat len \<le> 65508 \<Longrightarrow> unat len \<le> length message \<Longrightarrow> fits NPC_DIALOGUE_PACKET_MAX_LENGTH (npc_get_number_packet npc len message speaker dflt lo hi)"
  "unat len \<le> 119 \<Longrightarrow> unat len \<le> length path \<Longrightarrow> fits SHOW_INFO_PACKET_MAX_LENGTH (show_info_packet len path)"
  "unat len \<le> 123 \<Longrightarrow> unat len \<le> length path \<Longrightarrow> fits SHOW_INTRO_PACKET_MAX_LENGTH (show_intro_packet len path)"
  "unat len \<le> 123 \<Longrightarrow> unat len \<le> length path \<Longrightarrow> fits PLAY_SOUND_PACKET_MAX_LENGTH (play_sound_packet len path)"
  "fits DAMAGE_PLAYER_PACKET_MAX_LENGTH (damange_player_packet skill monster_id char_id damage fake direction)"
  "n \<le> 3830 \<Longrightarrow> n \<le> length bs \<Longrightarrow> fits MOVE_MONSTER_PACKET_MAX_LENGTH (move_monster_packet oid skill_possible activity skill_id skill_level opt n bs)"
  unfolding variable_packet_defs packet_lengths
  by (rule fits_build_sized writes_intro | simp add: unat_u16_of_nat)+

lemma server_list_packet_fits:
  assumes "unat world < 2" and "unat mes_len \<le> 65000" and "unat mes_len \<le> length mes"
  shows "fits SERVER_LIST_PACKET_MAX_LENGTH (server_list_packet world flag mes_len mes)"
proof -
  let ?name = "WORLD_NAMES ! unat world"
  have name: "unat world < length WORLD_NAMES" "length ?name \<le> 6"
    using assms(1) by (auto simp: WORLD_NAMES_def less_2_cases_iff)
  then have "unat (of_nat (length ?name) :: u16) = length ?name"
    by (intro unat_u16_of_nat) simp
  with name have w: "writes (with_elem WORLD_NAMES (unat world)
      (\<lambda>name. writer_sized_string (of_nat (length name)) name)) (2 + length ?name)"
    by (intro writes_with_elem writes_eq [OF writes_sized_string]) simp_all
  show ?thesis
    unfolding server_list_packet_def packet_lengths
    by (rule fits_build_sized w writes_intro | (use assms(2,3) name(2) in simp))+
qed

lemma move_player_packet_fits:
  assumes "len \<le> 3853" and "len \<le> length bs"
  shows "fits MOVE_PLAYER_PACKET_MAX_LENGTH (move_player_packet cid len bs)"
proof -
  have len: "unat (of_nat len :: u16) = len" using assms(1) by (intro unat_u16_of_nat) simp
  have "writes (run_ops [writer_u16 0x00B9, writer_u32 cid, writer_u32 0, writer_array (of_nat len) bs]) (10 + len)"
    by (rule writes_eq, (rule writes_intro | simp add: len assms(2))+)
  then obtain ds where ds: "emits (run_ops [writer_u16 0x00B9, writer_u32 cid, writer_u32 0, writer_array (of_nat len) bs]) ds"
    "length ds = 10 + len"
    by (auto simp: writes_def)
  have "move_player_packet cid len bs pkt = Inr (ds @ drop (length ds) pkt, length ds)" if "length pkt = 3863" for pkt
    using that assms(1) ds(2) emits_success [OF ds(1), of "writer_init (10 + len) pkt"]
    by (simp add: move_player_packet_def build_sized_def packet_appended)
  with ds(2) assms(1) show ?thesis
    unfolding fits_def packet_lengths by (intro exI [of _ ds]) simp
qed

lemma attack_targets_writes:
  assumes "unat monster_count \<le> length oids" and "unat monster_count * unat hit_count \<le> length damage"
  shows "writes (run_ops (attack_targets monster_count hit_count oids damage)) (unat monster_count * (5 + 4 * unat hit_count))"
proof -
  let ?m = "unat monster_count" and ?h = "unat hit_count"
  have "i * ?h + j < length damage" if "i < ?m" "j < ?h" for i j
  proof -
    have "i * ?h + j < (i + 1) * ?h" using that by simp
    also have "\<dots> \<le> ?m * ?h" using that by (intro mult_le_mono1) simp
    finally show ?thesis using assms(2) by simp
  qed
  note in_range = this
  have "writes (run_ops ([with_elem oids i writer_u32, writer_u8 0] @
      concat (map (\<lambda>j. [with_elem damage (i * ?h + j) writer_i32]) [0..<?h]))) (5 + 4 * ?h)" if "i < ?m" for i
    by (rule writes_eq, (rule writes_intro | (use that assms(1) in_range in \<open>simp add: sum_list_triv\<close>))+)
  then have "writes (run_ops (attack_targets monster_count hit_count oids damage)) (sum_list (map (\<lambda>i. 5 + 4 * ?h) [0..<?m]))"
    unfolding attack_targets_def by (intro writes_for) simp
  then show ?thesis by (simp add: sum_list_triv)
qed

text \<open>The counts are sent in four bits each, so that they are below 16.\<close>

lemma attack_packets_fit:
  assumes "unat monster_count < 16" and "unat hit_count < 16"
    and "unat monster_count \<le> length oids" and "unat monster_count * unat hit_count \<le> length damage"
  shows "fits CLOSE_RANGE_ATTACK_PACKET_MAX_LENGTH (close_range_attack_packet cid skill skill_level
      monster_count hit_count oids damage display direction stance speed)"
    and "fits RANGED_ATTACK_PACKET_MAX_LENGTH (ranged_attack_packet cid skill skill_level
      monster_count hit_count oids damage display direction stance speed projectile)"
    and "fits MAGIC_ATTACK_PACKET_MAX_LENGTH (magic_attack_packet cid skill skill_level
      monster_count hit_count oids damage display direction stance speed)"
proof -
  note w = attack_targets_writes [OF assms(3,4)]
  have "unat monster_count * (5 + 4 * unat hit_count) \<le> 15 * (5 + 4 * 15)"
    using assms(1,2) by (intro mult_le_mono) simp_all
  then have b: "unat monster_count * (5 + 4 * unat hit_count) \<le> 975" by simp
  show "fits CLOSE_RANGE_ATTACK_PACKET_MAX_LENGTH (close_range_attack_packet cid skill skill_level
      monster_count hit_count oids damage display direction stance speed)"
    unfolding close_range_attack_packet_def packet_lengths
    by (rule fits_build_sized, (rule w writes_intro)+) (use b in auto)
  show "fits RANGED_ATTACK_PACKET_MAX_LENGTH (ranged_attack_packet cid skill skill_level
      monster_count hit_count oids damage display direction stance speed projectile)"
    unfolding ranged_attack_packet_def packet_lengths
    by (rule fits_build_sized, (rule w writes_intro)+) (use b in auto)
  show "fits MAGIC_ATTACK_PACKET_MAX_LENGTH (magic_attack_packet cid skill skill_level
      monster_count hit_count oids damage display direction stance speed)"
    unfolding magic_attack_packet_def packet_lengths
    by (rule fits_build_sized, (rule w writes_intro)+) (use b in auto)
qed

text \<open>A shop entry takes 24 bytes, or 30 for an item that can be recharged.\<close>

definition shop_entry_length :: "shop_item \<Rightarrow> nat" where
  "shop_entry_length it = (if ITEM_IS_RECHARGEABLE (shop_id it) then 30 else 24)"

lemma rechargeable_info_writes: "writes (rechargeable_info (Some info)) 4"
proof -
  have "rechargeable_info (Some info) =
      run_ops [writer_u16 (ucast (drop_bit 48 (info_unitPrice info))), writer_u16 (word_of_int (info_slotMax info))]"
    by (rule ext) (simp add: rechargeable_info_def)
  then show ?thesis by (simp only:) (rule writes_eq, (rule writes_intro)+, simp)
qed

lemma shop_entry_writes:
  assumes "ITEM_IS_RECHARGEABLE (shop_id it) \<longrightarrow> wz_get_item_info (shop_id it) \<noteq> None"
  shows "writes (shop_entry wz_get_item_info it) (shop_entry_length it)"
proof (cases "ITEM_IS_RECHARGEABLE (shop_id it)")
  case True
  with assms obtain info where "wz_get_item_info (shop_id it) = Some info" by blast
  with True show ?thesis
    unfolding shop_entry_def
    by (simp only: if_False simp_thms)
      (rule writes_eq, (rule writes_intro rechargeable_info_writes | simp add: shop_entry_length_def)+)
next
  case False
  then show ?thesis
    unfolding shop_entry_def
    by (simp only: if_True simp_thms) (rule writes_eq, (rule writes_intro | simp add: shop_entry_length_def)+)
qed

lemma open_shop_writes:
  assumes "unat item_count \<le> length items"
    and "\<forall>it \<in> set items. ITEM_IS_RECHARGEABLE (shop_id it) \<longrightarrow> wz_get_item_info (shop_id it) \<noteq> None"
  shows "writes (run_ops ([writer_u16 0x0131, writer_u32 cid, writer_u16 item_count] @
      concat (map (\<lambda>i. [with_elem items i (shop_entry wz_get_item_info)]) [0..<unat item_count])))
    (8 + sum_list (map shop_entry_length (take (unat item_count) items)))"
proof -
  have w: "writes (run_ops (concat (map (\<lambda>i. [with_elem items i (shop_entry wz_get_item_info)]) [0..<unat item_count])))
    (sum_list (map shop_entry_length (take (unat item_count) items)))"
  proof (rule writes_each [OF assms(1)], rule shop_entry_writes)
    fix i
    assume "i < unat item_count"
    with assms(1) have "items ! i \<in> set items" by simp
    with assms(2) show "ITEM_IS_RECHARGEABLE (shop_id (items ! i)) \<longrightarrow> wz_get_item_info (shop_id (items ! i)) \<noteq> None"
      by blast
  qed
  show ?thesis
    by (rule writes_eq, rule writes_append [OF _ w], (rule writes_intro)+, simp)
qed

text \<open>Shops without rechargeable items fit up to 255 items; 255 rechargeable ones do not.\<close>

lemma open_shop_fits:
  assumes "unat item_count \<le> 255" and "unat item_count \<le> length items"
    and "\<forall>it \<in> set items. \<not> ITEM_IS_RECHARGEABLE (shop_id it)"
  shows "fits OPEN_SHOP_PACKET_MAX_LENGTH (open_shop_packet wz_get_item_info cid item_count items)"
proof -
  have "map shop_entry_length (take (unat item_count) items) = replicate (unat item_count) 24"
    using assms(2,3) by (intro nth_equalityI) (simp_all add: shop_entry_length_def)
  then have "8 + sum_list (map shop_entry_length (take (unat item_count) items)) \<le> 6128"
    using assms(1) by (simp add: sum_list_replicate)
  then show ?thesis
    unfolding open_shop_packet_def packet_lengths
    using open_shop_writes [OF assms(2), of wz_get_item_info cid] assms(3)
    by (intro fits_build_sized) auto
qed

lemma open_shop_overflow:
  assumes "unat item_count = 255" and "255 \<le> length items"
    and "\<forall>it \<in> set items. ITEM_IS_RECHARGEABLE (shop_id it) \<and> wz_get_item_info (shop_id it) \<noteq> None"
    and "length pkt = OPEN_SHOP_PACKET_MAX_LENGTH"
  shows "\<exists>e. open_shop_packet wz_get_item_info cid item_count items pkt = Inl e"
proof -
  have "map shop_entry_length (take (unat item_count) items) = replicate 255 30"
    using assms(1-3) by (intro nth_equalityI) (simp_all add: shop_entry_length_def)
  then have len: "length pkt < 8 + sum_list (map shop_entry_length (take (unat item_count) items))"
    using assms(4) by (simp add: sum_list_replicate packet_lengths)
  have "unat item_count \<le> length items" using assms(1,2) by simp
  then have "writes (run_ops ([writer_u16 0x0131, writer_u32 cid, writer_u16 item_count] @
      concat (map (\<lambda>i. [with_elem items i (shop_entry wz_get_item_info)]) [0..<unat item_count])))
    (8 + sum_list (map shop_entry_length (take (unat item_count) items)))"
    by (rule open_shop_writes) (use assms(3) in blast)
  from overlong_fails [OF this len] show ?thesis
    unfolding open_shop_packet_def build_sized_def by (metis old.sum.simps(5))
qed

subsection \<open>Properties\<close>

text \<open>
  Every fixed-length packet builder, given an array of the length declared for it, succeeds
  and overwrites all of it with the same bytes whatever the array held before: no assertion
  fails, nothing is written outside, and no uninitialised byte is sent.
\<close>

theorem fixed_length_packets_fill:
  "fills LOGIN_FAILURE_PACKET_LENGTH (login_failure_packet reason) \<and>
   fills PIN_PACKET_LENGTH (pin_packet mode) \<and>
   fills SERVER_LIST_END_PACKET_LENGTH server_list_end_packet \<and>
   fills SERVER_STATUS_PACKET_LENGTH (server_status_packet status) \<and>
   fills CHANNEL_IP_PACKET_LENGTH (channel_ip_packet addr port token) \<and>
   fills LOGIN_ERROR_PACKET_LENGTH (login_error_packet err) \<and>
   fills SET_GENDER_PACKET_LENGTH (set_gender_packet gender) \<and>
   fills REMOVE_PLAYER_FROM_MAP_PACKET_LENGTH (remove_player_from_map_packet cid) \<and>
   fills SPAWN_NPC_PACKET_LENGTH (spawn_npc_packet oid cid x cy f fh rx0 rx1) \<and>
   fills SPAWN_NPC_CONTROLLER_PACKET_LENGTH (spawn_npc_controller_packet oid cid x cy f fh rx0 rx1) \<and>
   fills SPAWN_MONSTER_PACKET_LENGTH (spawn_monster_packet oid cid x y fh fresh) \<and>
   fills SPAWN_MONSTER_CONTROLLER_PACKET_LENGTH (spawn_monster_controller_packet oid aggro cid x y fh fresh) \<and>
   fills REMOVE_MONSTER_CONTROLLER_PACKET_LENGTH (remove_monster_controller_packet oid) \<and>
   fills SPAWN_REACTOR_PACKET_LENGTH (spawn_reactor_packet oid cid x y state) \<and>
   fills CHANGE_REACTOR_STATE_PACKET_LENGTH (change_reactor_state_packet oid state x y stance) \<and>
   fills DESTROY_REACTOR_PACKET_LENGTH (destroy_reactor_packet oid state x y) \<and>
   fills MOVE_MONSTER_RESPONSE_PACKET_LENGTH (move_monster_response_packet oid moveid) \<and>
   fills MONSTER_HP_PACKET_LENGTH (monster_hp_packet oid hp) \<and>
   fills KILL_MONSTER_PACKET_LENGTH (kill_monster_packet oid animation) \<and>
   fills SHOP_ACTION_RESPONSE_PACKET_LENGTH (shop_action_response code) \<and>
   fills EXP_GAIN_PACKET_LENGTH (exp_gain_packet gained equip_bonus party_bonus white) \<and>
   fills EXP_GAIN_IN_CHAT_PACKET_LENGTH (exp_gain_in_chat_packet gained equip_bonus party_bonus white) \<and>
   fills SHOW_EFFECT_PACKET_LENGTH (show_effect_packet effect) \<and>
   fills SHOW_FOREIGN_EFFECT_PACKET_LENGTH (show_foreign_effect_packet cid effect) \<and>
   fills DROP_ITEM_FROM_OBJECT_PACKET_LENGTH (drop_item_from_object_packet oid item_id owner_id kind from_x from_y to_x to_y dropper_oid player_drop) \<and>
   fills SPAWN_ITEM_DROP_PACKET_LENGTH (spawn_item_drop_packet oid item_id owner_id kind x y player_drop) \<and>
   fills REMOVE_DROP_PACKET_LENGTH (remove_drop_packet oid) \<and>
   fills PICKUP_DROP_PACKET_LENGTH (pickup_drop_packet oid is_exploding char_id) \<and>
   fills PET_PICKUP_DROP_PACKET_LENGTH (pet_pickup_drop_packet oid is_exploding char_id pet) \<and>
   fills DROP_MESO_FROM_OBJECT_PACKET_LENGTH (drop_meso_from_object_packet oid meso owner_id kind from_x from_y to_x to_y dropper_oid player_drop) \<and>
   fills SPAWN_MESO_DROP_PACKET_LENGTH (spawn_meso_drop_packet oid meso owner_id kind x y player_drop) \<and>
   fills MESO_GAIN_PACKET_LENGTH (meso_gain_packet amount) \<and>
   fills MESO_GAIN_IN_CHAT_PACKET_LENGTH (meso_gain_in_chat_packet amount) \<and>
   fills ITEM_GAIN_PACKET_LENGTH (item_gain_packet cid amount) \<and>
   fills ITEM_GAIN_IN_CHAT_PACKET_LENGTH (item_gain_in_chat_packet cid amount) \<and>
   fills ITEM_UNAVAILABLE_NOTIFICATION_PACKET_LENGTH item_unavailable_notification_packet \<and>
   fills INVENTORY_FULL_NOTIFICATION_PACKET_LENGTH inventory_full_notification_packet \<and>
   fills START_QUEST_PACKET_LENGTH (start_quest_packet qid npc) \<and>
   fills END_QUEST_PACKET_LENGTH (end_quest_packet qid npc nxt) \<and>
   fills UPDATE_QUEST_COMPLETION_TIME_PACKET_LENGTH (update_quest_completion_time_packet gmtoff qid sec) \<and>
   fills FORFEIT_QUEST_PACKET_LENGTH (forfeit_quest_packet qid) \<and>
   fills FACE_EXPRESSION_PACKET_LENGTH (face_expression_packet cid emote) \<and>
   fills ADD_CARD_PACKET_LENGTH (add_card_packet full cid count) \<and>
   fills UPDATE_SKILL_PACKET_LENGTH (update_skill_packet cid level master_level) \<and>
   fills SET_CHAIR_PACKET_LENGTH (set_chair_packet cid chair_id) \<and>
   fills STAND_UP_PACKET_LENGTH stand_up_packet \<and>
   fills SIT_ON_MAP_SEAT_PACKET_LENGTH (sit_on_map_seat_packet cid') \<and>
   fills BOAT_PACKET_LENGTH (boat_packet state') \<and>
   fills PARTY_STATUS_MESSAGE_PACKET_LENGTH (party_status_message_packet code) \<and>
   fills PARTY_CREATE_PACKET_LENGTH (party_create_packet party_id) \<and>
   fills PARTY_DISBAND_PACKET_LENGTH (party_disband_packet party_id leader_id)"
  by (intro conjI fixed_packets)

text \<open>
  Every variable-length builder without characters, given an array of its declared maximum
  length, succeeds and returns the number of bytes it wrote, for every string up to the length
  that the maximum is meant for.
\<close>

theorem variable_length_packets_fit:
  "(unat name_len \<le> 12 \<and> unat name_len \<le> length name \<longrightarrow> fits LOGIN_SUCCESS_PACKET_MAX_LENGTH (login_success_packet cid gender name_len name pic)) \<and>
   (unat name_len \<le> 12 \<and> unat name_len \<le> length name \<longrightarrow> fits NAME_CHECK_RESPONSE_PACKET_MAX_LENGTH (name_check_response_packet name_len name available)) \<and>
   (unat inviter_len \<le> 12 \<and> unat inviter_len \<le> length inviter \<longrightarrow> fits PARTY_INVITE_PACKET_MAX_LENGTH (party_invite_packet party_id inviter_len inviter)) \<and>
   (unat len \<le> 15 \<and> unat len \<le> length progress \<longrightarrow> fits UPDATE_QUEST_PACKET_MAX_LENGTH (update_quest_packet qid len progress)) \<and>
   (unat len \<le> 80 \<and> unat len \<le> length msg \<longrightarrow> fits CHAT_PACKET_MAX_LENGTH (chat_packet cid gm len msg shown)) \<and>
   (unat len \<le> 127 \<and> unat len \<le> length message \<longrightarrow> fits POPUP_MESSAGE_PACKET_MAX_LENGTH (popup_message_packet len message)) \<and>
   (unat len \<le> 65530 \<and> unat len \<le> length message \<longrightarrow> fits SERVER_MESSAGE_PACKET_MAX_LENGTH (server_message_packet len message)) \<and>
   (unat len \<le> 65526 \<and> unat len \<le> length message \<longrightarrow> fits SERVER_NOTICE_PACKET_MAX_LENGTH (server_notice_packet len message)) \<and>
   (unat len \<le> 65522 \<and> unat len \<le> length message \<longrightarrow> fits NPC_DIALOGUE_PACKET_MAX_LENGTH (npc_dialogue_packet npc kind len message speaker)) \<and>
   (unat len \<le> 65508 \<and> unat len \<le> length message \<longrightarrow> fits NPC_DIALOGUE_PACKET_MAX_LENGTH (npc_get_number_packet npc len message speaker dflt lo hi)) \<and>
   (unat len \<le> 119 \<and> unat len \<le> length path \<longrightarrow> fits SHOW_INFO_PACKET_MAX_LENGTH (show_info_packet len path)) \<and>
   (unat len \<le> 123 \<and> unat len \<le> length path \<longrightarrow> fits SHOW_INTRO_PACKET_MAX_LENGTH (show_intro_packet len path)) \<and>
   (unat len \<le> 123 \<and> unat len \<le> length path \<longrightarrow> fits PLAY_SOUND_PACKET_MAX_LENGTH (play_sound_packet len path)) \<and>
   fits DAMAGE_PLAYER_PACKET_MAX_LENGTH (damange_player_packet skill monster_id char_id damage fake direction) \<and>
   (n \<le> 3830 \<and> n \<le> length bs \<longrightarrow> fits MOVE_MONSTER_PACKET_MAX_LENGTH (move_monster_packet oid skill_possible activity skill_id skill_level opt n bs)) \<and>
   (unat world < 2 \<and> unat mes_len \<le> 65000 \<and> unat mes_len \<le> length mes \<longrightarrow> fits SERVER_LIST_PACKET_MAX_LENGTH (server_list_packet world flag mes_len mes)) \<and>
   (n \<le> 3853 \<and> n \<le> length bs \<longrightarrow> fits MOVE_PLAYER_PACKET_MAX_LENGTH (move_player_packet cid n bs))"
  by (intro conjI impI; (elim conjE)?; rule variable_packets server_list_packet_fits move_player_packet_fits; assumption)

theorem variable_length_packets_fit_witness:
  "fits CHAT_PACKET_MAX_LENGTH (chat_packet 7 False 2 [72, 105] 0) \<and>
   fits SERVER_LIST_PACKET_MAX_LENGTH (server_list_packet 1 0 0 [])"
  using variable_length_packets_fit [where len = 2 and msg = "[72, 105]" and cid = 7 and gm = False and shown = 0]
    variable_length_packets_fit [where world = 1 and flag = 0 and mes_len = 0 and mes = "[]"]
  by simp

text \<open>
  The attack packets fit: for at most 15 monsters and at most 15 hits each (the counts
  share one byte) and arrays of targets and damages of matching lengths, each of the three
  builders succeeds in an array of its declared maximum length.
\<close>

theorem attack_packets_stay_inside:
  assumes "unat monster_count < 16" and "unat hit_count < 16"
    and "unat monster_count \<le> length oids" and "unat monster_count * unat hit_count \<le> length damage"
  shows "fits CLOSE_RANGE_ATTACK_PACKET_MAX_LENGTH (close_range_attack_packet cid skill skill_level
      monster_count hit_count oids damage display direction stance speed) \<and>
    fits RANGED_ATTACK_PACKET_MAX_LENGTH (ranged_attack_packet cid skill skill_level
      monster_count hit_count oids damage display direction stance speed projectile) \<and>
    fits MAGIC_ATTACK_PACKET_MAX_LENGTH (magic_attack_packet cid skill skill_level
      monster_count hit_count oids damage display direction stance speed)"
  by (intro conjI attack_packets_fit assms)

theorem attack_packets_stay_inside_witness:
  "fits RANGED_ATTACK_PACKET_MAX_LENGTH (ranged_attack_packet 1 0 0 1 2 [9] [100, 200] 0 0 0 0 2070000)"
  using attack_packets_stay_inside [of 1 2 "[9]" "[100, 200]" 1 0 0 0 0 0 0 2070000] by simp

text \<open>
  \<open>open_shop_packet\<close> can overrun its array: the declared maximum is meant for 255 items,
  but an item that can be recharged takes 30 bytes instead of 24, and 255 of those make the
  builder fail in an array of the maximum length.
\<close>

theorem open_shop_overruns:
  assumes "unat item_count = 255" and "255 \<le> length items"
    and "\<forall>it \<in> set items. ITEM_IS_RECHARGEABLE (shop_id it) \<and> wz_get_item_info (shop_id it) \<noteq> None"
    and "length pkt = OPEN_SHOP_PACKET_MAX_LENGTH"
  shows "\<exists>e. open_shop_packet wz_get_item_info cid item_count items pkt = Inl e"
  using assms by (rule open_shop_overflow)

theorem open_shop_overruns_witness:
  "\<exists>e. open_shop_packet (\<lambda>_. Some \<lparr>info_itemId = 2070000, info_slotMax = 500, info_price = 1, info_unitPrice = 0,
       info_untradable = False, info_oneOfAKind = False, info_monsterBook = False, info_quest = False\<rparr>) 1 255
     (replicate 255 \<lparr>shop_id = 2070000, shop_price = 1\<rparr>) (replicate OPEN_SHOP_PACKET_MAX_LENGTH 0) = Inl e"
proof (rule open_shop_overruns)
  have "ITEM_IS_RECHARGEABLE 2070000" by code_simp
  then show "\<forall>it \<in> set (replicate 255 \<lparr>shop_id = 2070000, shop_price = 1\<rparr>).
      ITEM_IS_RECHARGEABLE (shop_id it) \<and> (Some \<lparr>info_itemId = 2070000, info_slotMax = 500, info_price = 1, info_unitPrice = 0,
       info_untradable = False, info_oneOfAKind = False, info_monsterBook = False, info_quest = False\<rparr> :: item_info option) \<noteq> None"
    by simp
qed simp_all

end
