(* ===== verification/Character_Packets.thy ===== *)
theory Character_Packets
  imports Character Packets
begin

text \<open>
  The packets that carry characters, equipment and items: \<open>writer_char_appearance\<close> and
  \<open>writer_char_stats\<close> of \<^verbatim>\<open>src/src/writer.c\<close> and the remaining builders of
  \<^verbatim>\<open>src/src/packet.c\<close>.

  The clock (\<open>gettimeofday\<close>) and the time zone (\<open>localtime_r\<close>) are arguments. The builders
  that iterate over a hash set call the writer once per element in slot order; the
  \<open>realloc_set\<close> at the end of \<open>hash_set_u32_foreach\<close> changes no element and is left to
  the theory of the sets.

  The lemmas compute the length of every packet from the number of worn items, items,
  skills and quests, and bound it by the length the callers allocate.
\<close>

subsection \<open>Appearance and stats\<close>

definition appearance_slot :: "equipment_id \<Rightarrow> nat \<Rightarrow> wop" where
  "appearance_slot e i =
     run_ops (if \<not> ap_isEmpty e
              then [writer_u8 (of_nat (equip_slot_from_compact (of_nat i))), writer_u32 (ap_id e)] else [])"

definition writer_char_appearance :: "character_appearance \<Rightarrow> bool \<Rightarrow> wop list" where
  "writer_char_appearance chr mega =
     [writer_u8 (if ap_gender chr then 1 else 0), writer_u8 (ap_skin chr), writer_u32 (ap_face chr),
      writer_u8 (if mega then 0 else 1), writer_u32 (ap_hair chr)] @
     concat (map (\<lambda>i.
       [with_elem (ap_equipments chr) i (\<lambda>e. appearance_slot e i)] @
       (if i = EQUIP_SLOT_NON_COSMETIC_COUNT then [writer_u8 0xFF] else [])) [0..<EQUIP_SLOT_COUNT]) @
     [writer_u8 0xFF,
      with_elem (ap_equipments chr) (unat (equip_slot_to_compact EQUIP_SLOT_WEAPON_COSMETIC))
        (\<lambda>e. if \<not> ap_isEmpty e then writer_u32 (ap_id e) else writer_u32 0),
      writer_u32 0, writer_u32 0, writer_u32 0]"

definition writer_char_stats :: "character_stats \<Rightarrow> wop list" where
  "writer_char_stats chr =
     (let ap = appearance (st_info chr)
      in [writer_u32 (st_id chr),
          writer_array (ucast (ap_nameLength ap)) (ap_name ap),
          writer_zero (nat ((13 - int (unat (ap_nameLength ap))) mod 2 ^ 64)),
          writer_u8 (if ap_gender ap then 1 else 0), writer_u8 (ap_skin ap),
          writer_u32 (ap_face ap), writer_u32 (ap_hair ap),
          writer_u64 0, writer_u64 0, writer_u64 0,
          writer_u8 (in_level (st_info chr)), writer_u16 (of_nat (in_job (st_info chr))),
          writer_i16 (st_str chr), writer_i16 (st_dex chr), writer_i16 (st_int chr), writer_i16 (st_luk chr),
          writer_i16 (st_hp chr), writer_i16 (st_maxHp chr), writer_i16 (st_mp chr), writer_i16 (st_maxMp chr),
          writer_i16 (st_ap chr), writer_i16 (st_sp chr), writer_i32 (st_exp chr),
          writer_i16 (in_fame (st_info chr)), writer_i32 (ap_gachaExp ap), writer_u32 (ap_map ap),
          writer_u8 (ap_spawnPoint ap), writer_u32 0])"

subsection \<open>Login\<close>

definition character_list_packet ::
  "nat \<Rightarrow> u8 \<Rightarrow> character_stats list \<Rightarrow> u8 \<Rightarrow> bytes \<Rightarrow> werror + bytes \<times> nat" where
  "character_list_packet status char_count chars pic =
     build_sized CHARACTER_LIST_PACKET_MAX_LENGTH
       ([writer_u16 0x000B, writer_u8 (of_nat status), writer_u8 char_count] @
        concat (map (\<lambda>i. [with_elem chars i (\<lambda>chr. run_ops
          (writer_char_stats chr @ writer_char_appearance (appearance (st_info chr)) False @
           [writer_u8 0, writer_u8 0]))]) [0..<unat char_count]) @
        [writer_u8 pic, writer_u32 6])"

definition create_character_response_packet :: "character_stats \<Rightarrow> bytes \<Rightarrow> werror + bytes \<times> nat" where
  "create_character_response_packet chr =
     build_sized CREATE_CHARACTER_RESPONSE_PACKET_LENGTH
       ([writer_u16 0x000E, writer_u8 0] @ writer_char_stats chr @
        writer_char_appearance (appearance (st_info chr)) False @ [writer_u8 0, writer_u8 0])"

subsection \<open>Entering a map\<close>

text \<open>The fifteen stats of a piece of equipment, written alike by every packet that has one.\<close>

definition equip_stats :: "equipment \<Rightarrow> wop list" where
  "equip_stats e =
     [writer_i16 (eq_str e), writer_i16 (eq_dex e), writer_i16 (eq_int e), writer_i16 (eq_luk e),
      writer_i16 (eq_hp e), writer_i16 (eq_mp e), writer_i16 (eq_atk e), writer_i16 (eq_matk e),
      writer_i16 (eq_def e), writer_i16 (eq_mdef e), writer_i16 (eq_acc e), writer_i16 (eq_avoid e),
      writer_i16 (eq_hands e), writer_i16 (eq_speed e), writer_i16 (eq_jump e)]"

definition DEFAULT_TIME :: u64 where "DEFAULT_TIME = 150842304000000000"
definition ZERO_TIME :: u64 where "ZERO_TIME = 94354848000000000"

text \<open>The body of the two equipment loops; \<open>put_flags\<close> is \<open>writer_i16\<close> in one and \<open>writer_u16\<close> in the other.\<close>

definition field_equip :: "u16 \<Rightarrow> wop \<Rightarrow> equipment \<Rightarrow> wop" where
  "field_equip slot put_flags e =
     run_ops
       ([writer_u16 slot, writer_u8 1, writer_u32 (itemId (eq_item e)), writer_bool False,
         writer_u64 DEFAULT_TIME, writer_u8 (word_of_int (eq_slots e)), writer_u8 0] @
        equip_stats e @
        [writer_sized_string (ucast (ownerLength (eq_item e))) (owner (eq_item e)), put_flags,
         writer_u8 0, writer_u8 1, writer_i32 0, writer_u32 0, writer_u64 0, writer_u64 ZERO_TIME,
         writer_i32 (- 1)])"

definition field_item :: "u8 \<Rightarrow> inventory_item \<Rightarrow> wop list" where
  "field_item slot it =
     [writer_u8 slot, writer_u8 2, writer_u32 (itemId (ii_item it)), writer_bool False,
      writer_u64 DEFAULT_TIME, writer_i16 (quantity it),
      writer_sized_string (ucast (ownerLength (ii_item it))) (owner (ii_item it)),
      writer_u16 (ucast (flags (ii_item it)))]"

definition recharge_ops :: "u32 \<Rightarrow> wop list" where
  "recharge_ops iid =
     (if ITEM_IS_RECHARGEABLE iid then [writer_u32 2, writer_array 4 [0x54, 0x00, 0x00, 0x34]] else [])"

text \<open>Only the use inventory has items that can be recharged.\<close>

definition field_inventory :: "bool \<Rightarrow> inventory \<Rightarrow> wop list" where
  "field_inventory use ivt =
     concat (map (\<lambda>i. [with_elem (inv_items ivt) i (\<lambda>e. run_ops
       (if ie_isEmpty e then []
        else field_item (of_nat i + 1) (ie_item e) @
          (if use then recharge_ops (itemId (ii_item (ie_item e))) else [])))])
       [0..<unat (inv_slotCount ivt)])"

definition foreach_op :: "('d \<Rightarrow> wop) \<Rightarrow> 'd hash_set \<Rightarrow> wop" where
  "foreach_op f hs w =
     snd (hash_set_foreach_keep (\<lambda>d c. (d, case c of Inl e \<Rightarrow> Inl e | Inr w \<Rightarrow> f d w)) hs (Inr w))"

definition add_skills :: "skill \<Rightarrow> wop" where
  "add_skills s = run_ops [writer_u32 (sk_id s), writer_u32 (word_of_int (sk_level s)), writer_u64 DEFAULT_TIME]"

text \<open>The text goes through a local array of 15 characters.\<close>

definition add_quests :: "quest \<Rightarrow> wop" where
  "add_quests q =
     run_ops [writer_u16 (q_id q),
       (\<lambda>w. case quest_get_progress_string q (replicate 15 0) of
          Inl e \<Rightarrow> Inl e
        | Inr (str, _) \<Rightarrow> writer_sized_string (3 * ucast (q_progressCount q)) str w)]"

definition add_quest_infos :: "quest_info_progress \<Rightarrow> wop" where
  "add_quest_infos info = run_ops [writer_u16 (qi_id info), writer_sized_string (ucast (qi_length info)) (qi_value info)]"

definition add_completed_quests :: "(int \<Rightarrow> int) \<Rightarrow> completed_quest \<Rightarrow> wop" where
  "add_completed_quests gmtoff q =
     run_ops [writer_u16 (cq_id q), writer_u64 (file_time (cq_time q) 0 (gmtoff (cq_time q)))]"

definition add_monster_book_entries :: "monster_book_entry \<Rightarrow> wop" where
  "add_monster_book_entries e = run_ops [writer_u16 (ucast (mb_id e mod 10000)), writer_i8 (mb_count e)]"

definition set_field_packet ::
  "int \<times> int \<Rightarrow> (int \<Rightarrow> int) \<Rightarrow> character \<Rightarrow> bytes \<Rightarrow> werror + bytes \<times> nat" where
  "set_field_packet now gmtoff chr =
     build_sized SET_FIELD_PACKET_MAX_LENGTH
       ([writer_u16 0x007D, writer_u32 0, writer_u8 1, writer_u8 1, writer_u16 0,
         writer_u32 0, writer_u32 0, writer_u32 0, writer_i64 (- 1), writer_u8 0] @
        writer_char_stats (character_to_character_stats chr) @
        [writer_u8 20, writer_u8 0, writer_i32 (chr_mesos chr),
         writer_u8 (eqi_slotCount (equipmentInventory chr))] @
        concat (map (\<lambda>i. [with_elem (chr_inventory chr) i (\<lambda>ivt. writer_u8 (inv_slotCount ivt))]) [0..<3]) @
        [writer_u8 252, writer_u64 ZERO_TIME] @
        concat (map (\<lambda>i. [with_elem (equippedEquipment chr) i (\<lambda>e. run_ops
          (if ee_isEmpty e then []
           else [field_equip (of_nat (equip_slot_from_compact (of_nat i)))
             (writer_i16 (uint (flags (eq_item (ee_equip e))))) (ee_equip e)]))]) [0..<EQUIP_SLOT_COUNT]) @
        [writer_u16 0, writer_u16 0] @
        concat (map (\<lambda>i. [with_elem (eqi_items (equipmentInventory chr)) i (\<lambda>e. run_ops
          (if ee_isEmpty e then []
           else [field_equip (of_nat (i + 1))
             (writer_u16 (ucast (flags (eq_item (ee_equip e))))) (ee_equip e)]))])
          [0..<unat (eqi_slotCount (equipmentInventory chr))]) @
        [writer_u32 0] @
        [with_elem (chr_inventory chr) 0 (\<lambda>ivt. run_ops (field_inventory True ivt)), writer_u8 0,
         with_elem (chr_inventory chr) 1 (\<lambda>ivt. run_ops (field_inventory False ivt)), writer_u8 0,
         with_elem (chr_inventory chr) 2 (\<lambda>ivt. run_ops (field_inventory False ivt)), writer_u8 0, writer_u8 0,
         writer_u16 (of_nat (hash_set_u32_size (skills chr))), foreach_op add_skills (skills chr), writer_u16 0,
         writer_i16 (int (hash_set_u16_size (quests chr) + hash_set_u16_size (questInfos chr))),
         foreach_op add_quests (quests chr), foreach_op add_quest_infos (questInfos chr),
         writer_i16 (int (hash_set_u16_size (completedQuests chr))),
         foreach_op (add_completed_quests gmtoff) (completedQuests chr),
         writer_u16 0, writer_u16 0, writer_u16 0, writer_u16 0] @
        replicate 5 (writer_u32 999999999) @ replicate 10 (writer_u32 999999999) @
        [writer_u32 0, writer_u8 0, writer_u16 (of_nat (hash_set_u32_size (monsterBook chr))),
         foreach_op add_monster_book_entries (monsterBook chr),
         writer_u16 0, writer_u16 0, writer_u16 0,
         writer_u64 (file_time (fst now) (snd now) (gmtoff (fst now)))])"

definition change_map_packet ::
  "int \<times> int \<Rightarrow> (int \<Rightarrow> int) \<Rightarrow> character \<Rightarrow> u32 \<Rightarrow> u8 \<Rightarrow> bytes \<Rightarrow> werror + bytes" where
  "change_map_packet now gmtoff chr to portal =
     build_fixed CHANGE_MAP_PACKET_LENGTH
       [writer_u16 0x007D, writer_u32 0, writer_u32 0, writer_u8 0, writer_u32 to, writer_u8 portal,
        writer_u16 (word_of_int (chr_hp chr)), writer_bool False,
        writer_u64 (file_time (fst now) (snd now) (gmtoff (fst now)))]"

definition add_player_to_map_packet :: "character \<Rightarrow> bytes \<Rightarrow> werror + bytes \<times> nat" where
  "add_player_to_map_packet chr =
     build_sized ADD_PLAYER_TO_MAP_PACKET_MAX_LENGTH
       ([writer_u16 0x00A0, writer_u32 (chr_id chr), writer_u8 (chr_level chr),
         writer_sized_string (ucast (chr_nameLength chr)) (chr_name chr), writer_zero 8,
         writer_u32 0, writer_u16 0, writer_u8 0xFC, writer_u8 1, writer_u32 0, writer_u32 0, writer_u32 0,
         writer_u32 0, writer_u16 0, writer_u32 0,
         writer_u32 0, writer_zero 11, writer_u16 0,
         writer_zero 9, writer_u32 0, writer_u16 0, writer_u8 0,
         writer_u64 0,
         writer_u32 0, writer_zero 8, writer_u32 0, writer_u8 0, writer_u32 0, writer_u16 0, writer_zero 9,
         writer_u32 0, writer_u32 0, writer_zero 9, writer_u32 0, writer_u32 0,
         writer_u16 (of_nat (chr_job chr))] @
        writer_char_appearance (character_to_character_appearance chr) False @
        [writer_u32 0, writer_u32 0, writer_u32 (chr_chair chr), writer_i16 (chr_x chr), writer_i16 (chr_y chr),
         writer_u8 (chr_stance chr), writer_i16 (uint (chr_fh chr)), writer_u8 0, writer_u8 0,
         writer_u32 1, writer_u32 0, writer_u32 0,
         writer_u8 0, writer_u8 0, writer_u8 0, writer_u8 0, writer_u8 0, writer_u8 0,
         writer_u16 0, writer_u8 0])"

definition update_char_look_packet :: "character \<Rightarrow> bytes \<Rightarrow> werror + bytes \<times> nat" where
  "update_char_look_packet chr =
     build_sized UPDATE_CHAR_LOOK_MAX_LENGTH
       ([writer_u16 0x00C5, writer_u32 (chr_id chr), writer_u8 1] @
        writer_char_appearance (character_to_character_appearance chr) False @
        [writer_u8 0, writer_u8 0, writer_u8 0, writer_u32 0])"

definition keymap_packet :: "key_map_entry list \<Rightarrow> bytes \<Rightarrow> werror + bytes" where
  "keymap_packet keymap =
     build_fixed KEYMAP_PACKET_LENGTH
       ([writer_u16 0x014F, writer_u8 0] @
        concat (map (\<lambda>i. [with_elem keymap i (\<lambda>k. run_ops [writer_u8 (km_type k), writer_u32 (km_action k)])])
          [0..<KEYMAP_MAX_KEYS]))"

subsection \<open>Inventories\<close>

datatype inventory_modify_type =
    INVENTORY_MODIFY_TYPE_ADD | INVENTORY_MODIFY_TYPE_MODIFY | INVENTORY_MODIFY_TYPE_MOVE
  | INVENTORY_MODIFY_TYPE_REMOVE

text \<open>The members of the union of \<open>struct InventoryModify\<close> are separate fields.\<close>

record inventory_modify =
  im_mode :: inventory_modify_type
  im_inventory :: u8
  im_slot :: int
  im_item :: inventory_item
  im_equip :: equipment
  im_quantity :: int
  im_dst :: int

fun modify_mode :: "inventory_modify_type \<Rightarrow> u8" where
  "modify_mode INVENTORY_MODIFY_TYPE_ADD = 0"
| "modify_mode INVENTORY_MODIFY_TYPE_MODIFY = 1"
| "modify_mode INVENTORY_MODIFY_TYPE_MOVE = 2"
| "modify_mode INVENTORY_MODIFY_TYPE_REMOVE = 3"

definition assert_op :: "bool \<Rightarrow> wop" where
  "assert_op b w = (if b then Inr w else Inl AssertionFailed)"

definition packet_item :: "inventory_item \<Rightarrow> wop list" where
  "packet_item it =
     [writer_u8 2, writer_u32 (itemId (ii_item it)), writer_bool False, writer_u64 DEFAULT_TIME,
      writer_u16 (word_of_int (quantity it)),
      writer_sized_string (ucast (ownerLength (ii_item it))) (owner (ii_item it)),
      writer_u16 (ucast (flags (ii_item it)))] @
     recharge_ops (itemId (ii_item it))"

definition modify_add_equip :: "equipment \<Rightarrow> wop list" where
  "modify_add_equip e =
     [writer_u8 1, writer_u32 (itemId (eq_item e)), writer_bool (eq_cash e), writer_u64 DEFAULT_TIME,
      writer_u8 (word_of_int (eq_slots e)), writer_u8 (word_of_int (eq_level e))] @
     equip_stats e @
     [writer_sized_string (ucast (ownerLength (eq_item e))) (owner (eq_item e)),
      writer_u16 (ucast (flags (eq_item e)))] @
     (if eq_cash e then [writer_array 10 (replicate 10 0x40)]
      else [writer_u8 0, writer_u8 1, writer_u32 0, writer_u32 0, writer_u64 0]) @
     [writer_u64 ZERO_TIME, writer_i32 (- 1)]"

definition modify_item :: "inventory_modify \<Rightarrow> wop" where
  "modify_item m =
     run_ops
       ([writer_u8 (modify_mode (im_mode m)), writer_u8 (im_inventory m), writer_i16 (im_slot m)] @
        (case im_mode m of
           INVENTORY_MODIFY_TYPE_ADD \<Rightarrow>
             (if im_inventory m \<noteq> 1 then packet_item (im_item m) else modify_add_equip (im_equip m))
         | INVENTORY_MODIFY_TYPE_MODIFY \<Rightarrow> [assert_op (im_inventory m \<noteq> 1), writer_i16 (im_quantity m)]
         | INVENTORY_MODIFY_TYPE_MOVE \<Rightarrow>
             [writer_i16 (im_dst m)] @
             (if im_slot m < 0 \<or> im_dst m < 0 then [writer_u8 (if im_slot m < 0 then 1 else 2)] else [])
         | INVENTORY_MODIFY_TYPE_REMOVE \<Rightarrow> (if im_slot m < 0 then [writer_u8 2] else [])))"

definition modify_items_packet :: "u8 \<Rightarrow> inventory_modify list \<Rightarrow> bytes \<Rightarrow> werror + bytes \<times> nat" where
  "modify_items_packet mod_count mods =
     build_sized MODIFY_ITEMS_PACKET_MAX_LENGTH
       ([writer_u16 0x001D, writer_bool True, writer_u8 mod_count] @
        concat (map (\<lambda>i. [with_elem mods i modify_item]) [0..<unat mod_count]))"

definition storage_entry :: "stored_item \<Rightarrow> wop" where
  "storage_entry s =
     (case s of
        Stored_equip e \<Rightarrow> run_ops
          ([writer_u8 1, writer_u32 (itemId (eq_item e)), writer_bool False, writer_u64 DEFAULT_TIME,
            writer_u8 (word_of_int (eq_slots e)), writer_u8 0] @
           equip_stats e @
           [writer_sized_string (ucast (ownerLength (eq_item e))) (owner (eq_item e)),
            writer_u16 (ucast (flags (eq_item e))),
            writer_u8 0, writer_u8 1, writer_i32 0, writer_u32 0, writer_u64 0, writer_u64 ZERO_TIME,
            writer_i32 (- 1)])
      | Stored_item it \<Rightarrow> run_ops (packet_item it))"

definition open_storage_packet :: "storage \<Rightarrow> u32 \<Rightarrow> bytes \<Rightarrow> werror + bytes \<times> nat" where
  "open_storage_packet sto npc =
     build_sized OPEN_STORAGE_PACKET_MAX_LENGTH
       ([writer_u16 0x0135, writer_u8 0x16, writer_u32 npc, writer_u8 (sto_slots sto), writer_u32 0x7E,
         writer_u32 0, writer_i32 (sto_mesos sto), writer_u16 0, writer_u8 (sto_count sto)] @
        concat (map (\<lambda>i. [with_elem (sto_storage sto) i storage_entry]) [0..<unat (sto_count sto)]) @
        [writer_u16 0, writer_u8 0])"

subsection \<open>Lengths of the parts\<close>

definition name_ok :: "u8 \<Rightarrow> bytes \<Rightarrow> bool" where
  "name_ok n name \<longleftrightarrow> unat n \<le> CHARACTER_MAX_NAME_LENGTH \<and> unat n \<le> length name"

definition worn :: "equipment_id list \<Rightarrow> nat" where
  "worn es = length (filter (\<lambda>e. \<not> ap_isEmpty e) es)"

lemma appearance_slot_writes: "writes (appearance_slot e i) (if ap_isEmpty e then 0 else 5)"
  unfolding appearance_slot_def by (rule writes_eq, (rule writes_intro)+, simp)

lemma writer_char_appearance_writes:
  assumes "length (ap_equipments ap) = EQUIP_SLOT_COUNT"
  shows "writes (run_ops (writer_char_appearance ap mega)) (29 + 5 * worn (ap_equipments ap))"
proof -
  let ?es = "ap_equipments ap"
  let ?n = "\<lambda>i. (if ap_isEmpty (?es ! i) then 0 else 5) + (if i = EQUIP_SLOT_NON_COSMETIC_COUNT then 1 else 0 :: nat)"
  have slot: "writes (run_ops ([with_elem ?es i (\<lambda>e. appearance_slot e i)] @
      (if i = EQUIP_SLOT_NON_COSMETIC_COUNT then [writer_u8 0xFF] else []))) (?n i)" if "i \<in> set [0..<EQUIP_SLOT_COUNT]" for i
    by (rule writes_eq, (rule writes_append writes_Cons writes_Nil writes_if writes_primitives
          writes_with_elem appearance_slot_writes | use that assms in simp)+)
  have sum: "sum_list (map (\<lambda>e. if ap_isEmpty e then 0 else 5 :: nat) es) = 5 * worn es" for es
    by (induction es) (simp_all add: worn_def)
  have "sum_list (map (\<lambda>i. if i = EQUIP_SLOT_NON_COSMETIC_COUNT then 1 else 0 :: nat) [0..<EQUIP_SLOT_COUNT]) = 1"
    by (simp add: EQUIP_SLOT_NON_COSMETIC_COUNT_def EQUIP_SLOT_COUNT_def upt_rec)
  moreover have "map (\<lambda>i. if ap_isEmpty (?es ! i) then 0 else 5 :: nat) [0..<EQUIP_SLOT_COUNT] =
      map (\<lambda>e. if ap_isEmpty e then 0 else 5) ?es"
    using assms by (intro nth_equalityI) simp_all
  ultimately have total: "sum_list (map ?n [0..<EQUIP_SLOT_COUNT]) = 5 * worn ?es + 1"
    by (simp only: sum_list_addf sum)
  have weapon: "unat (equip_slot_to_compact EQUIP_SLOT_WEAPON_COSMETIC) < length ?es"
    unfolding assms EQUIP_SLOT_COUNT_def EQUIP_SLOT_WEAPON_COSMETIC_def by code_simp
  have w: "writes (if \<not> ap_isEmpty e then writer_u32 (ap_id e) else writer_u32 0) 4" for e
    by (simp add: writes_primitives)
  show ?thesis
    unfolding writer_char_appearance_def
    by (rule writes_eq, (rule writes_append writes_Cons writes_Nil writes_primitives writes_for slot
          writes_with_elem [OF weapon] w | assumption)+) (simp add: total)
qed

lemma name_padding: "n \<le> 12 \<Longrightarrow> nat ((13 - int n) mod 2 ^ 64) = 13 - n"
  by (simp add: nat_diff_distrib)

lemma writer_char_stats_writes:
  assumes "name_ok (ap_nameLength (appearance (st_info chr))) (ap_name (appearance (st_info chr)))"
  shows "writes (run_ops (writer_char_stats chr)) 93"
proof -
  let ?n = "unat (ap_nameLength (appearance (st_info chr)))"
  have n: "?n \<le> 12" "?n \<le> length (ap_name (appearance (st_info chr)))"
    using assms by (simp_all add: name_ok_def CHARACTER_MAX_NAME_LENGTH_def)
  show ?thesis
    unfolding writer_char_stats_def Let_def name_padding [OF n(1)]
    by (rule writes_eq, (rule writes_intro | use n in simp)+)
qed

text \<open>Owners' names are at most twelve characters long.\<close>

definition item_ok :: "item \<Rightarrow> bool" where
  "item_ok it \<longleftrightarrow> name_ok (ownerLength it) (owner it)"

lemma owner_upto:
  assumes "item_ok it"
  shows "writes_upto (writer_sized_string (ucast (ownerLength it)) (owner it)) 14"
  using assms
  by (intro upto_writes [OF writes_sized_string]) (simp_all add: item_ok_def name_ok_def CHARACTER_MAX_NAME_LENGTH_def)

lemma recharge_ops_upto: "writes_upto (run_ops (recharge_ops iid)) 8"
proof -
  have "writes (run_ops (recharge_ops iid)) (if ITEM_IS_RECHARGEABLE iid then 8 else 0)"
    unfolding recharge_ops_def by (rule writes_eq, (rule writes_intro | simp)+)
  then show ?thesis by (rule upto_writes) simp
qed

lemma equip_stats_writes: "writes (run_ops (equip_stats e)) 30"
  unfolding equip_stats_def by (rule writes_eq, (rule writes_intro)+, simp)

text \<open>Bounds of primitive calls, and of the parts above.\<close>

named_theorems upto_intro \<open>upper bounds of writer calls\<close>

lemmas upto_primitives [upto_intro] =
  writes_primitives [THEN upto_writes, OF order_refl] upto_Nil upto_Cons upto_append
  equip_stats_writes [THEN upto_writes, OF order_refl] recharge_ops_upto

lemma packet_item_upto:
  assumes "item_ok (ii_item it)"
  shows "writes_upto (run_ops (packet_item it)) 40"
  unfolding packet_item_def
  by (rule upto_mono, (rule owner_upto [OF assms] upto_intro)+) simp

lemma array_4_10:
  "writes_upto (writer_array 10 (replicate 10 0x40)) 10"
  by (rule upto_writes [OF writes_array]) simp_all

lemma modify_add_equip_upto:
  assumes "item_ok (eq_item e)"
  shows "writes_upto (run_ops (modify_add_equip e)) 92"
proof -
  have "writes_upto (run_ops (if eq_cash e then [writer_array 10 (replicate 10 0x40)]
      else [writer_u8 0, writer_u8 1, writer_u32 0, writer_u32 0, writer_u64 0])) 18"
  proof (cases "eq_cash e")
    case True
    then show ?thesis by (simp only: if_True) (rule upto_mono, (rule array_4_10 upto_intro)+, simp)
  next
    case False
    then show ?thesis by (simp only: if_False) (rule upto_mono, (rule upto_intro)+, simp)
  qed
  note tail = this
  show ?thesis
    unfolding modify_add_equip_def
    by (rule upto_mono, (rule owner_upto [OF assms] tail upto_intro)+) simp
qed

lemma assert_op_writes: "b \<Longrightarrow> writes (assert_op b) 0"
  by (rule writesI [of _ "[]"]) (auto simp: emits_def assert_op_def appended_Nil)

definition modify_ok :: "inventory_modify \<Rightarrow> bool" where
  "modify_ok m \<longleftrightarrow> item_ok (ii_item (im_item m)) \<and> item_ok (eq_item (im_equip m)) \<and>
     (im_mode m = INVENTORY_MODIFY_TYPE_MODIFY \<longrightarrow> im_inventory m \<noteq> 1)"

lemma modify_item_upto:
  assumes "modify_ok m"
  shows "writes_upto (modify_item m) 96"
proof -
  have ok: "item_ok (ii_item (im_item m))" "item_ok (eq_item (im_equip m))"
    "im_mode m = INVENTORY_MODIFY_TYPE_MODIFY \<Longrightarrow> im_inventory m \<noteq> 1"
    using assms by (auto simp: modify_ok_def)
  have tail: "writes_upto (run_ops (case im_mode m of
           INVENTORY_MODIFY_TYPE_ADD \<Rightarrow>
             (if im_inventory m \<noteq> 1 then packet_item (im_item m) else modify_add_equip (im_equip m))
         | INVENTORY_MODIFY_TYPE_MODIFY \<Rightarrow> [assert_op (im_inventory m \<noteq> 1), writer_i16 (im_quantity m)]
         | INVENTORY_MODIFY_TYPE_MOVE \<Rightarrow>
             [writer_i16 (im_dst m)] @
             (if im_slot m < 0 \<or> im_dst m < 0 then [writer_u8 (if im_slot m < 0 then 1 else 2)] else [])
         | INVENTORY_MODIFY_TYPE_REMOVE \<Rightarrow> (if im_slot m < 0 then [writer_u8 2] else []))) 92"
  proof (cases "im_mode m")
    case INVENTORY_MODIFY_TYPE_ADD
    then show ?thesis
      using packet_item_upto [OF ok(1)] modify_add_equip_upto [OF ok(2)]
      by (auto intro: upto_mono)
  next
    case INVENTORY_MODIFY_TYPE_MODIFY
    have "writes (run_ops [assert_op (im_inventory m \<noteq> 1), writer_i16 (im_quantity m)]) 2"
      by (rule writes_eq, (rule assert_op_writes writes_intro | rule ok(3) [OF INVENTORY_MODIFY_TYPE_MODIFY])+) simp
    then show ?thesis
      unfolding INVENTORY_MODIFY_TYPE_MODIFY inventory_modify_type.case by (rule upto_writes) simp
  next
    case INVENTORY_MODIFY_TYPE_MOVE
    have "writes (run_ops ([writer_i16 (im_dst m)] @
        (if im_slot m < 0 \<or> im_dst m < 0 then [writer_u8 (if im_slot m < 0 then 1 else 2)] else [])))
      (if im_slot m < 0 \<or> im_dst m < 0 then 3 else 2)"
      by (rule writes_eq, (rule writes_intro)+) simp
    then show ?thesis
      unfolding INVENTORY_MODIFY_TYPE_MOVE inventory_modify_type.case by (rule upto_writes) simp
  next
    case INVENTORY_MODIFY_TYPE_REMOVE
    have "writes (run_ops (if im_slot m < 0 then [writer_u8 2] else [])) (if im_slot m < 0 then 1 else 0)"
      by (rule writes_eq, (rule writes_intro)+) simp
    then show ?thesis
      unfolding INVENTORY_MODIFY_TYPE_REMOVE inventory_modify_type.case by (rule upto_writes) simp
  qed
  show ?thesis
    unfolding modify_item_def by (rule upto_mono, (rule tail upto_intro)+) simp
qed

lemma modify_items_fits:
  assumes "unat mod_count \<le> 106" and "unat mod_count \<le> length mods" and "\<forall>m \<in> set mods. modify_ok m"
  shows "fits MODIFY_ITEMS_PACKET_MAX_LENGTH (modify_items_packet mod_count mods)"
proof -
  have e: "writes_upto (run_ops (concat (map (\<lambda>i. [with_elem mods i modify_item]) [0..<unat mod_count]))) (unat mod_count * 96)"
    using assms(2,3) by (intro upto_each modify_item_upto) auto
  show ?thesis
    unfolding modify_items_packet_def packet_lengths
    by (rule fits_upto, (rule e upto_intro)+) (use assms(1) in simp_all)
qed

fun stored_ok :: "stored_item \<Rightarrow> bool" where
  "stored_ok (Stored_equip e) = item_ok (eq_item e)"
| "stored_ok (Stored_item it) = item_ok (ii_item it)"

lemma storage_entry_upto:
  assumes "stored_ok s"
  shows "writes_upto (storage_entry s) 92"
proof (cases s)
  case (Stored_equip e)
  with assms have "item_ok (eq_item e)" by simp
  then show ?thesis
    unfolding Stored_equip storage_entry_def stored_item.case
    by (rule_tac upto_mono, (rule_tac owner_upto upto_intro | assumption)+) simp
next
  case (Stored_item it)
  with assms packet_item_upto [of it] show ?thesis
    by (auto simp: storage_entry_def intro: upto_mono)
qed

lemma open_storage_fits:
  assumes "unat (sto_count sto) \<le> MAX_ITEM_COUNT" and "unat (sto_count sto) \<le> length (sto_storage sto)"
    and "\<forall>s \<in> set (sto_storage sto). stored_ok s"
  shows "fits OPEN_STORAGE_PACKET_MAX_LENGTH (open_storage_packet sto npc)"
proof -
  have e: "writes_upto (run_ops (concat (map (\<lambda>i. [with_elem (sto_storage sto) i storage_entry])
      [0..<unat (sto_count sto)]))) (unat (sto_count sto) * 92)"
    using assms(2,3) by (intro upto_each storage_entry_upto) auto
  show ?thesis
    unfolding open_storage_packet_def packet_lengths
    by (rule fits_upto, (rule e upto_intro)+) (use assms(1) in \<open>simp_all add: MAX_ITEM_COUNT_def\<close>)
qed

subsection \<open>Packets with characters\<close>

definition view_ok :: "character_appearance \<Rightarrow> bool" where
  "view_ok ap \<longleftrightarrow> name_ok (ap_nameLength ap) (ap_name ap) \<and> length (ap_equipments ap) = EQUIP_SLOT_COUNT"

lemma worn_le: "worn es \<le> length es"
  by (simp add: worn_def)

lemma appearance_upto:
  assumes "view_ok ap"
  shows "writes_upto (run_ops (writer_char_appearance ap mega)) 349"
  using assms worn_le [of "ap_equipments ap"]
  by (intro upto_writes [OF writer_char_appearance_writes]) (simp_all add: view_ok_def EQUIP_SLOT_COUNT_def)

lemma stats_upto: "view_ok (appearance (st_info chr)) \<Longrightarrow> writes_upto (run_ops (writer_char_stats chr)) 93"
  by (rule upto_writes [OF writer_char_stats_writes]) (simp_all add: view_ok_def)

lemma character_list_fits:
  assumes "unat char_count \<le> 6" and "unat char_count \<le> length chars"
    and "\<forall>chr \<in> set chars. view_ok (appearance (st_info chr))"
  shows "fits CHARACTER_LIST_PACKET_MAX_LENGTH (character_list_packet status char_count chars pic)"
proof -
  have c: "writes_upto (run_ops (writer_char_stats chr @ writer_char_appearance (appearance (st_info chr)) False @
      [writer_u8 0, writer_u8 0])) 444" if "chr \<in> set chars" for chr
  proof -
    from that assms(3) have ok: "view_ok (appearance (st_info chr))" by blast
    show ?thesis
      by (rule upto_mono, (rule stats_upto [OF ok] appearance_upto [OF ok] upto_intro)+) simp
  qed
  have e: "writes_upto (run_ops (concat (map (\<lambda>i. [with_elem chars i (\<lambda>chr. run_ops
          (writer_char_stats chr @ writer_char_appearance (appearance (st_info chr)) False @
           [writer_u8 0, writer_u8 0]))]) [0..<unat char_count]))) (unat char_count * 444)"
    using assms(2) by (intro upto_each c) auto
  show ?thesis
    unfolding character_list_packet_def packet_lengths
    by (rule fits_upto, (rule e upto_intro)+) (use assms(1) in simp_all)
qed

text \<open>A new character wears at most seven items.\<close>

lemma create_character_writes:
  assumes "view_ok (appearance (st_info chr))"
  shows "writes (run_ops ([writer_u16 0x000E, writer_u8 0] @ writer_char_stats chr @
        writer_char_appearance (appearance (st_info chr)) False @ [writer_u8 0, writer_u8 0]))
    (127 + 5 * worn (ap_equipments (appearance (st_info chr))))"
proof -
  have s: "writes (run_ops (writer_char_stats chr)) 93"
    and a: "writes (run_ops (writer_char_appearance (appearance (st_info chr)) False))
      (29 + 5 * worn (ap_equipments (appearance (st_info chr))))"
    using assms by (simp_all add: view_ok_def writer_char_stats_writes writer_char_appearance_writes)
  show ?thesis
    by (rule writes_eq, (rule s a writes_intro)+) simp
qed

lemma create_character_fits:
  assumes "view_ok (appearance (st_info chr))" and "worn (ap_equipments (appearance (st_info chr))) \<le> 7"
  shows "fits CREATE_CHARACTER_RESPONSE_PACKET_LENGTH (create_character_response_packet chr)"
  unfolding create_character_response_packet_def packet_lengths
  by (rule fits_build_sized [OF create_character_writes [OF assms(1)]]) (use assms(2) in simp_all)

definition character_view_ok :: "character \<Rightarrow> bool" where
  "character_view_ok chr \<longleftrightarrow> name_ok (chr_nameLength chr) (chr_name chr) \<and> length (equippedEquipment chr) = EQUIP_SLOT_COUNT"

lemma view_of_character: "character_view_ok chr \<Longrightarrow> view_ok (character_to_character_appearance chr)"
  by (simp add: character_view_ok_def view_ok_def character_to_character_appearance_def name_ok_def)

lemma view_of_stats: "character_view_ok chr \<Longrightarrow> view_ok (appearance (st_info (character_to_character_stats chr)))"
  by (simp add: character_to_character_stats_def view_of_character)

lemma add_player_to_map_fits:
  assumes "character_view_ok chr"
  shows "fits ADD_PLAYER_TO_MAP_PACKET_MAX_LENGTH (add_player_to_map_packet chr)"
proof -
  have "writes_upto (writer_sized_string (ucast (chr_nameLength chr)) (chr_name chr)) 14"
    using assms
    by (intro upto_writes [OF writes_sized_string])
      (simp_all add: character_view_ok_def name_ok_def CHARACTER_MAX_NAME_LENGTH_def)
  note name = this
  show ?thesis
    unfolding add_player_to_map_packet_def packet_lengths
    by (rule fits_upto, (rule name appearance_upto [OF view_of_character [OF assms]] upto_intro)+) simp_all
qed

lemma update_char_look_fits:
  assumes "character_view_ok chr"
  shows "fits UPDATE_CHAR_LOOK_MAX_LENGTH (update_char_look_packet chr)"
  unfolding update_char_look_packet_def packet_lengths
  by (rule fits_upto, (rule appearance_upto [OF view_of_character [OF assms]] upto_intro)+) simp_all

lemma change_map_fills: "fills CHANGE_MAP_PACKET_LENGTH (change_map_packet now gmtoff chr to portal)"
  unfolding change_map_packet_def packet_lengths by (rule fillsI, (rule writes_intro)+, simp, simp)

lemma keymap_fills:
  assumes "length keymap = KEYMAP_MAX_KEYS"
  shows "fills KEYMAP_PACKET_LENGTH (keymap_packet keymap)"
proof -
  have "writes (run_ops [writer_u8 (km_type k), writer_u32 (km_action k)]) 5" for k
    by (rule writes_eq, (rule writes_intro)+) simp
  then have "writes (run_ops (concat (map (\<lambda>i. [with_elem keymap i (\<lambda>k. run_ops [writer_u8 (km_type k), writer_u32 (km_action k)])])
      [0..<KEYMAP_MAX_KEYS]))) (sum_list (map (\<lambda>_. 5) (take KEYMAP_MAX_KEYS keymap)))"
    using assms by (intro writes_each) simp_all
  then have e: "writes (run_ops (concat (map (\<lambda>i. [with_elem keymap i (\<lambda>k. run_ops [writer_u8 (km_type k), writer_u32 (km_action k)])])
      [0..<KEYMAP_MAX_KEYS]))) 450"
    using assms by (simp add: sum_list_triv KEYMAP_MAX_KEYS_def)
  show ?thesis
    unfolding keymap_packet_def packet_lengths
    by (rule fillsI, (rule e writes_intro)+) simp_all
qed

subsection \<open>The packet a player enters the game with\<close>

lemma foreach_op_run:
  assumes "length (states hs) = length (data hs)"
  shows "foreach_op f hs = run_ops (map f (elems (states hs) (data hs)))"
proof
  fix w
  let ?g = "\<lambda>d c. (d, case c of Inl e \<Rightarrow> Inl e | Inr w \<Rightarrow> f d w)"
  have stop: "fold (\<lambda>d. case_sum Inl (f d)) xs (Inl e) = Inl e" for xs e
    by (induction xs) simp_all
  have "fold (\<lambda>d. case_sum Inl (f d)) xs (Inr w) = run_ops (map f xs) w" for xs w
    by (induction xs arbitrary: w) (auto simp: stop split: sum.splits)
  moreover have "snd (foreach_slots ?g (states hs) (data hs) (Inr w)) =
      fold (\<lambda>d c. snd (?g d c)) (elems (states hs) (data hs)) (Inr w)"
    using foreach_slots_elems [OF assms, where key = id and f = ?g and c = "Inr w"] by simp
  ultimately show "foreach_op f hs w = run_ops (map f (elems (states hs) (data hs))) w"
    by (simp add: foreach_op_def hash_set_foreach_keep_def case_prod_unfold)
qed

abbreviation set_elems :: "'d hash_set \<Rightarrow> 'd list" where
  "set_elems hs \<equiv> elems (states hs) (data hs)"

lemma foreach_op_upto:
  assumes "length (states hs) = length (data hs)" and "\<And>d. d \<in> set (set_elems hs) \<Longrightarrow> writes_upto (f d) b"
  shows "writes_upto (foreach_op f hs) (length (set_elems hs) * b)"
  unfolding foreach_op_run [OF assms(1)] using upto_list [of "map f (set_elems hs)" b] assms(2) by auto

lemma length_format_03d: "3 \<le> length (format_03d v)"
  by (simp add: format_03d_def Let_def)

lemma progress_length: "length (concat (map (\<lambda>v. take 3 (format_03d v)) vs)) = 3 * length vs"
  by (induction vs) (simp_all add: min_absorb2 length_format_03d)

definition quest_ok :: "quest \<Rightarrow> bool" where
  "quest_ok q \<longleftrightarrow> unat (q_progressCount q) \<le> 4 \<and> unat (q_progressCount q) \<le> length (q_progress q)"

lemma add_quests_upto:
  assumes "quest_ok q"
  shows "writes_upto (add_quests q) 16"
proof -
  let ?n = "unat (q_progressCount q)"
  have n: "?n \<le> 4" "?n \<le> length (q_progress q)" using assms by (simp_all add: quest_ok_def)
  then have "\<exists>str. quest_get_progress_string q (replicate 15 0) = Inr (str, 3 * ?n) \<and> length str = 15"
    by (auto simp: quest_get_progress_string_def Let_def progress_length min_def)
  then obtain str where str: "quest_get_progress_string q (replicate 15 0) = Inr (str, 3 * ?n)" "length str = 15"
    by blast
  have len: "unat (3 * ucast (q_progressCount q) :: u16) = 3 * ?n"
    using n(1) by (simp add: unat_word_ariths)
  have "writes_upto (writer_sized_string (3 * ucast (q_progressCount q)) str) 14"
    using n(1) str(2) by (intro upto_writes [OF writes_sized_string]) (simp_all add: len)
  then have s: "writes_upto (\<lambda>w. case quest_get_progress_string q (replicate 15 0) of
      Inl e \<Rightarrow> Inl e | Inr (str, _) \<Rightarrow> writer_sized_string (3 * ucast (q_progressCount q)) str w) 14"
    by (simp add: str(1))
  show ?thesis
    unfolding add_quests_def by (rule upto_mono, (rule s upto_intro)+) simp
qed

lemma add_quest_infos_upto:
  assumes "unat (qi_length i) \<le> 12" and "unat (qi_length i) \<le> length (qi_value i)"
  shows "writes_upto (add_quest_infos i) 16"
proof -
  have s: "writes_upto (writer_sized_string (ucast (qi_length i)) (qi_value i)) 14"
    using assms by (intro upto_writes [OF writes_sized_string]) simp_all
  show ?thesis
    unfolding add_quest_infos_def by (rule upto_mono, (rule s upto_intro)+) simp
qed

lemma foreach_bodies_upto:
  "writes_upto (add_skills s) 16" "writes_upto (add_completed_quests gmtoff q) 10"
  "writes_upto (add_monster_book_entries e) 3"
  unfolding add_skills_def add_completed_quests_def add_monster_book_entries_def
  by (rule upto_mono, (rule upto_intro)+, simp)+

lemma field_equip_upto:
  assumes "item_ok (eq_item e)" and "writes_upto put_flags 2"
  shows "writes_upto (field_equip slot put_flags e) 94"
  unfolding field_equip_def
  by (rule upto_mono, (rule owner_upto [OF assms(1)] assms(2) upto_intro)+) simp

lemma field_inventory_upto:
  assumes "unat (inv_slotCount ivt) \<le> length (inv_items ivt)"
    and "\<forall>e \<in> set (inv_items ivt). \<not> ie_isEmpty e \<longrightarrow> item_ok (ii_item (ie_item e))"
  shows "writes_upto (run_ops (field_inventory use ivt)) (unat (inv_slotCount ivt) * (if use then 41 else 33))"
  unfolding field_inventory_def
proof (rule upto_each [OF assms(1)])
  fix i
  assume i: "i < unat (inv_slotCount ivt)"
  let ?e = "inv_items ivt ! i"
  let ?tail = "if use then recharge_ops (itemId (ii_item (ie_item ?e))) else []"
  have tail: "writes_upto (run_ops ?tail) (if use then 8 else 0)"
    by (simp add: recharge_ops_upto upto_Nil del: run_ops.simps)
  show "writes_upto (run_ops (if ie_isEmpty ?e then []
      else field_item (of_nat i + 1) (ie_item ?e) @ ?tail)) (if use then 41 else 33)"
  proof (cases "ie_isEmpty ?e")
    case False
    with i assms have ok: "item_ok (ii_item (ie_item ?e))" by simp
    have "writes_upto (run_ops (field_item (of_nat i + 1) (ie_item ?e) @ ?tail)) (33 + (if use then 8 else 0))"
      unfolding field_item_def
      by (rule upto_mono, rule upto_append [OF _ tail], (rule owner_upto [OF ok] upto_intro)+) simp
    with False show ?thesis by (auto intro: upto_mono)
  qed (auto simp: upto_mono [OF upto_Nil] simp del: run_ops.simps)
qed

definition inventory_ok :: "inventory \<Rightarrow> bool" where
  "inventory_ok ivt \<longleftrightarrow> unat (inv_slotCount ivt) \<le> MAX_ITEM_COUNT \<and>
     unat (inv_slotCount ivt) \<le> length (inv_items ivt) \<and>
     (\<forall>e \<in> set (inv_items ivt). \<not> ie_isEmpty e \<longrightarrow> item_ok (ii_item (ie_item e)))"

definition equips_ok :: "equip_entry list \<Rightarrow> bool" where
  "equips_ok es \<longleftrightarrow> (\<forall>e \<in> set es. \<not> ee_isEmpty e \<longrightarrow> item_ok (eq_item (ee_equip e)))"

definition sets_ok :: "character \<Rightarrow> bool" where
  "sets_ok chr \<longleftrightarrow>
     length (states (skills chr)) = length (data (skills chr)) \<and>
     length (states (quests chr)) = length (data (quests chr)) \<and>
     length (states (questInfos chr)) = length (data (questInfos chr)) \<and>
     length (states (completedQuests chr)) = length (data (completedQuests chr)) \<and>
     length (states (monsterBook chr)) = length (data (monsterBook chr)) \<and>
     (\<forall>q \<in> set (set_elems (quests chr)). quest_ok q) \<and>
     (\<forall>i \<in> set (set_elems (questInfos chr)). unat (qi_length i) \<le> 12 \<and> unat (qi_length i) \<le> length (qi_value i))"

definition character_ok :: "character \<Rightarrow> bool" where
  "character_ok chr \<longleftrightarrow> character_view_ok chr \<and> equips_ok (equippedEquipment chr) \<and>
     unat (eqi_slotCount (equipmentInventory chr)) \<le> MAX_ITEM_COUNT \<and>
     unat (eqi_slotCount (equipmentInventory chr)) \<le> length (eqi_items (equipmentInventory chr)) \<and>
     equips_ok (eqi_items (equipmentInventory chr)) \<and>
     length (chr_inventory chr) = 4 \<and> (\<forall>ivt \<in> set (chr_inventory chr). inventory_ok ivt) \<and> sets_ok chr"

lemma equip_loop_upto:
  assumes "n \<le> length es" and "equips_ok es" and "\<And>i e. writes_upto (put i e) 2"
  shows "writes_upto (run_ops (concat (map (\<lambda>i. [with_elem es i (\<lambda>e. run_ops
      (if ee_isEmpty e then [] else [field_equip (slot i) (put i e) (ee_equip e)]))]) [0..<n]))) (n * 94)"
proof (rule upto_each [OF assms(1)])
  fix i
  assume i: "i < n"
  show "writes_upto (run_ops (if ee_isEmpty (es ! i) then []
      else [field_equip (slot i) (put i (es ! i)) (ee_equip (es ! i))])) 94"
  proof (cases "ee_isEmpty (es ! i)")
    case False
    with i assms(1,2) have "item_ok (eq_item (ee_equip (es ! i)))" by (simp add: equips_ok_def)
    from upto_Cons [OF field_equip_upto [OF this assms(3)] upto_Nil] False show ?thesis by simp
  qed (simp add: upto_mono [OF upto_Nil] del: run_ops.simps)
qed

lemma slot_counts_upto:
  assumes "length (chr_inventory chr) = 4"
  shows "writes_upto (run_ops (concat (map (\<lambda>i. [with_elem (chr_inventory chr) i (\<lambda>ivt. writer_u8 (inv_slotCount ivt))]) [0..<3]))) (3 * 1)"
  by (rule upto_each) (simp_all add: assms writes_primitives [THEN upto_writes] del: One_nat_def)

lemma inventory_upto:
  assumes "character_ok chr" and "k < 4"
  shows "writes_upto (with_elem (chr_inventory chr) k (\<lambda>ivt. run_ops (field_inventory use ivt))) (if use then 10332 else 8316)"
proof (rule upto_with_elem)
  show "k < length (chr_inventory chr)" using assms by (simp add: character_ok_def)
  then have ok: "inventory_ok (chr_inventory chr ! k)" using assms(1) by (simp add: character_ok_def)
  then have "unat (inv_slotCount (chr_inventory chr ! k)) \<le> 252" by (simp add: inventory_ok_def MAX_ITEM_COUNT_def)
  with ok show "writes_upto (run_ops (field_inventory use (chr_inventory chr ! k))) (if use then 10332 else 8316)"
    by (intro upto_mono [OF field_inventory_upto]) (auto simp: inventory_ok_def)
qed

lemma set_field_fits:
  assumes ok: "character_ok chr"
    and few: "16 * length (set_elems (skills chr)) + 16 * length (set_elems (quests chr)) +
      16 * length (set_elems (questInfos chr)) + 10 * length (set_elems (completedQuests chr)) +
      3 * length (set_elems (monsterBook chr)) \<le> 8000"
  shows "fits SET_FIELD_PACKET_MAX_LENGTH (set_field_packet now gmtoff chr)"
proof -
  have sets: "sets_ok chr" and view: "character_view_ok chr"
    and slots: "unat (eqi_slotCount (equipmentInventory chr)) \<le> 252"
    using ok by (simp_all add: character_ok_def MAX_ITEM_COUNT_def)
  have loops:
    "writes_upto (foreach_op add_skills (skills chr)) (length (set_elems (skills chr)) * 16)"
    "writes_upto (foreach_op add_quests (quests chr)) (length (set_elems (quests chr)) * 16)"
    "writes_upto (foreach_op add_quest_infos (questInfos chr)) (length (set_elems (questInfos chr)) * 16)"
    "writes_upto (foreach_op (add_completed_quests gmtoff) (completedQuests chr)) (length (set_elems (completedQuests chr)) * 10)"
    "writes_upto (foreach_op add_monster_book_entries (monsterBook chr)) (length (set_elems (monsterBook chr)) * 3)"
    using sets foreach_bodies_upto add_quests_upto add_quest_infos_upto
    by (auto intro!: foreach_op_upto simp: sets_ok_def)
  have equipped: "writes_upto (run_ops (concat (map (\<lambda>i. [with_elem (equippedEquipment chr) i (\<lambda>e. run_ops
      (if ee_isEmpty e then [] else [field_equip (of_nat (equip_slot_from_compact (of_nat i)))
        (writer_i16 (uint (flags (eq_item (ee_equip e))))) (ee_equip e)]))]) [0..<EQUIP_SLOT_COUNT]))) (EQUIP_SLOT_COUNT * 94)"
    using ok by (intro equip_loop_upto) (simp_all add: character_ok_def character_view_ok_def writes_primitives [THEN upto_writes])
  have bag: "writes_upto (run_ops (concat (map (\<lambda>i. [with_elem (eqi_items (equipmentInventory chr)) i (\<lambda>e. run_ops
      (if ee_isEmpty e then [] else [field_equip (of_nat (i + 1))
        (writer_u16 (ucast (flags (eq_item (ee_equip e))))) (ee_equip e)]))])
      [0..<unat (eqi_slotCount (equipmentInventory chr))]))) (unat (eqi_slotCount (equipmentInventory chr)) * 94)"
    using ok by (intro equip_loop_upto) (simp_all add: character_ok_def writes_primitives [THEN upto_writes])
  have counts: "length (chr_inventory chr) = 4" using ok by (simp add: character_ok_def)
  have rocks: "writes_upto (run_ops (replicate k (writer_u32 999999999))) (k * 4)" for k
    using upto_list [of "replicate k (writer_u32 999999999)" 4] by (simp add: writes_primitives [THEN upto_writes])
  have inventories:
    "writes_upto (with_elem (chr_inventory chr) 0 (\<lambda>ivt. run_ops (field_inventory True ivt))) 10332"
    "writes_upto (with_elem (chr_inventory chr) 1 (\<lambda>ivt. run_ops (field_inventory False ivt))) 8316"
    "writes_upto (with_elem (chr_inventory chr) 2 (\<lambda>ivt. run_ops (field_inventory False ivt))) 8316"
    using inventory_upto [OF ok, of 0 True] inventory_upto [OF ok, of 1 False] inventory_upto [OF ok, of 2 False]
    by simp_all
  show ?thesis
    unfolding set_field_packet_def packet_lengths
    by (rule fits_upto, (rule loops equipped bag slot_counts_upto [OF counts] rocks inventories
          stats_upto [OF view_of_stats [OF view]] upto_intro)+)
      (use few slots in \<open>simp_all add: EQUIP_SLOT_COUNT_def\<close>)
qed

subsection \<open>Properties\<close>

text \<open>
  The packets that show characters fit: a list of up to six characters, a player appearing
  on a map and a changed look, whatever is worn in the 64 slots, and the answer to the
  creation of a character with at most seven worn items, all succeed in arrays of the declared
  lengths.
\<close>

theorem character_packets_fit:
  assumes "character_view_ok chr" and "unat char_count \<le> 6" and "unat char_count \<le> length chars"
    and "\<forall>st \<in> set chars. view_ok (appearance (st_info st))"
    and "view_ok (appearance (st_info created))" and "worn (ap_equipments (appearance (st_info created))) \<le> 7"
  shows "fits CHARACTER_LIST_PACKET_MAX_LENGTH (character_list_packet status char_count chars pic) \<and>
    fits CREATE_CHARACTER_RESPONSE_PACKET_LENGTH (create_character_response_packet created) \<and>
    fits ADD_PLAYER_TO_MAP_PACKET_MAX_LENGTH (add_player_to_map_packet chr) \<and>
    fits UPDATE_CHAR_LOOK_MAX_LENGTH (update_char_look_packet chr)"
  using assms by (intro conjI character_list_fits create_character_fits add_player_to_map_fits update_char_look_fits)

lemma beginner_view: "character_view_ok beginner" "worn (ap_equipments (character_to_character_appearance beginner)) = 0"
  by (simp_all add: character_view_ok_def name_ok_def beginner_def CHARACTER_MAX_NAME_LENGTH_def EQUIP_SLOT_COUNT_def
      worn_def character_to_character_appearance_def no_equip_def)

theorem character_packets_fit_witness:
  "fits ADD_PLAYER_TO_MAP_PACKET_MAX_LENGTH (add_player_to_map_packet beginner) \<and>
   fits CHARACTER_LIST_PACKET_MAX_LENGTH (character_list_packet 0 1 [character_to_character_stats beginner] 1)"
proof -
  have "view_ok (appearance (st_info (character_to_character_stats beginner)))"
    by (rule view_of_stats [OF beginner_view(1)])
  moreover have "worn (ap_equipments (appearance (st_info (character_to_character_stats beginner)))) \<le> 7"
    by (simp add: character_to_character_stats_def beginner_view(2))
  ultimately show ?thesis
    using character_packets_fit [of beginner 1 "[character_to_character_stats beginner]" "character_to_character_stats beginner" 0 1]
    by (simp add: beginner_view(1))
qed

text \<open>
  C38: The packet with which a player enters the game fits in its 65535 bytes for every well-formed
  character, with all slots of all inventories in use, as long as the skills, quests and
  monster cards together stay below 8000 bytes.
\<close>

theorem set_field_packet_fits:
  assumes "character_ok chr"
    and "16 * length (set_elems (skills chr)) + 16 * length (set_elems (quests chr)) +
      16 * length (set_elems (questInfos chr)) + 10 * length (set_elems (completedQuests chr)) +
      3 * length (set_elems (monsterBook chr)) \<le> 8000"
  shows "fits SET_FIELD_PACKET_MAX_LENGTH (set_field_packet now gmtoff chr)"
  using assms by (rule set_field_fits)

theorem set_field_packet_fits_witness:
  "fits SET_FIELD_PACKET_MAX_LENGTH (set_field_packet (1700000000, 250000) (\<lambda>_. 3600) beginner)"
proof (rule set_field_packet_fits)
  show "character_ok beginner"
    using beginner_view(1)
    by (simp add: character_ok_def beginner_def equips_ok_def no_equip_def sets_ok_def inventory_ok_def)
qed (simp add: beginner_def)

text \<open>
  The inventory packets fit: up to 106 modifications of any kind (only a change of quantity
  of equipment is excluded, which is asserted against) and a storage of up to 252 items and
  pieces of equipment succeed in arrays of the declared lengths.
\<close>

theorem inventory_packets_fit:
  assumes "unat mod_count \<le> 106" and "unat mod_count \<le> length mods" and "\<forall>m \<in> set mods. modify_ok m"
    and "unat (sto_count sto) \<le> MAX_ITEM_COUNT" and "unat (sto_count sto) \<le> length (sto_storage sto)"
    and "\<forall>s \<in> set (sto_storage sto). stored_ok s"
  shows "fits MODIFY_ITEMS_PACKET_MAX_LENGTH (modify_items_packet mod_count mods) \<and>
    fits OPEN_STORAGE_PACKET_MAX_LENGTH (open_storage_packet sto npc)"
  using assms by (intro conjI modify_items_fits open_storage_fits)

theorem inventory_packets_fit_witness:
  "fits MODIFY_ITEMS_PACKET_MAX_LENGTH (modify_items_packet 0 []) \<and>
   fits OPEN_STORAGE_PACKET_MAX_LENGTH (open_storage_packet
     \<lparr>sto_id = 1, sto_slots = 4, sto_count = 1, sto_mesos = 10, sto_storage = [Stored_equip (ee_equip no_equip)]\<rparr> 7)"
proof (rule inventory_packets_fit)
  have "stored_ok (Stored_equip (ee_equip no_equip))"
    by (simp add: no_equip_def equipment_from_info_def item_ok_def name_ok_def)
  then show "\<forall>s \<in> set (sto_storage \<lparr>sto_id = 1, sto_slots = 4, sto_count = 1, sto_mesos = 10,
      sto_storage = [Stored_equip (ee_equip no_equip)]\<rparr>). stored_ok s"
    by simp
qed (simp_all add: MAX_ITEM_COUNT_def)

text \<open>
  A quest with five progress counters overruns the local array of \<open>add_quests\<close>: its text
  has 15 characters and a terminating zero, the array 15.
\<close>

theorem five_counters_overrun:
  assumes "q_progressCount q = 5" and "length (q_progress q) = 5" and "wpos w + 2 \<le> wsize w"
    and "wpos w + 2 \<le> length (packet w)"
  shows "add_quests q w = Inl BufferOverrun"
  using assms progress_length [of "q_progress q"]
  by (simp add: add_quests_def quest_get_progress_string_def Let_def writer_u16_def has_room_def copy_in_def)

theorem five_counters_overrun_witness:
  "add_quests \<lparr>q_id = 1000, q_progressCount = 5, q_progress = [1, 2, 3, 4, 5]\<rparr> (writer_init 40 (replicate 40 0)) =
   Inl BufferOverrun"
  by (rule five_counters_overrun) simp_all

end
