(* ===== verification/Stat_Packet.thy ===== *)
theory Stat_Packet
  imports Packets
begin

unbundle bit_operations_syntax

text \<open>
  The stat-change packet: its mask announces which values follow. The lemmas show that the
  number of values the builder counts is the number of stats announced, that the loop writes
  one value for each of them, and that the packet never exceeds its maximum.
\<close>

subsection \<open>Counting bits\<close>

lemma clear_lowest_bit:
  fixes s :: u32
  assumes k: "bit s k" "\<forall>j < k. \<not> bit s j"
  shows "s AND (s - 1) = unset_bit k s"
proof -
  let ?P = "push_bit (Suc k) (drop_bit (Suc k) s)"
  have k32: "k < 32" using bit_imp_le_length [OF k(1)] by simp
  have P: "bit ?P n \<longleftrightarrow> k < n \<and> bit s n" for n
    by (cases "k < n") (auto simp: bit_push_bit_iff bit_drop_bit_eq dest: bit_imp_le_length simp del: push_bit_Suc)
  have low: "k \<le> n" if "bit s n" for n
    using k(2) that by (metis not_le)
  have s: "s = ?P + 2 ^ k"
  proof -
    have "?P + 2 ^ k = ?P OR 2 ^ k"
      by (rule disjunctive_add) (auto simp: bit_simps simp del: push_bit_Suc)
    also have "\<dots> = s"
      by (rule bit_word_eqI) (use k low in \<open>auto simp: P bit_or_iff bit_exp_iff le_less simp del: push_bit_Suc\<close>)
    finally show ?thesis by simp
  qed
  then have "s - 1 = ?P + mask k"
    by (simp add: mask_eq_exp_minus_1)
  also have "\<dots> = ?P OR mask k"
    by (rule disjunctive_add) (auto simp: bit_simps simp del: push_bit_Suc)
  finally have s1: "s - 1 = ?P OR mask k" .
  show ?thesis
  proof (rule bit_word_eqI)
    fix n :: nat
    assume "n < LENGTH(32)"
    then show "bit (s AND (s - 1)) n = bit (unset_bit k s) n"
      unfolding s1 using k low by (auto simp: P bit_and_iff bit_or_iff bit_mask_iff bit_unset_bit_iff le_less simp del: push_bit_Suc)
  qed
qed

lemma bits_finite: "finite {n. bit (s :: u32) n}"
proof (rule finite_subset)
  show "{n. bit s n} \<subseteq> {..<32}" using bit_imp_le_length [of s] by auto
qed simp

lemma bits_unset: "{n. bit (unset_bit k s) n} = {n. bit (s :: u32) n} - {k}"
  by (auto simp: bit_unset_bit_iff)

lemma count_bits_card: "count_bits s c = c + of_nat (card {n. bit s n})"
proof (induction s c rule: count_bits.induct)
  case (1 s c)
  show ?case
  proof (cases "s = 0")
    case True
    then show ?thesis by (simp add: count_bits.simps)
  next
    case False
    then obtain n where n: "bit s n" by (auto simp: bit_eq_iff)
    define k where "k = (LEAST n. bit s n)"
    have k: "bit s k" "\<forall>j < k. \<not> bit s j"
      unfolding k_def using n by (auto intro: LeastI dest: not_less_Least)
    have "card {n. bit s n} = Suc (card ({n. bit s n} - {k}))"
      using k(1) bits_finite by (metis card.remove mem_Collect_eq)
    with 1 [OF False] show ?thesis
      using False by (simp add: count_bits.simps [of s] clear_lowest_bit [OF k] bits_unset)
  qed
qed

subsection \<open>The stats announced by a mask\<close>

definition stat_flags :: "u32 list" where
  "stat_flags = map fst STAT_TABLE"

definition announced :: "u32 \<Rightarrow> u32 list" where
  "announced stats = filter (\<lambda>flag. stats AND flag \<noteq> 0) stat_flags"

definition stat_size :: "u32 \<Rightarrow> nat" where
  "stat_size flag = (if flag \<in> {0x1, 0x10} then 1
     else if flag \<in> {0x2, 0x4, 0x10000, 0x40000, 0x180008, 0x200000} then 4 else 2)"

lemma stat_flags_list:
  "stat_flags = [0x1, 0x2, 0x4, 0x10, 0x20, 0x40, 0x80, 0x100, 0x200, 0x400, 0x800, 0x1000, 0x2000,
     0x4000, 0x8000, 0x10000, 0x20000, 0x40000, 0x180008, 0x200000]"
  by (simp add: stat_flags_def STAT_TABLE_def)

lemma stat_flags_disjoint:
  "distinct stat_flags" "\<forall>f \<in> set stat_flags. \<forall>g \<in> set stat_flags. f \<noteq> g \<longrightarrow> f AND g = 0"
  unfolding stat_flags_list by code_simp+

lemma stat_table_writes:
  "\<forall>(flag, put) \<in> set STAT_TABLE. \<forall>v. writes (put v) (stat_size flag)"
  by (simp add: STAT_TABLE_def stat_size_def writes_primitives del: One_nat_def)

lemma announced_next:
  assumes "announced stats = flag # rest"
  shows "announced (stats AND NOT flag) = rest"
proof -
  have "flag \<in> set (announced stats)" by (simp add: assms)
  then have flag: "flag \<in> set stat_flags" by (simp add: announced_def)
  have d: "distinct (flag # rest)"
    unfolding assms [symmetric] announced_def using stat_flags_disjoint(1) by (rule distinct_filter)
  have "(stats AND NOT flag) AND g \<noteq> 0 \<longleftrightarrow> stats AND g \<noteq> 0 \<and> g \<noteq> flag" if "g \<in> set stat_flags" for g
  proof (cases "g = flag")
    case False
    with stat_flags_disjoint(2) flag that have "g AND flag = 0" by blast
    then have "NOT flag AND g = g"
      by (simp add: bit_eq_iff bit_simps) metis
    then show ?thesis using False by (simp add: and.assoc)
  qed (simp add: and.assoc)
  then have "announced (stats AND NOT flag) = filter (\<lambda>g. g \<noteq> flag) (announced stats)"
    unfolding announced_def filter_filter by (auto intro: filter_cong)
  also have "\<dots> = rest"
    using d by (auto simp: assms filter_id_conv)
  finally show ?thesis .
qed

lemma find_stat:
  "case announced stats of
     [] \<Rightarrow> find (\<lambda>(flag, put). stats AND flag \<noteq> 0) STAT_TABLE = None
   | flag # _ \<Rightarrow> \<exists>put. find (\<lambda>(flag, put). stats AND flag \<noteq> 0) STAT_TABLE = Some (flag, put) \<and> (flag, put) \<in> set STAT_TABLE"
proof -
  have "case filter (\<lambda>flag. stats AND flag \<noteq> 0) (map fst xs) of
      [] \<Rightarrow> find (\<lambda>(flag, put). stats AND flag \<noteq> 0) xs = None
    | flag # _ \<Rightarrow> \<exists>put. find (\<lambda>(flag, put). stats AND flag \<noteq> 0) xs = Some (flag, put) \<and> (flag, put) \<in> set xs"
    for xs :: "(u32 \<times> (u32 \<Rightarrow> wop)) list"
    by (induction xs) (auto split: list.splits)
  then show ?thesis by (simp only: announced_def stat_flags_def)
qed

lemma stat_values_writes:
  assumes "i + length (announced stats) \<le> length vals"
  shows "writes (run_ops (stat_values n i stats vals)) (sum_list (map stat_size (take n (announced stats))))"
  using assms
proof (induction n arbitrary: i stats)
  case 0
  then show ?case by (simp add: writes_Nil del: run_ops.simps)
next
  case (Suc n)
  show ?case
  proof (cases "announced stats")
    case Nil
    with find_stat [of stats] have f: "find (\<lambda>(flag, put). stats AND flag \<noteq> 0) STAT_TABLE = None" by simp
    have "stat_values m j stats vals = []" for m j
      by (induction m arbitrary: j) (simp_all add: f)
    with Nil show ?thesis by (simp add: writes_Nil del: run_ops.simps stat_values.simps)
  next
    case (Cons flag rest)
    with find_stat [of stats] obtain put where f: "find (\<lambda>(flag, put). stats AND flag \<noteq> 0) STAT_TABLE = Some (flag, put)"
      and put: "(flag, put) \<in> set STAT_TABLE" by auto
    have "writes (with_elem vals i put) (stat_size flag)"
      using Suc.prems Cons stat_table_writes put by (intro writes_with_elem) auto
    moreover have "writes (run_ops (stat_values n (Suc i) (stats AND NOT flag) vals)) (sum_list (map stat_size (take n rest)))"
      using Suc.IH [of "Suc i" "stats AND NOT flag"] Suc.prems by (simp add: announced_next [OF Cons] Cons)
    ultimately show ?thesis
      by (simp add: f Cons writes_Cons del: run_ops.simps)
  qed
qed

subsection \<open>The count is the number of stats announced\<close>

text \<open>The positions of the flags that are one bit; the pet flag has the bits 3, 19 and 20.\<close>

definition stat_bits :: "nat list" where
  "stat_bits = [0, 1, 2, 4, 5, 6, 7, 8, 9, 10, 11, 12, 13, 14, 15, 16, 17, 18, 21]"

lemma pet_bits: "n < 22 \<Longrightarrow> bit (0x180008 :: u32) n \<longleftrightarrow> n \<notin> set stat_bits"
proof -
  have "\<forall>n \<in> set [0..<22]. bit (0x180008 :: u32) n \<longleftrightarrow> n \<notin> set stat_bits"
    unfolding stat_bits_def by code_simp
  then show "n < 22 \<Longrightarrow> ?thesis" by simp
qed

lemma length_announced:
  "length (announced stats) = card ({n. bit stats n} \<inter> set stat_bits) + (if stats AND 0x180008 \<noteq> 0 then 1 else 0)"
proof -
  have fl: "stat_flags = map (\<lambda>n. 2 ^ n) (take 18 stat_bits) @ [0x180008] @ map (\<lambda>n. 2 ^ n) (drop 18 stat_bits)"
    by (simp add: stat_flags_list stat_bits_def)
  have "length (announced stats) = length (filter (bit stats) (take 18 stat_bits)) +
      (if stats AND 0x180008 \<noteq> 0 then 1 else 0) + length (filter (bit stats) (drop 18 stat_bits))"
    unfolding announced_def fl by (simp add: filter_map o_def and_exp_eq_0_iff_not_bit)
  also have "\<dots> = length (filter (bit stats) stat_bits) + (if stats AND 0x180008 \<noteq> 0 then 1 else 0)"
  proof -
    have "filter (bit stats) stat_bits = filter (bit stats) (take 18 stat_bits) @ filter (bit stats) (drop 18 stat_bits)"
      unfolding filter_append [symmetric] append_take_drop_id ..
    then show ?thesis by simp
  qed
  also have "length (filter (bit stats) stat_bits) = card ({n. bit stats n} \<inter> set stat_bits)"
    by (rule distinct_length_filter) (simp add: stat_bits_def)
  finally show ?thesis .
qed

lemma bits_and_not: "{n. bit (s AND NOT p) n} = {n. bit (s :: u32) n \<and> \<not> bit p n}"
  by (auto simp: bit_and_iff bit_not_iff dest: bit_imp_le_length)

lemma stat_count_announced:
  assumes "\<forall>n. bit stats n \<longrightarrow> n < 22"
  shows "unat (stat_count stats) = length (announced stats)"
proof -
  have clear: "{n. bit (stats AND NOT 0x180008) n} = {n. bit stats n} \<inter> set stat_bits"
    unfolding bits_and_not using assms pet_bits by auto
  have small: "card ({n. bit stats n} \<inter> set stat_bits) \<le> 19"
    using card_mono [of "set stat_bits" "{n. bit stats n} \<inter> set stat_bits"] card_length [of stat_bits]
    by (simp add: stat_bits_def)
  show ?thesis
  proof (cases "stats AND 0x180008 = 0")
    case True
    then have "bit (stats AND 0x180008) n = False" for n by simp
    then have "{n. bit stats n} = {n. bit stats n} \<inter> set stat_bits"
      using assms pet_bits by (auto simp: bit_and_iff)
    with True small show ?thesis
      by (simp add: stat_count_def count_bits_card length_announced unat_of_nat)
  next
    case False
    then have "stat_count stats = 1 + of_nat (card ({n. bit stats n} \<inter> set stat_bits))"
      unfolding stat_count_def count_bits_card clear by simp
    with False small show ?thesis
      by (simp add: length_announced unat_word_ariths unat_of_nat)
  qed
qed

lemma announced_size: "sum_list (map stat_size (announced stats)) \<le> 50"
proof -
  have "sum_list (map stat_size (filter P xs)) \<le> sum_list (map stat_size xs)" for P xs
    by (induction xs) auto
  moreover have "sum_list (map stat_size stat_flags) = 50"
    by (simp add: stat_flags_list stat_size_def)
  ultimately show ?thesis unfolding announced_def by metis
qed

subsection \<open>Properties\<close>



end
