(* ===== verification/Controller_Heap.thy ===== *)
theory Controller_Heap
  imports Main
begin

text \<open>
  The controller heap of \<^verbatim>\<open>src/src/channel/map.c\<close>: a binary heap of the players of a map by
  the number of monsters each of them controls, so that new monsters go to the player with the
  fewest.

  The heap is an array of pointers to nodes, and every node stores its own position in the
  array, through which a leaving player's node is removed. Node addresses are natural numbers
  and \<open>h_nodes\<close> is the memory they point to; \<open>heap_push\<close> is given the address that \<open>malloc\<close>
  returned (\<open>None\<close> if it failed) and whether \<open>realloc\<close> succeeds. Entries of the array at or
  beyond \<open>h_count\<close> are stale. Reading an entry that does not exist is \<open>None\<close>.
\<close>

record heap_node =
  hn_index :: nat
  controlleeCount :: nat
  hn_controller :: nat

record controller_heap =
  h_capacity :: nat
  h_count :: nat
  h_controllers :: "nat list"
  h_nodes :: "nat \<Rightarrow> heap_node"

subsection \<open>Operations\<close>

definition heap_init :: "bool \<Rightarrow> (nat \<Rightarrow> heap_node) \<Rightarrow> controller_heap option" where
  "heap_init mem nodes =
     (if mem then Some \<lparr>h_capacity = 1, h_count = 0, h_controllers = [0], h_nodes = nodes\<rparr> else None)"

text \<open>The node at a position, and its count.\<close>

definition node_at :: "controller_heap \<Rightarrow> nat \<Rightarrow> nat" where
  "node_at h i = h_controllers h ! i"

definition count_at :: "controller_heap \<Rightarrow> nat \<Rightarrow> nat" where
  "count_at h i = controlleeCount (h_nodes h (node_at h i))"

definition set_index :: "nat \<Rightarrow> nat \<Rightarrow> controller_heap \<Rightarrow> controller_heap" where
  "set_index a i h = h\<lparr>h_nodes := (h_nodes h)(a := (h_nodes h a)\<lparr>hn_index := i\<rparr>)\<rparr>"

definition swap :: "controller_heap \<Rightarrow> nat \<Rightarrow> nat \<Rightarrow> controller_heap" where
  "swap h i j =
     (let tmp = node_at h i;
          h = h\<lparr>h_controllers := (h_controllers h)[i := node_at h j]\<rparr>;
          h = set_index (node_at h i) i h;
          h = h\<lparr>h_controllers := (h_controllers h)[j := tmp]\<rparr>
      in set_index (node_at h j) j h)"

lemma swap_simps [simp]:
  "h_count (swap h i j) = h_count h" "h_capacity (swap h i j) = h_capacity h"
  "h_controllers (swap h i j) = (h_controllers h)[i := node_at h j, j := node_at h i]"
  by (simp_all add: swap_def set_index_def Let_def)

function sift_down :: "controller_heap \<Rightarrow> nat \<Rightarrow> controller_heap" where
  "sift_down h i =
     (if i * 2 + 1 < h_count h
      then if i * 2 + 2 = h_count h
           then if count_at h i > count_at h (i * 2 + 1) then swap h i (i * 2 + 1) else h
           else if count_at h i \<le> count_at h (i * 2 + 1) \<and> count_at h i \<le> count_at h (i * 2 + 2) then h
           else if count_at h i > count_at h (i * 2 + 1) \<and> count_at h i > count_at h (i * 2 + 2)
           then if count_at h (i * 2 + 1) < count_at h (i * 2 + 2)
                then sift_down (swap h i (i * 2 + 1)) (i * 2 + 1)
                else sift_down (swap h i (i * 2 + 2)) (i * 2 + 2)
           else if count_at h i > count_at h (i * 2 + 1)
           then sift_down (swap h i (i * 2 + 1)) (i * 2 + 1)
           else sift_down (swap h i (i * 2 + 2)) (i * 2 + 2)
      else h)"
  by pat_completeness auto
termination
  by (relation "measure (\<lambda>(h, i). h_count h - i)") auto

function sift_up :: "controller_heap \<Rightarrow> nat \<Rightarrow> controller_heap" where
  "sift_up h i =
     (if i > 0
      then if count_at h ((i - 1) div 2) > count_at h i
           then sift_up (swap h ((i - 1) div 2) i) ((i - 1) div 2)
           else h
      else h)"
  by pat_completeness auto
termination
  by (relation "measure (\<lambda>(h, i). i)") auto

declare sift_down.simps [simp del] sift_up.simps [simp del]

definition heap_push :: "nat option \<Rightarrow> bool \<Rightarrow> controller_heap \<Rightarrow> nat \<Rightarrow> nat \<Rightarrow> controller_heap \<times> nat option" where
  "heap_push node mem h count controller =
     (case node of
        None \<Rightarrow> (h, None)
      | Some a \<Rightarrow>
          if h_count h = h_capacity h \<and> \<not> mem then (h, None)
          else let h = (if h_count h = h_capacity h
                        then h\<lparr>h_controllers := h_controllers h @ replicate (h_capacity h) 0,
                               h_capacity := h_capacity h * 2\<rparr>
                        else h);
                   h = h\<lparr>h_nodes := (h_nodes h)(a := \<lparr>hn_index = h_count h, controlleeCount = count, hn_controller = controller\<rparr>)\<rparr>;
                   h = h\<lparr>h_controllers := (h_controllers h)[h_count h := a]\<rparr>;
                   h = h\<lparr>h_count := h_count h + 1\<rparr>
               in (sift_up h (h_count h - 1), Some a))"

definition heap_inc :: "controller_heap \<Rightarrow> nat \<Rightarrow> controller_heap option" where
  "heap_inc h count =
     (if h_count h = 0 then None
      else let a = node_at h 0;
               h = h\<lparr>h_nodes := (h_nodes h)(a := (h_nodes h a)\<lparr>controlleeCount := controlleeCount (h_nodes h a) + count\<rparr>)\<rparr>
           in Some (sift_down h 0))"

definition heap_remove :: "controller_heap \<Rightarrow> nat \<Rightarrow> controller_heap option" where
  "heap_remove h node =
     (let i = hn_index (h_nodes h node)
      in if h_count h = 0 \<or> i \<ge> length (h_controllers h) then None
         else let h = h\<lparr>h_controllers := (h_controllers h)[i := node_at h (h_count h - 1)]\<rparr>;
                  h = set_index (node_at h i) i h;
                  h = h\<lparr>h_count := h_count h - 1\<rparr>
              in if i = 0 \<or> count_at h ((i - 1) div 2) < count_at h i
                 then Some (sift_down h i) else Some (sift_up h i))"

definition heap_top :: "controller_heap \<Rightarrow> nat option" where
  "heap_top h = (if h_count h = 0 then None else Some (node_at h 0))"

subsection \<open>Positions\<close>

text \<open>\<open>indexed h\<close>: the array is large enough and every node knows its position.\<close>

definition indexed :: "controller_heap \<Rightarrow> bool" where
  "indexed h \<longleftrightarrow> 0 < h_capacity h \<and> h_count h \<le> h_capacity h \<and> length (h_controllers h) = h_capacity h \<and>
     (\<forall>i < h_count h. hn_index (h_nodes h (node_at h i)) = i)"

definition members :: "controller_heap \<Rightarrow> nat set" where
  "members h = node_at h ` {..<h_count h}"

text \<open>Rearranged: the same nodes with the same counts and controllers.\<close>

definition rearranged :: "controller_heap \<Rightarrow> controller_heap \<Rightarrow> bool" where
  "rearranged h h' \<longleftrightarrow> h_count h' = h_count h \<and> h_capacity h' = h_capacity h \<and> members h' = members h \<and>
     (\<forall>a. controlleeCount (h_nodes h' a) = controlleeCount (h_nodes h a) \<and>
          hn_controller (h_nodes h' a) = hn_controller (h_nodes h a))"

lemma rearranged_refl: "rearranged h h"
  by (simp add: rearranged_def)

lemma rearranged_trans: "rearranged h h' \<Longrightarrow> rearranged h' h'' \<Longrightarrow> rearranged h h''"
  by (simp add: rearranged_def)

lemma indexedD:
  assumes "indexed h"
  shows "h_count h \<le> length (h_controllers h)" "length (h_controllers h) = h_capacity h"
    "\<And>i. i < h_count h \<Longrightarrow> hn_index (h_nodes h (node_at h i)) = i"
  using assms by (auto simp: indexed_def)

lemma node_at_inj: "indexed h \<Longrightarrow> i < h_count h \<Longrightarrow> j < h_count h \<Longrightarrow> node_at h i = node_at h j \<Longrightarrow> i = j"
  by (metis indexedD(3))

lemma node_at_swap:
  assumes "i < length (h_controllers h)" "j < length (h_controllers h)"
  shows "node_at (swap h i j) k = node_at h (if k = i then j else if k = j then i else k)"
  using assms by (cases "i = j") (auto simp: node_at_def nth_list_update)

lemma nodes_swap:
  assumes "i < length (h_controllers h)" "j < length (h_controllers h)"
  shows "h_nodes (swap h i j) a =
    (if a = node_at h i then (h_nodes h a)\<lparr>hn_index := j\<rparr>
     else if a = node_at h j then (h_nodes h a)\<lparr>hn_index := i\<rparr> else h_nodes h a)"
  using assms by (auto simp: swap_def set_index_def Let_def node_at_def nth_list_update)

lemma count_at_swap:
  assumes "i < length (h_controllers h)" "j < length (h_controllers h)"
  shows "count_at (swap h i j) k = count_at h (if k = i then j else if k = j then i else k)"
  using assms by (simp add: count_at_def node_at_swap nodes_swap)

lemma indexed_swap:
  assumes "indexed h" "i < h_count h" "j < h_count h"
  shows "indexed (swap h i j)"
proof -
  have l: "i < length (h_controllers h)" "j < length (h_controllers h)"
    using assms indexedD(1) [OF assms(1)] by simp_all
  show ?thesis
    using assms(1) node_at_inj [OF assms(1)] assms(2,3)
    unfolding indexed_def by (auto simp: node_at_swap [OF l] nodes_swap [OF l])
qed

lemma rearranged_swap:
  assumes "indexed h" "i < h_count h" "j < h_count h"
  shows "rearranged h (swap h i j)"
proof -
  have l: "i < length (h_controllers h)" "j < length (h_controllers h)"
    using assms indexedD(1) [OF assms(1)] by simp_all
  have "members (swap h i j) = members h"
  proof
    show "members (swap h i j) \<subseteq> members h"
      using assms(2,3) by (auto simp: members_def node_at_swap [OF l])
    show "members h \<subseteq> members (swap h i j)"
    proof
      fix a
      assume "a \<in> members h"
      then obtain k where k: "k < h_count h" "a = node_at h k" by (auto simp: members_def)
      let ?k = "if k = i then j else if k = j then i else k"
      have "node_at (swap h i j) ?k = a" "?k < h_count h"
        using k assms(2,3) by (auto simp: node_at_swap [OF l])
      then show "a \<in> members (swap h i j)" by (auto simp: members_def)
    qed
  qed
  then show ?thesis by (simp add: rearranged_def nodes_swap [OF l])
qed

subsection \<open>Heap order\<close>

definition parent :: "nat \<Rightarrow> nat" where
  "parent k = (k - 1) div 2"

definition ordered :: "controller_heap \<Rightarrow> bool" where
  "ordered h \<longleftrightarrow> (\<forall>k. 0 < k \<and> k < h_count h \<longrightarrow> count_at h (parent k) \<le> count_at h k)"

lemma parent_less: "0 < k \<Longrightarrow> parent k < k"
  by (auto simp: parent_def)

lemma parent_children: "parent (2 * i + 1) = i" "parent (2 * i + 2) = i"
  by (simp_all add: parent_def)

lemma parent_eq: "0 < k \<Longrightarrow> parent k = i \<longleftrightarrow> k = 2 * i + 1 \<or> k = 2 * i + 2"
  unfolding parent_def by presburger

text \<open>Ordered except that the node at \<open>i\<close> may be too light.\<close>

definition ordered_above :: "controller_heap \<Rightarrow> nat \<Rightarrow> bool" where
  "ordered_above h i \<longleftrightarrow>
     (\<forall>k. 0 < k \<and> k < h_count h \<and> k \<noteq> i \<longrightarrow> count_at h (parent k) \<le> count_at h k) \<and>
     (\<forall>k. 0 < k \<and> k < h_count h \<and> parent k = i \<and> 0 < i \<longrightarrow> count_at h (parent i) \<le> count_at h k)"

text \<open>Ordered except that the node at \<open>i\<close> may be too heavy.\<close>

definition ordered_below :: "controller_heap \<Rightarrow> nat \<Rightarrow> bool" where
  "ordered_below h i \<longleftrightarrow>
     (\<forall>k. 0 < k \<and> k < h_count h \<and> parent k \<noteq> i \<longrightarrow> count_at h (parent k) \<le> count_at h k) \<and>
     (\<forall>k. 0 < k \<and> k < h_count h \<and> parent k = i \<and> 0 < i \<longrightarrow> count_at h (parent i) \<le> count_at h k)"

lemma ordered_above_swap:
  assumes h: "indexed h" "i < h_count h" "0 < i" "ordered_above h i" "count_at h i < count_at h (parent i)"
  shows "ordered_above (swap h (parent i) i) (parent i)"
proof -
  let ?p = "parent i"
  have p: "?p < i" using h(3) by (rule parent_less)
  have l: "?p < length (h_controllers h)" "i < length (h_controllers h)"
    using p h(2) indexedD(1) [OF h(1)] by simp_all
  note c = count_at_swap [OF l]
  have 1: "0 < k \<Longrightarrow> k < h_count h \<Longrightarrow> k \<noteq> i \<Longrightarrow> count_at h (parent k) \<le> count_at h k"
    and 2: "0 < k \<Longrightarrow> k < h_count h \<Longrightarrow> parent k = i \<Longrightarrow> count_at h ?p \<le> count_at h k" for k
    using h(3,4) by (simp_all add: ordered_above_def)
  show ?thesis
    unfolding ordered_above_def
  proof (intro conjI allI impI; elim conjE)
    fix k
    assume k: "0 < k" "k < h_count (swap h ?p i)" "k \<noteq> ?p"
    then have k': "k < h_count h" by simp
    have "parent k < k" using k(1) by (rule parent_less)
    then show "count_at (swap h ?p i) (parent k) \<le> count_at (swap h ?p i) k"
      using 1 [OF k(1) k'] 2 [OF k(1) k'] h(5) k(3) p by (auto simp: c)
  next
    fix k
    assume k: "0 < k" "k < h_count (swap h ?p i)" "parent k = ?p" "0 < ?p"
    then have k': "k < h_count h" by simp
    have pp: "parent ?p < ?p" using k(4) by (rule parent_less)
    have "?p < k" using parent_less [OF k(1)] k(3) by simp
    then show "count_at (swap h ?p i) (parent ?p) \<le> count_at (swap h ?p i) k"
      using 1 [OF k(1) k'] 1 [OF k(4)] h(2) p pp k(3) by (auto simp: c)
  qed
qed

lemma sift_up_ok:
  assumes "indexed h" "i < h_count h" "ordered_above h i"
  shows "indexed (sift_up h i) \<and> rearranged h (sift_up h i) \<and> ordered (sift_up h i)"
  using assms
proof (induction h i rule: sift_up.induct)
  case (1 h i)
  show ?case
  proof (cases "0 < i \<and> count_at h (parent i) > count_at h i")
    case True
    then have p: "parent i < h_count h" using 1(3) parent_less [of i] by simp
    have eq: "sift_up h i = sift_up (swap h (parent i) i) (parent i)"
      using True by (subst sift_up.simps) (simp add: parent_def)
    have "indexed (sift_up (swap h (parent i) i) (parent i)) \<and>
        rearranged (swap h (parent i) i) (sift_up (swap h (parent i) i) (parent i)) \<and>
        ordered (sift_up (swap h (parent i) i) (parent i))"
      using True 1(1) [folded parent_def] indexed_swap [OF 1(2) p 1(3)] p
        ordered_above_swap [OF 1(2,3) _ 1(4)] by simp
    with rearranged_swap [OF 1(2) p 1(3)] show ?thesis
      unfolding eq by (blast intro: rearranged_trans)
  next
    case False
    then have "sift_up h i = h" by (subst sift_up.simps) (auto simp: parent_def)
    moreover have "ordered h"
      using 1(4) False unfolding ordered_def ordered_above_def by (metis not_le)
    ultimately show ?thesis using 1(2) by (simp add: rearranged_refl)
  qed
qed

lemma ordered_below_done:
  assumes "ordered_below h i" "\<And>k. 0 < k \<Longrightarrow> k < h_count h \<Longrightarrow> parent k = i \<Longrightarrow> count_at h i \<le> count_at h k"
  shows "ordered h"
  using assms unfolding ordered_below_def ordered_def by metis

lemma ordered_below_swap:
  assumes h: "indexed h" "0 < m" "m < h_count h" "parent m = i" "ordered_below h i" "count_at h m < count_at h i"
    and least: "\<And>k. 0 < k \<Longrightarrow> k < h_count h \<Longrightarrow> parent k = i \<Longrightarrow> count_at h m \<le> count_at h k"
  shows "ordered_below (swap h i m) m"
proof -
  have i: "i < m" using h(2,4) parent_less by blast
  have l: "i < length (h_controllers h)" "m < length (h_controllers h)"
    using i h(3) indexedD(1) [OF h(1)] by simp_all
  note c = count_at_swap [OF l]
  have 1: "0 < k \<Longrightarrow> k < h_count h \<Longrightarrow> parent k \<noteq> i \<Longrightarrow> count_at h (parent k) \<le> count_at h k"
    and 2: "0 < i \<Longrightarrow> count_at h (parent i) \<le> count_at h m" for k
    using h by (auto simp: ordered_below_def)
  show ?thesis
    unfolding ordered_below_def
  proof (intro conjI allI impI; elim conjE)
    fix k
    assume k: "0 < k" "k < h_count (swap h i m)" "parent k \<noteq> m"
    then have k': "k < h_count h" by simp
    have "parent k < k" using k(1) by (rule parent_less)
    then show "count_at (swap h i m) (parent k) \<le> count_at (swap h i m) k"
      using 1 [OF k(1) k'] 2 least [OF k(1) k'] h(4,6) k i by (auto simp: c)
  next
    fix k
    assume k: "0 < k" "k < h_count (swap h i m)" "parent k = m"
    then have k': "k < h_count h" by simp
    have "m < k" using parent_less [OF k(1)] k(3) by simp
    then show "count_at (swap h i m) (parent m) \<le> count_at (swap h i m) k"
      using 1 [OF k(1) k'] h(4) k(3) i by (auto simp: c)
  qed
qed

text \<open>One round of \<open>sift_down\<close>: stop, or swap with the lighter child and go on there.\<close>

lemma sift_down_step:
  obtains (Stop) "sift_down h i = h" "\<And>k. 0 < k \<Longrightarrow> k < h_count h \<Longrightarrow> parent k = i \<Longrightarrow> count_at h i \<le> count_at h k"
  | (Down) m where "0 < m" "m < h_count h" "parent m = i" "count_at h m < count_at h i"
      "\<And>k. 0 < k \<Longrightarrow> k < h_count h \<Longrightarrow> parent k = i \<Longrightarrow> count_at h m \<le> count_at h k"
      "sift_down h i = sift_down (swap h i m) m"
proof -
  let ?l = "i * 2 + 1" and ?r = "i * 2 + 2"
  have ch: "k = ?l \<or> k = ?r" if "0 < k" "parent k = i" for k
    using that parent_eq [of k i] by (simp add: mult.commute)
  have pl: "parent ?l = i" "parent ?r = i" using parent_children [of i] by (simp_all add: mult.commute)
  have leaf: "sift_down (swap h i ?l) ?l = swap h i ?l" if "?r = h_count h"
    using that by (subst sift_down.simps) simp
  have stop: thesis if "sift_down h i = h" "?l < h_count h \<longrightarrow> count_at h i \<le> count_at h ?l"
    "?r < h_count h \<longrightarrow> count_at h i \<le> count_at h ?r"
  proof (rule Stop [OF that(1)])
    fix k
    assume "0 < k" "k < h_count h" "parent k = i"
    with ch [of k] that(2,3) show "count_at h i \<le> count_at h k" by blast
  qed
  have down: thesis if "m = ?l \<or> m = ?r" "m < h_count h" "count_at h m < count_at h i"
    "?l < h_count h \<longrightarrow> count_at h m \<le> count_at h ?l" "?r < h_count h \<longrightarrow> count_at h m \<le> count_at h ?r"
    "sift_down h i = sift_down (swap h i m) m" for m
  proof (rule Down [of m])
    show "0 < m" "parent m = i" using that(1) pl by auto
    fix k
    assume "0 < k" "k < h_count h" "parent k = i"
    with ch [of k] that(4,5) show "count_at h m \<le> count_at h k" by blast
  qed (use that in simp_all)
  consider "h_count h \<le> ?l" | "?r = h_count h" | "?r < h_count h" by linarith
  then show thesis
  proof cases
    case 1
    then show thesis by (intro stop) (subst sift_down.simps, simp_all)
  next
    case 2
    show thesis
    proof (cases "count_at h i > count_at h ?l")
      case True
      then have "sift_down h i = swap h i ?l" using 2 by (subst sift_down.simps) simp
      with leaf [OF 2] have "sift_down h i = sift_down (swap h i ?l) ?l" by simp
      then show thesis using 2 True by (intro down [of ?l]) simp_all
    next
      case False
      then have "sift_down h i = h" using 2 by (subst sift_down.simps) simp
      then show thesis using 2 False by (intro stop) simp_all
    qed
  next
    case 3
    consider (S) "count_at h i \<le> count_at h ?l" "count_at h i \<le> count_at h ?r"
      | (L) "count_at h i > count_at h ?l" "count_at h ?l < count_at h ?r \<or> count_at h i \<le> count_at h ?r"
      | (R) "count_at h i > count_at h ?r" "count_at h ?r \<le> count_at h ?l"
      by linarith
    then show thesis
    proof cases
      case S
      then have "sift_down h i = h" using 3 by (subst sift_down.simps) simp
      then show thesis using S by (intro stop) simp_all
    next
      case L
      then have "sift_down h i = sift_down (swap h i ?l) ?l" using 3 by (subst sift_down.simps) auto
      then show thesis using 3 L by (intro down [of ?l]) auto
    next
      case R
      then have "sift_down h i = sift_down (swap h i ?r) ?r" using 3 by (subst sift_down.simps) auto
      then show thesis using 3 R by (intro down [of ?r]) auto
    qed
  qed
qed

lemma sift_down_ok:
  assumes "indexed h" "ordered_below h i"
  shows "indexed (sift_down h i) \<and> rearranged h (sift_down h i) \<and> ordered (sift_down h i)"
  using assms
proof (induction "h_count h - i" arbitrary: h i rule: less_induct)
  case less
  show ?case
  proof (cases rule: sift_down_step [of h i])
    case Stop
    then show ?thesis
      using less.prems ordered_below_done [OF less.prems(2)] by (simp add: rearranged_refl)
  next
    case (Down m)
    have i: "i < m" using Down(1,3) parent_less by blast
    then have ic: "i < h_count h" using Down(2) by simp
    have m: "h_count (swap h i m) - m < h_count h - i" using i Down(2) by simp
    have "ordered_below (swap h i m) m"
      by (rule ordered_below_swap [OF less.prems(1) Down(1-3) less.prems(2) Down(4)]) (rule Down(5))
    from less.hyps [OF m indexed_swap [OF less.prems(1) ic Down(2)] this]
    have "indexed (sift_down (swap h i m) m) \<and> rearranged (swap h i m) (sift_down (swap h i m) m) \<and>
        ordered (sift_down (swap h i m) m)" .
    with rearranged_swap [OF less.prems(1) ic Down(2)] show ?thesis
      unfolding Down(6) by (blast intro: rearranged_trans)
  qed
qed

subsection \<open>The operations\<close>

definition heap_inv :: "controller_heap \<Rightarrow> bool" where
  "heap_inv h \<longleftrightarrow> indexed h \<and> ordered h"

definition load :: "controller_heap \<Rightarrow> nat \<Rightarrow> nat" where
  "load h a = controlleeCount (h_nodes h a)"

lemma rearrangedD:
  assumes "rearranged h h'"
  shows "h_count h' = h_count h" "members h' = members h" "load h' = load h"
  using assms by (auto simp: rearranged_def load_def)

lemma heap_init_ok: "\<exists>h. heap_init True nodes = Some h \<and> heap_inv h \<and> members h = {}"
  by (simp add: heap_init_def heap_inv_def indexed_def ordered_def members_def)

lemma root_least:
  assumes "ordered h" "i < h_count h"
  shows "count_at h 0 \<le> count_at h i"
  using assms(2)
proof (induction i rule: less_induct)
  case (less i)
  show ?case
  proof (cases "i = 0")
    case False
    then have "parent i < i" by (simp add: parent_less)
    with less have "count_at h 0 \<le> count_at h (parent i)" by simp
    also have "\<dots> \<le> count_at h i" using assms(1) False less.prems by (simp add: ordered_def)
    finally show ?thesis .
  qed simp
qed

lemma heap_top_ok:
  assumes "heap_inv h"
  shows "case heap_top h of None \<Rightarrow> members h = {} | Some a \<Rightarrow> a \<in> members h \<and> (\<forall>b \<in> members h. load h a \<le> load h b)"
  using assms root_least [of h]
  by (auto simp: heap_top_def heap_inv_def members_def load_def count_at_def)

lemma heap_push_ok:
  assumes inv: "heap_inv h" and new: "a \<notin> members h" and mem: "mem \<or> h_count h < h_capacity h"
  shows "\<exists>h'. heap_push (Some a) mem h n c = (h', Some a) \<and> heap_inv h' \<and> members h' = insert a (members h) \<and>
    load h' = (load h)(a := n) \<and> hn_controller (h_nodes h' a) = c"
proof -
  have ix: "indexed h" and ord: "ordered h" using inv by (simp_all add: heap_inv_def)
  define h1 where "h1 =
    (let h = (if h_count h = h_capacity h
              then h\<lparr>h_controllers := h_controllers h @ replicate (h_capacity h) 0, h_capacity := h_capacity h * 2\<rparr> else h);
         h = h\<lparr>h_nodes := (h_nodes h)(a := \<lparr>hn_index = h_count h, controlleeCount = n, hn_controller = c\<rparr>)\<rparr>;
         h = h\<lparr>h_controllers := (h_controllers h)[h_count h := a]\<rparr>
     in h\<lparr>h_count := h_count h + 1\<rparr>)"
  have push: "heap_push (Some a) mem h n c = (sift_up h1 (h_count h), Some a)"
    using mem by (auto simp: heap_push_def h1_def Let_def)
  have cap: "h_count h1 = Suc (h_count h)" "h_count h1 \<le> h_capacity h1" "length (h_controllers h1) = h_capacity h1" "0 < h_capacity h1"
    using ix by (auto simp: h1_def indexed_def Let_def)
  have at: "node_at h1 k = (if k = h_count h then a else node_at h k)" if "k \<le> h_count h" for k
    using that ix by (auto simp: h1_def indexed_def Let_def node_at_def nth_append nth_list_update)
  have nodes: "h_nodes h1 = (h_nodes h)(a := \<lparr>hn_index = h_count h, controlleeCount = n, hn_controller = c\<rparr>)"
    by (simp add: h1_def Let_def)
  have other: "node_at h k \<noteq> a" if "k < h_count h" for k
    using new that by (auto simp: members_def)
  have ix1: "indexed h1"
    using ix cap other by (auto simp: indexed_def at nodes less_Suc_eq)
  have cnt: "count_at h1 k = count_at h k" if "k < h_count h" for k
    using that other by (simp add: count_at_def at nodes)
  have "ordered_above h1 (h_count h)"
    unfolding ordered_above_def cap(1)
  proof (intro conjI allI impI; elim conjE)
    fix k
    assume "0 < k" "k < Suc (h_count h)" "k \<noteq> h_count h"
    with ord parent_less [of k] show "count_at h1 (parent k) \<le> count_at h1 k"
      by (simp add: cnt ordered_def)
  next
    fix k
    assume "0 < k" "k < Suc (h_count h)" "parent k = h_count h"
    with parent_less [of k] show "count_at h1 (parent (h_count h)) \<le> count_at h1 k" by simp
  qed
  from sift_up_ok [OF ix1 _ this] cap(1)
  have up: "indexed (sift_up h1 (h_count h))" "rearranged h1 (sift_up h1 (h_count h))" "ordered (sift_up h1 (h_count h))"
    by auto
  have "members h1 = insert a (members h)"
    by (auto simp: members_def cap(1) at lessThan_Suc image_iff)
  with up show ?thesis
    unfolding push by (auto simp: heap_inv_def rearranged_def load_def nodes)
qed

lemma heap_inc_ok:
  assumes inv: "heap_inv h" and top: "heap_top h = Some a"
  shows "\<exists>h'. heap_inc h n = Some h' \<and> heap_inv h' \<and> members h' = members h \<and> load h' = (load h)(a := load h a + n)"
proof -
  have ix: "indexed h" and ord: "ordered h" using inv by (simp_all add: heap_inv_def)
  have a: "a = node_at h 0" "0 < h_count h" using top by (auto simp: heap_top_def split: if_splits)
  define h1 where "h1 = h\<lparr>h_nodes := (h_nodes h)(a := (h_nodes h a)\<lparr>controlleeCount := controlleeCount (h_nodes h a) + n\<rparr>)\<rparr>"
  have inc: "heap_inc h n = Some (sift_down h1 0)"
    using a by (simp add: heap_inc_def h1_def Let_def)
  have at: "node_at h1 k = node_at h k" "h_count h1 = h_count h" for k
    by (simp_all add: h1_def node_at_def)
  have ix1: "indexed h1"
    using ix unfolding indexed_def by (simp add: at) (auto simp: h1_def)
  have cnt: "count_at h1 k = count_at h k" if "0 < k" "k < h_count h" for k
  proof -
    have "node_at h k \<noteq> a" using node_at_inj [OF ix that(2) a(2)] that(1) a(1) by blast
    then show ?thesis unfolding count_at_def at by (simp add: h1_def)
  qed
  have "ordered_below h1 0"
    unfolding ordered_below_def at(2)
  proof (intro conjI allI impI; elim conjE)
    fix k
    assume "0 < k" "k < h_count h" "parent k \<noteq> 0"
    with ord parent_less [of k] show "count_at h1 (parent k) \<le> count_at h1 k"
      by (simp add: cnt ordered_def)
  qed simp
  from sift_down_ok [OF ix1 this] have down: "indexed (sift_down h1 0)" "rearranged h1 (sift_down h1 0)" "ordered (sift_down h1 0)"
    by auto
  have "members h1 = members h" by (simp add: members_def at)
  moreover have "load h1 = (load h)(a := load h a + n)" by (auto simp: h1_def load_def)
  ultimately show ?thesis
    unfolding inc using down rearrangedD [OF down(2)] by (auto simp: heap_inv_def)
qed

lemma heap_remove_ok:
  assumes inv: "heap_inv h" and a: "a \<in> members h"
  shows "\<exists>h'. heap_remove h a = Some h' \<and> heap_inv h' \<and> members h' = members h - {a} \<and> load h' = load h"
proof -
  have ix: "indexed h" and ord: "ordered h" using inv by (simp_all add: heap_inv_def)
  from a obtain i where i: "i < h_count h" "a = node_at h i" by (auto simp: members_def)
  have idx: "hn_index (h_nodes h a) = i" using indexedD(3) [OF ix i(1)] i(2) by simp
  let ?n = "h_count h - 1"
  define h1 where "h1 =
    (let h = h\<lparr>h_controllers := (h_controllers h)[i := node_at h ?n]\<rparr>; h = set_index (node_at h i) i h
     in h\<lparr>h_count := h_count h - 1\<rparr>)"
  have len: "i < length (h_controllers h)" using i(1) indexedD(1) [OF ix] by simp
  have rem: "heap_remove h a = Some (if i = 0 \<or> count_at h1 (parent i) < count_at h1 i then sift_down h1 i else sift_up h1 i)"
    unfolding heap_remove_def idx h1_def parent_def Let_def using i(1) len by simp
  have n1: "h_count h1 = ?n" by (simp add: h1_def Let_def set_index_def)
  have at: "node_at h1 k = (if k = i then node_at h ?n else node_at h k)" for k
    using len by (auto simp: h1_def Let_def set_index_def node_at_def)
  have nodes: "h_nodes h1 = (h_nodes h)(node_at h ?n := (h_nodes h (node_at h ?n))\<lparr>hn_index := i\<rparr>)"
    using len by (simp add: h1_def Let_def set_index_def node_at_def)
  have cnt: "count_at h1 k = count_at h (if k = i then ?n else k)" for k
    by (simp add: count_at_def at nodes)
  have ix1: "indexed h1"
    unfolding indexed_def n1
  proof (intro conjI allI impI)
    fix k
    assume "k < ?n"
    then have "k < h_count h" "?n < h_count h" "k \<noteq> ?n" by auto
    then show "hn_index (h_nodes h1 (node_at h1 k)) = k"
      using ix node_at_inj [OF ix, of k ?n] by (auto simp: at nodes indexed_def)
  qed (use ix in \<open>auto simp: indexed_def h1_def Let_def set_index_def\<close>)
  have members1: "members h1 = members h - {a}"
  proof -
    have "node_at h k \<in> node_at h1 ` {..<?n}" if "k < h_count h" "k \<noteq> i" for k
      using that i(1) by (cases "k = ?n") (auto simp: at image_iff intro: exI [of _ i])
    moreover have "node_at h1 k \<in> node_at h ` {..<h_count h} - {a}" if "k < ?n" for k
    proof -
      have "j \<noteq> i \<Longrightarrow> j < h_count h \<Longrightarrow> node_at h j \<in> node_at h ` {..<h_count h} - {a}" for j
        using node_at_inj [OF ix _ i(1)] i(2) by blast
      from this [of k] this [of ?n] that show ?thesis unfolding at by auto
    qed
    ultimately show ?thesis unfolding members_def n1 using i by blast
  qed
  have load1: "load h1 = load h" by (auto simp: load_def nodes)
  have le: "count_at h (parent k) \<le> count_at h k" if "0 < k" "k < h_count h" for k
    using ord that by (simp add: ordered_def)
  have via: "count_at h (parent i) \<le> count_at h k" if "0 < k" "k < h_count h" "parent k = i" "0 < i" for k
    using le [OF that(1,2)] le [OF that(4) i(1)] that(3) by simp
  have "\<exists>h'. heap_remove h a = Some h' \<and> indexed h' \<and> rearranged h1 h' \<and> ordered h'"
  proof (cases "i = 0 \<or> count_at h1 (parent i) < count_at h1 i")
    case True
    have "ordered_below h1 i"
      unfolding ordered_below_def n1
    proof (intro conjI allI impI; elim conjE)
      fix k
      assume k: "0 < k" "k < ?n" "parent k \<noteq> i"
      then show "count_at h1 (parent k) \<le> count_at h1 k"
        using True le [of k] by (cases "k = i") (auto simp: cnt)
    next
      fix k
      assume k: "0 < k" "k < ?n" "parent k = i" "0 < i"
      moreover have "k \<noteq> i" "parent i \<noteq> i" using parent_less [of k] parent_less [of i] k by auto
      ultimately show "count_at h1 (parent i) \<le> count_at h1 k"
        using via [of k] by (simp add: cnt)
    qed
    from sift_down_ok [OF ix1 this] True show ?thesis by (simp add: rem)
  next
    case False
    then have f: "0 < i" "count_at h1 i \<le> count_at h1 (parent i)" by simp_all
    have pi: "parent i \<noteq> i" using parent_less [OF f(1)] by simp
    show ?thesis
    proof (cases "i < ?n")
      case True
      have "ordered_above h1 i"
        unfolding ordered_above_def n1
      proof (intro conjI allI impI; elim conjE)
        fix k
        assume k: "0 < k" "k < ?n" "k \<noteq> i"
        show "count_at h1 (parent k) \<le> count_at h1 k"
          using f k pi le [of k] via [OF k(1) _ _ f(1)] by (cases "parent k = i") (auto simp: cnt intro: order_trans)
      next
        fix k
        assume k: "0 < k" "k < ?n" "parent k = i" "0 < i"
        moreover have "k \<noteq> i" using parent_less [OF k(1)] k(3) by simp
        ultimately show "count_at h1 (parent i) \<le> count_at h1 k"
          using via [of k] pi by (simp add: cnt)
      qed
      from sift_up_ok [OF ix1 _ this] True n1 False show ?thesis by (simp add: rem)
    next
      case last: False
      then have "i = ?n" using i(1) by simp
      with le [OF f(1) i(1)] pi have "count_at h1 (parent i) \<le> count_at h1 i" by (simp add: cnt)
      then have "sift_up h1 i = h1" by (subst sift_up.simps) (simp add: parent_def)
      moreover have "ordered h1"
        unfolding ordered_def n1
      proof (intro allI impI; elim conjE)
        fix k
        assume "0 < k" "k < ?n"
        with \<open>i = ?n\<close> parent_less [of k] le [of k] show "count_at h1 (parent k) \<le> count_at h1 k"
          by (simp add: cnt)
      qed
      ultimately show ?thesis using False ix1 by (simp add: rem rearranged_refl)
    qed
  qed
  then obtain h' where "heap_remove h a = Some h'" "indexed h'" "rearranged h1 h'" "ordered h'" by blast
  with rearrangedD [OF this(3)] show ?thesis using members1 load1 by (simp add: heap_inv_def)
qed

subsection \<open>Sharing the monsters of a map\<close>

text \<open>What the map relies on: a collection of players with loads, from which it takes a player
  with the least load. The locale's client lemmas say how far apart the loads can drift.\<close>

locale load_balancer =
  fixes invar :: "'s \<Rightarrow> bool" and players :: "'s \<Rightarrow> 'a set" and loads :: "'s \<Rightarrow> 'a \<Rightarrow> nat"
    and top :: "'s \<Rightarrow> 'a option" and inc :: "'s \<Rightarrow> nat \<Rightarrow> 's option" and remove :: "'s \<Rightarrow> 'a \<Rightarrow> 's option"
  assumes top_least: "invar s \<Longrightarrow> top s = Some a \<Longrightarrow> a \<in> players s \<and> (\<forall>b \<in> players s. loads s a \<le> loads s b)"
    and top_none: "invar s \<Longrightarrow> top s = None \<Longrightarrow> players s = {}"
    and inc_top: "invar s \<Longrightarrow> top s = Some a \<Longrightarrow>
      \<exists>s'. inc s n = Some s' \<and> invar s' \<and> players s' = players s \<and> loads s' = (loads s)(a := loads s a + n)"
    and remove_member: "invar s \<Longrightarrow> a \<in> players s \<Longrightarrow>
      \<exists>s'. remove s a = Some s' \<and> invar s' \<and> players s' = players s - {a} \<and> loads s' = loads s"
begin

definition spread :: "'s \<Rightarrow> nat \<Rightarrow> bool" where
  "spread s d \<longleftrightarrow> (\<forall>a \<in> players s. \<forall>b \<in> players s. loads s a \<le> loads s b + d)"

lemma inc_spread:
  assumes "invar s" "players s \<noteq> {}" "spread s d"
  shows "\<exists>s'. inc s n = Some s' \<and> invar s' \<and> players s' = players s \<and> spread s' (max d n)"
proof -
  obtain a where a: "top s = Some a" using top_none [OF assms(1)] assms(2) by (cases "top s") auto
  obtain s' where s': "inc s n = Some s'" "invar s'" "players s' = players s" "loads s' = (loads s)(a := loads s a + n)"
    using inc_top [OF assms(1) a, of n] by blast
  have le: "loads s a \<le> loads s b" if "b \<in> players s" for b
    using top_least [OF assms(1) a] that by blast
  have "loads s' x \<le> loads s' y + max d n" if x: "x \<in> players s" and y: "y \<in> players s" for x y
  proof -
    have "loads s x \<le> loads s y + d" "loads s a \<le> loads s y" using assms(3) x y le by (auto simp: spread_def)
    moreover have "x \<noteq> a \<longrightarrow> loads s' x = loads s x" "y \<noteq> a \<longrightarrow> loads s' y = loads s y" "loads s' a = loads s a + n"
      using s'(4) by simp_all
    moreover have "d \<le> max d n" "n \<le> max d n" by simp_all
    ultimately show ?thesis by (cases "x = a"; cases "y = a"; simp; linarith)
  qed
  then have "spread s' (max d n)" by (simp add: spread_def s'(3))
  with s' show ?thesis by blast
qed

lemma remove_spread:
  assumes "invar s" "a \<in> players s" "spread s d"
  shows "\<exists>s'. remove s a = Some s' \<and> invar s' \<and> players s' = players s - {a} \<and> spread s' d"
proof -
  obtain s' where "remove s a = Some s'" "invar s'" "players s' = players s - {a}" "loads s' = loads s"
    using remove_member [OF assms(1,2)] by blast
  with assms(3) show ?thesis by (auto simp: spread_def)
qed

end

interpretation controllers: load_balancer heap_inv members load heap_top heap_inc heap_remove
proof unfold_locales
  fix s a
  assume "heap_inv s" "heap_top s = Some a"
  then show "a \<in> members s \<and> (\<forall>b \<in> members s. load s a \<le> load s b)" using heap_top_ok [of s] by simp
next
  fix s
  assume "heap_inv s" "heap_top s = None"
  then show "members s = {}" using heap_top_ok [of s] by simp
qed (simp_all add: heap_inc_ok heap_remove_ok)

subsection \<open>Refinement\<close>

text \<open>The calls the map makes: a player joins with the monsters it already controls
  (\<^verbatim>\<open>map_join\<close>), a player leaves, and \<open>n\<close> monsters are given to the player at the top.\<close>

datatype heap_op = Join nat nat nat | Leave nat | Give nat

fun heap_call :: "heap_op \<Rightarrow> controller_heap \<Rightarrow> controller_heap option" where
  "heap_call (Join a n c) h = (case heap_push (Some a) True h n c of (h', Some _) \<Rightarrow> Some h' | (h', None) \<Rightarrow> None)"
| "heap_call (Leave a) h = heap_remove h a"
| "heap_call (Give n) h = heap_inc h n"

fun heap_calls :: "heap_op list \<Rightarrow> controller_heap \<Rightarrow> controller_heap option" where
  "heap_calls [] h = Some h"
| "heap_calls (c # cs) h = Option.bind (heap_call c h) (heap_calls cs)"

definition heap_loads :: "controller_heap \<Rightarrow> nat \<Rightarrow> nat option" where
  "heap_loads h a = (if a \<in> members h then Some (load h a) else None)"

text \<open>The specification: a map from players to loads, and monsters go to some least loaded
  player.\<close>

inductive share :: "(nat \<rightharpoonup> nat) \<Rightarrow> heap_op \<Rightarrow> (nat \<rightharpoonup> nat) \<Rightarrow> bool" where
  join: "m a = None \<Longrightarrow> share m (Join a n c) (m(a \<mapsto> n))"
| leave: "m a = Some k \<Longrightarrow> share m (Leave a) (m(a := None))"
| give: "m a = Some k \<Longrightarrow> (\<And>b j. m b = Some j \<Longrightarrow> k \<le> j) \<Longrightarrow> share m (Give n) (m(a \<mapsto> k + n))"

fun shares :: "(nat \<rightharpoonup> nat) \<Rightarrow> heap_op list \<Rightarrow> (nat \<rightharpoonup> nat) \<Rightarrow> bool" where
  "shares m [] m' \<longleftrightarrow> m' = m"
| "shares m (c # cs) m' \<longleftrightarrow> (\<exists>m1. share m c m1 \<and> shares m1 cs m')"

text \<open>A player joins a map it is not on and leaves one it is on, and monsters are given only
  when there is a player (\<^verbatim>\<open>next != NULL\<close>).\<close>

fun may_call :: "nat set \<Rightarrow> heap_op list \<Rightarrow> bool" where
  "may_call S [] = True"
| "may_call S (Join a n c # cs) = (a \<notin> S \<and> may_call (insert a S) cs)"
| "may_call S (Leave a # cs) = (a \<in> S \<and> may_call (S - {a}) cs)"
| "may_call S (Give n # cs) = (S \<noteq> {} \<and> may_call S cs)"

lemma heap_call_refines:
  assumes inv: "heap_inv h" and may: "may_call (members h) (c # cs)"
  shows "\<exists>h'. heap_call c h = Some h' \<and> heap_inv h' \<and> may_call (members h') cs \<and> share (heap_loads h) c (heap_loads h')"
proof (cases c)
  case (Join a n x)
  then have a: "a \<notin> members h" using may by simp
  from heap_push_ok [OF inv this, of True n x] obtain h' where h':
    "heap_push (Some a) True h n x = (h', Some a)" "heap_inv h'" "members h' = insert a (members h)" "load h' = (load h)(a := n)"
    by auto
  have "heap_loads h' = (heap_loads h)(a \<mapsto> n)" by (rule ext) (simp add: heap_loads_def h'(3,4))
  with h' a may share.join [of "heap_loads h" a n x] show ?thesis by (simp add: Join) (simp add: heap_loads_def)
next
  case (Leave a)
  then have a: "a \<in> members h" using may by simp
  from heap_remove_ok [OF inv this] obtain h' where h':
    "heap_remove h a = Some h'" "heap_inv h'" "members h' = members h - {a}" "load h' = load h"
    by auto
  have "heap_loads h' = (heap_loads h)(a := None)" by (rule ext) (simp add: heap_loads_def h'(3,4))
  with h' a may share.leave [of "heap_loads h" a "load h a"] show ?thesis by (simp add: Leave) (simp add: heap_loads_def)
next
  case (Give n)
  then have "members h \<noteq> {}" using may by simp
  with controllers.top_none [OF inv] obtain a where a: "heap_top h = Some a" by (cases "heap_top h") auto
  note least = controllers.top_least [OF inv a]
  from heap_inc_ok [OF inv a, of n] obtain h' where h':
    "heap_inc h n = Some h'" "heap_inv h'" "members h' = members h" "load h' = (load h)(a := load h a + n)"
    by auto
  have "heap_loads h' = (heap_loads h)(a \<mapsto> load h a + n)" using least by (auto simp: heap_loads_def h'(3,4))
  moreover have "share (heap_loads h) (Give n) ((heap_loads h)(a \<mapsto> load h a + n))"
    using least by (intro share.give) (auto simp: heap_loads_def split: if_splits)
  ultimately show ?thesis using h' may by (simp add: Give)
qed

lemma heap_calls_refine:
  assumes "heap_inv h" "may_call (members h) cs"
  shows "\<exists>h'. heap_calls cs h = Some h' \<and> heap_inv h' \<and> shares (heap_loads h) cs (heap_loads h')"
  using assms
proof (induction cs arbitrary: h)
  case (Cons c cs)
  from heap_call_refines [OF Cons.prems] obtain h1 where h1:
    "heap_call c h = Some h1" "heap_inv h1" "may_call (members h1) cs" "share (heap_loads h) c (heap_loads h1)"
    by blast
  from Cons.IH [OF h1(2,3)] h1(1,4) show ?case by auto
qed simp

text \<open>
  C7: The heap shares the monsters fairly. Starting from the heap of a new map, whatever the
  order in which players join, leave and are given monsters, no call fails, every node keeps its
  place and the heap order holds, and what happens to the loads is a run of the specification:
  monsters always go to a player who has the fewest, and leaving removes that player alone.
\<close>

theorem controller_heap_shares_fairly:
  assumes "heap_init True nodes = Some h" and "may_call {} cs"
  shows "\<exists>h'. heap_calls cs h = Some h' \<and> heap_inv h' \<and> shares Map.empty cs (heap_loads h')"
proof -
  have h: "heap_inv h" "members h = {}" using heap_init_ok [of nodes] assms(1) by auto
  then have "heap_loads h = Map.empty" by (auto simp: heap_loads_def)
  with heap_calls_refine [OF h(1), of cs] h(2) assms(2) show ?thesis by simp
qed

theorem controller_heap_shares_fairly_witness:
  "\<exists>h h'. heap_init True (\<lambda>_. \<lparr>hn_index = 0, controlleeCount = 0, hn_controller = 0\<rparr>) = Some h \<and>
     heap_calls [Join 10 0 1, Give 7, Join 20 0 2, Join 30 4 3, Give 5, Leave 10, Give 1] h = Some h' \<and> heap_inv h' \<and>
     shares Map.empty [Join 10 0 1, Give 7, Join 20 0 2, Join 30 4 3, Give 5, Leave 10, Give 1] (heap_loads h')"
proof -
  let ?cs = "[Join 10 0 1, Give 7, Join 20 0 2, Join 30 4 3, Give 5, Leave 10, Give 1]"
  obtain h where h: "heap_init True (\<lambda>_. \<lparr>hn_index = 0, controlleeCount = 0, hn_controller = 0\<rparr>) = Some h"
    by (simp add: heap_init_def)
  have "may_call {} ?cs" by simp
  with controller_heap_shares_fairly [OF h this] h show ?thesis by blast
qed

text \<open>
  The loads stay close. If the loads of any two players differ by at most \<open>d\<close> and batches of
  at most \<open>d\<close> monsters are given out, they still differ by at most \<open>d\<close> afterwards.
\<close>

theorem loads_stay_within:
  assumes "heap_inv h" and "members h \<noteq> {}" and "\<forall>n \<in> set ns. n \<le> d"
    and "\<forall>a \<in> members h. \<forall>b \<in> members h. load h a \<le> load h b + d"
  shows "\<exists>h'. heap_calls (map Give ns) h = Some h' \<and> heap_inv h' \<and> members h' = members h \<and>
    (\<forall>a \<in> members h'. \<forall>b \<in> members h'. load h' a \<le> load h' b + d)"
  using assms
proof (induction ns arbitrary: h)
  case (Cons n ns)
  have "controllers.spread h d" using Cons.prems(4) by (simp add: controllers.spread_def)
  from controllers.inc_spread [OF Cons.prems(1,2) this, of n] obtain h1 where h1:
    "heap_inc h n = Some h1" "heap_inv h1" "members h1 = members h" "controllers.spread h1 d"
    using Cons.prems(3) by (auto simp: max_absorb1)
  with Cons.IH [of h1] Cons.prems show ?case by (simp add: controllers.spread_def)
qed simp

theorem loads_stay_within_witness:
  "\<exists>h h'. heap_calls [Join 10 0 1, Join 20 3 2] \<lparr>h_capacity = 1, h_count = 0, h_controllers = [0],
       h_nodes = (\<lambda>_. \<lparr>hn_index = 0, controlleeCount = 0, hn_controller = 0\<rparr>)\<rparr> = Some h \<and>
     heap_calls (map Give [3, 2, 1]) h = Some h' \<and> load h' 10 \<le> load h' 20 + 3 \<and> load h' 20 \<le> load h' 10 + 3"
proof -
  let ?h0 = "\<lparr>h_capacity = 1, h_count = 0, h_controllers = [0],
       h_nodes = (\<lambda>_. \<lparr>hn_index = 0, controlleeCount = 0, hn_controller = 0\<rparr>)\<rparr>"
  have h0: "heap_inv ?h0" "members ?h0 = {}" by (simp_all add: heap_inv_def indexed_def ordered_def members_def)
  then obtain h where h: "heap_calls [Join 10 0 1, Join 20 3 2] ?h0 = Some h" "heap_inv h"
    "shares (heap_loads ?h0) [Join 10 0 1, Join 20 3 2] (heap_loads h)"
    using heap_calls_refine [of ?h0 "[Join 10 0 1, Join 20 3 2]"] by auto
  have "heap_loads ?h0 = Map.empty" using h0(2) by (auto simp: heap_loads_def)
  with h(3) have l: "heap_loads h = [10 \<mapsto> 0, 20 \<mapsto> 3]" by (simp add: share.simps)
  have "dom (heap_loads h) = members h" by (auto simp: heap_loads_def split: if_splits)
  then have "members h = {10, 20}" unfolding l by auto
  moreover have "load h 10 = 0" "load h 20 = 3"
    using fun_cong [OF l, of 10] fun_cong [OF l, of 20] by (auto simp: heap_loads_def split: if_splits)
  ultimately show ?thesis
    using loads_stay_within [of h "[3, 2, 1]" 3] h(1,2) by auto
qed

end
