(* ===== verification/Object_List.thy ===== *)
theory Object_List
  imports Keyed_Set
begin

unbundle bit_operations_syntax

text \<open>
  The object list of a map (\<^verbatim>\<open>src/src/channel/map.c\<close>): the monsters, NPCs, reactors and drops of
  a map by object id. It is an open-addressing table like \<open>Hash_Set\<close>, but the type of an object
  is the state of its slot, and it hands out the ids itself: ids of freed objects are kept on a
  stack and used first.

  \<open>malloc\<close> gives the slots of a new table with whatever they hold (\<open>None\<close> if it fails); \<open>mem\<close>
  says whether the stack can be enlarged. A pointer into the table is a slot number. Operations
  return \<open>None\<close> where a loop does not return, an assertion fails or the stack is overrun.
\<close>

datatype map_object_type =
    MAP_OBJECT_NONE | MAP_OBJECT_DELETED | MAP_OBJECT_MONSTER | MAP_OBJECT_NPC
  | MAP_OBJECT_REACTOR | MAP_OBJECT_DROP | MAP_OBJECT_DROPPING | MAP_OBJECT_BOSS

record map_object =
  mo_type :: map_object_type
  oid :: u32
  mo_index :: nat
  mo_index2 :: nat

record object_list =
  objectCapacity :: nat
  objectCount :: nat
  freeStackCapacity :: nat
  freeStackTop :: nat
  objects :: "map_object list"
  freeStack :: "u32 list"

type_synonym object_malloc = "nat \<Rightarrow> map_object list option"

subsection \<open>Operations\<close>

definition clear_type :: "map_object \<Rightarrow> map_object" where
  "clear_type ob = ob\<lparr>mo_type := MAP_OBJECT_NONE\<rparr>"

definition object_list_init :: "object_malloc \<Rightarrow> bool \<Rightarrow> object_list option" where
  "object_list_init malloc mem =
     (case malloc 1 of
        None \<Rightarrow> None
      | Some new \<Rightarrow>
          if \<not> mem then None
          else Some \<lparr>objectCapacity = 1, objectCount = 0, freeStackCapacity = 1, freeStackTop = 0,
                     objects = map clear_type new, freeStack = [0]\<rparr>)"

text \<open>The loops that move objects into a new table.\<close>

fun move_objects :: "(u32 \<Rightarrow> nat) \<Rightarrow> nat \<Rightarrow> map_object list \<Rightarrow> map_object list \<Rightarrow> map_object list option" where
  "move_objects hash cap [] new = Some new"
| "move_objects hash cap (ob # obs) new =
     (case probe (\<lambda>i. mo_type (new ! i) = MAP_OBJECT_NONE) cap (hash (oid ob) mod cap) of
        None \<Rightarrow> None
      | Some i \<Rightarrow> move_objects hash cap obs (new[i := ob]))"

text \<open>The end of \<open>object_list_allocate\<close>: choose an id and a slot for it.\<close>

definition next_oid :: "object_list \<Rightarrow> object_list \<times> u32" where
  "next_oid l =
     (if freeStackTop l > 0
      then let l = l\<lparr>freeStackTop := freeStackTop l - 1\<rparr> in (l, freeStack l ! freeStackTop l OR 0xFFFF0000)
      else (l, of_nat (objectCount l) OR 0xFFFF0000))"

definition claim_slot :: "(u32 \<Rightarrow> nat) \<Rightarrow> object_list \<Rightarrow> (object_list \<times> nat option) option" where
  "claim_slot hash l =
     (case next_oid l of (l, k) \<Rightarrow>
        case probe (\<lambda>i. \<not> (mo_type (objects l ! i) \<noteq> MAP_OBJECT_NONE \<and> mo_type (objects l ! i) \<noteq> MAP_OBJECT_DELETED))
               (objectCapacity l) (hash k mod objectCapacity l) of
          None \<Rightarrow> None
        | Some i \<Rightarrow>
            Some (l\<lparr>objects := (objects l)[i := (objects l ! i)\<lparr>mo_type := MAP_OBJECT_NONE, oid := k\<rparr>],
                    objectCount := objectCount l + 1\<rparr>, Some i))"

definition object_list_allocate ::
  "object_malloc \<Rightarrow> bool \<Rightarrow> (u32 \<Rightarrow> nat) \<Rightarrow> object_list \<Rightarrow> (object_list \<times> nat option) option" where
  "object_list_allocate malloc mem hash l =
     (if objectCount l = 65535 then Some (l, None)
      else if objectCount l = objectCapacity l
      then case malloc (objectCapacity l * 2) of
             None \<Rightarrow> Some (l, None)
           | Some new \<Rightarrow>
               if freeStackCapacity l < objectCapacity l * 2 \<and> \<not> mem then Some (l, None)
               else let l = (if freeStackCapacity l < objectCapacity l * 2
                             then l\<lparr>freeStack := take (objectCapacity l * 2) (freeStack l) @
                                      replicate (objectCapacity l * 2 - length (freeStack l)) 0,
                                    freeStackCapacity := freeStackCapacity l * 2\<rparr>
                             else l)
                    in case move_objects hash (objectCapacity l * 2) (objects l) (map clear_type new) of
                         None \<Rightarrow> None
                       | Some new \<Rightarrow> claim_slot hash (l\<lparr>objects := new, objectCapacity := objectCapacity l * 2\<rparr>)
      else claim_slot hash l)"

definition live_type :: "map_object \<Rightarrow> bool" where
  "live_type ob \<longleftrightarrow> mo_type ob \<noteq> MAP_OBJECT_NONE \<and> mo_type ob \<noteq> MAP_OBJECT_DELETED"

definition shrink_objects :: "object_malloc \<Rightarrow> (u32 \<Rightarrow> nat) \<Rightarrow> object_list \<Rightarrow> object_list option" where
  "shrink_objects malloc hash l =
     (case malloc (objectCapacity l div 2) of
        None \<Rightarrow> Some l
      | Some temp \<Rightarrow>
          (case move_objects hash (objectCapacity l div 2) (filter live_type (objects l)) (map clear_type temp) of
             None \<Rightarrow> None
           | Some temp \<Rightarrow> Some (l\<lparr>objects := temp, objectCapacity := objectCapacity l div 2\<rparr>)))"

text \<open>The loop of \<open>object_list_free\<close> stops at the id, or at the assertion.\<close>

definition object_list_free :: "object_malloc \<Rightarrow> (u32 \<Rightarrow> nat) \<Rightarrow> object_list \<Rightarrow> u32 \<Rightarrow> object_list option" where
  "object_list_free malloc hash l k =
     (case probe (\<lambda>i. \<not> (mo_type (objects l ! i) = MAP_OBJECT_DELETED \<or> oid (objects l ! i) \<noteq> k) \<or>
                       mo_type (objects l ! i) = MAP_OBJECT_NONE)
             (objectCapacity l) (hash k mod objectCapacity l) of
        None \<Rightarrow> None
      | Some i \<Rightarrow>
          if oid (objects l ! i) \<noteq> k \<or> freeStackTop l \<ge> length (freeStack l) then None
          else let l = l\<lparr>objects := (objects l)[i := (objects l ! i)\<lparr>mo_type := MAP_OBJECT_DELETED\<rparr>]\<rparr>;
                   l = l\<lparr>freeStack := (freeStack l)[freeStackTop l := k AND 0xFFFF]\<rparr>;
                   l = l\<lparr>freeStackTop := freeStackTop l + 1\<rparr>;
                   l = l\<lparr>objectCount := size_dec (objectCount l)\<rparr>
               in if objectCount l < objectCapacity l div 4 then shrink_objects malloc hash l else Some l)"

definition object_list_get :: "(u32 \<Rightarrow> nat) \<Rightarrow> object_list \<Rightarrow> u32 \<Rightarrow> nat option option" where
  "object_list_get hash l k =
     (if objectCount l = 0 then Some None
      else case probe_once (\<lambda>i. mo_type (objects l ! i) = MAP_OBJECT_DELETED \<or>
                              (mo_type (objects l ! i) \<noteq> MAP_OBJECT_NONE \<and> oid (objects l ! i) \<noteq> k))
                  (objectCapacity l) (hash k mod objectCapacity l) of
             None \<Rightarrow> None
           | Some None \<Rightarrow> Some None
           | Some (Some i) \<Rightarrow> if mo_type (objects l ! i) = MAP_OBJECT_NONE then Some None else Some (Some i))"

text \<open>
  What every caller of \<open>object_list_allocate\<close> does next: it writes the type and the indices of
  the object it got (\<open>fill\<close>), which makes the slot occupied.
\<close>

definition object_list_add ::
  "object_malloc \<Rightarrow> bool \<Rightarrow> (u32 \<Rightarrow> nat) \<Rightarrow> (map_object \<Rightarrow> map_object) \<Rightarrow> object_list \<Rightarrow> (object_list \<times> map_object option) option" where
  "object_list_add malloc mem hash fill l =
     (case object_list_allocate malloc mem hash l of
        None \<Rightarrow> None
      | Some (l, None) \<Rightarrow> Some (l, None)
      | Some (l, Some i) \<Rightarrow>
          Some (l\<lparr>objects := (objects l)[i := fill (objects l ! i)]\<rparr>, Some (fill (objects l ! i))))"

definition fills :: "(map_object \<Rightarrow> map_object) \<Rightarrow> bool" where
  "fills f \<longleftrightarrow> (\<forall>ob. live_type (f ob) \<and> oid (f ob) = oid ob)"

subsection \<open>The table as a hash set\<close>

definition slot_of :: "map_object \<Rightarrow> slot" where
  "slot_of ob = (if mo_type ob = MAP_OBJECT_NONE then Free else if mo_type ob = MAP_OBJECT_DELETED then Deleted else Occupied)"

lemma slot_of_simps:
  "slot_of ob = Free \<longleftrightarrow> mo_type ob = MAP_OBJECT_NONE"
  "slot_of ob = Deleted \<longleftrightarrow> mo_type ob = MAP_OBJECT_DELETED"
  "slot_of ob = Occupied \<longleftrightarrow> live_type ob"
  by (auto simp: slot_of_def live_type_def)

definition table_view :: "object_list \<Rightarrow> map_object hash_set" where
  "table_view l = \<lparr>capacity = objectCapacity l, count = objectCount l, states = map slot_of (objects l),
     data = map Some (objects l), iterating = False\<rparr>"

lemma table_view_simps [simp]:
  "capacity (table_view l) = objectCapacity l" "count (table_view l) = objectCount l"
  "states (table_view l) = map slot_of (objects l)" "data (table_view l) = map Some (objects l)"
  by (simp_all add: table_view_def)

abbreviation objects_ok :: "(u32 \<Rightarrow> nat) \<Rightarrow> nat \<Rightarrow> map_object list \<Rightarrow> bool" where
  "objects_ok hash cap obs \<equiv> table_ok hash oid cap (map slot_of obs) (map Some obs)"

abbreviation live_objects :: "map_object list \<Rightarrow> map_object list" where
  "live_objects obs \<equiv> elems (map slot_of obs) (map Some obs)"

lemma live_objects_filter: "live_objects obs = filter live_type obs"
  by (induction obs) (auto simp: slot_of_simps)

definition object_map :: "object_list \<Rightarrow> u32 \<Rightarrow> map_object option" where
  "object_map l = hash_set_map oid (table_view l)"

declare mset_filter [simp del]

lemma move_objects_ok:
  assumes "objects_ok hash cap new" and "\<forall>ob \<in> set new. mo_type ob \<noteq> MAP_OBJECT_DELETED"
    and "\<forall>ob \<in> set obs. live_type ob" and "length (filter live_type new) + length obs \<le> cap"
  shows "\<exists>new'. move_objects hash cap obs new = Some new' \<and> objects_ok hash cap new' \<and>
    mset (filter live_type new') = mset (filter live_type new) + mset obs"
  using assms
proof (induction obs arbitrary: new)
  case (Cons ob obs)
  have len: "length new = cap" using table_okD(2) [OF Cons.prems(1)] by simp
  from exists_unoccupied [OF Cons.prems(1)] Cons.prems(4) obtain j where
    j: "j < cap" "map slot_of new ! j \<noteq> Occupied" by (auto simp: live_objects_filter)
  then have free: "map slot_of new ! j = Free"
    using Cons.prems(2) len nth_mem [of j new] by (auto simp: slot_of_def split: if_splits)
  from occupy_probed [OF Cons.prems(1) j(1), of "\<lambda>st. st = Free" ob] free obtain i where
    i: "i < cap" "probe (\<lambda>i. map slot_of new ! i = Free) cap (hash (oid ob) mod cap) = Some i"
    "table_ok hash oid cap ((map slot_of new)[i := Occupied]) ((map Some new)[i := Some ob])"
    "mset (elems ((map slot_of new)[i := Occupied]) ((map Some new)[i := Some ob])) = add_mset ob (mset (live_objects new))"
    by auto
  have "slot_of ob = Occupied" using Cons.prems(3) by (simp add: slot_of_simps)
  then have upd: "(map slot_of new)[i := Occupied] = map slot_of (new[i := ob])" "(map Some new)[i := Some ob] = map Some (new[i := ob])"
    by (simp_all add: map_update)
  note i' = i(3,4) [unfolded upd live_objects_filter]
  have "0 < cap" using i(1) by simp
  then have probe: "probe (\<lambda>i. mo_type (new ! i) = MAP_OBJECT_NONE) cap (hash (oid ob) mod cap) = Some i"
    unfolding i(2) [symmetric] by (intro probe_cong) (simp_all add: len slot_of_simps)
  have "\<forall>x \<in> set (new[i := ob]). mo_type x \<noteq> MAP_OBJECT_DELETED"
    using Cons.prems(2,3) set_update_subset_insert [of new i ob] by (auto simp: live_type_def)
  moreover have "length (filter live_type (new[i := ob])) = Suc (length (filter live_type new))"
    using arg_cong [OF i'(2), of size] by (simp del: mset_filter)
  ultimately obtain new' where "move_objects hash cap obs (new[i := ob]) = Some new'" "objects_ok hash cap new'"
    "mset (filter live_type new') = mset (filter live_type (new[i := ob])) + mset obs"
    using Cons.IH [OF i'(1)] Cons.prems(3,4) by auto
  then show ?case by (simp add: probe i'(2))
qed simp

lemma cleared_ok:
  assumes "length new = cap" "0 < cap"
  shows "objects_ok hash cap (map clear_type new)" "filter live_type (map clear_type new) = []"
    "\<forall>ob \<in> set (map clear_type new). mo_type ob \<noteq> MAP_OBJECT_DELETED"
proof -
  have "map slot_of (map clear_type new) ! i \<noteq> Occupied" if "i < cap" for i
    using that assms(1) by (simp add: slot_of_def clear_type_def)
  then show "objects_ok hash cap (map clear_type new)" using assms unfolding table_ok_def by auto
  show "filter live_type (map clear_type new) = []" by (simp add: filter_empty_conv live_type_def clear_type_def)
qed (simp add: clear_type_def)

text \<open>Moving all objects to a new table with enough slots.\<close>

lemma move_to_new:
  assumes "length new = cap" "0 < cap" "\<forall>ob \<in> set obs. live_type ob" "length obs \<le> cap"
  shows "\<exists>new'. move_objects hash cap obs (map clear_type new) = Some new' \<and> objects_ok hash cap new' \<and>
    mset (filter live_type new') = mset obs"
  using move_objects_ok [OF cleared_ok(1) [OF assms(1,2)] cleared_ok(3) [OF assms(1,2)] assms(3)]
    cleared_ok(2) [OF assms(1,2)] assms(4) by simp

subsection \<open>The invariant\<close>

text \<open>The live ids and the free ids are, together, the ids \<open>0, 1, \<dots>\<close> handed out so far, each of
  them once; the stack has room for all of them.\<close>

definition numbered :: "nat \<Rightarrow> u32" where
  "numbered n = of_nat n OR 0xFFFF0000"

definition oids_ok :: "object_list \<Rightarrow> bool" where
  "oids_ok l \<longleftrightarrow> objectCount l + freeStackTop l \<le> 65535 \<and>
     mset (map oid (filter live_type (objects l))) +
       mset (map (\<lambda>w. w OR 0xFFFF0000) (take (freeStackTop l) (freeStack l))) =
     mset (map numbered [0..<objectCount l + freeStackTop l])"

definition stack_ok :: "object_list \<Rightarrow> bool" where
  "stack_ok l \<longleftrightarrow> length (freeStack l) = freeStackCapacity l \<and>
     objectCount l + freeStackTop l \<le> freeStackCapacity l \<and> (\<exists>k. freeStackCapacity l = objectCapacity l * 2 ^ k) \<and>
     (\<exists>k. objectCapacity l = 2 ^ k)"

definition object_list_inv :: "(u32 \<Rightarrow> nat) \<Rightarrow> object_list \<Rightarrow> bool" where
  "object_list_inv hash l \<longleftrightarrow> hash_set_inv hash oid (table_view l) \<and> oids_ok l \<and> stack_ok l"

lemma numbered_or [simp]: "numbered n OR 0xFFFF0000 = numbered n"
  by (simp add: numbered_def or.assoc)

lemma numbered_low: "(numbered n AND 0xFFFF) OR 0xFFFF0000 = numbered n"
proof -
  have "((w OR 0xFFFF0000) AND 0xFFFF) OR 0xFFFF0000 = w OR (0xFFFF0000 :: u32)" for w
  proof -
    have "((w OR 0xFFFF0000) AND 0xFFFF) OR 0xFFFF0000 = (w OR 0xFFFF0000) AND (0xFFFF OR 0xFFFF0000 :: u32)"
      by (metis (no_types) bit.disj_conj_distrib2 or.right_idem)
    moreover have "(0xFFFF OR 0xFFFF0000 :: u32) = - 1" by simp
    ultimately show ?thesis by (simp only: and.right_neutral)
  qed
  then show ?thesis by (simp add: numbered_def)
qed

lemma numbered_inj: "inj_on numbered {..<65536}"
proof (rule inj_onI)
  fix m n :: nat
  assume mn: "m \<in> {..<65536}" "n \<in> {..<65536}" and eq: "numbered m = numbered n"
  have low: "numbered i AND 0xFFFF = of_nat i" if "i < 65536" for i
  proof -
    have "numbered i AND 0xFFFF = of_nat i AND 0xFFFF"
      by (simp add: numbered_def bit.conj_disj_distrib2)
    also have "\<dots> = take_bit 16 (of_nat i :: u32)"
      by (simp add: take_bit_eq_mask mask_eq_exp_minus_1)
    also have "\<dots> = of_nat i"
      using that by (simp add: take_bit_of_nat [symmetric] take_bit_nat_eq_self flip: of_nat_take_bit)
    finally show ?thesis .
  qed
  have "(of_nat m :: u32) = of_nat n" using low mn eq by (metis lessThan_iff)
  then show "m = n" using mn by (simp add: word_of_nat_eq_iff take_bit_nat_eq_self)
qed

lemma oids_distinct: "n \<le> 65535 \<Longrightarrow> distinct (map numbered [0..<n])"
  by (auto simp: distinct_map intro: inj_on_subset [OF numbered_inj])

text \<open>The next id is not in use, and taking it keeps the numbering.\<close>

lemma next_oid_ok:
  assumes ids: "oids_ok l" and stk: "stack_ok l" and room: "objectCount l < 65535" "objectCount l < objectCapacity l"
    and nxt: "next_oid l = (l1, k)"
  shows "k \<notin> set (map oid (filter live_type (objects l)))"
    and "mset (k # map oid (filter live_type (objects l))) + mset (map (\<lambda>w. w OR 0xFFFF0000) (take (freeStackTop l1) (freeStack l))) =
      mset (map numbered [0..<Suc (objectCount l) + freeStackTop l1])"
    and "Suc (objectCount l) + freeStackTop l1 \<le> 65535" "Suc (objectCount l) + freeStackTop l1 \<le> freeStackCapacity l"
    and "l1 = l\<lparr>freeStackTop := freeStackTop l1\<rparr>"
proof -
  let ?live = "map oid (filter live_type (objects l))" and ?f = "\<lambda>w :: u32. w OR 0xFFFF0000"
  obtain e where cap: "freeStackCapacity l = objectCapacity l * 2 ^ e" and len: "length (freeStack l) = freeStackCapacity l"
    and le: "objectCount l + freeStackTop l \<le> freeStackCapacity l"
    using stk by (auto simp: stack_ok_def)
  have "objectCapacity l \<le> freeStackCapacity l" using cap by simp
  moreover have bound: "objectCount l + freeStackTop l \<le> 65535"
    and all: "mset ?live + mset (map ?f (take (freeStackTop l) (freeStack l))) = mset (map numbered [0..<objectCount l + freeStackTop l])"
    using ids by (auto simp: oids_ok_def)
  ultimately have main: "mset (k # ?live) + mset (map ?f (take (freeStackTop l1) (freeStack l))) =
      mset (map numbered [0..<Suc (objectCount l) + freeStackTop l1]) \<and>
      Suc (objectCount l) + freeStackTop l1 \<le> 65535 \<and> Suc (objectCount l) + freeStackTop l1 \<le> freeStackCapacity l \<and>
      l1 = l\<lparr>freeStackTop := freeStackTop l1\<rparr>"
  proof (cases "freeStackTop l")
    case 0
    then show ?thesis
      using nxt all room \<open>objectCapacity l \<le> freeStackCapacity l\<close> by (auto simp: next_oid_def numbered_def)
  next
    case (Suc t)
    then have k: "k = ?f (freeStack l ! t)" "l1 = l\<lparr>freeStackTop := t\<rparr>" using nxt by (auto simp: next_oid_def Let_def)
    have "t < length (freeStack l)" using Suc le len by simp
    then have "take (Suc t) (freeStack l) = take t (freeStack l) @ [freeStack l ! t]" by (rule take_Suc_conv_app_nth)
    with all Suc bound le show ?thesis by (simp add: k)
  qed
  then show "mset (k # ?live) + mset (map ?f (take (freeStackTop l1) (freeStack l))) =
      mset (map numbered [0..<Suc (objectCount l) + freeStackTop l1])"
    and "Suc (objectCount l) + freeStackTop l1 \<le> 65535" "Suc (objectCount l) + freeStackTop l1 \<le> freeStackCapacity l"
    and "l1 = l\<lparr>freeStackTop := freeStackTop l1\<rparr>"
    by blast+
  have "distinct ((k # ?live) @ map ?f (take (freeStackTop l1) (freeStack l)))"
    using main oids_distinct mset_eq_imp_distinct_iff [of "(k # ?live) @ map ?f (take (freeStackTop l1) (freeStack l))"]
    by (metis mset_append)
  then show "k \<notin> set ?live" by simp
qed

subsection \<open>Allocation\<close>

lemma object_list_invD:
  assumes "object_list_inv hash l"
  shows "objects_ok hash (objectCapacity l) (objects l)" "objectCount l = length (filter live_type (objects l))"
    "distinct (map oid (filter live_type (objects l)))" "oids_ok l" "stack_ok l" "objectCount l \<le> objectCapacity l"
    "length (objects l) = objectCapacity l" "0 < objectCapacity l"
proof -
  show ok: "objects_ok hash (objectCapacity l) (objects l)"
    using assms by (simp add: object_list_inv_def hash_set_inv_def)
  show cnt: "objectCount l = length (filter live_type (objects l))"
    using assms by (simp add: object_list_inv_def hash_set_inv_def live_objects_filter)
  show "objectCount l \<le> objectCapacity l" using count_le_cap [OF ok] cnt by (simp add: live_objects_filter)
qed (use assms in \<open>auto simp: object_list_inv_def hash_set_inv_def live_objects_filter table_ok_def\<close>)

definition put_object :: "object_list \<Rightarrow> nat \<Rightarrow> map_object \<Rightarrow> object_list" where
  "put_object l i ob = l\<lparr>objects := (objects l)[i := ob]\<rparr>"

text \<open>A slot is claimed and filled: the object is in the table under a new id.\<close>

lemma claim_slot_ok:
  assumes inv: "object_list_inv hash l" and room: "objectCount l < 65535" "objectCount l < objectCapacity l"
    and f: "fills f"
  shows "\<exists>l' i k. claim_slot hash l = Some (l', Some i) \<and> oid (objects l' ! i) = k \<and> object_map l k = None \<and>
    object_list_inv hash (put_object l' i (f (objects l' ! i))) \<and>
    object_map (put_object l' i (f (objects l' ! i))) = (object_map l)(k \<mapsto> f (objects l' ! i))"
proof -
  note I = object_list_invD [OF inv]
  obtain l1 k where nxt: "next_oid l = (l1, k)" by force
  note N = next_oid_ok [OF I(4,5) room nxt]
  let ?cap = "objectCapacity l" and ?obs = "objects l"
  have same: "objects l1 = ?obs" "objectCapacity l1 = ?cap" "objectCount l1 = objectCount l"
    "freeStack l1 = freeStack l" "freeStackCapacity l1 = freeStackCapacity l"
    by (subst N(5), simp)+
  let ?new = "\<lambda>i. (?obs ! i)\<lparr>mo_type := MAP_OBJECT_NONE, oid := k\<rparr>"
  let ?P = "probe (\<lambda>i. map slot_of ?obs ! i \<noteq> Occupied) ?cap (hash k mod ?cap)"
  have hs: "hash_set_inv hash oid (table_view l)" using inv by (simp add: object_list_inv_def)
  have new: "hash_set_map oid (table_view l) k = None"
  proof -
    have "k \<notin> dom (hash_set_map oid (table_view l))"
      unfolding dom_hash_set_map using N(1) by (simp add: live_objects_filter)
    then show ?thesis by (simp add: domIff)
  qed
  have step: "\<exists>h'. insert_slot hash oid (table_view l) d = Some (h', 0) \<and> hash_set_inv hash oid h' \<and>
      hash_set_map oid h' = (hash_set_map oid (table_view l))(k \<mapsto> d)" if "oid d = k" for d
    using insert_slot_ok [OF hs, of d] room(2) new that by auto
  from step [of "?new 0"] obtain i where i: "?P = Some i"
    by (auto simp: insert_slot_def split: option.splits)
  let ?ob = "f (?new i)"
  have ob: "live_type ?ob" "oid ?ob = k" using f by (auto simp: fills_def)
  then have occ: "slot_of ?ob = Occupied" by (simp add: slot_of_simps)
  define l' where "l' = l1\<lparr>objects := ?obs[i := ?new i], objectCount := objectCount l + 1\<rparr>"
  have start: "hash k mod ?cap < ?cap" using I(8) by simp
  have i': "i < ?cap" "map slot_of ?obs ! i \<noteq> Occupied"
    using probe_stops [where stop = "\<lambda>i. map slot_of ?obs ! i \<noteq> Occupied", OF start i] by simp_all
  have probe: "probe (\<lambda>i. \<not> (mo_type (?obs ! i) \<noteq> MAP_OBJECT_NONE \<and> mo_type (?obs ! i) \<noteq> MAP_OBJECT_DELETED)) ?cap (hash k mod ?cap) = Some i"
    unfolding i [symmetric] by (rule probe_cong [OF start]) (simp add: I(7) slot_of_def)
  have claim: "claim_slot hash l = Some (l', Some i)"
    unfolding claim_slot_def nxt l'_def by (simp only: prod.case same probe option.case)
  have at: "objects l' ! i = ?new i" using i'(1) I(7) by (simp add: l'_def)
  define l2 where "l2 = put_object l' i ?ob"
  have view: "insert_slot hash oid (table_view l) ?ob = Some (table_view l2, 0)"
    using i ob by (simp add: insert_slot_def l2_def put_object_def l'_def table_view_def same map_update occ)
  then have inv2: "hash_set_inv hash oid (table_view l2)" "object_map l2 = (object_map l)(k \<mapsto> ?ob)"
    using step [OF ob(2)] by (auto simp: object_map_def)
  have "mset (live_objects (?obs[i := ?ob])) = add_mset ?ob (mset (live_objects ?obs))"
    using mset_elems_occupy [of "map slot_of ?obs" "map Some ?obs" i ?ob] i' I(7)
    by (simp add: map_update occ)
  then have live: "mset (map oid (filter live_type (objects l2))) = mset (k # map oid (filter live_type ?obs))"
    by (simp add: live_objects_filter l2_def put_object_def l'_def ob(2))
  have "oids_ok l2" "stack_ok l2"
    using N(2-4) I(5) live by (simp_all add: oids_ok_def stack_ok_def l2_def put_object_def l'_def same)
  with inv2(1) have "object_list_inv hash l2" by (simp add: object_list_inv_def)
  with claim at inv2(2) new show ?thesis by (auto simp: l2_def object_map_def)
qed

text \<open>Replacing the table by one with the same objects.\<close>

lemma retable_objects:
  assumes inv: "object_list_inv hash l" and ok: "objects_ok hash cap new"
    and m: "mset (filter live_type new) = mset (filter live_type (objects l))"
    and cap: "\<exists>e. freeStackCapacity l = cap * 2 ^ e" "\<exists>e. cap = 2 ^ e"
  shows "object_list_inv hash (l\<lparr>objects := new, objectCapacity := cap\<rparr>)"
    and "object_map (l\<lparr>objects := new, objectCapacity := cap\<rparr>) = object_map l"
proof -
  let ?l = "l\<lparr>objects := new, objectCapacity := cap\<rparr>"
  have hs: "hash_set_inv hash oid (table_view l)" using inv by (simp add: object_list_inv_def)
  have view: "table_view ?l = (table_view l)\<lparr>data := map Some new, states := map slot_of new, capacity := cap\<rparr>"
    by (simp add: table_view_def)
  have m': "mset (live_objects new) = mset (elems (states (table_view l)) (data (table_view l)))"
    using m by (simp add: live_objects_filter)
  have "mset (map oid (filter live_type new)) = mset (map oid (filter live_type (objects l)))"
    using m by (simp only: mset_map)
  then show "object_list_inv hash ?l"
    using retable(1) [OF hs ok m'] inv cap by (simp add: object_list_inv_def view oids_ok_def stack_ok_def)
  show "object_map ?l = object_map l"
    using retable(2) [OF hs ok m'] by (simp add: object_map_def view)
qed

text \<open>\<open>malloc n\<close> gives \<open>n\<close> objects, or fails.\<close>

definition malloc_ok :: "object_malloc \<Rightarrow> bool" where
  "malloc_ok malloc \<longleftrightarrow> (\<forall>n obs. malloc n = Some obs \<longrightarrow> length obs = n)"

lemma object_list_init_ok:
  assumes "malloc_ok malloc" "object_list_init malloc mem = Some l"
  shows "object_list_inv hash l" "object_map l = Map.empty"
proof -
  obtain new where new: "malloc 1 = Some new" "length new = 1"
    using assms by (auto simp: object_list_init_def malloc_ok_def split: option.splits)
  then have l: "l = \<lparr>objectCapacity = 1, objectCount = 0, freeStackCapacity = 1, freeStackTop = 0,
      objects = map clear_type new, freeStack = [0]\<rparr>"
    using assms(2) by (simp add: object_list_init_def split: if_splits)
  note c = cleared_ok [OF new(2) zero_less_one]
  show "object_list_inv hash l"
    using c(1,2) exI [of "\<lambda>k. Suc 0 = 2 ^ k" 0]
    by (simp add: l object_list_inv_def hash_set_inv_def live_objects_filter oids_ok_def stack_ok_def del: map_map)
  show "object_map l = Map.empty"
    using c(2) by (simp add: l object_map_def hash_set_map_def live_objects_filter del: map_map)
qed

text \<open>Making room: the stack grows with the table, so that it can hold every id.\<close>

definition grow_stack :: "object_list \<Rightarrow> object_list" where
  "grow_stack l =
     (if freeStackCapacity l < objectCapacity l * 2
      then l\<lparr>freeStack := take (objectCapacity l * 2) (freeStack l) @
               replicate (objectCapacity l * 2 - length (freeStack l)) 0,
             freeStackCapacity := freeStackCapacity l * 2\<rparr>
      else l)"

lemma grow_stack_same [simp]:
  "objects (grow_stack l) = objects l" "objectCapacity (grow_stack l) = objectCapacity l"
  "objectCount (grow_stack l) = objectCount l" "freeStackTop (grow_stack l) = freeStackTop l"
  "table_view (grow_stack l) = table_view l"
  by (simp_all add: grow_stack_def table_view_def)

lemma grow_stack_ok:
  assumes inv: "object_list_inv hash l"
  shows "object_list_inv hash (grow_stack l)" "\<exists>e. freeStackCapacity (grow_stack l) = objectCapacity l * 2 * 2 ^ e"
proof -
  note I = object_list_invD [OF inv]
  obtain e where e: "freeStackCapacity l = objectCapacity l * 2 ^ e" and len: "length (freeStack l) = freeStackCapacity l"
    and le: "objectCount l + freeStackTop l \<le> freeStackCapacity l"
    using I(5) by (auto simp: stack_ok_def)
  have "e = 0 \<or> objectCapacity l * 2 \<le> freeStackCapacity l"
    by (cases e) (simp_all add: e)
  moreover have small: "e = 0" if "freeStackCapacity l < objectCapacity l * 2" using calculation that by simp
  ultimately have "\<exists>e'. freeStackCapacity (grow_stack l) = objectCapacity l * 2 * 2 ^ e'"
    using e I(8) by (cases e) (auto simp: grow_stack_def intro: exI [of _ 0])
  then show *: "\<exists>e. freeStackCapacity (grow_stack l) = objectCapacity l * 2 * 2 ^ e" .
  have "length (freeStack (grow_stack l)) = freeStackCapacity (grow_stack l)"
    using small e len by (auto simp: grow_stack_def)
  moreover have "freeStackCapacity l \<le> freeStackCapacity (grow_stack l)" by (simp add: grow_stack_def)
  moreover have "\<exists>e. freeStackCapacity (grow_stack l) = objectCapacity l * 2 ^ e"
    using * by (metis mult.assoc power_Suc)
  ultimately have "stack_ok (grow_stack l)" using le I(5) by (simp add: stack_ok_def)
  moreover have "take (freeStackTop l) (freeStack (grow_stack l)) = take (freeStackTop l) (freeStack l)"
    using small e le len by (auto simp: grow_stack_def)
  then have "oids_ok (grow_stack l)" using I(4) by (simp add: oids_ok_def)
  ultimately show "object_list_inv hash (grow_stack l)" using inv by (simp add: object_list_inv_def)
qed

lemma object_list_add_ok:
  assumes inv: "object_list_inv hash l" and mal: "malloc_ok malloc" and f: "fills f"
  obtains (Added) l' ob where "object_list_add malloc mem hash f l = Some (l', Some ob)" "object_list_inv hash l'"
      "object_map l (oid ob) = None" "object_map l' = (object_map l)(oid ob \<mapsto> ob)" "live_type ob"
    | (Refused) "object_list_add malloc mem hash f l = Some (l, None)"
      "objectCount l = 65535 \<or> objectCount l = objectCapacity l \<and> (malloc (objectCapacity l * 2) = None \<or> \<not> mem)"
proof -
  note I = object_list_invD [OF inv]
  have claim: thesis if "object_list_allocate malloc mem hash l = claim_slot hash m" "object_list_inv hash m"
    "objectCount m < 65535" "objectCount m < objectCapacity m" "object_map m = object_map l" for m
  proof -
    from claim_slot_ok [OF that(2-4) f] obtain l' i where c: "claim_slot hash m = Some (l', Some i)"
      "object_map m (oid (objects l' ! i)) = None" "object_list_inv hash (put_object l' i (f (objects l' ! i)))"
      "object_map (put_object l' i (f (objects l' ! i))) = (object_map m)(oid (objects l' ! i) \<mapsto> f (objects l' ! i))"
      by blast
    show thesis
      by (rule Added [of "put_object l' i (f (objects l' ! i))" "f (objects l' ! i)"])
        (use c that(1,5) f in \<open>simp_all add: object_list_add_def put_object_def fills_def\<close>)
  qed
  show thesis
  proof (cases "objectCount l = 65535")
    case True
    then show thesis by (intro Refused) (simp_all add: object_list_add_def object_list_allocate_def)
  next
    case ne: False
    have "objectCount l \<le> 65535" using I(4) by (simp add: oids_ok_def)
    with ne have lt: "objectCount l < 65535" by simp
    show thesis
    proof (cases "objectCount l = objectCapacity l")
      case False
      then show thesis using ne lt I(6) inv by (intro claim [of l]) (simp_all add: object_list_allocate_def)
    next
      case full: True
      show thesis
      proof (cases "malloc (objectCapacity l * 2) = None \<or> freeStackCapacity l < objectCapacity l * 2 \<and> \<not> mem")
        case True
        then show thesis using ne full
          by (intro Refused) (auto simp: object_list_add_def object_list_allocate_def split: option.splits)
      next
        case False
        then obtain new where new: "malloc (objectCapacity l * 2) = Some new" "length new = objectCapacity l * 2"
          using mal by (auto simp: malloc_ok_def)
        have "length (filter live_type (objects l)) = length (objects l)" using full I(2,7) by simp
        then have "\<forall>ob \<in> set (objects l). live_type ob"
          by (metis filter_id_conv length_filter_less less_irrefl)
        with move_to_new [OF new(2), of "objects l" hash] I(7,8) obtain obs where obs:
          "move_objects hash (objectCapacity l * 2) (objects l) (map clear_type new) = Some obs"
          "objects_ok hash (objectCapacity l * 2) obs" "mset (filter live_type obs) = mset (filter live_type (objects l))"
          by (auto simp: filter_True)
        have double: "\<exists>e. objectCapacity l * 2 = 2 ^ e"
          using I(5) by (auto simp: stack_ok_def) (metis power_Suc2)
        let ?m = "(grow_stack l)\<lparr>objects := obs, objectCapacity := objectCapacity l * 2\<rparr>"
        have m: "object_list_inv hash ?m" "object_map ?m = object_map (grow_stack l)"
          using retable_objects [OF grow_stack_ok(1) [OF inv] obs(2) _ _ double] obs(3) grow_stack_ok(2) [OF inv] by simp_all
        have "object_list_allocate malloc mem hash l = claim_slot hash ?m"
          unfolding object_list_allocate_def Let_def grow_stack_def [symmetric] using ne full new(1) False obs(1)
          by (auto simp del: map_map)
        then show thesis
          using m lt I(8) full by (intro claim [of ?m]) (simp_all add: object_map_def)
      qed
    qed
  qed
qed

subsection \<open>Lookup and release\<close>

lemma object_list_get_ok:
  assumes inv: "object_list_inv hash l"
  shows "\<exists>r. object_list_get hash l k = Some r \<and> map_option (\<lambda>i. objects l ! i) r = object_map l k"
proof -
  note I = object_list_invD [OF inv]
  let ?cap = "objectCapacity l"
  have start: "hash k mod ?cap < ?cap" using I(8) by simp
  have hs: "hash_set_inv hash oid (table_view l)" using inv by (simp add: object_list_inv_def)
  show ?thesis
  proof (cases "objectCount l = 0")
    case True
    then have "dom (object_map l) = {}"
      using I(2) unfolding object_map_def dom_hash_set_map by (simp add: live_objects_filter)
    then show ?thesis using True by (simp add: object_list_get_def)
  next
    case False
    let ?skip = "\<lambda>i. mo_type (objects l ! i) = MAP_OBJECT_DELETED \<or>
      (mo_type (objects l ! i) \<noteq> MAP_OBJECT_NONE \<and> oid (objects l ! i) \<noteq> k)"
    have eq: "probe_once ?skip ?cap (hash k mod ?cap) = probe_once (skips oid (table_view l) k) ?cap (hash k mod ?cap)"
      by (rule probe_once_cong [OF start]) (auto simp: skips_def I(7) slot_of_simps live_type_def)
    note get = hash_set_get_ok [OF hs, of k, folded object_map_def]
    show ?thesis
    proof (rule probe_once_cases [OF start, of ?skip])
      fix n
      assume n: "probe_once ?skip ?cap (hash k mod ?cap) = Some (Some ((hash k mod ?cap + n) mod ?cap))"
      let ?i = "(hash k mod ?cap + n) mod ?cap"
      have i: "?i < length (objects l)" using I(7,8) by simp
      have "map slot_of (objects l) ! ?i = Free \<longleftrightarrow> mo_type (objects l ! ?i) = MAP_OBJECT_NONE"
        using i by (simp add: slot_of_simps)
      with n eq get False i show ?thesis
        by (simp add: object_list_get_def hash_set_get_def split: if_splits)
    next
      assume r: "probe_once ?skip ?cap (hash k mod ?cap) = Some None"
      then have r': "probe_once (skips oid (table_view l) k) ?cap (hash k mod ?cap) = Some None" using eq by simp
      from get have "object_map l k = None" by (simp add: hash_set_get_def r')
      then show ?thesis using False by (simp add: object_list_get_def r)
    qed
  qed
qed

lemma shrink_objects_ok:
  assumes inv: "object_list_inv hash l" and mal: "malloc_ok malloc" and small: "objectCount l < objectCapacity l div 4"
  shows "\<exists>l'. shrink_objects malloc hash l = Some l' \<and> object_list_inv hash l' \<and> object_map l' = object_map l"
proof (cases "malloc (objectCapacity l div 2)")
  case None
  with inv show ?thesis by (simp add: shrink_objects_def)
next
  case (Some new)
  note I = object_list_invD [OF inv]
  have len: "length new = objectCapacity l div 2" using Some mal by (simp add: malloc_ok_def)
  have "length (filter live_type (objects l)) \<le> objectCapacity l div 2" "0 < objectCapacity l div 2"
    using small I(2) by linarith+
  with move_to_new [OF len, of "filter live_type (objects l)" hash] obtain obs where obs:
    "move_objects hash (objectCapacity l div 2) (filter live_type (objects l)) (map clear_type new) = Some obs"
    "objects_ok hash (objectCapacity l div 2) obs" "mset (filter live_type obs) = mset (filter live_type (objects l))"
    by auto
  obtain a e where a: "objectCapacity l = 2 ^ a" "freeStackCapacity l = objectCapacity l * 2 ^ e"
    using I(5) by (auto simp: stack_ok_def)
  with small obtain b where "a = Suc b" by (cases a) auto
  then have "\<exists>e. freeStackCapacity l = objectCapacity l div 2 * 2 ^ e" "\<exists>e. objectCapacity l div 2 = 2 ^ e"
    using a by (auto intro: exI [of _ "Suc e"])
  from retable_objects [OF inv obs(2,3) this] obs(1) Some show ?thesis
    by (simp add: shrink_objects_def del: map_map)
qed

lemma mset_filter_update:
  assumes "i < length xs" "P (xs ! i)" "\<not> P y"
  shows "mset (filter P xs) = add_mset (xs ! i) (mset (filter P (xs[i := y])))"
proof -
  have "mset (filter P (take i xs @ xs ! i # drop (Suc i) xs)) = add_mset (xs ! i) (mset (filter P (xs[i := y])))"
    unfolding upd_conv_take_nth_drop [OF assms(1)] using assms(2,3) by simp
  then show ?thesis using id_take_nth_drop [OF assms(1)] by simp
qed

lemma object_list_free_ok:
  assumes inv: "object_list_inv hash l" and mal: "malloc_ok malloc" and k: "object_map l k = Some ob"
  shows "\<exists>l'. object_list_free malloc hash l k = Some l' \<and> object_list_inv hash l' \<and> object_map l' = (object_map l)(k := None)"
proof -
  note I = object_list_invD [OF inv]
  let ?cap = "objectCapacity l" and ?obs = "objects l"
  have start: "hash k mod ?cap < ?cap" using I(8) by simp
  have hs: "hash_set_inv hash oid (table_view l)" using inv by (simp add: object_list_inv_def)
  have dist: "distinct (map oid (elems (states (table_view l)) (data (table_view l))))"
    using I(3) by (simp add: live_objects_filter)
  from remove_probe [OF hs, of k ob] k obtain i where i: "i < ?cap"
    "probe (\<lambda>i. \<not> skips oid (table_view l) k i) ?cap (hash k mod ?cap) = Some i"
    "live_type (?obs ! i)" "?obs ! i = ob"
    by (auto simp: object_map_def I(7) slot_of_simps)
  have oid: "oid ob = k" using k hash_set_map_iff [OF dist] by (simp add: object_map_def)
  have probe: "probe (\<lambda>i. \<not> (mo_type (?obs ! i) = MAP_OBJECT_DELETED \<or> oid (?obs ! i) \<noteq> k) \<or> mo_type (?obs ! i) = MAP_OBJECT_NONE)
      ?cap (hash k mod ?cap) = Some i"
    unfolding i(2) [symmetric] by (rule probe_cong [OF start]) (auto simp: skips_def I(7) slot_of_simps live_type_def)
  define dead where "dead = ob\<lparr>mo_type := MAP_OBJECT_DELETED\<rparr>"
  define l1 where "l1 = l\<lparr>objects := ?obs[i := dead], freeStack := (freeStack l)[freeStackTop l := k AND 0xFFFF],
    freeStackTop := freeStackTop l + 1, objectCount := size_dec (objectCount l)\<rparr>"
  have live: "mset (filter live_type ?obs) = add_mset ob (mset (filter live_type (objects l1)))"
    using mset_filter_update [of i ?obs live_type dead] i(1,3,4) I(7) by (simp add: l1_def dead_def live_type_def)
  then have oids: "mset (map oid (filter live_type ?obs)) = add_mset k (mset (map oid (filter live_type (objects l1))))"
    by (simp add: oid)
  have cnt: "objectCount l = Suc (length (filter live_type (objects l1)))"
    using arg_cong [OF live, of size] I(2) by simp
  have cnt1: "objectCount l1 = length (filter live_type (objects l1))" using cnt by (simp add: l1_def size_dec_def)
  have n: "objectCount l = Suc (objectCount l1)" using cnt cnt1 by simp
  have flds: "freeStackTop l1 = Suc (freeStackTop l)" "freeStack l1 = (freeStack l)[freeStackTop l := k AND 0xFFFF]"
    "freeStackCapacity l1 = freeStackCapacity l" "objectCapacity l1 = ?cap"
    by (simp_all add: l1_def)
  have top: "freeStackTop l < length (freeStack l)" using cnt I(5) by (auto simp: stack_ok_def)
  have "objects_ok hash ?cap (objects l1)"
  proof -
    have "table_ok hash oid ?cap ((map slot_of ?obs)[i := Deleted]) (map Some ?obs)"
      by (rule table_ok_delete [OF I(1) i(1)])
    moreover have "(map slot_of ?obs)[i := Deleted] = map slot_of (objects l1)"
      by (simp add: l1_def map_update slot_of_def dead_def)
    moreover have "map Some (objects l1) ! j = map Some ?obs ! j" if "j < ?cap" "map slot_of (objects l1) ! j = Occupied" for j
      using that I(7) i(1) by (cases "j = i") (simp_all add: l1_def slot_of_def dead_def)
    ultimately show ?thesis by (auto simp: table_ok_def l1_def)
  qed
  moreover have view: "mset (elems (states (table_view l)) (data (table_view l))) = add_mset ob (mset (elems (states (table_view l1)) (data (table_view l1))))"
    using live by (simp add: live_objects_filter)
  moreover have "objectCapacity l1 = ?cap" by (simp add: l1_def)
  ultimately have "hash_set_inv hash oid (table_view l1)"
    using hash_set_map_add(2) [OF view dist] cnt1 by (simp add: hash_set_inv_def live_objects_filter)
  moreover have "oids_ok l1"
  proof -
    have "k \<in> set (map numbered [0..<objectCount l + freeStackTop l])"
      using I(4) oids unfolding oids_ok_def by (metis add_mset_add_single set_mset_mset union_iff union_single_eq_member)
    then have "(k AND 0xFFFF) OR 0xFFFF0000 = k" using numbered_low by auto
    then show ?thesis
      using I(4) top unfolding oids_ok_def oids flds n by (simp add: take_Suc_conv_app_nth)
  qed
  moreover have "stack_ok l1" using I(5) unfolding stack_ok_def n flds by simp
  ultimately have inv1: "object_list_inv hash l1" by (simp add: object_list_inv_def)
  have "object_map l = (object_map l1)(k \<mapsto> ob)" "object_map l1 k = None"
    using hash_set_map_add [OF view dist] oid by (simp_all add: object_map_def)
  then have map1: "object_map l1 = (object_map l)(k := None)" by (simp only: fun_upd_upd) (rule fun_upd_idem [symmetric])
  have "object_list_free malloc hash l k = (if objectCount l1 < objectCapacity l1 div 4 then shrink_objects malloc hash l1 else Some l1)"
    unfolding object_list_free_def probe l1_def dead_def using i(4) oid top by (simp add: Let_def)
  then show ?thesis using inv1 map1 shrink_objects_ok [OF inv1 mal] by auto
qed

subsection \<open>The registry interface\<close>

text \<open>What the rest of the map relies on: a finite map whose keys the registry chooses, with a
  limit on its size. An object enters under a key that is not in use.\<close>

locale registry =
  fixes invar :: "'s \<Rightarrow> bool" and content :: "'s \<Rightarrow> 'k \<Rightarrow> 'd option" and key :: "'d \<Rightarrow> 'k"
    and add :: "'f \<Rightarrow> 's \<Rightarrow> ('s \<times> 'd option) option" and release :: "'s \<Rightarrow> 'k \<Rightarrow> 's option"
    and filler :: "'f \<Rightarrow> bool"
  assumes add_law: "invar s \<Longrightarrow> filler f \<Longrightarrow>
      (\<exists>s' d. add f s = Some (s', Some d) \<and> invar s' \<and> content s (key d) = None \<and> content s' = (content s)(key d \<mapsto> d)) \<or>
      add f s = Some (s, None)"
    and release_law: "invar s \<Longrightarrow> content s k \<noteq> None \<Longrightarrow>
      \<exists>s'. release s k = Some s' \<and> invar s' \<and> content s' = (content s)(k := None)"
begin

fun add_all :: "'f list \<Rightarrow> 's \<Rightarrow> ('s \<times> 'd list) option" where
  "add_all [] s = Some (s, [])"
| "add_all (f # fs) s =
     (case add f s of
        Some (s, Some d) \<Rightarrow> (case add_all fs s of None \<Rightarrow> None | Some (s, ds) \<Rightarrow> Some (s, d # ds))
      | Some (s, None) \<Rightarrow> Some (s, [])
      | None \<Rightarrow> None)"

fun release_all :: "'k list \<Rightarrow> 's \<Rightarrow> 's option" where
  "release_all [] s = Some s"
| "release_all (k # ks) s = Option.bind (release s k) (release_all ks)"

lemma add_all_ok:
  assumes "invar s" "\<forall>f \<in> set fs. filler f"
  shows "\<exists>s' ds. add_all fs s = Some (s', ds) \<and> invar s' \<and> distinct (map key ds) \<and>
    (\<forall>d \<in> set ds. content s (key d) = None) \<and> content s' = content s ++ map_of (map (\<lambda>d. (key d, d)) ds)"
  using assms
proof (induction fs arbitrary: s)
  case (Cons f fs)
  from add_law [of s f] Cons.prems consider
      (Ok) s1 d where "add f s = Some (s1, Some d)" "invar s1" "content s (key d) = None" "content s1 = (content s)(key d \<mapsto> d)"
    | (No) "add f s = Some (s, None)" by auto
  then show ?case
  proof cases
    case Ok
    from Cons.IH [OF Ok(2)] Cons.prems(2) obtain s' ds where r: "add_all fs s1 = Some (s', ds)" "invar s'"
      "distinct (map key ds)" "\<forall>d \<in> set ds. content s1 (key d) = None"
      "content s' = content s1 ++ map_of (map (\<lambda>d. (key d, d)) ds)" by auto
    have ne: "\<forall>x \<in> set ds. key x \<noteq> key d \<and> content s (key x) = None" using r(4) Ok(4) by (auto split: if_splits)
    then have "key d \<notin> dom (map_of (map (\<lambda>d. (key d, d)) ds))" by (auto simp: dom_map_of_conv_image_fst)
    then have "content s' = (content s ++ map_of (map (\<lambda>d. (key d, d)) ds))(key d \<mapsto> d)"
      by (simp add: r(5) Ok(4) map_add_upd_left)
    with r ne Ok show ?thesis by auto
  qed (use Cons.prems in auto)
qed auto

lemma release_all_ok:
  assumes "invar s" "distinct ks" "\<forall>k \<in> set ks. content s k \<noteq> None"
  shows "\<exists>s'. release_all ks s = Some s' \<and> invar s' \<and> content s' = content s |` (- set ks)"
  using assms
proof (induction ks arbitrary: s)
  case (Cons k ks)
  from release_law [of s k] Cons.prems obtain s1 where s1: "release s k = Some s1" "invar s1" "content s1 = (content s)(k := None)"
    by auto
  have "\<forall>x \<in> set ks. content s1 x \<noteq> None" using Cons.prems(2,3) by (auto simp: s1(3))
  with Cons.IH [OF s1(2)] Cons.prems(2) obtain s' where "release_all ks s1 = Some s'" "invar s'" "content s' = content s1 |` (- set ks)"
    by auto
  with s1 show ?case by (auto simp: restrict_map_def fun_eq_iff)
qed (auto simp: restrict_map_def fun_eq_iff)

end

interpretation oids: registry "\<lambda>l. object_list_inv hash l \<and> malloc_ok m" object_map oid "object_list_add m mem hash" "object_list_free m hash"
  fills for hash m mem
proof unfold_locales
  fix s f
  assume "object_list_inv hash s \<and> malloc_ok m" "fills f"
  then show "(\<exists>s' d. object_list_add m mem hash f s = Some (s', Some d) \<and> (object_list_inv hash s' \<and> malloc_ok m) \<and>
      object_map s (oid d) = None \<and> object_map s' = (object_map s)(oid d \<mapsto> d)) \<or> object_list_add m mem hash f s = Some (s, None)"
    using object_list_add_ok [of hash s m f mem] by metis
next
  fix s k
  assume "object_list_inv hash s \<and> malloc_ok m" "object_map s k \<noteq> None"
  then show "\<exists>s'. object_list_free m hash s k = Some s' \<and> (object_list_inv hash s' \<and> malloc_ok m) \<and> object_map s' = (object_map s)(k := None)"
    using object_list_free_ok [of hash s m k] by fastforce
qed

subsection \<open>Properties\<close>

text \<open>The states of a map's object list: created, then changed by adding objects and by freeing
  objects that are in it.\<close>

inductive object_list_reachable :: "object_malloc \<Rightarrow> (u32 \<Rightarrow> nat) \<Rightarrow> object_list \<Rightarrow> bool" for m hash where
  init: "object_list_init m mem = Some l \<Longrightarrow> object_list_reachable m hash l"
| add: "object_list_reachable m hash l \<Longrightarrow> fills f \<Longrightarrow> object_list_add m mem hash f l = Some (l', r) \<Longrightarrow>
    object_list_reachable m hash l'"
| free: "object_list_reachable m hash l \<Longrightarrow> object_list_get hash l k = Some (Some i) \<Longrightarrow>
    object_list_free m hash l k = Some l' \<Longrightarrow> object_list_reachable m hash l'"

text \<open>What a lookup finds; \<open>None\<close> where the loop would not return.\<close>

definition found :: "(u32 \<Rightarrow> nat) \<Rightarrow> object_list \<Rightarrow> u32 \<Rightarrow> map_object option option" where
  "found hash l k = map_option (map_option (\<lambda>i. objects l ! i)) (object_list_get hash l k)"

lemma found_ok: "object_list_inv hash l \<Longrightarrow> found hash l k = Some (object_map l k)"
  using object_list_get_ok [of hash l k] by (auto simp: found_def)

lemma get_found: "object_list_get hash l k = Some (Some i) \<Longrightarrow> object_list_inv hash l \<Longrightarrow> object_map l k \<noteq> None"
  using object_list_get_ok [of hash l k] by (metis map_option_is_None option.distinct(1) option.inject)

lemma reachable_inv:
  assumes "object_list_reachable m hash l" "malloc_ok m"
  shows "object_list_inv hash l"
  using assms
proof (induction rule: object_list_reachable.induct)
  case (init mem l)
  then show ?case by (blast intro: object_list_init_ok)
next
  case (add l f mem l' r)
  then show ?case using oids.add_law [where hash = hash and m = m and mem = mem and s = l and f = f] by auto
next
  case (free l k i l')
  then show ?case using oids.release_law [where hash = hash and m = m and s = l and k = k] get_found [OF free.hyps(2)] by auto
qed

text \<open>
  C12: An object is registered under an id that is not in use, and can then be found under that
  id, while every other lookup is as before. This holds in every state of the object list that a
  map can bring about. The call always returns, and it refuses only when all 65535 ids are taken or
  memory for a larger table is missing; then nothing changes.
\<close>

theorem object_list_registers:
  assumes "object_list_reachable m hash l" and "malloc_ok m" and "fills f"
  shows "\<exists>l' r. object_list_add m mem hash f l = Some (l', r) \<and>
    (case r of
       None \<Rightarrow> l' = l \<and> (objectCount l = 65535 \<or> m (objectCapacity l * 2) = None \<or> \<not> mem)
     | Some ob \<Rightarrow> live_type ob \<and> found hash l (oid ob) = Some None \<and>
         (\<forall>k. found hash l' k = (if k = oid ob then Some (Some ob) else found hash l k)))"
proof -
  have inv: "object_list_inv hash l" by (rule reachable_inv [OF assms(1,2)])
  show ?thesis
  proof (rule object_list_add_ok [OF inv assms(2,3), of mem])
    fix l' ob
    assume "object_list_add m mem hash f l = Some (l', Some ob)" "object_list_inv hash l'" "live_type ob"
      "object_map l (oid ob) = None" "object_map l' = (object_map l)(oid ob \<mapsto> ob)"
    then show ?thesis using inv by (simp add: found_ok)
  qed auto
qed

definition zeroed :: "nat \<Rightarrow> map_object list option" where
  "zeroed n = Some (replicate n \<lparr>mo_type = MAP_OBJECT_NONE, oid = 0, mo_index = 0, mo_index2 = 0\<rparr>)"

definition as_npc :: "nat \<Rightarrow> map_object \<Rightarrow> map_object" where
  "as_npc i ob = ob\<lparr>mo_type := MAP_OBJECT_NPC, mo_index := i\<rparr>"

lemma zeroed_ok: "malloc_ok zeroed" "fills (as_npc i)"
  by (simp_all add: malloc_ok_def zeroed_def fills_def as_npc_def live_type_def)

theorem object_list_registers_witness:
  "\<exists>l l' ob. object_list_init zeroed True = Some l \<and> object_list_add zeroed True unat (as_npc 7) l = Some (l', Some ob) \<and>
     found unat l' (oid ob) = Some (Some ob)"
proof -
  obtain l where l: "object_list_init zeroed True = Some l" "objectCount l = 0"
    by (simp add: object_list_init_def zeroed_def)
  from object_list_registers [OF object_list_reachable.init [OF l(1), of unat] zeroed_ok(1) zeroed_ok(2) [of 7], of True]
  obtain l' r where r: "object_list_add zeroed True unat (as_npc 7) l = Some (l', r)"
    "case r of None \<Rightarrow> l' = l \<and> (objectCount l = 65535 \<or> zeroed (objectCapacity l * 2) = None \<or> \<not> True)
     | Some ob \<Rightarrow> live_type ob \<and> found unat l (oid ob) = Some None \<and>
         (\<forall>k. found unat l' k = (if k = oid ob then Some (Some ob) else found unat l k))"
    by blast
  show ?thesis
  proof (cases r)
    case None
    with r(2) l(2) show ?thesis by (simp add: zeroed_def)
  next
    case (Some ob)
    with r(2) have "found unat l' (oid ob) = Some (Some ob)" by simp
    with r(1) Some l(1) show ?thesis by blast
  qed
qed

text \<open>
  C15: Freeing an object that is in the list returns, its id is free afterwards, and every other
  object can still be found. This holds also when the table is halved by it.
\<close>

theorem object_list_releases:
  assumes "object_list_reachable m hash l" and "malloc_ok m" and "found hash l k = Some (Some ob)"
  shows "\<exists>l'. object_list_free m hash l k = Some l' \<and>
    (\<forall>k'. found hash l' k' = (if k' = k then Some None else found hash l k'))"
proof -
  have inv: "object_list_inv hash l" by (rule reachable_inv [OF assms(1,2)])
  with assms(3) have "object_map l k = Some ob" by (simp add: found_ok)
  from object_list_free_ok [OF inv assms(2) this] obtain l' where
    "object_list_free m hash l k = Some l'" "object_list_inv hash l'" "object_map l' = (object_map l)(k := None)" by blast
  with inv show ?thesis by (simp add: found_ok)
qed

theorem object_list_releases_witness:
  "\<exists>l l' ob l''. object_list_init zeroed True = Some l \<and> object_list_add zeroed True unat (as_npc 7) l = Some (l', Some ob) \<and>
     object_list_free zeroed unat l' (oid ob) = Some l'' \<and> found unat l'' (oid ob) = Some None"
proof -
  obtain l where l: "object_list_init zeroed True = Some l" "objectCount l = 0" "objectCapacity l = 1"
    by (simp add: object_list_init_def zeroed_def)
  note reach = object_list_reachable.init [OF l(1), of unat]
  have inv: "object_list_inv unat l" by (rule reachable_inv [OF reach zeroed_ok(1)])
  show ?thesis
  proof (rule object_list_add_ok [OF inv zeroed_ok(1,2), of True 7])
    fix l' ob
    assume add: "object_list_add zeroed True unat (as_npc 7) l = Some (l', Some ob)" "object_list_inv unat l'"
      "object_map l' = (object_map l)(oid ob \<mapsto> ob)"
    then have "found unat l' (oid ob) = Some (Some ob)" by (simp add: found_ok)
    from object_list_releases [OF object_list_reachable.add [OF reach zeroed_ok(2) add(1)] zeroed_ok(1) this] add(1) l(1)
    show ?thesis by auto
  qed (use l in auto)
qed

text \<open>
  The ids of the objects on a map have the high half \<open>0xFFFF\<close> and a low half below 65535,
  and no two objects share an id; there are at most 65535 objects.
\<close>

theorem object_ids_in_range:
  assumes "object_list_reachable m hash l" and "malloc_ok m"
  shows "objectCount l = length (filter live_type (objects l)) \<and> objectCount l \<le> 65535 \<and>
    distinct (map oid (filter live_type (objects l))) \<and>
    (\<forall>ob \<in> set (filter live_type (objects l)). \<exists>n < 65535. oid ob = of_nat n OR 0xFFFF0000)"
proof -
  have inv: "object_list_inv hash l" by (rule reachable_inv [OF assms])
  note I = object_list_invD [OF inv]
  have "set (map oid (filter live_type (objects l))) \<subseteq> set (map numbered [0..<objectCount l + freeStackTop l])"
    using I(4) unfolding oids_ok_def by (metis mset_subset_eq_add_left set_mset_mono set_mset_mset)
  moreover have "objectCount l + freeStackTop l \<le> 65535" using I(4) by (simp add: oids_ok_def)
  moreover have "oid ob \<in> set (map oid (filter live_type (objects l)))" if "ob \<in> set (filter live_type (objects l))" for ob
    using that by auto
  ultimately have "\<exists>n < 65535. oid ob = numbered n" if "ob \<in> set (filter live_type (objects l))" for ob
    using that by (auto dest!: subsetD) (metis less_le_trans)
  then show ?thesis using I(2,3,4) by (auto simp: oids_ok_def numbered_def)
qed

theorem object_ids_in_range_witness:
  "\<exists>l. object_list_init zeroed True = Some l \<and> objectCount l \<le> 65535 \<and> distinct (map oid (filter live_type (objects l)))"
proof -
  obtain l where l: "object_list_init zeroed True = Some l"
    by (simp add: object_list_init_def zeroed_def)
  with object_ids_in_range [OF object_list_reachable.init [OF l, of unat] zeroed_ok(1)] show ?thesis by blast
qed

end
