(* ===== verification/Client.thy ===== *)
theory Client
  imports Character_Packets Stat_Packet "HOL-Library.Signed_Division"
begin

unbundle bit_operations_syntax

text \<open>
  The player's side of the channel server (\<^verbatim>\<open>src/src/channel/client.c\<close>): the state of a client,
  what it sends, and the operations on stats, money and keys.

  \<open>client\<close> is the part of \<open>struct Client\<close> these operations use. What they send is appended to
  \<open>cl_sent\<close>: one \<open>message\<close> per call of \<open>session_write\<close>, \<open>session_broadcast_to_room\<close> (everyone else in
  the room) or \<open>room_broadcast\<close> (everyone), holding the arguments of the packet builder that
  produces its bytes. \<open>message_packet\<close> is the call of that builder on the array that is sent.

  Numbers of \<open>int16_t\<close> and \<open>int32_t\<close> fields are \<open>int\<close>s that are converted where C converts them;
  results of \<open>rand\<close> are an argument.
\<close>

subsection \<open>State and messages\<close>

datatype message =
    Modify_items u8 "inventory_modify list"
  | Update_char_look character
  | Stat_change bool u32 "u32 list"
  | Inventory_full_notification
  | Meso_gain int
  | Meso_gain_in_chat int
  | Exp_gain int
  | Exp_gain_in_chat int
  | Item_gain_in_chat u32 int
  | Show_foreign_effect u32 u8
  | Set_chair u32 u32
  | Stand_up
  | Shop_action_response u8
  | Open_shop "u32 \<Rightarrow> item_info option" u32 "shop_item list"
  | Update_quest u16 bytes
  | Start_quest u16 u32
  | End_quest u16 u32 u16
  | Quest_completion_time "int \<Rightarrow> int" u16 int
  | Forfeit_quest u16
  | Show_effect u8
  | Update_skill u32 int int
  | Popup_message bytes
  | Npc_dialogue u32 nat bytes u8
  | Npc_get_number u32 bytes u8 int int int
  | Server_message bytes
  | Show_info bytes
  | Show_intro bytes
  | Open_storage storage u32
  | Sit_on_map_seat u16
  | Party_status_message u8
  | Party_created u32
  | Party_disbanded u32 u32

datatype recipient = To_session | To_others | To_room

record client =
  cl_character :: character
  cl_shop :: u32
  cl_stats :: u32
  cl_autoPickup :: bool
  cl_sent :: "(recipient \<times> message) list"

definition send :: "recipient \<Rightarrow> message \<Rightarrow> client \<Rightarrow> client" where
  "send r msg c = c\<lparr>cl_sent := cl_sent c @ [(r, msg)]\<rparr>"

definition sized :: "nat \<Rightarrow> werror + bytes \<Rightarrow> werror + bytes \<times> nat" where
  "sized n r = (case r of Inl e \<Rightarrow> Inl e | Inr bs \<Rightarrow> Inr (bs, n))"

fun message_packet :: "message \<Rightarrow> bytes \<Rightarrow> werror + bytes \<times> nat" where
  "message_packet (Modify_items n mods) pkt = modify_items_packet n mods pkt"
| "message_packet (Update_char_look chr) pkt = update_char_look_packet chr pkt"
| "message_packet (Stat_change enable stats vs) pkt = stat_change_packet enable stats vs pkt"
| "message_packet Inventory_full_notification pkt =
     sized INVENTORY_FULL_NOTIFICATION_PACKET_LENGTH (inventory_full_notification_packet pkt)"
| "message_packet (Meso_gain n) pkt = sized MESO_GAIN_PACKET_LENGTH (meso_gain_packet n pkt)"
| "message_packet (Meso_gain_in_chat n) pkt = sized MESO_GAIN_IN_CHAT_PACKET_LENGTH (meso_gain_in_chat_packet n pkt)"
| "message_packet (Exp_gain n) pkt = sized EXP_GAIN_PACKET_LENGTH (exp_gain_packet n 0 0 True pkt)"
| "message_packet (Exp_gain_in_chat n) pkt = sized EXP_GAIN_IN_CHAT_PACKET_LENGTH (exp_gain_in_chat_packet n 0 0 True pkt)"
| "message_packet (Item_gain_in_chat iid n) pkt = sized ITEM_GAIN_IN_CHAT_PACKET_LENGTH (item_gain_in_chat_packet iid n pkt)"
| "message_packet (Show_foreign_effect cid effect) pkt = sized SHOW_FOREIGN_EFFECT_PACKET_LENGTH (show_foreign_effect_packet cid effect pkt)"
| "message_packet (Set_chair cid chair) pkt = sized SET_CHAIR_PACKET_LENGTH (set_chair_packet cid chair pkt)"
| "message_packet Stand_up pkt = sized STAND_UP_PACKET_LENGTH (stand_up_packet pkt)"
| "message_packet (Shop_action_response code) pkt = sized SHOP_ACTION_RESPONSE_PACKET_LENGTH (shop_action_response code pkt)"
| "message_packet (Open_shop wz sid items) pkt = open_shop_packet wz sid (of_nat (length items)) items pkt"
| "message_packet (Update_quest qid progress) pkt = update_quest_packet qid (of_nat (length progress)) progress pkt"
| "message_packet (Start_quest qid npc) pkt = sized START_QUEST_PACKET_LENGTH (start_quest_packet qid npc pkt)"
| "message_packet (End_quest qid npc nxt) pkt = sized END_QUEST_PACKET_LENGTH (end_quest_packet qid npc nxt pkt)"
| "message_packet (Quest_completion_time gmtoff qid sec) pkt =
     sized UPDATE_QUEST_COMPLETION_TIME_PACKET_LENGTH (update_quest_completion_time_packet gmtoff qid sec pkt)"
| "message_packet (Forfeit_quest qid) pkt = sized FORFEIT_QUEST_PACKET_LENGTH (forfeit_quest_packet qid pkt)"
| "message_packet (Show_effect effect) pkt = sized SHOW_EFFECT_PACKET_LENGTH (show_effect_packet effect pkt)"
| "message_packet (Update_skill sid level master) pkt = sized UPDATE_SKILL_PACKET_LENGTH (update_skill_packet sid level master pkt)"
| "message_packet (Popup_message text) pkt = popup_message_packet (of_nat (length text)) text pkt"
| "message_packet (Npc_dialogue npc kind text speaker) pkt = npc_dialogue_packet npc kind (of_nat (length text)) text speaker pkt"
| "message_packet (Npc_get_number npc text speaker dflt lo hi) pkt =
     npc_get_number_packet npc (of_nat (length text)) text speaker dflt lo hi pkt"
| "message_packet (Server_message text) pkt = server_message_packet (of_nat (length text)) text pkt"
| "message_packet (Show_info path) pkt = show_info_packet (of_nat (length path)) path pkt"
| "message_packet (Show_intro path) pkt = show_intro_packet (of_nat (length path)) path pkt"
| "message_packet (Open_storage sto npc) pkt = open_storage_packet sto npc pkt"
| "message_packet (Sit_on_map_seat seat) pkt = sized SIT_ON_MAP_SEAT_PACKET_LENGTH (sit_on_map_seat_packet seat pkt)"
| "message_packet (Party_status_message code) pkt = sized PARTY_STATUS_MESSAGE_PACKET_LENGTH (party_status_message_packet code pkt)"
| "message_packet (Party_created pid) pkt = sized PARTY_CREATE_PACKET_LENGTH (party_create_packet pid pkt)"
| "message_packet (Party_disbanded pid leader) pkt = sized PARTY_DISBAND_PACKET_LENGTH (party_disband_packet pid leader pkt)"

definition add_stat :: "u32 \<Rightarrow> client \<Rightarrow> client" where
  "add_stat flag c = c\<lparr>cl_stats := cl_stats c OR flag\<rparr>"

definition on_character :: "(character \<Rightarrow> character) \<Rightarrow> client \<Rightarrow> client" where
  "on_character f c = c\<lparr>cl_character := f (cl_character c)\<rparr>"

lemma client_simps [simp]:
  "cl_character (send r msg c) = cl_character c" "cl_stats (send r msg c) = cl_stats c"
  "cl_shop (send r msg c) = cl_shop c" "cl_autoPickup (send r msg c) = cl_autoPickup c"
  "cl_sent (send r msg c) = cl_sent c @ [(r, msg)]"
  "cl_character (add_stat flag c) = cl_character c" "cl_stats (add_stat flag c) = cl_stats c OR flag"
  "cl_shop (add_stat flag c) = cl_shop c" "cl_sent (add_stat flag c) = cl_sent c"
  "cl_character (on_character f c) = f (cl_character c)" "cl_stats (on_character f c) = cl_stats c"
  "cl_shop (on_character f c) = cl_shop c" "cl_sent (on_character f c) = cl_sent c"
  by (simp_all add: send_def add_stat_def on_character_def)

definition STAT_LEVEL :: u32 where "STAT_LEVEL = 0x10"
definition STAT_JOB :: u32 where "STAT_JOB = 0x20"
definition STAT_STR :: u32 where "STAT_STR = 0x40"
definition STAT_DEX :: u32 where "STAT_DEX = 0x80"
definition STAT_INT :: u32 where "STAT_INT = 0x100"
definition STAT_LUK :: u32 where "STAT_LUK = 0x200"
definition STAT_HP :: u32 where "STAT_HP = 0x400"
definition STAT_MAX_HP :: u32 where "STAT_MAX_HP = 0x800"
definition STAT_MP :: u32 where "STAT_MP = 0x1000"
definition STAT_MAX_MP :: u32 where "STAT_MAX_MP = 0x2000"
definition STAT_AP :: u32 where "STAT_AP = 0x4000"
definition STAT_SP :: u32 where "STAT_SP = 0x8000"
definition STAT_EXP :: u32 where "STAT_EXP = 0x10000"
definition STAT_FAME :: u32 where "STAT_FAME = 0x20000"
definition STAT_MESO :: u32 where "STAT_MESO = 0x40000"
definition STAT_PET :: u32 where "STAT_PET = 0x180008"

subsection \<open>Hit points, mana, money and points\<close>

definition client_update_player_pos :: "client \<Rightarrow> int \<Rightarrow> int \<Rightarrow> u16 \<Rightarrow> u8 \<Rightarrow> client" where
  "client_update_player_pos c x y fh stance =
     on_character (\<lambda>chr. chr\<lparr>chr_x := x, chr_y := y, chr_fh := fh, chr_stance := stance\<rparr>) c"

definition client_set_hp :: "client \<Rightarrow> int \<Rightarrow> client" where
  "client_set_hp c hp =
     (if hp = chr_hp (cl_character c) then c
      else add_stat STAT_HP (on_character (\<lambda>chr. character_set_hp chr hp) c))"

definition client_set_hp_now :: "client \<Rightarrow> int \<Rightarrow> client" where
  "client_set_hp_now c hp =
     (let c = on_character (\<lambda>chr. character_set_hp chr hp) c
      in send To_session (Stat_change True STAT_HP [word_of_int (chr_hp (cl_character c))]) c)"

text \<open>The overflow protection shared by the adjusting functions; \<open>INT16_MIN - hp\<close> is computed
  as an \<open>int\<close>.\<close>

definition clamp_adjust :: "int \<Rightarrow> int \<Rightarrow> int" where
  "clamp_adjust v d =
     (if d > 0 \<and> v > 32767 - d then 32767 - v
      else if v < - 32768 - d then - 32768 - v else d)"

definition client_adjust_hp :: "client \<Rightarrow> int \<Rightarrow> client" where
  "client_adjust_hp c hp =
     (let v = chr_hp (cl_character c) in client_set_hp c (to_i16 (v + clamp_adjust v hp)))"

definition client_adjust_hp_now :: "client \<Rightarrow> int \<Rightarrow> client" where
  "client_adjust_hp_now c hp =
     (let v = chr_hp (cl_character c) in client_set_hp_now c (to_i16 (v + clamp_adjust v hp)))"

definition client_set_mp :: "client \<Rightarrow> int \<Rightarrow> client" where
  "client_set_mp c mp =
     (if mp = chr_mp (cl_character c) then c
      else add_stat STAT_MP (on_character (\<lambda>chr. character_set_mp chr mp) c))"

definition client_set_mp_now :: "client \<Rightarrow> int \<Rightarrow> client" where
  "client_set_mp_now c mp =
     (let c = on_character (\<lambda>chr. character_set_mp chr mp) c
      in send To_session (Stat_change True STAT_MP [word_of_int (chr_mp (cl_character c))]) c)"

definition client_adjust_mp :: "client \<Rightarrow> int \<Rightarrow> client" where
  "client_adjust_mp c mp =
     (let v = chr_mp (cl_character c);
          mp = (if mp > 0 \<and> v > 32767 - mp then to_i16 (32767 - v) else mp)
      in client_set_mp c (to_i16 (v + mp)))"

definition client_adjust_mp_now :: "client \<Rightarrow> int \<Rightarrow> client" where
  "client_adjust_mp_now c mp =
     (let v = chr_mp (cl_character c) in client_set_mp_now c (to_i16 (v + clamp_adjust v mp)))"

definition client_adjust_sp :: "client \<Rightarrow> int \<Rightarrow> client" where
  "client_adjust_sp c sp =
     (let v = chr_sp (cl_character c);
          sp = (if sp > 0 \<and> v > 32767 - sp then to_i16 (32767 - v) else sp)
      in add_stat STAT_SP (on_character (\<lambda>chr. character_set_sp chr (to_i16 (v + sp))) c))"

text \<open>\<open>DEFINE_STAT_ADJUST\<close>, with the field and its setter as arguments, and its four uses.\<close>

definition stat_adjust :: "(character \<Rightarrow> int) \<Rightarrow> (character \<Rightarrow> int \<Rightarrow> character) \<Rightarrow> u32 \<Rightarrow> client \<Rightarrow> int \<Rightarrow> client" where
  "stat_adjust stat_get stat_set flag c amount =
     (let chr = cl_character c
      in if amount = 0 then c
         else if chr_ap chr \<ge> amount
         then let amount = (if amount > 32767 - stat_get chr then to_i16 (32767 - stat_get chr) else amount);
                  chr = stat_set chr (to_i16 (stat_get chr + amount));
                  chr = character_set_ap chr (to_i16 (chr_ap chr - amount))
              in add_stat (flag OR STAT_AP) (c\<lparr>cl_character := chr\<rparr>)
         else c)"

definition client_adjust_str :: "client \<Rightarrow> int \<Rightarrow> client" where
  "client_adjust_str = stat_adjust chr_str character_set_str STAT_STR"

definition client_adjust_dex :: "client \<Rightarrow> int \<Rightarrow> client" where
  "client_adjust_dex = stat_adjust chr_dex character_set_dex STAT_DEX"

definition client_adjust_int :: "client \<Rightarrow> int \<Rightarrow> client" where
  "client_adjust_int = stat_adjust chr_int character_set_int STAT_INT"

definition client_adjust_luk :: "client \<Rightarrow> int \<Rightarrow> client" where
  "client_adjust_luk = stat_adjust chr_luk character_set_luk STAT_LUK"

text \<open>The sums are \<open>int\<close> additions: an overflow is undefined.\<close>

definition client_gain_meso :: "client \<Rightarrow> int \<Rightarrow> bool \<Rightarrow> bool \<Rightarrow> client option" where
  "client_gain_meso c mesos pickup reward =
     (let have = chr_mesos (cl_character c);
          mesos = (if mesos > 0 then (if have > 2147483647 - mesos then 2147483647 - have else mesos)
                   else if have + mesos < 0 then have else mesos)
      in if \<not> in_i32 (have + mesos) then None
         else let c = add_stat STAT_MESO (on_character (\<lambda>chr. character_set_meso chr (have + mesos)) c)
              in Some (if pickup then send To_session (Meso_gain mesos) c
                       else if reward then send To_session (Meso_gain_in_chat mesos) c
                       else c))"

definition client_adjust_fame :: "client \<Rightarrow> int \<Rightarrow> client" where
  "client_adjust_fame c fame =
     (let v = chr_fame (cl_character c);
          fame = (if fame > 0 \<and> v > 32767 - fame then to_i16 (32767 - v) else fame);
          fame = (if fame < 0 \<and> v < - 32768 - fame then to_i16 (- 32768 - v) else fame)
      in add_stat STAT_FAME (on_character (\<lambda>chr. character_set_fame chr (to_i16 (v + fame))) c))"

subsection \<open>Committing stats\<close>

text \<open>The values in the order of the flags; for \<open>STAT_PET\<close> no value is stored.\<close>

definition commit_table :: "(u32 \<times> (character \<Rightarrow> u32 list)) list" where
  "commit_table =
     [(0x1, \<lambda>chr. [ucast (chr_skin chr)]),
      (0x2, \<lambda>chr. [chr_face chr]),
      (0x4, \<lambda>chr. [chr_hair chr]),
      (STAT_LEVEL, \<lambda>chr. [ucast (chr_level chr)]),
      (STAT_JOB, \<lambda>chr. [ucast (of_nat (chr_job chr) :: u16)]),
      (STAT_STR, \<lambda>chr. [word_of_int (chr_str chr)]),
      (STAT_DEX, \<lambda>chr. [word_of_int (chr_dex chr)]),
      (STAT_INT, \<lambda>chr. [word_of_int (chr_int chr)]),
      (STAT_LUK, \<lambda>chr. [word_of_int (chr_luk chr)]),
      (STAT_HP, \<lambda>chr. [word_of_int (chr_hp chr)]),
      (STAT_MAX_HP, \<lambda>chr. [word_of_int (chr_maxHp chr)]),
      (STAT_MP, \<lambda>chr. [word_of_int (chr_mp chr)]),
      (STAT_MAX_MP, \<lambda>chr. [word_of_int (chr_maxMp chr)]),
      (STAT_AP, \<lambda>chr. [word_of_int (chr_ap chr)]),
      (STAT_SP, \<lambda>chr. [word_of_int (chr_sp chr)]),
      (STAT_EXP, \<lambda>chr. [word_of_int (chr_exp chr)]),
      (STAT_FAME, \<lambda>chr. [word_of_int (chr_fame chr)]),
      (STAT_MESO, \<lambda>chr. [word_of_int (chr_mesos chr)]),
      (STAT_PET, \<lambda>chr. []),
      (0x200000, \<lambda>chr. [word_of_int (chr_gachaExp chr)])]"

definition commit_values :: "u32 \<Rightarrow> character \<Rightarrow> u32 list" where
  "commit_values stats chr = concat (map (\<lambda>(flag, vs). if stats AND flag \<noteq> 0 then vs chr else []) commit_table)"

definition client_commit_stats :: "client \<Rightarrow> client" where
  "client_commit_stats c =
     (let c = send To_session (Stat_change True (cl_stats c) (commit_values (cl_stats c) (cl_character c))) c
      in c\<lparr>cl_stats := 0\<rparr>)"

definition client_enable_actions :: "client \<Rightarrow> client" where
  "client_enable_actions c = send To_session (Stat_change True 0 []) c"

definition client_toggle_auto_pickup :: "client \<Rightarrow> client" where
  "client_toggle_auto_pickup c = c\<lparr>cl_autoPickup := \<not> cl_autoPickup c\<rparr>"

definition client_is_auto_pickup_enabled :: "client \<Rightarrow> bool" where
  "client_is_auto_pickup_enabled c = cl_autoPickup c"

subsection \<open>Keys\<close>

definition client_add_key :: "client \<Rightarrow> u32 \<Rightarrow> u8 \<Rightarrow> u32 \<Rightarrow> client \<times> bool" where
  "client_add_key c k typ action =
     (if unat k \<ge> KEYMAP_MAX_KEYS then (c, False)
      else (on_character (\<lambda>chr. chr\<lparr>keyMap := (keyMap chr)[unat k := \<lparr>km_type = typ, km_action = action\<rparr>]\<rparr>) c, True))"

definition client_add_skill_key :: "client \<Rightarrow> u32 \<Rightarrow> u32 \<Rightarrow> client \<times> bool" where
  "client_add_skill_key c k skill_id =
     (if unat k \<ge> KEYMAP_MAX_KEYS then (c, False)
      else (on_character (\<lambda>chr. chr\<lparr>keyMap := (keyMap chr)[unat k := \<lparr>km_type = 1, km_action = skill_id\<rparr>]\<rparr>) c, True))"

definition client_remove_key :: "client \<Rightarrow> u32 \<Rightarrow> u32 \<Rightarrow> client \<times> bool" where
  "client_remove_key c k action =
     (if unat k \<ge> KEYMAP_MAX_KEYS \<or> km_type (keyMap (cl_character c) ! unat k) = 0 then (c, False)
      else (on_character (\<lambda>chr. chr\<lparr>keyMap := (keyMap chr)[unat k := \<lparr>km_type = 0, km_action = 0\<rparr>]\<rparr>) c, True))"

subsection \<open>Jobs and levels\<close>

definition JOB_BEGINNER :: nat where "JOB_BEGINNER = 0"
definition JOB_NOBLESSE :: nat where "JOB_NOBLESSE = 1000"
definition JOB_LEGEND :: nat where "JOB_LEGEND = 2000"

text \<open>\<open>client_reset_stats\<close>: the four base stats go back to 4 and their points to \<open>ap\<close>; then the
  job's main stat is bought again. \<open>job_reset\<close> is the \<open>switch\<close>.\<close>

definition job_reset :: "character \<Rightarrow> character" where
  "job_reset chr =
     (let level = int (unat (chr_level chr))
      in if chr_job chr \<in> {100, 1100, 2100}
         then let chr = chr\<lparr>chr_ap := to_i16 (chr_ap chr - (35 - chr_str chr))\<rparr>; chr = chr\<lparr>chr_str := 35\<rparr>
              in chr\<lparr>chr_sp := to_i16 (chr_sp chr + (level - 10) * 3)\<rparr>
         else if chr_job chr \<in> {200, 1200}
         then let chr = chr\<lparr>chr_ap := to_i16 (chr_ap chr - (20 - chr_int chr))\<rparr>; chr = chr\<lparr>chr_int := 20\<rparr>
              in chr\<lparr>chr_sp := to_i16 (chr_sp chr + (level - 8) * 3)\<rparr>
         else if chr_job chr \<in> {300, 1300, 400, 1400}
         then let chr = chr\<lparr>chr_ap := to_i16 (chr_ap chr - (25 - chr_dex chr))\<rparr>; chr = chr\<lparr>chr_dex := 25\<rparr>
              in chr\<lparr>chr_sp := to_i16 (chr_sp chr + (level - 10) * 3)\<rparr>
         else if chr_job chr \<in> {500, 1500}
         then let chr = chr\<lparr>chr_ap := to_i16 (chr_ap chr - (20 - chr_dex chr))\<rparr>; chr = chr\<lparr>chr_dex := 20\<rparr>
              in chr\<lparr>chr_sp := to_i16 (chr_sp chr + (level - 10) * 3)\<rparr>
         else chr)"

definition client_reset_stats :: "client \<Rightarrow> client" where
  "client_reset_stats c =
     (let chr = cl_character c;
          chr = chr\<lparr>chr_ap := to_i16 (chr_ap chr + (chr_str chr + chr_int chr + chr_dex chr + chr_luk chr - 16))\<rparr>;
          chr = chr\<lparr>chr_str := 4, chr_dex := 4, chr_int := 4, chr_luk := 4, chr_sp := 1\<rparr>;
          chr = job_reset chr
      in send To_session
           (Stat_change True (STAT_STR OR STAT_DEX OR STAT_INT OR STAT_LUK OR STAT_AP OR STAT_SP)
              (map word_of_int [chr_str chr, chr_dex chr, chr_int chr, chr_luk chr, chr_ap chr, chr_sp chr]))
           (c\<lparr>cl_character := chr\<rparr>))"

text \<open>
  \<open>client_gain_exp\<close>: the loop consumes the experience level by level. \<open>rnd n\<close> is the result of
  the \<open>n\<close>-th call of \<open>rand\<close> (never negative). A lookup of a skill that does not return is an
  error value, and so are the reads outside \<open>EXP_TABLE\<close> and the overflows of
  \<open>character_gain_exp\<close>.
\<close>

datatype gain_error = Gain_exp exp_error | Lookup_diverges

definition is_novice :: "nat \<Rightarrow> bool" where
  "is_novice job \<longleftrightarrow> job = JOB_BEGINNER \<or> job = JOB_NOBLESSE \<or> job = JOB_LEGEND"

definition level_points :: "client \<Rightarrow> client" where
  "level_points c =
     (let chr = cl_character c
      in if is_novice (chr_job chr) \<and> chr_level chr \<le> 10
         then if chr_level chr \<le> 5
              then add_stat STAT_STR (c\<lparr>cl_character := chr\<lparr>chr_str := to_i16 (chr_str chr + 5)\<rparr>\<rparr>)
              else add_stat (STAT_STR OR STAT_DEX)
                     (c\<lparr>cl_character := chr\<lparr>chr_str := to_i16 (chr_str chr + 4), chr_dex := to_i16 (chr_dex chr + 1)\<rparr>\<rparr>)
         else let c = (if \<not> is_novice (chr_job chr)
                       then add_stat STAT_SP (c\<lparr>cl_character := chr\<lparr>chr_sp := to_i16 (chr_sp chr + 3)\<rparr>\<rparr>)
                       else c);
                  ap = (if job_type (chr_job chr) = 1 \<and> chr_level chr > 10
                        then if chr_level chr \<le> 17 then 7 else if chr_level chr < 77 then 6 else 5
                        else 5)
              in add_stat STAT_AP (on_character (\<lambda>chr. character_set_ap chr (to_i16 (chr_ap chr + ap))) c))"

definition raise_max :: "(nat \<Rightarrow> int) \<Rightarrow> nat \<Rightarrow> int \<Rightarrow> int \<Rightarrow> int \<Rightarrow> int \<Rightarrow> character \<Rightarrow> character" where
  "raise_max rnd n hp_range hp_base mp_range mp_base chr =
     (let chr = character_set_max_hp chr (to_i16 (chr_maxHp chr + rnd n mod hp_range + hp_base))
      in character_set_max_mp chr (to_i16 (chr_maxMp chr + rnd (n + 1) mod mp_range + mp_base)))"

definition mp_skill_bonus :: "(bytes \<Rightarrow> u64) \<Rightarrow> u32 \<Rightarrow> character \<Rightarrow> gain_error + character" where
  "mp_skill_bonus xxh3 sid chr =
     (case hash_set_u32_get xxh3 sk_id (skills chr) sid of
        None \<Rightarrow> Inl Lookup_diverges
      | Some None \<Rightarrow> Inr chr
      | Some (Some sk) \<Rightarrow> Inr (character_set_max_mp chr (to_i16 (chr_maxMp chr + sk_level sk * 2))))"

definition level_hpmp :: "(bytes \<Rightarrow> u64) \<Rightarrow> (nat \<Rightarrow> int) \<Rightarrow> nat \<Rightarrow> character \<Rightarrow> gain_error + character \<times> nat" where
  "level_hpmp xxh3 rnd n chr =
     (let job = chr_job chr; next = (\<lambda>chr. Inr (chr, n + 2))
      in if is_novice job then next (raise_max rnd n 5 12 3 10 chr)
         else if job_is_a job 110 \<or> job_is_a job 1100 then next (raise_max rnd n 5 24 3 4 chr)
         else if job_is_a job 200 \<or> job_is_a job 1200
         then (case mp_skill_bonus xxh3 (if job_is_a job 200 then 2000001 else 12000000) (raise_max rnd n 5 10 3 22 chr) of
                 Inl e \<Rightarrow> Inl e | Inr chr \<Rightarrow> next chr)
         else if job_is_a job 300 \<or> job_is_a job 400 \<or> job_is_a job 1300 \<or> job_is_a job 1400
         then next (raise_max rnd n 5 20 3 14 chr)
         else if job_is_a job 500 \<or> job_is_a job 1500 then next (raise_max rnd n 7 22 6 18 chr)
         else if job_is_a job 2100 then next (raise_max rnd n 5 44 5 4 chr)
         else Inr (chr, n))"

text \<open>One level up, after \<open>character_gain_exp\<close> has raised the level.\<close>

definition level_up :: "(bytes \<Rightarrow> u64) \<Rightarrow> (nat \<Rightarrow> int) \<Rightarrow> nat \<Rightarrow> client \<Rightarrow> gain_error + client \<times> nat" where
  "level_up xxh3 rnd n c =
     (let c = level_points c
      in case level_hpmp xxh3 rnd n (cl_character c) of
           Inl e \<Rightarrow> Inl e
         | Inr (chr, n) \<Rightarrow>
             let chr = character_set_max_mp chr (to_i16 (chr_maxMp chr + character_get_effective_int chr sdiv
                         (if job_is_a (chr_job chr) 200 \<or> job_is_a (chr_job chr) 1200 then 20 else 10)));
                 chr = character_set_hp chr (character_get_effective_hp chr);
                 chr = character_set_mp chr (character_get_effective_mp chr);
                 c = add_stat (STAT_MAX_HP OR STAT_MAX_MP OR STAT_HP OR STAT_MP) (c\<lparr>cl_character := chr\<rparr>);
                 c = send To_session (Stat_change True STAT_LEVEL [ucast (chr_level chr)]) c
             in Inr (send To_others (Show_foreign_effect (chr_id chr) 0) c, n))"

lemma gain_exp_level:
  assumes "character_gain_exp chr gain = Inr (chr', r)" and "\<not> r < 0"
  shows "chr_level chr' = chr_level chr + 1" "unat (chr_level chr) \<le> 200" "1 \<le> unat (chr_level chr)"
proof -
  have "\<not> (uint (chr_level chr) - 1 < 0 \<or> uint (chr_level chr) - 1 \<ge> int (length EXP_TABLE))"
    using assms(1) by (auto simp: character_gain_exp_def Let_def)
  then have "1 \<le> uint (chr_level chr)" "uint (chr_level chr) \<le> 200" by (simp_all add: EXP_TABLE_facts(1))
  then show "unat (chr_level chr) \<le> 200" "1 \<le> unat (chr_level chr)"
    by (simp_all add: unat_eq_nat_uint nat_le_iff del: nat_uint_eq unsigned_1)
  show "chr_level chr' = chr_level chr + 1"
    using assms by (auto simp: character_gain_exp_def Let_def split: if_splits)
qed

lemma character_set_same [simp]:
  "chr_level (character_set_max_hp chr v) = chr_level chr" "chr_exp (character_set_max_hp chr v) = chr_exp chr"
  "chr_level (character_set_max_mp chr v) = chr_level chr" "chr_exp (character_set_max_mp chr v) = chr_exp chr"
  "chr_level (character_set_hp chr v) = chr_level chr" "chr_exp (character_set_hp chr v) = chr_exp chr"
  "chr_level (character_set_mp chr v) = chr_level chr" "chr_exp (character_set_mp chr v) = chr_exp chr"
  "chr_level (character_set_ap chr v) = chr_level chr" "chr_exp (character_set_ap chr v) = chr_exp chr"
  "skills (character_set_max_hp chr v) = skills chr" "skills (character_set_max_mp chr v) = skills chr"
  "skills (character_set_hp chr v) = skills chr" "skills (character_set_mp chr v) = skills chr"
  "skills (character_set_ap chr v) = skills chr"
  by (simp_all add: character_set_max_hp_def character_set_max_mp_def character_set_hp_def character_set_mp_def
      character_set_ap_def)

lemma raise_max_same [simp]:
  "chr_level (raise_max rnd n a b p q chr) = chr_level chr" "chr_exp (raise_max rnd n a b p q chr) = chr_exp chr"
  "skills (raise_max rnd n a b p q chr) = skills chr"
  by (simp_all add: raise_max_def Let_def)

lemma level_points_same:
  "chr_level (cl_character (level_points c)) = chr_level (cl_character c) \<and>
   chr_exp (cl_character (level_points c)) = chr_exp (cl_character c) \<and>
   skills (cl_character (level_points c)) = skills (cl_character c)"
  by (simp add: level_points_def Let_def)

lemma level_hpmp_same:
  assumes "level_hpmp xxh3 rnd n chr = Inr (chr', n')"
  shows "chr_level chr' = chr_level chr \<and> chr_exp chr' = chr_exp chr \<and> skills chr' = skills chr"
  using assms
  by (auto simp: level_hpmp_def mp_skill_bonus_def Let_def split: if_splits option.splits sum.splits)

lemma level_up_same:
  assumes "level_up xxh3 rnd n c = Inr (c', n')"
  shows "chr_level (cl_character c') = chr_level (cl_character c)"
    "chr_exp (cl_character c') = chr_exp (cl_character c)" "skills (cl_character c') = skills (cl_character c)"
  using assms level_points_same [of c]
  by (auto simp: level_up_def Let_def dest!: level_hpmp_same split: sum.splits)

lemma gain_step_level:
  assumes g: "character_gain_exp (cl_character c) gain = Inr (chr, r)" "\<not> r < 0"
    and l: "level_up xxh3 rnd n (c\<lparr>cl_character := chr\<rparr>) = Inr (c', n')"
  shows "201 - unat (chr_level (cl_character c')) < 201 - unat (chr_level (cl_character c))"
proof -
  note lv = gain_exp_level [OF g]
  have "chr_level (cl_character c') = chr_level (cl_character c) + 1"
    using level_up_same(1) [OF l] lv(1) by simp
  moreover have "unat (chr_level (cl_character c) + 1) = unat (chr_level (cl_character c)) + 1"
    using lv(2) by (simp add: unat_word_ariths)
  ultimately show ?thesis using lv(2) by simp
qed

function gain_loop ::
  "(bytes \<Rightarrow> u64) \<Rightarrow> (nat \<Rightarrow> int) \<Rightarrow> nat \<Rightarrow> client \<Rightarrow> int \<Rightarrow> gain_error + client \<times> nat" where
  "gain_loop xxh3 rnd n c gain =
     (case character_gain_exp (cl_character c) gain of
        Inl e \<Rightarrow> Inl (Gain_exp e)
      | Inr (chr, r) \<Rightarrow>
          if r < 0 then Inr (c\<lparr>cl_character := chr\<rparr>, n)
          else (case level_up xxh3 rnd n (c\<lparr>cl_character := chr\<rparr>) of
                  Inl e \<Rightarrow> Inl e
                | Inr (c, n) \<Rightarrow> gain_loop xxh3 rnd n c r))"
  by pat_completeness auto
termination
  by (relation "measure (\<lambda>(xxh3, rnd, n, c, gain). 201 - unat (chr_level (cl_character c)))")
    (use gain_step_level in auto)

declare gain_loop.simps [simp del]

definition client_gain_exp ::
  "(bytes \<Rightarrow> u64) \<Rightarrow> (nat \<Rightarrow> int) \<Rightarrow> nat \<Rightarrow> client \<Rightarrow> int \<Rightarrow> bool \<Rightarrow> gain_error + client \<times> nat" where
  "client_gain_exp xxh3 rnd n c gain reward =
     gain_loop xxh3 rnd n
       (add_stat STAT_EXP (send To_session (if \<not> reward then Exp_gain gain else Exp_gain_in_chat gain) c)) gain"

text \<open>\<open>client_change_job\<close>: \<open>r1\<close> and \<open>r2\<close> are the results of \<open>random\<close>; the first is converted to
  \<open>int16_t\<close> before the remainder is taken.\<close>

definition add_max_hp :: "int \<Rightarrow> character \<Rightarrow> character" where
  "add_max_hp r chr =
     (let r = (if chr_maxHp chr > 30000 - r then to_i16 (30000 - chr_maxHp chr) else r)
      in character_set_max_hp chr (to_i16 (chr_maxHp chr + r)))"

definition add_max_mp :: "int \<Rightarrow> character \<Rightarrow> character" where
  "add_max_mp r chr =
     (let r = (if chr_maxMp chr > 30000 - r then to_i16 (30000 - chr_maxMp chr) else r)
      in character_set_max_mp chr (to_i16 (chr_maxMp chr + r)))"

definition job_hpmp :: "int \<Rightarrow> int \<Rightarrow> character \<Rightarrow> character" where
  "job_hpmp r1 r2 chr =
     (let r = to_i16 r1; job = chr_job chr
      in if job mod 1000 = 100 then add_max_hp (to_i16 (r smod 51 + 200)) chr
         else if job mod 1000 = 200 then add_max_mp (to_i16 (r smod 51 + 100)) chr
         else if job mod 100 = 0
         then add_max_mp (to_i16 (r2 smod 26 + 25)) (add_max_hp (to_i16 (r smod 51 + 100)) chr)
         else if job mod 1000 > 0 \<and> job mod 1000 < 200 then add_max_hp (to_i16 (r smod 51 + 300)) chr
         else if job mod 1000 < 300 then add_max_mp (to_i16 (r smod 51 + 450)) chr
         else if job mod 1000 > 300
         then add_max_mp (to_i16 (r2 smod 51 + 150)) (add_max_hp (to_i16 (r smod 51 + 300)) chr)
         else chr)"

definition client_change_job :: "int \<Rightarrow> int \<Rightarrow> client \<Rightarrow> u16 \<Rightarrow> client" where
  "client_change_job r1 r2 c job =
     (let c = add_stat STAT_JOB (on_character (\<lambda>chr. character_set_job chr job) c);
          c = client_adjust_sp c (if unat job mod 10 = 2 then 3 else 1);
          c = add_stat (STAT_MAX_HP OR STAT_MAX_MP) (on_character (job_hpmp r1 r2) c);
          c = client_commit_stats c
      in send To_others (Show_foreign_effect (chr_id (cl_character c)) 8) c)"

subsection \<open>Levels\<close>

definition skills_ok :: "(bytes \<Rightarrow> u64) \<Rightarrow> character \<Rightarrow> bool" where
  "skills_ok xxh3 chr \<longleftrightarrow> hash_set_inv (hash_u32 xxh3) sk_id (skills chr)"

lemma level_hpmp_total:
  assumes "skills_ok xxh3 chr"
  shows "\<exists>chr' n'. level_hpmp xxh3 rnd n chr = Inr (chr', n')"
proof -
  have get: "hash_set_u32_get xxh3 sk_id (skills chr) sid = Some (hash_set_map sk_id (skills chr) sid)" for sid
    using hash_set_get_ok assms by (auto simp: hash_set_u32_get_def skills_ok_def)
  have "\<exists>chr'. mp_skill_bonus xxh3 sid (raise_max rnd n a b p q chr) = Inr chr'" for sid a b p q
    by (auto simp: mp_skill_bonus_def get split: option.splits)
  then show ?thesis by (auto simp: level_hpmp_def Let_def split: sum.splits) (metis sum.distinct(1))+
qed

lemma effective_set_hp:
  "character_get_effective_hp (character_set_mp chr v) = character_get_effective_hp chr"
  "character_get_effective_mp (character_set_hp chr v) = character_get_effective_mp chr"
  "character_get_effective_mp (character_set_mp chr v) = character_get_effective_mp chr"
  "character_get_effective_hp (character_set_hp chr v) = character_get_effective_hp chr"
  by (simp_all add: character_get_effective_hp_def character_get_effective_mp_def character_set_hp_def character_set_mp_def)

text \<open>Full health: what a level up leaves behind, as far as the maximum is not negative.\<close>

definition healed :: "character \<Rightarrow> bool" where
  "healed chr \<longleftrightarrow> chr_hp chr = max 0 (character_get_effective_hp chr) \<and> chr_mp chr = max 0 (character_get_effective_mp chr)"

lemma healed_set: "healed (character_set_mp (character_set_hp chr (character_get_effective_hp chr)) (character_get_effective_mp chr))"
proof -
  let ?c = "character_set_hp chr (character_get_effective_hp chr)"
  have "chr_mp (character_set_mp ?c (character_get_effective_mp chr)) = max 0 (character_get_effective_mp chr)"
    using effective_set_hp(2) [of chr] by (auto simp: character_set_mp_def)
  moreover have "chr_hp (character_set_mp ?c v) = chr_hp ?c" for v by (simp add: character_set_mp_def)
  moreover have "chr_hp ?c = max 0 (character_get_effective_hp chr)" by (auto simp: character_set_hp_def)
  ultimately show ?thesis by (simp add: healed_def effective_set_hp)
qed

lemma healed_set':
  "healed (character_set_mp (character_set_hp chr (character_get_effective_hp chr))
     (character_get_effective_mp (character_set_hp chr (character_get_effective_hp chr))))"
  using healed_set [of chr] by (simp add: effective_set_hp)

lemma level_up_returns:
  assumes "skills_ok xxh3 (cl_character c)"
  shows "\<exists>c' n'. level_up xxh3 rnd n c = Inr (c', n') \<and> healed (cl_character c')"
proof -
  have "skills_ok xxh3 (cl_character (level_points c))"
    using assms level_points_same [of c] by (simp add: skills_ok_def)
  from level_hpmp_total [OF this] obtain chr n' where "level_hpmp xxh3 rnd n (cl_character (level_points c)) = Inr (chr, n')"
    by blast
  then show ?thesis by (simp add: level_up_def Let_def healed_set')
qed

lemma total_exp_bound:
  assumes "1 \<le> unat (chr_level chr)" "unat (chr_level chr) \<le> 201" "0 \<le> chr_exp chr" "total_exp chr < sum_list EXP_TABLE"
  shows "unat (chr_level chr) \<le> 200"
proof (rule ccontr)
  assume "\<not> unat (chr_level chr) \<le> 200"
  with assms(2) have "unat (chr_level chr) = 201" by simp
  then have "total_exp chr = sum_list EXP_TABLE + chr_exp chr"
    by (simp add: total_exp_def EXP_TABLE_facts(1))
  with assms(3,4) show False by simp
qed

lemma healed_exp [simp]: "healed (chr\<lparr>chr_exp := e\<rparr>) = healed chr"
  by (simp add: healed_def character_get_effective_hp_def character_get_effective_mp_def)

text \<open>One call of \<open>character_gain_exp\<close> on a character that stays in the table.\<close>

lemma gain_exp_step:
  assumes ok: "exp_ok chr" and g: "0 \<le> gain" "gain \<le> 2147483647" and small: "total_exp chr + gain < sum_list EXP_TABLE"
  obtains (Stay) r where "character_gain_exp chr gain = Inr (chr\<lparr>chr_exp := chr_exp chr + gain\<rparr>, r)" "r < 0"
      "exp_ok (chr\<lparr>chr_exp := chr_exp chr + gain\<rparr>)"
      "total_exp (chr\<lparr>chr_exp := chr_exp chr + gain\<rparr>) = total_exp chr + gain"
    | (Up) chr' r where "character_gain_exp chr gain = Inr (chr', r)" "0 \<le> r" "r \<le> gain" "exp_ok chr'"
      "total_exp chr' + r = total_exp chr + gain" "skills chr' = skills chr" "chr_level chr' \<noteq> chr_level chr"
proof -
  let ?t = "EXP_TABLE ! (unat (chr_level chr) - 1)"
  let ?up = "chr\<lparr>chr_exp := 0, chr_level := chr_level chr + 1\<rparr>"
  have l: "1 \<le> unat (chr_level chr)" "unat (chr_level chr) \<le> 200" "0 \<le> chr_exp chr" "chr_exp chr < ?t"
    using ok by (simp_all add: exp_ok_def)
  note cases = gain_exp_cases [OF ok g]
  show thesis
  proof (cases "gain \<ge> ?t - chr_exp chr")
    case False
    show thesis
      by (rule Stay) (use False cases l g in \<open>auto simp: exp_ok_def total_exp_def\<close>)
  next
    case True
    have tot: "total_exp ?up + (gain - (?t - chr_exp chr)) = total_exp chr + gain"
      using level_up_total(1) [OF l(1,2)] by (simp add: total_exp_def)
    have "total_exp ?up < sum_list EXP_TABLE" using tot small True by linarith
    then have "unat (chr_level ?up) \<le> 200"
      using level_up_total(2) [OF l(1,2)] l by (intro total_exp_bound) simp_all
    then have "exp_ok ?up"
      using level_up_total(2) [OF l(1,2)] l EXP_TABLE_facts nth_mem [of "unat (chr_level chr)" EXP_TABLE]
      by (auto simp: exp_ok_def)
    then show thesis
      using True cases tot l by (intro Up [of ?up "gain - (?t - chr_exp chr)"]) simp_all
  qed
qed

lemma gain_loop_ok:
  assumes "exp_ok (cl_character c)" "skills_ok xxh3 (cl_character c)" "0 \<le> gain" "gain \<le> 2147483647"
    "total_exp (cl_character c) + gain < sum_list EXP_TABLE"
  shows "\<exists>c' n'. gain_loop xxh3 rnd n c gain = Inr (c', n') \<and> exp_ok (cl_character c') \<and>
    total_exp (cl_character c') = total_exp (cl_character c) + gain \<and>
    (healed (cl_character c) \<or> chr_level (cl_character c') \<noteq> chr_level (cl_character c) \<longrightarrow> healed (cl_character c'))"
  using assms
proof (induction xxh3 rnd n c gain rule: gain_loop.induct)
  case (1 xxh3 rnd n c gain)
  show ?case
  proof (rule gain_exp_step [OF 1(2,4,5,6)])
    fix r
    assume "character_gain_exp (cl_character c) gain = Inr ((cl_character c)\<lparr>chr_exp := chr_exp (cl_character c) + gain\<rparr>, r)" "r < 0"
      "exp_ok ((cl_character c)\<lparr>chr_exp := chr_exp (cl_character c) + gain\<rparr>)"
      "total_exp ((cl_character c)\<lparr>chr_exp := chr_exp (cl_character c) + gain\<rparr>) = total_exp (cl_character c) + gain"
    then show ?thesis by (subst gain_loop.simps) simp
  next
    fix chr r
    assume g: "character_gain_exp (cl_character c) gain = Inr (chr, r)" "0 \<le> r" "r \<le> gain" "exp_ok chr"
      "total_exp chr + r = total_exp (cl_character c) + gain" "skills chr = skills (cl_character c)"
    let ?c = "c\<lparr>cl_character := chr\<rparr>"
    have "skills_ok xxh3 (cl_character ?c)" using 1(3) g(6) by (simp add: skills_ok_def)
    from level_up_returns [OF this, of rnd n] obtain c1 n1 where up: "level_up xxh3 rnd n ?c = Inr (c1, n1)" "healed (cl_character c1)"
      by blast
    note same = level_up_same [OF up(1), simplified]
    have "exp_ok (cl_character c1)" "total_exp (cl_character c1) = total_exp chr" "skills_ok xxh3 (cl_character c1)"
      using g(4) 1(3) same g(6) by (simp_all add: exp_ok_def total_exp_def skills_ok_def)
    moreover have "gain_loop xxh3 rnd n c gain = gain_loop xxh3 rnd n1 c1 r"
      using g(1,2) up(1) by (subst gain_loop.simps) simp
    moreover have "r \<le> 2147483647" using g(3) 1(5) by simp
    ultimately show ?thesis
      using 1(1) [OF g(1) refl _ up(1) refl] g(2,5) 1(6) up(2) by auto
  qed
qed

lemma on_character_total [simp]:
  "cl_character (add_stat f (send r msg c)) = cl_character c" by simp

subsection \<open>Properties\<close>

text \<open>
  C30: Gaining experience levels a player up correctly. As long as the total stays below what
  all 200 levels need, the loop ends, the player's total experience grows by exactly the
  amount gained, the remaining experience is less than what the reached level needs, and a player
  who gained a level has full hit points and mana.
\<close>

theorem client_gain_exp_levels:
  assumes "exp_ok (cl_character c)" and "skills_ok xxh3 (cl_character c)" and "0 \<le> gain" and "gain \<le> 2147483647"
    and "total_exp (cl_character c) + gain < sum_list EXP_TABLE"
  shows "\<exists>c' n'. client_gain_exp xxh3 rnd n c gain reward = Inr (c', n') \<and> exp_ok (cl_character c') \<and>
    total_exp (cl_character c') = total_exp (cl_character c) + gain \<and>
    (chr_level (cl_character c') \<noteq> chr_level (cl_character c) \<longrightarrow>
       chr_hp (cl_character c') = max 0 (character_get_effective_hp (cl_character c')) \<and>
       chr_mp (cl_character c') = max 0 (character_get_effective_mp (cl_character c')))"
proof -
  let ?c = "add_stat STAT_EXP (send To_session (if \<not> reward then Exp_gain gain else Exp_gain_in_chat gain) c)"
  from gain_loop_ok [of ?c xxh3 gain rnd n] assms show ?thesis
    by (auto simp: client_gain_exp_def healed_def)
qed

definition beginner_client :: client where
  "beginner_client = \<lparr>cl_character = beginner, cl_shop = - 1, cl_stats = 0, cl_autoPickup = False, cl_sent = []\<rparr>"

theorem client_gain_exp_levels_witness:
  "\<exists>c' n'. client_gain_exp (\<lambda>_. 0) (\<lambda>_. 7) 0 beginner_client 1000 False = Inr (c', n') \<and>
     total_exp (cl_character c') = 1010 \<and> exp_ok (cl_character c')"
proof -
  have ok: "exp_ok (cl_character beginner_client)" "total_exp (cl_character beginner_client) = 10"
    by (simp_all add: exp_ok_def total_exp_def beginner_client_def beginner_def EXP_TABLE_def)
  have sk: "skills_ok (\<lambda>_. 0) (cl_character beginner_client)"
    by (simp add: skills_ok_def beginner_client_def beginner_def hash_set_inv_def table_ok_def)
  have "1010 < sum_list EXP_TABLE" by (simp add: EXP_TABLE_def)
  with client_gain_exp_levels [OF ok(1) sk, of 1000 "\<lambda>_. 7" 0 False] ok(2) show ?thesis by auto
qed

text \<open>
  Experience past the last level reads outside the table: a player of level 200 who gains
  what the level needs is put on level 201, and the loop goes on with an entry that
  \<open>EXP_TABLE\<close> does not have.
\<close>

theorem gain_exp_past_last_level:
  assumes "exp_ok (cl_character c)" and "skills_ok xxh3 (cl_character c)" and "chr_level (cl_character c) = 200"
    and "EXP_TABLE ! 199 - chr_exp (cl_character c) \<le> gain" and "0 \<le> gain" and "gain \<le> 2147483647"
  shows "client_gain_exp xxh3 rnd n c gain reward = Inl (Gain_exp Table_index)"
proof -
  let ?c = "add_stat STAT_EXP (send To_session (if \<not> reward then Exp_gain gain else Exp_gain_in_chat gain) c)"
  let ?up = "(cl_character c)\<lparr>chr_exp := 0, chr_level := 201\<rparr>"
  obtain r where g: "character_gain_exp (cl_character ?c) gain = Inr (?up, r)" "0 \<le> r"
    using gain_exp_cases [OF assms(1,5,6)] assms(3,4) by simp
  have "skills_ok xxh3 (cl_character (?c\<lparr>cl_character := ?up\<rparr>))" using assms(2) by (simp add: skills_ok_def)
  from level_up_returns [OF this, of rnd n] obtain c1 n1 where up: "level_up xxh3 rnd n (?c\<lparr>cl_character := ?up\<rparr>) = Inr (c1, n1)"
    by blast
  then have "chr_level (cl_character c1) = 201" using level_up_same(1) [OF up] by simp
  then have "gain_loop xxh3 rnd n1 c1 r = Inl (Gain_exp Table_index)"
    by (subst gain_loop.simps) (simp add: character_gain_exp_def EXP_TABLE_facts(1))
  then show ?thesis unfolding client_gain_exp_def using g up by (subst gain_loop.simps) simp
qed

theorem gain_exp_past_last_level_witness:
  "client_gain_exp (\<lambda>_. 0) (\<lambda>_. 7) 0 (beginner_client\<lparr>cl_character := beginner\<lparr>chr_level := 200\<rparr>\<rparr>) 1697021059 False =
     Inl (Gain_exp Table_index)"
  by (rule gain_exp_past_last_level)
    (simp_all add: exp_ok_def skills_ok_def beginner_client_def beginner_def hash_set_inv_def table_ok_def EXP_TABLE_def)

text \<open>
  Mesos stay between zero and the largest \<open>int32_t\<close>: a gain is cut off at the maximum, and a
  payment the player can afford is deducted exactly.
\<close>

theorem mesos_in_range:
  assumes "0 \<le> chr_mesos (cl_character c)" and "in_i32 (chr_mesos (cl_character c))" and "in_i32 amount"
    and "0 \<le> chr_mesos (cl_character c) + amount"
  shows "\<exists>c'. client_gain_meso c amount pickup reward = Some c' \<and>
    chr_mesos (cl_character c') = min 2147483647 (chr_mesos (cl_character c) + amount)"
  using assms by (auto simp: client_gain_meso_def Let_def character_set_meso_def)

theorem mesos_in_range_witness:
  "\<exists>c'. client_gain_meso (beginner_client\<lparr>cl_character := beginner\<lparr>chr_mesos := 2147483000\<rparr>\<rparr>) 5000 True False = Some c' \<and>
     chr_mesos (cl_character c') = 2147483647"
  using mesos_in_range [of "beginner_client\<lparr>cl_character := beginner\<lparr>chr_mesos := 2147483000\<rparr>\<rparr>" 5000 True False] by simp

text \<open>
  A payment the player cannot afford doubles the player's mesos instead of emptying the
  purse: the correction assigns the balance where its negation is meant.
\<close>

theorem overdraft_doubles_mesos:
  assumes "0 \<le> chr_mesos (cl_character c)" and "2 * chr_mesos (cl_character c) \<le> 2147483647"
    and "chr_mesos (cl_character c) + amount < 0"
  shows "\<exists>c'. client_gain_meso c amount pickup reward = Some c' \<and>
    chr_mesos (cl_character c') = 2 * chr_mesos (cl_character c)"
  using assms by (auto simp: client_gain_meso_def Let_def character_set_meso_def)

theorem overdraft_doubles_mesos_witness:
  "\<exists>c'. client_gain_meso (beginner_client\<lparr>cl_character := beginner\<lparr>chr_mesos := 100\<rparr>\<rparr>) (- 150) False False = Some c' \<and>
     chr_mesos (cl_character c') = 200"
  using overdraft_doubles_mesos [of "beginner_client\<lparr>cl_character := beginner\<lparr>chr_mesos := 100\<rparr>\<rparr>" "- 150" False False] by simp

definition points :: "character \<Rightarrow> int" where
  "points chr = chr_str chr + chr_dex chr + chr_int chr + chr_luk chr + chr_ap chr"

definition points_ok :: "character \<Rightarrow> bool" where
  "points_ok chr \<longleftrightarrow> 0 \<le> chr_str chr \<and> 0 \<le> chr_dex chr \<and> 0 \<le> chr_int chr \<and> 0 \<le> chr_luk chr \<and> 0 \<le> chr_ap chr \<and>
     points chr \<le> 32767"

lemma job_reset_points:
  assumes "chr_str chr = 4" "chr_dex chr = 4" "chr_int chr = 4" "- 16 \<le> chr_ap chr" "chr_ap chr \<le> 32767"
  shows "points (job_reset chr) = points chr"
proof -
  have "to_i16 (chr_ap chr - 31) = chr_ap chr - 31" "to_i16 (chr_ap chr - 16) = chr_ap chr - 16"
    "to_i16 (chr_ap chr - 21) = chr_ap chr - 21"
    using assms(4,5) by (intro to_i16_id; simp)+
  then show ?thesis using assms(1-3) by (simp add: job_reset_def Let_def points_def)
qed

lemma reset_stats_points:
  assumes "0 \<le> points (cl_character c)" "points (cl_character c) \<le> 32767"
  shows "points (cl_character (client_reset_stats c)) = points (cl_character c)"
proof -
  let ?chr = "(cl_character c)\<lparr>chr_ap := points (cl_character c) - 16, chr_str := 4, chr_dex := 4, chr_int := 4, chr_luk := 4, chr_sp := 1\<rparr>"
  have ap: "to_i16 (chr_ap (cl_character c) + (chr_str (cl_character c) + chr_int (cl_character c) +
      chr_dex (cl_character c) + chr_luk (cl_character c) - 16)) = points (cl_character c) - 16"
    using assms by (subst to_i16_id) (auto simp: points_def)
  have "cl_character (client_reset_stats c) = job_reset ?chr"
    by (simp add: client_reset_stats_def Let_def ap)
  moreover have "points (job_reset ?chr) = points ?chr" by (rule job_reset_points) (use assms in simp_all)
  moreover have "points ?chr = points (cl_character c)" by (simp add: points_def)
  ultimately show ?thesis by simp
qed

text \<open>
  Ability points are conserved: whether a player spends points on a stat or resets all
  stats, the sum of the four stats and the unspent points stays the same.
\<close>

theorem ability_points_conserved:
  assumes "points_ok (cl_character c)" and "0 \<le> amount" and "amount \<le> 32767"
  shows "points (cl_character (client_adjust_str c amount)) = points (cl_character c) \<and>
    points (cl_character (client_adjust_dex c amount)) = points (cl_character c) \<and>
    points (cl_character (client_adjust_int c amount)) = points (cl_character c) \<and>
    points (cl_character (client_adjust_luk c amount)) = points (cl_character c) \<and>
    points (cl_character (client_reset_stats c)) = points (cl_character c)"
proof (intro conjI)
  note A = assms [unfolded points_ok_def points_def]
  show "points (cl_character (client_adjust_str c amount)) = points (cl_character c)"
    using A by (auto simp: client_adjust_str_def stat_adjust_def Let_def points_def character_set_str_def character_set_ap_def to_i16_id)
  show "points (cl_character (client_adjust_dex c amount)) = points (cl_character c)"
    using A by (auto simp: client_adjust_dex_def stat_adjust_def Let_def points_def character_set_dex_def character_set_ap_def to_i16_id)
  show "points (cl_character (client_adjust_int c amount)) = points (cl_character c)"
    using A by (auto simp: client_adjust_int_def stat_adjust_def Let_def points_def character_set_int_def character_set_ap_def to_i16_id)
  show "points (cl_character (client_adjust_luk c amount)) = points (cl_character c)"
    using A by (auto simp: client_adjust_luk_def stat_adjust_def Let_def points_def character_set_luk_def character_set_ap_def to_i16_id)
  show "points (cl_character (client_reset_stats c)) = points (cl_character c)"
    by (rule reset_stats_points) (use A in \<open>simp_all add: points_def\<close>)
qed

theorem ability_points_conserved_witness:
  "points (cl_character (client_adjust_str (beginner_client\<lparr>cl_character := beginner\<lparr>chr_ap := 9\<rparr>\<rparr>) 4)) = 34 \<and>
   points (cl_character (client_reset_stats (beginner_client\<lparr>cl_character := beginner\<lparr>chr_ap := 9\<rparr>\<rparr>))) = 34"
  using ability_points_conserved [of "beginner_client\<lparr>cl_character := beginner\<lparr>chr_ap := 9\<rparr>\<rparr>" 4]
  by (simp add: points_ok_def points_def beginner_def)

end
