(* ===== verification/Client_Inventory.thy ===== *)
theory Client_Inventory
  imports Client
begin

unbundle bit_operations_syntax

text \<open>
  Inventories and equipment of a client (\<^verbatim>\<open>src/src/channel/client.c\<close>): looking for items,
  receiving and removing them, moving stacks, putting on and taking off equipment.

  The inventories are the arrays of \<open>struct Character\<close>: \<open>chr_inventory\<close> has the use, set-up,
  etc and cash inventories (0 to 3), \<open>equipmentInventory\<close> the equipment that is not worn and
  \<open>equippedEquipment\<close> the equipment that is. A slot keeps its content when \<open>isEmpty\<close> is set, as the
  array entries do. Slot numbers are compared with \<open>slotCount\<close> before an array is accessed, and
  \<open>inventories_wf\<close> says that the arrays are long enough for that; an access beyond
  \<open>equippedEquipment\<close> is the error \<open>Out_of_bounds\<close>. Item data (\<open>wz_get_item_info\<close>, \<open>None\<close> for a null
  pointer) and the hash function are arguments, and so is whether \<open>malloc\<close> succeeds.

  Operations that return \<open>bool\<close> and set a result through a pointer return an \<open>option\<close>: \<open>None\<close>
  where the C function returns \<open>false\<close>.
\<close>

datatype cerror = Null_info | Out_of_bounds | No_return | Assertion_failed

subsection \<open>Slots\<close>

definition use_inventory :: "character \<Rightarrow> inventory" where
  "use_inventory chr = chr_inventory chr ! 0"

definition item_slot :: "character \<Rightarrow> nat \<Rightarrow> nat \<Rightarrow> item_entry" where
  "item_slot chr iv i = inv_items (chr_inventory chr ! iv) ! i"

definition set_item_slot :: "nat \<Rightarrow> nat \<Rightarrow> item_entry \<Rightarrow> character \<Rightarrow> character" where
  "set_item_slot iv i e chr =
     chr\<lparr>chr_inventory := (chr_inventory chr)[iv := (chr_inventory chr ! iv)\<lparr>inv_items := (inv_items (chr_inventory chr ! iv))[i := e]\<rparr>]\<rparr>"

definition set_equip_slot :: "nat \<Rightarrow> equip_entry \<Rightarrow> character \<Rightarrow> character" where
  "set_equip_slot i e chr =
     chr\<lparr>equipmentInventory := (equipmentInventory chr)\<lparr>eqi_items := (eqi_items (equipmentInventory chr))[i := e]\<rparr>\<rparr>"

definition equip_slot :: "character \<Rightarrow> nat \<Rightarrow> equip_entry" where
  "equip_slot chr i = eqi_items (equipmentInventory chr) ! i"

definition set_worn :: "nat \<Rightarrow> equip_entry \<Rightarrow> character \<Rightarrow> character" where
  "set_worn i e chr = chr\<lparr>equippedEquipment := (equippedEquipment chr)[i := e]\<rparr>"

definition slot_count :: "character \<Rightarrow> nat \<Rightarrow> nat" where
  "slot_count chr iv = unat (inv_slotCount (chr_inventory chr ! iv))"

definition equip_slot_count :: "character \<Rightarrow> nat" where
  "equip_slot_count chr = unat (eqi_slotCount (equipmentInventory chr))"

definition entry_id :: "item_entry \<Rightarrow> u32" where
  "entry_id e = itemId (ii_item (ie_item e))"

definition entry_quantity :: "item_entry \<Rightarrow> int" where
  "entry_quantity e = quantity (ie_item e)"

definition with_quantity :: "int \<Rightarrow> item_entry \<Rightarrow> item_entry" where
  "with_quantity q e = e\<lparr>ie_item := (ie_item e)\<lparr>quantity := to_i16 q\<rparr>\<rparr>"

subsection \<open>Projectiles\<close>

text \<open>
  The weapon decides what \<open>activeProjectile\<close> may point to: arrows for a bow and bolts for a
  crossbow, and stars and bullets of which some are left. The worn weapon is read even if
  the slot is empty.
\<close>

definition weapon_id :: "character \<Rightarrow> u32" where
  "weapon_id chr = itemId (eq_item (ee_equip (equippedEquipment chr ! unat (equip_slot_to_compact EQUIP_SLOT_WEAPON))))"

definition uses_projectiles :: "u32 \<Rightarrow> bool" where
  "uses_projectiles wid \<longleftrightarrow> wid div 10000 = 145 \<or> wid div 10000 = 146 \<or> wid div 10000 = 147 \<or> wid div 10000 = 149"

definition takes :: "u32 \<Rightarrow> inventory_item \<Rightarrow> bool" where
  "takes wid it \<longleftrightarrow>
     (let iid = itemId (ii_item it)
      in if wid div 10000 = 145 then iid div 1000 = 2060
         else if wid div 10000 = 146 then iid div 1000 = 2061
         else if wid div 10000 = 147 then ITEM_IS_THROWING_STAR iid \<and> quantity it > 0
         else if wid div 10000 = 149 then ITEM_IS_BULLET iid \<and> quantity it > 0
         else False)"

definition find_projectile :: "character \<Rightarrow> nat \<Rightarrow> nat option" where
  "find_projectile chr start =
     find (\<lambda>i. \<not> ie_isEmpty (item_slot chr 0 i) \<and> takes (weapon_id chr) (ie_item (item_slot chr 0 i)))
       [start..<slot_count chr 0]"

text \<open>The loops that leave \<open>activeProjectile\<close> alone when they find nothing, and those that
  reset it.\<close>

definition advance_projectile :: "nat \<Rightarrow> character \<Rightarrow> character" where
  "advance_projectile start chr =
     (case find_projectile chr start of None \<Rightarrow> chr | Some i \<Rightarrow> chr\<lparr>activeProjectile := of_nat i\<rparr>)"

definition reset_projectile :: "nat \<Rightarrow> character \<Rightarrow> character" where
  "reset_projectile start chr =
     (if uses_projectiles (weapon_id chr)
      then chr\<lparr>activeProjectile := (case find_projectile chr start of None \<Rightarrow> - 1 | Some i \<Rightarrow> of_nat i)\<rparr>
      else chr)"

text \<open>An item that has come to a slot before the active projectile.\<close>

definition prefer_projectile :: "nat \<Rightarrow> character \<Rightarrow> character" where
  "prefer_projectile i chr =
     (if takes (weapon_id chr) (ie_item (item_slot chr 0 i)) then chr\<lparr>activeProjectile := of_nat i\<rparr> else chr)"

subsection \<open>Notifications\<close>

definition blank_item :: inventory_item where
  "blank_item = \<lparr>ii_item = eq_item (ee_equip no_equip), quantity = 0\<rparr>"

definition mod_blank :: inventory_modify where
  "mod_blank = \<lparr>im_mode = INVENTORY_MODIFY_TYPE_MOVE, im_inventory = 0, im_slot = 0, im_item = blank_item,
     im_equip = ee_equip no_equip, im_quantity = 0, im_dst = 0\<rparr>"

text \<open>Only the member of the union that belongs to the mode is set.\<close>

definition mod_move :: "u8 \<Rightarrow> int \<Rightarrow> int \<Rightarrow> inventory_modify" where
  "mod_move iv slot dst = mod_blank\<lparr>im_mode := INVENTORY_MODIFY_TYPE_MOVE, im_inventory := iv, im_slot := slot, im_dst := dst\<rparr>"

definition mod_remove :: "u8 \<Rightarrow> int \<Rightarrow> inventory_modify" where
  "mod_remove iv slot = mod_blank\<lparr>im_mode := INVENTORY_MODIFY_TYPE_REMOVE, im_inventory := iv, im_slot := slot\<rparr>"

definition mod_modify :: "u8 \<Rightarrow> int \<Rightarrow> int \<Rightarrow> inventory_modify" where
  "mod_modify iv slot q = mod_blank\<lparr>im_mode := INVENTORY_MODIFY_TYPE_MODIFY, im_inventory := iv, im_slot := slot, im_quantity := q\<rparr>"

definition mod_add :: "u8 \<Rightarrow> int \<Rightarrow> inventory_item \<Rightarrow> inventory_modify" where
  "mod_add iv slot it = mod_blank\<lparr>im_mode := INVENTORY_MODIFY_TYPE_ADD, im_inventory := iv, im_slot := slot, im_item := it\<rparr>"

definition mod_add_equip :: "int \<Rightarrow> equipment \<Rightarrow> inventory_modify" where
  "mod_add_equip slot e = mod_blank\<lparr>im_mode := INVENTORY_MODIFY_TYPE_ADD, im_inventory := 1, im_slot := slot, im_equip := e\<rparr>"

definition send_mods :: "inventory_modify list \<Rightarrow> client \<Rightarrow> client" where
  "send_mods mods c = send To_session (Modify_items (of_nat (length mods)) mods) c"

subsection \<open>Looking for items\<close>

text \<open>\<open>qty\<close> is an \<open>int16_t\<close> that the loops count down.\<close>

fun has_equips :: "u32 \<Rightarrow> int \<Rightarrow> equip_entry list \<Rightarrow> bool" where
  "has_equips iid qty [] = False"
| "has_equips iid qty (e # es) =
     (if \<not> ee_isEmpty e \<and> itemId (eq_item (ee_equip e)) = iid
      then if to_i16 (qty - 1) = 0 then True else has_equips iid (to_i16 (qty - 1)) es
      else has_equips iid qty es)"

fun has_items :: "u32 \<Rightarrow> int \<Rightarrow> item_entry list \<Rightarrow> bool" where
  "has_items iid qty [] = False"
| "has_items iid qty (e # es) =
     (if \<not> ie_isEmpty e \<and> entry_id e = iid
      then if to_i16 (qty - entry_quantity e) \<le> 0 then True else has_items iid (to_i16 (qty - entry_quantity e)) es
      else has_items iid qty es)"

definition client_has_item :: "client \<Rightarrow> u32 \<Rightarrow> int \<Rightarrow> cerror + bool" where
  "client_has_item c iid qty =
     (let chr = cl_character c; iv = unat (ucast (iid div 1000000) :: u8)
      in if iv = 1 then Inr (has_equips iid qty (take (equip_slot_count chr) (eqi_items (equipmentInventory chr))))
         else if iv < 2 \<or> iv - 2 \<ge> length (chr_inventory chr) then Inl Out_of_bounds
         else Inr (has_items iid qty (take (slot_count chr (iv - 2)) (inv_items (chr_inventory chr ! (iv - 2))))))"

subsection \<open>Removing\<close>

definition want_again :: "(bytes \<Rightarrow> u64) \<Rightarrow> bool \<Rightarrow> item_info \<Rightarrow> u32 \<Rightarrow> character \<Rightarrow> cerror + character" where
  "want_again xxh3 mem info iid chr =
     (if info_quest info
      then (case hash_set_u32_get xxh3 id (itemQuests chr) iid of
              None \<Rightarrow> Inl No_return
            | Some (Some _) \<Rightarrow> Inr chr
            | Some None \<Rightarrow>
                (case hash_set_u32_insert xxh3 id mem (itemQuests chr) iid of
                   None \<Rightarrow> Inl No_return
                 | Some (hs, _) \<Rightarrow> Inr (chr\<lparr>itemQuests := hs\<rparr>)))
      else Inr chr)"

text \<open>The slot after \<open>amount\<close> of it has been taken, and what was taken; \<open>None\<close> if there is not
  enough.\<close>

definition take_from :: "int \<Rightarrow> item_entry \<Rightarrow> (item_entry \<times> inventory_item) option" where
  "take_from amount e =
     (if ITEM_IS_RECHARGEABLE (entry_id e) then Some (e\<lparr>ie_isEmpty := True\<rparr>, ie_item e)
      else if entry_quantity e < amount then None
      else if entry_quantity e = amount then Some (e\<lparr>ie_isEmpty := True\<rparr>, (ie_item e)\<lparr>quantity := amount\<rparr>)
      else Some (with_quantity (entry_quantity e - amount) e,
                 (ie_item e)\<lparr>quantity := amount, ii_item := (ii_item (ie_item e))\<lparr>item_uid := 0\<rparr>\<rparr>))"

definition client_remove_item ::
  "(bytes \<Rightarrow> u64) \<Rightarrow> bool \<Rightarrow> (u32 \<Rightarrow> item_info option) \<Rightarrow> client \<Rightarrow> u8 \<Rightarrow> u8 \<Rightarrow> int \<Rightarrow>
   cerror + client \<times> (bool \<times> inventory_item option) option" where
  "client_remove_item xxh3 mem wz c inventory source amount =
     (let chr = cl_character c; iv = unat inventory - 2; src = unat (source - 1)
      in if inventory < 2 \<or> inventory > 5 then Inr (c, None)
         else if src \<ge> slot_count chr iv then Inr (c, None)
         else if ie_isEmpty (item_slot chr iv src) then Inr (c, Some (False, None))
         else case take_from amount (item_slot chr iv src) of
                None \<Rightarrow> Inr (c, Some (False, Some (ie_item (item_slot chr iv src))))
              | Some (e, it) \<Rightarrow>
                  let chr = set_item_slot iv src e chr;
                      chr = (if iv = 0 \<and> unat (activeProjectile chr) = src \<and> (ie_isEmpty e \<or> entry_quantity e = 0)
                             then reset_projectile (src + 1) chr else chr)
                  in case wz (itemId (ii_item it)) of
                       None \<Rightarrow> Inl Null_info
                     | Some info \<Rightarrow>
                         (case want_again xxh3 mem info (itemId (ii_item it)) chr of
                            Inl err \<Rightarrow> Inl err
                          | Inr chr \<Rightarrow>
                              Inr (send_mods [if ie_isEmpty e then mod_remove (of_nat (iv + 2)) (int src + 1)
                                              else mod_modify (of_nat (iv + 2)) (int src + 1) (entry_quantity e)]
                                     (c\<lparr>cl_character := chr\<rparr>), Some (True, Some it))))"

text \<open>The search for a stack that is large enough starts at the active projectile and looks at
  every slot, empty or not, whatever it holds. The projectile is reset only where the loop counter
  ends at \<open>slotCount\<close>, hence not if it started beyond.\<close>

definition client_use_projectile :: "client \<Rightarrow> int \<Rightarrow> client \<times> bool" where
  "client_use_projectile c amount =
     (let chr = cl_character c; active = unat (activeProjectile chr)
      in if activeProjectile chr = - 1 then (c, False)
         else let found = find (\<lambda>i. entry_quantity (item_slot chr 0 i) \<ge> amount) [active..<slot_count chr 0];
                  slot = (case found of Some i \<Rightarrow> i | None \<Rightarrow> max active (slot_count chr 0));
                  e = item_slot chr 0 slot;
                  e' = (if ITEM_IS_RECHARGEABLE (entry_id e) then with_quantity (entry_quantity e - amount) e
                        else if entry_quantity e = amount then e\<lparr>ie_isEmpty := True\<rparr>
                        else with_quantity (entry_quantity e - amount) e);
                  chr = (if found = None then chr else set_item_slot 0 slot e' chr)
              in if slot = slot_count chr 0 then (c, False)
                 else let a = item_slot chr 0 active;
                          chr = (if (ie_isEmpty a \<or> entry_quantity a = 0) \<and> active < slot_count chr 0
                                 then reset_projectile (active + 1) chr else chr);
                          e = item_slot chr 0 slot
                      in (send_mods [if ie_isEmpty e then mod_remove 2 (int slot + 1)
                                     else mod_modify 2 (int slot + 1) (entry_quantity e)]
                            (c\<lparr>cl_character := chr\<rparr>), True))"

definition client_remove_equip :: "client \<Rightarrow> bool \<Rightarrow> u8 \<Rightarrow> client \<times> (bool \<times> equipment option) option" where
  "client_remove_equip c equipped source =
     (let chr = cl_character c
      in if equipped
         then let src = unat (equip_slot_to_compact (unat source))
              in if src \<ge> EQUIP_SLOT_COUNT then (c, None)
                 else let e = equippedEquipment chr ! src
                      in if ee_isEmpty e then (c, Some (False, None))
                         else (send_mods [mod_remove 1 (- int (equip_slot_from_compact (of_nat src)))]
                                 (c\<lparr>cl_character := set_worn src (e\<lparr>ee_isEmpty := True\<rparr>) chr\<rparr>), Some (True, Some (ee_equip e)))
         else let src = unat (source - 1)
              in if src \<ge> equip_slot_count chr then (c, None)
                 else let e = equip_slot chr src
                      in if ee_isEmpty e then (c, Some (False, None))
                         else (send_mods [mod_remove 1 (int src + 1)]
                                 (c\<lparr>cl_character := set_equip_slot src (e\<lparr>ee_isEmpty := True\<rparr>) chr\<rparr>), Some (True, Some (ee_equip e))))"

subsection \<open>Receiving\<close>

datatype inventory_gain_result =
  INVENTORY_GAIN_RESULT_SUCCESS | INVENTORY_GAIN_RESULT_FULL | INVENTORY_GAIN_RESULT_UNAVAILABLE

text \<open>An end requirement of a quest, as far as \<open>check_quest_item\<close> looks at it. \<open>wzq\<close> is
  \<open>wz_get_quest_info\<close>.\<close>

datatype quest_requirement = Req_item u32 int | Req_other

definition check_quest_item :: "(u16 \<Rightarrow> quest_requirement list option) \<Rightarrow> u32 \<Rightarrow> quest \<Rightarrow> int option \<Rightarrow> quest \<times> int option" where
  "check_quest_item wzq iid q m =
     (q, case m of
           None \<Rightarrow> None
         | Some m \<Rightarrow>
             (case wzq (q_id q) of
                None \<Rightarrow> None
              | Some reqs \<Rightarrow>
                  Some (case find (\<lambda>r. case r of Req_item i n \<Rightarrow> i = iid | Req_other \<Rightarrow> False) reqs of
                          Some (Req_item i n) \<Rightarrow> n
                        | _ \<Rightarrow> m)))"

definition quest_item_max :: "(u16 \<Rightarrow> quest_requirement list option) \<Rightarrow> u32 \<Rightarrow> character \<Rightarrow> int option" where
  "quest_item_max wzq iid chr = snd (hash_set_foreach_keep (check_quest_item wzq iid) (quests chr) (Some 0))"

text \<open>An item that completes what a quest asks for is not wanted any more.\<close>

definition item_complete ::
  "(bytes \<Rightarrow> u64) \<Rightarrow> bool \<Rightarrow> (u16 \<Rightarrow> quest_requirement list option) \<Rightarrow> item_info \<Rightarrow> u32 \<Rightarrow> int \<Rightarrow> character \<Rightarrow> cerror + character" where
  "item_complete xxh3 mem wzq info iid have chr =
     (case quest_item_max wzq iid chr of
        None \<Rightarrow> Inl Null_info
      | Some m \<Rightarrow>
          if info_quest info \<and> have = m
          then (case hash_set_u32_remove xxh3 id mem (itemQuests chr) iid of
                  None \<Rightarrow> Inl No_return
                | Some hs \<Rightarrow> Inr (chr\<lparr>itemQuests := hs\<rparr>))
          else Inr chr)"

text \<open>The local variables of \<open>client_gain_inventory_item\<close>: the character, the copied inventory, what
  is left to be stored, and the notifications with their capacity.\<close>

record gain_state =
  gs_chr :: character
  gs_items :: "item_entry list"
  gs_left :: int
  gs_mods :: "inventory_modify list"
  gs_capacity :: nat

definition push_mod :: "bool \<Rightarrow> inventory_modify \<Rightarrow> gain_state \<Rightarrow> gain_state \<times> bool" where
  "push_mod mem md gs =
     (if length (gs_mods gs) = gs_capacity gs
      then if mem then (gs\<lparr>gs_capacity := gs_capacity gs * 2, gs_mods := gs_mods gs @ [md]\<rparr>, True) else (gs, False)
      else (gs\<lparr>gs_mods := gs_mods gs @ [md]\<rparr>, True))"

definition top_up :: "int \<Rightarrow> u64 \<Rightarrow> int \<Rightarrow> item_entry \<Rightarrow> item_entry \<times> int" where
  "top_up slotMax uid left e =
     (if entry_quantity e > slotMax - left
      then (with_quantity slotMax e, to_i16 (left - (slotMax - entry_quantity e)))
      else let e = (if item_uid (ii_item (ie_item e)) = 0
                    then e\<lparr>ie_item := (ie_item e)\<lparr>ii_item := (ii_item (ie_item e))\<lparr>item_uid := uid\<rparr>\<rparr>\<rparr> else e)
           in (with_quantity (entry_quantity e + left) e, 0))"

definition fill_stack ::
  "(bytes \<Rightarrow> u64) \<Rightarrow> bool \<Rightarrow> (u16 \<Rightarrow> quest_requirement list option) \<Rightarrow> item_info \<Rightarrow> inventory_item \<Rightarrow> nat \<Rightarrow> gain_state \<Rightarrow>
   cerror + gain_state \<times> bool" where
  "fill_stack xxh3 mem wzq info it i gs =
     (let e = gs_items gs ! i; iid = itemId (ii_item it)
      in if \<not> ie_isEmpty e \<and> entry_id e = iid
         then (case item_complete xxh3 mem wzq info iid (entry_quantity e + quantity it) (gs_chr gs) of
                 Inl err \<Rightarrow> Inl err
               | Inr chr \<Rightarrow>
                   (case top_up (info_slotMax info) (item_uid (ii_item it)) (gs_left gs) e of
                      (e, left) \<Rightarrow>
                        Inr (push_mod mem (mod_modify (ucast (iid div 1000000)) (int i + 1) (entry_quantity e))
                               (gs\<lparr>gs_chr := chr, gs_items := (gs_items gs)[i := e], gs_left := left\<rparr>))))
         else Inr (gs, True))"

fun fill_stacks ::
  "(bytes \<Rightarrow> u64) \<Rightarrow> bool \<Rightarrow> (u16 \<Rightarrow> quest_requirement list option) \<Rightarrow> item_info \<Rightarrow> inventory_item \<Rightarrow> nat list \<Rightarrow> gain_state \<Rightarrow>
   cerror + gain_state \<times> bool" where
  "fill_stacks xxh3 mem wzq info it [] gs = Inr (gs, True)"
| "fill_stacks xxh3 mem wzq info it (i # ns) gs =
     (case fill_stack xxh3 mem wzq info it i gs of
        Inl err \<Rightarrow> Inl err
      | Inr (gs, ok) \<Rightarrow>
          if \<not> ok then Inr (gs, False)
          else if gs_left gs = 0 then Inr (gs, True)
          else fill_stacks xxh3 mem wzq info it ns gs)"

definition fill_slot ::
  "(bytes \<Rightarrow> u64) \<Rightarrow> bool \<Rightarrow> (u16 \<Rightarrow> quest_requirement list option) \<Rightarrow> item_info \<Rightarrow> inventory_item \<Rightarrow> nat \<Rightarrow> gain_state \<Rightarrow>
   cerror + gain_state \<times> bool" where
  "fill_slot xxh3 mem wzq info it j gs =
     (let iid = itemId (ii_item it)
      in case item_complete xxh3 mem wzq info iid (quantity it) (gs_chr gs) of
           Inl err \<Rightarrow> Inl err
         | Inr chr \<Rightarrow>
             let e = \<lparr>ie_isEmpty = False, ie_item = \<lparr>ii_item = ii_item it, quantity = gs_left gs\<rparr>\<rparr>;
                 gs = gs\<lparr>gs_chr := chr, gs_items := (gs_items gs)[j := e]\<rparr>;
                 wid = weapon_id chr
             in case push_mod mem (mod_add (ucast (iid div 1000000)) (int j + 1) (ie_item e)) gs of
                  (gs, False) \<Rightarrow> Inr (gs, False)
                | (gs, True) \<Rightarrow>
                    Inr (if \<not> ee_isEmpty (equippedEquipment chr ! unat (equip_slot_to_compact EQUIP_SLOT_WEAPON)) \<and>
                            j < unat (activeProjectile chr) \<and>
                            (wid div 10000 = 145 \<and> iid div 1000 = 2060 \<or> wid div 10000 = 146 \<and> iid div 1000 = 2061)
                         then gs\<lparr>gs_chr := chr\<lparr>activeProjectile := of_nat j\<rparr>\<rparr> else gs, True))"

text \<open>The packets: the first 255 notifications are sent again and again until fewer are left.\<close>

fun send_batches :: "nat \<Rightarrow> inventory_modify list \<Rightarrow> client \<Rightarrow> client" where
  "send_batches n mods c =
     (if n > 255 then send_batches (n - 255) mods (send To_session (Modify_items 255 (take 255 mods)) c)
      else send To_session (Modify_items (of_nat n) (take n mods)) c)"

declare send_batches.simps [simp del]

definition first_empty :: "nat \<Rightarrow> item_entry list \<Rightarrow> nat option" where
  "first_empty n es = find (\<lambda>i. ie_isEmpty (es ! i)) [0..<n]"

definition store_rechargeable :: "inventory_item \<Rightarrow> nat \<Rightarrow> gain_state \<Rightarrow> gain_state" where
  "store_rechargeable it n gs =
     (case first_empty n (gs_items gs) of
        None \<Rightarrow> gs
      | Some i \<Rightarrow>
          let chr = gs_chr gs; wid = weapon_id chr; iid = itemId (ii_item it);
              gs = gs\<lparr>gs_items := (gs_items gs)[i := \<lparr>ie_isEmpty = False, ie_item = it\<rparr>], gs_mods := [mod_add 2 (int i + 1) it]\<rparr>
          in if \<not> ee_isEmpty (equippedEquipment chr ! unat (equip_slot_to_compact EQUIP_SLOT_WEAPON)) \<and>
                i < unat (activeProjectile chr) \<and>
                (wid div 10000 = 147 \<and> ITEM_IS_THROWING_STAR iid \<and> quantity it > 0 \<or>
                 wid div 10000 = 149 \<and> ITEM_IS_BULLET iid \<and> quantity it > 0)
             then gs\<lparr>gs_chr := chr\<lparr>activeProjectile := of_nat i\<rparr>\<rparr> else gs)"

text \<open>Copy the inventory back and report.\<close>

definition store_inventory :: "nat \<Rightarrow> gain_state \<Rightarrow> client \<Rightarrow> client" where
  "store_inventory iv gs c =
     (let chr = gs_chr gs;
          chr = chr\<lparr>chr_inventory := (chr_inventory chr)[iv := (chr_inventory chr ! iv)\<lparr>inv_items := gs_items gs\<rparr>]\<rparr>
      in send_batches (length (gs_mods gs)) (gs_mods gs) (c\<lparr>cl_character := chr\<rparr>))"

definition client_gain_inventory_item ::
  "(bytes \<Rightarrow> u64) \<Rightarrow> bool \<Rightarrow> bool \<Rightarrow> (u32 \<Rightarrow> item_info option) \<Rightarrow> (u16 \<Rightarrow> quest_requirement list option) \<Rightarrow> client \<Rightarrow> inventory_item \<Rightarrow>
   cerror + client \<times> inventory_gain_result option" where
  "client_gain_inventory_item xxh3 mem remem wz wzq c it =
     (let chr = cl_character c; iid = itemId (ii_item it); iv = unat (iid div 1000000 - 2)
      in case wz iid of
           None \<Rightarrow> Inl Null_info
         | Some info \<Rightarrow>
             (case (if info_quest info then hash_set_u32_get xxh3 id (itemQuests chr) iid else Some (Some iid)) of
                None \<Rightarrow> Inl No_return
              | Some None \<Rightarrow> Inr (c, Some INVENTORY_GAIN_RESULT_UNAVAILABLE)
              | Some (Some _) \<Rightarrow>
                  if \<not> mem then Inr (c, None)
                  else if iv \<ge> length (chr_inventory chr) then Inl Out_of_bounds
                  else let n = slot_count chr iv;
                           gs = \<lparr>gs_chr = chr, gs_items = inv_items (chr_inventory chr ! iv), gs_left = quantity it,
                                 gs_mods = [], gs_capacity = 1\<rparr>
                       in if ITEM_IS_RECHARGEABLE iid
                          then Inr (store_inventory iv (store_rechargeable it n gs) c, Some INVENTORY_GAIN_RESULT_SUCCESS)
                          else case fill_stacks xxh3 remem wzq info it [0..<n] gs of
                                 Inl err \<Rightarrow> Inl err
                               | Inr (gs, False) \<Rightarrow> Inr (c\<lparr>cl_character := gs_chr gs\<rparr>, None)
                               | Inr (gs, True) \<Rightarrow>
                                   if gs_left gs = 0 then Inr (store_inventory iv gs c, Some INVENTORY_GAIN_RESULT_SUCCESS)
                                   else (case first_empty n (gs_items gs) of
                                           None \<Rightarrow>
                                             Inr (send To_session (Modify_items 0 [])
                                                    (send To_session Inventory_full_notification (c\<lparr>cl_character := gs_chr gs\<rparr>)),
                                                  Some INVENTORY_GAIN_RESULT_FULL)
                                         | Some j \<Rightarrow>
                                             (case fill_slot xxh3 remem wzq info it j gs of
                                                Inl err \<Rightarrow> Inl err
                                              | Inr (gs, False) \<Rightarrow> Inr (c\<lparr>cl_character := gs_chr gs\<rparr>, None)
                                              | Inr (gs, True) \<Rightarrow> Inr (store_inventory iv gs c, Some INVENTORY_GAIN_RESULT_SUCCESS)))))"

definition client_gain_equipment ::
  "(bytes \<Rightarrow> u64) \<Rightarrow> bool \<Rightarrow> (u32 \<Rightarrow> item_info option) \<Rightarrow> client \<Rightarrow> equipment \<Rightarrow> bool \<Rightarrow> cerror + client \<times> inventory_gain_result" where
  "client_gain_equipment xxh3 mem wz c e equip =
     (let chr = cl_character c; iid = itemId (eq_item e)
      in case wz iid of
           None \<Rightarrow> Inl Null_info
         | Some info \<Rightarrow>
             (case (if info_quest info then hash_set_u32_get xxh3 id (itemQuests chr) iid else Some (Some iid)) of
                None \<Rightarrow> Inl No_return
              | Some None \<Rightarrow> Inr (c, INVENTORY_GAIN_RESULT_UNAVAILABLE)
              | Some (Some _) \<Rightarrow>
                  (case (if equip then None else find (\<lambda>j. ee_isEmpty (equip_slot chr j)) [0..<equip_slot_count chr]) of
                     None \<Rightarrow> Inr (c, INVENTORY_GAIN_RESULT_FULL)
                   | Some j \<Rightarrow>
                       (case (if info_quest info then hash_set_u32_remove xxh3 id mem (itemQuests chr) iid else Some (itemQuests chr)) of
                          None \<Rightarrow> Inl No_return
                        | Some hs \<Rightarrow>
                            Inr (send_mods [mod_add_equip (int j + 1) e]
                                   (c\<lparr>cl_character := set_equip_slot j \<lparr>ee_isEmpty = False, ee_equip = e\<rparr> (chr\<lparr>itemQuests := hs\<rparr>)\<rparr>),
                                 INVENTORY_GAIN_RESULT_SUCCESS)))))"

subsection \<open>Moving stacks\<close>

definition swap_items :: "nat \<Rightarrow> nat \<Rightarrow> nat \<Rightarrow> character \<Rightarrow> character" where
  "swap_items iv src dst chr =
     (let temp = ie_item (item_slot chr iv dst);
          chr = set_item_slot iv dst ((item_slot chr iv dst)\<lparr>ie_item := ie_item (item_slot chr iv src)\<rparr>) chr
      in set_item_slot iv src ((item_slot chr iv src)\<lparr>ie_item := temp\<rparr>) chr)"

definition move_to_empty :: "nat \<Rightarrow> nat \<Rightarrow> nat \<Rightarrow> character \<Rightarrow> character" where
  "move_to_empty iv src dst chr =
     (let chr = set_item_slot iv dst (item_slot chr iv src) chr;
          chr = set_item_slot iv src ((item_slot chr iv src)\<lparr>ie_isEmpty := True\<rparr>) chr;
          active = unat (activeProjectile chr)
      in if iv = 0 \<and> src = active
         then if dst < src then chr\<lparr>activeProjectile := of_nat dst\<rparr> else advance_projectile (src + 1) chr
         else if iv = 0 \<and> dst < active then prefer_projectile dst chr
         else chr)"

definition merge_stacks :: "item_info \<Rightarrow> nat \<Rightarrow> nat \<Rightarrow> nat \<Rightarrow> character \<Rightarrow> character \<times> inventory_modify list" where
  "merge_stacks info iv src dst chr =
     (let amount = to_i16 (info_slotMax info - entry_quantity (item_slot chr iv dst)); tab = of_nat (iv + 2)
      in if entry_quantity (item_slot chr iv src) < amount
         then let chr = set_item_slot iv dst (with_quantity (entry_quantity (item_slot chr iv dst) + entry_quantity (item_slot chr iv src))
                          (item_slot chr iv dst)) chr;
                  chr = set_item_slot iv src ((item_slot chr iv src)\<lparr>ie_isEmpty := True\<rparr>) chr;
                  chr = (if iv = 0 \<and> src < dst \<and> src = unat (activeProjectile chr) then advance_projectile (src + 1) chr else chr)
              in (chr, [mod_remove tab (int src + 1), mod_modify tab (int dst + 1) (entry_quantity (item_slot chr iv dst))])
         else let chr = set_item_slot iv dst (with_quantity (entry_quantity (item_slot chr iv dst) + amount) (item_slot chr iv dst)) chr;
                  chr = set_item_slot iv src (with_quantity (entry_quantity (item_slot chr iv src) - amount) (item_slot chr iv src)) chr
              in (chr, [mod_modify tab (int src + 1) (entry_quantity (item_slot chr iv src)),
                        mod_modify tab (int dst + 1) (entry_quantity (item_slot chr iv dst))]))"

definition swap_projectile :: "nat \<Rightarrow> nat \<Rightarrow> character \<Rightarrow> character" where
  "swap_projectile lo hi chr =
     (let active = unat (activeProjectile chr)
      in if lo \<le> active \<and> active \<le> hi
         then if active = lo then advance_projectile lo chr
              else if active = hi then chr\<lparr>activeProjectile := of_nat lo\<rparr>
              else prefer_projectile lo chr
         else chr)"

definition move_stack :: "(u32 \<Rightarrow> item_info option) \<Rightarrow> nat \<Rightarrow> nat \<Rightarrow> nat \<Rightarrow> character \<Rightarrow> cerror + character \<times> inventory_modify list" where
  "move_stack wz iv src dst chr =
     (let s = item_slot chr iv src; d = item_slot chr iv dst; tab = of_nat (iv + 2)
      in if ie_isEmpty d then Inr (move_to_empty iv src dst chr, [mod_move tab (int src + 1) (int dst + 1)])
         else if entry_id d = entry_id s \<and> \<not> ITEM_IS_RECHARGEABLE (entry_id d)
         then (case wz (entry_id d) of
                 None \<Rightarrow> Inl Null_info
               | Some info \<Rightarrow>
                   if entry_quantity d = info_slotMax info
                   then Inr (swap_items iv src dst chr, [mod_move tab (int src + 1) (int dst + 1)])
                   else Inr (merge_stacks info iv src dst chr))
         else let chr = swap_items iv src dst chr
              in if iv = 0
                 then let lo = min src dst; hi = max src dst
                      in Inr (swap_projectile lo hi chr, [mod_move tab (int lo + 1) (int hi + 1)])
                 else Inr (chr, [mod_move tab (int src + 1) (int dst + 1)]))"

text \<open>For equipment with an occupied destination the code swaps the entries of
  \<open>chr->inventory[inventory]\<close>, where \<open>inventory\<close> is 1.\<close>

definition move_equip :: "nat \<Rightarrow> nat \<Rightarrow> character \<Rightarrow> character" where
  "move_equip src dst chr =
     (if ee_isEmpty (equip_slot chr dst)
      then let chr = set_equip_slot dst (equip_slot chr src) chr
           in set_equip_slot src ((equip_slot chr src)\<lparr>ee_isEmpty := True\<rparr>) chr
      else swap_items 1 src dst chr)"

definition client_move_item :: "(u32 \<Rightarrow> item_info option) \<Rightarrow> client \<Rightarrow> u8 \<Rightarrow> u8 \<Rightarrow> u8 \<Rightarrow> cerror + client \<times> bool" where
  "client_move_item wz c inventory source dest =
     (let chr = cl_character c; src = unat (source - 1); dst = unat (dest - 1)
      in if cl_shop c \<noteq> - 1 then Inr (c, True)
         else if inventory < 1 \<or> inventory > 5 then Inr (c, False)
         else if inventory \<noteq> 1
         then let iv = unat inventory - 2
              in if src \<ge> slot_count chr iv \<or> dst \<ge> slot_count chr iv then Inr (c, False)
                 else if ie_isEmpty (item_slot chr iv src) then Inr (c, True)
                 else case move_stack wz iv src dst chr of
                        Inl err \<Rightarrow> Inl err
                      | Inr (chr, mods) \<Rightarrow> Inr (send_mods mods (c\<lparr>cl_character := chr\<rparr>), True)
         else if src \<ge> equip_slot_count chr \<or> dst \<ge> equip_slot_count chr then Inr (c, False)
         else if ee_isEmpty (equip_slot chr src) then Inr (c, True)
         else Inr (send_mods [mod_move 1 (int src + 1) (int dst + 1)] (c\<lparr>cl_character := move_equip src dst chr\<rparr>), True))"

subsection \<open>Wearing equipment\<close>

text \<open>The extra stats are 32-bit and the stats of equipment 16-bit, so that sums over the 64 slots
  do not overflow.\<close>

definition add_stats :: "equipment \<Rightarrow> character \<Rightarrow> character" where
  "add_stats e chr =
     chr\<lparr>chr_estr := chr_estr chr + eq_str e, chr_edex := chr_edex chr + eq_dex e, chr_eint := chr_eint chr + eq_int e,
         chr_eluk := chr_eluk chr + eq_luk e, chr_eMaxHp := chr_eMaxHp chr + eq_hp e, chr_eMaxMp := chr_eMaxMp chr + eq_mp e\<rparr>"

definition sub_stats :: "equipment \<Rightarrow> character \<Rightarrow> character" where
  "sub_stats e chr =
     chr\<lparr>chr_estr := chr_estr chr - eq_str e, chr_edex := chr_edex chr - eq_dex e, chr_eint := chr_eint chr - eq_int e,
         chr_eluk := chr_eluk chr - eq_luk e, chr_eMaxHp := chr_eMaxHp chr - eq_hp e, chr_eMaxMp := chr_eMaxMp chr - eq_mp e\<rparr>"

definition worn :: "character \<Rightarrow> nat \<Rightarrow> equip_entry" where
  "worn chr i = equippedEquipment chr ! i"

definition put_on :: "nat \<Rightarrow> nat \<Rightarrow> character \<Rightarrow> character" where
  "put_on src dst chr =
     (if ee_isEmpty (worn chr dst)
      then let chr = set_worn dst \<lparr>ee_isEmpty = False, ee_equip = ee_equip (equip_slot chr src)\<rparr> chr;
               chr = add_stats (ee_equip (worn chr dst)) chr
           in set_equip_slot src ((equip_slot chr src)\<lparr>ee_isEmpty := True\<rparr>) chr
      else let chr = sub_stats (ee_equip (worn chr dst)) chr;
               chr = add_stats (ee_equip (equip_slot chr src)) chr;
               temp = ee_equip (equip_slot chr src);
               chr = set_equip_slot src ((equip_slot chr src)\<lparr>ee_equip := ee_equip (worn chr dst)\<rparr>) chr
           in set_worn dst ((worn chr dst)\<lparr>ee_equip := temp\<rparr>) chr)"

text \<open>The item that has been put on decides about projectiles, whichever slot it is worn in.\<close>

definition equip_projectile :: "nat \<Rightarrow> character \<Rightarrow> character" where
  "equip_projectile dst chr =
     (case find (\<lambda>i. \<not> ie_isEmpty (item_slot chr 0 i) \<and>
                     takes (itemId (eq_item (ee_equip (worn chr dst)))) (ie_item (item_slot chr 0 i))) [0..<slot_count chr 0] of
        None \<Rightarrow> chr
      | Some i \<Rightarrow> chr\<lparr>activeProjectile := of_nat i\<rparr>)"

definition client_equip :: "client \<Rightarrow> u8 \<Rightarrow> nat \<Rightarrow> cerror + client \<times> bool" where
  "client_equip c source slot =
     (let chr = cl_character c; dst = unat (equip_slot_to_compact slot); src = unat (source - 1)
      in if \<not> is_valid_equip_slot slot then Inr (c, False)
         else if src \<ge> equip_slot_count chr then Inr (c, False)
         else if ee_isEmpty (equip_slot chr src) then Inr (c, True)
         else if dst \<ge> length (equippedEquipment chr) then Inl Out_of_bounds
         else let chr = equip_projectile dst (put_on src dst chr);
                  c = send_mods [mod_move 1 (int src + 1) (- int slot)] (c\<lparr>cl_character := chr\<rparr>)
              in Inr (send To_others (Update_char_look chr) c, True))"

definition take_off :: "nat \<Rightarrow> nat \<Rightarrow> character \<Rightarrow> character" where
  "take_off src dst chr =
     (if ee_isEmpty (equip_slot chr dst)
      then let chr = sub_stats (ee_equip (worn chr src)) chr;
               chr = set_equip_slot dst \<lparr>ee_isEmpty = False, ee_equip = ee_equip (worn chr src)\<rparr> chr
           in set_worn src ((worn chr src)\<lparr>ee_isEmpty := True\<rparr>) chr
      else let chr = sub_stats (ee_equip (worn chr src)) chr;
               chr = add_stats (ee_equip (equip_slot chr dst)) chr;
               temp = ee_equip (worn chr src);
               chr = set_worn src ((worn chr src)\<lparr>ee_equip := ee_equip (equip_slot chr dst)\<rparr>) chr
           in set_equip_slot dst ((equip_slot chr dst)\<lparr>ee_equip := temp\<rparr>) chr)"

text \<open>Hit points and mana above the new maximum are cut off and announced.\<close>

definition cut_hpmp :: "client \<Rightarrow> client" where
  "cut_hpmp c =
     (let chr = cl_character c;
          hp = chr_hp chr > character_get_effective_hp chr;
          chr = (if hp then chr\<lparr>chr_hp := character_get_effective_hp chr\<rparr> else chr);
          mp = chr_mp chr > character_get_effective_mp chr;
          chr = (if mp then chr\<lparr>chr_mp := character_get_effective_mp chr\<rparr> else chr);
          flag = (if hp then STAT_HP else 0) OR (if mp then STAT_MP else 0);
          c = c\<lparr>cl_character := chr\<rparr>
      in if flag \<noteq> 0
         then send To_session (Stat_change True flag
                ((if hp then [word_of_int (chr_hp chr)] else []) @ (if mp then [word_of_int (chr_mp chr)] else []))) c
         else c)"

definition client_unequip :: "client \<Rightarrow> nat \<Rightarrow> u8 \<Rightarrow> cerror + client \<times> bool" where
  "client_unequip c slot dest =
     (let chr = cl_character c; src = unat (equip_slot_to_compact slot); dst = unat (dest - 1)
      in if \<not> is_valid_equip_slot slot then Inr (c, False)
         else if dst \<ge> equip_slot_count chr then Inr (c, False)
         else if src \<ge> length (equippedEquipment chr) then Inl Out_of_bounds
         else let chr = (if slot = EQUIP_SLOT_WEAPON then chr\<lparr>activeProjectile := - 1\<rparr> else chr);
                  c = cut_hpmp (c\<lparr>cl_character := take_off src dst chr\<rparr>);
                  c = send_mods [mod_move 1 (- int slot) (int dst + 1)] c
              in Inr (send To_others (Update_char_look (cl_character c)) c, True))"

end
