(* ===== verification/Equipment.thy ===== *)
theory Equipment
  imports Client_Inventory
begin

text \<open>
  What putting on and taking off equipment keeps: no piece of equipment appears or disappears,
  and the extra stats are the sums over what is worn.
\<close>

subsection \<open>Well-formed characters\<close>

definition inventories_wf :: "character \<Rightarrow> bool" where
  "inventories_wf chr \<longleftrightarrow>
     length (chr_inventory chr) = 4 \<and>
     (\<forall>t \<in> set (chr_inventory chr). length (inv_items t) = MAX_ITEM_COUNT \<and> unat (inv_slotCount t) \<le> MAX_ITEM_COUNT) \<and>
     length (eqi_items (equipmentInventory chr)) = MAX_ITEM_COUNT \<and>
     unat (eqi_slotCount (equipmentInventory chr)) \<le> MAX_ITEM_COUNT \<and>
     length (equippedEquipment chr) = EQUIP_SLOT_COUNT"

definition held :: "equip_entry \<Rightarrow> equipment multiset" where
  "held e = (if ee_isEmpty e then {#} else {#ee_equip e#})"

definition held_all :: "equip_entry list \<Rightarrow> equipment multiset" where
  "held_all es = sum_list (map held es)"

text \<open>All the equipment of a character.\<close>

definition equips_of :: "character \<Rightarrow> equipment multiset" where
  "equips_of chr = held_all (equippedEquipment chr) + held_all (eqi_items (equipmentInventory chr))"

definition worn_total :: "(equipment \<Rightarrow> int) \<Rightarrow> equip_entry list \<Rightarrow> int" where
  "worn_total f es = sum_list (map (\<lambda>e. if ee_isEmpty e then 0 else f (ee_equip e)) es)"

definition extra_stats_ok :: "character \<Rightarrow> bool" where
  "extra_stats_ok chr \<longleftrightarrow>
     (let es = equippedEquipment chr
      in chr_estr chr = worn_total eq_str es \<and> chr_edex chr = worn_total eq_dex es \<and> chr_eint chr = worn_total eq_int es \<and>
         chr_eluk chr = worn_total eq_luk es \<and> chr_eMaxHp chr = worn_total eq_hp es \<and> chr_eMaxMp chr = worn_total eq_mp es)"

lemma sum_list_split:
  fixes xs :: "'a :: comm_monoid_add list"
  assumes "i < length xs"
  shows "sum_list xs = sum_list (take i xs) + xs ! i + sum_list (drop (Suc i) xs)"
  by (subst id_take_nth_drop [OF assms]) (simp add: add.assoc)

lemma held_all_update:
  assumes "i < length es"
  shows "held_all (es[i := e]) + held (es ! i) = held_all es + held e"
  using sum_list_split [of i "map held es"] sum_list_split [of i "(map held es)[i := held e]"] assms
  by (simp add: held_all_def map_update ac_simps)

lemma sum_list_map_update:
  fixes f :: "'a \<Rightarrow> int"
  assumes "i < length xs"
  shows "sum_list (map f (xs[i := x])) = sum_list (map f xs) - f (xs ! i) + f x"
  using sum_list_split [of i "map f xs"] sum_list_split [of i "(map f xs)[i := f x]"] assms
  by (simp add: map_update)

lemma worn_total_update:
  assumes "i < length es"
  shows "worn_total f (es[i := e]) =
    worn_total f es - (if ee_isEmpty (es ! i) then 0 else f (ee_equip (es ! i))) + (if ee_isEmpty e then 0 else f (ee_equip e))"
  unfolding worn_total_def by (rule sum_list_map_update [OF assms])

subsection \<open>Fields\<close>

named_theorems slot_simps \<open>fields of characters after changes to slots and stats\<close>

lemma set_worn_fields [slot_simps]:
  "equippedEquipment (set_worn i e chr) = (equippedEquipment chr)[i := e]"
  "equipmentInventory (set_worn i e chr) = equipmentInventory chr" "chr_inventory (set_worn i e chr) = chr_inventory chr"
  "equip_slot (set_worn i e chr) = equip_slot chr"
  by (simp_all add: set_worn_def equip_slot_def fun_eq_iff)

lemma set_equip_slot_fields [slot_simps]:
  "equippedEquipment (set_equip_slot i e chr) = equippedEquipment chr"
  "eqi_items (equipmentInventory (set_equip_slot i e chr)) = (eqi_items (equipmentInventory chr))[i := e]"
  "eqi_slotCount (equipmentInventory (set_equip_slot i e chr)) = eqi_slotCount (equipmentInventory chr)"
  "chr_inventory (set_equip_slot i e chr) = chr_inventory chr" "worn (set_equip_slot i e chr) = worn chr"
  by (simp_all add: set_equip_slot_def worn_def fun_eq_iff)

lemma stats_fields [slot_simps]:
  "equippedEquipment (add_stats e chr) = equippedEquipment chr" "equipmentInventory (add_stats e chr) = equipmentInventory chr"
  "chr_inventory (add_stats e chr) = chr_inventory chr"
  "equippedEquipment (sub_stats e chr) = equippedEquipment chr" "equipmentInventory (sub_stats e chr) = equipmentInventory chr"
  "chr_inventory (sub_stats e chr) = chr_inventory chr"
  "worn (add_stats e chr) = worn chr" "worn (sub_stats e chr) = worn chr"
  "equip_slot (add_stats e chr) = equip_slot chr" "equip_slot (sub_stats e chr) = equip_slot chr"
  by (simp_all add: add_stats_def sub_stats_def worn_def equip_slot_def fun_eq_iff)

text \<open>What the rest of \<open>client_equip\<close> and \<open>client_unequip\<close> changes: projectiles, hit points, mana.\<close>

definition same_equipment :: "character \<Rightarrow> character \<Rightarrow> bool" where
  "same_equipment chr chr' \<longleftrightarrow> equippedEquipment chr' = equippedEquipment chr \<and> equipmentInventory chr' = equipmentInventory chr \<and>
     chr_inventory chr' = chr_inventory chr \<and> chr_estr chr' = chr_estr chr \<and> chr_edex chr' = chr_edex chr \<and>
     chr_eint chr' = chr_eint chr \<and> chr_eluk chr' = chr_eluk chr \<and> chr_eMaxHp chr' = chr_eMaxHp chr \<and> chr_eMaxMp chr' = chr_eMaxMp chr"

lemma same_equipmentD:
  assumes "same_equipment chr chr'"
  shows "equips_of chr' = equips_of chr" "extra_stats_ok chr' = extra_stats_ok chr" "inventories_wf chr' = inventories_wf chr"
  using assms by (simp_all add: same_equipment_def equips_of_def extra_stats_ok_def inventories_wf_def)

lemma same_equipment_projectile:
  "same_equipment chr (equip_projectile dst chr)" "same_equipment chr (chr\<lparr>activeProjectile := p\<rparr>)"
  by (simp_all add: same_equipment_def equip_projectile_def split: option.splits)

lemma same_equipment_cut: "same_equipment (cl_character c) (cl_character (cut_hpmp c))"
  by (simp add: same_equipment_def cut_hpmp_def Let_def)

subsection \<open>Putting on and taking off\<close>

lemma entry_full: "\<not> ee_isEmpty e \<Longrightarrow> e\<lparr>ee_equip := x\<rparr> = \<lparr>ee_isEmpty = False, ee_equip = x\<rparr>"
  by (cases e) simp

lemma put_on_tables:
  fixes chr src dst
  defines "W \<equiv> equippedEquipment chr" and "I \<equiv> eqi_items (equipmentInventory chr)"
  assumes "dst < length W" "src < length I"
  shows "equippedEquipment (put_on src dst chr) = W[dst := \<lparr>ee_isEmpty = False, ee_equip = ee_equip (I ! src)\<rparr>]"
    "eqi_items (equipmentInventory (put_on src dst chr)) =
       (if ee_isEmpty (W ! dst) then I[src := (I ! src)\<lparr>ee_isEmpty := True\<rparr>] else I[src := (I ! src)\<lparr>ee_equip := ee_equip (W ! dst)\<rparr>])"
  using assms by (auto simp: put_on_def Let_def slot_simps worn_def equip_slot_def entry_full)

lemma take_off_tables:
  fixes chr src dst
  defines "W \<equiv> equippedEquipment chr" and "I \<equiv> eqi_items (equipmentInventory chr)"
  assumes "src < length W" "dst < length I"
  shows "eqi_items (equipmentInventory (take_off src dst chr)) = I[dst := \<lparr>ee_isEmpty = False, ee_equip = ee_equip (W ! src)\<rparr>]"
    "equippedEquipment (take_off src dst chr) =
       (if ee_isEmpty (I ! dst) then W[src := (W ! src)\<lparr>ee_isEmpty := True\<rparr>] else W[src := (W ! src)\<lparr>ee_equip := ee_equip (I ! dst)\<rparr>])"
  using assms by (auto simp: take_off_def Let_def slot_simps worn_def equip_slot_def entry_full)

text \<open>Two tables exchange what they hold at one place each.\<close>

lemma held_exchange:
  assumes "i < length xs" "j < length ys" "held x + held y = held (xs ! i) + held (ys ! j)"
  shows "held_all (xs[i := x]) + held_all (ys[j := y]) = held_all xs + held_all ys"
proof -
  have "held_all (xs[i := x]) + held_all (ys[j := y]) + (held (xs ! i) + held (ys ! j)) =
      (held_all (xs[i := x]) + held (xs ! i)) + (held_all (ys[j := y]) + held (ys ! j))"
    by (simp add: ac_simps)
  also have "\<dots> = held_all xs + held_all ys + (held x + held y)"
    by (simp only: held_all_update [OF assms(1)] held_all_update [OF assms(2)]) (simp add: ac_simps)
  finally show ?thesis by (simp add: assms(3))
qed

lemma wf_lengths:
  assumes "inventories_wf chr"
  shows "i < EQUIP_SLOT_COUNT \<Longrightarrow> i < length (equippedEquipment chr)"
    "j < equip_slot_count chr \<Longrightarrow> j < length (eqi_items (equipmentInventory chr))"
  using assms by (auto simp: inventories_wf_def equip_slot_count_def)

lemma put_on_ok:
  assumes wf: "inventories_wf chr" and ix: "src < equip_slot_count chr" "dst < EQUIP_SLOT_COUNT"
    and full: "\<not> ee_isEmpty (equip_slot chr src)"
  shows "equips_of (put_on src dst chr) = equips_of chr" "inventories_wf (put_on src dst chr)"
    "extra_stats_ok chr \<Longrightarrow> extra_stats_ok (put_on src dst chr)"
proof -
  let ?W = "equippedEquipment chr" and ?I = "eqi_items (equipmentInventory chr)"
  have len: "dst < length ?W" "src < length ?I" using wf_lengths [OF wf] ix by blast+
  note tab = put_on_tables [of dst chr src, OF len]
  show "equips_of (put_on src dst chr) = equips_of chr"
    unfolding equips_of_def tab using full
    by (cases "ee_isEmpty (?W ! dst)") (auto intro!: held_exchange len simp: held_def equip_slot_def)
  show "inventories_wf (put_on src dst chr)"
    using wf by (simp add: inventories_wf_def put_on_def Let_def slot_simps)
  show "extra_stats_ok (put_on src dst chr)" if "extra_stats_ok chr"
    using that len full unfolding extra_stats_ok_def Let_def tab
    by (simp add: worn_total_update put_on_def Let_def set_worn_def set_equip_slot_def add_stats_def sub_stats_def worn_def equip_slot_def)
qed

lemma take_off_ok:
  assumes wf: "inventories_wf chr" and ix: "src < EQUIP_SLOT_COUNT" "dst < equip_slot_count chr"
  shows "\<not> ee_isEmpty (worn chr src) \<Longrightarrow> equips_of (take_off src dst chr) = equips_of chr" "inventories_wf (take_off src dst chr)"
    "\<not> ee_isEmpty (worn chr src) \<Longrightarrow> extra_stats_ok chr \<Longrightarrow> extra_stats_ok (take_off src dst chr)"
    "ee_isEmpty (worn chr src) \<Longrightarrow> ee_isEmpty (equip_slot chr dst) \<Longrightarrow>
       equips_of (take_off src dst chr) = add_mset (ee_equip (worn chr src)) (equips_of chr)"
proof -
  let ?W = "equippedEquipment chr" and ?I = "eqi_items (equipmentInventory chr)"
  have len: "src < length ?W" "dst < length ?I" using wf_lengths [OF wf] ix by blast+
  note tab = take_off_tables [of src chr dst, OF len]
  show "equips_of (take_off src dst chr) = equips_of chr" if "\<not> ee_isEmpty (worn chr src)"
    unfolding equips_of_def tab using that
    by (cases "ee_isEmpty (?I ! dst)") (auto intro!: held_exchange len simp: held_def worn_def)
  show "inventories_wf (take_off src dst chr)"
    using wf by (simp add: inventories_wf_def take_off_def Let_def slot_simps)
  show "extra_stats_ok (take_off src dst chr)" if "\<not> ee_isEmpty (worn chr src)" "extra_stats_ok chr"
    using that len unfolding extra_stats_ok_def Let_def tab
    by (simp add: worn_total_update take_off_def Let_def set_worn_def set_equip_slot_def add_stats_def sub_stats_def worn_def equip_slot_def)
  show "equips_of (take_off src dst chr) = add_mset (ee_equip (worn chr src)) (equips_of chr)"
    if "ee_isEmpty (worn chr src)" "ee_isEmpty (equip_slot chr dst)"
    using that held_all_update [OF len(1), of "(?W ! src)\<lparr>ee_isEmpty := True\<rparr>"]
      held_all_update [OF len(2), of "\<lparr>ee_isEmpty = False, ee_equip = ee_equip (?W ! src)\<rparr>"]
    unfolding equips_of_def tab by (simp add: held_def worn_def equip_slot_def)
qed

text \<open>What \<open>client_unequip\<close> does to the equipment when its arguments are in range.\<close>

lemma client_unequip_result:
  assumes wf: "inventories_wf (cl_character c)" and slot: "is_valid_equip_slot slot" "slot \<noteq> 148"
    and i: "unat (pos - 1) < equip_slot_count (cl_character c)"
  shows "\<exists>c'. client_unequip c slot pos = Inr (c', True) \<and>
    same_equipment (take_off (unat (equip_slot_to_compact slot)) (unat (pos - 1)) (cl_character c)) (cl_character c')"
proof -
  let ?chr = "cl_character c" and ?w = "unat (equip_slot_to_compact slot)" and ?i = "unat (pos - 1)"
  let ?p = "if slot = EQUIP_SLOT_WEAPON then ?chr\<lparr>activeProjectile := - 1\<rparr> else ?chr"
  have "?w < length (equippedEquipment ?chr)"
    using to_compact_bound [OF slot(1)] slot(2) wf_lengths(1) [OF wf] by simp
  moreover have "same_equipment (take_off ?w ?i ?chr) (take_off ?w ?i ?p)"
    by (simp add: same_equipment_def take_off_def Let_def set_worn_def set_equip_slot_def add_stats_def sub_stats_def worn_def equip_slot_def)
  moreover note same_equipment_cut [of "c\<lparr>cl_character := take_off ?w ?i ?p\<rparr>"]
  ultimately show ?thesis
    using slot(1) i by (simp add: client_unequip_def Let_def send_mods_def same_equipment_def not_le)
qed

subsection \<open>Properties\<close>

text \<open>
  C16: Putting on and taking off equipment keeps everything a player owns. For any valid slot
  other than 148, both calls return; the equipment worn and carried is the same collection as
  before, the arrays keep their sizes, and the extra stats remain the sums over the worn
  equipment. For taking off, the slot must not be empty.
\<close>

theorem equipment_conserved:
  assumes "inventories_wf (cl_character c)" and "extra_stats_ok (cl_character c)" and "is_valid_equip_slot slot" and "slot \<noteq> 148"
  shows "(\<exists>c' r. client_equip c pos slot = Inr (c', r) \<and> equips_of (cl_character c') = equips_of (cl_character c) \<and>
      extra_stats_ok (cl_character c') \<and> inventories_wf (cl_character c')) \<and>
    (\<not> ee_isEmpty (worn (cl_character c) (unat (equip_slot_to_compact slot))) \<longrightarrow>
      (\<exists>c' r. client_unequip c slot pos = Inr (c', r) \<and> equips_of (cl_character c') = equips_of (cl_character c) \<and>
        extra_stats_ok (cl_character c') \<and> inventories_wf (cl_character c')))"
proof -
  let ?chr = "cl_character c" and ?w = "unat (equip_slot_to_compact slot)" and ?i = "unat (pos - 1)"
  have w: "?w < EQUIP_SLOT_COUNT" using assms(4) to_compact_bound [OF assms(3)] by simp
  then have len: "\<not> ?w \<ge> length (equippedEquipment ?chr)" using wf_lengths(1) [OF assms(1) w] by simp
  show ?thesis
  proof (intro conjI impI)
    show "\<exists>c' r. client_equip c pos slot = Inr (c', r) \<and> equips_of (cl_character c') = equips_of ?chr \<and>
      extra_stats_ok (cl_character c') \<and> inventories_wf (cl_character c')"
    proof (cases "?i \<ge> equip_slot_count ?chr \<or> ee_isEmpty (equip_slot ?chr ?i)")
      case True
      then show ?thesis using assms len by (auto simp: client_equip_def Let_def)
    next
      case False
      then have i: "?i < equip_slot_count ?chr" "\<not> ee_isEmpty (equip_slot ?chr ?i)" by auto
      note P = put_on_ok [OF assms(1) i(1) w i(2)] same_equipmentD [OF same_equipment_projectile(1) [of "put_on ?i ?w ?chr" ?w]]
      from i len assms(2,3) P show ?thesis by (auto simp: client_equip_def Let_def send_mods_def)
    qed
  next
    assume full: "\<not> ee_isEmpty (worn ?chr ?w)"
    show "\<exists>c' r. client_unequip c slot pos = Inr (c', r) \<and> equips_of (cl_character c') = equips_of ?chr \<and>
        extra_stats_ok (cl_character c') \<and> inventories_wf (cl_character c')"
    proof (cases "?i \<ge> equip_slot_count ?chr")
      case True
      then show ?thesis using assms by (auto simp: client_unequip_def Let_def)
    next
      case False
      then have i: "?i < equip_slot_count ?chr" by simp
      from client_unequip_result [OF assms(1,3,4) i] obtain c' where c': "client_unequip c slot pos = Inr (c', True)"
        "same_equipment (take_off ?w ?i ?chr) (cl_character c')" by blast
      then show ?thesis using take_off_ok(1-3) [OF assms(1) w i] full assms(2) same_equipmentD [OF c'(2)] by auto
    qed
  qed
qed

text \<open>A player with a sword in the first slot of the equipment inventory.\<close>

definition sword :: equipment where
  "sword = (ee_equip no_equip)\<lparr>eq_item := (eq_item (ee_equip no_equip))\<lparr>itemId := 1302000\<rparr>, eq_str := 3, eq_hp := 10\<rparr>"

definition armed :: client where
  "armed = beginner_client\<lparr>cl_character := beginner\<lparr>chr_eMaxHp := 0,
     equipmentInventory := \<lparr>eqi_slotCount = 24, eqi_items = \<lparr>ee_isEmpty = False, ee_equip = sword\<rparr> # replicate 251 no_equip\<rparr>,
     chr_inventory := replicate 4 \<lparr>inv_slotCount = 24, inv_items = replicate 252 \<lparr>ie_isEmpty = True, ie_item = blank_item\<rparr>\<rparr>\<rparr>\<rparr>"

lemma armed_wf: "inventories_wf (cl_character armed)" "equip_slot_count (cl_character armed) = 24"
  "extra_stats_ok (cl_character armed)"
  by (simp_all add: armed_def inventories_wf_def equip_slot_count_def extra_stats_ok_def worn_total_def beginner_def
      no_equip_def MAX_ITEM_COUNT_def EQUIP_SLOT_COUNT_def Let_def sum_list_replicate)

lemma armed_equip: "equippedEquipment (cl_character armed) = replicate 64 no_equip"
  "equip_slot (cl_character armed) 0 = \<lparr>ee_isEmpty = False, ee_equip = sword\<rparr>"
  by (simp_all add: armed_def beginner_def equip_slot_def)

theorem equipment_conserved_witness:
  "\<exists>c' r. client_equip armed 1 EQUIP_SLOT_WEAPON = Inr (c', r) \<and> equips_of (cl_character c') = equips_of (cl_character armed) \<and>
     extra_stats_ok (cl_character c')"
proof -
  have "is_valid_equip_slot EQUIP_SLOT_WEAPON" "EQUIP_SLOT_WEAPON \<noteq> 148"
    by (simp_all add: is_valid_equip_slot_def EQUIP_SLOT_WEAPON_def)
  from equipment_conserved [OF armed_wf(1,3) this, of 1] show ?thesis by blast
qed

text \<open>
  Taking equipment off twice duplicates it: the code does not check that the worn slot is
  in use, and an emptied slot keeps its content, so a second request copies the piece to
  another free slot.
\<close>

theorem unequip_twice_duplicates:
  assumes "inventories_wf (cl_character c)" and "is_valid_equip_slot slot" and "slot \<noteq> 148"
    and "\<not> ee_isEmpty (worn (cl_character c) (unat (equip_slot_to_compact slot)))"
    and "unat (p1 - 1) < equip_slot_count (cl_character c)" and "unat (p2 - 1) < equip_slot_count (cl_character c)" and "p1 \<noteq> p2"
    and "ee_isEmpty (equip_slot (cl_character c) (unat (p1 - 1)))" and "ee_isEmpty (equip_slot (cl_character c) (unat (p2 - 1)))"
  shows "\<exists>c1 c2. client_unequip c slot p1 = Inr (c1, True) \<and> client_unequip c1 slot p2 = Inr (c2, True) \<and>
    equips_of (cl_character c2) =
      add_mset (ee_equip (worn (cl_character c) (unat (equip_slot_to_compact slot)))) (equips_of (cl_character c))"
proof -
  let ?chr = "cl_character c" and ?w = "unat (equip_slot_to_compact slot)" and ?i = "unat (p1 - 1)" and ?j = "unat (p2 - 1)"
  have w: "?w < EQUIP_SLOT_COUNT" using assms(3) to_compact_bound [OF assms(2)] by simp
  have len: "?w < length (equippedEquipment ?chr)" "?i < length (eqi_items (equipmentInventory ?chr))"
    using wf_lengths [OF assms(1)] w assms(5) by blast+
  have ij: "?i \<noteq> ?j" using assms(7) by (metis diff_add_cancel word_unat_eq_iff)
  from client_unequip_result [OF assms(1-3,5)] obtain c1 where c1: "client_unequip c slot p1 = Inr (c1, True)"
    "same_equipment (take_off ?w ?i ?chr) (cl_character c1)" by blast
  note t1 = take_off_tables [of ?w ?chr ?i, OF len]
  have e1: "equippedEquipment (cl_character c1) = (equippedEquipment ?chr)[?w := (worn ?chr ?w)\<lparr>ee_isEmpty := True\<rparr>]"
    "eqi_items (equipmentInventory (cl_character c1)) = (eqi_items (equipmentInventory ?chr))[?i := \<lparr>ee_isEmpty = False, ee_equip = ee_equip (worn ?chr ?w)\<rparr>]"
    "equip_slot_count (cl_character c1) = equip_slot_count ?chr"
    using c1(2) t1 assms(8) by (simp_all add: same_equipment_def worn_def equip_slot_def equip_slot_count_def take_off_def Let_def slot_simps)
  have wf1: "inventories_wf (cl_character c1)" "equips_of (cl_character c1) = equips_of ?chr"
    using take_off_ok(1,2) [OF assms(1) w assms(5)] assms(4) same_equipmentD [OF c1(2)] by simp_all
  have j: "?j < equip_slot_count (cl_character c1)" using assms(6) e1(3) by simp
  have "ee_isEmpty (worn (cl_character c1) ?w)" "ee_equip (worn (cl_character c1) ?w) = ee_equip (worn ?chr ?w)"
    "ee_isEmpty (equip_slot (cl_character c1) ?j)"
    using len ij assms(9) by (simp_all add: worn_def equip_slot_def e1)
  with take_off_ok(4) [OF wf1(1) w j] wf1(2)
  have "equips_of (take_off ?w ?j (cl_character c1)) = add_mset (ee_equip (worn ?chr ?w)) (equips_of ?chr)" by simp
  with client_unequip_result [OF wf1(1) assms(2,3) j] c1(1) same_equipmentD(1) show ?thesis by metis
qed

theorem unequip_twice_duplicates_witness:
  "let c = armed\<lparr>cl_character := set_worn 10 \<lparr>ee_isEmpty = False, ee_equip = sword\<rparr> (cl_character armed)\<rparr>
   in \<exists>c1 c2. client_unequip c EQUIP_SLOT_WEAPON 2 = Inr (c1, True) \<and> client_unequip c1 EQUIP_SLOT_WEAPON 3 = Inr (c2, True) \<and>
     equips_of (cl_character c2) = add_mset sword (equips_of (cl_character c))"
proof -
  let ?c = "armed\<lparr>cl_character := set_worn 10 \<lparr>ee_isEmpty = False, ee_equip = sword\<rparr> (cl_character armed)\<rparr>"
  have slot: "is_valid_equip_slot EQUIP_SLOT_WEAPON" "EQUIP_SLOT_WEAPON \<noteq> 148" "unat (equip_slot_to_compact EQUIP_SLOT_WEAPON) = 10"
    by (simp_all add: is_valid_equip_slot_def EQUIP_SLOT_WEAPON_def equip_slot_to_compact_def)
  have wf: "inventories_wf (cl_character ?c)" using armed_wf(1) by (simp add: inventories_wf_def slot_simps)
  have cnt: "equip_slot_count (cl_character ?c) = 24" using armed_wf(2) by (simp add: equip_slot_count_def slot_simps)
  have worn: "worn (cl_character ?c) 10 = \<lparr>ee_isEmpty = False, ee_equip = sword\<rparr>"
    by (simp add: worn_def slot_simps armed_equip)
  have "equip_slot (cl_character ?c) 1 = no_equip" "equip_slot (cl_character ?c) 2 = no_equip"
    by (simp_all add: armed_def equip_slot_def slot_simps)
  then have "ee_isEmpty (equip_slot (cl_character ?c) 1)" "ee_isEmpty (equip_slot (cl_character ?c) 2)" by (simp_all add: no_equip_def)
  with unequip_twice_duplicates [OF wf slot(1,2), of 2 3] cnt worn show ?thesis by (simp add: slot(3))
qed

end
