(* ===== verification/Stacks.thy ===== *)
theory Stacks
  imports Equipment
begin

text \<open>
  Quantities of items: for every kind of item, what an inventory holds of it changes by exactly
  what an operation puts in or takes out, and no stack exceeds its limit.
\<close>

subsection \<open>Counting\<close>

definition amount_of :: "u32 \<Rightarrow> item_entry \<Rightarrow> int" where
  "amount_of iid e = (if ie_isEmpty e \<or> entry_id e \<noteq> iid then 0 else entry_quantity e)"

definition total_of :: "u32 \<Rightarrow> item_entry list \<Rightarrow> int" where
  "total_of iid es = sum_list (map (amount_of iid) es)"

definition tab :: "character \<Rightarrow> nat \<Rightarrow> item_entry list" where
  "tab chr iv = inv_items (chr_inventory chr ! iv)"

lemma total_of_update: "i < length es \<Longrightarrow> total_of iid (es[i := e]) = total_of iid es - amount_of iid (es ! i) + amount_of iid e"
  unfolding total_of_def by (rule sum_list_map_update)

text \<open>Every stack in use is within the limit of its kind. Rechargeable items have no limit here:
  they are never merged.\<close>

definition stack_ok :: "(u32 \<Rightarrow> item_info option) \<Rightarrow> item_entry \<Rightarrow> bool" where
  "stack_ok wz e \<longleftrightarrow> ie_isEmpty e \<or> 0 \<le> entry_quantity e \<and> entry_quantity e \<le> 32767 \<and>
     (\<not> ITEM_IS_RECHARGEABLE (entry_id e) \<longrightarrow>
        (\<exists>info. wz (entry_id e) = Some info \<and> entry_quantity e \<le> info_slotMax info \<and> info_slotMax info \<le> 32767))"

definition stacks_ok :: "(u32 \<Rightarrow> item_info option) \<Rightarrow> item_entry list \<Rightarrow> bool" where
  "stacks_ok wz es \<longleftrightarrow> (\<forall>e \<in> set es. stack_ok wz e)"

lemma stacks_ok_update: "stacks_ok wz es \<Longrightarrow> stack_ok wz e \<Longrightarrow> stacks_ok wz (es[i := e])"
  using set_update_subset_insert [of es i e] by (auto simp: stacks_ok_def)

lemma stacks_okD: "stacks_ok wz es \<Longrightarrow> i < length es \<Longrightarrow> stack_ok wz (es ! i)"
  by (simp add: stacks_ok_def)

lemma entry_simps [simp]:
  "entry_id (with_quantity q e) = entry_id e" "ie_isEmpty (with_quantity q e) = ie_isEmpty e"
  "entry_quantity (with_quantity q e) = to_i16 q" "entry_id (e\<lparr>ie_isEmpty := b\<rparr>) = entry_id e"
  "entry_quantity (e\<lparr>ie_isEmpty := b\<rparr>) = entry_quantity e"
  by (simp_all add: entry_id_def with_quantity_def entry_quantity_def)

lemma amount_of_full: "\<not> ie_isEmpty e \<Longrightarrow> amount_of iid e = (if entry_id e = iid then entry_quantity e else 0)"
  by (simp add: amount_of_def)

lemma amount_of_empty [simp]: "ie_isEmpty e \<Longrightarrow> amount_of iid e = 0"
  by (simp add: amount_of_def)

subsection \<open>Slots\<close>

lemma item_slot_tab: "item_slot chr iv i = tab chr iv ! i"
  by (simp add: item_slot_def tab_def)

lemma set_item_slot_tab:
  assumes "iv < length (chr_inventory chr)"
  shows "tab (set_item_slot iv i e chr) iv = (tab chr iv)[i := e]"
  using assms by (simp add: set_item_slot_def tab_def)

lemma set_item_slot_fields [simp]:
  "length (chr_inventory (set_item_slot iv i e chr)) = length (chr_inventory chr)"
  "equippedEquipment (set_item_slot iv i e chr) = equippedEquipment chr"
  "equipmentInventory (set_item_slot iv i e chr) = equipmentInventory chr"
  "activeProjectile (set_item_slot iv i e chr) = activeProjectile chr"
  "itemQuests (set_item_slot iv i e chr) = itemQuests chr"
  by (simp_all add: set_item_slot_def)

lemma set_item_slot_wf:
  assumes "inventories_wf chr"
  shows "inventories_wf (set_item_slot iv i e chr)"
proof -
  have "length (inv_items t) = MAX_ITEM_COUNT \<and> unat (inv_slotCount t) \<le> MAX_ITEM_COUNT"
    if "t \<in> set (chr_inventory (set_item_slot iv i e chr))" for t
  proof (cases "iv < length (chr_inventory chr)")
    case True
    from that have "t \<in> insert ((chr_inventory chr ! iv)\<lparr>inv_items := (inv_items (chr_inventory chr ! iv))[i := e]\<rparr>) (set (chr_inventory chr))"
      using set_update_subset_insert by (force simp: set_item_slot_def)
    then show ?thesis using assms True nth_mem [OF True] by (auto simp: inventories_wf_def)
  next
    case False
    then show ?thesis using that assms by (simp add: set_item_slot_def inventories_wf_def list_update_beyond)
  qed
  then show ?thesis using assms by (simp add: inventories_wf_def)
qed

text \<open>The projectile functions only change \<open>activeProjectile\<close>.\<close>

definition same_items :: "character \<Rightarrow> character \<Rightarrow> bool" where
  "same_items chr chr' \<longleftrightarrow> chr' = chr\<lparr>activeProjectile := activeProjectile chr'\<rparr>"

lemma same_items_refl: "same_items chr chr"
  by (simp add: same_items_def)

lemma same_items_projectile:
  "same_items chr (chr\<lparr>activeProjectile := p\<rparr>)" "same_items chr (advance_projectile i chr)"
  "same_items chr (reset_projectile i chr)" "same_items chr (prefer_projectile i chr)"
proof -
  show s: "same_items chr (chr\<lparr>activeProjectile := p\<rparr>)" for p by (simp add: same_items_def)
  show "same_items chr (advance_projectile i chr)" "same_items chr (reset_projectile i chr)" "same_items chr (prefer_projectile i chr)"
    by (simp_all add: advance_projectile_def reset_projectile_def prefer_projectile_def s same_items_refl split: option.split)
qed

lemma same_items_if: "same_items x y \<Longrightarrow> same_items x z \<Longrightarrow> same_items x (if b then y else z)"
  by simp

lemma same_items_swap: "same_items chr (swap_projectile lo hi chr)"
  by (simp add: swap_projectile_def Let_def same_items_projectile same_items_refl)

lemma same_itemsD:
  assumes "same_items chr chr'"
  shows "tab chr' = tab chr" "inventories_wf chr' = inventories_wf chr" "slot_count chr' = slot_count chr"
    "equipmentInventory chr' = equipmentInventory chr" "equippedEquipment chr' = equippedEquipment chr" "itemQuests chr' = itemQuests chr"
proof -
  obtain p where "chr' = chr\<lparr>activeProjectile := p\<rparr>" using assms unfolding same_items_def by blast
  then show "tab chr' = tab chr" "inventories_wf chr' = inventories_wf chr" "slot_count chr' = slot_count chr"
    "equipmentInventory chr' = equipmentInventory chr" "equippedEquipment chr' = equippedEquipment chr" "itemQuests chr' = itemQuests chr"
    by (simp_all add: tab_def fun_eq_iff inventories_wf_def slot_count_def)
qed

subsection \<open>Moving\<close>

text \<open>What every way of moving a stack to another slot keeps.\<close>

definition moved :: "(u32 \<Rightarrow> item_info option) \<Rightarrow> nat \<Rightarrow> character \<Rightarrow> character \<Rightarrow> bool" where
  "moved wz iv chr chr' \<longleftrightarrow> inventories_wf chr' \<and> stacks_ok wz (tab chr' iv) \<and> (\<forall>iid. total_of iid (tab chr' iv) = total_of iid (tab chr iv))"

lemma moved_same: "same_items chr' chr'' \<Longrightarrow> moved wz iv chr chr' \<Longrightarrow> moved wz iv chr chr''"
  by (simp add: moved_def same_itemsD)

text \<open>Two different slots are overwritten so that nothing is lost.\<close>

lemma moved_two:
  assumes wf: "inventories_wf chr" and iv: "iv < 4" and st: "stacks_ok wz (tab chr iv)"
    and ij: "i < length (tab chr iv)" "j < length (tab chr iv)" "i \<noteq> j"
    and ok: "stack_ok wz x" "stack_ok wz y"
    and amt: "\<And>iid. amount_of iid x + amount_of iid y = amount_of iid (tab chr iv ! i) + amount_of iid (tab chr iv ! j)"
  shows "moved wz iv chr (set_item_slot iv j y (set_item_slot iv i x chr))"
proof -
  have l: "iv < length (chr_inventory chr)" using wf iv by (simp add: inventories_wf_def)
  have t: "tab (set_item_slot iv j y (set_item_slot iv i x chr)) iv = (tab chr iv)[i := x, j := y]"
    using l by (simp add: set_item_slot_tab)
  show ?thesis
    unfolding moved_def t
  proof (intro conjI allI)
    fix iid
    show "total_of iid ((tab chr iv)[i := x, j := y]) = total_of iid (tab chr iv)"
      using ij amt [of iid] by (simp add: total_of_update)
  qed (simp_all add: stacks_ok_update st ok set_item_slot_wf wf)
qed

lemma stack_ok_item: "stack_ok wz s \<Longrightarrow> \<not> ie_isEmpty s \<Longrightarrow> stack_ok wz (d\<lparr>ie_item := ie_item s\<rparr>)"
  by (simp add: stack_ok_def entry_id_def entry_quantity_def)

lemma amount_of_item: "\<not> ie_isEmpty d \<Longrightarrow> \<not> ie_isEmpty s \<Longrightarrow> amount_of iid (d\<lparr>ie_item := ie_item s\<rparr>) = amount_of iid s"
  by (simp add: amount_of_def entry_id_def entry_quantity_def)

lemma stack_ok_empty: "stack_ok wz (e\<lparr>ie_isEmpty := True\<rparr>)"
  by (simp add: stack_ok_def)

text \<open>The situation in which two slots are changed: different slots of a well-formed inventory, the
  first of them in use.\<close>

definition movable :: "(u32 \<Rightarrow> item_info option) \<Rightarrow> nat \<Rightarrow> nat \<Rightarrow> nat \<Rightarrow> character \<Rightarrow> bool" where
  "movable wz iv src dst chr \<longleftrightarrow> inventories_wf chr \<and> iv < 4 \<and> stacks_ok wz (tab chr iv) \<and>
     src < length (tab chr iv) \<and> dst < length (tab chr iv) \<and> dst \<noteq> src \<and> \<not> ie_isEmpty (tab chr iv ! src)"

lemma movableD:
  assumes "movable wz iv src dst chr"
  shows "inventories_wf chr" "iv < 4" "stacks_ok wz (tab chr iv)" "dst < length (tab chr iv)" "src < length (tab chr iv)" "dst \<noteq> src"
    "\<not> ie_isEmpty (tab chr iv ! src)" "stack_ok wz (tab chr iv ! src)" "stack_ok wz (tab chr iv ! dst)"
  using assms by (simp_all add: movable_def stacks_okD)

lemmas movable_two = moved_two [OF movableD(1-6)]

lemma movable_slots:
  assumes "movable wz iv src dst chr"
  shows "item_slot (set_item_slot iv dst e chr) iv src = tab chr iv ! src" "item_slot chr iv src = tab chr iv ! src"
    "item_slot chr iv dst = tab chr iv ! dst"
  using movableD [OF assms] by (simp_all add: item_slot_tab set_item_slot_tab inventories_wf_def)

lemma move_to_empty_moved:
  assumes m: "movable wz iv src dst chr" and "ie_isEmpty (tab chr iv ! dst)"
  shows "moved wz iv chr (move_to_empty iv src dst chr)"
proof -
  let ?c = "set_item_slot iv src ((tab chr iv ! src)\<lparr>ie_isEmpty := True\<rparr>) (set_item_slot iv dst (tab chr iv ! src) chr)"
  have "moved wz iv chr ?c"
    using assms by (intro movable_two [OF m m m m m m] movableD(8) [OF m] stack_ok_empty) simp
  moreover have "same_items ?c (move_to_empty iv src dst chr)"
    unfolding move_to_empty_def Let_def movable_slots [OF m]
    by (intro same_items_if same_items_projectile same_items_refl)
  ultimately show ?thesis using moved_same by blast
qed

lemma swap_items_moved:
  assumes m: "movable wz iv src dst chr" and "\<not> ie_isEmpty (tab chr iv ! dst)"
  shows "moved wz iv chr (swap_items iv src dst chr)"
  unfolding swap_items_def Let_def movable_slots [OF m]
  by (rule movable_two [OF m m m m m m]) (use movableD [OF m] assms(2) in \<open>simp_all add: stack_ok_item amount_of_item\<close>)

text \<open>Two stacks of the same kind: new quantities with the same sum, within the limit.\<close>

lemma merge_two:
  assumes m: "movable wz iv src dst chr"
    and d: "\<not> ie_isEmpty (tab chr iv ! dst)" "entry_id (tab chr iv ! dst) = entry_id (tab chr iv ! src)"
    and info: "wz (entry_id (tab chr iv ! src)) = Some info" "info_slotMax info \<le> 32767"
    and qd: "0 \<le> a" "a \<le> info_slotMax info" and qs: "0 \<le> b" "b \<le> info_slotMax info"
    and sum: "a + b = entry_quantity (tab chr iv ! dst) + entry_quantity (tab chr iv ! src)"
  shows "b = 0 \<Longrightarrow> moved wz iv chr (set_item_slot iv src ((tab chr iv ! src)\<lparr>ie_isEmpty := True\<rparr>)
      (set_item_slot iv dst (with_quantity a (tab chr iv ! dst)) chr))"
    and "moved wz iv chr (set_item_slot iv src (with_quantity b (tab chr iv ! src))
      (set_item_slot iv dst (with_quantity a (tab chr iv ! dst)) chr))"
proof -
  note M = movableD [OF m]
  have i16: "to_i16 a = a" "to_i16 b = b" using info(2) qd qs by (simp_all add: to_i16_id)
  have ok: "stack_ok wz (with_quantity a (tab chr iv ! dst))" "stack_ok wz (with_quantity b (tab chr iv ! src))"
    using info qd qs by (auto simp: stack_ok_def i16 d(2))
  have amt: "amount_of iid (with_quantity a (tab chr iv ! dst)) + amount_of iid (with_quantity b (tab chr iv ! src)) =
      amount_of iid (tab chr iv ! dst) + amount_of iid (tab chr iv ! src)" for iid
    using M(7) d sum by (auto simp: amount_of_full i16)
  show "moved wz iv chr (set_item_slot iv src (with_quantity b (tab chr iv ! src)) (set_item_slot iv dst (with_quantity a (tab chr iv ! dst)) chr))"
    by (rule movable_two [OF m m m m m m ok amt])
  show "moved wz iv chr (set_item_slot iv src ((tab chr iv ! src)\<lparr>ie_isEmpty := True\<rparr>)
      (set_item_slot iv dst (with_quantity a (tab chr iv ! dst)) chr))" if "b = 0"
  proof (rule movable_two [OF m m m m m m ok(1) stack_ok_empty])
    fix iid
    show "amount_of iid (with_quantity a (tab chr iv ! dst)) + amount_of iid ((tab chr iv ! src)\<lparr>ie_isEmpty := True\<rparr>) =
      amount_of iid (tab chr iv ! dst) + amount_of iid (tab chr iv ! src)"
      using amt [of iid] that M(7) by (auto simp: amount_of_full i16 to_i16_id split: if_splits)
  qed
qed

lemma merge_stacks_moved:
  assumes m: "movable wz iv src dst chr"
    and d: "\<not> ie_isEmpty (tab chr iv ! dst)" "entry_id (tab chr iv ! dst) = entry_id (tab chr iv ! src)"
    and rc: "\<not> ITEM_IS_RECHARGEABLE (entry_id (tab chr iv ! dst))" and info: "wz (entry_id (tab chr iv ! dst)) = Some info"
  shows "moved wz iv chr (fst (merge_stacks info iv src dst chr))"
proof -
  note M = movableD [OF m]
  let ?d = "tab chr iv ! dst" and ?s = "tab chr iv ! src"
  have q: "0 \<le> entry_quantity ?d" "entry_quantity ?d \<le> info_slotMax info" "info_slotMax info \<le> 32767"
    "0 \<le> entry_quantity ?s" "entry_quantity ?s \<le> info_slotMax info"
    using M(7-9) d rc info by (auto simp: stack_ok_def)
  have amount: "to_i16 (info_slotMax info - entry_quantity ?d) = info_slotMax info - entry_quantity ?d"
    using q by (simp add: to_i16_id)
  have info': "wz (entry_id ?s) = Some info" using info d(2) by simp
  show ?thesis
  proof (cases "entry_quantity ?s < info_slotMax info - entry_quantity ?d")
    case True
    let ?c = "set_item_slot iv src (?s\<lparr>ie_isEmpty := True\<rparr>) (set_item_slot iv dst (with_quantity (entry_quantity ?d + entry_quantity ?s) ?d) chr)"
    have "moved wz iv chr ?c" using q True by (intro merge_two(1) [OF m d info' q(3), where b = 0]) simp_all
    moreover have "same_items ?c (fst (merge_stacks info iv src dst chr))"
    proof -
      have "fst (merge_stacks info iv src dst chr) =
          (if iv = 0 \<and> src < dst \<and> src = unat (activeProjectile ?c) then advance_projectile (src + 1) ?c else ?c)"
        unfolding merge_stacks_def Let_def movable_slots [OF m] amount using True by (simp only: if_True fst_conv)
      then show ?thesis by (simp only: same_items_if same_items_projectile same_items_refl)
    qed
    ultimately show ?thesis using moved_same by blast
  next
    case False
    have "moved wz iv chr (set_item_slot iv src (with_quantity (entry_quantity ?s - (info_slotMax info - entry_quantity ?d)) ?s)
        (set_item_slot iv dst (with_quantity (entry_quantity ?d + (info_slotMax info - entry_quantity ?d)) ?d) chr))"
      using q False by (intro merge_two(2) [OF m d info' q(3)]) simp_all
    then show ?thesis using False by (simp add: merge_stacks_def Let_def movable_slots [OF m] amount)
  qed
qed

lemma move_stack_moved:
  assumes m: "movable wz iv src dst chr"
  shows "\<exists>chr' mods. move_stack wz iv src dst chr = Inr (chr', mods) \<and> moved wz iv chr chr'"
proof -
  let ?d = "tab chr iv ! dst" and ?s = "tab chr iv ! src"
  consider (E) "ie_isEmpty ?d" | (S) "\<not> ie_isEmpty ?d" "entry_id ?d = entry_id ?s" "\<not> ITEM_IS_RECHARGEABLE (entry_id ?d)"
    | (D) "\<not> ie_isEmpty ?d" "\<not> (entry_id ?d = entry_id ?s \<and> \<not> ITEM_IS_RECHARGEABLE (entry_id ?d))" by blast
  then show ?thesis
  proof cases
    case E
    then show ?thesis using move_to_empty_moved [OF m] by (simp add: move_stack_def Let_def movable_slots [OF m])
  next
    case S
    then obtain info where info: "wz (entry_id ?d) = Some info" using movableD(9) [OF m] by (auto simp: stack_ok_def)
    show ?thesis
      using S info swap_items_moved [OF m S(1)] merge_stacks_moved [OF m S info]
      by (cases "merge_stacks info iv src dst chr") (auto simp: move_stack_def Let_def movable_slots [OF m])
  next
    case D
    then show ?thesis
      using swap_items_moved [OF m D(1)] moved_same [OF same_items_swap swap_items_moved [OF m D(1)]]
      by (auto simp: move_stack_def Let_def movable_slots [OF m])
  qed
qed

lemma tab_length:
  assumes "inventories_wf chr" "iv < 4" "i < slot_count chr iv"
  shows "i < length (tab chr iv)"
proof -
  have "chr_inventory chr ! iv \<in> set (chr_inventory chr)" using assms(1,2) by (simp add: inventories_wf_def)
  then show ?thesis using assms(1,3) by (auto simp: inventories_wf_def tab_def slot_count_def)
qed

subsection \<open>Removing\<close>

lemma take_from_cases:
  assumes "take_from n e = Some (e', it)"
  obtains (All) "e' = e\<lparr>ie_isEmpty := True\<rparr>" "itemId (ii_item it) = entry_id e" "quantity it = entry_quantity e"
    | (Some) "n < entry_quantity e" "\<not> ITEM_IS_RECHARGEABLE (entry_id e)" "e' = with_quantity (entry_quantity e - n) e"
      "itemId (ii_item it) = entry_id e" "quantity it = n"
  using assms unfolding take_from_def
  by (simp add: entry_id_def entry_quantity_def split: if_split_asm) (fastforce simp: entry_id_def entry_quantity_def)+

lemma take_from_amounts:
  assumes t: "take_from n e = Some (e', it)" and e: "\<not> ie_isEmpty e" "stack_ok wz e" and n: "0 \<le> n"
  shows "itemId (ii_item it) = entry_id e \<and> 0 \<le> quantity it \<and> stack_ok wz e' \<and>
    (\<forall>iid. amount_of iid e' + (if iid = entry_id e then quantity it else 0) = amount_of iid e)"
  using t
proof (cases rule: take_from_cases)
  case All
  then show ?thesis using e by (simp add: stack_ok_def amount_of_full)
next
  case Some
  have "to_i16 (entry_quantity e - n) = entry_quantity e - n"
    using Some(1) e n by (auto simp: stack_ok_def to_i16_id)
  then show ?thesis using Some e n by (auto simp: stack_ok_def amount_of_full)
qed

definition same_but_quests :: "character \<Rightarrow> character \<Rightarrow> bool" where
  "same_but_quests chr chr' \<longleftrightarrow> (\<exists>hs. chr' = chr\<lparr>itemQuests := hs\<rparr>)"

lemma same_but_questsI: "same_but_quests chr chr" "same_but_quests chr (chr\<lparr>itemQuests := hs\<rparr>)"
  unfolding same_but_quests_def by (rule exI [of _ "itemQuests chr"], simp) blast

lemma same_but_questsD:
  assumes "same_but_quests chr chr'"
  shows "chr_inventory chr' = chr_inventory chr" "inventories_wf chr' = inventories_wf chr"
    "equippedEquipment chr' = equippedEquipment chr" "equipmentInventory chr' = equipmentInventory chr"
    "activeProjectile chr' = activeProjectile chr" "tab chr' iv = tab chr iv"
proof -
  obtain hs where chr': "chr' = chr\<lparr>itemQuests := hs\<rparr>" using assms unfolding same_but_quests_def by blast
  show "chr_inventory chr' = chr_inventory chr" "inventories_wf chr' = inventories_wf chr"
    "equippedEquipment chr' = equippedEquipment chr" "equipmentInventory chr' = equipmentInventory chr"
    "activeProjectile chr' = activeProjectile chr" "tab chr' iv = tab chr iv"
    unfolding chr' by (simp_all add: inventories_wf_def tab_def)
qed

lemma want_again_same:
  assumes "want_again xxh3 mem info iid chr = Inr chr'"
  shows "same_but_quests chr chr'"
  using assms unfolding want_again_def
  by (cases "info_quest info"; cases "hash_set_u32_get xxh3 id (itemQuests chr) iid")
    (simp_all add: same_but_questsI split: option.split_asm prod.split_asm, metis same_but_questsI)

lemma want_again_total:
  assumes "hash_set_inv (hash_u32 xxh3) id (itemQuests chr)"
  shows "\<exists>chr'. want_again xxh3 True info iid chr = Inr chr'"
proof (cases "hash_set_map id (itemQuests chr) iid")
  case None
  then show ?thesis
    using hash_set_get_ok [OF assms, of iid] hash_set_insert_ok [OF assms, of iid]
    by (auto simp: want_again_def hash_set_u32_get_def hash_set_u32_insert_def)
next
  case (Some x)
  then show ?thesis
    using hash_set_get_ok [OF assms, of iid] by (auto simp: want_again_def hash_set_u32_get_def)
qed

lemma moved_one:
  assumes wf: "inventories_wf chr" and iv: "iv < 4" and st: "stacks_ok wz (tab chr iv)"
    and i: "i < length (tab chr iv)" and ok: "stack_ok wz x"
    and amt: "\<And>iid. amount_of iid x + d iid = amount_of iid (tab chr iv ! i)"
  shows "inventories_wf (set_item_slot iv i x chr) \<and> stacks_ok wz (tab (set_item_slot iv i x chr) iv) \<and>
    (\<forall>iid. total_of iid (tab (set_item_slot iv i x chr) iv) + d iid = total_of iid (tab chr iv))"
proof -
  have l: "iv < length (chr_inventory chr)" using wf iv by (simp add: inventories_wf_def)
  have "total_of iid ((tab chr iv)[i := x]) + d iid = total_of iid (tab chr iv)" for iid
    using i amt [of iid] by (simp add: total_of_update)
  then show ?thesis using wf st ok by (simp add: set_item_slot_tab [OF l] set_item_slot_wf stacks_ok_update)
qed

definition after_take :: "nat \<Rightarrow> nat \<Rightarrow> item_entry \<Rightarrow> character \<Rightarrow> character" where
  "after_take iv i e chr =
     (let chr = set_item_slot iv i e chr
      in if iv = 0 \<and> unat (activeProjectile chr) = i \<and> (ie_isEmpty e \<or> entry_quantity e = 0)
         then reset_projectile (i + 1) chr else chr)"

lemma after_take_same: "same_items (set_item_slot iv i e chr) (after_take iv i e chr)"
  unfolding after_take_def Let_def by (intro same_items_if same_items_projectile same_items_refl)

lemma client_remove_item_eq:
  assumes "2 \<le> inventory" "inventory \<le> 5"
    and "unat (pos - 1) < slot_count (cl_character c) (unat inventory - 2)"
    and "\<not> ie_isEmpty (item_slot (cl_character c) (unat inventory - 2) (unat (pos - 1)))"
    and "take_from n (item_slot (cl_character c) (unat inventory - 2) (unat (pos - 1))) = Some (e, it)"
    and "wz (itemId (ii_item it)) = Some info"
    and "want_again xxh3 mem info (itemId (ii_item it)) (after_take (unat inventory - 2) (unat (pos - 1)) e (cl_character c)) = Inr chr"
  shows "\<exists>c'. client_remove_item xxh3 mem wz c inventory pos n = Inr (c', Some (True, Some it)) \<and> cl_character c' = chr"
proof -
  have range: "\<not> (inventory < 2 \<or> inventory > 5)" using assms(1,2) by auto
  show ?thesis
    using assms(3-6) assms(7) [unfolded after_take_def Let_def]
    by (simp add: client_remove_item_def Let_def range send_mods_def send_def)
qed

lemma after_take_quests: "itemQuests (after_take iv i e chr) = itemQuests chr"
  using same_itemsD(6) [OF after_take_same] by simp

lemma remove_item_result:
  assumes wf: "inventories_wf (cl_character c)" and iv: "2 \<le> inventory" "inventory \<le> 5"
    and st: "stacks_ok wz (tab (cl_character c) (unat inventory - 2))" and n: "0 \<le> n"
    and i: "unat (pos - 1) < slot_count (cl_character c) (unat inventory - 2)"
      "\<not> ie_isEmpty (item_slot (cl_character c) (unat inventory - 2) (unat (pos - 1)))"
    and t: "take_from n (item_slot (cl_character c) (unat inventory - 2) (unat (pos - 1))) = Some (e', it)"
    and info: "wz (itemId (ii_item it)) = Some info"
    and hs: "hash_set_inv (hash_u32 xxh3) id (itemQuests (cl_character c))"
  shows "\<exists>c'. client_remove_item xxh3 True wz c inventory pos n = Inr (c', Some (True, Some it)) \<and>
    inventories_wf (cl_character c') \<and> stacks_ok wz (tab (cl_character c') (unat inventory - 2)) \<and>
    (\<forall>iid. total_of iid (tab (cl_character c') (unat inventory - 2)) + (if iid = itemId (ii_item it) then quantity it else 0) =
       total_of iid (tab (cl_character c) (unat inventory - 2)))"
proof -
  let ?chr = "cl_character c" and ?iv = "unat inventory - 2" and ?i = "unat (pos - 1)"
  let ?e = "item_slot ?chr ?iv ?i"
  have iv4: "?iv < 4" using iv(2) by (simp add: word_le_nat_alt)
  have "hash_set_inv (hash_u32 xxh3) id (itemQuests (after_take ?iv ?i e' ?chr))"
    using hs by (simp add: after_take_quests)
  then obtain chr2 where w: "want_again xxh3 True info (itemId (ii_item it)) (after_take ?iv ?i e' ?chr) = Inr chr2"
    using want_again_total by blast
  obtain c' where c': "client_remove_item xxh3 True wz c inventory pos n = Inr (c', Some (True, Some it))" "cl_character c' = chr2"
    using client_remove_item_eq [where wz = wz, OF iv i t info w] by blast
  have len: "?i < length (tab ?chr ?iv)" by (rule tab_length [OF wf iv4 i(1)])
  have e: "?e = tab ?chr ?iv ! ?i" by (rule item_slot_tab)
  have T: "stack_ok wz e'"
    "\<And>iid. amount_of iid e' + (if iid = itemId (ii_item it) then quantity it else 0) = amount_of iid (tab ?chr ?iv ! ?i)"
    using take_from_amounts [OF t i(2) _ n, of wz] stacks_okD [OF st len] by (auto simp: e)
  from moved_one [OF wf iv4 st len T(1), of "\<lambda>iid. if iid = itemId (ii_item it) then quantity it else 0", OF T(2)]
  show ?thesis
    using c' by (simp add: same_but_questsD [OF want_again_same [OF w]] same_itemsD [OF after_take_same])
qed

lemma take_from_none: "take_from n e = None \<or> (\<exists>e' it. take_from n e = Some (e', it))"
  by (cases "take_from n e") auto

text \<open>What \<open>client_remove_item\<close> does to the inventory when it delivers \<open>r\<close>.\<close>

definition removed :: "(u32 \<Rightarrow> item_info option) \<Rightarrow> nat \<Rightarrow> client \<Rightarrow> client \<Rightarrow> (bool \<times> inventory_item option) option \<Rightarrow> bool" where
  "removed wz iv c c' r \<longleftrightarrow>
     (case r of
        Some (True, Some it) \<Rightarrow>
          inventories_wf (cl_character c') \<and> stacks_ok wz (tab (cl_character c') iv) \<and>
          (\<forall>iid. total_of iid (tab (cl_character c') iv) + (if iid = itemId (ii_item it) then quantity it else 0) =
                 total_of iid (tab (cl_character c) iv))
      | _ \<Rightarrow> c' = c)"

lemma removed_simps [simp]:
  "removed wz iv c c None" "removed wz iv c c (Some (False, x))"
  by (simp_all add: removed_def)

subsection \<open>Properties\<close>

text \<open>
  C11: Moving a stack to another slot of the same inventory neither creates nor destroys items.
  Whether the destination is empty, holds something else or holds a stack of the same kind that
  is filled up, the request is answered; afterwards the inventory holds as much of every kind of
  item as before and every stack is within the limit of its kind.
\<close>

theorem moving_conserves_items:
  assumes "inventories_wf (cl_character c)" and "2 \<le> inventory" and "inventory \<le> 5"
    and "stacks_ok wz (tab (cl_character c) (unat inventory - 2))" and "source \<noteq> dest"
  shows "\<exists>c' r. client_move_item wz c inventory source dest = Inr (c', r) \<and>
    inventories_wf (cl_character c') \<and> stacks_ok wz (tab (cl_character c') (unat inventory - 2)) \<and>
    (\<forall>iid. total_of iid (tab (cl_character c') (unat inventory - 2)) = total_of iid (tab (cl_character c) (unat inventory - 2)))"
proof -
  let ?chr = "cl_character c" and ?iv = "unat inventory - 2" and ?s = "unat (source - 1)" and ?d = "unat (dest - 1)"
  have range: "\<not> (inventory < 1 \<or> inventory > 5)" "inventory \<noteq> 1" "?iv < 4"
    using assms(2,3) by (auto simp: word_le_nat_alt word_less_nat_alt)
  have sd: "?d \<noteq> ?s" using assms(5) by (metis diff_add_cancel word_unat_eq_iff)
  show ?thesis
  proof (cases "cl_shop c \<noteq> - 1 \<or> ?s \<ge> slot_count ?chr ?iv \<or> ?d \<ge> slot_count ?chr ?iv \<or> ie_isEmpty (item_slot ?chr ?iv ?s)")
    case True
    then have "\<exists>r. client_move_item wz c inventory source dest = Inr (c, r)"
      using range by (auto simp: client_move_item_def Let_def)
    then show ?thesis using assms by blast
  next
    case False
    then have "movable wz ?iv ?s ?d ?chr"
      using assms sd range tab_length [OF assms(1) range(3)] by (simp add: movable_def item_slot_tab)
    from move_stack_moved [OF this] obtain chr' mods where
      "move_stack wz ?iv ?s ?d ?chr = Inr (chr', mods)" "moved wz ?iv ?chr chr'" by blast
    then show ?thesis using False range by (auto simp: client_move_item_def Let_def send_mods_def moved_def)
  qed
qed

text \<open>A player with two stacks of 60 potions, of which 100 fit into one slot.\<close>

definition potion_info :: item_info where
  "potion_info = \<lparr>info_itemId = 2000000, info_slotMax = 100, info_price = 5, info_unitPrice = 0, info_untradable = False,
     info_oneOfAKind = False, info_monsterBook = False, info_quest = False\<rparr>"

definition potions :: "int \<Rightarrow> item_entry" where
  "potions n = \<lparr>ie_isEmpty = False, ie_item = blank_item\<lparr>ii_item := (ii_item blank_item)\<lparr>itemId := 2000000\<rparr>, quantity := n\<rparr>\<rparr>"

definition potion_table :: "u32 \<Rightarrow> item_info option" where
  "potion_table iid = (if iid = 2000000 then Some potion_info else None)"

definition stocked :: client where
  "stocked = armed\<lparr>cl_character := set_item_slot 0 0 (potions 60) (set_item_slot 0 1 (potions 60) (cl_character armed))\<rparr>"

lemma stocked_tab: "tab (cl_character stocked) 0 = potions 60 # potions 60 # replicate 250 \<lparr>ie_isEmpty = True, ie_item = blank_item\<rparr>"
proof -
  have "tab (cl_character armed) 0 = replicate 252 \<lparr>ie_isEmpty = True, ie_item = blank_item\<rparr>"
    by (simp add: armed_def tab_def)
  moreover have "(replicate 252 x)[1 := a, 0 := b] = b # a # replicate 250 x" for x a b :: item_entry
    by (simp add: numeral_eq_Suc)
  ultimately show ?thesis
    using armed_wf(1) by (simp add: stocked_def set_item_slot_tab inventories_wf_def)
qed

lemma potions_simps [simp]:
  "ie_isEmpty (potions n) = False" "entry_id (potions n) = 2000000" "entry_quantity (potions n) = n"
  by (simp_all add: potions_def entry_id_def entry_quantity_def)

lemma potions_not_rechargeable: "\<not> ITEM_IS_RECHARGEABLE 2000000"
  by (simp add: ITEM_IS_RECHARGEABLE_def ITEM_IS_THROWING_STAR_def ITEM_IS_BULLET_def)

lemma stocked_ok: "inventories_wf (cl_character stocked)" "stacks_ok potion_table (tab (cl_character stocked) 0)"
  using armed_wf(1) by (simp_all add: stocked_tab) (simp_all add: stocked_def set_item_slot_wf stacks_ok_def stack_ok_def
      potion_table_def potion_info_def)

theorem moving_conserves_items_witness:
  "\<exists>c' r. client_move_item potion_table stocked 2 1 2 = Inr (c', r) \<and> total_of 2000000 (tab (cl_character c') 0) = 120"
proof -
  have "total_of 2000000 (tab (cl_character stocked) 0) = 120"
    by (simp add: stocked_tab total_of_def amount_of_def sum_list_replicate)
  with moving_conserves_items [OF stocked_ok(1), of 2 potion_table 1 2] stocked_ok(2) show ?thesis by force
qed

lemma remove_item_conserves:
  assumes "inventories_wf (cl_character c)" and "2 \<le> inventory" and "inventory \<le> 5"
    and "stacks_ok wz (tab (cl_character c) (unat inventory - 2))" and "0 \<le> amount"
    and "\<forall>e \<in> set (tab (cl_character c) (unat inventory - 2)). \<not> ie_isEmpty e \<longrightarrow> wz (entry_id e) \<noteq> None"
    and "hash_set_inv (hash_u32 xxh3) id (itemQuests (cl_character c))"
  shows "\<exists>c' r. client_remove_item xxh3 True wz c inventory source amount = Inr (c', r) \<and> removed wz (unat inventory - 2) c c' r"
proof -
  let ?chr = "cl_character c" and ?iv = "unat inventory - 2" and ?i = "unat (source - 1)"
  let ?e = "item_slot ?chr ?iv ?i"
  have range: "\<not> (inventory < 2 \<or> inventory > 5)" "?iv < 4" using assms(2,3) by (auto simp: word_le_nat_alt word_less_nat_alt)
  show ?thesis
  proof (cases "?i \<ge> slot_count ?chr ?iv \<or> ie_isEmpty ?e \<or> take_from amount ?e = None")
    case True
    then show ?thesis using range by (auto simp: client_remove_item_def Let_def)
  next
    case False
    then obtain e' it where i: "?i < slot_count ?chr ?iv" "\<not> ie_isEmpty ?e" and t: "take_from amount ?e = Some (e', it)"
      using take_from_none by force
    have "?i < length (tab ?chr ?iv)" by (rule tab_length [OF assms(1) range(2) i(1)])
    then have "?e \<in> set (tab ?chr ?iv)" by (simp add: item_slot_tab)
    moreover have "itemId (ii_item it) = entry_id ?e" using t by (cases rule: take_from_cases) simp_all
    ultimately obtain info where "wz (itemId (ii_item it)) = Some info" using assms(6) i(2) by auto
    from remove_item_result [where wz = wz, OF assms(1-5) i t this assms(7)] show ?thesis by (force simp: removed_def)
  qed
qed

text \<open>
  C28: Removing items takes out of the inventory exactly what is handed out. The request is always
  answered. If it delivers an item, then for every kind of item the inventory holds as much less as
  was delivered and all stacks remain within their limits; in all other cases (no such slot, an
  empty slot, too few) nothing changes.
\<close>

theorem removing_conserves_items:
  assumes "inventories_wf (cl_character c)" and "2 \<le> inventory" and "inventory \<le> 5"
    and "stacks_ok wz (tab (cl_character c) (unat inventory - 2))" and "0 \<le> amount"
    and "\<forall>e \<in> set (tab (cl_character c) (unat inventory - 2)). \<not> ie_isEmpty e \<longrightarrow> wz (entry_id e) \<noteq> None"
    and "hash_set_inv (hash_u32 xxh3) id (itemQuests (cl_character c))"
  shows "\<exists>c' r. client_remove_item xxh3 True wz c inventory source amount = Inr (c', r) \<and> removed wz (unat inventory - 2) c c' r"
  using remove_item_conserves [OF assms] .

theorem removing_conserves_items_witness:
  "\<exists>c' r. client_remove_item (\<lambda>_. 0) True potion_table stocked 2 1 25 = Inr (c', r) \<and> removed potion_table 0 stocked c' r"
proof -
  have "itemQuests (cl_character stocked) = itemQuests beginner" by (simp add: stocked_def armed_def)
  then have "hash_set_inv (hash_u32 (\<lambda>_. 0)) id (itemQuests (cl_character stocked))"
    by (simp add: beginner_def hash_set_inv_def table_ok_def)
  moreover have "\<forall>e \<in> set (tab (cl_character stocked) 0). \<not> ie_isEmpty e \<longrightarrow> potion_table (entry_id e) \<noteq> None"
    by (simp add: stocked_tab potion_table_def)
  ultimately show ?thesis
    using removing_conserves_items [OF stocked_ok(1), of 2 potion_table 25 "\<lambda>_. 0" 1] stocked_ok(2) by simp
qed

end
