(* ===== verification/Gaining.thy ===== *)
theory Gaining
  imports Stacks
begin

text \<open>
  Receiving items: \<open>client_gain_inventory_item\<close> first tops up the stacks of the same kind, then puts
  what is left into the first empty slot. What arrives in the inventory is exactly what was given.
\<close>

subsection \<open>One stack\<close>

lemma top_up_amounts:
  assumes "top_up m uid left e = (e', left')" and "\<not> ie_isEmpty e"
    and "0 \<le> entry_quantity e" "entry_quantity e \<le> m" "m \<le> 32767" and "0 \<le> left" "left \<le> 32767"
  shows "\<not> ie_isEmpty e'" "entry_id e' = entry_id e" "entry_quantity e' + left' = entry_quantity e + left"
    "0 \<le> left'" "left' \<le> left" "0 \<le> entry_quantity e'" "entry_quantity e' \<le> m"
proof -
  have "\<not> ie_isEmpty e' \<and> entry_id e' = entry_id e \<and> entry_quantity e' + left' = entry_quantity e + left \<and>
    0 \<le> left' \<and> left' \<le> left \<and> 0 \<le> entry_quantity e' \<and> entry_quantity e' \<le> m"
  proof (cases "entry_quantity e > m - left")
    case True
    then show ?thesis using assms by (auto simp: top_up_def to_i16_id)
  next
    case False
    have "entry_quantity (e\<lparr>ie_item := (ie_item e)\<lparr>ii_item := (ii_item (ie_item e))\<lparr>item_uid := uid\<rparr>\<rparr>\<rparr>) = entry_quantity e"
      "entry_id (e\<lparr>ie_item := (ie_item e)\<lparr>ii_item := (ii_item (ie_item e))\<lparr>item_uid := uid\<rparr>\<rparr>\<rparr>) = entry_id e"
      by (simp_all add: entry_quantity_def entry_id_def)
    then show ?thesis using assms False by (auto simp: top_up_def Let_def to_i16_id split: if_split_asm)
  qed
  then show "\<not> ie_isEmpty e'" "entry_id e' = entry_id e" "entry_quantity e' + left' = entry_quantity e + left"
    "0 \<le> left'" "left' \<le> left" "0 \<le> entry_quantity e'" "entry_quantity e' \<le> m" by simp_all
qed

lemma push_mod_ok:
  "\<exists>gs'. push_mod True md gs = (gs', True) \<and> gs_chr gs' = gs_chr gs \<and> gs_items gs' = gs_items gs \<and> gs_left gs' = gs_left gs"
  by (simp add: push_mod_def)

lemma item_complete_ordinary:
  assumes "\<not> info_quest info" and "quest_item_max wzq iid chr \<noteq> None"
  shows "item_complete xxh3 mem wzq info iid n chr = Inr chr"
  using assms by (auto simp: item_complete_def)

subsection \<open>All stacks\<close>

text \<open>The loops keep this: limits hold, and what is stored and what is left make up \<open>goods\<close>.\<close>

definition gain_inv :: "(u32 \<Rightarrow> item_info option) \<Rightarrow> u32 \<Rightarrow> character \<Rightarrow> nat \<Rightarrow> int \<Rightarrow> (u32 \<Rightarrow> int) \<Rightarrow> gain_state \<Rightarrow> bool" where
  "gain_inv wz iid chr len q goods gs \<longleftrightarrow>
     gs_chr gs = chr \<and> length (gs_items gs) = len \<and> stacks_ok wz (gs_items gs) \<and> 0 \<le> gs_left gs \<and> gs_left gs \<le> q \<and>
     (\<forall>i. total_of i (gs_items gs) + (if i = iid then gs_left gs else 0) = goods i)"

lemma gain_inv_cong:
  assumes "gain_inv wz iid chr len q goods gs" and "gs_chr gs' = gs_chr gs" "gs_items gs' = gs_items gs" "gs_left gs' = gs_left gs"
  shows "gain_inv wz iid chr len q goods gs'"
  using assms(1) unfolding gain_inv_def assms(2-4) .

lemma fill_stack_step:
  assumes g: "gain_inv wz (itemId (ii_item it)) chr len q goods gs" and i: "i < len" and q: "q \<le> 32767"
    and rc: "\<not> ITEM_IS_RECHARGEABLE (itemId (ii_item it))" and info: "wz (itemId (ii_item it)) = Some info" "\<not> info_quest info"
    and m: "quest_item_max wzq (itemId (ii_item it)) chr \<noteq> None"
  shows "\<exists>gs'. fill_stack xxh3 True wzq info it i gs = Inr (gs', True) \<and> gain_inv wz (itemId (ii_item it)) chr len q goods gs'"
proof (cases "\<not> ie_isEmpty (gs_items gs ! i) \<and> entry_id (gs_items gs ! i) = itemId (ii_item it)")
  case False
  then show ?thesis using g by (auto simp: fill_stack_def Let_def)
next
  case True
  let ?e = "gs_items gs ! i" and ?iid = "itemId (ii_item it)"
  note G = g [unfolded gain_inv_def]
  have ok: "0 \<le> entry_quantity ?e" "entry_quantity ?e \<le> info_slotMax info" "info_slotMax info \<le> 32767"
    using stacks_okD [of wz "gs_items gs" i] G i True rc info(1) by (auto simp: stack_ok_def)
  obtain e' left where t: "top_up (info_slotMax info) (item_uid (ii_item it)) (gs_left gs) ?e = (e', left)" by fastforce
  note T = top_up_amounts [OF t conjunct1 [OF True] ok]
  let ?gs = "gs\<lparr>gs_chr := chr, gs_items := (gs_items gs)[i := e'], gs_left := left\<rparr>"
  have left: "0 \<le> gs_left gs" "gs_left gs \<le> 32767" using G q by auto
  note T = T [OF left]
  have st: "stack_ok wz e'" using T ok(3) info(1) True by (simp add: stack_ok_def)
  have tot: "total_of j ((gs_items gs)[i := e']) + (if j = ?iid then left else 0) = goods j" for j
  proof -
    have "total_of j (gs_items gs) + (if j = ?iid then gs_left gs else 0) = goods j" "i < length (gs_items gs)" using G i by auto
    moreover have "amount_of j e' + (if j = ?iid then left else 0) = amount_of j ?e + (if j = ?iid then gs_left gs else 0)"
      using T(1-3) True by (auto simp: amount_of_full)
    ultimately show ?thesis by (simp only: total_of_update)
  qed
  have sel: "gs_chr ?gs = chr" "gs_items ?gs = (gs_items gs)[i := e']" "gs_left ?gs = left" by simp_all
  have inv: "gain_inv wz ?iid chr len q goods ?gs"
    unfolding gain_inv_def sel using G T(4,5) st by (intro conjI allI tot) (simp_all add: stacks_ok_update)
  obtain gs' where p: "push_mod True (mod_modify (ucast (?iid div 1000000)) (int i + 1) (entry_quantity e')) ?gs = (gs', True)"
    "gs_chr gs' = gs_chr ?gs" "gs_items gs' = gs_items ?gs" "gs_left gs' = gs_left ?gs" using push_mod_ok by meson
  have "fill_stack xxh3 True wzq info it i gs = Inr (gs', True)"
    using True t G p(1) by (simp add: fill_stack_def Let_def item_complete_ordinary [OF info(2) m])
  then show ?thesis using gain_inv_cong [OF inv p(2-4)] by blast
qed

lemma fill_stacks_ok:
  assumes "gain_inv wz (itemId (ii_item it)) chr len q goods gs" and "\<forall>i \<in> set ns. i < len" and "q \<le> 32767"
    and "\<not> ITEM_IS_RECHARGEABLE (itemId (ii_item it))" and "wz (itemId (ii_item it)) = Some info" "\<not> info_quest info"
    and "quest_item_max wzq (itemId (ii_item it)) chr \<noteq> None"
  shows "\<exists>gs'. fill_stacks xxh3 True wzq info it ns gs = Inr (gs', True) \<and> gain_inv wz (itemId (ii_item it)) chr len q goods gs'"
  using assms(1,2)
proof (induction ns arbitrary: gs)
  case (Cons i ns)
  from Cons.prems(2) have "i < len" by simp
  from fill_stack_step [OF Cons.prems(1) this assms(3-7)] obtain gs' where
    gs': "fill_stack xxh3 True wzq info it i gs = Inr (gs', True)" "gain_inv wz (itemId (ii_item it)) chr len q goods gs'" by blast
  then show ?case using Cons.IH [OF gs'(2)] Cons.prems(2) by auto
qed simp

subsection \<open>An empty slot\<close>

lemma first_emptyD: "first_empty n es = Some j \<Longrightarrow> j < n \<and> ie_isEmpty (es ! j)"
  by (auto simp: first_empty_def find_Some_iff)

lemma fill_slot_ok:
  assumes g: "gain_inv wz (itemId (ii_item it)) chr len q goods gs" and j: "j < len" "ie_isEmpty (gs_items gs ! j)"
    and info: "\<not> info_quest info" and m: "quest_item_max wzq (itemId (ii_item it)) chr \<noteq> None"
  shows "\<exists>gs' e. fill_slot xxh3 True wzq info it j gs = Inr (gs', True) \<and> same_items chr (gs_chr gs') \<and>
    gs_items gs' = (gs_items gs)[j := e] \<and> \<not> ie_isEmpty e \<and> entry_id e = itemId (ii_item it) \<and> entry_quantity e = gs_left gs"
proof -
  let ?e = "\<lparr>ie_isEmpty = False, ie_item = \<lparr>ii_item = ii_item it, quantity = gs_left gs\<rparr>\<rparr>"
  let ?gs = "gs\<lparr>gs_chr := chr, gs_items := (gs_items gs)[j := ?e]\<rparr>"
  have chr: "gs_chr gs = chr" using g by (simp add: gain_inv_def)
  obtain gs' where p: "push_mod True (mod_add (ucast (itemId (ii_item it) div 1000000)) (int j + 1) (ie_item ?e)) ?gs = (gs', True)"
    "gs_chr gs' = chr" "gs_items gs' = (gs_items gs)[j := ?e]" using push_mod_ok [of _ ?gs] by auto
  have "\<not> ie_isEmpty ?e" "entry_id ?e = itemId (ii_item it)" "entry_quantity ?e = gs_left gs"
    by (simp_all add: entry_id_def entry_quantity_def)
  moreover have "\<exists>gs'. fill_slot xxh3 True wzq info it j gs = Inr (gs', True) \<and> same_items chr (gs_chr gs') \<and>
      gs_items gs' = (gs_items gs)[j := ?e]"
    using p by (simp add: fill_slot_def Let_def chr item_complete_ordinary [OF info m] same_items_projectile(1) same_items_refl)
  ultimately show ?thesis by blast
qed

lemma total_of_fill:
  assumes "gain_inv wz iid chr len q goods gs" and "j < len" "ie_isEmpty (gs_items gs ! j)"
    and "\<not> ie_isEmpty e" "entry_id e = iid" "entry_quantity e = gs_left gs"
  shows "total_of i ((gs_items gs)[j := e]) = goods i"
proof -
  have "total_of i (gs_items gs) + (if i = iid then gs_left gs else 0) = goods i" "j < length (gs_items gs)"
    using assms(1,2) by (auto simp: gain_inv_def)
  moreover have "amount_of i e = (if i = iid then gs_left gs else 0)" using assms(4-6) by (auto simp: amount_of_full)
  ultimately show ?thesis using assms(3) by (simp add: total_of_update)
qed

subsection \<open>Storing\<close>

lemma send_batches_character [simp]: "cl_character (send_batches n mods c) = cl_character c"
  by (induction n mods c rule: send_batches.induct) (subst send_batches.simps, simp)

lemma store_inventory_character:
  assumes "same_items chr (gs_chr gs)" and "inventories_wf chr" and "iv < 4" and "length (gs_items gs) = MAX_ITEM_COUNT"
  shows "tab (cl_character (store_inventory iv gs c)) iv = gs_items gs" "inventories_wf (cl_character (store_inventory iv gs c))"
proof -
  have wf: "inventories_wf (gs_chr gs)" using assms(1,2) by (simp add: same_itemsD)
  then have l: "iv < length (chr_inventory (gs_chr gs))" using assms(3) by (simp add: inventories_wf_def)
  then show "tab (cl_character (store_inventory iv gs c)) iv = gs_items gs"
    by (simp add: store_inventory_def Let_def tab_def)
  have "t \<in> insert ((chr_inventory (gs_chr gs) ! iv)\<lparr>inv_items := gs_items gs\<rparr>) (set (chr_inventory (gs_chr gs)))"
    if "t \<in> set ((chr_inventory (gs_chr gs))[iv := (chr_inventory (gs_chr gs) ! iv)\<lparr>inv_items := gs_items gs\<rparr>])" for t
    using that set_update_subset_insert by fast
  then show "inventories_wf (cl_character (store_inventory iv gs c))"
    using wf assms(4) nth_mem [OF l] by (fastforce simp: store_inventory_def Let_def inventories_wf_def)
qed

text \<open>The outcomes of receiving an ordinary item.\<close>

definition received :: "(u32 \<Rightarrow> item_info option) \<Rightarrow> nat \<Rightarrow> inventory_item \<Rightarrow> client \<Rightarrow> client \<Rightarrow> inventory_gain_result \<Rightarrow> bool" where
  "received wz iv it c c' r \<longleftrightarrow>
     (case r of
        INVENTORY_GAIN_RESULT_SUCCESS \<Rightarrow>
          inventories_wf (cl_character c') \<and>
          (\<forall>i. total_of i (tab (cl_character c') iv) =
               total_of i (tab (cl_character c) iv) + (if i = itemId (ii_item it) then quantity it else 0))
      | _ \<Rightarrow> cl_character c' = cl_character c)"

lemma stored_received:
  assumes "inventories_wf (cl_character c)" "iv < 4" and "same_items (cl_character c) (gs_chr gs)" "length (gs_items gs) = MAX_ITEM_COUNT"
    and "\<And>i. total_of i (gs_items gs) = total_of i (tab (cl_character c) iv) + (if i = itemId (ii_item it) then quantity it else 0)"
  shows "received wz iv it c (store_inventory iv gs c) INVENTORY_GAIN_RESULT_SUCCESS"
  using assms store_inventory_character [OF assms(3,1,2,4), of c] by (simp add: received_def)

subsection \<open>Properties\<close>

text \<open>
  C10: Receiving an ordinary item (one that does not belong to a quest and cannot be recharged) is
  all or nothing: either success is reported and the inventory holds exactly the received
  quantity more of it and as much of everything else as before, or the inventory is full and the
  character is unchanged. No third result is possible when memory is available.
\<close>

theorem receiving_is_all_or_nothing:
  assumes wf: "inventories_wf (cl_character c)" and iv: "unat (itemId (ii_item it) div 1000000 - 2) = iv" "iv < 4"
    and info: "wz (itemId (ii_item it)) = Some info" "\<not> info_quest info" and rc: "\<not> ITEM_IS_RECHARGEABLE (itemId (ii_item it))"
    and st: "stacks_ok wz (tab (cl_character c) iv)" and q: "0 \<le> quantity it" "quantity it \<le> 32767"
    and m: "quest_item_max wzq (itemId (ii_item it)) (cl_character c) \<noteq> None"
  shows "\<exists>c' r. client_gain_inventory_item xxh3 True True wz wzq c it = Inr (c', Some r) \<and>
    r \<in> {INVENTORY_GAIN_RESULT_SUCCESS, INVENTORY_GAIN_RESULT_FULL} \<and> received wz iv it c c' r"
proof -
  let ?chr = "cl_character c" and ?iid = "itemId (ii_item it)"
  let ?n = "slot_count ?chr iv"
  define goods where "goods i = total_of i (tab ?chr iv) + (if i = ?iid then quantity it else 0)" for i
  let ?gs = "\<lparr>gs_chr = ?chr, gs_items = tab ?chr iv, gs_left = quantity it, gs_mods = [], gs_capacity = 1\<rparr>"
  have len: "iv < length (chr_inventory ?chr)" "length (tab ?chr iv) = MAX_ITEM_COUNT" "?n \<le> MAX_ITEM_COUNT"
    using wf iv(2) by (simp_all add: inventories_wf_def tab_def slot_count_def)
  have g0: "gain_inv wz ?iid ?chr MAX_ITEM_COUNT (quantity it) goods ?gs"
    using st q len by (simp add: gain_inv_def goods_def)
  have "\<forall>i \<in> set [0..<?n]. i < MAX_ITEM_COUNT" using len(3) by simp
  from fill_stacks_ok [OF g0 this q(2) rc info m] obtain gs where
    gs: "fill_stacks xxh3 True wzq info it [0..<?n] ?gs = Inr (gs, True)" "gain_inv wz ?iid ?chr MAX_ITEM_COUNT (quantity it) goods gs"
    by blast
  have G: "gs_chr gs = ?chr" "length (gs_items gs) = MAX_ITEM_COUNT" using gs(2) by (simp_all add: gain_inv_def)
  have R: "client_gain_inventory_item xxh3 True True wz wzq c it =
      (if gs_left gs = 0 then Inr (store_inventory iv gs c, Some INVENTORY_GAIN_RESULT_SUCCESS)
       else case first_empty ?n (gs_items gs) of
              None \<Rightarrow> Inr (send To_session (Modify_items 0 []) (send To_session Inventory_full_notification (c\<lparr>cl_character := gs_chr gs\<rparr>)),
                          Some INVENTORY_GAIN_RESULT_FULL)
            | Some j \<Rightarrow> (case fill_slot xxh3 True wzq info it j gs of
                           Inl err \<Rightarrow> Inl err
                         | Inr (gs, False) \<Rightarrow> Inr (c\<lparr>cl_character := gs_chr gs\<rparr>, None)
                         | Inr (gs, True) \<Rightarrow> Inr (store_inventory iv gs c, Some INVENTORY_GAIN_RESULT_SUCCESS)))"
    unfolding client_gain_inventory_item_def Let_def iv(1) using len(1) info rc gs(1) by (simp add: tab_def)
  consider (filled) "gs_left gs = 0" | (full) "gs_left gs \<noteq> 0" "first_empty ?n (gs_items gs) = None"
    | (slot) j where "gs_left gs \<noteq> 0" "first_empty ?n (gs_items gs) = Some j" by fastforce
  then show ?thesis
  proof cases
    case filled
    then have "total_of i (gs_items gs) = goods i" for i using gs(2) by (auto simp: gain_inv_def split: if_split_asm)
    then have "received wz iv it c (store_inventory iv gs c) INVENTORY_GAIN_RESULT_SUCCESS"
      using G by (intro stored_received [OF wf iv(2)]) (simp_all add: goods_def same_items_refl)
    then show ?thesis using R filled by simp
  next
    case full
    then show ?thesis using R G(1) by (simp add: received_def)
  next
    case (slot j)
    from first_emptyD [OF slot(2)] len(3) have j: "j < MAX_ITEM_COUNT" "ie_isEmpty (gs_items gs ! j)" by auto
    from fill_slot_ok [OF gs(2) j info(2) m] obtain gs' e where F: "fill_slot xxh3 True wzq info it j gs = Inr (gs', True)"
      "same_items ?chr (gs_chr gs')" "gs_items gs' = (gs_items gs)[j := e]" "\<not> ie_isEmpty e" "entry_id e = ?iid" "entry_quantity e = gs_left gs"
      by blast
    have "received wz iv it c (store_inventory iv gs' c) INVENTORY_GAIN_RESULT_SUCCESS"
      using F(2-3) G(2) total_of_fill [OF gs(2) j F(4-6)] by (intro stored_received [OF wf iv(2)]) (simp_all add: goods_def)
    then show ?thesis using R slot F(1) by simp
  qed
qed

theorem receiving_is_all_or_nothing_witness:
  "\<exists>c' r. client_gain_inventory_item (\<lambda>_. 0) True True potion_table (\<lambda>_. None) stocked (ie_item (potions 70)) = Inr (c', Some r) \<and>
     received potion_table 0 (ie_item (potions 70)) stocked c' r"
proof -
  have p: "itemId (ii_item (ie_item (potions 70))) = 2000000" "quantity (ie_item (potions 70)) = 70" by (simp_all add: potions_def)
  have "quest_item_max (\<lambda>_. None) 2000000 (cl_character stocked) = Some 0"
    by (simp add: stocked_def armed_def beginner_def set_item_slot_def quest_item_max_def hash_set_foreach_keep_def)
  with receiving_is_all_or_nothing [OF stocked_ok(1), of "ie_item (potions 70)" 0 potion_table potion_info "\<lambda>_. None" "\<lambda>_. 0"]
    stocked_ok(2) potions_not_rechargeable p show ?thesis by (auto simp: potion_table_def potion_info_def)
qed

text \<open>
  A throwing star or bullet that arrives when no slot is empty is lost: success is reported, an
  empty notification is sent and the character is unchanged.
\<close>

theorem rechargeable_lost_when_full:
  assumes "wz (itemId (ii_item it)) = Some info" "\<not> info_quest info" and "ITEM_IS_RECHARGEABLE (itemId (ii_item it))"
    and "inventories_wf (cl_character c)" and "unat (itemId (ii_item it) div 1000000 - 2) = 0"
    and "\<forall>e \<in> set (tab (cl_character c) 0). \<not> ie_isEmpty e"
  shows "client_gain_inventory_item xxh3 True mem wz wzq c it =
    Inr (send To_session (Modify_items 0 []) c, Some INVENTORY_GAIN_RESULT_SUCCESS)"
proof -
  have len: "0 < length (chr_inventory (cl_character c))" "length (tab (cl_character c) 0) = MAX_ITEM_COUNT"
    "slot_count (cl_character c) 0 \<le> MAX_ITEM_COUNT"
    using assms(4) by (simp_all add: inventories_wf_def tab_def slot_count_def)
  then have "first_empty (slot_count (cl_character c) 0) (tab (cl_character c) 0) = None"
    using assms(6) by (auto simp: first_empty_def find_None_iff)
  moreover have "store_inventory 0 \<lparr>gs_chr = cl_character c, gs_items = tab (cl_character c) 0, gs_left = quantity it, gs_mods = [], gs_capacity = 1\<rparr> c =
      send To_session (Modify_items 0 []) c"
    by (simp add: store_inventory_def Let_def tab_def) (subst send_batches.simps, simp)
  ultimately show ?thesis
    using assms(1-3,5) len(1) by (simp add: client_gain_inventory_item_def Let_def store_rechargeable_def tab_def)
qed

text \<open>A player whose use inventory is full of potions.\<close>

definition laden :: client where
  "laden = armed\<lparr>cl_character := (cl_character armed)\<lparr>chr_inventory := (chr_inventory (cl_character armed))[0 :=
     \<lparr>inv_slotCount = 24, inv_items = replicate 252 (potions 100)\<rparr>]\<rparr>\<rparr>"

theorem rechargeable_lost_when_full_witness:
  "client_gain_inventory_item (\<lambda>_. 0) True True (\<lambda>_. Some potion_info) (\<lambda>_. None) laden
     (blank_item\<lparr>ii_item := (ii_item blank_item)\<lparr>itemId := 2070000\<rparr>, quantity := 500\<rparr>) =
   Inr (send To_session (Modify_items 0 []) laden, Some INVENTORY_GAIN_RESULT_SUCCESS)"
proof -
  have "inventories_wf (cl_character laden)"
    using armed_wf(1) set_update_subset_insert [of "chr_inventory (cl_character armed)" 0]
    by (fastforce simp: laden_def inventories_wf_def MAX_ITEM_COUNT_def)
  moreover have "tab (cl_character laden) 0 = replicate 252 (potions 100)"
    by (simp add: laden_def armed_def tab_def)
  ultimately show ?thesis
    by (intro rechargeable_lost_when_full [where info = potion_info])
      (simp_all add: potion_info_def ITEM_IS_RECHARGEABLE_def ITEM_IS_THROWING_STAR_def)
qed

end
