(* ===== verification/Exchange.thy ===== *)
theory Exchange
  imports Gaining
begin

text \<open>
  Exchanges of several items at once (\<open>client_gain_items\<close> of
  \<^verbatim>\<open>src/src/channel/client.c\<close>), which scripts and quests use: negative amounts are taken from the
  player, then positive ones are given. The function works on copies of the inventories, so that
  an exchange that does not fit changes nothing.
\<close>

subsection \<open>Operations\<close>

text \<open>The local variables: the copied inventories (of the equipment inventory the slots that exist),
  the active projectile, and the notifications with their capacity.\<close>

record exchange =
  ex_equips :: "equip_entry list"
  ex_invs :: "inventory list"
  ex_active :: u8
  ex_mods :: "inventory_modify list"
  ex_capacity :: nat

text \<open>The result of \<open>realloc\<close> is not looked at.\<close>

definition push_change :: "bool \<Rightarrow> inventory_modify \<Rightarrow> exchange \<Rightarrow> cerror + exchange" where
  "push_change mem md x =
     (if length (ex_mods x) = ex_capacity x
      then if mem then Inr (x\<lparr>ex_capacity := ex_capacity x * 2, ex_mods := ex_mods x @ [md]\<rparr>) else Inl Null_info
      else Inr (x\<lparr>ex_mods := ex_mods x @ [md]\<rparr>))"

definition ex_items :: "exchange \<Rightarrow> nat \<Rightarrow> item_entry list" where
  "ex_items x iv = inv_items (ex_invs x ! iv)"

definition ex_slots :: "exchange \<Rightarrow> nat \<Rightarrow> nat" where
  "ex_slots x iv = unat (inv_slotCount (ex_invs x ! iv))"

definition set_ex_item :: "nat \<Rightarrow> nat \<Rightarrow> item_entry \<Rightarrow> exchange \<Rightarrow> exchange" where
  "set_ex_item iv j e x =
     x\<lparr>ex_invs := (ex_invs x)[iv := (ex_invs x ! iv)\<lparr>inv_items := (inv_items (ex_invs x ! iv))[j := e]\<rparr>]\<rparr>"

text \<open>The loops over the slots of an inventory end as soon as the amount \<open>a\<close> is settled. (It is not
  zero before they start.)\<close>

fun until_settled :: "(nat \<Rightarrow> 's \<Rightarrow> int \<Rightarrow> 'e + 's \<times> int) \<Rightarrow> nat list \<Rightarrow> 's \<Rightarrow> int \<Rightarrow> 'e + 's \<times> int" where
  "until_settled step [] s a = Inr (s, a)"
| "until_settled step (j # js) s a =
     (case step j s a of
        Inl err \<Rightarrow> Inl err
      | Inr (s, a) \<Rightarrow> if a = 0 then Inr (s, a) else until_settled step js s a)"

definition settle_with :: "bool \<Rightarrow> inventory_modify \<Rightarrow> exchange \<Rightarrow> int \<Rightarrow> cerror + exchange \<times> int" where
  "settle_with mem md x a = (case push_change mem md x of Inl err \<Rightarrow> Inl err | Inr x \<Rightarrow> Inr (x, a))"

definition take_equip :: "bool \<Rightarrow> u32 \<Rightarrow> nat \<Rightarrow> exchange \<Rightarrow> int \<Rightarrow> cerror + exchange \<times> int" where
  "take_equip mem iid j x a =
     (let e = ex_equips x ! j
      in if \<not> ee_isEmpty e \<and> itemId (eq_item (ee_equip e)) = iid
         then settle_with mem (mod_remove 1 (int j + 1)) (x\<lparr>ex_equips := (ex_equips x)[j := e\<lparr>ee_isEmpty := True\<rparr>]\<rparr>) (to_i16 (a + 1))
         else Inr (x, a))"

definition take_items :: "bool \<Rightarrow> u32 \<Rightarrow> nat \<Rightarrow> nat \<Rightarrow> exchange \<Rightarrow> int \<Rightarrow> cerror + exchange \<times> int" where
  "take_items mem iid iv j x a =
     (let e = ex_items x iv ! j
      in if \<not> ie_isEmpty e \<and> entry_id e = iid
         then if entry_quantity e + a > 0
              then let e = with_quantity (entry_quantity e + a) e
                   in settle_with mem (mod_modify (of_nat iv + 2) (int j + 1) (entry_quantity e)) (set_ex_item iv j e x) 0
              else settle_with mem (mod_remove (of_nat iv + 2) (int j + 1)) (set_ex_item iv j (e\<lparr>ie_isEmpty := True\<rparr>) x)
                     (to_i16 (a + entry_quantity e))
         else Inr (x, a))"

text \<open>The first pass. The amounts are updated in place; \<open>None\<close> is the return with \<open>*success\<close> false.
  Only for equipment it is checked that everything was found.\<close>

fun take_all :: "bool \<Rightarrow> (u32 \<times> int) list \<Rightarrow> exchange \<Rightarrow> cerror + (exchange \<times> (u32 \<times> int) list) option" where
  "take_all mem [] x = Inr (Some (x, []))"
| "take_all mem ((iid, a) # rs) x =
     (let iv = unat (ucast (iid div 1000000) :: u8); ix = unat (ucast (iid div 1000000) - 2 :: u8);
          rest = (\<lambda>x a. case take_all mem rs x of
                    Inl err \<Rightarrow> Inl err
                  | Inr None \<Rightarrow> Inr None
                  | Inr (Some (x, rs)) \<Rightarrow> Inr (Some (x, (iid, a) # rs)))
      in if a < 0
         then if iv = 1
              then (case until_settled (take_equip mem iid) [0..<length (ex_equips x)] x a of
                      Inl err \<Rightarrow> Inl err
                    | Inr (x, a) \<Rightarrow> if a < 0 then Inr None else rest x a)
              else if ix \<ge> length (ex_invs x) then Inl Out_of_bounds
              else (case until_settled (take_items mem iid ix) [0..<ex_slots x ix] x a of
                      Inl err \<Rightarrow> Inl err
                    | Inr (x, a) \<Rightarrow> rest x a)
         else rest x a)"

definition give_equip :: "bool \<Rightarrow> equip_info option \<Rightarrow> nat \<Rightarrow> exchange \<Rightarrow> int \<Rightarrow> cerror + exchange \<times> int" where
  "give_equip mem info j x a =
     (if ee_isEmpty (ex_equips x ! j)
      then (case info of
              None \<Rightarrow> Inl Null_info
            | Some info \<Rightarrow>
                settle_with mem (mod_add_equip (int j + 1) (equipment_from_info info))
                  (x\<lparr>ex_equips := (ex_equips x)[j := \<lparr>ee_isEmpty = False, ee_equip = equipment_from_info info\<rparr>]\<rparr>) (to_i16 (a - 1)))
      else Inr (x, a))"

definition give_to_stack :: "bool \<Rightarrow> (u32 \<Rightarrow> item_info option) \<Rightarrow> u32 \<Rightarrow> nat \<Rightarrow> nat \<Rightarrow> exchange \<Rightarrow> int \<Rightarrow> cerror + exchange \<times> int" where
  "give_to_stack mem wz iid iv j x a =
     (let e = ex_items x iv ! j
      in if \<not> ie_isEmpty e \<and> entry_id e = iid
         then (case wz iid of
                 None \<Rightarrow> Inl Null_info
               | Some info \<Rightarrow>
                   let (q, a) = (if entry_quantity e > info_slotMax info - a
                                 then (info_slotMax info, to_i16 (a - (info_slotMax info - entry_quantity e)))
                                 else (entry_quantity e + a, 0));
                       e = with_quantity q e
                   in settle_with mem (mod_modify (of_nat iv + 2) (int j + 1) (entry_quantity e)) (set_ex_item iv j e x) a)
         else Inr (x, a))"

text \<open>A projectile that comes to a slot before the active one becomes active. That the stack is
  new is enough here; the worn weapon is read even if its slot is empty.\<close>

definition aim :: "u32 \<Rightarrow> nat \<Rightarrow> nat \<Rightarrow> u32 \<Rightarrow> u8 \<Rightarrow> u8" where
  "aim wid iv j iid active =
     (if iv = 0 \<and> j < unat active \<and>
         (wid div 10000 = 145 \<and> iid div 1000 = 2060 \<or> wid div 10000 = 146 \<and> iid div 1000 = 2061 \<or>
          wid div 10000 = 147 \<and> ITEM_IS_THROWING_STAR iid \<or> wid div 10000 = 149 \<and> ITEM_IS_BULLET iid)
      then of_nat j else active)"

text \<open>A new stack keeps what was in the slot, except for the fields that are set.\<close>

definition new_stack :: "u32 \<Rightarrow> int \<Rightarrow> item_entry \<Rightarrow> item_entry" where
  "new_stack iid q e =
     \<lparr>ie_isEmpty = False,
      ie_item = \<lparr>ii_item = (ii_item (ie_item e))\<lparr>item_uid := 0, itemId := iid, flags := 0, ownerLength := 0, giftFromLength := 0\<rparr>,
        quantity = to_i16 q\<rparr>\<rparr>"

definition give_to_slot ::
  "bool \<Rightarrow> (u32 \<Rightarrow> item_info option) \<Rightarrow> u32 \<Rightarrow> u32 \<Rightarrow> nat \<Rightarrow> nat \<Rightarrow> exchange \<Rightarrow> int \<Rightarrow> cerror + exchange \<times> int" where
  "give_to_slot mem wz wid iid iv j x a =
     (let e = ex_items x iv ! j
      in if ie_isEmpty e
         then (case wz iid of
                 None \<Rightarrow> Inl Null_info
               | Some info \<Rightarrow>
                   let (q, a) = (if a > info_slotMax info then (info_slotMax info, to_i16 (a - info_slotMax info)) else (a, 0));
                       e = new_stack iid q e
                   in case settle_with mem (mod_add (of_nat iv + 2) (int j + 1) (ie_item e)) (set_ex_item iv j e x) a of
                        Inl err \<Rightarrow> Inl err
                      | Inr (x, a) \<Rightarrow> Inr (x\<lparr>ex_active := aim wid iv j iid (ex_active x)\<rparr>, a))
         else Inr (x, a))"

text \<open>The second pass. \<open>None\<close>: something did not fit.\<close>

fun give_all ::
  "bool \<Rightarrow> (u32 \<Rightarrow> item_info option) \<Rightarrow> (u32 \<Rightarrow> equip_info option) \<Rightarrow> u32 \<Rightarrow> (u32 \<times> int) list \<Rightarrow> exchange \<Rightarrow> cerror + exchange option" where
  "give_all mem wz wze wid [] x = Inr (Some x)"
| "give_all mem wz wze wid ((iid, a) # rs) x =
     (let iv = unat (ucast (iid div 1000000) :: u8); ix = unat (ucast (iid div 1000000) - 2 :: u8)
      in if a > 0
         then if iv = 1
              then (case until_settled (give_equip mem (wze iid)) [0..<length (ex_equips x)] x a of
                      Inl err \<Rightarrow> Inl err
                    | Inr (x, a) \<Rightarrow> if a > 0 then Inr None else give_all mem wz wze wid rs x)
              else if ix \<ge> length (ex_invs x) then Inl Out_of_bounds
              else (case (if ITEM_IS_RECHARGEABLE iid then Inr (x, a)
                          else until_settled (give_to_stack mem wz iid ix) [0..<ex_slots x ix] x a) of
                      Inl err \<Rightarrow> Inl err
                    | Inr (x, a) \<Rightarrow>
                        if a = 0 then give_all mem wz wze wid rs x
                        else (case until_settled (give_to_slot mem wz wid iid ix) [0..<ex_slots x ix] x a of
                                Inl err \<Rightarrow> Inl err
                              | Inr (x, a) \<Rightarrow> if a > 0 then Inr None else give_all mem wz wze wid rs x))
         else give_all mem wz wze wid rs x)"

definition exchange_of :: "nat \<Rightarrow> character \<Rightarrow> exchange" where
  "exchange_of len chr =
     \<lparr>ex_equips = take (equip_slot_count chr) (eqi_items (equipmentInventory chr)), ex_invs = chr_inventory chr,
      ex_active = activeProjectile chr, ex_mods = [], ex_capacity = len\<rparr>"

definition store_exchange :: "exchange \<Rightarrow> character \<Rightarrow> character" where
  "store_exchange x chr =
     chr\<lparr>chr_inventory := ex_invs x,
         equipmentInventory := (equipmentInventory chr)\<lparr>eqi_items :=
           ex_equips x @ drop (length (ex_equips x)) (eqi_items (equipmentInventory chr))\<rparr>,
         activeProjectile := ex_active x\<rparr>"

definition send_rewards :: "(u32 \<times> int) list \<Rightarrow> client \<Rightarrow> client" where
  "send_rewards rs c = fold (\<lambda>(iid, n). send To_session (Item_gain_in_chat iid n)) rs c"

text \<open>\<open>mem\<close>: \<open>malloc\<close> succeeds, \<open>remem\<close>: \<open>realloc\<close> does. \<open>None\<close> is the return value \<open>false\<close>, otherwise
  the result is \<open>*success\<close>.\<close>

definition client_gain_items ::
  "bool \<Rightarrow> bool \<Rightarrow> (u32 \<Rightarrow> item_info option) \<Rightarrow> (u32 \<Rightarrow> equip_info option) \<Rightarrow> client \<Rightarrow> (u32 \<times> int) list \<Rightarrow> bool \<Rightarrow>
   cerror + client \<times> bool option" where
  "client_gain_items mem remem wz wze c rs reward =
     (let chr = cl_character c
      in if \<not> mem then Inr (c, None)
         else case take_all remem rs (exchange_of (length rs) chr) of
                Inl err \<Rightarrow> Inl err
              | Inr None \<Rightarrow> Inr (c, Some False)
              | Inr (Some (x, amounts)) \<Rightarrow>
                  (case give_all remem wz wze (weapon_id chr) amounts x of
                     Inl err \<Rightarrow> Inl err
                   | Inr None \<Rightarrow> Inr (c, Some False)
                   | Inr (Some x) \<Rightarrow>
                       if ex_mods x = [] then Inl Assertion_failed
                       else let c = send_batches (length (ex_mods x)) (ex_mods x) (c\<lparr>cl_character := store_exchange x chr\<rparr>)
                            in Inr (if reward then send_rewards rs c else c, Some True)))"

subsection \<open>What is held\<close>

definition category :: "u32 \<Rightarrow> nat" where
  "category iid = unat (ucast (iid div 1000000) :: u8)"

definition equip_amount :: "u32 \<Rightarrow> equip_entry \<Rightarrow> int" where
  "equip_amount iid e = (if ee_isEmpty e \<or> itemId (eq_item (ee_equip e)) \<noteq> iid then 0 else 1)"

text \<open>How much of an item is in the slots of the inventory where it belongs.\<close>

definition holding :: "u32 \<Rightarrow> equip_entry list \<Rightarrow> inventory list \<Rightarrow> int" where
  "holding iid es invs =
     (if category iid = 1 then sum_list (map (equip_amount iid) es)
      else let t = invs ! (category iid - 2) in total_of iid (take (unat (inv_slotCount t)) (inv_items t)))"

definition owed :: "u32 \<Rightarrow> (u32 \<times> int) list \<Rightarrow> int" where
  "owed i rs = sum_list (map (\<lambda>(iid, a). if iid = i \<and> a < 0 then - a else 0) rs)"

definition due :: "u32 \<Rightarrow> (u32 \<times> int) list \<Rightarrow> int" where
  "due i rs = sum_list (map (\<lambda>(iid, a). if iid = i \<and> a > 0 then a else 0) rs)"

text \<open>Every item of an exchange belongs to an inventory and is described.\<close>

definition request_ok :: "(u32 \<Rightarrow> item_info option) \<Rightarrow> (u32 \<Rightarrow> equip_info option) \<Rightarrow> u32 \<times> int \<Rightarrow> bool" where
  "request_ok wz wze r \<longleftrightarrow>
     (case r of (iid, a) \<Rightarrow>
        - 32768 \<le> a \<and> a \<le> 32767 \<and>
        (if category iid = 1 then \<exists>info. wze iid = Some info \<and> info_id info = iid
         else 2 \<le> category iid \<and> category iid \<le> 5 \<and> (\<exists>info. wz iid = Some info \<and> 0 \<le> info_slotMax info \<and> info_slotMax info \<le> 32767)))"

definition exchange_ok :: "(u32 \<Rightarrow> item_info option) \<Rightarrow> exchange \<Rightarrow> bool" where
  "exchange_ok wz x \<longleftrightarrow>
     length (ex_invs x) = 4 \<and>
     (\<forall>t \<in> set (ex_invs x). length (inv_items t) = MAX_ITEM_COUNT \<and> unat (inv_slotCount t) \<le> MAX_ITEM_COUNT \<and> stacks_ok wz (inv_items t))"

definition shape :: "exchange \<Rightarrow> nat \<times> u8 list" where
  "shape x = (length (ex_equips x), map inv_slotCount (ex_invs x))"

text \<open>While the amount \<open>a\<close> of the item \<open>iid\<close> is being settled: what is held and what is to be settled
  make up \<open>goods\<close>, and there is a notification once anything has changed.\<close>

definition settling :: "(u32 \<Rightarrow> item_info option) \<Rightarrow> nat \<times> u8 list \<Rightarrow> u32 \<Rightarrow> (u32 \<Rightarrow> int) \<Rightarrow> bool \<Rightarrow> int \<Rightarrow> exchange \<Rightarrow> int \<Rightarrow> bool" where
  "settling wz sh iid goods told a0 x a \<longleftrightarrow>
     exchange_ok wz x \<and> shape x = sh \<and> (told \<or> a \<noteq> a0 \<longrightarrow> ex_mods x \<noteq> []) \<and>
     (\<forall>i. holding i (ex_equips x) (ex_invs x) + (if i = iid then a else 0) = goods i)"

lemma exchange_simps [simp]:
  "shape (x\<lparr>ex_mods := ms\<rparr>) = shape x" "shape (x\<lparr>ex_capacity := n\<rparr>) = shape x" "shape (x\<lparr>ex_active := p\<rparr>) = shape x"
  "exchange_ok wz (x\<lparr>ex_mods := ms\<rparr>) = exchange_ok wz x" "exchange_ok wz (x\<lparr>ex_capacity := n\<rparr>) = exchange_ok wz x"
  "exchange_ok wz (x\<lparr>ex_active := p\<rparr>) = exchange_ok wz x" "exchange_ok wz (x\<lparr>ex_equips := es\<rparr>) = exchange_ok wz x"
  "settling wz sh iid goods told a0 (x\<lparr>ex_active := p\<rparr>) a = settling wz sh iid goods told a0 x a"
  by (simp_all add: shape_def exchange_ok_def settling_def)

lemma settle_with_ok:
  assumes "exchange_ok wz x" "shape x = sh" "\<And>i. holding i (ex_equips x) (ex_invs x) + (if i = iid then a else 0) = goods i"
  shows "\<exists>x'. settle_with True md x a = Inr (x', a) \<and> ex_invs x' = ex_invs x \<and> settling wz sh iid goods told a0 x' a"
  using assms by (auto simp: settle_with_def push_change_def settling_def)

lemma held_set_ex_item:
  assumes "iv < length (ex_invs x)" "j < ex_slots x iv" "ex_slots x iv \<le> length (ex_items x iv)"
  shows "holding i (ex_equips x) (ex_invs (set_ex_item iv j e x)) = holding i (ex_equips x) (ex_invs x) +
    (if category i \<noteq> 1 \<and> category i - 2 = iv then amount_of i e - amount_of i (ex_items x iv ! j) else 0)"
  using assms by (auto simp: holding_def Let_def set_ex_item_def ex_slots_def ex_items_def take_update_swap total_of_update)

lemma held_set_ex_equip:
  assumes "j < length (ex_equips x)"
  shows "holding i ((ex_equips x)[j := e]) invs = holding i (ex_equips x) invs +
    (if category i = 1 then equip_amount i e - equip_amount i (ex_equips x ! j) else 0)"
  using assms by (simp add: holding_def Let_def sum_list_map_update)

lemma set_ex_item_ok:
  assumes "exchange_ok wz x" "iv < 4" "stack_ok wz e"
  shows "exchange_ok wz (set_ex_item iv j e x)" "shape (set_ex_item iv j e x) = shape x"
    "ex_equips (set_ex_item iv j e x) = ex_equips x" "ex_items (set_ex_item iv j e x) iv = (ex_items x iv)[j := e]"
proof -
  have l: "iv < length (ex_invs x)" using assms(1,2) by (simp add: exchange_ok_def)
  then show "ex_equips (set_ex_item iv j e x) = ex_equips x" "ex_items (set_ex_item iv j e x) iv = (ex_items x iv)[j := e]"
    "shape (set_ex_item iv j e x) = shape x"
    by (simp_all add: set_ex_item_def ex_items_def shape_def map_update list_update_same_conv)
  let ?t = "(ex_invs x ! iv)\<lparr>inv_items := (inv_items (ex_invs x ! iv))[j := e]\<rparr>"
  have "set (ex_invs (set_ex_item iv j e x)) \<subseteq> insert ?t (set (ex_invs x))"
    by (simp add: set_ex_item_def set_update_subset_insert)
  moreover have "ex_invs x ! iv \<in> set (ex_invs x)" using l by simp
  ultimately show "exchange_ok wz (set_ex_item iv j e x)"
    using assms(1) stacks_ok_update [OF _ assms(3)] by (auto simp: exchange_ok_def set_ex_item_def)
qed

lemma exchange_okD:
  assumes "exchange_ok wz x" "iv < 4"
  shows "iv < length (ex_invs x)" "length (ex_items x iv) = MAX_ITEM_COUNT" "ex_slots x iv \<le> length (ex_items x iv)" "stacks_ok wz (ex_items x iv)"
proof -
  have "ex_invs x ! iv \<in> set (ex_invs x)" "iv < length (ex_invs x)" using assms by (simp_all add: exchange_ok_def)
  then show "iv < length (ex_invs x)" "length (ex_items x iv) = MAX_ITEM_COUNT" "ex_slots x iv \<le> length (ex_items x iv)" "stacks_ok wz (ex_items x iv)"
    using assms(1) by (auto simp: exchange_ok_def ex_items_def ex_slots_def)
qed

subsection \<open>One slot\<close>

text \<open>A change of one slot of the inventory of the item that settles the difference.\<close>

lemma settle_slot:
  assumes s: "settling wz sh iid goods told a0 x a" and iv: "category iid = iv + 2" "iv < 4" and j: "j < ex_slots x iv"
    and e: "stack_ok wz e" "\<And>i. amount_of i e + (if i = iid then a' else 0) = amount_of i (ex_items x iv ! j) + (if i = iid then a else 0)"
  shows "\<exists>x'. settle_with True md (set_ex_item iv j e x) a' = Inr (x', a') \<and> ex_items x' iv = (ex_items x iv)[j := e] \<and>
    settling wz sh iid goods told a0 x' a'"
proof -
  note S = s [unfolded settling_def]
  then have ok: "exchange_ok wz x" by blast
  note D = exchange_okD [OF ok iv(2)] and O = set_ex_item_ok [OF ok iv(2) e(1), of j]
  have "holding i (ex_equips x) (ex_invs (set_ex_item iv j e x)) + (if i = iid then a' else 0) = goods i" for i
    unfolding held_set_ex_item [OF D(1) j D(3)] using S e(2) [of i] iv(1) by (auto split: if_split_asm)
  from settle_with_ok [OF O(1), of sh iid a' goods md told a0] this O(2-3) S
  obtain x' where x': "settle_with True md (set_ex_item iv j e x) a' = Inr (x', a')" "ex_invs x' = ex_invs (set_ex_item iv j e x)"
    "settling wz sh iid goods told a0 x' a'" by auto
  from x'(2) O(4) have "ex_items x' iv = (ex_items x iv)[j := e]" by (simp add: ex_items_def)
  with x' show ?thesis by blast
qed

lemma settle_equip:
  assumes s: "settling wz sh iid goods told a0 x a" and c: "category iid = 1" and j: "j < length (ex_equips x)"
    and e: "\<And>i. equip_amount i e + (if i = iid then a' else 0) = equip_amount i (ex_equips x ! j) + (if i = iid then a else 0)"
  shows "\<exists>x'. settle_with True md (x\<lparr>ex_equips := (ex_equips x)[j := e]\<rparr>) a' = Inr (x', a') \<and> settling wz sh iid goods told a0 x' a'"
proof -
  note S = s [unfolded settling_def]
  have "holding i ((ex_equips x)[j := e]) (ex_invs x) + (if i = iid then a' else 0) = goods i" for i
    unfolding held_set_ex_equip [OF j] using S e [of i] c by (auto split: if_split_asm)
  with settle_with_ok [of wz "x\<lparr>ex_equips := (ex_equips x)[j := e]\<rparr>" sh iid a' goods md told a0] S show ?thesis
    by (auto simp: shape_def)
qed

lemma settlingD:
  assumes "settling wz sh iid goods told a0 x a"
  shows "exchange_ok wz x" "length (ex_equips x) = fst sh" "map inv_slotCount (ex_invs x) = snd sh"
  using assms by (auto simp: settling_def shape_def)

lemma take_equip_step:
  assumes "settling wz sh iid goods told a0 x a" "category iid = 1" "j < length (ex_equips x)" "- 32768 \<le> a" "a < 0"
  shows "\<exists>x' a'. take_equip True iid j x a = Inr (x', a') \<and> settling wz sh iid goods told a0 x' a' \<and> - 32768 \<le> a' \<and> a' \<le> 0"
proof (cases "\<not> ee_isEmpty (ex_equips x ! j) \<and> itemId (eq_item (ee_equip (ex_equips x ! j))) = iid")
  case True
  have a: "to_i16 (a + 1) = a + 1" using assms(4,5) by (simp add: to_i16_id)
  have "\<exists>x'. settle_with True (mod_remove 1 (int j + 1)) (x\<lparr>ex_equips := (ex_equips x)[j := (ex_equips x ! j)\<lparr>ee_isEmpty := True\<rparr>]\<rparr>) (a + 1) =
      Inr (x', a + 1) \<and> settling wz sh iid goods told a0 x' (a + 1)"
    by (rule settle_equip [OF assms(1-3)]) (use True in \<open>auto simp: equip_amount_def\<close>)
  then show ?thesis using True assms(4,5) by (auto simp: take_equip_def Let_def a)
next
  case False
  then show ?thesis using assms by (auto simp: take_equip_def Let_def)
qed

lemma give_equip_step:
  assumes "settling wz sh iid goods told a0 x a" "category iid = 1" "j < length (ex_equips x)" "0 < a" "a \<le> 32767" and "info_id info = iid"
  shows "\<exists>x' a'. give_equip True (Some info) j x a = Inr (x', a') \<and> settling wz sh iid goods told a0 x' a' \<and> 0 \<le> a' \<and> a' \<le> 32767"
proof (cases "ee_isEmpty (ex_equips x ! j)")
  case True
  have a: "to_i16 (a - 1) = a - 1" using assms(4,5) by (simp add: to_i16_id)
  have "\<exists>x'. settle_with True (mod_add_equip (int j + 1) (equipment_from_info info))
      (x\<lparr>ex_equips := (ex_equips x)[j := \<lparr>ee_isEmpty = False, ee_equip = equipment_from_info info\<rparr>]\<rparr>) (a - 1) =
      Inr (x', a - 1) \<and> settling wz sh iid goods told a0 x' (a - 1)"
    by (rule settle_equip [OF assms(1-3)]) (use True assms(6) in \<open>auto simp: equip_amount_def equipment_from_info_def\<close>)
  then show ?thesis using True assms(4,5) by (auto simp: give_equip_def a)
next
  case False
  then show ?thesis using assms by (auto simp: give_equip_def)
qed

text \<open>The conditions under which a slot of another inventory is looked at.\<close>

definition at_slot :: "(u32 \<Rightarrow> item_info option) \<Rightarrow> u32 \<Rightarrow> nat \<Rightarrow> nat \<Rightarrow> exchange \<Rightarrow> bool" where
  "at_slot wz iid iv j x \<longleftrightarrow> category iid = iv + 2 \<and> iv < 4 \<and> j < ex_slots x iv"

lemma slot_stack_ok:
  assumes "settling wz sh iid goods told a0 x a" "at_slot wz iid iv j x"
  shows "stack_ok wz (ex_items x iv ! j)" "j < length (ex_items x iv)"
  using exchange_okD [OF settlingD(1) [OF assms(1)], of iv] assms(2) stacks_okD by (fastforce simp: at_slot_def)+

lemma take_items_step:
  assumes s: "settling wz sh iid goods told a0 x a" and at: "at_slot wz iid iv j x" and a: "- 32768 \<le> a" "a < 0"
  shows "\<exists>x' a' e. take_items True iid iv j x a = Inr (x', a') \<and> settling wz sh iid goods told a0 x' a' \<and> - 32768 \<le> a' \<and> a' \<le> 0 \<and>
    ex_items x' iv = (ex_items x iv)[j := e] \<and> (a' = 0 \<or> amount_of iid e = 0)"
proof -
  let ?e = "ex_items x iv ! j"
  note ok = slot_stack_ok [OF s at] and S = settle_slot [OF s at [unfolded at_slot_def, THEN conjunct1]]
  have iv: "iv < 4" "j < ex_slots x iv" using at by (simp_all add: at_slot_def)
  consider (other) "ie_isEmpty ?e \<or> entry_id ?e \<noteq> iid" | (less) "\<not> ie_isEmpty ?e" "entry_id ?e = iid" "entry_quantity ?e + a > 0"
    | (all) "\<not> ie_isEmpty ?e" "entry_id ?e = iid" "entry_quantity ?e + a \<le> 0" by force
  then show ?thesis
  proof cases
    case other
    moreover have "ex_items x iv = (ex_items x iv)[j := ?e]" by simp
    moreover have "amount_of iid ?e = 0" using other by (auto simp: amount_of_def)
    moreover have "take_items True iid iv j x a = Inr (x, a)" using other by (auto simp: take_items_def Let_def)
    ultimately show ?thesis using s a by fastforce
  next
    case less
    then have q: "to_i16 (entry_quantity ?e + a) = entry_quantity ?e + a" using ok(1) a by (auto simp: stack_ok_def to_i16_id)
    have "stack_ok wz (with_quantity (entry_quantity ?e + a) ?e)" using less ok(1) a by (auto simp: stack_ok_def q)
    from S [OF iv this, of 0 "mod_modify (of_nat iv + 2) (int j + 1) (entry_quantity ?e + a)"] less
    have "\<exists>x'. settle_with True (mod_modify (of_nat iv + 2) (int j + 1) (entry_quantity ?e + a))
        (set_ex_item iv j (with_quantity (entry_quantity ?e + a) ?e) x) 0 = Inr (x', 0) \<and>
        ex_items x' iv = (ex_items x iv)[j := with_quantity (entry_quantity ?e + a) ?e] \<and> settling wz sh iid goods told a0 x' 0"
      by (simp add: amount_of_full q)
    moreover have "take_items True iid iv j x a = settle_with True (mod_modify (of_nat iv + 2) (int j + 1) (entry_quantity ?e + a))
        (set_ex_item iv j (with_quantity (entry_quantity ?e + a) ?e) x) 0"
      using less by (simp add: take_items_def Let_def q)
    ultimately show ?thesis by fastforce
  next
    case all
    then have q: "to_i16 (a + entry_quantity ?e) = a + entry_quantity ?e" "- 32768 \<le> a + entry_quantity ?e" "a + entry_quantity ?e \<le> 0"
      using ok(1) a by (auto simp: stack_ok_def to_i16_id)
    have amt: "amount_of i (?e\<lparr>ie_isEmpty := True\<rparr>) + (if i = iid then a + entry_quantity ?e else 0) =
        amount_of i ?e + (if i = iid then a else 0)" for i using all by (auto simp: amount_of_full)
    from S [OF iv stack_ok_empty amt, of "mod_remove (of_nat iv + 2) (int j + 1)"]
    obtain x' where "settle_with True (mod_remove (of_nat iv + 2) (int j + 1)) (set_ex_item iv j (?e\<lparr>ie_isEmpty := True\<rparr>) x) (a + entry_quantity ?e) =
        Inr (x', a + entry_quantity ?e)" "ex_items x' iv = (ex_items x iv)[j := ?e\<lparr>ie_isEmpty := True\<rparr>]"
      "settling wz sh iid goods told a0 x' (a + entry_quantity ?e)" by blast
    moreover have "take_items True iid iv j x a =
        settle_with True (mod_remove (of_nat iv + 2) (int j + 1)) (set_ex_item iv j (?e\<lparr>ie_isEmpty := True\<rparr>) x) (a + entry_quantity ?e)"
      using all by (simp add: take_items_def Let_def q)
    moreover have "amount_of iid (?e\<lparr>ie_isEmpty := True\<rparr>) = 0" by simp
    ultimately show ?thesis using q(2,3) by auto
  qed
qed

lemma give_to_stack_step:
  assumes s: "settling wz sh iid goods told a0 x a" and at: "at_slot wz iid iv j x" and a: "0 < a" "a \<le> 32767"
    and rc: "\<not> ITEM_IS_RECHARGEABLE iid" and info: "wz iid = Some info"
  shows "\<exists>x' a'. give_to_stack True wz iid iv j x a = Inr (x', a') \<and> settling wz sh iid goods told a0 x' a' \<and> 0 \<le> a' \<and> a' \<le> 32767"
proof (cases "\<not> ie_isEmpty (ex_items x iv ! j) \<and> entry_id (ex_items x iv ! j) = iid")
  case True
  let ?e = "ex_items x iv ! j"
  let ?q = "if entry_quantity ?e > info_slotMax info - a then info_slotMax info else entry_quantity ?e + a"
  let ?a = "a + entry_quantity ?e - ?q"
  note ok = slot_stack_ok(1) [OF s at]
  have q: "0 \<le> ?q" "?q \<le> info_slotMax info" "info_slotMax info \<le> 32767" "0 \<le> ?a" "?a \<le> a"
    using ok True rc info a by (auto simp: stack_ok_def)
  then have i16: "to_i16 ?q = ?q" "to_i16 ?a = ?a" using a by (simp_all add: to_i16_id)
  have e: "stack_ok wz (with_quantity ?q ?e)" using True info q by (simp add: stack_ok_def to_i16_id)
  have amt: "amount_of i (with_quantity ?q ?e) + (if i = iid then ?a else 0) = amount_of i ?e + (if i = iid then a else 0)" for i
    using True i16(1) by (simp add: amount_of_full)
  have "\<exists>x'. settle_with True (mod_modify (of_nat iv + 2) (int j + 1) ?q) (set_ex_item iv j (with_quantity ?q ?e) x) ?a = Inr (x', ?a) \<and>
      ex_items x' iv = (ex_items x iv)[j := with_quantity ?q ?e] \<and> settling wz sh iid goods told a0 x' ?a"
    using at by (intro settle_slot [OF s _ _ _ e amt]) (simp_all add: at_slot_def)
  moreover have "give_to_stack True wz iid iv j x a =
      settle_with True (mod_modify (of_nat iv + 2) (int j + 1) ?q) (set_ex_item iv j (with_quantity ?q ?e) x) ?a"
    using True info i16 by (cases "entry_quantity ?e > info_slotMax info - a") (simp_all add: give_to_stack_def Let_def diff_diff_eq2)
  ultimately show ?thesis using q(4,5) a by fastforce
next
  case False
  then show ?thesis using s a by (auto simp: give_to_stack_def Let_def)
qed

lemma new_stack_simps [simp]:
  "\<not> ie_isEmpty (new_stack iid q e)" "entry_id (new_stack iid q e) = iid" "entry_quantity (new_stack iid q e) = to_i16 q"
  by (simp_all add: new_stack_def entry_id_def entry_quantity_def)

lemma give_to_slot_step:
  assumes s: "settling wz sh iid goods told a0 x a" and at: "at_slot wz iid iv j x" and a: "0 < a" "a \<le> 32767"
    and info: "wz iid = Some info" "0 \<le> info_slotMax info" "info_slotMax info \<le> 32767"
  shows "\<exists>x' a'. give_to_slot True wz wid iid iv j x a = Inr (x', a') \<and> settling wz sh iid goods told a0 x' a' \<and> 0 \<le> a' \<and> a' \<le> 32767"
proof (cases "ie_isEmpty (ex_items x iv ! j)")
  case True
  let ?e = "ex_items x iv ! j"
  let ?q = "if a > info_slotMax info then info_slotMax info else a"
  let ?a = "a - ?q"
  have q: "0 \<le> ?q" "?q \<le> info_slotMax info" "0 \<le> ?a" "?a \<le> a" using a info by auto
  then have i16: "to_i16 ?q = ?q" "to_i16 ?a = ?a" using a info by (simp_all add: to_i16_id)
  have e: "stack_ok wz (new_stack iid ?q ?e)" using info q by (simp add: stack_ok_def to_i16_id)
  have amt: "amount_of i (new_stack iid ?q ?e) + (if i = iid then ?a else 0) = amount_of i ?e + (if i = iid then a else 0)" for i
    using True i16(1) by (simp add: amount_of_full)
  let ?s = "settle_with True (mod_add (of_nat iv + 2) (int j + 1) (ie_item (new_stack iid ?q ?e))) (set_ex_item iv j (new_stack iid ?q ?e) x) ?a"
  have "\<exists>x'. ?s = Inr (x', ?a) \<and> ex_items x' iv = (ex_items x iv)[j := new_stack iid ?q ?e] \<and> settling wz sh iid goods told a0 x' ?a"
    using at by (intro settle_slot [OF s _ _ _ e amt]) (simp_all add: at_slot_def)
  moreover have "give_to_slot True wz wid iid iv j x a =
      (case ?s of Inl err \<Rightarrow> Inl err | Inr (x, a) \<Rightarrow> Inr (x\<lparr>ex_active := aim wid iv j iid (ex_active x)\<rparr>, a))"
    using True info i16 by (cases "a > info_slotMax info") (simp_all add: give_to_slot_def Let_def)
  ultimately show ?thesis using q(3,4) a by fastforce
next
  case False
  then show ?thesis using s a by (auto simp: give_to_slot_def Let_def)
qed

subsection \<open>The loops\<close>

text \<open>An invariant of a loop over slots, with the set of the slots that have been looked at.\<close>

lemma until_settled_inv:
  assumes "\<And>j D s a. j \<in> set js \<Longrightarrow> P D s a \<Longrightarrow> a \<noteq> 0 \<Longrightarrow> \<exists>s' a'. step j s a = Inr (s', a') \<and> P (insert j D) s' a'"
    and "P D s a" "a \<noteq> 0"
  shows "\<exists>s' a' D'. until_settled step js s a = Inr (s', a') \<and> P D' s' a' \<and> (a' = 0 \<or> D' = D \<union> set js)"
  using assms
proof (induction js arbitrary: D s a)
  case (Cons j js)
  from Cons.prems(1) [OF list.set_intros(1) Cons.prems(2,3)] obtain s' a' where
    st: "step j s a = Inr (s', a')" "P (insert j D) s' a'" by blast
  show ?case
  proof (cases "a' = 0")
    case True
    then show ?thesis using st by auto
  next
    case False
    from Cons.IH [OF Cons.prems(1) [OF list.set_intros(2)] st(2) False] st(1) False show ?thesis by fastforce
  qed
qed auto

text \<open>The same without the set, for a loop that keeps \<open>settling\<close> and a bound on the amount.\<close>

lemma until_settled_settling:
  assumes "\<And>j x a. j \<in> set js \<Longrightarrow> settling wz sh iid goods told a0 x a \<Longrightarrow> R a \<Longrightarrow> a \<noteq> 0 \<Longrightarrow>
      \<exists>x' a'. step j x a = Inr (x', a') \<and> settling wz sh iid goods told a0 x' a' \<and> R a'"
    and "settling wz sh iid goods told a0 x a" "R a" "a \<noteq> 0"
  shows "\<exists>x' a'. until_settled step js x a = Inr (x', a') \<and> settling wz sh iid goods told a0 x' a' \<and> R a'"
  using until_settled_inv [where P = "\<lambda>_ x a. settling wz sh iid goods told a0 x a \<and> R a" and js = js and step = step and D = "{}"] assms
  by blast

lemma settling_slots:
  assumes "settling wz sh iid goods told a0 x a" "iv < 4"
  shows "ex_slots x iv = unat (snd sh ! iv)"
proof -
  have "iv < length (ex_invs x)" using exchange_okD(1) [OF settlingD(1) [OF assms(1)] assms(2)] .
  then show ?thesis unfolding settlingD(3) [OF assms(1), symmetric] by (simp add: ex_slots_def)
qed

lemma at_slotI: "settling wz sh iid goods told a0 x a \<Longrightarrow> category iid = iv + 2 \<Longrightarrow> iv < 4 \<Longrightarrow> j < unat (snd sh ! iv) \<Longrightarrow> at_slot wz iid iv j x"
  by (simp add: at_slot_def settling_slots)

lemma take_equips_loop:
  assumes "settling wz sh iid goods told a0 x a" "category iid = 1" "- 32768 \<le> a" "a < 0"
  shows "\<exists>x' a'. until_settled (take_equip True iid) [0..<length (ex_equips x)] x a = Inr (x', a') \<and>
    settling wz sh iid goods told a0 x' a' \<and> a' \<le> 0"
proof -
  have "\<exists>x' a'. until_settled (take_equip True iid) [0..<length (ex_equips x)] x a = Inr (x', a') \<and>
    settling wz sh iid goods told a0 x' a' \<and> (- 32768 \<le> a' \<and> a' \<le> 0)"
  proof (rule until_settled_settling [OF _ assms(1)])
    fix j y b
    assume j: "j \<in> set [0..<length (ex_equips x)]" and y: "settling wz sh iid goods told a0 y b" and b: "- 32768 \<le> b \<and> b \<le> 0" "b \<noteq> 0"
    have "j < length (ex_equips y)" using j settlingD(2) [OF y] settlingD(2) [OF assms(1)] by simp
    with take_equip_step [OF y assms(2)] b
    show "\<exists>x' a'. take_equip True iid j y b = Inr (x', a') \<and> settling wz sh iid goods told a0 x' a' \<and> (- 32768 \<le> a' \<and> a' \<le> 0)" by simp
  qed (use assms(3,4) in auto)
  then show ?thesis by blast
qed

lemma give_equips_loop:
  assumes "settling wz sh iid goods told a0 x a" "category iid = 1" "0 < a" "a \<le> 32767" "info_id info = iid"
  shows "\<exists>x' a'. until_settled (give_equip True (Some info)) [0..<length (ex_equips x)] x a = Inr (x', a') \<and>
    settling wz sh iid goods told a0 x' a' \<and> (0 \<le> a' \<and> a' \<le> 32767)"
proof (rule until_settled_settling [OF _ assms(1)])
  fix j y b
  assume j: "j \<in> set [0..<length (ex_equips x)]" and y: "settling wz sh iid goods told a0 y b" and b: "0 \<le> b \<and> b \<le> 32767" "b \<noteq> 0"
  have "j < length (ex_equips y)" using j settlingD(2) [OF y] settlingD(2) [OF assms(1)] by simp
  with give_equip_step [OF y assms(2)] b assms(5)
  show "\<exists>x' a'. give_equip True (Some info) j y b = Inr (x', a') \<and> settling wz sh iid goods told a0 x' a' \<and> (0 \<le> a' \<and> a' \<le> 32767)" by simp
qed (use assms(3,4) in auto)

lemma give_stacks_loop:
  assumes "settling wz sh iid goods told a0 x a" "category iid = iv + 2" "iv < 4" "0 < a" "a \<le> 32767"
    and "\<not> ITEM_IS_RECHARGEABLE iid" "wz iid = Some info"
  shows "\<exists>x' a'. until_settled (give_to_stack True wz iid iv) [0..<ex_slots x iv] x a = Inr (x', a') \<and>
    settling wz sh iid goods told a0 x' a' \<and> (0 \<le> a' \<and> a' \<le> 32767)"
proof (rule until_settled_settling [OF _ assms(1)])
  fix j y b
  assume j: "j \<in> set [0..<ex_slots x iv]" and y: "settling wz sh iid goods told a0 y b" and b: "0 \<le> b \<and> b \<le> 32767" "b \<noteq> 0"
  from give_to_stack_step [OF y at_slotI [OF y assms(2,3)]] j settling_slots [OF assms(1,3)] b assms(6,7)
  show "\<exists>x' a'. give_to_stack True wz iid iv j y b = Inr (x', a') \<and> settling wz sh iid goods told a0 x' a' \<and> (0 \<le> a' \<and> a' \<le> 32767)" by simp
qed (use assms(4,5) in auto)

lemma give_slots_loop:
  assumes "settling wz sh iid goods told a0 x a" "category iid = iv + 2" "iv < 4" "0 < a" "a \<le> 32767"
    and "wz iid = Some info" "0 \<le> info_slotMax info" "info_slotMax info \<le> 32767"
  shows "\<exists>x' a'. until_settled (give_to_slot True wz wid iid iv) [0..<ex_slots x iv] x a = Inr (x', a') \<and>
    settling wz sh iid goods told a0 x' a' \<and> (0 \<le> a' \<and> a' \<le> 32767)"
proof (rule until_settled_settling [OF _ assms(1)])
  fix j y b
  assume j: "j \<in> set [0..<ex_slots x iv]" and y: "settling wz sh iid goods told a0 y b" and b: "0 \<le> b \<and> b \<le> 32767" "b \<noteq> 0"
  from give_to_slot_step [OF y at_slotI [OF y assms(2,3)]] j settling_slots [OF assms(1,3)] b assms(6-8)
  show "\<exists>x' a'. give_to_slot True wz wid iid iv j y b = Inr (x', a') \<and> settling wz sh iid goods told a0 x' a' \<and> (0 \<le> a' \<and> a' \<le> 32767)" by simp
qed (use assms(4,5) in auto)

text \<open>Taking items from the stacks ends with the amount settled or with nothing left.\<close>

lemma held_nothing:
  assumes "category iid = iv + 2" "\<forall>j < ex_slots x iv. amount_of iid (ex_items x iv ! j) = 0" "ex_slots x iv \<le> length (ex_items x iv)"
  shows "holding iid (ex_equips x) (ex_invs x) = 0"
proof -
  have "map (amount_of iid) (take (ex_slots x iv) (ex_items x iv)) = map (\<lambda>_. 0) (take (ex_slots x iv) (ex_items x iv))"
    using assms(2,3) by (auto simp: in_set_conv_nth)
  then have "sum_list (map (amount_of iid) (take (ex_slots x iv) (ex_items x iv))) = 0" by (simp only: sum_list_0)
  then show ?thesis using assms(1) by (simp add: holding_def total_of_def ex_slots_def ex_items_def)
qed

lemma take_items_loop:
  assumes x: "settling wz sh iid goods told a0 x a" and c: "category iid = iv + 2" "iv < 4" and a: "- 32768 \<le> a" "a < 0"
  shows "\<exists>x' a'. until_settled (take_items True iid iv) [0..<ex_slots x iv] x a = Inr (x', a') \<and>
    settling wz sh iid goods told a0 x' a' \<and> a' \<le> 0 \<and> (a' = 0 \<or> holding iid (ex_equips x') (ex_invs x') = 0)"
proof -
  let ?n = "unat (snd sh ! iv)"
  define P where "P D y b \<longleftrightarrow> settling wz sh iid goods told a0 y b \<and> - 32768 \<le> b \<and> b \<le> 0 \<and>
    (b \<noteq> 0 \<longrightarrow> (\<forall>j \<in> D. amount_of iid (ex_items y iv ! j) = 0))" for D y b
  have n: "ex_slots x iv = ?n" by (rule settling_slots [OF x c(2)])
  have step: "\<exists>y' b'. take_items True iid iv j y b = Inr (y', b') \<and> P (insert j D) y' b'"
    if j: "j \<in> set [0..<ex_slots x iv]" and P: "P D y b" "b \<noteq> 0" for j D y b
  proof -
    have y: "settling wz sh iid goods told a0 y b" and b: "- 32768 \<le> b" "b < 0" using P by (auto simp: P_def)
    have at: "at_slot wz iid iv j y" using j n by (intro at_slotI [OF y c]) simp
    from take_items_step [OF y at b] obtain y' b' e where
      t: "take_items True iid iv j y b = Inr (y', b')" "settling wz sh iid goods told a0 y' b'" "- 32768 \<le> b'" "b' \<le> 0"
        "ex_items y' iv = (ex_items y iv)[j := e]" "b' = 0 \<or> amount_of iid e = 0" by blast
    then have "P (insert j D) y' b'" using P slot_stack_ok(2) [OF y at] by (auto simp: P_def nth_list_update)
    with t(1) show ?thesis by blast
  qed
  have "P {} x a" using x a by (simp add: P_def)
  from until_settled_inv [where P = P and js = "[0..<ex_slots x iv]" and step = "take_items True iid iv", OF step this] a(2) obtain x' a' D where
    r: "until_settled (take_items True iid iv) [0..<ex_slots x iv] x a = Inr (x', a')" "P D x' a'" "a' = 0 \<or> D = {} \<union> set [0..<ex_slots x iv]"
    by auto
  have x': "settling wz sh iid goods told a0 x' a'" "a' \<le> 0" using r(2) by (auto simp: P_def)
  have "holding iid (ex_equips x') (ex_invs x') = 0" if "a' \<noteq> 0"
    using r(2,3) that exchange_okD(3) [OF settlingD(1) [OF x'(1)] c(2)]
    by (intro held_nothing [OF c(1)]) (auto simp: P_def n settling_slots [OF x'(1) c(2)])
  then show ?thesis using r(1) x' by blast
qed

subsection \<open>The passes\<close>

lemma category_index:
  assumes "2 \<le> category iid"
  shows "unat (ucast (iid div 1000000) - 2 :: u8) = category iid - 2"
  using assms by (simp add: category_def unat_sub word_le_nat_alt)

lemma settling_start:
  assumes "exchange_ok wz x"
  shows "settling wz (shape x) iid (\<lambda>i. holding i (ex_equips x) (ex_invs x) + (if i = iid then a else 0)) (ex_mods x \<noteq> []) a x a"
  using assms by (simp add: settling_def)

lemma settling_end:
  assumes "settling wz (shape x) iid (\<lambda>i. holding i (ex_equips x) (ex_invs x) + (if i = iid then a else 0)) (ex_mods x \<noteq> []) a x' 0"
  shows "exchange_ok wz x'" "shape x' = shape x" "a \<noteq> 0 \<or> ex_mods x \<noteq> [] \<Longrightarrow> ex_mods x' \<noteq> []"
    "holding i (ex_equips x') (ex_invs x') = holding i (ex_equips x) (ex_invs x) + (if i = iid then a else 0)"
proof -
  show "exchange_ok wz x'" "shape x' = shape x" "a \<noteq> 0 \<or> ex_mods x \<noteq> [] \<Longrightarrow> ex_mods x' \<noteq> []"
    using assms by (auto simp: settling_def)
  have "holding i (ex_equips x') (ex_invs x') + (if i = iid then 0 else 0) = holding i (ex_equips x) (ex_invs x) + (if i = iid then a else 0)"
    using assms by (auto simp: settling_def)
  then show "holding i (ex_equips x') (ex_invs x') = holding i (ex_equips x) (ex_invs x) + (if i = iid then a else 0)" by simp
qed

text \<open>What a pass has done when it changes what is held by \<open>d\<close>.\<close>

definition passed :: "(u32 \<Rightarrow> item_info option) \<Rightarrow> (u32 \<Rightarrow> int) \<Rightarrow> bool \<Rightarrow> exchange \<Rightarrow> exchange \<Rightarrow> bool" where
  "passed wz d some x x' \<longleftrightarrow> exchange_ok wz x' \<and> shape x' = shape x \<and> (some \<or> ex_mods x \<noteq> [] \<longrightarrow> ex_mods x' \<noteq> []) \<and>
     (\<forall>i. holding i (ex_equips x') (ex_invs x') = holding i (ex_equips x) (ex_invs x) + d i)"

lemma passed_refl: "exchange_ok wz x \<Longrightarrow> passed wz (\<lambda>_. 0) False x x"
  by (simp add: passed_def)

lemma passed_trans:
  assumes "passed wz d b x y" "passed wz d' b' y z" and "\<And>i. d'' i = d i + d' i" "b'' \<longleftrightarrow> b \<or> b'"
  shows "passed wz d'' b'' x z"
  using assms by (auto simp: passed_def)

lemma settled_passed:
  assumes "settling wz (shape x) iid (\<lambda>i. holding i (ex_equips x) (ex_invs x) + (if i = iid then a else 0)) (ex_mods x \<noteq> []) a x' 0" "a \<noteq> 0"
  shows "passed wz (\<lambda>i. if i = iid then a else 0) True x x'"
  using settling_end [OF assms(1)] assms(2) by (auto simp: passed_def)

lemma owed_nonneg: "0 \<le> owed i rs"
  by (auto simp: owed_def intro!: sum_list_nonneg)

text \<open>Taking one item of which enough is held.\<close>

lemma take_one:
  assumes ok: "exchange_ok wz x" and r: "request_ok wz wze (iid, a)" and a: "a < 0"
    and enough: "- a \<le> holding iid (ex_equips x) (ex_invs x)"
  shows "if category iid = 1
    then \<exists>x' a'. until_settled (take_equip True iid) [0..<length (ex_equips x)] x a = Inr (x', a') \<and> a' \<le> 0 \<and>
      (a' = 0 \<longrightarrow> passed wz (\<lambda>i. if i = iid then a else 0) True x x')
    else \<exists>x'. until_settled (take_items True iid (category iid - 2)) [0..<ex_slots x (category iid - 2)] x a = Inr (x', 0) \<and>
      passed wz (\<lambda>i. if i = iid then a else 0) True x x'"
proof (cases "category iid = 1")
  case True
  from take_equips_loop [OF settling_start [OF ok] True _ a] r settled_passed a show ?thesis
    using True by (fastforce simp: request_ok_def)
next
  case False
  define iv where "iv = category iid - 2"
  have iv: "category iid = iv + 2" "iv < 4" and a': "- 32768 \<le> a" using r False by (auto simp: request_ok_def iv_def)
  from take_items_loop [OF settling_start [OF ok] iv a' a] obtain x' a' where
    t: "until_settled (take_items True iid iv) [0..<ex_slots x iv] x a = Inr (x', a')"
      "settling wz (shape x) iid (\<lambda>i. holding i (ex_equips x) (ex_invs x) + (if i = iid then a else 0)) (ex_mods x \<noteq> []) a x' a'"
      "a' \<le> 0" "a' = 0 \<or> holding iid (ex_equips x') (ex_invs x') = 0" by blast
  have "holding iid (ex_equips x') (ex_invs x') + a' = holding iid (ex_equips x) (ex_invs x) + a"
    using t(2) [unfolded settling_def, THEN conjunct2, THEN conjunct2, THEN conjunct2, rule_format, of iid] by simp
  with t(3,4) enough have "a' = 0" by auto
  with t(1,2) settled_passed [of wz x iid a x'] a iv(1) show ?thesis by auto
qed

lemma owed_Cons: "owed i ((iid, a) # rs) = (if i = iid \<and> a < 0 then - a else 0) + owed i rs"
  by (auto simp: owed_def)

lemma due_Cons: "due i ((iid, a) # rs) = (if i = iid \<and> a > 0 then a else 0) + due i rs"
  by (auto simp: due_def)

lemma passed_owed:
  assumes p: "passed wz (\<lambda>i. if i = iid then a else 0) True x x'" and a: "a < 0"
  shows "passed wz (\<lambda>i. - owed i rs) b x' x'' \<Longrightarrow> passed wz (\<lambda>i. - owed i ((iid, a) # rs)) True x x''"
    and "(\<And>i. 0 < owed i ((iid, a) # rs) \<Longrightarrow> owed i ((iid, a) # rs) \<le> holding i (ex_equips x) (ex_invs x)) \<Longrightarrow>
      0 < owed i rs \<Longrightarrow> owed i rs \<le> holding i (ex_equips x') (ex_invs x')"
proof -
  show "passed wz (\<lambda>i. - owed i ((iid, a) # rs)) True x x''" if "passed wz (\<lambda>i. - owed i rs) b x' x''"
    by (rule passed_trans [OF p that]) (use a in \<open>auto simp: owed_Cons\<close>)
  show "owed i rs \<le> holding i (ex_equips x') (ex_invs x')"
    if e: "\<And>i. 0 < owed i ((iid, a) # rs) \<Longrightarrow> owed i ((iid, a) # rs) \<le> holding i (ex_equips x) (ex_invs x)" and "0 < owed i rs"
    using p e [of i] a that(2) by (auto simp: passed_def owed_Cons split: if_split_asm)
qed

lemma take_all_ok:
  assumes "exchange_ok wz x" "\<forall>r \<in> set rs. request_ok wz wze r" "\<And>i. 0 < owed i rs \<Longrightarrow> owed i rs \<le> holding i (ex_equips x) (ex_invs x)"
  shows "take_all True rs x = Inr None \<or>
    (\<exists>x'. take_all True rs x = Inr (Some (x', map (\<lambda>(i, a). (i, max a 0)) rs)) \<and>
       passed wz (\<lambda>i. - owed i rs) (\<exists>r \<in> set rs. snd r < 0) x x')"
  using assms
proof (induction rs arbitrary: x)
  case Nil
  then show ?case by (simp add: passed_def owed_def)
next
  case (Cons r rs)
  obtain iid a where r: "r = (iid, a)" by fastforce
  show ?case
  proof (cases "a < 0")
    case False
    with Cons.IH [OF Cons.prems(1)] Cons.prems(2,3) show ?thesis
      by (auto simp: r owed_Cons Let_def max_def split: sum.split option.split)
  next
    case True
    have enough: "- a \<le> holding iid (ex_equips x) (ex_invs x)"
      using Cons.prems(3) [of iid] owed_nonneg [of iid rs] True by (simp add: r owed_Cons)
    have ok: "request_ok wz wze (iid, a)" using Cons.prems(2) by (simp add: r)
    have rest: "take_all True rs x' = Inr None \<or>
        (\<exists>x''. take_all True rs x' = Inr (Some (x'', map (\<lambda>(i, a). (i, max a 0)) rs)) \<and>
           passed wz (\<lambda>i. - owed i (r # rs)) (\<exists>r \<in> set (r # rs). snd r < 0) x x'')"
      if p: "passed wz (\<lambda>i. if i = iid then a else 0) True x x'" for x'
    proof -
      note O = passed_owed [OF p True]
      have "exchange_ok wz x'" using p by (simp add: passed_def)
      from Cons.IH [OF this _ O(2)] Cons.prems(2,3) O(1) True show ?thesis by (fastforce simp: r)
    qed
    note one = take_one [OF Cons.prems(1) ok True enough]
    show ?thesis
    proof (cases "category iid = 1")
      case eq: True
      with one obtain x' a' where "until_settled (take_equip True iid) [0..<length (ex_equips x)] x a = Inr (x', a')" "a' \<le> 0"
        "a' = 0 \<longrightarrow> passed wz (\<lambda>i. if i = iid then a else 0) True x x'" by auto
      then show ?thesis using rest [of x'] True eq by (cases "a' = 0") (auto simp: r category_def [symmetric])
    next
      case False
      then have c: "2 \<le> category iid" "category iid - 2 < length (ex_invs x)"
        using ok Cons.prems(1) by (auto simp: request_ok_def exchange_ok_def)
      from one False obtain x' where "until_settled (take_items True iid (category iid - 2)) [0..<ex_slots x (category iid - 2)] x a = Inr (x', 0)"
        "passed wz (\<lambda>i. if i = iid then a else 0) True x x'" by auto
      then show ?thesis using rest [of x'] True False c by (auto simp: r category_def [symmetric] category_index)
    qed
  qed
qed

text \<open>Giving one item, which may not fit.\<close>

lemma give_one_equip:
  assumes ok: "exchange_ok wz x" and r: "request_ok wz wze (iid, a)" and a: "0 < a" and c: "category iid = 1"
    and R: "R = (case until_settled (give_equip True (wze iid)) [0..<length (ex_equips x)] x a of
      Inl err \<Rightarrow> Inl err | Inr (x, a) \<Rightarrow> if a > 0 then Inr None else k x)"
  shows "R = Inr None \<or> (\<exists>x'. R = k x' \<and> passed wz (\<lambda>i. if i = iid then a else 0) True x x')"
proof -
  obtain info where "wze iid = Some info" "info_id info = iid" "a \<le> 32767" using r c by (auto simp: request_ok_def)
  with give_equips_loop [OF settling_start [OF ok] c a, of info] settled_passed a show ?thesis unfolding R by fastforce
qed

lemma give_one_item:
  assumes ok: "exchange_ok wz x" and r: "request_ok wz wze (iid, a)" and a: "0 < a" and c: "category iid = iv + 2"
    and R: "R = (case (if ITEM_IS_RECHARGEABLE iid then Inr (x, a) else until_settled (give_to_stack True wz iid iv) [0..<ex_slots x iv] x a) of
      Inl err \<Rightarrow> Inl err
    | Inr (x, a) \<Rightarrow> if a = 0 then k x
        else (case until_settled (give_to_slot True wz wid iid iv) [0..<ex_slots x iv] x a of
                Inl err \<Rightarrow> Inl err | Inr (x, a) \<Rightarrow> if a > 0 then Inr None else k x))"
  shows "R = Inr None \<or> (\<exists>x'. R = k x' \<and> passed wz (\<lambda>i. if i = iid then a else 0) True x x')"
proof -
  let ?S = "settling wz (shape x) iid (\<lambda>i. holding i (ex_equips x) (ex_invs x) + (if i = iid then a else 0)) (ex_mods x \<noteq> []) a"
  let ?first = "if ITEM_IS_RECHARGEABLE iid then Inr (x, a) else until_settled (give_to_stack True wz iid iv) [0..<ex_slots x iv] x a"
  obtain info where info: "wz iid = Some info" "0 \<le> info_slotMax info" "info_slotMax info \<le> 32767" and iv: "iv < 4" and a': "a \<le> 32767"
    using r c by (auto simp: request_ok_def)
  have "\<exists>x' a'. ?first = Inr (x', a') \<and> ?S x' a' \<and> 0 \<le> a' \<and> a' \<le> 32767"
    using give_stacks_loop [OF settling_start [OF ok] c iv a a' _ info(1)] settling_start [OF ok, of iid a] a a' by auto
  then obtain x' a' where x': "?first = Inr (x', a')" "?S x' a'" "0 \<le> a'" "a' \<le> 32767" by blast
  show ?thesis
  proof (cases "a' = 0")
    case True
    then show ?thesis unfolding R x'(1) using x'(2) settled_passed [of wz x iid a x'] a by auto
  next
    case False
    with x'(3) have "0 < a'" by simp
    from give_slots_loop [OF x'(2) c iv this x'(4) info, of wid] obtain x'' a'' where
      "until_settled (give_to_slot True wz wid iid iv) [0..<ex_slots x' iv] x' a' = Inr (x'', a'')" "?S x'' a''" "0 \<le> a''" by blast
    then show ?thesis unfolding R x'(1) using False settled_passed [of wz x iid a x''] a by (cases "a'' = 0") auto
  qed
qed

lemma give_all_ok:
  assumes "exchange_ok wz x" "\<forall>r \<in> set rs. request_ok wz wze r"
  shows "give_all True wz wze wid rs x = Inr None \<or>
    (\<exists>x'. give_all True wz wze wid rs x = Inr (Some x') \<and> passed wz (\<lambda>i. due i rs) (\<exists>r \<in> set rs. 0 < snd r) x x')"
  using assms
proof (induction rs arbitrary: x)
  case Nil
  then show ?case by (simp add: passed_def due_def)
next
  case (Cons r rs)
  obtain iid a where r: "r = (iid, a)" by fastforce
  have ok: "request_ok wz wze (iid, a)" using Cons.prems(2) by (simp add: r)
  show ?case
  proof (cases "0 < a")
    case False
    with Cons.IH [OF Cons.prems(1)] Cons.prems(2) show ?thesis by (auto simp: r due_Cons Let_def)
  next
    case True
    let ?G = "give_all True wz wze wid (r # rs) x"
    have some: "(\<exists>r \<in> set (r # rs). 0 < snd r) = True" using True by (simp add: r)
    have rest: "give_all True wz wze wid rs x' = Inr None \<or>
        (\<exists>x''. give_all True wz wze wid rs x' = Inr (Some x'') \<and> passed wz (\<lambda>i. due i (r # rs)) True x x'')"
      if p: "passed wz (\<lambda>i. if i = iid then a else 0) True x x'" for x'
    proof -
      have "passed wz (\<lambda>i. due i (r # rs)) True x x''" if "passed wz (\<lambda>i. due i rs) b x' x''" for b x''
        by (rule passed_trans [OF p that]) (use True in \<open>auto simp: r due_Cons\<close>)
      moreover have "exchange_ok wz x'" using p by (simp add: passed_def)
      ultimately show ?thesis using Cons.IH [of x'] Cons.prems(2) by fastforce
    qed
    have fin: ?thesis
      if "?G = Inr None \<or> (\<exists>x'. ?G = give_all True wz wze wid rs x' \<and> passed wz (\<lambda>i. if i = iid then a else 0) True x x')"
      using that
    proof (elim disjE exE conjE)
      fix x' assume G: "?G = give_all True wz wze wid rs x'" and p: "passed wz (\<lambda>i. if i = iid then a else 0) True x x'"
      show ?thesis unfolding G some by (rule rest [OF p])
    qed (rule disjI1)
    show ?thesis
    proof (cases "category iid = 1")
      case eq: True
      have "?G = Inr None \<or> (\<exists>x'. ?G = give_all True wz wze wid rs x' \<and> passed wz (\<lambda>i. if i = iid then a else 0) True x x')"
        by (rule give_one_equip [OF Cons.prems(1) ok True eq]) (use True eq in \<open>simp add: r category_def [symmetric]\<close>)
      then show ?thesis by (rule fin)
    next
      case False
      then obtain iv where c: "category iid = iv + 2" "iv < length (ex_invs x)" "unat (ucast (iid div 1000000) - 2 :: u8) = iv"
        using ok Cons.prems(1) category_index by (force simp: request_ok_def exchange_ok_def dest: le_Suc_ex)
      have "?G = Inr None \<or> (\<exists>x'. ?G = give_all True wz wze wid rs x' \<and> passed wz (\<lambda>i. if i = iid then a else 0) True x x')"
        by (rule give_one_item [OF Cons.prems(1) ok True c(1), where wid = wid]) (use True False c(2,3) in \<open>simp add: r category_def [symmetric]\<close>)
      then show ?thesis by (rule fin)
    qed
  qed
qed

subsection \<open>The whole exchange\<close>

definition requested :: "u32 \<Rightarrow> (u32 \<times> int) list \<Rightarrow> int" where
  "requested i rs = sum_list (map (\<lambda>(iid, a). if iid = i then a else 0) rs)"

definition possesses :: "u32 \<Rightarrow> character \<Rightarrow> int" where
  "possesses i chr = holding i (take (equip_slot_count chr) (eqi_items (equipmentInventory chr))) (chr_inventory chr)"

definition inventories_ok :: "(u32 \<Rightarrow> item_info option) \<Rightarrow> character \<Rightarrow> bool" where
  "inventories_ok wz chr \<longleftrightarrow> inventories_wf chr \<and> (\<forall>t \<in> set (chr_inventory chr). stacks_ok wz (inv_items t))"

lemma requested_eq: "requested i rs = due i rs - owed i rs"
  by (induction rs) (auto simp: requested_def due_def owed_def)

lemma settled_requests:
  "due i (map (\<lambda>(i, a). (i, max a 0)) rs) = due i rs"
  "\<forall>r \<in> set rs. request_ok wz wze r \<Longrightarrow> \<forall>r \<in> set (map (\<lambda>(i, a). (i, max a 0)) rs). request_ok wz wze r"
  "(\<exists>r \<in> set (map (\<lambda>(i, a). (i, max a 0)) rs). 0 < snd r) \<longleftrightarrow> (\<exists>r \<in> set rs. 0 < snd r)"
proof -
  show "(\<exists>r \<in> set (map (\<lambda>(i, a). (i, max a 0)) rs). 0 < snd r) \<longleftrightarrow> (\<exists>r \<in> set rs. 0 < snd r)" by (induction rs) auto
  show "due i (map (\<lambda>(i, a). (i, max a 0)) rs) = due i rs" by (induction rs) (auto simp: due_def)
qed (auto simp: request_ok_def max_def split: if_split_asm)

lemma exchange_of_ok: "inventories_ok wz chr \<Longrightarrow> exchange_ok wz (exchange_of n chr)"
  by (simp add: inventories_ok_def inventories_wf_def exchange_ok_def exchange_of_def)

lemma store_exchange_ok:
  assumes ok: "inventories_ok wz chr" and p: "passed wz d b (exchange_of n chr) x"
  shows "inventories_ok wz (store_exchange x chr)" "possesses i (store_exchange x chr) = possesses i chr + d i"
proof -
  have l: "length (ex_equips x) = equip_slot_count chr" "equip_slot_count chr \<le> length (eqi_items (equipmentInventory chr))"
    using p ok by (auto simp: passed_def shape_def exchange_of_def inventories_ok_def inventories_wf_def equip_slot_count_def)
  show "possesses i (store_exchange x chr) = possesses i chr + d i"
    using p l by (simp add: possesses_def store_exchange_def passed_def exchange_of_def equip_slot_count_def)
  show "inventories_ok wz (store_exchange x chr)"
    using p l ok by (auto simp: inventories_ok_def inventories_wf_def store_exchange_def passed_def exchange_ok_def)
qed

lemma send_rewards_character [simp]: "cl_character (send_rewards rs c) = cl_character c"
  unfolding send_rewards_def by (induction rs arbitrary: c) auto

subsection \<open>Properties\<close>

definition exchanged :: "(u32 \<Rightarrow> item_info option) \<Rightarrow> (u32 \<times> int) list \<Rightarrow> character \<Rightarrow> character \<Rightarrow> bool \<Rightarrow> bool" where
  "exchanged wz rs chr chr' success \<longleftrightarrow>
     (if success then inventories_ok wz chr' \<and> (\<forall>i. possesses i chr' = possesses i chr + requested i rs) else chr' = chr)"

lemma exchange_exact:
  assumes ok: "inventories_ok wz (cl_character c)" and req: "\<forall>r \<in> set rs. request_ok wz wze r"
    and pay: "\<forall>i. 0 < owed i rs \<longrightarrow> owed i rs \<le> possesses i (cl_character c)" and some: "\<exists>r \<in> set rs. snd r \<noteq> 0"
  shows "\<exists>c' success. client_gain_items True True wz wze c rs reward = Inr (c', Some success) \<and>
    exchanged wz rs (cl_character c) (cl_character c') success"
proof -
  let ?chr = "cl_character c" and ?rs = "map (\<lambda>(i, a). (i, max a 0)) rs"
  let ?x = "exchange_of (length rs) ?chr"
  have "owed i rs \<le> holding i (ex_equips ?x) (ex_invs ?x)" if "0 < owed i rs" for i
    using pay that by (simp add: possesses_def exchange_of_def)
  from take_all_ok [OF exchange_of_ok [OF ok] req this]
  consider (missing) "take_all True rs ?x = Inr None"
    | (taken) x where "take_all True rs ?x = Inr (Some (x, ?rs))" "passed wz (\<lambda>i. - owed i rs) (\<exists>r \<in> set rs. snd r < 0) ?x x" by blast
  then show ?thesis
  proof cases
    case missing
    then show ?thesis by (auto simp: client_gain_items_def exchanged_def)
  next
    case (taken x)
    have "exchange_ok wz x" using taken(2) by (simp add: passed_def)
    from give_all_ok [OF this settled_requests(2) [OF req], of "weapon_id ?chr", unfolded settled_requests(1,3)]
    consider (full) "give_all True wz wze (weapon_id ?chr) ?rs x = Inr None"
      | (given) y where "give_all True wz wze (weapon_id ?chr) ?rs x = Inr (Some y)" "passed wz (\<lambda>i. due i rs) (\<exists>r \<in> set rs. 0 < snd r) x y" by blast
    then show ?thesis
    proof cases
      case full
      then show ?thesis using taken(1) by (auto simp: client_gain_items_def exchanged_def)
    next
      case (given y)
      have p: "passed wz (\<lambda>i. requested i rs) True ?x y"
        using some by (intro passed_trans [OF taken(2) given(2)]) (auto simp: requested_eq neq_iff)
      then have "ex_mods y \<noteq> []" by (simp add: passed_def)
      then show ?thesis
        using taken(1) given(1) store_exchange_ok [OF ok p] by (auto simp: client_gain_items_def Let_def exchanged_def)
    qed
  qed
qed

text \<open>
  C4: An exchange of any number of items that the player can pay for is carried out exactly or
  not at all: the call returns, and when it reports success the player has of every item what was
  there before plus the requested amount (less, where it is negative), with every stack within its
  limit; otherwise the character is unchanged.
\<close>

theorem exchange_is_exact:
  assumes ok: "inventories_ok wz (cl_character c)" and req: "\<forall>r \<in> set rs. request_ok wz wze r"
    and pay: "\<forall>i. 0 < owed i rs \<longrightarrow> owed i rs \<le> possesses i (cl_character c)" and some: "\<exists>r \<in> set rs. snd r \<noteq> 0"
  shows "\<exists>c' success. client_gain_items True True wz wze c rs reward = Inr (c', Some success) \<and>
    exchanged wz rs (cl_character c) (cl_character c') success"
  using exchange_exact [OF assms] .

lemma stocked_possesses: "possesses 2000000 (cl_character stocked) = 120"
proof -
  have "category 2000000 = 2" by (simp add: category_def)
  moreover have "unat (inv_slotCount (chr_inventory (cl_character stocked) ! 0)) = 24"
    by (simp add: stocked_def armed_def set_item_slot_def)
  moreover have "take 24 (tab (cl_character stocked) 0) = potions 60 # potions 60 # replicate 22 \<lparr>ie_isEmpty = True, ie_item = blank_item\<rparr>"
    by (simp add: stocked_tab)
  ultimately show ?thesis by (simp add: possesses_def holding_def tab_def total_of_def amount_of_def sum_list_replicate)
qed

lemma stocked_inventories_ok: "inventories_ok potion_table (cl_character stocked)"
proof -
  have "set (chr_inventory (cl_character stocked)) \<subseteq>
      insert (chr_inventory (cl_character stocked) ! 0) (set (chr_inventory (cl_character armed)))"
    by (simp add: stocked_def armed_def set_item_slot_def) (rule order_trans [OF set_update_subset_insert], simp)
  moreover have "stacks_ok potion_table (inv_items t)" if "t \<in> set (chr_inventory (cl_character armed))" for t
    using that by (simp add: armed_def stacks_ok_def stack_ok_def)
  ultimately show ?thesis using stocked_ok by (auto simp: inventories_ok_def tab_def)
qed

theorem exchange_is_exact_witness:
  "\<exists>c' success. client_gain_items True True potion_table (\<lambda>_. None) stocked [(2000000, - 70), (2000000, 90)] True = Inr (c', Some success) \<and>
     exchanged potion_table [(2000000, - 70), (2000000, 90)] (cl_character stocked) (cl_character c') success"
proof (rule exchange_is_exact [OF stocked_inventories_ok])
  show "\<forall>i. 0 < owed i [(2000000, - 70), (2000000, 90)] \<longrightarrow> owed i [(2000000, - 70), (2000000, 90)] \<le> possesses i (cl_character stocked)"
    using stocked_possesses by (simp add: owed_def)
qed (simp_all add: request_ok_def category_def potion_table_def potion_info_def)

text \<open>
  What is missing of anything but equipment is not noticed: an item that no slot holds is not taken,
  the pass goes on and the exchange is not refused.
\<close>

lemma until_settled_idle: "(\<And>j. j \<in> set js \<Longrightarrow> step j s a = Inr (s, a)) \<Longrightarrow> until_settled step js s a = Inr (s, a)"
  by (induction js) auto

theorem missing_payment_ignored:
  assumes "2 \<le> category iid" "category iid - 2 < length (ex_invs x)" and "a < 0"
    and "\<forall>j < ex_slots x (category iid - 2). ie_isEmpty (ex_items x (category iid - 2) ! j) \<or> entry_id (ex_items x (category iid - 2) ! j) \<noteq> iid"
    and "take_all mem rs x = Inr (Some (x', rs'))"
  shows "take_all mem ((iid, a) # rs) x = Inr (Some (x', (iid, a) # rs'))"
proof -
  have "until_settled (take_items mem iid (category iid - 2)) [0..<ex_slots x (category iid - 2)] x a = Inr (x, a)"
    using assms(4) by (intro until_settled_idle) (auto simp: take_items_def Let_def)
  then show ?thesis using assms by (simp add: category_def [symmetric] category_index)
qed

end
