(* ===== verification/Perfect_Table.thy ===== *)
theory Perfect_Table
  imports Prelude "HOL-Library.Multiset"
begin

text \<open>
  Tables that are looked up through a minimal perfect hash function (\<^verbatim>\<open>src/src/channel/drops.c\<close>,
  \<^verbatim>\<open>shop.c\<close> and \<^verbatim>\<open>src/src/wz.c\<close>). The library cmph computes the function from the keys of an array;
  the program then permutes the array in place until every entry is where the function says, and a
  lookup compares the key of that one entry.

  The function that \<open>cmph_new\<close> builds from a list of keys is the argument \<open>mph\<close>. The code relies on
  what the library documents: distinct keys get distinct numbers below the number of keys, and any
  key at all gets such a number (\<open>minimal_perfect\<close>). An access outside the array is \<open>Bad_index\<close>; the
  loop that permutes the array may fail to end, which is \<open>None\<close>.
\<close>

datatype table_error = Bad_index

definition minimal_perfect :: "('k list \<Rightarrow> 'k \<Rightarrow> nat) \<Rightarrow> bool" where
  "minimal_perfect mph \<longleftrightarrow>
     (\<forall>ks. ks \<noteq> [] \<and> distinct ks \<longrightarrow> inj_on (mph ks) (set ks) \<and> (\<forall>k. mph ks k < length ks))"

partial_function (option) settle :: "('k \<Rightarrow> nat) \<Rightarrow> ('a \<Rightarrow> 'k) \<Rightarrow> nat \<Rightarrow> 'a list \<Rightarrow> (table_error + 'a list) option" where
  "settle search key i ns =
     (if i < length ns
      then let j = search (key (ns ! i))
           in if i \<noteq> j
              then if j < length ns then settle search key i (ns[j := ns ! i, i := ns ! j]) else Some (Inl Bad_index)
              else settle search key (i + 1) ns
      else Some (Inr ns))"

definition table_load :: "('k list \<Rightarrow> 'k \<Rightarrow> nat) \<Rightarrow> ('a \<Rightarrow> 'k) \<Rightarrow> 'a list \<Rightarrow> (table_error + ('k \<Rightarrow> nat) \<times> 'a list) option" where
  "table_load mph key ns =
     (let search = mph (map key ns)
      in case settle search key 0 ns of
           None \<Rightarrow> None
         | Some (Inl err) \<Rightarrow> Some (Inl err)
         | Some (Inr ns) \<Rightarrow> Some (Inr (search, ns)))"

definition table_find :: "('a \<Rightarrow> 'k) \<Rightarrow> ('k \<Rightarrow> nat) \<times> 'a list \<Rightarrow> 'k \<Rightarrow> table_error + 'a option" where
  "table_find key t k =
     (case t of (search, ns) \<Rightarrow>
        if search k < length ns then Inr (if key (ns ! search k) \<noteq> k then None else Some (ns ! search k)) else Inl Bad_index)"

subsection \<open>The permutation ends\<close>

definition misplaced :: "('k \<Rightarrow> nat) \<Rightarrow> ('a \<Rightarrow> 'k) \<Rightarrow> 'a list \<Rightarrow> nat" where
  "misplaced search key ns = card {k. k < length ns \<and> search (key (ns ! k)) \<noteq> k}"

definition placeable :: "('k \<Rightarrow> nat) \<Rightarrow> ('a \<Rightarrow> 'k) \<Rightarrow> 'a list \<Rightarrow> bool" where
  "placeable search key ns \<longleftrightarrow> distinct (map (search \<circ> key) ns) \<and> (\<forall>n \<in> set ns. search (key n) < length ns)"

lemma placeable_mset:
  assumes "mset ms = mset ns"
  shows "placeable search key ms = placeable search key ns"
proof -
  have "mset (map (search \<circ> key) ms) = mset (map (search \<circ> key) ns)" using assms by (metis mset_map)
  from mset_eq_imp_distinct_iff [OF this] show ?thesis
    using mset_eq_setD [OF assms] mset_eq_length [OF assms] by (simp add: placeable_def)
qed

lemma swap_misplaced:
  assumes p: "placeable search key ns" and i: "i < length ns" and j: "j = search (key (ns ! i))" "i \<noteq> j"
  shows "j < length ns" "misplaced search key (ns[j := ns ! i, i := ns ! j]) < misplaced search key ns"
proof -
  show jl: "j < length ns" using p i j(1) nth_mem [OF i] by (simp add: placeable_def)
  let ?ms = "ns[j := ns ! i, i := ns ! j]"
  have "search (key (ns ! j)) \<noteq> search (key (ns ! i))"
    using p i jl j(2) nth_eq_iff_index_eq [of "map (search \<circ> key) ns" j i] by (simp add: placeable_def)
  then have bad: "search (key (ns ! j)) \<noteq> j" using j(1) by simp
  have "{k. k < length ?ms \<and> search (key (?ms ! k)) \<noteq> k} \<subseteq> {k. k < length ns \<and> search (key (ns ! k)) \<noteq> k} - {j}"
    using i jl j bad by (auto simp: nth_list_update split: if_split_asm)
  then have "misplaced search key ?ms \<le> card ({k. k < length ns \<and> search (key (ns ! k)) \<noteq> k} - {j})"
    unfolding misplaced_def by (intro card_mono) auto
  also have "\<dots> < misplaced search key ns"
    unfolding misplaced_def using bad jl by (intro card_Diff1_less) auto
  finally show "misplaced search key ?ms < misplaced search key ns" .
qed

lemma settle_ok:
  assumes "placeable search key ns" and "\<forall>k < i. k < length ns \<longrightarrow> search (key (ns ! k)) = k"
  shows "\<exists>ns'. settle search key i ns = Some (Inr ns') \<and> mset ns' = mset ns \<and>
    (\<forall>k < length ns'. search (key (ns' ! k)) = k)"
  using assms
proof (induction "(misplaced search key ns, length ns - i)" arbitrary: i ns rule: wf_induct_rule [OF wf_lex_prod [OF wf_less wf_less]])
  case 1
  note p = 1(2) and settled = 1(3)
  show ?case
  proof (cases "i < length ns")
    case False
    then show ?thesis using settled by (subst settle.simps) auto
  next
    case True
    show ?thesis
    proof (cases "i = search (key (ns ! i))")
      case eq: True
      have "\<forall>k < i + 1. k < length ns \<longrightarrow> search (key (ns ! k)) = k" using settled eq by (auto simp: less_Suc_eq)
      then show ?thesis
        using 1(1) [of ns "i + 1"] p True eq by (subst settle.simps) (auto simp: Let_def)
    next
      case ne: False
      let ?j = "search (key (ns ! i))"
      let ?ms = "ns[?j := ns ! i, i := ns ! ?j]"
      note S = swap_misplaced [OF p True refl ne]
      have ms: "mset ?ms = mset ns" using mset_swap [OF True S(1)] ne by (simp add: list_update_swap)
      have "search (key (?ms ! k)) = k" if k: "k < i" "k < length ?ms" for k
      proof -
        have "k \<noteq> i" "search (key (ns ! k)) = k" using k settled by auto
        moreover have "k \<noteq> ?j"
          using p True k calculation nth_eq_iff_index_eq [of "map (search \<circ> key) ns" k i] by (auto simp: placeable_def)
        ultimately show ?thesis using k by simp
      qed
      moreover have "placeable search key ?ms" using p by (simp only: placeable_mset [OF ms])
      ultimately obtain ns' where "settle search key i ?ms = Some (Inr ns')" "mset ns' = mset ?ms"
        "\<forall>k < length ns'. search (key (ns' ! k)) = k"
        using 1(1) [of ?ms i] S(2) by auto
      then show ?thesis using True ne S(1) ms by (subst settle.simps) (simp add: Let_def)
    qed
  qed
qed

subsection \<open>Lookup\<close>

definition table_map :: "('a \<Rightarrow> 'k) \<Rightarrow> 'a list \<Rightarrow> 'k \<Rightarrow> 'a option" where
  "table_map key ns = map_of (map (\<lambda>n. (key n, n)) ns)"

lemma table_find_settled:
  assumes "distinct (map key ns)" and "mset ns' = mset ns" and "\<forall>k < length ns'. search (key (ns' ! k)) = k" and "search k < length ns'"
  shows "table_find key (search, ns') k = Inr (table_map key ns k)"
proof -
  have d: "distinct (map fst (map (\<lambda>n. (key n, n)) ns))" using assms(1) by (simp add: comp_def)
  have s: "set ns' = set ns" using assms(2) by (rule mset_eq_setD)
  show ?thesis
  proof (cases "key (ns' ! search k) = k")
    case True
    then have "(k, ns' ! search k) \<in> set (map (\<lambda>n. (key n, n)) ns)" using s nth_mem [OF assms(4)] by force
    then have "table_map key ns k = Some (ns' ! search k)" using d by (simp add: table_map_def)
    then show ?thesis using True assms(4) by (simp add: table_find_def)
  next
    case False
    have "key n \<noteq> k" if "n \<in> set ns" for n
    proof
      assume "key n = k"
      from that obtain l where "l < length ns'" "ns' ! l = n" by (auto simp: s [symmetric] in_set_conv_nth)
      with assms(3) \<open>key n = k\<close> have "search k = l" by auto
      with False \<open>ns' ! l = n\<close> \<open>key n = k\<close> show False by simp
    qed
    then have "k \<notin> key ` set ns" by blast
    then have "table_map key ns k = None" by (simp add: table_map_def map_of_eq_None_iff image_image)
    then show ?thesis using False assms(4) by (simp add: table_find_def)
  qed
qed

lemma table_load_ok:
  assumes "minimal_perfect mph" and "ns \<noteq> []" and "distinct (map key ns)"
  shows "\<exists>t. table_load mph key ns = Some (Inr t) \<and> (\<forall>k. table_find key t k = Inr (table_map key ns k))"
proof -
  let ?s = "mph (map key ns)"
  have m: "inj_on ?s (key ` set ns)" "\<And>k. ?s k < length ns"
    using assms unfolding minimal_perfect_def by (metis list.map_disc_iff list.set_map, metis length_map list.map_disc_iff)
  have "placeable ?s key ns"
    using m assms(3) by (auto simp: placeable_def distinct_map comp_inj_on)
  from settle_ok [OF this, of 0] obtain ns' where s: "settle ?s key 0 ns = Some (Inr ns')" "mset ns' = mset ns"
    "\<forall>k < length ns'. ?s (key (ns' ! k)) = k" by auto
  have "length ns' = length ns" using s(2) by (rule mset_eq_length)
  then show ?thesis
    using s(1) table_find_settled [OF assms(3) s(2,3)] m(2) by (simp add: table_load_def Let_def)
qed

end
