(* ===== verification/Game_Data.thy ===== *)
theory Game_Data
  imports Perfect_Table Packets
begin

text \<open>
  The tables of the game world: what monsters and reactors drop (\<^verbatim>\<open>src/src/channel/drops.c\<close>), what
  shops sell (\<^verbatim>\<open>src/src/channel/shop.c\<close>), and the lookups of \<^verbatim>\<open>src/src/wz.c\<close> in the data of the
  game client. The result of a database request is an argument, \<open>None\<close> if the request failed; the
  files of the game client are parsed by a library and the resulting arrays are arguments.
\<close>

subsection \<open>Drops\<close>

record drop_info =
  di_itemId :: u32
  di_min :: int
  di_max :: int
  di_isQuest :: bool
  di_questId :: "u16 option" \<comment> \<open>not initialised for ordinary items\<close>
  di_chance :: int

record drop_info_node =
  din_id :: u32
  din_drops :: "drop_info list"

record item_drop =
  idr_itemId :: u32
  idr_chance :: int

record quest_item_drop =
  qdr_itemId :: u32
  qdr_questId :: u16
  qdr_chance :: int

record meso_drop =
  mdr_min :: int
  mdr_max :: int
  mdr_chance :: int

record multi_item_drop =
  mud_id :: u32
  mud_min :: int
  mud_max :: int
  mud_chance :: int

record monster_drops =
  md_id :: u32
  md_itemDrops :: "item_drop list"
  md_questItemDrops :: "quest_item_drop list"
  md_mesoDrop :: meso_drop
  md_multiItemDrops :: "multi_item_drop list"

record reactor_drops =
  rd_id :: u32
  rd_itemDrops :: "item_drop list"
  rd_questItemDrops :: "quest_item_drop list"

definition item_drop_info :: "item_drop \<Rightarrow> drop_info" where
  "item_drop_info d = \<lparr>di_itemId = idr_itemId d, di_min = 1, di_max = 1, di_isQuest = False, di_questId = None, di_chance = idr_chance d\<rparr>"

definition quest_item_drop_info :: "quest_item_drop \<Rightarrow> drop_info" where
  "quest_item_drop_info d =
     \<lparr>di_itemId = qdr_itemId d, di_min = 1, di_max = 1, di_isQuest = True, di_questId = Some (qdr_questId d), di_chance = qdr_chance d\<rparr>"

definition meso_drop_info :: "meso_drop \<Rightarrow> drop_info list" where
  "meso_drop_info d =
     (if mdr_max d \<noteq> 0
      then [\<lparr>di_itemId = 0, di_min = mdr_min d, di_max = mdr_max d, di_isQuest = False, di_questId = None, di_chance = mdr_chance d\<rparr>]
      else [])"

definition multi_item_drop_info :: "multi_item_drop \<Rightarrow> drop_info" where
  "multi_item_drop_info d =
     \<lparr>di_itemId = mud_id d, di_min = mud_min d, di_max = mud_max d, di_isQuest = False, di_questId = None, di_chance = mud_chance d\<rparr>"

definition monster_node :: "monster_drops \<Rightarrow> drop_info_node" where
  "monster_node m =
     \<lparr>din_id = md_id m,
      din_drops = map item_drop_info (md_itemDrops m) @ map quest_item_drop_info (md_questItemDrops m) @
        meso_drop_info (md_mesoDrop m) @ map multi_item_drop_info (md_multiItemDrops m)\<rparr>"

definition reactor_node :: "reactor_drops \<Rightarrow> drop_info_node" where
  "reactor_node r =
     \<lparr>din_id = rd_id r, din_drops = map item_drop_info (rd_itemDrops r) @ map quest_item_drop_info (rd_questItemDrops r)\<rparr>"

type_synonym 'a info_table = "(u32 \<Rightarrow> nat) \<times> 'a list"

text \<open>The global arrays with their hash functions; \<open>None\<close> before they are loaded.\<close>

record drop_tables =
  DROP_INFOS :: "drop_info_node info_table option"
  REACTOR_DROP_INFOS :: "drop_info_node info_table option"

definition drops_load_from_db ::
  "(u32 list \<Rightarrow> u32 \<Rightarrow> nat) \<Rightarrow> monster_drops list option \<Rightarrow> reactor_drops list option \<Rightarrow> drop_tables \<Rightarrow>
   (table_error + drop_tables \<times> int) option" where
  "drops_load_from_db mph monsters reactors g =
     (case monsters of
        None \<Rightarrow> Some (Inr (g, - 1))
      | Some ms \<Rightarrow>
          (case table_load mph din_id (map monster_node ms) of
             None \<Rightarrow> None
           | Some (Inl err) \<Rightarrow> Some (Inl err)
           | Some (Inr t) \<Rightarrow>
               let g = g\<lparr>DROP_INFOS := Some t\<rparr>
               in case reactors of
                    None \<Rightarrow> Some (Inr (g, - 1))
                  | Some rs \<Rightarrow>
                      (case table_load mph din_id (map reactor_node rs) of
                         None \<Rightarrow> None
                       | Some (Inl err) \<Rightarrow> Some (Inl err)
                       | Some (Inr t) \<Rightarrow> Some (Inr (g\<lparr>REACTOR_DROP_INFOS := Some t\<rparr>, 0)))))"

definition find_drops :: "drop_info_node info_table option \<Rightarrow> u32 \<Rightarrow> table_error + drop_info list option" where
  "find_drops t iid =
     (case t of
        None \<Rightarrow> Inl Bad_index
      | Some t \<Rightarrow> (case table_find din_id t iid of Inl err \<Rightarrow> Inl err | Inr n \<Rightarrow> Inr (map_option din_drops n)))"

definition drop_info_find :: "drop_tables \<Rightarrow> u32 \<Rightarrow> table_error + drop_info list option" where
  "drop_info_find g iid = find_drops (DROP_INFOS g) iid"

definition reactor_drop_info_find :: "drop_tables \<Rightarrow> u32 \<Rightarrow> table_error + drop_info list option" where
  "reactor_drop_info_find g iid = find_drops (REACTOR_DROP_INFOS g) iid"

definition drops_unload :: "drop_tables \<Rightarrow> drop_tables" where
  "drops_unload g = \<lparr>DROP_INFOS = None, REACTOR_DROP_INFOS = None\<rparr>"

subsection \<open>Shops\<close>

record shop_item_info =
  sii_id :: u32
  sii_price :: int

record shop_info_node =
  sin_id :: u32
  sin_items :: "shop_item_info list"

text \<open>\<open>mem i\<close> says whether the allocation for the \<open>i\<close>-th shop succeeds.\<close>

definition shops_load_from_db ::
  "(u32 list \<Rightarrow> u32 \<Rightarrow> nat) \<Rightarrow> (nat \<Rightarrow> bool) \<Rightarrow> shop_info_node list option \<Rightarrow> (table_error + shop_info_node info_table option \<times> int) option" where
  "shops_load_from_db mph mem shops =
     (case shops of
        None \<Rightarrow> Some (Inr (None, - 1))
      | Some ss \<Rightarrow>
          if list_all mem [0..<length ss]
          then (case table_load mph sin_id ss of
                  None \<Rightarrow> None
                | Some (Inl err) \<Rightarrow> Some (Inl err)
                | Some (Inr t) \<Rightarrow> Some (Inr (Some t, 0)))
          else Some (Inr (None, - 1)))"

definition shop_info_find :: "shop_info_node info_table option \<Rightarrow> u32 \<Rightarrow> table_error + shop_item_info list option" where
  "shop_info_find t iid =
     (case t of
        None \<Rightarrow> Inl Bad_index
      | Some t \<Rightarrow> (case table_find sin_id t iid of Inl err \<Rightarrow> Inl err | Inr n \<Rightarrow> Inr (map_option sin_items n)))"

definition shops_unload :: "shop_info_node info_table option \<Rightarrow> shop_info_node info_table option" where
  "shops_unload t = None"

subsection \<open>Data of the game client\<close>

text \<open>A string of a fixed-size array up to its terminator is a list of bytes. \<open>portal_info\<close> and
  \<open>map_info\<close> have the members that the lookups use.\<close>

record portal_info =
  pi_id :: u8
  pi_name :: bytes
  pi_x :: int
  pi_y :: int
  pi_targetMap :: u32
  pi_targetName :: bytes
  pi_script :: bytes

record map_info =
  mi_id :: u32
  mi_returnMap :: u32
  mi_forcedReturn :: u32
  mi_onUserEnter :: bytes
  mi_seats :: u16
  mi_portals :: "portal_info list"

datatype wz_error = Index | Uninitialised

definition map_at :: "map_info info_table \<Rightarrow> u32 \<Rightarrow> wz_error + map_info" where
  "map_at t mid = (case t of (search, ns) \<Rightarrow> if search mid < length ns then Inr (ns ! search mid) else Inl Index)"

definition wz_get_map :: "map_info info_table \<Rightarrow> u32 \<Rightarrow> table_error + map_info option" where
  "wz_get_map t mid = table_find mi_id t mid"

text \<open>These do not compare the id.\<close>

definition wz_get_map_nearest_town :: "map_info info_table \<Rightarrow> u32 \<Rightarrow> wz_error + u32" where
  "wz_get_map_nearest_town t mid = map_sum id mi_returnMap (map_at t mid)"

definition wz_get_map_forced_return :: "map_info info_table \<Rightarrow> u32 \<Rightarrow> wz_error + u32" where
  "wz_get_map_forced_return t mid = map_sum id (\<lambda>m. if mi_forcedReturn m \<noteq> - 1 then mi_forcedReturn m else mid) (map_at t mid)"

definition wz_get_map_enter_script :: "map_info info_table \<Rightarrow> u32 \<Rightarrow> wz_error + bytes option" where
  "wz_get_map_enter_script t mid = map_sum id (\<lambda>m. if mi_onUserEnter m = [] then None else Some (mi_onUserEnter m)) (map_at t mid)"

definition wz_get_map_seat_count :: "map_info info_table \<Rightarrow> u32 \<Rightarrow> wz_error + u16" where
  "wz_get_map_seat_count t mid = map_sum id mi_seats (map_at t mid)"

definition wz_get_target_map :: "map_info info_table \<Rightarrow> u32 \<Rightarrow> bytes \<Rightarrow> wz_error + u32" where
  "wz_get_target_map t mid target =
     map_sum id (\<lambda>m. case find (\<lambda>p. pi_name p = target) (mi_portals m) of None \<Rightarrow> - 1 | Some p \<Rightarrow> pi_targetMap p) (map_at t mid)"

text \<open>The first loop does not stop at a match, so that the last one counts; without a match the
  variables are not initialised.\<close>

definition wz_get_target_portal :: "map_info info_table \<Rightarrow> u32 \<Rightarrow> bytes \<Rightarrow> wz_error + u8" where
  "wz_get_target_portal t mid target =
     (case map_at t mid of
        Inl err \<Rightarrow> Inl err
      | Inr m \<Rightarrow>
          (case filter (\<lambda>p. pi_name p = target) (mi_portals m) of
             [] \<Rightarrow> Inl Uninitialised
           | ps \<Rightarrow>
               let p = last ps
               in case map_at t (pi_targetMap p) of
                    Inl err \<Rightarrow> Inl err
                  | Inr m' \<Rightarrow>
                      Inr (case find (\<lambda>j. pi_name (mi_portals m' ! j) = pi_targetName p) [0..<length (mi_portals m')] of
                             None \<Rightarrow> - 1 | Some j \<Rightarrow> of_nat j)))"

definition wz_get_portal_info_by_name :: "map_info info_table \<Rightarrow> u32 \<Rightarrow> bytes \<Rightarrow> table_error + portal_info option" where
  "wz_get_portal_info_by_name t mid name =
     map_sum id (\<lambda>m. Option.bind m (\<lambda>m. find (\<lambda>p. pi_name p = name) (mi_portals m))) (table_find mi_id t mid)"

definition wz_get_portal_info :: "map_info info_table \<Rightarrow> u32 \<Rightarrow> u8 \<Rightarrow> table_error + portal_info option" where
  "wz_get_portal_info t mid pid =
     map_sum id (\<lambda>m. Option.bind m (\<lambda>m. if unat pid \<ge> length (mi_portals m) then None else Some (mi_portals m ! unat pid)))
       (table_find mi_id t mid)"

definition wz_get_item_info :: "item_info info_table \<Rightarrow> u32 \<Rightarrow> table_error + item_info option" where
  "wz_get_item_info t iid = table_find info_itemId t iid"

definition wz_get_equip_info :: "equip_info info_table \<Rightarrow> u32 \<Rightarrow> table_error + equip_info option" where
  "wz_get_equip_info t iid = table_find info_id t iid"

subsection \<open>Properties\<close>

lemma find_drops_ok:
  assumes "minimal_perfect mph" "ns \<noteq> []" "distinct (map din_id ns)"
  shows "\<exists>t. table_load mph din_id ns = Some (Inr t) \<and> (\<forall>k. find_drops (Some t) k = Inr (map_of (map (\<lambda>n. (din_id n, din_drops n)) ns) k))"
proof -
  have "map_option din_drops (table_map din_id ns k) = map_of (map (\<lambda>n. (din_id n, din_drops n)) ns) k" for k
    unfolding table_map_def by (induction ns) auto
  then show ?thesis using table_load_ok [OF assms] by (auto simp: find_drops_def)
qed


text \<open>A minimal perfect hash function: the position in the list of keys, zero for other keys.\<close>

fun position :: "'k list \<Rightarrow> 'k \<Rightarrow> nat" where
  "position [] k = 0"
| "position (x # xs) k = (if x = k \<or> k \<notin> set xs then 0 else Suc (position xs k))"

lemma position_ok: "k \<in> set ks \<Longrightarrow> position ks k < length ks \<and> ks ! position ks k = k"
  by (induction ks) auto

lemma position_minimal_perfect: "minimal_perfect (position :: 'k list \<Rightarrow> 'k \<Rightarrow> nat)"
proof -
  have "position ks k < length ks" if "ks \<noteq> []" for ks :: "'k list" and k
    using that position_ok [of k ks] by (cases "k \<in> set ks"; cases ks) auto
  moreover have "inj_on (position ks) (set ks)" for ks :: "'k list"
  proof (rule inj_onI)
    fix x y
    assume x: "x \<in> set ks" and y: "y \<in> set ks" and eq: "position ks x = position ks y"
    have "x = ks ! position ks x" by (rule sym, rule conjunct2 [OF position_ok [OF x]])
    also have "\<dots> = y" unfolding eq using position_ok [OF y] by (rule conjunct2)
    finally show "x = y" .
  qed
  ultimately show ?thesis by (simp add: minimal_perfect_def)
qed


end
