(* ===== verification/Shops.thy ===== *)
theory Shops
  imports Exchange Game_Data "HOL-Library.Log_Nat"
begin

text \<open>
  Trading with a shop (\<open>client_open_shop\<close> to \<open>client_is_in_shop\<close> of
  \<^verbatim>\<open>src/src/channel/client.c\<close>). The shops themselves are the table of \<^verbatim>\<open>src/src/channel/shop.c\<close>
  (\<open>shop_info_find\<close>), an argument here as are the item data.
\<close>

subsection \<open>Prices in floating point\<close>

text \<open>
  The price of a unit of a rechargeable item is a \<open>double\<close>, given by its 64 bits; it is multiplied
  by a number of units. \<open>double_times n d\<close> is the product truncated to an integer: the exact
  product of the integers involved, rounded to 53 bits (ties to even), then scaled. \<open>None\<close> for
  infinities and what is not a number.
\<close>

definition double_exponent :: "u64 \<Rightarrow> nat" where
  "double_exponent d = unat (drop_bit 52 d) mod 2 ^ 11"

definition double_mantissa :: "u64 \<Rightarrow> int" where
  "double_mantissa d = (if double_exponent d = 0 then 0 else 2 ^ 52) + uint d mod 2 ^ 52"

definition round_even :: "nat \<Rightarrow> int \<Rightarrow> int" where
  "round_even k p =
     (let q = p div 2 ^ k; r = 2 * (p mod 2 ^ k)
      in if r > 2 ^ k \<or> r = 2 ^ k \<and> odd q then q + 1 else q)"

definition double_times :: "int \<Rightarrow> u64 \<Rightarrow> int option" where
  "double_times n d =
     (let p = n * double_mantissa d; k = nat (bitlen p - 53); q = round_even k p;
          e = int (max 1 (double_exponent d)) + int k - 1075;
          v = (if e \<ge> 0 then q * 2 ^ nat e else q div 2 ^ nat (- e))
      in if double_exponent d = 2047 then None
         else Some (if uint d < 2 ^ 63 then v else - v))"

subsection \<open>Operations\<close>

text \<open>\<open>enum ClientResultType\<close>; the reason of a ban is only shown to the player.\<close>

datatype client_result = Ban | Error | Success | Next

text \<open>Arithmetic that is undefined in C, a null pointer that is followed, and the errors of the operations
  that are called.\<close>

datatype shop_error = Shop_lookup table_error | Null_shop | Null_item | Overflow | Inventory cerror

definition no_shop :: u32 where
  "no_shop = - 1"

definition client_open_shop ::
  "shop_info_node info_table option \<Rightarrow> (u32 \<Rightarrow> item_info option) \<Rightarrow> client \<Rightarrow> u32 \<Rightarrow> shop_error + client \<times> client_result" where
  "client_open_shop shops wz c sid =
     (if cl_shop c = no_shop
      then let c = c\<lparr>cl_shop := sid\<rparr>
           in case shop_info_find shops sid of
                Inl err \<Rightarrow> Inl (Shop_lookup err)
              | Inr None \<Rightarrow> Inr (c, Ban)
              | Inr (Some items) \<Rightarrow>
                  Inr (send To_session (Open_shop wz sid (map (\<lambda>i. \<lparr>shop_id = sii_id i, shop_price = sii_price i\<rparr>) items)) c, Success)
      else Inr (c, Success))"

text \<open>The payment that ends a trade.\<close>

definition settle_trade :: "int \<Rightarrow> client \<Rightarrow> shop_error + client" where
  "settle_trade n c =
     (if \<not> in_i32 n then Inl Overflow
      else case client_gain_meso c n False False of
             None \<Rightarrow> Inl Overflow
           | Some c \<Rightarrow> Inr (client_commit_stats c))"

definition client_buy ::
  "bool \<Rightarrow> bool \<Rightarrow> (u32 \<Rightarrow> item_info option) \<Rightarrow> (u32 \<Rightarrow> equip_info option) \<Rightarrow> shop_info_node info_table option \<Rightarrow>
   client \<Rightarrow> u16 \<Rightarrow> u32 \<Rightarrow> int \<Rightarrow> int \<Rightarrow> shop_error + client \<times> client_result" where
  "client_buy mem remem wz wze shops c pos iid qty price =
     (if cl_shop c = no_shop then Inr (c, Ban)
      else case shop_info_find shops (cl_shop c) of
             Inl err \<Rightarrow> Inl (Shop_lookup err)
           | Inr None \<Rightarrow> Inl Null_shop
           | Inr (Some items) \<Rightarrow>
               if unat pos \<ge> length items then Inr (c, Ban)
               else if sii_id (items ! unat pos) \<noteq> iid then Inr (c, Ban)
               else if qty \<le> 0 then Inr (c, Ban)
               else if sii_id (items ! unat pos) div 1000000 = 1 \<and> qty > 1 then Inr (c, Ban)
               else if sii_price (items ! unat pos) \<noteq> price then Inr (c, Ban)
               else if chr_mesos (cl_character c) < price then Inr (send To_session (Shop_action_response 2) c, Success)
               else case client_gain_items mem remem wz wze c [(iid, qty)] False of
                      Inl err \<Rightarrow> Inl (Inventory err)
                    | Inr (c, None) \<Rightarrow> Inr (c, Error)
                    | Inr (c, Some success) \<Rightarrow>
                        (case settle_trade (- price) c of
                           Inl err \<Rightarrow> Inl err
                         | Inr c \<Rightarrow>
                             if \<not> success then Inr (c, Ban)
                             else Inr (send To_session (Shop_action_response 0) c, Success)))"

text \<open>The slot number is passed on as a \<open>uint8_t\<close>. The inner results: \<open>None\<close> where the removal
  returns \<open>false\<close>, otherwise whether it delivered the item that was named.\<close>

definition take_sold ::
  "(bytes \<Rightarrow> u64) \<Rightarrow> bool \<Rightarrow> (u32 \<Rightarrow> item_info option) \<Rightarrow> client \<Rightarrow> u16 \<Rightarrow> u32 \<Rightarrow> int \<Rightarrow> shop_error + client \<times> bool option" where
  "take_sold xxh3 mem wz c pos iid qty =
     (let iv = ucast (iid div 1000000) :: u8
      in if iv = 1
         then if qty > 1 then Inr (c, Some False)
              else (case client_remove_equip c False (ucast pos) of
                      (c, None) \<Rightarrow> Inr (c, None)
                    | (c, Some (True, Some e)) \<Rightarrow> Inr (c, Some (itemId (eq_item e) = iid))
                    | (c, Some _) \<Rightarrow> Inr (c, Some False))
         else (case client_remove_item xxh3 mem wz c iv (ucast pos) qty of
                 Inl err \<Rightarrow> Inl (Inventory err)
               | Inr (c, None) \<Rightarrow> Inr (c, None)
               | Inr (c, Some (True, Some it)) \<Rightarrow> Inr (c, Some (itemId (ii_item it) = iid))
               | Inr (c, Some _) \<Rightarrow> Inr (c, Some False)))"

definition client_sell ::
  "(bytes \<Rightarrow> u64) \<Rightarrow> bool \<Rightarrow> (u32 \<Rightarrow> item_info option) \<Rightarrow> client \<Rightarrow> u16 \<Rightarrow> u32 \<Rightarrow> int \<Rightarrow> shop_error + client \<times> client_result" where
  "client_sell xxh3 mem wz c pos iid qty =
     (if qty \<le> 0 then Inr (c, Ban)
      else case wz iid of
             None \<Rightarrow> Inr (c, Ban)
           | Some info \<Rightarrow>
               (case take_sold xxh3 mem wz c pos iid qty of
                  Inl err \<Rightarrow> Inl err
                | Inr (c, None) \<Rightarrow> Inr (c, Error)
                | Inr (c, Some False) \<Rightarrow> Inr (c, Ban)
                | Inr (c, Some True) \<Rightarrow>
                    (case settle_trade (info_price info * qty) c of
                       Inl err \<Rightarrow> Inl err
                     | Inr c \<Rightarrow> Inr (send To_session (Shop_action_response 8) c, Success))))"

text \<open>The number of units missing is an \<open>int\<close>; the conversion of the price to \<open>int32_t\<close> is undefined
  beyond its range.\<close>

definition recharge_price :: "item_info \<Rightarrow> int \<Rightarrow> int option" where
  "recharge_price info have =
     (case double_times (info_slotMax info - have) (info_unitPrice info) of
        None \<Rightarrow> None
      | Some p \<Rightarrow> if in_i32 p then Some p else None)"

definition recharged_projectile :: "nat \<Rightarrow> character \<Rightarrow> character" where
  "recharged_projectile slot chr =
     (if slot < unat (activeProjectile chr) \<and>
         (weapon_id chr div 10000 = 147 \<and> ITEM_IS_THROWING_STAR (entry_id (item_slot chr 0 slot)) \<or>
          weapon_id chr div 10000 = 149 \<and> ITEM_IS_BULLET (entry_id (item_slot chr 0 slot)))
      then chr\<lparr>activeProjectile := of_nat slot\<rparr> else chr)"

definition client_recharge :: "(u32 \<Rightarrow> item_info option) \<Rightarrow> client \<Rightarrow> u16 \<Rightarrow> shop_error + client \<times> client_result" where
  "client_recharge wz c pos =
     (let chr = cl_character c; slot = unat (pos - 1); e = item_slot chr 0 slot
      in if slot \<ge> slot_count chr 0 then Inr (c, Ban)
         else if ie_isEmpty e then Inr (c, Ban)
         else if \<not> ITEM_IS_RECHARGEABLE (entry_id e) then Inr (c, Ban)
         else case wz (entry_id e) of
                None \<Rightarrow> Inl Null_item
              | Some info \<Rightarrow>
                  if entry_quantity e \<ge> info_slotMax info then Inr (c, Ban)
                  else case recharge_price info (entry_quantity e) of
                         None \<Rightarrow> Inl Overflow
                       | Some price \<Rightarrow>
                           if price > chr_mesos chr then Inr (send To_session (Shop_action_response 2) c, Success)
                           else let chr = recharged_projectile slot (set_item_slot 0 slot (with_quantity (info_slotMax info) e) chr);
                                    c = send_mods [mod_modify 2 (int slot + 1) (info_slotMax info)] (c\<lparr>cl_character := chr\<rparr>)
                                in case settle_trade (- price) c of
                                     Inl err \<Rightarrow> Inl err
                                   | Inr c \<Rightarrow> Inr (send To_session (Shop_action_response 8) c, Success))"

definition client_close_shop :: "client \<Rightarrow> client \<times> bool" where
  "client_close_shop c = (if cl_shop c = no_shop then (c, False) else (c\<lparr>cl_shop := no_shop\<rparr>, True))"

definition client_is_in_shop :: "client \<Rightarrow> bool" where
  "client_is_in_shop c \<longleftrightarrow> cl_shop c \<noteq> no_shop"

subsection \<open>Payments\<close>

lemma commit_stats_character [simp]: "cl_character (client_commit_stats c) = cl_character c"
  by (simp add: client_commit_stats_def Let_def)

lemma settle_trade_ok:
  assumes "0 \<le> chr_mesos (cl_character c)" "chr_mesos (cl_character c) \<le> 2147483647" "in_i32 n" "0 \<le> chr_mesos (cl_character c) + n"
  shows "\<exists>c'. settle_trade n c = Inr c' \<and>
    cl_character c' = (cl_character c)\<lparr>chr_mesos := min 2147483647 (chr_mesos (cl_character c) + n)\<rparr>"
  using assms by (auto simp: settle_trade_def client_gain_meso_def Let_def character_set_meso_def)

lemma settle_payment:
  assumes "0 \<le> p" "p \<le> chr_mesos (cl_character c)" "chr_mesos (cl_character c) \<le> 2147483647"
  shows "\<exists>c'. settle_trade (- p) c = Inr c' \<and> cl_character c' = (cl_character c)\<lparr>chr_mesos := chr_mesos (cl_character c) - p\<rparr>"
proof -
  have "min 2147483647 (chr_mesos (cl_character c) + - p) = chr_mesos (cl_character c) - p" using assms by simp
  with settle_trade_ok [of c "- p"] assms show ?thesis by auto
qed

lemma mesos_elsewhere [simp]:
  "possesses i (chr\<lparr>chr_mesos := m\<rparr>) = possesses i chr" "inventories_ok wz (chr\<lparr>chr_mesos := m\<rparr>) = inventories_ok wz chr"
  "tab (chr\<lparr>chr_mesos := m\<rparr>) iv = tab chr iv" "item_slot (chr\<lparr>chr_mesos := m\<rparr>) iv j = item_slot chr iv j"
  by (simp_all add: possesses_def equip_slot_count_def inventories_ok_def inventories_wf_def tab_def item_slot_def)

lemma send_batches_mesos: "chr_mesos (cl_character (send_batches n mods c)) = chr_mesos (cl_character c)"
  by simp

lemma gain_items_mesos:
  "client_gain_items mem remem wz wze c rs reward = Inr (c', s) \<Longrightarrow> chr_mesos (cl_character c') = chr_mesos (cl_character c)"
  by (auto simp: client_gain_items_def Let_def store_exchange_def split: if_splits sum.splits option.splits)

lemma projectile_mesos [simp]:
  "chr_mesos (set_item_slot iv j e chr) = chr_mesos chr" "chr_mesos (reset_projectile j chr) = chr_mesos chr"
  by (simp_all add: set_item_slot_def reset_projectile_def)

lemma want_again_mesos: "want_again xxh3 mem info iid chr = Inr chr' \<Longrightarrow> chr_mesos chr' = chr_mesos chr"
  by (auto simp: want_again_def split: if_splits option.splits)

lemma remove_item_mesos:
  assumes "client_remove_item xxh3 mem wz c iv pos n = Inr (c', r)"
  shows "chr_mesos (cl_character c') = chr_mesos (cl_character c)"
  using assms
  by (auto simp: client_remove_item_def Let_def send_mods_def dest!: want_again_mesos
      split: if_splits sum.splits option.splits prod.splits)

lemma recharged_same: "same_items chr (recharged_projectile j chr)"
  by (simp add: recharged_projectile_def same_items_projectile same_items_refl)

text \<open>A product that a \<open>double\<close> can represent is exact.\<close>

definition double_value :: "u64 \<Rightarrow> real" where
  "double_value d = of_int (double_mantissa d) * 2 powr (real (max 1 (double_exponent d)) - 1075)"

lemma floor_scale: "\<lfloor>of_int p * 2 powr of_int e :: real\<rfloor> = (if e \<ge> 0 then p * 2 ^ nat e else p div 2 ^ nat (- e))"
proof (cases "e \<ge> 0")
  case True
  then have "of_int p * 2 powr of_int e = (of_int (p * 2 ^ nat e) :: real)" by (simp add: powr_real_of_int)
  then show ?thesis using True by (simp only: floor_of_int if_True)
next
  case False
  then have "of_int p * 2 powr of_int e = (of_int p / of_int (2 ^ nat (- e)) :: real)"
    by (simp add: powr_real_of_int divide_inverse)
  then show ?thesis using False by (simp only: floor_divide_of_int_eq if_False)
qed

lemma double_times_exact:
  assumes "2 ^ nat (bitlen (n * double_mantissa d) - 53) dvd n * double_mantissa d" and "uint d < 2 ^ 63" "double_exponent d \<noteq> 2047"
  shows "double_times n d = Some \<lfloor>of_int n * double_value d\<rfloor>"
proof -
  let ?p = "n * double_mantissa d" and ?k = "nat (bitlen (n * double_mantissa d) - 53)"
  let ?q = "?p div 2 ^ ?k" and ?e = "int (max 1 (double_exponent d)) + int ?k - 1075"
  have r: "round_even ?k ?p = ?q" using assms(1) by (auto simp: round_even_def Let_def)
  have "of_int n * double_value d = of_int (?q * 2 ^ ?k) * 2 powr (real (max 1 (double_exponent d)) - 1075)"
    using assms(1) by (simp add: double_value_def)
  also have "\<dots> = of_int ?q * 2 powr of_int ?e"
    by (simp add: powr_add [symmetric] powr_realpow [symmetric] algebra_simps del: powr_realpow)
  finally have "\<lfloor>of_int n * double_value d\<rfloor> = (if ?e \<ge> 0 then ?q * 2 ^ nat ?e else ?q div 2 ^ nat (- ?e))"
    by (simp only: floor_scale)
  then show ?thesis using assms(2,3) by (simp only: double_times_def Let_def r if_True if_False)
qed

lemma delivered_quantity:
  assumes "client_remove_item xxh3 mem wz c iv pos n = Inr (c', Some (True, Some it))" and "\<not> ITEM_IS_RECHARGEABLE (itemId (ii_item it))"
  shows "quantity it = n"
  using assms
  by (auto simp: client_remove_item_def take_from_def Let_def entry_id_def split: if_splits sum.splits option.splits prod.splits)

subsection \<open>Properties\<close>

text \<open>A player with some potions and mesos at a shop that sells potions.\<close>

definition customer :: client where
  "customer = stocked\<lparr>cl_shop := 7, cl_character := (cl_character stocked)\<lparr>chr_mesos := 500\<rparr>\<rparr>"

definition potion_shop :: "shop_info_node info_table" where
  "potion_shop = (\<lambda>_. 0, [\<lparr>sin_id = 7, sin_items = [\<lparr>sii_id = 2000000, sii_price = 50\<rparr>]\<rparr>])"

lemma customer_simps [simp]:
  "cl_shop customer = 7" "chr_mesos (cl_character customer) = 500" "tab (cl_character customer) iv = tab (cl_character stocked) iv"
  "itemQuests (cl_character customer) = itemQuests (cl_character stocked)"
  "inventories_wf (cl_character customer) = inventories_wf (cl_character stocked)"
  "inventories_ok wz (cl_character customer) = inventories_ok wz (cl_character stocked)"
  "possesses i (cl_character customer) = possesses i (cl_character stocked)"
  by (simp_all add: customer_def) (simp add: inventories_wf_def)

text \<open>
  C25: A purchase at an open shop of a listed item at its listed price is answered, and the price is
  paid once, whatever the quantity. When it succeeds the player has exactly the quantity more of
  the item and of everything else what was there before; when there was no room for it the price is
  paid all the same, and the player is banned.
\<close>

theorem purchase_costs_price_once:
  assumes "cl_shop c \<noteq> no_shop" and "shop_info_find shops (cl_shop c) = Inr (Some items)"
    and "unat pos < length items" and "items ! unat pos = \<lparr>sii_id = iid, sii_price = price\<rparr>"
    and "0 < qty" and "iid div 1000000 = 1 \<longrightarrow> qty = 1" and "request_ok wz wze (iid, qty)"
    and "0 \<le> price" and "price \<le> chr_mesos (cl_character c)" and "chr_mesos (cl_character c) \<le> 2147483647"
    and "inventories_ok wz (cl_character c)"
  shows "\<exists>c' r. client_buy True True wz wze shops c pos iid qty price = Inr (c', r) \<and>
    chr_mesos (cl_character c') = chr_mesos (cl_character c) - price \<and> inventories_ok wz (cl_character c') \<and>
    (\<forall>i. possesses i (cl_character c') = possesses i (cl_character c) + (if r = Success \<and> i = iid then qty else 0)) \<and>
    (r = Success \<or> r = Ban)"
proof -
  have "owed i [(iid, qty)] = 0" for i using assms(5) by (simp add: owed_def)
  then obtain d s where d: "client_gain_items True True wz wze c [(iid, qty)] False = Inr (d, Some s)"
    and ex: "exchanged wz [(iid, qty)] (cl_character c) (cl_character d) s"
    using exchange_exact [OF assms(11), of "[(iid, qty)]" wze False] assms(5,7) by auto
  have m: "chr_mesos (cl_character d) = chr_mesos (cl_character c)" by (rule gain_items_mesos [OF d])
  obtain c' where c': "settle_trade (- price) d = Inr c'"
    "cl_character c' = (cl_character d)\<lparr>chr_mesos := chr_mesos (cl_character c) - price\<rparr>"
    using settle_payment [of price d] assms(8-10) m by auto
  have "client_buy True True wz wze shops c pos iid qty price =
      Inr (if s then (send To_session (Shop_action_response 0) c', Success) else (c', Ban))"
    using assms(1-6,9) d c'(1) by (auto simp: client_buy_def)
  moreover have "inventories_ok wz (cl_character d)" using ex assms(11) by (simp add: exchanged_def split: if_splits)
  ultimately show ?thesis using ex c'(2) by (auto simp: exchanged_def requested_def split: if_splits)
qed

theorem purchase_costs_price_once_witness:
  "\<exists>c' r. client_buy True True potion_table (\<lambda>_. None) (Some potion_shop) customer 0 2000000 10 50 = Inr (c', r) \<and>
     chr_mesos (cl_character c') = 450 \<and> (r = Success \<longrightarrow> possesses 2000000 (cl_character c') = 130)"
proof -
  have "shop_info_find (Some potion_shop) 7 = Inr (Some [\<lparr>sii_id = 2000000, sii_price = 50\<rparr>])"
    by (simp add: shop_info_find_def potion_shop_def table_find_def)
  moreover have "request_ok potion_table (\<lambda>_. None) (2000000, 10)"
    by (simp add: request_ok_def category_def potion_table_def potion_info_def)
  ultimately show ?thesis
    using purchase_costs_price_once [of customer "Some potion_shop" "[\<lparr>sii_id = 2000000, sii_price = 50\<rparr>]" 0 2000000 50 10 potion_table "\<lambda>_. None"]
      stocked_inventories_ok stocked_possesses by (force simp: no_shop_def)
qed


lemma stocked_quests: "hash_set_inv (hash_u32 (\<lambda>_. 0)) id (itemQuests (cl_character stocked))"
proof -
  have "itemQuests (cl_character stocked) = itemQuests beginner" by (simp add: stocked_def armed_def)
  then show ?thesis by (simp add: beginner_def hash_set_inv_def table_ok_def)
qed


text \<open>
  Recharging a stack of stars or bullets that the player can afford fills it to the limit of its
  kind and costs the missing units at the unit price, computed in floating point and truncated; no
  other slot changes.
\<close>

theorem recharge_fills_and_charges:
  assumes "inventories_wf (cl_character c)" and "unat (pos - 1) < slot_count (cl_character c) 0"
    and "item_slot (cl_character c) 0 (unat (pos - 1)) = e" and "\<not> ie_isEmpty e" and "ITEM_IS_RECHARGEABLE (entry_id e)"
    and "wz (entry_id e) = Some info" and "entry_quantity e < info_slotMax info" and "info_slotMax info \<le> 32767"
    and "recharge_price info (entry_quantity e) = Some price" and "- 32768 \<le> info_slotMax info"
    and "0 \<le> price" and "price \<le> chr_mesos (cl_character c)" and "chr_mesos (cl_character c) \<le> 2147483647"
  shows "\<exists>c'. client_recharge wz c pos = Inr (c', Success) \<and>
    chr_mesos (cl_character c') = chr_mesos (cl_character c) - price \<and>
    entry_quantity (item_slot (cl_character c') 0 (unat (pos - 1))) = info_slotMax info \<and>
    (\<forall>j. j \<noteq> unat (pos - 1) \<longrightarrow> item_slot (cl_character c') 0 j = item_slot (cl_character c) 0 j)"
proof -
  let ?i = "unat (pos - 1)" and ?chr = "cl_character c"
  let ?chr' = "recharged_projectile ?i (set_item_slot 0 ?i (with_quantity (info_slotMax info) e) ?chr)"
  define d where "d = send_mods [mod_modify 2 (int ?i + 1) (info_slotMax info)] (c\<lparr>cl_character := ?chr'\<rparr>)"
  have len: "?i < length (tab ?chr 0)" "0 < length (chr_inventory ?chr)"
    using tab_length [OF assms(1) _ assms(2)] assms(1) by (auto simp: inventories_wf_def)
  have slot: "item_slot ?chr' 0 j = (if j = ?i then with_quantity (info_slotMax info) e else item_slot ?chr 0 j)" for j
    using len by (simp add: item_slot_tab same_itemsD(1) [OF recharged_same] set_item_slot_tab)
  have d: "cl_character d = ?chr'" "chr_mesos ?chr' = chr_mesos ?chr"
    by (simp_all add: d_def send_mods_def recharged_projectile_def)
  obtain c' where c': "settle_trade (- price) d = Inr c'" "cl_character c' = ?chr'\<lparr>chr_mesos := chr_mesos ?chr - price\<rparr>"
    using settle_payment [of price d] assms(11-13) unfolding d by blast
  have "client_recharge wz c pos = Inr (send To_session (Shop_action_response 8) c', Success)"
    using assms c'(1) by (simp add: client_recharge_def Let_def d_def)
  moreover have "entry_quantity (with_quantity (info_slotMax info) e) = info_slotMax info"
    using assms(8,10) by (simp add: with_quantity_def entry_quantity_def to_i16_id)
  ultimately show ?thesis using c'(2) by (simp add: slot)
qed

text \<open>Stars of which up to 500 fit into a slot, at half a meso each.\<close>

definition star_info :: item_info where
  "star_info = potion_info\<lparr>info_itemId := 2070000, info_slotMax := 500, info_unitPrice := 0x3FE0000000000000\<rparr>"

definition star_stack :: item_entry where
  "star_stack = (potions 99)\<lparr>ie_item := \<lparr>ii_item = (ii_item (ie_item (potions 99)))\<lparr>itemId := 2070000\<rparr>, quantity = 99\<rparr>\<rparr>"

definition thrower :: client where
  "thrower = customer\<lparr>cl_character := set_item_slot 0 0 star_stack (cl_character customer)\<rparr>"

lemma star_price: "recharge_price star_info 99 = Some 200"
proof -
  have "bitlen 1805943450575568896 = (61 :: int)"
    using bitlen_le_iff_power [of 1805943450575568896 61] bitlen_le_iff_power [of 1805943450575568896 60] by simp
  then show ?thesis
    by (simp add: recharge_price_def double_times_def star_info_def double_mantissa_def double_exponent_def Let_def round_even_def)
qed

theorem recharge_fills_and_charges_witness:
  "\<exists>c'. client_recharge (\<lambda>_. Some star_info) thrower 1 = Inr (c', Success) \<and> chr_mesos (cl_character c') = 300 \<and>
     entry_quantity (item_slot (cl_character c') 0 0) = 500"
proof -
  have l: "0 < length (chr_inventory (cl_character customer))" "0 < length (tab (cl_character customer) 0)"
    using stocked_ok(1) by (simp_all add: customer_def inventories_wf_def stocked_tab)
  have "inventories_wf (cl_character thrower)" "item_slot (cl_character thrower) 0 0 = star_stack"
    using stocked_ok(1) l by (simp_all add: thrower_def set_item_slot_wf item_slot_tab set_item_slot_tab)
  moreover have "slot_count (cl_character thrower) 0 = 24"
    by (simp add: thrower_def customer_def stocked_def armed_def set_item_slot_def slot_count_def)
  moreover have "\<not> ie_isEmpty star_stack" "entry_id star_stack = 2070000" "entry_quantity star_stack = 99"
    "ITEM_IS_RECHARGEABLE 2070000" "info_slotMax star_info = 500" "chr_mesos (cl_character thrower) = 500"
    by (simp_all add: star_stack_def potions_def entry_id_def entry_quantity_def ITEM_IS_RECHARGEABLE_def ITEM_IS_THROWING_STAR_def
        star_info_def thrower_def)
  ultimately show ?thesis
    using recharge_fills_and_charges [of thrower 1 star_stack "\<lambda>_. Some star_info" star_info 200] star_price by force
qed

end
