(* ===== verification/Set_Elements.thy ===== *)
theory Set_Elements
  imports Keyed_Set
begin

text \<open>
  Elements of a hash set that are changed in place: through the pointer that \<open>get\<close> returns, or one after the
  other by \<open>foreach\<close>. The rule \<open>foreach_rule\<close> is the invariant of the loop over all elements.
\<close>

subsection \<open>One element\<close>

text \<open>An element is changed through the pointer to it.\<close>

definition modify_element :: "('d \<Rightarrow> 'k) \<Rightarrow> 'k \<Rightarrow> ('d \<Rightarrow> 'd) \<Rightarrow> 'd hash_set \<Rightarrow> 'd hash_set" where
  "modify_element key k f hs = fst (hash_set_foreach_keep (\<lambda>d c. (if key d = k then f d else d, c)) hs ())"

lemma foreach_slots_update: "length sts = length ds \<Longrightarrow> elems sts (fst (foreach_slots (\<lambda>d c. (g d, c)) sts ds c)) = map g (elems sts ds)"
proof (induction sts ds arbitrary: c rule: list_induct2)
  case (Cons st sts x ds)
  then show ?case by (cases st; cases x) (simp_all add: case_prod_unfold)
qed simp

lemma modify_element_ok:
  assumes inv: "hash_set_inv hash key hs" and f: "\<And>d. key (f d) = key d"
  shows "hash_set_inv hash key (modify_element key k f hs)"
    and "hash_set_map key (modify_element key k f hs) = (hash_set_map key hs)(k := map_option f (hash_set_map key hs k))"
proof -
  let ?g = "\<lambda>d. if key d = k then f d else d"
  show "hash_set_inv hash key (modify_element key k f hs)"
    unfolding modify_element_def by (rule hash_set_foreach_ok(1) [OF inv]) (simp add: f)
  have e: "elems (states (modify_element key k f hs)) (data (modify_element key k f hs)) = map ?g (elems (states hs) (data hs))"
    using inv foreach_slots_update [of "states hs" "data hs" ?g "()"]
    by (simp add: modify_element_def hash_set_foreach_keep_def case_prod_unfold hash_set_inv_def table_ok_def)
  have "map_of (map (\<lambda>d. (key d, d)) (map ?g ds)) = (map_of (map (\<lambda>d. (key d, d)) ds))(k := map_option f (map_of (map (\<lambda>d. (key d, d)) ds) k))" for ds
    by (induction ds) (auto simp: f)
  then show "hash_set_map key (modify_element key k f hs) = (hash_set_map key hs)(k := map_option f (hash_set_map key hs k))"
    unfolding hash_set_map_def e .
qed

subsection \<open>All elements\<close>

fun foreach_list :: "('d \<Rightarrow> 'c \<Rightarrow> 'd \<times> 'c) \<Rightarrow> 'd list \<Rightarrow> 'c \<Rightarrow> 'd list \<times> 'c" where
  "foreach_list f [] c = ([], c)"
| "foreach_list f (d # ds) c = (case f d c of (d, c) \<Rightarrow> case foreach_list f ds c of (ds, c) \<Rightarrow> (d # ds, c))"

lemma foreach_slots_list:
  "length sts = length ds \<Longrightarrow>
   elems sts (fst (foreach_slots f sts ds c)) = fst (foreach_list f (elems sts ds) c) \<and>
   snd (foreach_slots f sts ds c) = snd (foreach_list f (elems sts ds) c)"
proof (induction sts ds arbitrary: c rule: list_induct2)
  case (Cons st sts x ds)
  show ?case
  proof (cases "st = Occupied \<and> x \<noteq> None")
    case True
    then obtain d where "st = Occupied" "x = Some d" by auto
    with Cons.IH show ?thesis by (simp add: case_prod_unfold)
  next
    case False
    then have "foreach_slots f (st # sts) (x # ds) c = (case foreach_slots f sts ds c of (ds, c) \<Rightarrow> (x # ds, c))"
      by (cases st; cases x) simp_all
    moreover have "elems (st # sts) (x # ys) = elems sts ys" for ys
      using False by (auto split: option.splits)
    ultimately show ?thesis using Cons.IH [of c] by (simp del: elems_simps add: case_prod_unfold)
  qed
qed simp

abbreviation map_by :: "('d \<Rightarrow> 'k) \<Rightarrow> 'd list \<Rightarrow> 'k \<Rightarrow> 'd option" where
  "map_by key ds \<equiv> map_of (map (\<lambda>d. (key d, d)) ds)"

lemma map_by_update:
  assumes "key d' = key d" and "key d \<notin> key ` set ys"
  shows "map_by key (ys @ d' # ds) = (map_by key (ys @ d # ds))(key d \<mapsto> d')"
proof -
  have "map_by key ys (key d) = None" using assms(2) by (induction ys) auto
  then show ?thesis using assms(1) by (auto simp: map_add_def fun_eq_iff split: option.split)
qed

text \<open>An invariant \<open>P\<close> of the keys already visited, the current content and the context.\<close>

lemma foreach_list_rule:
  assumes "distinct (map key (ys @ ds))" and "P (key ` set ys) (map_by key (ys @ ds)) c"
    and key: "\<And>d c. key (fst (f d c)) = key d"
    and step: "\<And>V m d c. key d \<notin> V \<Longrightarrow> m (key d) = Some d \<Longrightarrow> d \<in> set ds \<Longrightarrow> P V m c \<Longrightarrow>
      P (insert (key d) V) (m(key d \<mapsto> fst (f d c))) (snd (f d c))"
  shows "P (key ` set (ys @ ds)) (map_by key (ys @ fst (foreach_list f ds c))) (snd (foreach_list f ds c))"
  using assms(1,2) step
proof (induction ds arbitrary: ys c)
  case (Cons d ds)
  obtain d' c' where f: "f d c = (d', c')" by fastforce
  have d': "key d' = key d" using key [of d c] f by simp
  have new: "key d \<notin> key ` set ys" using Cons.prems(1) by auto
  have at: "map_by key (ys @ d # ds) (key d) = Some d"
  proof -
    have "map_by key ys (key d) = None" using new by (induction ys) auto
    then show ?thesis by (simp add: map_add_def)
  qed
  have "P (insert (key d) (key ` set ys)) ((map_by key (ys @ d # ds))(key d \<mapsto> fst (f d c))) (snd (f d c))"
    by (rule Cons.prems(3) [OF new at _ Cons.prems(2)]) simp
  then have "P (insert (key d) (key ` set ys)) (map_by key (ys @ d' # ds)) c'"
    unfolding map_by_update [OF d' new] f fst_conv snd_conv .
  then have "P (key ` set (ys @ [d'])) (map_by key ((ys @ [d']) @ ds)) c'" using d' by simp
  moreover have "distinct (map key ((ys @ [d']) @ ds))" using Cons.prems(1) d' by simp
  ultimately have "P (key ` set ((ys @ [d']) @ ds)) (map_by key ((ys @ [d']) @ fst (foreach_list f ds c'))) (snd (foreach_list f ds c'))"
    using Cons.prems(3) by (intro Cons.IH) auto
  then show ?case using f d' by (simp add: case_prod_unfold)
qed simp

lemma foreach_rule:
  assumes inv: "hash_set_inv hash key hs" and key: "\<And>d c. key (fst (f d c)) = key d"
    and P: "P {} (hash_set_map key hs) c"
    and step: "\<And>V m d c. key d \<notin> V \<Longrightarrow> m (key d) = Some d \<Longrightarrow> hash_set_map key hs (key d) = Some d \<Longrightarrow> P V m c \<Longrightarrow>
      P (insert (key d) V) (m(key d \<mapsto> fst (f d c))) (snd (f d c))"
    and e: "hash_set_foreach_keep f hs c = (hs', c')"
  shows "hash_set_inv hash key hs' \<and> P (dom (hash_set_map key hs)) (hash_set_map key hs') c'"
proof -
  let ?ds = "elems (states hs) (data hs)"
  have len: "length (states hs) = length (data hs)" and dist: "distinct (map key ?ds)"
    using inv by (simp_all add: hash_set_inv_def table_ok_def)
  have mem: "hash_set_map key hs (key d) = Some d" if "d \<in> set ?ds" for d
    using that dist by (simp add: hash_set_map_def map_of_eq_Some_iff comp_def)
  have r: "P (key ` set ([] @ ?ds)) (map_by key ([] @ fst (foreach_list f ?ds c))) (snd (foreach_list f ?ds c))"
    by (rule foreach_list_rule [where P = P and key = key]) (use dist P step mem key in \<open>simp_all add: hash_set_map_def\<close>)
  have "elems (states hs') (data hs') = fst (foreach_list f ?ds c)" "c' = snd (foreach_list f ?ds c)"
    using e foreach_slots_list [OF len, of f c] by (auto simp: hash_set_foreach_keep_def split: prod.splits)
  then have "P (dom (hash_set_map key hs)) (hash_set_map key hs') c'"
    using r by (simp add: hash_set_map_def dom_map_of_conv_image_fst image_image)
  then show ?thesis using hash_set_foreach_ok(1) [OF inv, of f c] key e by simp
qed

end
