(* ===== verification/Quests.thy ===== *)
theory Quests
  imports Shops Set_Elements
begin

text \<open>
  Quests (\<^verbatim>\<open>src/src/channel/client.c\<close>: \<open>check_quest_requirements\<close>, \<open>start_quest\<close>, \<open>end_quest\<close>, the requests of
  the player that lead to them, \<open>client_forfeit_quest\<close>, \<open>client_kill_monster\<close>). The descriptions of
  quests, items and monsters that \<^verbatim>\<open>src/src/wz.c\<close> reads are arguments. What depends on the outside
  is in a record \<open>surroundings\<close>.

  A started quest counts the monsters it asks for in its \<open>progress\<close>; \<open>monsterQuests\<close> has for every kind of
  monster the number of counters that wait for it.
\<close>

subsection \<open>Descriptions\<close>

datatype quest_state = Not_started | Started | Completed

text \<open>The requirements that no function looks at are \<open>Needs_other\<close>.\<close>

datatype requirement =
    Needs_npc u32
  | Needs_quest u16 quest_state
  | Needs_job "u16 list"
  | Needs_completed int
  | Needs_meso int
  | Needs_min_level u8
  | Needs_max_level u8
  | Needs_mobs "(u32 \<times> int) list"
  | Needs_item u32 int
  | Needs_info u16 "bytes list"
  | Needs_other

record quest_item_action =
  qia_id :: u32
  qia_count :: int
  qia_prop :: int

record quest_skill_action =
  qsa_id :: u32
  qsa_level :: int
  qsa_masterLevel :: int
  qsa_jobs :: "u16 list"

datatype quest_act =
    Act_meso int
  | Act_exp int
  | Act_items "quest_item_action list"
  | Act_next_quest u16
  | Act_skills "quest_skill_action list"
  | Act_other

record quest_info =
  qd_startRequirements :: "requirement list"
  qd_endRequirements :: "requirement list"
  qd_startScript :: bool
  qd_endScript :: bool
  qd_startActs :: "quest_act list"
  qd_endActs :: "quest_act list"

subsection \<open>Surroundings and errors\<close>

text \<open>Which allocation succeeds: of an element of the set of monsters, of quests or of others, of the notifications
  of an exchange (\<open>malloc\<close> and \<open>realloc\<close>), of a smaller table.\<close>

datatype allocation = For_monster | For_quest | For_element | For_mods | For_more_mods | For_table

text \<open>\<open>sr_rand i\<close> are the results of \<open>rand\<close> during the \<open>i\<close>-th act.\<close>

record surroundings =
  sr_hash :: "bytes \<Rightarrow> u64"
  sr_mem :: "allocation \<Rightarrow> bool"
  sr_quest :: "u16 \<Rightarrow> quest_info option"
  sr_item :: "u32 \<Rightarrow> item_info option"
  sr_equip :: "u32 \<Rightarrow> equip_info option"
  sr_mob_exp :: "u32 \<Rightarrow> int option"
  sr_rand :: "nat \<Rightarrow> nat \<Rightarrow> int"
  sr_time :: int
  sr_gmtoff :: "int \<Rightarrow> int"

datatype quest_error =
    Null_pointer | Outside_array | Endless_lookup | Undefined_arithmetic | Progress_text werror
  | Items_error cerror | Exp_error gain_error

definition endless :: "'a option \<Rightarrow> quest_error + 'a" where
  "endless r = (case r of None \<Rightarrow> Inl Endless_lookup | Some x \<Rightarrow> Inr x)"

text \<open>The sets of a character.\<close>

definition get_quest :: "surroundings \<Rightarrow> character \<Rightarrow> u16 \<Rightarrow> quest_error + quest option" where
  "get_quest sr chr qid = endless (hash_set_u16_get (sr_hash sr) q_id (quests chr) qid)"

definition get_completed :: "surroundings \<Rightarrow> character \<Rightarrow> u16 \<Rightarrow> quest_error + completed_quest option" where
  "get_completed sr chr qid = endless (hash_set_u16_get (sr_hash sr) cq_id (completedQuests chr) qid)"

definition get_info :: "surroundings \<Rightarrow> character \<Rightarrow> u16 \<Rightarrow> quest_error + quest_info_progress option" where
  "get_info sr chr n = endless (hash_set_u16_get (sr_hash sr) qi_id (questInfos chr) n)"

definition client_is_quest_started :: "surroundings \<Rightarrow> client \<Rightarrow> u16 \<Rightarrow> quest_error + bool" where
  "client_is_quest_started sr c qid = map_sum id (\<lambda>q. q \<noteq> None) (get_quest sr (cl_character c) qid)"

definition client_is_quest_complete :: "surroundings \<Rightarrow> client \<Rightarrow> u16 \<Rightarrow> quest_error + bool" where
  "client_is_quest_complete sr c qid = map_sum id (\<lambda>q. q \<noteq> None) (get_completed sr (cl_character c) qid)"

subsection \<open>Requirements\<close>

text \<open>The values of the enumeration, by which the inventories other than that for equipment are indexed.\<close>

definition inventory_number :: "inventory_type \<Rightarrow> nat" where
  "inventory_number t =
     (case t of INVENTORY_TYPE_EQUIP \<Rightarrow> 0 | INVENTORY_TYPE_USE \<Rightarrow> 1 | INVENTORY_TYPE_SET_UP \<Rightarrow> 2
      | INVENTORY_TYPE_ETC \<Rightarrow> 3 | INVENTORY_TYPE_CASH \<Rightarrow> 4)"

text \<open>What the player has of an item: the number of slots that hold it, and the quantity.\<close>

definition equips_of :: "character \<Rightarrow> u32 \<Rightarrow> equip_entry list" where
  "equips_of chr iid =
     filter (\<lambda>e. \<not> ee_isEmpty e \<and> itemId (eq_item (ee_equip e)) = iid) (take (equip_slot_count chr) (eqi_items (equipmentInventory chr)))"

definition stacks_of :: "character \<Rightarrow> nat \<Rightarrow> u32 \<Rightarrow> item_entry list" where
  "stacks_of chr iv iid =
     filter (\<lambda>e. \<not> ie_isEmpty e \<and> entry_id e = iid) (take (slot_count chr iv) (inv_items (chr_inventory chr ! iv)))"

definition check_item :: "character \<Rightarrow> u32 \<Rightarrow> int \<Rightarrow> bool" where
  "check_item chr iid n =
     (let iv = inventory_number (item_get_inventory iid)
      in if n \<noteq> 0
         then (if iv = 0 then int (length (equips_of chr iid)) \<ge> n
               else sum_list (map entry_quantity (stacks_of chr (iv - 1) iid)) \<ge> n)
         else (if iv = 0 then equips_of chr iid = [] else stacks_of chr (iv - 1) iid = []))"

text \<open>\<open>strcmp\<close> of the array \<open>v\<close> and the string \<open>s\<close> (without its terminator); an array without a terminator that
  begins like \<open>s\<close> is read beyond its end.\<close>

definition same_string :: "bytes \<Rightarrow> bytes \<Rightarrow> quest_error + bool" where
  "same_string v s =
     (if 0 \<notin> set v \<and> take (length v) s = v then Inl Outside_array else Inr (takeWhile (\<lambda>b. b \<noteq> 0) v = s))"

definition check_info :: "surroundings \<Rightarrow> character \<Rightarrow> u16 \<Rightarrow> bytes list \<Rightarrow> quest_error + bool" where
  "check_info sr chr n infos =
     (case get_info sr chr n of
        Inl err \<Rightarrow> Inl err
      | Inr None \<Rightarrow> Inr False
      | Inr (Some info) \<Rightarrow> (case infos of [] \<Rightarrow> Inl Outside_array | s # _ \<Rightarrow> same_string (qi_value info) s))"

definition check_state :: "surroundings \<Rightarrow> character \<Rightarrow> u16 \<Rightarrow> quest_state \<Rightarrow> quest_error + bool" where
  "check_state sr chr qid st =
     (let completed = map_sum id (\<lambda>q. q \<noteq> None) (get_completed sr chr qid)
      in case st of
           Completed \<Rightarrow> completed
         | _ \<Rightarrow>
             (case get_quest sr chr qid of
                Inl err \<Rightarrow> Inl err
              | Inr q \<Rightarrow>
                  if st = Started then Inr (q \<noteq> None)
                  else if q \<noteq> None then Inr False
                  else map_sum id Not completed))"

text \<open>The number of completed quests is compared as a \<open>size_t\<close>.\<close>

fun check_requirement :: "surroundings \<Rightarrow> character \<Rightarrow> u32 \<Rightarrow> requirement \<Rightarrow> quest_error + bool" where
  "check_requirement sr chr npc (Needs_npc n) = Inr (n = npc)"
| "check_requirement sr chr npc (Needs_quest qid st) = check_state sr chr qid st"
| "check_requirement sr chr npc (Needs_job jobs) = Inr (list_ex (\<lambda>j. unat j = chr_job chr) jobs)"
| "check_requirement sr chr npc (Needs_completed n) = Inr (0 \<le> n \<and> n \<le> int (hash_set_u16_size (completedQuests chr)))"
| "check_requirement sr chr npc (Needs_meso n) = Inr (n \<le> chr_mesos chr)"
| "check_requirement sr chr npc (Needs_min_level l) = Inr (l \<le> chr_level chr)"
| "check_requirement sr chr npc (Needs_max_level l) = Inr (chr_level chr \<le> l)"
| "check_requirement sr chr npc (Needs_item iid n) = Inr (check_item chr iid n)"
| "check_requirement sr chr npc (Needs_info n infos) = check_info sr chr n infos"
| "check_requirement sr chr npc _ = Inr True"

fun check_quest_requirements :: "surroundings \<Rightarrow> character \<Rightarrow> requirement list \<Rightarrow> u32 \<Rightarrow> quest_error + bool" where
  "check_quest_requirements sr chr [] npc = Inr True"
| "check_quest_requirements sr chr (r # rs) npc =
     (case check_requirement sr chr npc r of
        Inl err \<Rightarrow> Inl err
      | Inr False \<Rightarrow> Inr False
      | Inr True \<Rightarrow> check_quest_requirements sr chr rs npc)"

subsection \<open>Counting monsters\<close>

definition need_monster :: "surroundings \<Rightarrow> u32 \<Rightarrow> monster_ref_count hash_set \<Rightarrow> quest_error + monster_ref_count hash_set" where
  "need_monster sr mid ms =
     (case hash_set_u32_get (sr_hash sr) mr_id ms mid of
        None \<Rightarrow> Inl Endless_lookup
      | Some None \<Rightarrow>
          map_sum id fst (endless (hash_set_u32_insert (sr_hash sr) mr_id (sr_mem sr For_monster) ms \<lparr>mr_id = mid, mr_refCount = 1\<rparr>))
      | Some (Some _) \<Rightarrow> Inr (modify_element mr_id mid (\<lambda>m. m\<lparr>mr_refCount := to_i8 (mr_refCount m + 1)\<rparr>) ms))"

definition release_monster :: "surroundings \<Rightarrow> u32 \<Rightarrow> monster_ref_count hash_set \<Rightarrow> quest_error + monster_ref_count hash_set" where
  "release_monster sr mid ms =
     (case hash_set_u32_get (sr_hash sr) mr_id ms mid of
        None \<Rightarrow> Inl Endless_lookup
      | Some None \<Rightarrow> Inl Null_pointer
      | Some (Some m) \<Rightarrow>
          let ms = modify_element mr_id mid (\<lambda>m. m\<lparr>mr_refCount := to_i8 (mr_refCount m - 1)\<rparr>) ms
          in if to_i8 (mr_refCount m - 1) = 0
             then endless (hash_set_u32_remove (sr_hash sr) mr_id (sr_mem sr For_table) ms mid)
             else Inr ms)"

definition progress_slots :: nat where
  "progress_slots = 5"

text \<open>A new quest: one counter, at zero, for every monster of its end requirements.\<close>

fun need_monsters ::
  "surroundings \<Rightarrow> u32 list \<Rightarrow> quest \<Rightarrow> monster_ref_count hash_set \<Rightarrow> quest_error + quest \<times> monster_ref_count hash_set" where
  "need_monsters sr [] q ms = Inr (q, ms)"
| "need_monsters sr (mid # mids) q ms =
     (case need_monster sr mid ms of
        Inl err \<Rightarrow> Inl err
      | Inr ms \<Rightarrow>
          let n = unat (q_progressCount q)
          in if n \<ge> progress_slots then Inl Outside_array
             else need_monsters sr mids (q\<lparr>q_progress := (q_progress q)[n := 0], q_progressCount := q_progressCount q + 1\<rparr>) ms)"

fun mobs_of :: "requirement \<Rightarrow> (u32 \<times> int) list" where
  "mobs_of (Needs_mobs mobs) = mobs"
| "mobs_of _ = []"

definition new_quest :: "u16 \<Rightarrow> quest" where
  "new_quest qid = \<lparr>q_id = qid, q_progressCount = 0, q_progress = replicate progress_slots 0\<rparr>"

definition progress_text :: "quest \<Rightarrow> quest_error + bytes" where
  "progress_text q =
     (case quest_get_progress_string q (replicate 15 0) of
        Inl err \<Rightarrow> Inl (Progress_text err)
      | Inr (text, n) \<Rightarrow> Inr (take n text))"

text \<open>The progress a killed monster makes in a quest, as a \<open>foreach\<close> over the quests: only the first requirement
  for monsters is looked at, and of it the first counter for this monster that is not complete. The
  context: the set of monsters and what is sent.\<close>

fun first_mobs :: "requirement list \<Rightarrow> (u32 \<times> int) list" where
  "first_mobs [] = []"
| "first_mobs (Needs_mobs mobs # rs) = mobs"
| "first_mobs (_ # rs) = first_mobs rs"

definition open_counter :: "u32 \<Rightarrow> quest \<Rightarrow> (u32 \<times> int) list \<Rightarrow> nat option" where
  "open_counter mid q mobs =
     find (\<lambda>i. fst (mobs ! i) = mid \<and> (length (q_progress q) \<le> i \<or> q_progress q ! i < snd (mobs ! i))) [0..<length mobs]"

definition count_kill :: "nat \<Rightarrow> quest \<Rightarrow> quest" where
  "count_kill i q = q\<lparr>q_progress := (q_progress q)[i := q_progress q ! i + 1]\<rparr>"

definition check_progress ::
  "surroundings \<Rightarrow> u32 \<Rightarrow> quest \<Rightarrow> quest_error + monster_ref_count hash_set \<times> message list \<Rightarrow>
   quest \<times> (quest_error + monster_ref_count hash_set \<times> message list)" where
  "check_progress sr mid q r =
     (case r of
        Inl err \<Rightarrow> (q, Inl err)
      | Inr (ms, msgs) \<Rightarrow>
          (case sr_quest sr (q_id q) of
             None \<Rightarrow> (q, Inl Null_pointer)
           | Some info \<Rightarrow>
               let mobs = first_mobs (qd_endRequirements info)
               in case open_counter mid q mobs of
                    None \<Rightarrow> (q, Inr (ms, msgs))
                  | Some i \<Rightarrow>
                      if length (q_progress q) \<le> i then (q, Inl Outside_array)
                      else let q = count_kill i q
                           in (q, case (if q_progress q ! i = snd (mobs ! i) then release_monster sr mid ms else Inr ms) of
                                    Inl err \<Rightarrow> Inl err
                                  | Inr ms \<Rightarrow>
                                      (case progress_text q of
                                         Inl err \<Rightarrow> Inl err
                                       | Inr text \<Rightarrow> Inr (ms, msgs @ [Update_quest (q_id q) text])))))"

text \<open>The groups of \<^verbatim>\<open>Mob.wz/QuestCountGroup\<close>.\<close>

definition quest_group :: "u32 \<Rightarrow> u32 option" where
  "quest_group mid =
     (if mid = 1110100 \<or> mid = 1110130 then Some 9101000
      else if mid = 2230101 \<or> mid = 2230131 then Some 9101001
      else if mid = 1140100 \<or> mid = 1140130 then Some 9101002
      else if mid = 8830003 \<or> mid = 8830010 then Some 9101003
      else None)"

definition send_all :: "message list \<Rightarrow> client \<Rightarrow> client" where
  "send_all msgs c = fold (send To_session) msgs c"

definition count_monster :: "surroundings \<Rightarrow> u32 \<Rightarrow> client \<Rightarrow> quest_error + client" where
  "count_monster sr mid c =
     (let chr = cl_character c
      in case hash_set_u32_get (sr_hash sr) mr_id (monsterQuests chr) mid of
           None \<Rightarrow> Inl Endless_lookup
         | Some None \<Rightarrow> Inr c
         | Some (Some _) \<Rightarrow>
             (case hash_set_u16_foreach (check_progress sr mid) (quests chr) (Inr (monsterQuests chr, [])) of
                (qs, Inl err) \<Rightarrow> Inl err
              | (qs, Inr (ms, msgs)) \<Rightarrow> Inr (send_all msgs (c\<lparr>cl_character := chr\<lparr>quests := qs, monsterQuests := ms\<rparr>\<rparr>))))"

definition client_kill_monster :: "surroundings \<Rightarrow> client \<Rightarrow> u32 \<Rightarrow> quest_error + client" where
  "client_kill_monster sr c mid =
     (case sr_mob_exp sr mid of
        None \<Rightarrow> Inl Null_pointer
      | Some ex \<Rightarrow>
          (case client_gain_exp (sr_hash sr) (sr_rand sr 0) 0 c ex False of
             Inl err \<Rightarrow> Inl (Exp_error err)
           | Inr (c, _) \<Rightarrow>
               (case (case quest_group mid of
                        None \<Rightarrow> Inr (client_commit_stats c)
                      | Some g \<Rightarrow> count_monster sr g (client_commit_stats c)) of
                  Inl err \<Rightarrow> Inl err
                | Inr c \<Rightarrow> count_monster sr mid c)))"

text \<open>Giving a quest up. The counters of every requirement are numbered from 0.\<close>

fun release_open :: "surroundings \<Rightarrow> quest \<Rightarrow> nat \<Rightarrow> (u32 \<times> int) list \<Rightarrow> monster_ref_count hash_set \<Rightarrow> quest_error + monster_ref_count hash_set" where
  "release_open sr q i [] ms = Inr ms"
| "release_open sr q i ((mid, n) # mobs) ms =
     (if i \<ge> length (q_progress q) then Inl Outside_array
      else if q_progress q ! i < n
      then (case release_monster sr mid ms of Inl err \<Rightarrow> Inl err | Inr ms \<Rightarrow> release_open sr q (Suc i) mobs ms)
      else release_open sr q (Suc i) mobs ms)"

fun release_all :: "surroundings \<Rightarrow> quest \<Rightarrow> requirement list \<Rightarrow> monster_ref_count hash_set \<Rightarrow> quest_error + monster_ref_count hash_set" where
  "release_all sr q [] ms = Inr ms"
| "release_all sr q (r # rs) ms =
     (case release_open sr q 0 (mobs_of r) ms of Inl err \<Rightarrow> Inl err | Inr ms \<Rightarrow> release_all sr q rs ms)"

definition remove_quest :: "surroundings \<Rightarrow> u16 \<Rightarrow> character \<Rightarrow> quest_error + character" where
  "remove_quest sr qid chr =
     map_sum id (\<lambda>qs. chr\<lparr>quests := qs\<rparr>) (endless (hash_set_u16_remove (sr_hash sr) q_id (sr_mem sr For_table) (quests chr) qid))"

definition client_forfeit_quest :: "surroundings \<Rightarrow> client \<Rightarrow> u16 \<Rightarrow> quest_error + client" where
  "client_forfeit_quest sr c qid =
     (let chr = cl_character c
      in case get_quest sr chr qid of
           Inl err \<Rightarrow> Inl err
         | Inr None \<Rightarrow> Inr c
         | Inr (Some q) \<Rightarrow>
             (case sr_quest sr qid of
                None \<Rightarrow> Inl Null_pointer
              | Some info \<Rightarrow>
                  (case release_all sr q (qd_endRequirements info) (monsterQuests chr) of
                     Inl err \<Rightarrow> Inl err
                   | Inr ms \<Rightarrow>
                       map_sum id (\<lambda>chr. send To_session (Forfeit_quest qid) (c\<lparr>cl_character := chr\<rparr>))
                         (remove_quest sr qid (chr\<lparr>monsterQuests := ms\<rparr>)))))"

subsection \<open>Handing out items\<close>

text \<open>An act may give several items; of those with a \<open>prop\<close> one is chosen by a random number \<open>r\<close>. The number of items
  that can result is an \<open>int8_t\<close> and the length of two arrays.\<close>

definition has_prop :: "quest_item_action list \<Rightarrow> bool" where
  "has_prop its \<longleftrightarrow> list_ex (\<lambda>x. qia_prop x \<noteq> 0) its"

definition choice_count :: "quest_item_action list \<Rightarrow> nat" where
  "choice_count its = length (filter (\<lambda>x. qia_prop x = 0) its) + (if has_prop its then 1 else 0)"

fun choose_items :: "int \<Rightarrow> bool \<Rightarrow> int \<Rightarrow> quest_item_action list \<Rightarrow> (u32 \<times> int) list" where
  "choose_items r chosen tot [] = []"
| "choose_items r chosen tot (x # xs) =
     (let tot = tot + qia_prop x
      in if qia_prop x = 0 \<or> \<not> chosen \<and> r < tot
         then (qia_id x, qia_count x) # choose_items r (chosen \<or> qia_prop x \<noteq> 0) tot xs
         else choose_items r chosen tot xs)"

definition prop_totals :: "quest_item_action list \<Rightarrow> int list" where
  "prop_totals its = map (\<lambda>j. sum_list (map qia_prop (take j its))) [0..<Suc (length its)]"

definition empty_slot_everywhere :: "character \<Rightarrow> bool" where
  "empty_slot_everywhere chr \<longleftrightarrow>
     list_ex ee_isEmpty (take (equip_slot_count chr) (eqi_items (equipmentInventory chr))) \<and>
     list_all (\<lambda>iv. list_ex ie_isEmpty (take (slot_count chr iv) (inv_items (chr_inventory chr ! iv)))) [0..<4]"

text \<open>\<open>None\<close>: an inventory is full, which matters if an item is chosen at random.\<close>

definition choose_from_act :: "int \<Rightarrow> character \<Rightarrow> quest_item_action list \<Rightarrow> quest_error + (u32 \<times> int) list option" where
  "choose_from_act rnd chr its =
     (let tot = sum_list (map qia_prop its)
      in if 127 < choice_count its then Inl Outside_array
         else if \<not> list_all (\<lambda>t. in_i32 t) (prop_totals its) then Inl Undefined_arithmetic
         else if has_prop its
         then if \<not> empty_slot_everywhere chr then Inr None
              else if tot = 0 then Inl Undefined_arithmetic
              else Inr (Some (choose_items (rnd smod tot) False 0 its))
         else Inr (Some (choose_items 0 False 0 its)))"

text \<open>What the player already has is not given again: such an item is replaced by the last one.\<close>

function drop_owned :: "client \<Rightarrow> nat \<Rightarrow> (u32 \<times> int) list \<Rightarrow> quest_error + (u32 \<times> int) list" where
  "drop_owned c i rs =
     (if i \<ge> length rs then Inr rs
      else case client_has_item c (fst (rs ! i)) 1 of
             Inl err \<Rightarrow> Inl (Items_error err)
           | Inr True \<Rightarrow> drop_owned c i (butlast (rs[i := last rs]))
           | Inr False \<Rightarrow> drop_owned c (Suc i) rs)"
  by pat_completeness auto
termination by (relation "measure (\<lambda>(c, i, rs). length rs - i)") auto

declare drop_owned.simps [simp del]

text \<open>How an act ends: it goes on, there was no room, or the memory was used up.\<close>

datatype act_result = Went_on | No_room | No_memory

definition hand_out :: "surroundings \<Rightarrow> client \<Rightarrow> (u32 \<times> int) list \<Rightarrow> quest_error + client \<times> act_result" where
  "hand_out sr c rs =
     (case client_gain_items (sr_mem sr For_mods) (sr_mem sr For_more_mods) (sr_item sr) (sr_equip sr) c rs True of
        Inl err \<Rightarrow> Inl (Items_error err)
      | Inr (c, None) \<Rightarrow> Inr (c, No_memory)
      | Inr (c, Some True) \<Rightarrow> Inr (c, Went_on)
      | Inr (c, Some False) \<Rightarrow> Inr (c, No_room))"

definition item_act :: "surroundings \<Rightarrow> bool \<Rightarrow> nat \<Rightarrow> client \<Rightarrow> quest_item_action list \<Rightarrow> quest_error + client \<times> act_result" where
  "item_act sr starting i c its =
     (case choose_from_act (sr_rand sr i 0) (cl_character c) its of
        Inl err \<Rightarrow> Inl err
      | Inr None \<Rightarrow> Inr (c, No_room)
      | Inr (Some rs) \<Rightarrow>
          (case (if starting then drop_owned c 0 rs else Inr rs) of
             Inl err \<Rightarrow> Inl err
           | Inr rs \<Rightarrow> hand_out sr c rs))"

definition exp_act :: "surroundings \<Rightarrow> nat \<Rightarrow> client \<Rightarrow> int \<Rightarrow> quest_error + client \<times> act_result" where
  "exp_act sr i c n =
     (case client_gain_exp (sr_hash sr) (sr_rand sr i) 0 c n True of
        Inl err \<Rightarrow> Inl (Exp_error err)
      | Inr (c, _) \<Rightarrow> Inr (c, Went_on))"

definition meso_act :: "client \<Rightarrow> int \<Rightarrow> quest_error + client \<times> act_result" where
  "meso_act c n =
     (case client_gain_meso c n False True of
        None \<Rightarrow> Inl Undefined_arithmetic
      | Some c \<Rightarrow> Inr (c, Went_on))"

subsection \<open>Starting a quest\<close>

fun start_act :: "surroundings \<Rightarrow> nat \<Rightarrow> client \<Rightarrow> quest_act \<Rightarrow> quest_error + client \<times> act_result" where
  "start_act sr i c (Act_exp n) = exp_act sr i c n"
| "start_act sr i c (Act_meso n) = meso_act c n"
| "start_act sr i c (Act_items its) = item_act sr True i c its"
| "start_act sr i c _ = Inr (c, Went_on)"

fun run_acts ::
  "(nat \<Rightarrow> 's \<Rightarrow> quest_act \<Rightarrow> quest_error + 's \<times> act_result) \<Rightarrow> nat \<Rightarrow> quest_act list \<Rightarrow> 's \<Rightarrow> quest_error + 's \<times> act_result" where
  "run_acts act i [] s = Inr (s, Went_on)"
| "run_acts act i (a # as) s =
     (case act i s a of
        Inr (s, Went_on) \<Rightarrow> run_acts act (Suc i) as s
      | r \<Rightarrow> r)"

text \<open>\<open>None\<close> is the return value \<open>false\<close>, otherwise the result is \<open>*success\<close>.\<close>

definition announce_start :: "u16 \<Rightarrow> u32 \<Rightarrow> quest \<Rightarrow> client \<Rightarrow> quest_error + client \<times> bool option" where
  "announce_start qid npc q c =
     (let c = (if cl_stats c \<noteq> 0 then client_commit_stats c else c)
      in case progress_text q of
           Inl err \<Rightarrow> Inl err
         | Inr text \<Rightarrow> Inr (send To_session (Start_quest qid npc) (send To_session (Update_quest qid text) c), Some True))"

text \<open>A quest whose acts fail is removed again; the counters of monsters stay.\<close>

definition withdraw :: "(character \<Rightarrow> quest_error + character) \<Rightarrow> client \<Rightarrow> act_result \<Rightarrow> quest_error + client \<times> bool option" where
  "withdraw remove c r =
     (case remove (cl_character c) of
        Inl err \<Rightarrow> Inl err
      | Inr chr \<Rightarrow> Inr (c\<lparr>cl_character := chr\<rparr>, if r = No_memory then None else Some False))"

definition start_quest :: "surroundings \<Rightarrow> client \<Rightarrow> u16 \<Rightarrow> u32 \<Rightarrow> quest_error + client \<times> bool option" where
  "start_quest sr c qid npc =
     (let chr = cl_character c
      in case sr_quest sr qid of
           None \<Rightarrow> Inl Null_pointer
         | Some info \<Rightarrow>
             (case need_monsters sr (map fst (concat (map mobs_of (qd_endRequirements info)))) (new_quest qid) (monsterQuests chr) of
                Inl err \<Rightarrow> Inl err
              | Inr (q, ms) \<Rightarrow>
                  (case hash_set_u16_insert (sr_hash sr) q_id (sr_mem sr For_quest) (quests chr) q of
                     None \<Rightarrow> Inl Endless_lookup
                   | Some (qs, r) \<Rightarrow>
                       let c = c\<lparr>cl_character := chr\<lparr>quests := qs, monsterQuests := ms\<rparr>\<rparr>
                       in if r = - 1 then Inr (c, None)
                          else case run_acts (start_act sr) 0 (qd_startActs info) c of
                                 Inl err \<Rightarrow> Inl err
                               | Inr (c, Went_on) \<Rightarrow> announce_start qid npc q c
                               | Inr (c, r) \<Rightarrow> withdraw (remove_quest sr qid) c r)))"

subsection \<open>Ending a quest\<close>

text \<open>The skills of an act that belong to the job of the player are added without looking whether they are there.\<close>

fun teach :: "surroundings \<Rightarrow> quest_skill_action \<Rightarrow> u16 list \<Rightarrow> client \<Rightarrow> quest_error + client" where
  "teach sr a [] c = Inr c"
| "teach sr a (j # js) c =
     (if chr_job (cl_character c) = unat j
      then (case hash_set_u32_insert (sr_hash sr) sk_id (sr_mem sr For_element) (skills (cl_character c))
                   \<lparr>sk_id = qsa_id a, sk_level = qsa_level a, sk_masterLevel = qsa_masterLevel a\<rparr> of
              None \<Rightarrow> Inl Endless_lookup
            | Some (hs, _) \<Rightarrow>
                teach sr a js (send To_session (Update_skill (qsa_id a) (qsa_level a) (qsa_masterLevel a))
                  (on_character (\<lambda>chr. chr\<lparr>skills := hs\<rparr>) c)))
      else teach sr a js c)"

fun teach_all :: "surroundings \<Rightarrow> quest_skill_action list \<Rightarrow> client \<Rightarrow> quest_error + client" where
  "teach_all sr [] c = Inr c"
| "teach_all sr (a # as) c =
     (case teach sr a (qsa_jobs a) c of Inl err \<Rightarrow> Inl err | Inr c \<Rightarrow> teach_all sr as c)"

text \<open>The state is the client and the number of the next quest.\<close>

definition keep_next :: "u16 \<Rightarrow> quest_error + client \<times> act_result \<Rightarrow> quest_error + (client \<times> u16) \<times> act_result" where
  "keep_next nxt r = map_sum id (\<lambda>(c, r). ((c, nxt), r)) r"

fun end_act :: "surroundings \<Rightarrow> nat \<Rightarrow> client \<times> u16 \<Rightarrow> quest_act \<Rightarrow> quest_error + (client \<times> u16) \<times> act_result" where
  "end_act sr i (c, nxt) (Act_exp n) = keep_next nxt (exp_act sr i c n)"
| "end_act sr i (c, nxt) (Act_meso n) = keep_next nxt (meso_act c n)"
| "end_act sr i (c, nxt) (Act_items its) = keep_next nxt (item_act sr False i c its)"
| "end_act sr i (c, nxt) (Act_next_quest qid) = Inr ((c, qid), Went_on)"
| "end_act sr i (c, nxt) (Act_skills as) = map_sum id (\<lambda>c. ((c, nxt), Went_on)) (teach_all sr as c)"
| "end_act sr i (c, nxt) Act_other = Inr ((c, nxt), Went_on)"

definition remove_completed :: "surroundings \<Rightarrow> u16 \<Rightarrow> character \<Rightarrow> quest_error + character" where
  "remove_completed sr qid chr =
     map_sum id (\<lambda>qs. chr\<lparr>completedQuests := qs\<rparr>)
       (endless (hash_set_u16_remove (sr_hash sr) cq_id (sr_mem sr For_table) (completedQuests chr) qid))"

definition remove_info :: "surroundings \<Rightarrow> u16 \<Rightarrow> character \<Rightarrow> quest_error + character" where
  "remove_info sr qid chr =
     (case get_info sr chr qid of
        Inl err \<Rightarrow> Inl err
      | Inr None \<Rightarrow> Inr chr
      | Inr (Some _) \<Rightarrow>
          map_sum id (\<lambda>qs. chr\<lparr>questInfos := qs\<rparr>)
            (endless (hash_set_u16_remove (sr_hash sr) qi_id (sr_mem sr For_table) (questInfos chr) qid)))"

definition announce_end :: "surroundings \<Rightarrow> u16 \<Rightarrow> u32 \<Rightarrow> u16 \<Rightarrow> client \<Rightarrow> quest_error + client \<times> bool option" where
  "announce_end sr qid npc nxt c =
     (let c = send To_session (End_quest qid npc nxt) (client_commit_stats c)
      in case remove_quest sr qid (cl_character c) of
           Inl err \<Rightarrow> Inl err
         | Inr chr \<Rightarrow> map_sum id (\<lambda>chr. (c\<lparr>cl_character := chr\<rparr>, Some True)) (remove_info sr qid chr))"

definition end_quest :: "surroundings \<Rightarrow> client \<Rightarrow> u16 \<Rightarrow> u32 \<Rightarrow> quest_error + client \<times> bool option" where
  "end_quest sr c qid npc =
     (let chr = cl_character c
      in case hash_set_u16_insert (sr_hash sr) cq_id (sr_mem sr For_quest) (completedQuests chr) \<lparr>cq_id = qid, cq_time = sr_time sr\<rparr> of
           None \<Rightarrow> Inl Endless_lookup
         | Some (qs, r) \<Rightarrow>
             if r = - 1 then Inr (c, None)
             else let c = c\<lparr>cl_character := chr\<lparr>completedQuests := qs\<rparr>\<rparr>;
                      c = send To_session (Quest_completion_time (sr_gmtoff sr) qid (sr_time sr)) c;
                      c = send To_others (Show_foreign_effect (chr_id chr) 9) (send To_session (Show_effect 9) c)
                  in case sr_quest sr qid of
                       None \<Rightarrow> Inl Null_pointer
                     | Some info \<Rightarrow>
                         (case run_acts (end_act sr) 0 (qd_endActs info) (c, 0) of
                            Inl err \<Rightarrow> Inl err
                          | Inr ((c, nxt), Went_on) \<Rightarrow> announce_end sr qid npc nxt c
                          | Inr ((c, nxt), r) \<Rightarrow> withdraw (remove_completed sr qid) c r))"

subsection \<open>Requests of the player\<close>

text \<open>The parts of \<open>struct Client\<close> for conversations: the running script, the quest and the character it is
  about. A script is run by the interpreter \<open>run\<close>, which may call the functions of the client; it is an argument,
  and so is the result of \<open>script_manager_alloc\<close> (\<open>alloc\<close>).\<close>

datatype script_state =
    Ask_ok | Ask_yes_no | Ask_number | Ask_simple | Ask_next | Ask_prev_next | Ask_prev | Ask_accept_decline | Ask_warp

record 'i talker =
  tk_client :: client
  tk_script :: "'i option"
  tk_qid :: u16
  tk_npc :: u32
  tk_question :: script_state
  tk_min :: u32
  tk_max :: u32

datatype script_result = Script_kick | Script_failure | Script_success | Script_next

text \<open>Only a script that has something to ask is kept.\<close>

definition after_script :: "script_result \<times> 'i talker \<Rightarrow> 'i talker \<times> client_result" where
  "after_script r =
     (case r of
        (Script_kick, t) \<Rightarrow> (t\<lparr>tk_script := None\<rparr>, Ban)
      | (Script_failure, t) \<Rightarrow> (t\<lparr>tk_script := None\<rparr>, Error)
      | (Script_success, t) \<Rightarrow> (t\<lparr>tk_script := None\<rparr>, Success)
      | (Script_next, t) \<Rightarrow> (t, Next))"

type_synonym 'i interpreter = "'i talker \<Rightarrow> quest_error + script_result \<times> 'i talker"

definition run_quest_script :: "'i option \<Rightarrow> 'i interpreter \<Rightarrow> u16 \<Rightarrow> u32 \<Rightarrow> 'i talker \<Rightarrow> quest_error + 'i talker \<times> client_result" where
  "run_quest_script alloc run qid npc t =
     (case alloc of
        None \<Rightarrow> Inl Null_pointer
      | Some i \<Rightarrow> map_sum id after_script (run (t\<lparr>tk_npc := npc, tk_qid := qid, tk_script := Some i\<rparr>)))"

definition no_space_message :: bytes where
  "no_space_message = map (\<lambda>ch. of_nat (of_char ch)) ''Please check if you have enough space in your inventory.''"

definition answer_quest :: "'i talker \<Rightarrow> quest_error + client \<times> bool option \<Rightarrow> quest_error + 'i talker \<times> client_result" where
  "answer_quest t r =
     (case r of
        Inl err \<Rightarrow> Inl err
      | Inr (c, None) \<Rightarrow> Inr (t\<lparr>tk_client := c\<rparr>, Error)
      | Inr (c, Some success) \<Rightarrow>
          Inr (t\<lparr>tk_client := if success then c else send To_session (Popup_message no_space_message) c\<rparr>, Success))"

fun want_items :: "surroundings \<Rightarrow> requirement list \<Rightarrow> character \<Rightarrow> quest_error + character" where
  "want_items sr [] chr = Inr chr"
| "want_items sr (Needs_item iid n # rs) chr =
     (case sr_item sr iid of
        None \<Rightarrow> Inl Null_pointer
      | Some info \<Rightarrow>
          if info_quest info
          then (case hash_set_u32_insert (sr_hash sr) id (sr_mem sr For_element) (itemQuests chr) iid of
                  None \<Rightarrow> Inl Endless_lookup
                | Some (hs, _) \<Rightarrow> want_items sr rs (chr\<lparr>itemQuests := hs\<rparr>))
          else want_items sr rs chr)"
| "want_items sr (_ # rs) chr = want_items sr rs chr"

definition client_start_quest ::
  "surroundings \<Rightarrow> 'i option \<Rightarrow> 'i interpreter \<Rightarrow> 'i talker \<Rightarrow> u16 \<Rightarrow> u32 \<Rightarrow> bool \<Rightarrow> quest_error + 'i talker \<times> client_result" where
  "client_start_quest sr alloc run t qid npc scripted =
     (let c = tk_client t; chr = cl_character c
      in if scripted \<and> tk_script t \<noteq> None then Inr (t, Success)
         else case sr_quest sr qid of
                None \<Rightarrow> Inr (t, Ban)
              | Some info \<Rightarrow>
                  (case get_quest sr chr qid of
                     Inl err \<Rightarrow> Inl err
                   | Inr (Some _) \<Rightarrow> Inr (t, Success)
                   | Inr None \<Rightarrow>
                       (case get_completed sr chr qid of
                          Inl err \<Rightarrow> Inl err
                        | Inr (Some _) \<Rightarrow> Inr (t, Ban)
                        | Inr None \<Rightarrow>
                            if scripted \<noteq> qd_startScript info then Inr (t, Ban)
                            else case check_quest_requirements sr chr (qd_startRequirements info) npc of
                                   Inl err \<Rightarrow> Inl err
                                 | Inr False \<Rightarrow> Inr (t, Ban)
                                 | Inr True \<Rightarrow>
                                     (case want_items sr (qd_endRequirements info) chr of
                                        Inl err \<Rightarrow> Inl err
                                      | Inr chr \<Rightarrow>
                                          let t = t\<lparr>tk_client := c\<lparr>cl_character := chr\<rparr>\<rparr>
                                          in if qd_startScript info then run_quest_script alloc run qid npc t
                                             else answer_quest t (start_quest sr (tk_client t) qid npc)))))"

definition client_end_quest ::
  "surroundings \<Rightarrow> 'i option \<Rightarrow> 'i interpreter \<Rightarrow> 'i talker \<Rightarrow> u16 \<Rightarrow> u32 \<Rightarrow> bool \<Rightarrow> quest_error + 'i talker \<times> client_result" where
  "client_end_quest sr alloc run t qid npc scripted =
     (let chr = cl_character (tk_client t)
      in if scripted \<and> tk_script t \<noteq> None then Inr (t, Success)
         else case sr_quest sr qid of
                None \<Rightarrow> Inr (t, Ban)
              | Some info \<Rightarrow>
                  (case get_completed sr chr qid of
                     Inl err \<Rightarrow> Inl err
                   | Inr (Some _) \<Rightarrow> Inr (t, Success)
                   | Inr None \<Rightarrow>
                       (case get_quest sr chr qid of
                          Inl err \<Rightarrow> Inl err
                        | Inr None \<Rightarrow> Inr (t, Ban)
                        | Inr (Some _) \<Rightarrow>
                            if scripted \<noteq> qd_endScript info then Inr (t, Ban)
                            else case check_quest_requirements sr chr (qd_endRequirements info) npc of
                                   Inl err \<Rightarrow> Inl err
                                 | Inr False \<Rightarrow> Inr (t, Ban)
                                 | Inr True \<Rightarrow>
                                     if qd_endScript info then run_quest_script alloc run qid npc t
                                     else answer_quest t (end_quest sr (tk_client t) qid npc))))"

definition client_start_quest_now :: "surroundings \<Rightarrow> 'i talker \<Rightarrow> quest_error + 'i talker \<times> bool option" where
  "client_start_quest_now sr t = map_sum id (\<lambda>(c, r). (t\<lparr>tk_client := c\<rparr>, r)) (start_quest sr (tk_client t) (tk_qid t) (tk_npc t))"

definition client_end_quest_now :: "surroundings \<Rightarrow> 'i talker \<Rightarrow> quest_error + 'i talker \<times> bool option" where
  "client_end_quest_now sr t = map_sum id (\<lambda>(c, r). (t\<lparr>tk_client := c\<rparr>, r)) (end_quest sr (tk_client t) (tk_qid t) (tk_npc t))"

text \<open>Only the first item of the first act with items can be had again.\<close>

fun first_items :: "quest_act list \<Rightarrow> quest_item_action list option" where
  "first_items [] = None"
| "first_items (Act_items its # as) = Some its"
| "first_items (_ # as) = first_items as"

definition client_regain_quest_item :: "surroundings \<Rightarrow> client \<Rightarrow> u16 \<Rightarrow> u32 \<Rightarrow> quest_error + client \<times> client_result" where
  "client_regain_quest_item sr c qid iid =
     (case sr_quest sr qid of
        None \<Rightarrow> Inr (c, Ban)
      | Some info \<Rightarrow>
          (case get_quest sr (cl_character c) qid of
             Inl err \<Rightarrow> Inl err
           | Inr None \<Rightarrow> Inr (c, Success)
           | Inr (Some _) \<Rightarrow>
               (case client_has_item c iid 1 of
                  Inl err \<Rightarrow> Inl (Items_error err)
                | Inr True \<Rightarrow> Inr (c, Success)
                | Inr False \<Rightarrow>
                    (case first_items (qd_startActs info) of
                       Some (x # _) \<Rightarrow>
                         if qia_id x = iid
                         then (case hand_out sr c [(iid, 1)] of
                                 Inl err \<Rightarrow> Inl err
                               | Inr (c, No_memory) \<Rightarrow> Inr (c, Error)
                               | Inr (c, No_room) \<Rightarrow> Inr (send To_session (Popup_message no_space_message) c, Success)
                               | Inr (c, Went_on) \<Rightarrow> Inr (c, Success))
                         else Inr (c, Ban)
                     | _ \<Rightarrow> Inr (c, Ban)))))"

subsection \<open>Notes of quests\<close>

definition client_get_quest_info :: "surroundings \<Rightarrow> client \<Rightarrow> u16 \<Rightarrow> quest_error + bytes option" where
  "client_get_quest_info sr c n = map_sum id (map_option qi_value) (get_info sr (cl_character c) n)"

text \<open>\<open>strncmp\<close> of an array and a string; the array is read up to its terminator.\<close>

definition differ_within :: "nat \<Rightarrow> bytes \<Rightarrow> bytes \<Rightarrow> bool" where
  "differ_within n v s \<longleftrightarrow> take n (takeWhile (\<lambda>b. b \<noteq> 0) v @ [0]) \<noteq> take n (s @ [0])"

text \<open>A new note may fill the array of 12 characters; an old one is overwritten together with a terminator. The
  result is the return value.\<close>

definition client_set_quest_info :: "surroundings \<Rightarrow> client \<Rightarrow> u16 \<Rightarrow> bytes \<Rightarrow> quest_error + client \<times> int" where
  "client_set_quest_info sr c n val =
     (let chr = cl_character c; len = of_nat (length val) :: u8
      in case get_info sr chr n of
           Inl err \<Rightarrow> Inl err
         | Inr None \<Rightarrow>
             if 12 < unat len then Inl Outside_array
             else (case hash_set_u16_insert (sr_hash sr) qi_id (sr_mem sr For_element) (questInfos chr)
                          \<lparr>qi_id = n, qi_length = len, qi_value = take (unat len) val @ replicate (12 - unat len) 0\<rparr> of
                     None \<Rightarrow> Inl Endless_lookup
                   | Some (hs, r) \<Rightarrow>
                       if r = - 1 then Inr (c, - 1)
                       else Inr (send To_session (Update_quest n val) (c\<lparr>cl_character := chr\<lparr>questInfos := hs\<rparr>\<rparr>), 0))
         | Inr (Some q) \<Rightarrow>
             if 12 < length val + 1 then Inl Outside_array
             else let c = (if differ_within (unat (qi_length q)) (qi_value q) val then send To_session (Update_quest n val) c else c);
                      new = (\<lambda>q. q\<lparr>qi_length := len, qi_value := val @ [0] @ drop (length val + 1) (qi_value q)\<rparr>)
                  in Inr (c\<lparr>cl_character := chr\<lparr>questInfos := modify_element qi_id n new (questInfos chr)\<rparr>\<rparr>, 0))"

end
