(* ===== verification/Quest_Counters.thy ===== *)
theory Quest_Counters
  imports Quests
begin

text \<open>
  The counters of monsters: while quests are started, given up and their monsters killed, the set
  \<open>monsterQuests\<close> of a character has for every kind of monster exactly the number of counters that wait for it
  (\<open>counters_ok\<close>), so that the pointers to its elements that the functions follow are never null.
\<close>

subsection \<open>The invariant\<close>

definition open_counters :: "surroundings \<Rightarrow> quest \<Rightarrow> u32 \<Rightarrow> int" where
  "open_counters sr q mid =
     (case sr_quest sr (q_id q) of
        None \<Rightarrow> 0
      | Some info \<Rightarrow>
          sum_list (map (\<lambda>((m, n), p). if m = mid \<and> p < n then 1 else 0) (zip (first_mobs (qd_endRequirements info)) (q_progress q))))"

definition waiting :: "surroundings \<Rightarrow> (u16 \<Rightarrow> quest option) \<Rightarrow> u32 \<Rightarrow> int" where
  "waiting sr m mid = (\<Sum>k \<in> dom m. open_counters sr (the (m k)) mid)"

text \<open>The elements are the numbers \<open>w\<close>, as far as they are not zero; they fit into an \<open>int8_t\<close>.\<close>

definition counts :: "(u32 \<Rightarrow> int) \<Rightarrow> (u32 \<Rightarrow> monster_ref_count option) \<Rightarrow> bool" where
  "counts w mm \<longleftrightarrow> (\<forall>mid. w mid \<le> 127 \<and> mm mid = (if w mid = 0 then None else Some \<lparr>mr_id = mid, mr_refCount = w mid\<rparr>))"

abbreviation counters_ok :: "surroundings \<Rightarrow> (u16 \<Rightarrow> quest option) \<Rightarrow> (u32 \<Rightarrow> monster_ref_count option) \<Rightarrow> bool" where
  "counters_ok sr m \<equiv> counts (waiting sr m)"

text \<open>At most four counters, in one requirement.\<close>

definition quest_info_ok :: "quest_info \<Rightarrow> bool" where
  "quest_info_ok info \<longleftrightarrow>
     (let mobs = first_mobs (qd_endRequirements info)
      in length mobs \<le> 4 \<and> concat (map mobs_of (qd_endRequirements info)) = mobs \<and> (\<forall>(m, n) \<in> set mobs. 0 < n))"

definition hunt_ok :: "surroundings \<Rightarrow> quest \<Rightarrow> bool" where
  "hunt_ok sr q \<longleftrightarrow>
     (\<exists>info. sr_quest sr (q_id q) = Some info \<and> quest_info_ok info \<and> length (q_progress q) = progress_slots \<and>
        unat (q_progressCount q) = length (first_mobs (qd_endRequirements info)))"

definition quests_ok :: "surroundings \<Rightarrow> character \<Rightarrow> bool" where
  "quests_ok sr chr \<longleftrightarrow>
     hash_set_inv (hash_u16 (sr_hash sr)) q_id (quests chr) \<and> hash_set_inv (hash_u32 (sr_hash sr)) mr_id (monsterQuests chr) \<and>
     (\<forall>k q. hash_set_map q_id (quests chr) k = Some q \<longrightarrow> hunt_ok sr q) \<and>
     counters_ok sr (hash_set_map q_id (quests chr)) (hash_set_map mr_id (monsterQuests chr))"

subsection \<open>Counting\<close>

lemma waiting_over: "finite A \<Longrightarrow> dom m \<subseteq> A \<Longrightarrow> waiting sr m mid = (\<Sum>k \<in> A. case m k of None \<Rightarrow> 0 | Some q \<Rightarrow> open_counters sr q mid)"
  unfolding waiting_def by (rule sum.mono_neutral_cong_left) (auto split: option.splits)

lemma waiting_update:
  assumes "finite (dom m)"
  shows "waiting sr (m(k := x)) mid = waiting sr m mid - (case m k of None \<Rightarrow> 0 | Some q \<Rightarrow> open_counters sr q mid) +
    (case x of None \<Rightarrow> 0 | Some q \<Rightarrow> open_counters sr q mid)"
proof -
  let ?A = "insert k (dom m)" and ?f = "\<lambda>m k. case m k of None \<Rightarrow> 0 | Some q \<Rightarrow> open_counters sr q mid"
  have "finite ?A" "dom (m(k := x)) \<subseteq> ?A" "dom m \<subseteq> ?A" using assms by auto
  then have "waiting sr (m(k := x)) mid = sum (?f (m(k := x))) ?A" "waiting sr m mid = sum (?f m) ?A"
    using waiting_over [of ?A "m(k := x)" sr mid] waiting_over [of ?A m sr mid] by blast+
  moreover have "sum (?f (m(k := x))) (dom m - {k}) = sum (?f m) (dom m - {k})" by (rule sum.cong) auto
  ultimately show ?thesis using assms by (simp add: sum.insert_remove)
qed

lemma open_counters_nonneg: "0 \<le> open_counters sr q mid"
  by (auto simp: open_counters_def intro!: sum_list_nonneg split: option.split)

lemma waiting_nonneg: "0 \<le> waiting sr m mid"
  unfolding waiting_def by (rule sum_nonneg) (rule open_counters_nonneg)

lemma waiting_one: "finite (dom m) \<Longrightarrow> m k = Some q \<Longrightarrow> open_counters sr q mid \<le> waiting sr m mid"
  using waiting_update [of m sr k None mid] waiting_nonneg [of sr "m(k := None)" mid] by simp

lemma open_counters_set:
  assumes "sr_quest sr (q_id q) = Some info" and "i < length (first_mobs (qd_endRequirements info))" and "i < length (q_progress q)"
    and "first_mobs (qd_endRequirements info) ! i = (m, n)"
  shows "open_counters sr (q\<lparr>q_progress := (q_progress q)[i := p]\<rparr>) mid =
    open_counters sr q mid - (if m = mid \<and> q_progress q ! i < n then 1 else 0) + (if m = mid \<and> p < n then 1 else 0)"
proof -
  let ?mobs = "first_mobs (qd_endRequirements info)"
  have "?mobs[i := (m, n)] = ?mobs" using list_update_id [of ?mobs i] assms(4) by simp
  then have "zip ?mobs ((q_progress q)[i := p]) = (zip ?mobs (q_progress q))[i := ((m, n), p)]"
    using zip_update [of ?mobs i "(m, n)" "q_progress q" p] by simp
  then show ?thesis using assms by (simp add: open_counters_def sum_list_map_update)
qed

subsection \<open>The set of monsters\<close>

abbreviation monsters_inv :: "surroundings \<Rightarrow> monster_ref_count hash_set \<Rightarrow> bool" where
  "monsters_inv sr \<equiv> hash_set_inv (hash_u32 (sr_hash sr)) mr_id"

lemma release_monster_ok:
  assumes inv: "monsters_inv sr ms" and m: "hash_set_map mr_id ms mid = Some \<lparr>mr_id = mid, mr_refCount = n\<rparr>" and n: "1 \<le> n" "n \<le> 127"
  shows "\<exists>ms'. release_monster sr mid ms = Inr ms' \<and> monsters_inv sr ms' \<and>
    hash_set_map mr_id ms' = (hash_set_map mr_id ms)(mid := if n = 1 then None else Some \<lparr>mr_id = mid, mr_refCount = n - 1\<rparr>)"
proof -
  let ?ms = "modify_element mr_id mid (\<lambda>m. m\<lparr>mr_refCount := to_i8 (mr_refCount m - 1)\<rparr>) ms"
  have i: "to_i8 (n - 1) = n - 1" using n by (simp add: to_i8_id)
  have M: "monsters_inv sr ?ms" "hash_set_map mr_id ?ms = (hash_set_map mr_id ms)(mid \<mapsto> \<lparr>mr_id = mid, mr_refCount = n - 1\<rparr>)"
    using modify_element_ok [OF inv, of "\<lambda>m. m\<lparr>mr_refCount := to_i8 (mr_refCount m - 1)\<rparr>" mid] m i by simp_all
  have r: "release_monster sr mid ms =
      (if n = 1 then endless (hash_set_u32_remove (sr_hash sr) mr_id (sr_mem sr For_table) ?ms mid) else Inr ?ms)"
    using u32.get_law [OF inv, of mid] m i by (simp add: release_monster_def Let_def)
  show ?thesis
  proof (cases "n = 1")
    case True
    with u32.remove_law [OF M(1), of mid "sr_mem sr For_table"] M(2) r show ?thesis by (auto simp: endless_def)
  next
    case False
    with M r show ?thesis by simp
  qed
qed

lemma need_monster_ok:
  assumes inv: "monsters_inv sr ms" and mem: "sr_mem sr For_monster" and n: "0 \<le> n" "n < 127"
    and m: "hash_set_map mr_id ms mid = (if n = 0 then None else Some \<lparr>mr_id = mid, mr_refCount = n\<rparr>)"
  shows "\<exists>ms'. need_monster sr mid ms = Inr ms' \<and> monsters_inv sr ms' \<and>
    hash_set_map mr_id ms' = (hash_set_map mr_id ms)(mid \<mapsto> \<lparr>mr_id = mid, mr_refCount = n + 1\<rparr>)"
proof (cases "n = 0")
  case True
  with u32.insert_law [OF inv, of "\<lparr>mr_id = mid, mr_refCount = 1\<rparr>"] u32.get_law [OF inv, of mid] m mem show ?thesis
    by (auto simp: need_monster_def endless_def)
next
  case False
  have i: "to_i8 (n + 1) = n + 1" using n by (simp add: to_i8_id)
  from False show ?thesis
    using modify_element_ok [OF inv, of "\<lambda>m. m\<lparr>mr_refCount := to_i8 (mr_refCount m + 1)\<rparr>" mid] u32.get_law [OF inv, of mid] m i
    by (simp add: need_monster_def)
qed

text \<open>One counter less, and one more, that waits for \<open>mid\<close>.\<close>

lemma release_counts:
  assumes inv: "monsters_inv sr ms" and ok: "counts w (hash_set_map mr_id ms)" and pos: "0 < w mid"
  shows "\<exists>ms'. release_monster sr mid ms = Inr ms' \<and> monsters_inv sr ms' \<and> counts (w(mid := w mid - 1)) (hash_set_map mr_id ms')"
proof -
  have m: "hash_set_map mr_id ms mid = Some \<lparr>mr_id = mid, mr_refCount = w mid\<rparr>" "w mid \<le> 127"
    using ok pos by (auto simp: counts_def)
  have "1 \<le> w mid" using pos by simp
  from release_monster_ok [OF inv m(1) this m(2)] obtain ms' where ms': "release_monster sr mid ms = Inr ms'" "monsters_inv sr ms'"
    "hash_set_map mr_id ms' = (hash_set_map mr_id ms)(mid := if w mid = 1 then None else Some \<lparr>mr_id = mid, mr_refCount = w mid - 1\<rparr>)" by blast
  have "counts (w(mid := w mid - 1)) (hash_set_map mr_id ms')" using ok unfolding ms'(3) by (simp add: counts_def) (rule impI, use m(2) in linarith)
  with ms'(1,2) show ?thesis by blast
qed

lemma need_counts:
  assumes inv: "monsters_inv sr ms" and ok: "counts w (hash_set_map mr_id ms)" and w: "0 \<le> w mid" "w mid < 127" and mem: "sr_mem sr For_monster"
  shows "\<exists>ms'. need_monster sr mid ms = Inr ms' \<and> monsters_inv sr ms' \<and> counts (w(mid := w mid + 1)) (hash_set_map mr_id ms')"
proof -
  have "hash_set_map mr_id ms mid = (if w mid = 0 then None else Some \<lparr>mr_id = mid, mr_refCount = w mid\<rparr>)" using ok by (simp add: counts_def)
  from need_monster_ok [OF inv mem w this] obtain ms' where ms': "need_monster sr mid ms = Inr ms'" "monsters_inv sr ms'"
    "hash_set_map mr_id ms' = (hash_set_map mr_id ms)(mid \<mapsto> \<lparr>mr_id = mid, mr_refCount = w mid + 1\<rparr>)" by blast
  have "counts (w(mid := w mid + 1)) (hash_set_map mr_id ms')" using ok w unfolding ms'(3) by (simp add: counts_def)
  with ms'(1,2) show ?thesis by blast
qed

subsection \<open>Killing\<close>

lemma progress_text_ok: "hunt_ok sr q \<Longrightarrow> \<exists>text. progress_text q = Inr text"
  by (auto simp: hunt_ok_def quest_info_ok_def Let_def progress_text_def quest_get_progress_string_def progress_length progress_slots_def
      min_def)

lemma count_kill_simps:
  "q_id (count_kill i q) = q_id q" "i < length (q_progress q) \<Longrightarrow> q_progress (count_kill i q) ! i = q_progress q ! i + 1"
  by (simp_all add: count_kill_def)

text \<open>The invariant of the loop over the quests.\<close>

definition hunting :: "surroundings \<Rightarrow> (u16 \<Rightarrow> quest option) \<Rightarrow> quest_error + monster_ref_count hash_set \<times> message list \<Rightarrow> bool" where
  "hunting sr m r \<longleftrightarrow>
     finite (dom m) \<and> (\<forall>k q. m k = Some q \<longrightarrow> hunt_ok sr q) \<and>
     (\<exists>ms msgs. r = Inr (ms, msgs) \<and> monsters_inv sr ms \<and> counters_ok sr m (hash_set_map mr_id ms))"

lemma open_counter_some:
  assumes "open_counter mid q mobs = Some i" and "length mobs \<le> length (q_progress q)"
  shows "i < length mobs" "fst (mobs ! i) = mid" "q_progress q ! i < snd (mobs ! i)" "i < length (q_progress q)"
  using assms by (auto simp: open_counter_def find_Some_iff)

lemma check_progress_ok:
  assumes h: "hunting sr m r" and q: "m (q_id q) = Some q"
  shows "hunting sr (m(q_id q \<mapsto> fst (check_progress sr mid q r))) (snd (check_progress sr mid q r))"
proof -
  obtain ms msgs where r: "r = Inr (ms, msgs)" "monsters_inv sr ms" "counters_ok sr m (hash_set_map mr_id ms)"
    and fin: "finite (dom m)" and all: "\<And>k q. m k = Some q \<Longrightarrow> hunt_ok sr q"
    using h by (auto simp: hunting_def)
  obtain info where info: "sr_quest sr (q_id q) = Some info" "quest_info_ok info" "length (q_progress q) = progress_slots"
    using all [OF q] by (auto simp: hunt_ok_def)
  let ?mobs = "first_mobs (qd_endRequirements info)"
  have len: "length ?mobs \<le> length (q_progress q)" using info by (simp add: quest_info_ok_def Let_def progress_slots_def)
  show ?thesis
  proof (cases "open_counter mid q ?mobs")
    case None
    then have "check_progress sr mid q r = (q, r)" using r(1) info(1) by (simp add: check_progress_def)
    then show ?thesis using h q by (simp add: map_upd_triv)
  next
    case (Some i)
    note i = open_counter_some [OF Some len]
    let ?q = "count_kill i q" and ?n = "snd (?mobs ! i)"
    have mi: "?mobs ! i = (mid, ?n)" using i(2) by (metis prod.collapse)
    have hq: "hunt_ok sr ?q" using all [OF q] by (simp add: hunt_ok_def count_kill_def)
    obtain str where str: "progress_text ?q = Inr str" using progress_text_ok [OF hq] by blast
    let ?m = "m(q_id q \<mapsto> ?q)"
    have w: "waiting sr ?m x = waiting sr m x - (if x = mid \<and> q_progress q ! i + 1 = ?n then 1 else 0)" for x
      using open_counters_set [OF info(1) i(1,4) mi, of "q_progress q ! i + 1" x] i(3)
      by (auto simp: waiting_update [OF fin] q count_kill_def)
    have all': "\<forall>k q'. ?m k = Some q' \<longrightarrow> hunt_ok sr q'" using all hq by auto
    have e: "check_progress sr mid q r = (?q, case (if q_progress q ! i + 1 = ?n then release_monster sr mid ms else Inr ms) of
        Inl err \<Rightarrow> Inl err | Inr ms \<Rightarrow> Inr (ms, msgs @ [Update_quest (q_id q) str]))"
      using r(1) info(1) Some i(4) str by (simp add: check_progress_def Let_def count_kill_simps cong: sum.case_cong)
    show ?thesis
    proof (cases "q_progress q ! i + 1 = ?n")
      case True
      have "1 \<le> open_counters sr q mid"
        using open_counters_set [OF info(1) i(1,4) mi, of ?n mid] i(3) open_counters_nonneg [of sr "q\<lparr>q_progress := (q_progress q)[i := ?n]\<rparr>" mid] by simp
      then have pos: "0 < waiting sr m mid" using waiting_one [OF fin q, of sr mid] by simp
      have "waiting sr ?m = (waiting sr m)(mid := waiting sr m mid - 1)" using True by (auto simp: fun_eq_iff w)
      with release_counts [OF r(2,3) pos] obtain ms' where
        "release_monster sr mid ms = Inr ms'" "monsters_inv sr ms'" "counters_ok sr ?m (hash_set_map mr_id ms')" by auto
      then show ?thesis using e True fin all' by (simp add: hunting_def)
    next
      case False
      then have "waiting sr ?m = waiting sr m" by (simp add: fun_eq_iff w)
      then have "counters_ok sr ?m (hash_set_map mr_id ms)" using r(3) by simp
      then show ?thesis using e False fin all' r(2) by (simp add: hunting_def)
    qed
  qed
qed

lemma check_progress_key: "q_id (fst (check_progress sr mid q r)) = q_id q"
  by (auto simp: check_progress_def count_kill_def Let_def split: sum.split option.split)

lemma send_all_simps [simp]: "cl_character (send_all msgs c) = cl_character c"
  unfolding send_all_def by (induction msgs arbitrary: c) simp_all

text \<open>What a kill does to a quest: the first open counter for the monster goes up.\<close>

definition hunted :: "surroundings \<Rightarrow> u32 \<Rightarrow> quest \<Rightarrow> quest" where
  "hunted sr mid q =
     (case sr_quest sr (q_id q) of
        None \<Rightarrow> q
      | Some info \<Rightarrow> (case open_counter mid q (first_mobs (qd_endRequirements info)) of None \<Rightarrow> q | Some i \<Rightarrow> count_kill i q))"

lemma hunt_ok_length:
  "hunt_ok sr q \<Longrightarrow> sr_quest sr (q_id q) = Some info \<Longrightarrow> length (first_mobs (qd_endRequirements info)) \<le> length (q_progress q)"
  by (auto simp: hunt_ok_def quest_info_ok_def Let_def progress_slots_def)

lemma check_progress_hunted:
  assumes "hunt_ok sr q" and "r = Inr x"
  shows "fst (check_progress sr mid q r) = hunted sr mid q"
proof -
  obtain info where info: "sr_quest sr (q_id q) = Some info" using assms(1) by (auto simp: hunt_ok_def)
  show ?thesis
    using info assms(2) open_counter_some(4) [OF _ hunt_ok_length [OF assms(1) info], of mid]
    by (auto simp: check_progress_def hunted_def Let_def split: prod.split option.split)
qed

lemma hunted_idle:
  assumes q: "hunt_ok sr q" and none: "open_counters sr q mid = 0"
  shows "hunted sr mid q = q"
proof -
  obtain info where info: "sr_quest sr (q_id q) = Some info" using q by (auto simp: hunt_ok_def)
  let ?mobs = "first_mobs (qd_endRequirements info)"
  have False if o: "open_counter mid q ?mobs = Some i" for i
  proof -
    note i = open_counter_some [OF o hunt_ok_length [OF q info]]
    have "?mobs ! i = (mid, snd (?mobs ! i))" using i(2) by (metis prod.collapse)
    from open_counters_set [OF info i(1,4) this, of "snd (?mobs ! i)" mid] i(3) none
      open_counters_nonneg [of sr "q\<lparr>q_progress := (q_progress q)[i := snd (?mobs ! i)]\<rparr>" mid]
    show False by simp
  qed
  then have "open_counter mid q ?mobs = None" by (cases "open_counter mid q ?mobs") auto
  then show ?thesis using info by (simp add: hunted_def)
qed

lemma count_monster_ok:
  assumes "quests_ok sr (cl_character c)"
  shows "\<exists>c'. count_monster sr mid c = Inr c' \<and> quests_ok sr (cl_character c') \<and>
    hash_set_map q_id (quests (cl_character c')) = (\<lambda>k. map_option (hunted sr mid) (hash_set_map q_id (quests (cl_character c)) k))"
proof -
  let ?chr = "cl_character c" and ?m = "hash_set_map q_id (quests (cl_character c))"
  have inv: "hash_set_inv (hash_u16 (sr_hash sr)) q_id (quests ?chr)" "monsters_inv sr (monsterQuests ?chr)"
    and all: "\<And>k q. ?m k = Some q \<Longrightarrow> hunt_ok sr q" and fin: "finite (dom ?m)"
    using assms by (auto simp: quests_ok_def dom_hash_set_map)
  show ?thesis
  proof (cases "hash_set_map mr_id (monsterQuests ?chr) mid")
    case None
    then have "waiting sr ?m mid = 0" using assms by (auto simp: quests_ok_def counts_def split: if_splits)
    then have "open_counters sr q mid = 0" if "?m k = Some q" for k q
      using waiting_one [OF fin that, of sr mid] open_counters_nonneg [of sr q mid] by simp
    then have "map_option (hunted sr mid) (?m k) = ?m k" for k using hunted_idle all by (cases "?m k") auto
    then show ?thesis using None u32.get_law [OF inv(2), of mid] assms by (simp add: count_monster_def Let_def)
  next
    case (Some x)
    obtain qs r where f: "hash_set_foreach_keep (check_progress sr mid) (quests ?chr) (Inr (monsterQuests ?chr, [])) = (qs, r)"
      by fastforce
    let ?P = "\<lambda>V m r. hunting sr m r \<and> m = (\<lambda>k. if k \<in> V then map_option (hunted sr mid) (?m k) else ?m k)"
    have h0: "?P {} ?m (Inr (monsterQuests ?chr, []))"
      using assms by (auto simp: hunting_def quests_ok_def dom_hash_set_map)
    have step: "?P (insert (q_id q) V) (m(q_id q \<mapsto> fst (check_progress sr mid q r))) (snd (check_progress sr mid q r))"
      if "q_id q \<notin> V" "m (q_id q) = Some q" "?m (q_id q) = Some q" "?P V m r" for V m q r
    proof -
      have h: "hunting sr m r" using that(4) by blast
      then obtain y where y: "r = Inr y" by (auto simp: hunting_def)
      show ?thesis
      proof
        show "hunting sr (m(q_id q \<mapsto> fst (check_progress sr mid q r))) (snd (check_progress sr mid q r))"
          by (rule check_progress_ok [OF h that(2)])
        show "m(q_id q \<mapsto> fst (check_progress sr mid q r)) =
            (\<lambda>k. if k \<in> insert (q_id q) V then map_option (hunted sr mid) (?m k) else ?m k)"
          using that check_progress_hunted [OF all [OF that(3)] y, of mid] by (auto simp: fun_eq_iff)
      qed
    qed
    have "hash_set_inv (hash_u16 (sr_hash sr)) q_id qs \<and> ?P (dom ?m) (hash_set_map q_id qs) r"
      by (rule foreach_rule [where P = ?P, OF inv(1) check_progress_key h0 step f])
    then have r: "hash_set_inv (hash_u16 (sr_hash sr)) q_id qs" "hunting sr (hash_set_map q_id qs) r"
      "hash_set_map q_id qs = (\<lambda>k. map_option (hunted sr mid) (?m k))" by (auto simp: fun_eq_iff domIff)
    then show ?thesis
      using f Some u32.get_law [OF inv(2), of mid]
      by (auto simp: count_monster_def Let_def hash_set_u16_foreach_def hunting_def quests_ok_def)
  qed
qed

subsection \<open>Giving up\<close>

definition open_in :: "(u32 \<times> int) list \<Rightarrow> int list \<Rightarrow> u32 \<Rightarrow> int" where
  "open_in mobs ps mid = sum_list (map (\<lambda>((m, n), p). if m = mid \<and> p < n then 1 else 0) (zip mobs ps))"

lemma open_in_simps [simp]:
  "open_in [] ps mid = 0" "open_in ((m, n) # mobs) (p # ps) mid = (if m = mid \<and> p < n then 1 else 0) + open_in mobs ps mid"
  by (simp_all add: open_in_def)

lemma open_in_nonneg: "0 \<le> open_in mobs ps mid"
  by (auto simp: open_in_def intro!: sum_list_nonneg)

lemma release_open_ok:
  assumes "i + length mobs \<le> length (q_progress q)" and "monsters_inv sr ms" and "counts w (hash_set_map mr_id ms)"
    and "\<And>mid. open_in mobs (drop i (q_progress q)) mid \<le> w mid"
  shows "\<exists>ms'. release_open sr q i mobs ms = Inr ms' \<and> monsters_inv sr ms' \<and>
    counts (\<lambda>mid. w mid - open_in mobs (drop i (q_progress q)) mid) (hash_set_map mr_id ms')"
  using assms
proof (induction mobs arbitrary: i ms w)
  case (Cons mob mobs)
  obtain m n where mob: "mob = (m, n)" by fastforce
  have i: "i < length (q_progress q)" using Cons.prems(1) by simp
  then have d: "drop i (q_progress q) = q_progress q ! i # drop (Suc i) (q_progress q)" by (simp add: Cons_nth_drop_Suc)
  show ?case
  proof (cases "q_progress q ! i < n")
    case True
    have le: "(if m = mid then 1 else 0) + open_in mobs (drop (Suc i) (q_progress q)) mid \<le> w mid" for mid
      using Cons.prems(4) [of mid] True by (simp add: d mob)
    then have "0 < w m" using le [of m] open_in_nonneg [of mobs "drop (Suc i) (q_progress q)" m] by simp
    from release_counts [OF Cons.prems(2,3) this] obtain ms' where ms': "release_monster sr m ms = Inr ms'" "monsters_inv sr ms'"
      "counts (w(m := w m - 1)) (hash_set_map mr_id ms')" by blast
    have "open_in mobs (drop (Suc i) (q_progress q)) mid \<le> (w(m := w m - 1)) mid" for mid
      using le [of mid] by (auto split: if_splits)
    from Cons.IH [OF _ ms'(2,3) this] Cons.prems(1) obtain ms'' where ms'': "release_open sr q (Suc i) mobs ms' = Inr ms''" "monsters_inv sr ms''"
      "counts (\<lambda>mid. (w(m := w m - 1)) mid - open_in mobs (drop (Suc i) (q_progress q)) mid) (hash_set_map mr_id ms'')" by auto
    have "(\<lambda>mid. (w(m := w m - 1)) mid - open_in mobs (drop (Suc i) (q_progress q)) mid) =
        (\<lambda>mid. w mid - open_in (mob # mobs) (drop i (q_progress q)) mid)"
      using True by (auto simp: fun_eq_iff d mob)
    then show ?thesis using ms'(1) ms'' True i by (simp add: mob)
  next
    case False
    have "open_in mobs (drop (Suc i) (q_progress q)) mid \<le> w mid" for mid
      using Cons.prems(4) [of mid] False by (simp add: d mob)
    from Cons.IH [OF _ Cons.prems(2,3) this] Cons.prems(1) show ?thesis using False i by (simp add: mob d)
  qed
qed simp

lemma release_none: "concat (map mobs_of rs) = [] \<Longrightarrow> release_all sr q rs ms = Inr ms"
  by (induction rs) auto

lemma release_all_first:
  "concat (map mobs_of rs) = first_mobs rs \<Longrightarrow> release_all sr q rs ms = release_open sr q 0 (first_mobs rs) ms"
proof (induction rs)
  case (Cons r rs)
  show ?case
  proof (cases "\<exists>mobs. r = Needs_mobs mobs")
    case True
    with Cons.prems have "concat (map mobs_of rs) = []" by auto
    with True show ?thesis by (auto simp: release_none split: sum.split)
  next
    case False
    with Cons show ?thesis by (cases r) simp_all
  qed
qed simp

lemma open_counters_in: "sr_quest sr (q_id q) = Some info \<Longrightarrow> open_counters sr q = open_in (first_mobs (qd_endRequirements info)) (q_progress q)"
  by (simp add: open_counters_def open_in_def fun_eq_iff)

lemma forfeit_ok:
  assumes "quests_ok sr (cl_character c)"
  shows "\<exists>c'. client_forfeit_quest sr c qid = Inr c' \<and> quests_ok sr (cl_character c') \<and>
    hash_set_map q_id (quests (cl_character c')) = (hash_set_map q_id (quests (cl_character c)))(qid := None)"
proof -
  let ?chr = "cl_character c" and ?m = "hash_set_map q_id (quests (cl_character c))"
  have inv: "hash_set_inv (hash_u16 (sr_hash sr)) q_id (quests ?chr)" "monsters_inv sr (monsterQuests ?chr)"
    and all: "\<And>k q. ?m k = Some q \<Longrightarrow> hunt_ok sr q" and cnt: "counters_ok sr ?m (hash_set_map mr_id (monsterQuests ?chr))"
    using assms by (auto simp: quests_ok_def)
  have fin: "finite (dom ?m)" by (simp add: dom_hash_set_map)
  have get: "get_quest sr ?chr qid = Inr (?m qid)" using u16.get_law [OF inv(1), of qid] by (simp add: get_quest_def endless_def)
  show ?thesis
  proof (cases "?m qid")
    case None
    then have "?m(qid := None) = ?m" by auto
    with None show ?thesis using assms get by (simp add: client_forfeit_quest_def Let_def)
  next
    case (Some q)
    have key: "q_id q = qid" using u16.content_key [OF inv(1) Some] .
    obtain info where info: "sr_quest sr qid = Some info" "quest_info_ok info" "length (q_progress q) = progress_slots"
      using all [OF Some] by (auto simp: hunt_ok_def key)
    let ?mobs = "first_mobs (qd_endRequirements info)"
    have one: "concat (map mobs_of (qd_endRequirements info)) = ?mobs" and len: "0 + length ?mobs \<le> length (q_progress q)"
      using info(2,3) by (simp_all add: quest_info_ok_def Let_def progress_slots_def)
    have oc: "open_counters sr q = open_in ?mobs (q_progress q)" using open_counters_in info(1) key by blast
    have "open_in ?mobs (drop 0 (q_progress q)) mid \<le> waiting sr ?m mid" for mid
      using waiting_one [OF fin Some, of sr mid] by (simp add: oc)
    from release_open_ok [OF len inv(2) cnt this] obtain ms where ms: "release_open sr q 0 ?mobs (monsterQuests ?chr) = Inr ms" "monsters_inv sr ms"
      "counts (\<lambda>mid. waiting sr ?m mid - open_in ?mobs (q_progress q) mid) (hash_set_map mr_id ms)" by auto
    have "(\<lambda>mid. waiting sr ?m mid - open_in ?mobs (q_progress q) mid) = waiting sr (?m(qid := None))"
      by (simp add: fun_eq_iff waiting_update [OF fin] Some oc)
    then have c2: "counters_ok sr (?m(qid := None)) (hash_set_map mr_id ms)" using ms(3) by simp
    from u16.remove_law [OF inv(1), of qid "sr_mem sr For_table"] Some obtain qs where qs:
      "hash_set_u16_remove (sr_hash sr) q_id (sr_mem sr For_table) (quests ?chr) qid = Some qs" "hash_set_inv (hash_u16 (sr_hash sr)) q_id qs"
      "hash_set_map q_id qs = ?m(qid := None)" by auto
    let ?c = "send To_session (Forfeit_quest qid) (c\<lparr>cl_character := ?chr\<lparr>monsterQuests := ms, quests := qs\<rparr>\<rparr>)"
    have "client_forfeit_quest sr c qid = Inr ?c"
      using get Some info(1) ms(1) qs(1) release_all_first [OF one, of sr q "monsterQuests ?chr"]
      by (simp add: client_forfeit_quest_def Let_def remove_quest_def endless_def)
    moreover have "quests_ok sr (cl_character ?c)"
      using ms(2) c2 qs(2,3) all by (auto simp: quests_ok_def)
    ultimately show ?thesis using qs(3) by (intro exI [of _ ?c]) simp
  qed
qed

subsection \<open>Starting\<close>

lemma need_monsters_ok:
  assumes "unat (q_progressCount q) + length mids \<le> progress_slots" and "q_progress q = replicate progress_slots 0"
    and "monsters_inv sr ms" and "counts w (hash_set_map mr_id ms)" and "sr_mem sr For_monster"
    and "\<And>mid. 0 \<le> w mid" and "\<And>mid. w mid + int (count_list mids mid) \<le> 127"
  shows "\<exists>ms'. need_monsters sr mids q ms = Inr (q\<lparr>q_progressCount := q_progressCount q + of_nat (length mids)\<rparr>, ms') \<and>
    monsters_inv sr ms' \<and> counts (\<lambda>mid. w mid + int (count_list mids mid)) (hash_set_map mr_id ms')"
  using assms
proof (induction mids arbitrary: q ms w)
  case (Cons m mids)
  have m: "w m < 127" using Cons.prems(7) [of m] by simp
  from need_counts [OF Cons.prems(3,4,6) m Cons.prems(5)] obtain ms1 where ms1: "need_monster sr m ms = Inr ms1" "monsters_inv sr ms1"
    "counts (w(m := w m + 1)) (hash_set_map mr_id ms1)" by blast
  let ?q = "q\<lparr>q_progress := (q_progress q)[unat (q_progressCount q) := 0], q_progressCount := q_progressCount q + 1\<rparr>"
  have n: "unat (q_progressCount q) < progress_slots" using Cons.prems(1) by simp
  then have u: "unat (q_progressCount q + 1) = Suc (unat (q_progressCount q))"
    by (simp add: progress_slots_def unat_word_ariths)
  have p: "(q_progress q)[unat (q_progressCount q) := 0] = q_progress q"
    using Cons.prems(2) n by (metis list_update_id nth_replicate)
  have "0 \<le> (w(m := w m + 1)) mid" "(w(m := w m + 1)) mid + int (count_list mids mid) \<le> 127" for mid
    using Cons.prems(6,7) [of mid] by (auto split: if_splits)
  with Cons.IH [of ?q ms1 "w(m := w m + 1)", OF _ _ ms1(2,3) Cons.prems(5)] Cons.prems(1,2) u p
  obtain ms' where ms': "need_monsters sr mids ?q ms1 = Inr (?q\<lparr>q_progressCount := q_progressCount ?q + of_nat (length mids)\<rparr>, ms')"
    "monsters_inv sr ms'" "counts (\<lambda>mid. (w(m := w m + 1)) mid + int (count_list mids mid)) (hash_set_map mr_id ms')"
    by auto
  have w: "(\<lambda>mid. (w(m := w m + 1)) mid + int (count_list mids mid)) = (\<lambda>mid. w mid + int (count_list (m # mids) mid))" by auto
  have "?q\<lparr>q_progressCount := q_progressCount ?q + of_nat (length mids)\<rparr> = q\<lparr>q_progressCount := q_progressCount q + of_nat (length (m # mids))\<rparr>"
    by (simp add: p)
  then show ?case using ms1(1) ms' n unfolding w by (auto simp: Let_def)
qed simp

text \<open>What an act of a quest leaves alone.\<close>

definition same_quests :: "character \<Rightarrow> character \<Rightarrow> bool" where
  "same_quests chr chr' \<longleftrightarrow> quests chr' = quests chr \<and> monsterQuests chr' = monsterQuests chr \<and> completedQuests chr' = completedQuests chr"

lemma same_quests_trans: "same_quests x y \<Longrightarrow> same_quests y z \<Longrightarrow> same_quests x z"
  by (simp add: same_quests_def)

lemma quests_ok_same: "same_quests chr chr' \<Longrightarrow> quests_ok sr chr' = quests_ok sr chr"
  by (simp add: same_quests_def quests_ok_def)

lemma set_max_same:
  "same_quests chr (character_set_max_hp chr v)" "same_quests chr (character_set_max_mp chr v)" "same_quests chr (character_set_hp chr v)"
  "same_quests chr (character_set_mp chr v)" "same_quests chr (character_set_ap chr v)"
  by (simp_all add: same_quests_def character_set_max_hp_def character_set_max_mp_def character_set_hp_def character_set_mp_def character_set_ap_def)

lemma raise_max_quests: "same_quests chr (raise_max rnd n a b p q chr)"
  using same_quests_trans [OF set_max_same(1,2)] by (simp add: raise_max_def Let_def)

lemma level_points_quests: "same_quests (cl_character c) (cl_character (level_points c))"
  by (simp add: level_points_def Let_def same_quests_def character_set_ap_def)

lemma level_hpmp_quests: "level_hpmp xxh3 rnd n chr = Inr (chr', n') \<Longrightarrow> same_quests chr chr'"
  using raise_max_quests [of chr] same_quests_trans [OF raise_max_quests [of chr] set_max_same(2)]
  by (auto simp: level_hpmp_def mp_skill_bonus_def Let_def same_quests_def split: if_splits option.splits sum.splits)

lemma level_up_quests:
  assumes "level_up xxh3 rnd n c = Inr (c', n')"
  shows "same_quests (cl_character c) (cl_character c')"
proof -
  obtain chr m where h: "level_hpmp xxh3 rnd n (cl_character (level_points c)) = Inr (chr, m)"
    using assms by (auto simp: level_up_def Let_def split: sum.splits)
  have "same_quests (cl_character c) chr" using same_quests_trans [OF level_points_quests level_hpmp_quests [OF h]] .
  moreover have "same_quests chr (cl_character c')"
    using assms h by (auto simp: level_up_def Let_def same_quests_def character_set_hp_def character_set_mp_def character_set_max_mp_def)
  ultimately show ?thesis by (rule same_quests_trans)
qed

lemma gain_loop_quests: "gain_loop xxh3 rnd n c g = Inr (c', n') \<Longrightarrow> same_quests (cl_character c) (cl_character c')"
proof (induction xxh3 rnd n c g rule: gain_loop.induct)
  case (1 xxh3 rnd n c gain)
  obtain chr r where g: "character_gain_exp (cl_character c) gain = Inr (chr, r)"
    using "1.prems" by (subst (asm) gain_loop.simps) (auto split: sum.splits)
  have s: "same_quests (cl_character c) chr"
    using g by (auto simp: character_gain_exp_def same_quests_def Let_def split: if_splits)
  show ?case
  proof (cases "r < 0")
    case True
    then show ?thesis using "1.prems" g s by (subst (asm) gain_loop.simps) auto
  next
    case False
    then obtain d m where u: "level_up xxh3 rnd n (c\<lparr>cl_character := chr\<rparr>) = Inr (d, m)" "gain_loop xxh3 rnd m d r = Inr (c', n')"
      using "1.prems" g by (subst (asm) gain_loop.simps) (auto split: sum.splits)
    have "same_quests (cl_character d) (cl_character c')" using "1.IH" g False u by blast
    then show ?thesis using s level_up_quests [OF u(1)] by (auto intro: same_quests_trans)
  qed
qed

lemma gain_exp_quests: "client_gain_exp xxh3 rnd n c g b = Inr (c', n') \<Longrightarrow> same_quests (cl_character c) (cl_character c')"
  using gain_loop_quests by (fastforce simp: client_gain_exp_def)

lemma gain_meso_quests: "client_gain_meso c n b r = Some c' \<Longrightarrow> same_quests (cl_character c) (cl_character c')"
  by (auto simp: client_gain_meso_def same_quests_def character_set_meso_def Let_def split: if_splits)

lemma gain_items_quests: "client_gain_items mem remem wz wze c rs b = Inr (c', r) \<Longrightarrow> same_quests (cl_character c) (cl_character c')"
  by (auto simp: client_gain_items_def Let_def same_quests_def store_exchange_def split: if_splits sum.splits option.splits)

lemma hand_out_quests: "hand_out sr c rs = Inr (c', r) \<Longrightarrow> same_quests (cl_character c) (cl_character c')"
  by (auto simp: hand_out_def dest!: gain_items_quests split: sum.splits option.splits bool.splits)

lemma item_act_quests: "item_act sr b i c its = Inr (c', r) \<Longrightarrow> same_quests (cl_character c) (cl_character c')"
  by (auto simp: item_act_def same_quests_def dest!: hand_out_quests split: sum.splits option.splits if_splits)

lemma start_act_quests: "start_act sr i c a = Inr (c', r) \<Longrightarrow> same_quests (cl_character c) (cl_character c')"
  by (cases a) (auto simp: exp_act_def meso_act_def same_quests_def dest!: gain_exp_quests gain_meso_quests item_act_quests split: sum.splits option.splits)

lemma run_acts_rule:
  assumes "run_acts act i as s = Inr (s', r)" and "P s" and "\<And>i s a s' r. P s \<Longrightarrow> act i s a = Inr (s', r) \<Longrightarrow> P s'"
  shows "P s'"
  using assms(1,2)
proof (induction as arbitrary: i s)
  case (Cons a as)
  then obtain s1 r1 where "act i s a = Inr (s1, r1)" by (auto split: sum.splits)
  with Cons assms(3) show ?case by (cases r1) auto
qed simp

lemma start_counters:
  assumes "sr_quest sr qid = Some info" and "quest_info_ok info"
    and "q_id q = qid" "q_progress q = replicate progress_slots 0"
  shows "open_counters sr q mid = int (count_list (map fst (first_mobs (qd_endRequirements info))) mid)"
proof -
  have "open_in mobs (replicate n 0) mid = int (count_list (map fst mobs) mid)" if "length mobs \<le> n" "\<forall>(m, k) \<in> set mobs. 0 < k" for mobs n
    using that
  proof (induction mobs arbitrary: n)
    case (Cons mob mobs)
    then show ?case by (cases n; cases mob) auto
  qed simp
  moreover have "length (first_mobs (qd_endRequirements info)) \<le> progress_slots" "\<forall>(m, k) \<in> set (first_mobs (qd_endRequirements info)). 0 < k"
    using assms(2) by (simp_all add: quest_info_ok_def Let_def progress_slots_def)
  ultimately show ?thesis using open_counters_in [of sr q info] assms by simp
qed

text \<open>The state after the quest has been added, with its counters.\<close>

lemma start_adds_quest:
  assumes ok: "quests_ok sr chr" and info: "sr_quest sr qid = Some info" "quest_info_ok info"
    and new: "hash_set_map q_id (quests chr) qid = None" and mem: "sr_mem sr For_monster"
    and few: "\<And>mid. waiting sr (hash_set_map q_id (quests chr)) mid + int (count_list (map fst (first_mobs (qd_endRequirements info))) mid) \<le> 127"
    and ins: "need_monsters sr (map fst (concat (map mobs_of (qd_endRequirements info)))) (new_quest qid) (monsterQuests chr) = Inr (q, ms)"
      "hash_set_u16_insert (sr_hash sr) q_id True (quests chr) q = Some (qs, r)"
  shows "r = 0 \<and> q_id q = qid \<and> q_progress q = replicate progress_slots 0 \<and> hash_set_map q_id qs = (hash_set_map q_id (quests chr))(qid \<mapsto> q) \<and>
    quests_ok sr (chr\<lparr>quests := qs, monsterQuests := ms\<rparr>)"
proof -
  let ?m = "hash_set_map q_id (quests chr)" and ?mobs = "first_mobs (qd_endRequirements info)"
  have inv: "hash_set_inv (hash_u16 (sr_hash sr)) q_id (quests chr)" "monsters_inv sr (monsterQuests chr)"
    and all: "\<And>k q. ?m k = Some q \<Longrightarrow> hunt_ok sr q" and cnt: "counters_ok sr ?m (hash_set_map mr_id (monsterQuests chr))"
    using ok by (auto simp: quests_ok_def)
  have fin: "finite (dom ?m)" by (simp add: dom_hash_set_map)
  have one: "concat (map mobs_of (qd_endRequirements info)) = ?mobs" "length ?mobs \<le> 4"
    using info(2) by (simp_all add: quest_info_ok_def Let_def)
  have "unat (q_progressCount (new_quest qid)) + length (map fst ?mobs) \<le> progress_slots" "q_progress (new_quest qid) = replicate progress_slots 0"
    using one(2) by (simp_all add: new_quest_def progress_slots_def)
  from need_monsters_ok [OF this inv(2) cnt mem waiting_nonneg few]
  have q: "q = new_quest qid\<lparr>q_progressCount := of_nat (length ?mobs)\<rparr>" "monsters_inv sr ms"
    "counts (\<lambda>mid. waiting sr ?m mid + int (count_list (map fst ?mobs) mid)) (hash_set_map mr_id ms)"
    using ins(1) one(1) by (auto simp: new_quest_def)
  then have k: "q_id q = qid" "q_progress q = replicate progress_slots 0" by (simp_all add: new_quest_def)
  from u16.insert_law [OF inv(1), of q] new k(1) ins(2) have
    qs: "r = 0" "hash_set_inv (hash_u16 (sr_hash sr)) q_id qs" "hash_set_map q_id qs = ?m(qid \<mapsto> q)" by auto
  have "(\<lambda>mid. waiting sr ?m mid + int (count_list (map fst ?mobs) mid)) = waiting sr (?m(qid \<mapsto> q))"
    using start_counters [OF info k] by (simp add: fun_eq_iff waiting_update [OF fin] new)
  then have "counters_ok sr (?m(qid \<mapsto> q)) (hash_set_map mr_id ms)" using q(3) by simp
  moreover have "hunt_ok sr q" using info one(2) k(1) q(1) by (simp add: hunt_ok_def new_quest_def unat_of_nat)
  ultimately show ?thesis using qs k all q(2) by (auto simp: quests_ok_def)
qed

lemma remove_quest_ok:
  assumes "hash_set_inv (hash_u16 (sr_hash sr)) q_id (quests chr)" and "hash_set_map q_id (quests chr) qid \<noteq> None"
  shows "\<exists>qs. remove_quest sr qid chr = Inr (chr\<lparr>quests := qs\<rparr>) \<and> hash_set_inv (hash_u16 (sr_hash sr)) q_id qs \<and>
    hash_set_map q_id qs = (hash_set_map q_id (quests chr))(qid := None)"
  using u16.remove_law [OF assms, of "sr_mem sr For_table"] by (auto simp: remove_quest_def endless_def)

text \<open>Nothing waits for the counters that a quest leaves behind.\<close>

lemma stale_counters:
  assumes "quests_ok sr chr" and "hash_set_map q_id (quests chr) qid = Some q"
    and "hash_set_map q_id qs = (hash_set_map q_id (quests chr))(qid := None)" and "hash_set_inv (hash_u16 (sr_hash sr)) q_id qs"
  shows "quests_ok sr (chr\<lparr>quests := qs\<rparr>) \<longleftrightarrow> (\<forall>mid. open_counters sr q mid = 0)"
proof -
  let ?m = "hash_set_map q_id (quests chr)"
  have fin: "finite (dom ?m)" by (simp add: dom_hash_set_map)
  have w: "waiting sr (?m(qid := None)) mid = waiting sr ?m mid - open_counters sr q mid" for mid
    by (simp add: waiting_update [OF fin] assms(2))
  have cnt: "counters_ok sr ?m (hash_set_map mr_id (monsterQuests chr))" using assms(1) by (simp add: quests_ok_def)
  have "counters_ok sr (?m(qid := None)) (hash_set_map mr_id (monsterQuests chr)) \<longleftrightarrow> (\<forall>mid. open_counters sr q mid = 0)"
  proof
    assume c: "counters_ok sr (?m(qid := None)) (hash_set_map mr_id (monsterQuests chr))"
    show "\<forall>mid. open_counters sr q mid = 0"
    proof
      fix mid
      have "(if waiting sr ?m mid = 0 then None else Some \<lparr>mr_id = mid, mr_refCount = waiting sr ?m mid\<rparr>) =
          (if waiting sr (?m(qid := None)) mid = 0 then None else Some \<lparr>mr_id = mid, mr_refCount = waiting sr (?m(qid := None)) mid\<rparr>)"
        using c cnt unfolding counts_def by metis
      then show "open_counters sr q mid = 0" using w [of mid] by (simp split: if_splits)
    qed
  next
    assume "\<forall>mid. open_counters sr q mid = 0"
    then have "waiting sr (?m(qid := None)) = waiting sr ?m" using w by (simp add: fun_eq_iff)
    then show "counters_ok sr (?m(qid := None)) (hash_set_map mr_id (monsterQuests chr))" using cnt by simp
  qed
  then show ?thesis using assms by (auto simp: quests_ok_def split: if_splits)
qed

subsection \<open>Ending\<close>

lemma teach_quests: "teach sr a js c = Inr c' \<Longrightarrow> same_quests (cl_character c) (cl_character c')"
proof (induction js arbitrary: c)
  case (Cons j js)
  show ?case
  proof (cases "chr_job (cl_character c) = unat j")
    case True
    with Cons.prems obtain hs where "teach sr a js (send To_session (Update_skill (qsa_id a) (qsa_level a) (qsa_masterLevel a))
        (on_character (\<lambda>chr. chr\<lparr>skills := hs\<rparr>) c)) = Inr c'" by (auto split: option.splits)
    from Cons.IH [OF this] show ?thesis by (simp add: same_quests_def)
  qed (use Cons in simp)
qed (simp add: same_quests_def)

lemma teach_all_quests: "teach_all sr as c = Inr c' \<Longrightarrow> same_quests (cl_character c) (cl_character c')"
proof (induction as arbitrary: c)
  case (Cons a as)
  then obtain d where "teach sr a (qsa_jobs a) c = Inr d" "teach_all sr as d = Inr c'" by (auto split: sum.splits)
  with Cons.IH teach_quests show ?case by (blast intro: same_quests_trans)
qed (simp add: same_quests_def)

lemma keep_nextD: "keep_next nxt r = Inr (s, x) \<Longrightarrow> \<exists>c. r = Inr (c, x) \<and> fst s = c"
  by (cases r) (auto simp: keep_next_def)

lemma end_act_quests:
  assumes "end_act sr i s a = Inr (s', r)"
  shows "same_quests (cl_character (fst s)) (cl_character (fst s'))"
proof (cases s)
  case (Pair c nxt)
  show ?thesis
  proof (cases a)
    case (Act_skills as)
    then show ?thesis using assms Pair teach_all_quests by (cases "teach_all sr as c") auto
  qed (use assms Pair in \<open>auto simp: exp_act_def meso_act_def same_quests_def
      dest!: keep_nextD gain_exp_quests gain_meso_quests item_act_quests split: sum.splits option.splits\<close>)
qed

lemma remove_info_quests: "remove_info sr qid chr = Inr chr' \<Longrightarrow> quests chr' = quests chr \<and> monsterQuests chr' = monsterQuests chr"
  by (auto simp: remove_info_def endless_def split: sum.splits option.splits)

lemma end_quest_quests:
  assumes inv: "hash_set_inv (hash_u16 (sr_hash sr)) q_id (quests (cl_character c))" and at: "hash_set_map q_id (quests (cl_character c)) qid \<noteq> None"
    and e: "end_quest sr c qid npc = Inr (c', Some True)"
  shows "\<exists>qs. quests (cl_character c') = qs \<and> hash_set_inv (hash_u16 (sr_hash sr)) q_id qs \<and>
    hash_set_map q_id qs = (hash_set_map q_id (quests (cl_character c)))(qid := None) \<and>
    monsterQuests (cl_character c') = monsterQuests (cl_character c)"
proof -
  let ?chr = "cl_character c"
  obtain cs r where ins: "hash_set_u16_insert (sr_hash sr) cq_id (sr_mem sr For_quest) (completedQuests ?chr) \<lparr>cq_id = qid, cq_time = sr_time sr\<rparr> = Some (cs, r)" "r \<noteq> - 1"
    using e by (auto simp: end_quest_def Let_def split: option.splits if_splits)
  obtain info where info: "sr_quest sr qid = Some info" using e ins by (auto simp: end_quest_def Let_def split: option.splits)
  let ?c = "send To_others (Show_foreign_effect (chr_id ?chr) 9) (send To_session (Show_effect 9)
      (send To_session (Quest_completion_time (sr_gmtoff sr) qid (sr_time sr)) (c\<lparr>cl_character := ?chr\<lparr>completedQuests := cs\<rparr>\<rparr>)))"
  obtain d nxt x where acts: "run_acts (end_act sr) 0 (qd_endActs info) (?c, 0) = Inr ((d, nxt), x)"
    using e ins info by (auto simp: end_quest_def Let_def split: sum.splits)
  have "same_quests (cl_character ?c) (cl_character (fst (d, nxt)))"
    by (rule run_acts_rule [OF acts]) (auto simp: same_quests_def dest!: end_act_quests)
  then have d: "quests (cl_character d) = quests ?chr" "monsterQuests (cl_character d) = monsterQuests ?chr" by (simp_all add: same_quests_def)
  have x: "x = Went_on" and a: "announce_end sr qid npc nxt d = Inr (c', Some True)"
    using e ins info acts by (cases x; auto simp: end_quest_def Let_def withdraw_def split: sum.splits if_splits)+
  let ?d = "send To_session (End_quest qid npc nxt) (client_commit_stats d)"
  from remove_quest_ok [of sr "cl_character d" qid] inv at d obtain qs where qs: "remove_quest sr qid (cl_character d) = Inr ((cl_character d)\<lparr>quests := qs\<rparr>)"
    "hash_set_inv (hash_u16 (sr_hash sr)) q_id qs" "hash_set_map q_id qs = (hash_set_map q_id (quests ?chr))(qid := None)" by auto
  obtain chr where chr: "remove_info sr qid ((cl_character d)\<lparr>quests := qs\<rparr>) = Inr chr" "cl_character c' = chr"
    using a qs(1) by (cases "remove_info sr qid ((cl_character d)\<lparr>quests := qs\<rparr>)") (auto simp: announce_end_def Let_def)
  show ?thesis using remove_info_quests [OF chr(1)] chr(2) qs(2,3) d by simp
qed

text \<open>A quest without acts starts and ends.\<close>

lemma start_without_acts:
  assumes ok: "quests_ok sr (cl_character c)" and info: "sr_quest sr qid = Some info" "quest_info_ok info" and acts: "qd_startActs info = []"
    and new: "hash_set_map q_id (quests (cl_character c)) qid = None" and mem: "sr_mem sr For_monster" "sr_mem sr For_quest"
    and few: "\<And>mid. waiting sr (hash_set_map q_id (quests (cl_character c))) mid +
           int (count_list (map fst (first_mobs (qd_endRequirements info))) mid) \<le> 127"
  shows "\<exists>c'. start_quest sr c qid npc = Inr (c', Some True)"
proof -
  let ?chr = "cl_character c" and ?mobs = "first_mobs (qd_endRequirements info)"
  have one: "concat (map mobs_of (qd_endRequirements info)) = ?mobs" "length ?mobs \<le> 4"
    using info(2) by (simp_all add: quest_info_ok_def Let_def)
  have inv: "hash_set_inv (hash_u16 (sr_hash sr)) q_id (quests ?chr)" "monsters_inv sr (monsterQuests ?chr)"
    "counters_ok sr (hash_set_map q_id (quests ?chr)) (hash_set_map mr_id (monsterQuests ?chr))"
    using ok by (auto simp: quests_ok_def)
  have "unat (q_progressCount (new_quest qid)) + length (map fst ?mobs) \<le> progress_slots" "q_progress (new_quest qid) = replicate progress_slots 0"
    using one(2) by (simp_all add: new_quest_def progress_slots_def)
  from need_monsters_ok [OF this inv(2,3) mem(1) waiting_nonneg few] one(1) obtain ms where
    need: "need_monsters sr (map fst (concat (map mobs_of (qd_endRequirements info)))) (new_quest qid) (monsterQuests ?chr) =
      Inr (new_quest qid\<lparr>q_progressCount := of_nat (length ?mobs)\<rparr>, ms)" by (auto simp: new_quest_def)
  let ?q = "new_quest qid\<lparr>q_progressCount := of_nat (length ?mobs)\<rparr>"
  from u16.insert_law [OF inv(1), of ?q] new obtain qs where ins: "hash_set_u16_insert (sr_hash sr) q_id True (quests ?chr) ?q = Some (qs, 0)"
    by (auto simp: new_quest_def)
  have "hunt_ok sr ?q" using info one(2) by (simp add: hunt_ok_def new_quest_def unat_of_nat)
  from progress_text_ok [OF this] need ins info(1) acts mem(2) show ?thesis
    by (auto simp: start_quest_def announce_start_def Let_def)
qed

lemma end_without_acts:
  assumes q: "hash_set_inv (hash_u16 (sr_hash sr)) q_id (quests (cl_character c))" "hash_set_map q_id (quests (cl_character c)) qid \<noteq> None"
    and cq: "hash_set_inv (hash_u16 (sr_hash sr)) cq_id (completedQuests (cl_character c))" "hash_set_map cq_id (completedQuests (cl_character c)) qid = None"
    and qi: "hash_set_inv (hash_u16 (sr_hash sr)) qi_id (questInfos (cl_character c))" "hash_set_map qi_id (questInfos (cl_character c)) qid = None"
    and info: "sr_quest sr qid = Some info" "qd_endActs info = []" and mem: "sr_mem sr For_quest"
  shows "\<exists>c'. end_quest sr c qid npc = Inr (c', Some True)"
proof -
  let ?chr = "cl_character c"
  from u16.insert_law [OF cq(1), of "\<lparr>cq_id = qid, cq_time = sr_time sr\<rparr>"] cq(2) obtain cs where
    ins: "hash_set_u16_insert (sr_hash sr) cq_id True (completedQuests ?chr) \<lparr>cq_id = qid, cq_time = sr_time sr\<rparr> = Some (cs, 0)" by auto
  from remove_quest_ok [of sr "?chr\<lparr>completedQuests := cs\<rparr>" qid] q obtain qs where
    rem: "remove_quest sr qid (?chr\<lparr>completedQuests := cs\<rparr>) = Inr (?chr\<lparr>completedQuests := cs, quests := qs\<rparr>)" by auto
  have "remove_info sr qid (?chr\<lparr>completedQuests := cs, quests := qs\<rparr>) = Inr (?chr\<lparr>completedQuests := cs, quests := qs\<rparr>)"
    using u16.get_law [OF qi(1), of qid] qi(2) by (simp add: remove_info_def get_info_def endless_def)
  then show ?thesis using ins rem info mem by (simp add: end_quest_def announce_end_def client_commit_stats_def Let_def)
qed

subsection \<open>A hunter\<close>

text \<open>A player who has to kill two monsters of one kind, and a surrounding with this quest.\<close>

definition hunt_quest :: quest_info where
  "hunt_quest = \<lparr>qd_startRequirements = [], qd_endRequirements = [Needs_npc 9000, Needs_mobs [(100100, 2)]],
     qd_startScript = False, qd_endScript = False, qd_startActs = [], qd_endActs = []\<rparr>"

definition hunt_world :: surroundings where
  "hunt_world = \<lparr>sr_hash = \<lambda>_. 0, sr_mem = \<lambda>_. True, sr_quest = (\<lambda>qid. if qid = 1000 then Some hunt_quest else None),
     sr_item = \<lambda>_. None, sr_equip = \<lambda>_. None, sr_mob_exp = \<lambda>_. Some 3, sr_rand = \<lambda>_ _. 0, sr_time = 0, sr_gmtoff = \<lambda>_. 0\<rparr>"

definition hunt :: quest where
  "hunt = \<lparr>q_id = 1000, q_progressCount = 1, q_progress = [0, 0, 0, 0, 0]\<rparr>"

definition hunter :: client where
  "hunter = beginner_client\<lparr>cl_character := beginner\<lparr>
     quests := \<lparr>capacity = 2, count = 1, states = [Occupied, Free], data = [Some hunt, None], iterating = False\<rparr>,
     monsterQuests := \<lparr>capacity = 2, count = 1, states = [Occupied, Free], data = [Some \<lparr>mr_id = 100100, mr_refCount = 1\<rparr>, None],
       iterating = False\<rparr>\<rparr>\<rparr>"

lemma hunt_world_simps [simp]:
  "sr_hash hunt_world = (\<lambda>_. 0)" "sr_mem hunt_world a" "sr_quest hunt_world qid = (if qid = 1000 then Some hunt_quest else None)"
  "sr_mob_exp hunt_world mid = Some 3" "sr_rand hunt_world i = (\<lambda>_. 0)"
  by (simp_all add: hunt_world_def)

lemma hunt_quest_simps [simp]:
  "qd_startActs hunt_quest = []" "qd_endActs hunt_quest = []" "first_mobs (qd_endRequirements hunt_quest) = [(100100, 2)]"
  "quest_info_ok hunt_quest"
  by (simp_all add: hunt_quest_def quest_info_ok_def)

lemma hunter_maps [simp]:
  "hash_set_map q_id (quests (cl_character hunter)) = [1000 \<mapsto> hunt]"
  "hash_set_map mr_id (monsterQuests (cl_character hunter)) = [100100 \<mapsto> \<lparr>mr_id = 100100, mr_refCount = 1\<rparr>]"
  by (simp_all add: hunter_def hash_set_map_def hunt_def)

lemma hunt_open: "open_counters hunt_world hunt mid = (if mid = 100100 then 1 else 0)"
  by (simp add: open_counters_def hunt_def)

lemma hunter_ok: "quests_ok hunt_world (cl_character hunter)"
proof -
  have r: "reach [Occupied, Free] 2 0 0" unfolding reach_def by (rule exI [of _ 0]) simp
  have "hash_set_inv (hash_u16 (\<lambda>_. 0)) q_id (quests (cl_character hunter))" "hash_set_inv (hash_u32 (\<lambda>_. 0)) mr_id (monsterQuests (cl_character hunter))"
    using r by (simp_all add: hunter_def hash_set_inv_def table_ok_def less_2_cases_iff hash_u16_def hash_u32_def)
  moreover have "hunt_ok hunt_world hunt" by (simp add: hunt_ok_def hunt_def progress_slots_def)
  moreover have "waiting hunt_world [1000 \<mapsto> hunt] mid = (if mid = 100100 then 1 else 0)" for mid
    by (simp add: waiting_def hunt_open)
  ultimately show ?thesis by (auto simp: quests_ok_def counts_def split: if_splits)
qed

lemma beginner_sets:
  "hash_set_inv h f (quests beginner)" "hash_set_inv h' f' (monsterQuests beginner)" "hash_set_inv h g (completedQuests beginner)"
  "hash_set_inv h g' (questInfos beginner)"
  "hash_set_map q_id (quests beginner) = Map.empty" "hash_set_map mr_id (monsterQuests beginner) = Map.empty"
  "hash_set_map cq_id (completedQuests beginner) = Map.empty" "hash_set_map qi_id (questInfos beginner) = Map.empty"
  by (simp_all add: beginner_def hash_set_inv_def table_ok_def hash_set_map_def)

subsection \<open>Properties\<close>

text \<open>
  C9: Killing a monster advances exactly the quests that ask for it, and these by one counter each:
  whatever else happens (a whole group of monsters that counts as one, counters that become
  complete, elements of the set that are removed), the call returns, the first open counter for the
  monster of every quest goes up by one, no other counter changes, and afterwards the set of
  monsters has again for every kind the number of counters that wait for it.
\<close>

theorem kill_advances_quests:
  assumes "quests_ok sr (cl_character c)" and "sr_mob_exp sr mid = Some ex"
    and "client_gain_exp (sr_hash sr) (sr_rand sr 0) 0 c ex False = Inr (d, n)"
  shows "\<exists>c'. client_kill_monster sr c mid = Inr c' \<and> quests_ok sr (cl_character c') \<and>
    hash_set_map q_id (quests (cl_character c')) =
      (\<lambda>k. map_option (\<lambda>q. hunted sr mid (case quest_group mid of None \<Rightarrow> q | Some g \<Rightarrow> hunted sr g q)) (hash_set_map q_id (quests (cl_character c)) k))"
proof -
  let ?d = "client_commit_stats d"
  have s: "same_quests (cl_character c) (cl_character ?d)" using gain_exp_quests [OF assms(3)] by (simp add: client_commit_stats_def Let_def)
  then have ok: "quests_ok sr (cl_character ?d)" using assms(1) by (simp add: quests_ok_same)
  have same: "quests (cl_character ?d) = quests (cl_character c)" using s by (simp add: same_quests_def)
  show ?thesis
  proof (cases "quest_group mid")
    case None
    then show ?thesis using count_monster_ok [OF ok, of mid] assms(2,3) same by (auto simp: client_kill_monster_def)
  next
    case (Some g)
    obtain e where e: "count_monster sr g ?d = Inr e" "quests_ok sr (cl_character e)"
      "hash_set_map q_id (quests (cl_character e)) = (\<lambda>k. map_option (hunted sr g) (hash_set_map q_id (quests (cl_character c)) k))"
      using count_monster_ok [OF ok, of g] same by auto
    then show ?thesis using count_monster_ok [OF e(2), of mid] assms(2,3) Some
      by (auto simp: client_kill_monster_def option.map_comp comp_def)
  qed
qed

theorem kill_advances_quests_witness:
  "\<exists>c' q. client_kill_monster hunt_world hunter 100100 = Inr c' \<and> hash_set_map q_id (quests (cl_character c')) 1000 = Some q \<and>
     q_progress q = [1, 0, 0, 0, 0]"
proof -
  have "\<exists>d n. client_gain_exp (\<lambda>_. 0) (\<lambda>_. 0) 0 hunter 3 False = Inr (d, n)"
    by (simp add: client_gain_exp_def gain_loop.simps character_gain_exp_def hunter_def beginner_client_def beginner_def EXP_TABLE_def Let_def)
  then obtain d n where "client_gain_exp (sr_hash hunt_world) (sr_rand hunt_world 0) 0 hunter 3 False = Inr (d, n)" by auto
  from kill_advances_quests [OF hunter_ok _ this, of 100100] obtain c' where c': "client_kill_monster hunt_world hunter 100100 = Inr c'"
    "hash_set_map q_id (quests (cl_character c')) = (\<lambda>k. map_option (hunted hunt_world 100100) ([1000 \<mapsto> hunt] k))"
    by (auto simp: quest_group_def)
  have "q_progress (hunted hunt_world 100100 hunt) = [1, 0, 0, 0, 0]"
    by (simp add: hunted_def open_counter_def hunt_def count_kill_def)
  then show ?thesis using c' by auto
qed

text \<open>
  C23: Starting a quest registers its monsters: if the acts of the quest succeed, the quest is there, with
  a counter at zero for every monster, and the set of monsters counts them. If they do not, the
  quest is removed again but its monsters are not: for a quest that asks for monsters the set then has counters
  for which nothing waits.
\<close>

theorem start_registers_monsters:
  assumes "quests_ok sr (cl_character c)" and "sr_quest sr qid = Some info" and "quest_info_ok info"
    and "hash_set_map q_id (quests (cl_character c)) qid = None" and "sr_mem sr For_monster" and "sr_mem sr For_quest"
    and "\<And>mid. waiting sr (hash_set_map q_id (quests (cl_character c))) mid +
           int (count_list (map fst (first_mobs (qd_endRequirements info))) mid) \<le> 127"
    and "start_quest sr c qid npc = Inr (c', r)"
  shows "if r = Some True
    then quests_ok sr (cl_character c') \<and>
      (\<exists>q. hash_set_map q_id (quests (cl_character c')) = (hash_set_map q_id (quests (cl_character c)))(qid \<mapsto> q) \<and>
        q_progress q = replicate progress_slots 0)
    else hash_set_map q_id (quests (cl_character c')) = hash_set_map q_id (quests (cl_character c)) \<and>
      (quests_ok sr (cl_character c') \<longleftrightarrow> first_mobs (qd_endRequirements info) = [])"
proof -
  let ?chr = "cl_character c" and ?mobs = "first_mobs (qd_endRequirements info)"
  obtain q ms where need: "need_monsters sr (map fst (concat (map mobs_of (qd_endRequirements info)))) (new_quest qid) (monsterQuests ?chr) = Inr (q, ms)"
    using assms(2,8) by (auto simp: start_quest_def Let_def split: sum.splits)
  obtain qs i where ins: "hash_set_u16_insert (sr_hash sr) q_id True (quests ?chr) q = Some (qs, i)"
    using assms(2,6,8) need by (auto simp: start_quest_def Let_def split: option.splits)
  have add: "i = 0" "q_id q = qid" "q_progress q = replicate progress_slots 0" "hash_set_map q_id qs = (hash_set_map q_id (quests ?chr))(qid \<mapsto> q)"
    "quests_ok sr (?chr\<lparr>quests := qs, monsterQuests := ms\<rparr>)"
    using start_adds_quest [OF assms(1-5,7) need ins] by simp_all
  let ?c = "c\<lparr>cl_character := ?chr\<lparr>quests := qs, monsterQuests := ms\<rparr>\<rparr>"
  obtain d x where acts: "run_acts (start_act sr) 0 (qd_startActs info) ?c = Inr (d, x)"
    using assms(2,6,8) need ins add(1) by (auto simp: start_quest_def Let_def split: sum.splits)
  have same: "same_quests (cl_character ?c) (cl_character d)"
    by (rule run_acts_rule [OF acts]) (auto simp: same_quests_def dest!: start_act_quests)
  then have ok: "quests_ok sr (cl_character d)" and qd: "quests (cl_character d) = qs"
    using add(5) quests_ok_same [OF same, of sr] by (simp_all add: same_quests_def)
  show ?thesis
  proof (cases "x = Went_on")
    case True
    then have "announce_start qid npc q d = Inr (c', r)"
      using assms(2,6,8) need ins add(1) acts by (simp add: start_quest_def Let_def)
    then have "cl_character c' = cl_character d" "r = Some True"
      by (auto simp: announce_start_def Let_def split: sum.splits if_splits)
    then show ?thesis using ok add(3,4) qd by auto
  next
    case False
    then have w: "withdraw (remove_quest sr qid) d x = Inr (c', r)"
      using assms(2,6,8) need ins add(1) acts by (cases x) (simp_all add: start_quest_def Let_def)
    have inv: "hash_set_inv (hash_u16 (sr_hash sr)) q_id (quests (cl_character d))" using ok by (simp add: quests_ok_def)
    from remove_quest_ok [OF inv, of qid] add(4) qd obtain qs' where qs': "remove_quest sr qid (cl_character d) = Inr ((cl_character d)\<lparr>quests := qs'\<rparr>)"
      "hash_set_inv (hash_u16 (sr_hash sr)) q_id qs'" "hash_set_map q_id qs' = (hash_set_map q_id qs)(qid := None)" by auto
    have c': "cl_character c' = (cl_character d)\<lparr>quests := qs'\<rparr>" "r \<noteq> Some True" using w qs'(1) by (auto simp: withdraw_def split: if_splits)
    have "(\<forall>mid. open_counters sr q mid = 0) \<longleftrightarrow> ?mobs = []"
      using start_counters [OF assms(2,3) add(2,3)] by (auto simp: count_list_0_iff)
    moreover have "quests_ok sr (cl_character c') \<longleftrightarrow> (\<forall>mid. open_counters sr q mid = 0)"
      unfolding c'(1) by (rule stale_counters [OF ok, where qid = qid]) (use add(4) qd qs' in simp_all)
    moreover have "(hash_set_map q_id qs)(qid := None) = hash_set_map q_id (quests ?chr)"
      using add(4) assms(4) by auto
    ultimately show ?thesis using c' qs'(3) by simp
  qed
qed

theorem start_registers_monsters_witness:
  "\<exists>c' q. start_quest hunt_world beginner_client 1000 9000 = Inr (c', Some True) \<and> quests_ok hunt_world (cl_character c') \<and>
     hash_set_map q_id (quests (cl_character c')) = [1000 \<mapsto> q]"
proof -
  have c: "cl_character beginner_client = beginner" by (simp add: beginner_client_def)
  have w: "waiting hunt_world Map.empty mid = 0" for mid by (simp add: waiting_def)
  have ok: "quests_ok hunt_world (cl_character beginner_client)" by (simp add: quests_ok_def c beginner_sets counts_def w)
  have few: "waiting hunt_world (hash_set_map q_id (quests (cl_character beginner_client))) mid +
      int (count_list (map fst (first_mobs (qd_endRequirements hunt_quest))) mid) \<le> 127" for mid
    by (simp add: c beginner_sets w)
  have new: "hash_set_map q_id (quests (cl_character beginner_client)) 1000 = None" by (simp add: c beginner_sets)
  obtain c' where "start_quest hunt_world beginner_client 1000 9000 = Inr (c', Some True)"
    using start_without_acts [OF ok _ _ _ new _ _ few] by auto
  with start_registers_monsters [OF ok _ _ new _ _ few this] show ?thesis by (auto simp: c beginner_sets)
qed

text \<open>
  C39: Giving a quest up takes back exactly the counters of its monsters that are not complete: the call returns,
  the quest is gone, the other quests are as before, and the set of monsters again has the number
  of counters that wait.
\<close>

theorem forfeit_releases_monsters:
  assumes "quests_ok sr (cl_character c)"
  shows "\<exists>c'. client_forfeit_quest sr c qid = Inr c' \<and> quests_ok sr (cl_character c') \<and>
    hash_set_map q_id (quests (cl_character c')) = (hash_set_map q_id (quests (cl_character c)))(qid := None)"
  using forfeit_ok [OF assms] .

theorem forfeit_releases_monsters_witness:
  "\<exists>c'. client_forfeit_quest hunt_world hunter 1000 = Inr c' \<and> quests_ok hunt_world (cl_character c') \<and>
     hash_set_map q_id (quests (cl_character c')) 1000 = None"
  using forfeit_releases_monsters [OF hunter_ok, of 1000] by auto

text \<open>
  C40: Ending a quest removes it, but does not look at its counters: the set of monsters still has
  the right numbers if and only if all counters of the quest were complete.
\<close>

theorem ending_ignores_counters:
  assumes "quests_ok sr (cl_character c)" and "hash_set_map q_id (quests (cl_character c)) qid = Some q"
    and "end_quest sr c qid npc = Inr (c', Some True)"
  shows "hash_set_map q_id (quests (cl_character c')) = (hash_set_map q_id (quests (cl_character c)))(qid := None) \<and>
    (quests_ok sr (cl_character c') \<longleftrightarrow> (\<forall>mid. open_counters sr q mid = 0))"
proof -
  have inv: "hash_set_inv (hash_u16 (sr_hash sr)) q_id (quests (cl_character c))" using assms(1) by (simp add: quests_ok_def)
  from end_quest_quests [OF inv _ assms(3)] assms(2) obtain qs where
    qs: "quests (cl_character c') = qs" "hash_set_inv (hash_u16 (sr_hash sr)) q_id qs" "hash_set_map q_id qs = (hash_set_map q_id (quests (cl_character c)))(qid := None)"
      "monsterQuests (cl_character c') = monsterQuests (cl_character c)" by auto
  have "quests_ok sr (cl_character c') = quests_ok sr ((cl_character c)\<lparr>quests := qs\<rparr>)" using qs(1,4) by (simp add: quests_ok_def)
  then show ?thesis using stale_counters [OF assms(1,2) qs(3,2)] qs(1,3) by simp
qed

theorem ending_ignores_counters_witness:
  "\<exists>c'. end_quest hunt_world hunter 1000 9000 = Inr (c', Some True) \<and> \<not> quests_ok hunt_world (cl_character c')"
proof -
  have sets: "completedQuests (cl_character hunter) = completedQuests beginner" "questInfos (cl_character hunter) = questInfos beginner"
    by (simp_all add: hunter_def)
  have "hash_set_inv (hash_u16 (sr_hash hunt_world)) q_id (quests (cl_character hunter))" using hunter_ok by (simp add: quests_ok_def)
  then obtain c' where "end_quest hunt_world hunter 1000 9000 = Inr (c', Some True)"
    using end_without_acts [of hunt_world hunter 1000 hunt_quest 9000] by (auto simp: sets beginner_sets)
  with ending_ignores_counters [OF hunter_ok _ this, of hunt] show ?thesis by (auto simp: hunt_open)
qed

text \<open>Nor do the requirements: monsters that are asked for need not be killed.\<close>

theorem monsters_not_required: "check_quest_requirements sr chr [Needs_mobs mobs] npc = Inr True"
  by simp

text \<open>A quest that starts with an item that the player already has ends the server: the exchange of
  no items fails an assertion.\<close>

theorem owned_start_item_is_fatal:
  assumes "client_has_item c iid 1 = Inr True" and "sr_mem sr For_mods"
  shows "item_act sr True i c [\<lparr>qia_id = iid, qia_count = n, qia_prop = 0\<rparr>] = Inl (Items_error Assertion_failed)"
  using assms
  by (simp add: item_act_def choose_from_act_def choice_count_def has_prop_def prop_totals_def Let_def drop_owned.simps hand_out_def
      client_gain_items_def exchange_of_def)

end
