(* ===== verification/Accounts.thy ===== *)
theory Accounts
  imports Prelude
begin

text \<open>
  The accounts that are logged in (\<^verbatim>\<open>src/src/account.c\<close>): a doubly linked list of nodes on the heap with
  the global \<open>HEAD\<close>. The store is a map from addresses to nodes, and \<open>malloc\<close> delivers an address as
  an argument, \<open>None\<close> when there is no memory. Following a pointer to a node that is not there is the
  error \<open>Dangling\<close>; a search in a list that runs in a circle does not end, which is \<open>None\<close>. Every
  operation runs under a lock and is one step.
\<close>

datatype account_gender = ACCOUNT_GENDER_MALE | ACCOUNT_GENDER_FEMALE | ACCOUNT_GENDER_UNSPECIFIED

record account =
  acc_nameLength :: u8
  acc_name :: bytes
  acc_picLength :: u8
  acc_pic :: bytes
  acc_tos :: bool
  acc_gender :: account_gender

text \<open>The name is not copied: the members that the initialiser does not mention are zero.\<close>

definition account_get_default_account :: "u8 \<Rightarrow> bytes \<Rightarrow> account" where
  "account_get_default_account len name =
     \<lparr>acc_nameLength = len, acc_name = replicate 12 0, acc_picLength = 0, acc_pic = replicate 16 0, acc_tos = False,
      acc_gender = ACCOUNT_GENDER_UNSPECIFIED\<rparr>"

record account_node =
  an_prev :: "nat option"
  an_next :: "nat option"
  an_id :: u32
  an_cid :: u32

record accounts =
  ac_heap :: "nat \<rightharpoonup> account_node"
  ac_HEAD :: "nat option"

datatype account_error = Dangling

text \<open>\<open>mtx\<close> is what \<open>mtx_init\<close> returns.\<close>

definition accounts_init :: "int \<Rightarrow> accounts \<times> int" where
  "accounts_init mtx = (\<lparr>ac_heap = Map.empty, ac_HEAD = None\<rparr>, mtx)"

partial_function (option) find_account ::
  "(account_node \<Rightarrow> bool) \<Rightarrow> (nat \<rightharpoonup> account_node) \<Rightarrow> nat option \<Rightarrow> (account_error + nat option) option" where
  "find_account P h node =
     (case node of
        None \<Rightarrow> Some (Inr None)
      | Some a \<Rightarrow>
          (case h a of
             None \<Rightarrow> Some (Inl Dangling)
           | Some n \<Rightarrow> if P n then Some (Inr (Some a)) else find_account P h (an_next n)))"

definition change :: "nat option \<Rightarrow> (account_node \<Rightarrow> account_node) \<Rightarrow> (nat \<rightharpoonup> account_node) \<Rightarrow> account_error + (nat \<rightharpoonup> account_node)" where
  "change p f h =
     (case p of
        None \<Rightarrow> Inr h
      | Some a \<Rightarrow> (case h a of None \<Rightarrow> Inl Dangling | Some n \<Rightarrow> Inr (h(a \<mapsto> f n))))"

definition account_login :: "nat option \<Rightarrow> u32 \<Rightarrow> accounts \<Rightarrow> (account_error + accounts \<times> nat option) option" where
  "account_login new aid st =
     (case new of
        None \<Rightarrow> Some (Inr (st, None))
      | Some a \<Rightarrow>
          (case find_account (\<lambda>n. an_id n = aid) (ac_heap st) (ac_HEAD st) of
             None \<Rightarrow> None
           | Some (Inl err) \<Rightarrow> Some (Inl err)
           | Some (Inr (Some _)) \<Rightarrow> Some (Inr (st, None))
           | Some (Inr None) \<Rightarrow>
               let h = (ac_heap st)(a \<mapsto> \<lparr>an_prev = None, an_next = ac_HEAD st, an_id = aid, an_cid = 0\<rparr>)
               in (case change (ac_HEAD st) (\<lambda>n. n\<lparr>an_prev := Some a\<rparr>) h of
                     Inl err \<Rightarrow> Some (Inl err)
                   | Inr h \<Rightarrow> Some (Inr (\<lparr>ac_heap = h, ac_HEAD = Some a\<rparr>, Some a)))))"

definition account_get_id :: "accounts \<Rightarrow> nat \<Rightarrow> account_error + u32" where
  "account_get_id st a = (case ac_heap st a of None \<Rightarrow> Inl Dangling | Some n \<Rightarrow> Inr (an_id n))"

text \<open>Take a node out of the list and free it.\<close>

definition unlink :: "nat \<Rightarrow> accounts \<Rightarrow> account_error + accounts" where
  "unlink a st =
     (case ac_heap st a of
        None \<Rightarrow> Inl Dangling
      | Some n \<Rightarrow>
          (case change (an_prev n) (\<lambda>m. m\<lparr>an_next := an_next n\<rparr>) (ac_heap st) of
             Inl err \<Rightarrow> Inl err
           | Inr h \<Rightarrow>
               let hd = (if an_prev n \<noteq> None then ac_HEAD st else an_next n)
               in (case change (an_next n) (\<lambda>m. m\<lparr>an_prev := an_prev n\<rparr>) h of
                     Inl err \<Rightarrow> Inl err
                   | Inr h \<Rightarrow> Inr \<lparr>ac_heap = h(a := None), ac_HEAD = hd\<rparr>)))"

definition account_logout :: "nat \<Rightarrow> accounts \<Rightarrow> account_error + accounts" where
  "account_logout a st = unlink a st"

definition account_set_cid :: "nat \<Rightarrow> u32 \<Rightarrow> accounts \<Rightarrow> account_error + accounts" where
  "account_set_cid a cid st = map_sum id (\<lambda>h. st\<lparr>ac_heap := h\<rparr>) (change (Some a) (\<lambda>n. n\<lparr>an_cid := cid\<rparr>) (ac_heap st))"

definition account_logout_by_cid :: "u32 \<Rightarrow> accounts \<Rightarrow> (account_error + accounts) option" where
  "account_logout_by_cid cid st =
     (case find_account (\<lambda>n. an_cid n = cid) (ac_heap st) (ac_HEAD st) of
        None \<Rightarrow> None
      | Some (Inl err) \<Rightarrow> Some (Inl err)
      | Some (Inr None) \<Rightarrow> Some (Inr st)
      | Some (Inr (Some a)) \<Rightarrow> Some (unlink a st))"

subsection \<open>Lists in the store\<close>

text \<open>From \<open>q\<close>, whose predecessor is \<open>p\<close>, the nodes \<open>xs\<close> lead to \<open>q'\<close> with predecessor \<open>p'\<close>.\<close>

fun segment :: "(nat \<rightharpoonup> account_node) \<Rightarrow> nat option \<Rightarrow> nat option \<Rightarrow> nat list \<Rightarrow> nat option \<Rightarrow> nat option \<Rightarrow> bool" where
  "segment h p q [] p' q' \<longleftrightarrow> p = p' \<and> q = q'"
| "segment h p q (a # xs) p' q' \<longleftrightarrow>
     q = Some a \<and> (\<exists>n. h a = Some n \<and> an_prev n = p \<and> segment h (Some a) (an_next n) xs p' q')"

lemma segment_append:
  "segment h p q (xs @ ys) p' q' \<longleftrightarrow> (\<exists>m k. segment h p q xs m k \<and> segment h m k ys p' q')"
  by (induction xs arbitrary: p q) auto

lemma segment_frame: "a \<notin> set xs \<Longrightarrow> segment (h(a := v)) p q xs p' q' = segment h p q xs p' q'"
  by (induction xs arbitrary: p q) auto

lemma segment_cid:
  assumes "h a = Some n"
  shows "segment (h(a \<mapsto> n\<lparr>an_cid := c\<rparr>)) p q xs p' q' = segment h p q xs p' q'"
  using assms by (induction xs arbitrary: p q) auto

lemma segment_prev: "segment h p q xs p' q' \<Longrightarrow> p' = (if xs = [] then p else Some (last xs))"
  by (induction xs arbitrary: p q) (auto split: if_split_asm)

text \<open>Redirecting the last pointer of a segment, and the first one.\<close>

lemma segment_new_end:
  assumes "segment h p q xs p' q'" and "xs \<noteq> []" and "distinct xs" and "h (last xs) = Some n"
  shows "segment (h(last xs \<mapsto> n\<lparr>an_next := r\<rparr>)) p q xs p' r"
proof -
  obtain us b where xs: "xs = us @ [b]" using assms(2) by (metis append_butlast_last_id)
  then obtain m k where s: "segment h p q us m k" "segment h m k [b] p' q'" using assms(1) by (auto simp: segment_append)
  have "segment (h(b \<mapsto> n\<lparr>an_next := r\<rparr>)) p q us m k" using s(1) assms(3) xs by (simp add: segment_frame)
  moreover have "segment (h(b \<mapsto> n\<lparr>an_next := r\<rparr>)) m k [b] p' r" using s(2) assms(4) xs by auto
  ultimately show ?thesis unfolding xs by (auto simp: segment_append)
qed

lemma segment_new_start:
  assumes "segment h p (Some a) (a # xs) p' q'" and "a \<notin> set xs" and "h a = Some n"
  shows "segment (h(a \<mapsto> n\<lparr>an_prev := r\<rparr>)) r (Some a) (a # xs) p' q'"
  using assms by (auto simp: segment_frame)

subsection \<open>The invariant\<close>

definition listed :: "accounts \<Rightarrow> nat list \<Rightarrow> bool" where
  "listed st xs \<longleftrightarrow> distinct xs \<and> set xs = dom (ac_heap st) \<and> (\<exists>p. segment (ac_heap st) None (ac_HEAD st) xs p None)"

text \<open>What is visible of the list: which node stands for which account and character.\<close>

definition logged :: "accounts \<Rightarrow> nat \<rightharpoonup> u32 \<times> u32" where
  "logged st a = map_option (\<lambda>n. (an_id n, an_cid n)) (ac_heap st a)"

definition one_session_each :: "accounts \<Rightarrow> bool" where
  "one_session_each st \<longleftrightarrow>
     (\<forall>a b x y. logged st a = Some x \<longrightarrow> logged st b = Some y \<longrightarrow> fst x = fst y \<longrightarrow> a = b)"

definition accounts_inv :: "accounts \<Rightarrow> bool" where
  "accounts_inv st \<longleftrightarrow> (\<exists>xs. listed st xs) \<and> one_session_each st"

lemma find_account_segment:
  assumes "segment h p q xs p' None"
  shows "find_account P h q = Some (Inr (find (\<lambda>a. case h a of None \<Rightarrow> False | Some n \<Rightarrow> P n) xs))"
  using assms
proof (induction xs arbitrary: p q)
  case (Cons a xs)
  then obtain n where n: "q = Some a" "h a = Some n" "segment h (Some a) (an_next n) xs p' None" by auto
  show ?case using n Cons.IH [OF n(3)] by (subst find_account.simps) simp
qed (subst find_account.simps, simp)

lemma find_account_ok:
  assumes "listed st xs"
  shows "(\<exists>a n. find_account P (ac_heap st) (ac_HEAD st) = Some (Inr (Some a)) \<and> ac_heap st a = Some n \<and> P n) \<or>
    find_account P (ac_heap st) (ac_HEAD st) = Some (Inr None) \<and> (\<forall>a n. ac_heap st a = Some n \<longrightarrow> \<not> P n)"
proof -
  from assms obtain p where s: "segment (ac_heap st) None (ac_HEAD st) xs p None" and dom: "set xs = dom (ac_heap st)"
    by (auto simp: listed_def)
  let ?Q = "\<lambda>a. case ac_heap st a of None \<Rightarrow> False | Some n \<Rightarrow> P n"
  have r: "find_account P (ac_heap st) (ac_HEAD st) = Some (Inr (find ?Q xs))" by (rule find_account_segment [OF s])
  show ?thesis
  proof (cases "find ?Q xs")
    case None
    then have "\<not> ?Q a" if "a \<in> dom (ac_heap st)" for a using that dom by (auto simp: find_None_iff)
    then show ?thesis using r None by (force simp: domIff)
  next
    case (Some a)
    then have "?Q a" by (auto simp: find_Some_iff)
    then show ?thesis using r Some by (auto split: option.split_asm)
  qed
qed

subsection \<open>Operations\<close>

lemma change_ok: "h a = Some n \<Longrightarrow> change (Some a) f h = Inr (h(a \<mapsto> f n))"
  by (simp add: change_def)

lemma change_None [simp]: "change None f h = Inr h"
  by (simp add: change_def)

lemma login_listed:
  assumes l: "listed st xs" and a: "a \<notin> dom (ac_heap st)" and new: "\<forall>b n. ac_heap st b = Some n \<longrightarrow> an_id n \<noteq> aid"
  shows "\<exists>st'. account_login (Some a) aid st = Some (Inr (st', Some a)) \<and> listed st' (a # xs) \<and> logged st' = (logged st)(a \<mapsto> (aid, 0))"
proof -
  let ?h = "(ac_heap st)(a \<mapsto> \<lparr>an_prev = None, an_next = ac_HEAD st, an_id = aid, an_cid = 0\<rparr>)"
  have f: "find_account (\<lambda>n. an_id n = aid) (ac_heap st) (ac_HEAD st) = Some (Inr None)"
    using find_account_ok [OF l, of "\<lambda>n. an_id n = aid"] new by auto
  obtain p where s: "segment (ac_heap st) None (ac_HEAD st) xs p None" and d: "distinct xs" "set xs = dom (ac_heap st)"
    using l by (auto simp: listed_def)
  have ax: "a \<notin> set xs" using a d by simp
  have s': "segment ?h None (ac_HEAD st) xs p None" using s ax by (simp add: segment_frame)
  show ?thesis
  proof (cases xs)
    case Nil
    then have hd: "ac_HEAD st = None" using s by simp
    have "listed \<lparr>ac_heap = ?h, ac_HEAD = Some a\<rparr> (a # xs)" using s d Nil by (auto simp: listed_def)
    then show ?thesis using f hd by (simp add: account_login_def Let_def logged_def fun_eq_iff)
  next
    case (Cons b ys)
    then obtain n where n: "ac_HEAD st = Some b" "ac_heap st b = Some n" "a \<noteq> b" using s ax by auto
    let ?h' = "?h(b \<mapsto> n\<lparr>an_prev := Some a\<rparr>)"
    have "segment ?h' (Some a) (Some b) (b # ys) p None"
      using s' n d Cons by (intro segment_new_start [where p = None]) auto
    then have "segment ?h' None (Some a) (a # xs) p None" using n Cons by auto
    moreover have "dom ?h' = insert a (dom (ac_heap st))" using n(2) by auto
    ultimately have "listed \<lparr>ac_heap = ?h', ac_HEAD = Some a\<rparr> (a # xs)" using d ax unfolding listed_def
      by (intro conjI exI [of _ p]) simp_all
    moreover have "logged \<lparr>ac_heap = ?h', ac_HEAD = Some a\<rparr> = (logged st)(a \<mapsto> (aid, 0))"
      using n by (auto simp: logged_def fun_eq_iff)
    ultimately show ?thesis using f n by (simp add: account_login_def Let_def change_ok)
  qed
qed

text \<open>Pointers are changed, nothing else.\<close>

definition relinked :: "(nat \<rightharpoonup> account_node) \<Rightarrow> (nat \<rightharpoonup> account_node) \<Rightarrow> bool" where
  "relinked h h' \<longleftrightarrow> dom h' = dom h \<and>
     (\<forall>b. map_option (\<lambda>n. (an_id n, an_cid n)) (h' b) = map_option (\<lambda>n. (an_id n, an_cid n)) (h b))"

lemma relinked_update:
  "h b = Some x \<Longrightarrow> relinked h (h(b \<mapsto> x\<lparr>an_next := r\<rparr>))" "h b = Some x \<Longrightarrow> relinked h (h(b \<mapsto> x\<lparr>an_prev := r\<rparr>))"
  by (auto simp: relinked_def)

lemma segment_cong: "\<forall>b \<in> set xs. h' b = h b \<Longrightarrow> segment h' p q xs p' q' = segment h p q xs p' q'"
  by (induction xs arbitrary: p q) auto

lemma redirect_end:
  assumes "segment h None q us m k" and "distinct us" and "set us \<subseteq> dom h"
  shows "\<exists>h1. change m (\<lambda>x. x\<lparr>an_next := r\<rparr>) h = Inr h1 \<and> segment h1 None (if m \<noteq> None then q else r) us m r \<and>
    (\<forall>b. b \<notin> set us \<longrightarrow> h1 b = h b) \<and> relinked h h1"
proof (cases "us = []")
  case True
  then show ?thesis using assms(1) by (auto simp: relinked_def)
next
  case False
  have m: "m = Some (last us)" using segment_prev [OF assms(1)] False by simp
  have last: "last us \<in> set us" using False by simp
  then obtain x where x: "h (last us) = Some x" using assms(3) by blast
  have "\<forall>b. b \<notin> set us \<longrightarrow> (h(last us \<mapsto> x\<lparr>an_next := r\<rparr>)) b = h b" using last by auto
  then show ?thesis
    using m change_ok [of h, OF x] segment_new_end [OF assms(1) False assms(2) x] relinked_update(1) [of h, OF x] by simp
qed

lemma redirect_start:
  assumes "segment h p k vs p' None" and "distinct vs" and "set vs \<subseteq> dom h"
  shows "\<exists>h2 p'. change k (\<lambda>x. x\<lparr>an_prev := m\<rparr>) h = Inr h2 \<and> segment h2 m k vs p' None \<and>
    (\<forall>b. b \<notin> set vs \<longrightarrow> h2 b = h b) \<and> relinked h h2"
proof (cases vs)
  case Nil
  then show ?thesis using assms(1) by (auto simp: relinked_def)
next
  case (Cons b ws)
  then obtain x where x: "k = Some b" "h b = Some x" using assms(1) by auto
  have "segment (h(b \<mapsto> x\<lparr>an_prev := m\<rparr>)) m (Some b) (b # ws) p' None"
    using assms(1,2) x Cons by (intro segment_new_start [where p = p]) auto
  moreover have "\<forall>c. c \<notin> set vs \<longrightarrow> (h(b \<mapsto> x\<lparr>an_prev := m\<rparr>)) c = h c" using Cons by auto
  ultimately show ?thesis unfolding x(1) change_ok [of h, OF x(2)] Cons [symmetric] using relinked_update(2) [of h, OF x(2)] by blast
qed

text \<open>Taking a node out of the middle.\<close>

lemma unlink_listed:
  assumes l: "listed st xs" and a: "a \<in> dom (ac_heap st)"
  shows "\<exists>st' ys. unlink a st = Inr st' \<and> listed st' ys \<and> logged st' = (logged st)(a := None)"
proof -
  let ?h = "ac_heap st"
  obtain p where s: "segment ?h None (ac_HEAD st) xs p None" and d: "distinct xs" "set xs = dom ?h" using l by (auto simp: listed_def)
  from a d obtain us vs where xs: "xs = us @ a # vs" by (metis split_list)
  then have nin: "a \<notin> set us" "a \<notin> set vs" "distinct us" "distinct vs" "set us \<inter> set vs = {}" using d(1) by auto
  obtain m k where u: "segment ?h None (ac_HEAD st) us m k" "segment ?h m k (a # vs) p None"
    using s unfolding xs segment_append by blast
  then obtain n where n: "?h a = Some n" "an_prev n = m" and v: "segment ?h (Some a) (an_next n) vs p None" by auto
  have sub: "set us \<subseteq> dom ?h" "set vs \<subseteq> dom ?h" using d(2) xs by auto
  from redirect_end [OF u(1) nin(3) sub(1), of "an_next n"] obtain h1 where
    h1: "change m (\<lambda>x. x\<lparr>an_next := an_next n\<rparr>) ?h = Inr h1" "\<forall>b. b \<notin> set us \<longrightarrow> h1 b = ?h b" "relinked ?h h1"
    and s1: "segment h1 None (if m \<noteq> None then ac_HEAD st else an_next n) us m (an_next n)" by blast
  have "segment h1 (Some a) (an_next n) vs p None"
    using v h1(2) nin(5) segment_cong [of vs h1 ?h] by blast
  moreover have "set vs \<subseteq> dom h1" using sub(2) h1(3) by (simp add: relinked_def)
  ultimately obtain h2 p2 where h2: "change (an_next n) (\<lambda>x. x\<lparr>an_prev := m\<rparr>) h1 = Inr h2" "\<forall>b. b \<notin> set vs \<longrightarrow> h2 b = h1 b"
      "relinked h1 h2" and s2: "segment h2 m (an_next n) vs p2 None"
    using redirect_start [OF _ nin(4)] by blast
  let ?st = "\<lparr>ac_heap = h2(a := None), ac_HEAD = (if m \<noteq> None then ac_HEAD st else an_next n)\<rparr>"
  have keep2: "\<forall>b \<in> set us. h2 b = h1 b" using h2(2) nin(5) by blast
  have "segment h2 None (ac_HEAD ?st) us m (an_next n)"
    unfolding accounts.select_convs segment_cong [of us h2 h1, OF keep2] using s1 by simp
  with s2 have "segment h2 None (ac_HEAD ?st) (us @ vs) p2 None" unfolding segment_append by blast
  then have "segment (ac_heap ?st) None (ac_HEAD ?st) (us @ vs) p2 None" using nin(1,2) by (simp add: segment_frame)
  moreover have "dom h2 = insert a (set us \<union> set vs)" using h1(3) h2(3) d(2) xs by (auto simp: relinked_def)
  ultimately have "listed ?st (us @ vs)" using nin unfolding listed_def by auto
  moreover have "logged ?st = (logged st)(a := None)"
    using h1(3) h2(3) by (auto simp: logged_def relinked_def fun_eq_iff)
  ultimately show ?thesis using n h1(1) h2(1) by (auto simp: unlink_def Let_def)
qed

subsection \<open>Runs\<close>

text \<open>The states that any sequence of calls reaches. \<open>malloc\<close> delivers unused addresses, and callers
  pass nodes that they got from \<open>account_login\<close> and have not given back.\<close>

inductive account_run :: "accounts \<Rightarrow> bool" where
  init: "account_run \<lparr>ac_heap = Map.empty, ac_HEAD = None\<rparr>"
| login: "account_run st \<Longrightarrow> (\<And>a. new = Some a \<Longrightarrow> a \<notin> dom (ac_heap st)) \<Longrightarrow> account_login new aid st = Some (Inr (st', r)) \<Longrightarrow> account_run st'"
| logout: "account_run st \<Longrightarrow> a \<in> dom (ac_heap st) \<Longrightarrow> account_logout a st = Inr st' \<Longrightarrow> account_run st'"
| set_cid: "account_run st \<Longrightarrow> a \<in> dom (ac_heap st) \<Longrightarrow> account_set_cid a cid st = Inr st' \<Longrightarrow> account_run st'"
| logout_by_cid: "account_run st \<Longrightarrow> account_logout_by_cid cid st = Some (Inr st') \<Longrightarrow> account_run st'"

lemma logged_None: "logged st a = None \<longleftrightarrow> a \<notin> dom (ac_heap st)"
  by (simp add: logged_def domIff)

lemma login_outcome:
  assumes l: "listed st xs" and a: "a \<notin> dom (ac_heap st)"
  shows "if aid \<in> fst ` ran (logged st) then account_login (Some a) aid st = Some (Inr (st, None))
    else \<exists>st' ys. account_login (Some a) aid st = Some (Inr (st', Some a)) \<and> listed st' ys \<and> logged st' = (logged st)(a \<mapsto> (aid, 0))"
proof (cases "aid \<in> fst ` ran (logged st)")
  case True
  then obtain b n where "ac_heap st b = Some n" "an_id n = aid" by (auto simp: ran_def logged_def)
  then show ?thesis
    using find_account_ok [OF l, of "\<lambda>n. an_id n = aid"] True by (auto simp: account_login_def)
next
  case False
  then have "\<forall>b n. ac_heap st b = Some n \<longrightarrow> an_id n \<noteq> aid" by (force simp: ran_def logged_def image_iff)
  from login_listed [OF l a this] False show ?thesis by auto
qed

lemma by_cid_outcome:
  assumes l: "listed st xs"
  shows "\<exists>st' ys. account_logout_by_cid cid st = Some (Inr st') \<and> listed st' ys \<and>
    (if cid \<in> snd ` ran (logged st) then \<exists>a aid. logged st a = Some (aid, cid) \<and> logged st' = (logged st)(a := None) else st' = st)"
proof (cases "find_account (\<lambda>n. an_cid n = cid) (ac_heap st) (ac_HEAD st) = Some (Inr None)")
  case True
  then have "cid \<notin> snd ` ran (logged st)"
    using find_account_ok [OF l, of "\<lambda>n. an_cid n = cid"] by (fastforce simp: ran_def logged_def)
  then show ?thesis using True l by (auto simp: account_logout_by_cid_def)
next
  case False
  then obtain a n where f: "find_account (\<lambda>n. an_cid n = cid) (ac_heap st) (ac_HEAD st) = Some (Inr (Some a))"
    "ac_heap st a = Some n" "an_cid n = cid" using find_account_ok [OF l, of "\<lambda>n. an_cid n = cid"] by auto
  then have "logged st a = Some (an_id n, cid)" by (simp add: logged_def)
  moreover from this have "cid \<in> snd ` ran (logged st)" by (force simp: ran_def)
  moreover obtain st' ys where "unlink a st = Inr st'" "listed st' ys" "logged st' = (logged st)(a := None)"
    using unlink_listed [OF l, of a] f(2) by blast
  ultimately show ?thesis using f(1) by (auto simp: account_logout_by_cid_def)
qed

lemma set_cid_outcome:
  assumes l: "listed st xs" and a: "logged st a = Some (aid, c)"
  shows "\<exists>st'. account_set_cid a cid st = Inr st' \<and> listed st' xs \<and> logged st' = (logged st)(a \<mapsto> (aid, cid))"
proof -
  from a obtain n where n: "ac_heap st a = Some n" "an_id n = aid" by (auto simp: logged_def)
  have "listed (st\<lparr>ac_heap := (ac_heap st)(a \<mapsto> n\<lparr>an_cid := cid\<rparr>)\<rparr>) xs"
    using l n by (auto simp: listed_def segment_cid [of "ac_heap st", OF n(1)])
  then show ?thesis using n by (simp add: account_set_cid_def change_ok logged_def fun_eq_iff)
qed

lemma accounts_invI: "listed st xs \<Longrightarrow> one_session_each st \<Longrightarrow> accounts_inv st"
  by (auto simp: accounts_inv_def)

lemma one_session_logged:
  "one_session_each st \<Longrightarrow> logged st' = (logged st)(a := None) \<Longrightarrow> one_session_each st'"
  "one_session_each st \<Longrightarrow> logged st' = (logged st)(a \<mapsto> (aid, c)) \<Longrightarrow> aid \<notin> fst ` ran ((logged st)(a := None)) \<Longrightarrow> one_session_each st'"
proof -
  show "one_session_each st \<Longrightarrow> logged st' = (logged st)(a := None) \<Longrightarrow> one_session_each st'"
    unfolding one_session_each_def by (simp only: fun_upd_apply) (metis option.distinct(1))
  assume o: "one_session_each st" and eq: "logged st' = (logged st)(a \<mapsto> (aid, c))" and new: "aid \<notin> fst ` ran ((logged st)(a := None))"
  have ne: "fst x \<noteq> aid" if "logged st b = Some x" "b \<noteq> a" for b x
    using new that by (force simp: ran_def)
  show "one_session_each st'"
    unfolding one_session_each_def
  proof (intro allI impI)
    fix b d x y
    assume x: "logged st' b = Some x" and y: "logged st' d = Some y" and xy: "fst x = fst y"
    have old: "logged st b = Some x \<Longrightarrow> logged st d = Some y \<Longrightarrow> b = d"
      using o xy unfolding one_session_each_def by blast
    show "b = d" using x y xy ne [of b x] ne [of d y] old unfolding eq by (cases "b = a"; cases "d = a") auto
  qed
qed

lemma account_run_inv: "account_run st \<Longrightarrow> accounts_inv st"
proof (induction rule: account_run.induct)
  case init
  have "listed \<lparr>ac_heap = Map.empty, ac_HEAD = None\<rparr> []" by (simp add: listed_def)
  then show ?case by (rule accounts_invI) (simp add: one_session_each_def logged_def)
next
  case (login st new aid st' r)
  from login.IH obtain xs where l: "listed st xs" and o: "one_session_each st" by (auto simp: accounts_inv_def)
  show ?case
  proof (cases new)
    case None
    then show ?thesis using login by (simp add: account_login_def)
  next
    case (Some a)
    have a: "a \<notin> dom (ac_heap st)" using login.hyps Some by simp
    then have upd: "(logged st)(a := None) = logged st" by (metis fun_upd_triv logged_None)
    from login_outcome [OF l a, of aid] login.hyps(3) Some login.IH show ?thesis
      using one_session_logged(2) [OF o, of st' a aid 0] upd accounts_invI by (auto split: if_split_asm)
  qed
next
  case (logout st a st')
  from logout.IH obtain xs where l: "listed st xs" and o: "one_session_each st" by (auto simp: accounts_inv_def)
  from unlink_listed [OF l logout.hyps(2)] logout.hyps(3) show ?case
    using one_session_logged(1) [OF o] accounts_invI by (auto simp: account_logout_def)
next
  case (set_cid st a cid st')
  from set_cid.IH obtain xs where l: "listed st xs" and o: "one_session_each st" by (auto simp: accounts_inv_def)
  obtain aid c where a: "logged st a = Some (aid, c)" using set_cid.hyps(2) logged_None by fastforce
  have "aid \<notin> fst ` ran ((logged st)(a := None))"
    using o a by (force simp: one_session_each_def ran_def split: if_split_asm)
  with set_cid_outcome [OF l a, of cid] set_cid.hyps(3) show ?case
    using one_session_logged(2) [OF o] accounts_invI by auto
next
  case (logout_by_cid st cid st')
  from logout_by_cid.IH obtain xs where l: "listed st xs" and o: "one_session_each st" by (auto simp: accounts_inv_def)
  from by_cid_outcome [OF l, of cid] logout_by_cid.hyps(2) show ?case
    using one_session_logged(1) [OF o] accounts_invI o by (auto split: if_split_asm)
qed

text \<open>
  C17: No account has two sessions. In every state that a sequence of calls reaches, distinct nodes of
  the list stand for distinct accounts, and the calls do what they promise: a login with memory
  available ends and is refused exactly if the account is logged in, otherwise it adds a session
  without a character; a logout removes exactly that session; setting the character changes only that;
  and a logout by character removes one session with that character if there is one, and nothing
  otherwise. No call follows a dangling pointer or runs in a circle.
\<close>

theorem sessions_are_unique:
  assumes "account_run st"
  shows "(\<forall>a b x y. logged st a = Some x \<longrightarrow> logged st b = Some y \<longrightarrow> fst x = fst y \<longrightarrow> a = b) \<and>
    (\<forall>a aid. a \<notin> dom (ac_heap st) \<longrightarrow>
       (if aid \<in> fst ` ran (logged st) then account_login (Some a) aid st = Some (Inr (st, None))
        else \<exists>st'. account_login (Some a) aid st = Some (Inr (st', Some a)) \<and> logged st' = (logged st)(a \<mapsto> (aid, 0)))) \<and>
    (\<forall>a \<in> dom (logged st). \<exists>st'. account_logout a st = Inr st' \<and> logged st' = (logged st)(a := None)) \<and>
    (\<forall>a aid c cid. logged st a = Some (aid, c) \<longrightarrow>
       (\<exists>st'. account_set_cid a cid st = Inr st' \<and> logged st' = (logged st)(a \<mapsto> (aid, cid)))) \<and>
    (\<forall>cid. \<exists>st'. account_logout_by_cid cid st = Some (Inr st') \<and>
       (if cid \<in> snd ` ran (logged st) then \<exists>a aid. logged st a = Some (aid, cid) \<and> logged st' = (logged st)(a := None) else st' = st))"
proof -
  from account_run_inv [OF assms] obtain xs where l: "listed st xs" and o: "one_session_each st" by (auto simp: accounts_inv_def)
  have d: "dom (logged st) = dom (ac_heap st)" by (auto simp: logged_def dom_def)
  show ?thesis
  proof (intro conjI allI ballI impI)
    show "\<exists>st'. account_logout a st = Inr st' \<and> logged st' = (logged st)(a := None)" if "a \<in> dom (logged st)" for a
      using unlink_listed [OF l] that d unfolding account_logout_def by blast
    show "if aid \<in> fst ` ran (logged st) then account_login (Some a) aid st = Some (Inr (st, None))
        else \<exists>st'. account_login (Some a) aid st = Some (Inr (st', Some a)) \<and> logged st' = (logged st)(a \<mapsto> (aid, 0))"
      if "a \<notin> dom (ac_heap st)" for a aid
      using login_outcome [OF l that, of aid] by (auto split: if_split_asm)
    show "a = b" if "logged st a = Some x" "logged st b = Some y" "fst x = fst y" for a b x y
      using o that unfolding one_session_each_def by blast
  qed (use set_cid_outcome [OF l] by_cid_outcome [OF l] in blast)+
qed

theorem sessions_are_unique_witness:
  "\<exists>st. account_login (Some 1) 7 \<lparr>ac_heap = Map.empty, ac_HEAD = None\<rparr> = Some (Inr (st, Some 1)) \<and>
     account_login (Some 2) 7 st = Some (Inr (st, None))"
proof -
  let ?e = "\<lparr>ac_heap = Map.empty, ac_HEAD = None\<rparr>"
  have no: "7 \<notin> fst ` ran (logged ?e)" "1 \<notin> dom (ac_heap ?e)" by (simp_all add: ran_def logged_def)
  with sessions_are_unique [OF account_run.init] obtain st where
    st: "account_login (Some 1) 7 ?e = Some (Inr (st, Some 1))" "logged st = (logged ?e)(1 \<mapsto> (7, 0))" by metis
  have run: "account_run st" by (rule account_run.login [OF account_run.init _ st(1)]) simp
  have "7 \<in> fst ` ran (logged st)" unfolding st(2) by (force simp: ran_def)
  moreover have "2 \<notin> dom (ac_heap st)" using logged_None [of st 2] st(2) by (simp add: logged_def)
  ultimately have "account_login (Some 2) 7 st = Some (Inr (st, None))" using sessions_are_unique [OF run] by metis
  then show ?thesis using st(1) by blast
qed

end
