(* ===== verification/Login_Channels.thy ===== *)
theory Login_Channels
  imports Set_Elements Accounts
begin

text \<open>
  The login server's side of a channel (\<^verbatim>\<open>src/src/login/server.c\<close>: \<open>assign_channel\<close>, \<open>on_channel_read\<close>,
  \<open>on_channel_event\<close>, \<open>do_leave\<close>): the characters that were sent to the channel, and what happens when
  the channel answers, when a character leaves, and when the connection is lost.

  A character that was sent has the file descriptor of an event of which the login of its client
  waits: 1 is written to it when the channel has accepted the character, 2 when the channel has gone;
  from then on the descriptor is \<open>-1\<close> and the account is logged out when the character leaves. Each
  function is one step: it holds the locks of the channel. What is written to a descriptor is recorded in
  \<open>cs_writes\<close>, and what is sent to the channel in \<open>lch_out\<close>.
\<close>

subsection \<open>State\<close>

record logged_in_character =
  lic_id :: u32
  lic_fd :: int

record login_channel =
  lch_clients :: "logged_in_character hash_set option"
  lch_connected :: bool
  lch_attempts :: int
  lch_out :: bytes

record channel_state =
  cs_channel :: login_channel
  cs_accounts :: accounts
  cs_writes :: "(int \<times> nat) list"

datatype channel_error = Null_clients | Null_character | Lookup_endless | Accounts_broken

definition on_channel :: "(login_channel \<Rightarrow> login_channel) \<Rightarrow> channel_state \<Rightarrow> channel_state" where
  "on_channel f cs = cs\<lparr>cs_channel := f (cs_channel cs)\<rparr>"

definition set_clients :: "logged_in_character hash_set option \<Rightarrow> channel_state \<Rightarrow> channel_state" where
  "set_clients hs = on_channel (\<lambda>ch. ch\<lparr>lch_clients := hs\<rparr>)"

subsection \<open>Operations\<close>

text \<open>\<open>fd\<close> is what \<open>eventfd\<close> delivers, \<open>mem\<close> whether the set can grow.\<close>

definition assign_channel :: "(bytes \<Rightarrow> u64) \<Rightarrow> bool \<Rightarrow> int \<Rightarrow> u32 \<Rightarrow> channel_state \<Rightarrow> channel_error + channel_state \<times> int" where
  "assign_channel xxh3 mem fd cid cs =
     (if fd = - 1 then Inr (cs, - 1)
      else if \<not> lch_connected (cs_channel cs) then Inr (cs, - 1)
      else case lch_clients (cs_channel cs) of
             None \<Rightarrow> Inl Null_clients
           | Some hs \<Rightarrow>
               (case hash_set_u32_insert xxh3 lic_id mem hs \<lparr>lic_id = cid, lic_fd = fd\<rparr> of
                  None \<Rightarrow> Inl Lookup_endless
                | Some (hs, r) \<Rightarrow>
                    let cs = set_clients (Some hs) cs
                    in if r = - 1 then Inr (cs, - 1)
                       else Inr (on_channel (\<lambda>ch. ch\<lparr>lch_out := lch_out ch @ le_bytes 4 (uint cid)\<rparr>) cs, fd)))"

text \<open>\<open>on_client_leave\<close> of \<^verbatim>\<open>src/src/login/main.c\<close> logs the account out. The context of the iteration is what
  the calls change, or the error.\<close>

definition on_client_leave :: "u32 \<Rightarrow> channel_error + accounts \<times> (int \<times> nat) list \<Rightarrow> channel_error + accounts \<times> (int \<times> nat) list" where
  "on_client_leave cid c =
     (case c of
        Inl err \<Rightarrow> Inl err
      | Inr (acs, ws) \<Rightarrow>
          (case account_logout_by_cid cid acs of
             None \<Rightarrow> Inl Lookup_endless
           | Some (Inl err) \<Rightarrow> Inl Accounts_broken
           | Some (Inr acs) \<Rightarrow> Inr (acs, ws)))"

definition do_leave ::
  "logged_in_character \<Rightarrow> channel_error + accounts \<times> (int \<times> nat) list \<Rightarrow> logged_in_character \<times> (channel_error + accounts \<times> (int \<times> nat) list)" where
  "do_leave chr c =
     (chr, if lic_fd chr = - 1 then on_client_leave (lic_id chr) c else map_sum id (\<lambda>(acs, ws). (acs, ws @ [(lic_fd chr, 2)])) c)"

text \<open>Everyone leaves; the set is not needed any more afterwards.\<close>

definition leave_all :: "(bytes \<Rightarrow> u64) \<Rightarrow> bool \<Rightarrow> channel_state \<Rightarrow> channel_error + channel_state" where
  "leave_all xxh3 mem cs =
     (case lch_clients (cs_channel cs) of
        None \<Rightarrow> Inr cs
      | Some hs \<Rightarrow>
          (case hash_set_u32_foreach xxh3 lic_id mem do_leave hs (Inr (cs_accounts cs, cs_writes cs)) of
             None \<Rightarrow> Inl Lookup_endless
           | Some (hs, Inl err) \<Rightarrow> Inl err
           | Some (hs, Inr (acs, ws)) \<Rightarrow> Inr (cs\<lparr>cs_accounts := acs, cs_writes := ws\<rparr>)))"

text \<open>The first byte after a connection says whether the channel has just started. \<open>cmem\<close>: there is
  memory for a new set.\<close>

definition channel_greeting :: "(bytes \<Rightarrow> u64) \<Rightarrow> bool \<Rightarrow> bool \<Rightarrow> u8 \<Rightarrow> channel_state \<Rightarrow> channel_error + channel_state" where
  "channel_greeting xxh3 mem cmem b cs =
     map_sum id (on_channel (\<lambda>ch. ch\<lparr>lch_connected := True\<rparr>))
       (if b = 0 then map_sum id (set_clients (hash_set_u32_create cmem)) (leave_all xxh3 mem cs)
        else if lch_clients (cs_channel cs) = None
        then Inr (on_channel (\<lambda>ch. ch\<lparr>lch_out := lch_out ch @ [1]\<rparr>) (set_clients (hash_set_u32_create cmem) cs))
        else Inr (on_channel (\<lambda>ch. ch\<lparr>lch_out := lch_out ch @ [0]\<rparr>) cs))"

definition channel_accepts :: "(bytes \<Rightarrow> u64) \<Rightarrow> u32 \<Rightarrow> channel_state \<Rightarrow> channel_error + channel_state" where
  "channel_accepts xxh3 token cs =
     (case lch_clients (cs_channel cs) of
        None \<Rightarrow> Inl Null_clients
      | Some hs \<Rightarrow>
          (case hash_set_u32_get xxh3 lic_id hs token of
             None \<Rightarrow> Inl Lookup_endless
           | Some None \<Rightarrow> Inl Null_character
           | Some (Some chr) \<Rightarrow>
               Inr (set_clients (Some (modify_element lic_id token (\<lambda>d. d\<lparr>lic_fd := - 1\<rparr>) hs))
                      (cs\<lparr>cs_writes := cs_writes cs @ [(lic_fd chr, 1)]\<rparr>))))"

definition channel_leaves :: "(bytes \<Rightarrow> u64) \<Rightarrow> bool \<Rightarrow> u32 \<Rightarrow> channel_state \<Rightarrow> channel_error + channel_state" where
  "channel_leaves xxh3 mem token cs =
     (case lch_clients (cs_channel cs) of
        None \<Rightarrow> Inl Null_clients
      | Some hs \<Rightarrow>
          (case hash_set_u32_remove xxh3 lic_id mem hs token of
             None \<Rightarrow> Inl Lookup_endless
           | Some hs \<Rightarrow>
               map_sum id (\<lambda>(acs, ws). set_clients (Some hs) (cs\<lparr>cs_accounts := acs, cs_writes := ws\<rparr>))
                 (on_client_leave token (Inr (cs_accounts cs, cs_writes cs)))))"

text \<open>The bytes in the input buffer, of which the rest is returned. Before the greeting there is at least
  one.\<close>

definition on_channel_read :: "(bytes \<Rightarrow> u64) \<Rightarrow> bool \<Rightarrow> bool \<Rightarrow> bytes \<Rightarrow> channel_state \<Rightarrow> channel_error + channel_state \<times> bytes" where
  "on_channel_read xxh3 mem cmem inp cs =
     (if \<not> lch_connected (cs_channel cs)
      then (case inp of
              [] \<Rightarrow> Inr (cs, [])
            | b # rest \<Rightarrow> map_sum id (\<lambda>cs. (cs, rest)) (channel_greeting xxh3 mem cmem b cs))
      else if length inp < 5 then Inr (cs, inp)
      else let action = inp ! 0; token = word_of_int (le_val (take 4 (drop 1 inp)))
           in map_sum id (\<lambda>cs. (cs, drop 5 inp))
                (if action = 0 then channel_accepts xxh3 token cs
                 else if action = 1 then channel_leaves xxh3 mem token cs
                 else Inr cs))"

datatype channel_event = BEV_CONNECTED | BEV_TIMEOUT | BEV_EOF_OR_ERROR | BEV_OTHER

definition on_channel_event :: "(bytes \<Rightarrow> u64) \<Rightarrow> bool \<Rightarrow> channel_event \<Rightarrow> channel_state \<Rightarrow> channel_error + channel_state" where
  "on_channel_event xxh3 mem ev cs =
     (case ev of
        BEV_CONNECTED \<Rightarrow> Inr (on_channel (\<lambda>ch. ch\<lparr>lch_attempts := 0\<rparr>) cs)
      | BEV_TIMEOUT \<Rightarrow>
          if lch_attempts (cs_channel cs) < 3
          then let cs = on_channel (\<lambda>ch. ch\<lparr>lch_attempts := lch_attempts ch + 1\<rparr>) cs
               in if lch_attempts (cs_channel cs) = 3 then map_sum id (set_clients None) (leave_all xxh3 mem cs) else Inr cs
          else Inr cs
      | BEV_EOF_OR_ERROR \<Rightarrow> Inr (on_channel (\<lambda>ch. ch\<lparr>lch_attempts := 0, lch_connected := False\<rparr>) cs)
      | BEV_OTHER \<Rightarrow> Inr cs)"

subsection \<open>Iteration and modification\<close>

lemma u32_foreach_ok:
  assumes inv: "hash_set_inv (hash_u32 xxh3) key hs" and f: "\<forall>d c. key (fst (f d c)) = key d"
  shows "\<exists>hs'. hash_set_u32_foreach xxh3 key mem f hs c = Some (hs', fold (\<lambda>d c. snd (f d c)) (elems (states hs) (data hs)) c)"
proof -
  let ?hs = "hs\<lparr>iterating := True\<rparr>"
  have "hash_set_inv (hash_u32 xxh3) key ?hs" using inv by (simp add: hash_set_inv_def)
  note F = hash_set_foreach_ok [OF this f, of c]
  obtain hs1 c1 where r: "hash_set_foreach_keep f ?hs c = (hs1, c1)" by fastforce
  have inv1: "hash_set_inv (hash_u32 xxh3) key (hs1\<lparr>iterating := False\<rparr>)" using F(1) r by (simp add: hash_set_inv_def)
  have "c1 = fold (\<lambda>d c. snd (f d c)) (elems (states hs) (data hs)) c" using F(3) r by simp
  then show ?thesis
    using realloc_set_ok [OF inv1, of mem] r by (auto simp: hash_set_u32_foreach_def hash_set_foreach_shrink_def Let_def)
qed

subsection \<open>Leaving\<close>

text \<open>What leaving does for the characters \<open>ds\<close>: who still waits is told, and of the sessions only those are
  ended whose character is one of the others.\<close>

definition released ::
  "logged_in_character set \<Rightarrow> accounts \<times> (int \<times> nat) list \<Rightarrow> accounts \<times> (int \<times> nat) list \<Rightarrow> bool" where
  "released ds c c' \<longleftrightarrow>
     accounts_inv (fst c') \<and> set (snd c') = set (snd c) \<union> (\<lambda>d. (lic_fd d, 2)) ` {d \<in> ds. lic_fd d \<noteq> - 1} \<and>
     (\<forall>a x. logged (fst c') a = Some x \<longrightarrow> logged (fst c) a = Some x) \<and>
     (\<forall>a x. logged (fst c) a = Some x \<longrightarrow> (\<forall>d \<in> ds. lic_fd d = - 1 \<longrightarrow> lic_id d \<noteq> snd x) \<longrightarrow> logged (fst c') a = Some x)"

definition session_ended :: "u32 \<Rightarrow> accounts \<Rightarrow> accounts \<Rightarrow> bool" where
  "session_ended cid acs acs' \<longleftrightarrow>
     (if cid \<in> snd ` ran (logged acs) then \<exists>a aid. logged acs a = Some (aid, cid) \<and> logged acs' = (logged acs)(a := None) else acs' = acs)"

lemma on_client_leave_ok:
  assumes "accounts_inv acs"
  shows "\<exists>acs'. on_client_leave cid (Inr (acs, ws)) = Inr (acs', ws) \<and> accounts_inv acs' \<and> session_ended cid acs acs'"
proof -
  from assms obtain xs where l: "listed acs xs" and o: "one_session_each acs" by (auto simp: accounts_inv_def)
  from by_cid_outcome [OF l, of cid] obtain acs' ys where c: "account_logout_by_cid cid acs = Some (Inr acs')" "listed acs' ys"
    "if cid \<in> snd ` ran (logged acs) then \<exists>a aid. logged acs a = Some (aid, cid) \<and> logged acs' = (logged acs)(a := None) else acs' = acs" by blast
  have "one_session_each acs'" using c(3) o one_session_logged(1) [OF o] by (auto split: if_split_asm)
  with c accounts_invI show ?thesis unfolding session_ended_def by (auto simp: on_client_leave_def simp del: split_paired_Ex)
qed

lemma do_leave_released:
  assumes "accounts_inv acs"
  shows "\<exists>acs' ws'. snd (do_leave d (Inr (acs, ws))) = Inr (acs', ws') \<and> released {d} (acs, ws) (acs', ws')"
proof (cases "lic_fd d = - 1")
  case True
  from on_client_leave_ok [OF assms, of "lic_id d" ws] True show ?thesis
    by (auto simp: do_leave_def released_def session_ended_def split: if_split_asm)
next
  case False
  then show ?thesis using assms by (auto simp: do_leave_def released_def)
qed

lemma released_trans:
  assumes "released ds c1 c2" "released es c2 c3"
  shows "released (ds \<union> es) c1 c3"
  unfolding released_def
proof (intro conjI)
  show "accounts_inv (fst c3)" using assms(2) by (simp add: released_def)
  have c2: "set (snd c2) = set (snd c1) \<union> (\<lambda>d. (lic_fd d, 2)) ` {d \<in> ds. lic_fd d \<noteq> - 1}"
    using assms(1) unfolding released_def by (elim conjE)
  have c3: "set (snd c3) = set (snd c2) \<union> (\<lambda>d. (lic_fd d, 2)) ` {d \<in> es. lic_fd d \<noteq> - 1}"
    using assms(2) unfolding released_def by (elim conjE)
  show "set (snd c3) = set (snd c1) \<union> (\<lambda>d. (lic_fd d, 2)) ` {d \<in> ds \<union> es. lic_fd d \<noteq> - 1}"
    unfolding c3 c2 by auto
  have d2: "\<forall>a x. logged (fst c2) a = Some x \<longrightarrow> logged (fst c1) a = Some x"
    "\<forall>a x. logged (fst c1) a = Some x \<longrightarrow> (\<forall>d \<in> ds. lic_fd d = - 1 \<longrightarrow> lic_id d \<noteq> snd x) \<longrightarrow> logged (fst c2) a = Some x"
    using assms(1) unfolding released_def by - (elim conjE, assumption)+
  have d3: "\<forall>a x. logged (fst c3) a = Some x \<longrightarrow> logged (fst c2) a = Some x"
    "\<forall>a x. logged (fst c2) a = Some x \<longrightarrow> (\<forall>d \<in> es. lic_fd d = - 1 \<longrightarrow> lic_id d \<noteq> snd x) \<longrightarrow> logged (fst c3) a = Some x"
    using assms(2) unfolding released_def by - (elim conjE, assumption)+
  show "\<forall>a x. logged (fst c3) a = Some x \<longrightarrow> logged (fst c1) a = Some x" using d2(1) d3(1) by simp
  show "\<forall>a x. logged (fst c1) a = Some x \<longrightarrow> (\<forall>d \<in> ds \<union> es. lic_fd d = - 1 \<longrightarrow> lic_id d \<noteq> snd x) \<longrightarrow> logged (fst c3) a = Some x"
    using d2(2) d3(2) by simp
qed

lemma leave_fold:
  assumes "accounts_inv acs"
  shows "\<exists>acs' ws'. fold (\<lambda>d c. snd (do_leave d c)) ds (Inr (acs, ws)) = Inr (acs', ws') \<and> released (set ds) (acs, ws) (acs', ws')"
  using assms
proof (induction ds arbitrary: acs ws)
  case Nil
  then show ?case by (simp add: released_def)
next
  case (Cons d ds)
  from do_leave_released [OF Cons.prems] obtain acs1 ws1 where
    1: "snd (do_leave d (Inr (acs, ws))) = Inr (acs1, ws1)" "released {d} (acs, ws) (acs1, ws1)" by blast
  have "accounts_inv acs1" using 1(2) by (simp add: released_def)
  from Cons.IH [OF this] obtain acs2 ws2 where
    2: "fold (\<lambda>d c. snd (do_leave d c)) ds (Inr (acs1, ws1)) = Inr (acs2, ws2)" "released (set ds) (acs1, ws1) (acs2, ws2)" by blast
  have "released ({d} \<union> set ds) (acs, ws) (acs2, ws2)" by (rule released_trans [OF 1(2) 2(2)])
  then show ?case using 1(1) 2(1) by simp
qed

definition clients_of :: "channel_state \<Rightarrow> u32 \<Rightarrow> logged_in_character option" where
  "clients_of cs = (case lch_clients (cs_channel cs) of None \<Rightarrow> Map.empty | Some hs \<Rightarrow> hash_set_map lic_id hs)"

definition channel_inv :: "(bytes \<Rightarrow> u64) \<Rightarrow> channel_state \<Rightarrow> bool" where
  "channel_inv xxh3 cs \<longleftrightarrow>
     (\<forall>hs. lch_clients (cs_channel cs) = Some hs \<longrightarrow> hash_set_inv (hash_u32 xxh3) lic_id hs) \<and>
     (lch_connected (cs_channel cs) \<longrightarrow> lch_clients (cs_channel cs) \<noteq> None) \<and> accounts_inv (cs_accounts cs)"

lemma hash_set_elems: "hash_set_inv hash key hs \<Longrightarrow> set (elems (states hs) (data hs)) = ran (hash_set_map key hs)"
  using hash_set_map_iff [of key hs] by (fastforce simp: hash_set_inv_def ran_def)

lemma leave_all_ok:
  assumes "channel_inv xxh3 cs"
  shows "\<exists>acs ws. leave_all xxh3 mem cs = Inr (cs\<lparr>cs_accounts := acs, cs_writes := ws\<rparr>) \<and>
    released (ran (clients_of cs)) (cs_accounts cs, cs_writes cs) (acs, ws)"
proof (cases "lch_clients (cs_channel cs)")
  case None
  then show ?thesis using assms by (intro exI [of _ "cs_accounts cs"] exI [of _ "cs_writes cs"])
      (auto simp: leave_all_def clients_of_def released_def channel_inv_def ran_def)
next
  case (Some hs)
  then have inv: "hash_set_inv (hash_u32 xxh3) lic_id hs" and acs: "accounts_inv (cs_accounts cs)" using assms by (auto simp: channel_inv_def)
  let ?ds = "elems (states hs) (data hs)"
  from leave_fold [OF acs] obtain acs ws where f: "fold (\<lambda>d c. snd (do_leave d c)) ?ds (Inr (cs_accounts cs, cs_writes cs)) = Inr (acs, ws)"
    "released (set ?ds) (cs_accounts cs, cs_writes cs) (acs, ws)" by blast
  have "\<forall>d c. lic_id (fst (do_leave d c)) = lic_id d" by (simp add: do_leave_def)
  from u32_foreach_ok [OF inv this] f(1) obtain hs' where
    "hash_set_u32_foreach xxh3 lic_id mem do_leave hs (Inr (cs_accounts cs, cs_writes cs)) = Some (hs', Inr (acs, ws))" by metis
  then show ?thesis using Some f(2) hash_set_elems [OF inv] by (auto simp: leave_all_def clients_of_def)
qed

subsection \<open>Steps\<close>

lemma channel_simps [simp]:
  "lch_clients (cs_channel (set_clients hs cs)) = hs" "cs_accounts (set_clients hs cs) = cs_accounts cs"
  "cs_writes (set_clients hs cs) = cs_writes cs" "lch_connected (cs_channel (set_clients hs cs)) = lch_connected (cs_channel cs)"
  "cs_accounts (on_channel f cs) = cs_accounts cs" "cs_writes (on_channel f cs) = cs_writes cs"
  "cs_channel (on_channel f cs) = f (cs_channel cs)"
  by (simp_all add: set_clients_def on_channel_def)

lemma clients_of_set [simp]:
  "clients_of (set_clients (Some hs) cs) = hash_set_map lic_id hs" "clients_of (set_clients None cs) = Map.empty"
  "clients_of (on_channel (\<lambda>ch. ch\<lparr>lch_connected := b\<rparr>) cs) = clients_of cs"
  "clients_of (on_channel (\<lambda>ch. ch\<lparr>lch_out := g ch\<rparr>) cs) = clients_of cs"
  "clients_of (on_channel (\<lambda>ch. ch\<lparr>lch_attempts := n ch\<rparr>) cs) = clients_of cs"
  by (simp_all add: clients_of_def)

lemma channel_inv_set:
  "hash_set_inv (hash_u32 xxh3) lic_id hs \<Longrightarrow> accounts_inv (cs_accounts cs) \<Longrightarrow> channel_inv xxh3 (set_clients (Some hs) cs)"
  "channel_inv xxh3 cs \<Longrightarrow> channel_inv xxh3 (on_channel (\<lambda>ch. ch\<lparr>lch_out := g ch\<rparr>) cs)"
  "channel_inv xxh3 cs \<Longrightarrow> channel_inv xxh3 (on_channel (\<lambda>ch. ch\<lparr>lch_attempts := n ch\<rparr>) cs)"
  "channel_inv xxh3 cs \<Longrightarrow> lch_clients (cs_channel cs) \<noteq> None \<Longrightarrow> channel_inv xxh3 (on_channel (\<lambda>ch. ch\<lparr>lch_connected := b\<rparr>) cs)"
  "accounts_inv (cs_accounts cs) \<Longrightarrow> \<not> lch_connected (cs_channel cs) \<Longrightarrow> channel_inv xxh3 (set_clients None cs)"
  by (simp_all add: channel_inv_def)

lemma released_inv: "released ds c c' \<Longrightarrow> accounts_inv (fst c')"
  unfolding released_def by (elim conjE)

lemma assign_ok:
  assumes inv: "channel_inv xxh3 cs" and new: "clients_of cs cid = None" and fd: "fd \<noteq> - 1" "lch_connected (cs_channel cs)"
  shows "\<exists>cs'. assign_channel xxh3 True fd cid cs = Inr (cs', fd) \<and> channel_inv xxh3 cs' \<and> cs_accounts cs' = cs_accounts cs \<and>
    cs_writes cs' = cs_writes cs \<and> lch_connected (cs_channel cs') \<and>
    clients_of cs' = (clients_of cs)(cid \<mapsto> \<lparr>lic_id = cid, lic_fd = fd\<rparr>) \<and> lch_out (cs_channel cs') = lch_out (cs_channel cs) @ le_bytes 4 (uint cid)"
proof -
  obtain hs where hs: "lch_clients (cs_channel cs) = Some hs" using inv fd by (auto simp: channel_inv_def)
  then have i: "hash_set_inv (hash_u32 xxh3) lic_id hs" and n: "hash_set_map lic_id hs cid = None" and a: "accounts_inv (cs_accounts cs)"
    using inv new by (auto simp: channel_inv_def clients_of_def)
  let ?d = "\<lparr>lic_id = cid, lic_fd = fd\<rparr>"
  from u32.insert_law [OF i, of ?d] n obtain hs' where hs': "hash_set_u32_insert xxh3 lic_id True hs ?d = Some (hs', 0)"
    "hash_set_inv (hash_u32 xxh3) lic_id hs'" "hash_set_map lic_id hs' = (hash_set_map lic_id hs)(cid \<mapsto> ?d)" by auto
  let ?cs = "on_channel (\<lambda>ch. ch\<lparr>lch_out := lch_out ch @ le_bytes 4 (uint cid)\<rparr>) (set_clients (Some hs') cs)"
  have "assign_channel xxh3 True fd cid cs = Inr (?cs, fd)" using hs fd hs'(1) by (simp add: assign_channel_def)
  moreover have "channel_inv xxh3 ?cs" using hs'(2) a by (intro channel_inv_set) simp_all
  moreover have "lch_out (cs_channel (set_clients (Some hs') cs)) = lch_out (cs_channel cs)" by (simp add: set_clients_def)
  ultimately show ?thesis using hs hs'(3) fd by (simp add: clients_of_def [of cs])
qed

lemma accept_ok:
  assumes inv: "channel_inv xxh3 cs" and chr: "clients_of cs token = Some chr"
  shows "\<exists>cs'. channel_accepts xxh3 token cs = Inr cs' \<and> channel_inv xxh3 cs' \<and> cs_accounts cs' = cs_accounts cs \<and>
    cs_writes cs' = cs_writes cs @ [(lic_fd chr, 1)] \<and> clients_of cs' = (clients_of cs)(token \<mapsto> chr\<lparr>lic_fd := - 1\<rparr>)"
proof -
  obtain hs where hs: "lch_clients (cs_channel cs) = Some hs" "hash_set_map lic_id hs token = Some chr"
    using chr by (auto simp: clients_of_def split: option.splits)
  then have i: "hash_set_inv (hash_u32 xxh3) lic_id hs" using inv by (auto simp: channel_inv_def)
  note M = modify_element_ok [OF i, of "\<lambda>d. d\<lparr>lic_fd := - 1\<rparr>" token]
  show ?thesis using hs inv u32.get_law [OF i, of token] M by (auto simp: channel_accepts_def channel_inv_def clients_of_def)
qed

lemma leaves_ok:
  assumes inv: "channel_inv xxh3 cs" and chr: "clients_of cs token \<noteq> None"
  shows "\<exists>cs'. channel_leaves xxh3 mem token cs = Inr cs' \<and> channel_inv xxh3 cs' \<and> cs_writes cs' = cs_writes cs \<and>
    clients_of cs' = (clients_of cs)(token := None) \<and> session_ended token (cs_accounts cs) (cs_accounts cs')"
proof -
  obtain hs where hs: "lch_clients (cs_channel cs) = Some hs" "hash_set_map lic_id hs token \<noteq> None"
    using chr by (auto simp: clients_of_def split: option.splits)
  then have i: "hash_set_inv (hash_u32 xxh3) lic_id hs" and a: "accounts_inv (cs_accounts cs)" using inv by (auto simp: channel_inv_def)
  from u32.remove_law [OF i hs(2), of mem] obtain hs' where hs': "hash_set_u32_remove xxh3 lic_id mem hs token = Some hs'"
    "hash_set_inv (hash_u32 xxh3) lic_id hs'" "hash_set_map lic_id hs' = (hash_set_map lic_id hs)(token := None)" by blast
  from on_client_leave_ok [OF a, of token "cs_writes cs"] obtain acs where acs: "on_client_leave token (Inr (cs_accounts cs, cs_writes cs)) = Inr (acs, cs_writes cs)"
    "accounts_inv acs" "session_ended token (cs_accounts cs) acs" by blast
  let ?cs = "set_clients (Some hs') (cs\<lparr>cs_accounts := acs, cs_writes := cs_writes cs\<rparr>)"
  have "channel_leaves xxh3 mem token cs = Inr ?cs" using hs hs'(1) acs(1) by (simp add: channel_leaves_def)
  moreover have "channel_inv xxh3 ?cs" using hs'(2) acs(2) by (intro channel_inv_set) simp_all
  moreover have "clients_of ?cs = (clients_of cs)(token := None)" using hs'(3) hs(1) by (simp add: clients_of_def [of cs])
  ultimately show ?thesis using acs(3) by (intro exI [of _ ?cs] conjI) simp_all
qed

lemma create_ok: "\<exists>hs. hash_set_u32_create True = Some hs \<and> hash_set_inv (hash_u32 xxh3) lic_id hs \<and> hash_set_map lic_id hs = Map.empty"
  using u32.create_law [of xxh3 lic_id] by blast

lemma greeting_ok:
  assumes inv: "channel_inv xxh3 cs"
  shows "\<exists>cs'. channel_greeting xxh3 mem True b cs = Inr cs' \<and> channel_inv xxh3 cs' \<and> lch_connected (cs_channel cs') \<and>
    (if b = 0 then clients_of cs' = Map.empty \<and>
       released (ran (clients_of cs)) (cs_accounts cs, cs_writes cs) (cs_accounts cs', cs_writes cs')
     else clients_of cs' = clients_of cs \<and> cs_accounts cs' = cs_accounts cs \<and> cs_writes cs' = cs_writes cs)"
proof -
  from create_ok [of xxh3] obtain hs :: "logged_in_character hash_set" where hs: "hash_set_u32_create True = Some hs"
    "hash_set_inv (hash_u32 xxh3) lic_id hs" "hash_set_map lic_id hs = Map.empty" by blast
  show ?thesis
  proof (cases "b = 0")
    case True
    from leave_all_ok [OF inv, of mem] obtain acs ws where l: "leave_all xxh3 mem cs = Inr (cs\<lparr>cs_accounts := acs, cs_writes := ws\<rparr>)"
      "released (ran (clients_of cs)) (cs_accounts cs, cs_writes cs) (acs, ws)" by blast
    let ?cs = "on_channel (\<lambda>ch. ch\<lparr>lch_connected := True\<rparr>) (set_clients (Some hs) (cs\<lparr>cs_accounts := acs, cs_writes := ws\<rparr>))"
    have "channel_greeting xxh3 mem True b cs = Inr ?cs" using l(1) hs(1) True by (simp add: channel_greeting_def)
    moreover have "channel_inv xxh3 ?cs" using released_inv [OF l(2)] hs(2) by (intro channel_inv_set) simp_all
    ultimately show ?thesis using True l(2) hs(3) by simp
  next
    case False
    then show ?thesis using hs inv by (auto simp: channel_greeting_def channel_inv_def clients_of_def)
  qed
qed

lemma timeout_ok:
  assumes inv: "channel_inv xxh3 cs" and d: "\<not> lch_connected (cs_channel cs)"
  shows "\<exists>cs'. on_channel_event xxh3 mem BEV_TIMEOUT cs = Inr cs' \<and> channel_inv xxh3 cs' \<and> \<not> lch_connected (cs_channel cs') \<and>
    (if lch_attempts (cs_channel cs) = 2 then clients_of cs' = Map.empty \<and>
       released (ran (clients_of cs)) (cs_accounts cs, cs_writes cs) (cs_accounts cs', cs_writes cs')
     else clients_of cs' = clients_of cs \<and> cs_accounts cs' = cs_accounts cs \<and> cs_writes cs' = cs_writes cs)"
proof -
  let ?cs = "on_channel (\<lambda>ch. ch\<lparr>lch_attempts := lch_attempts ch + 1\<rparr>) cs"
  have i: "channel_inv xxh3 ?cs" and c: "clients_of ?cs = clients_of cs" using inv by (simp_all add: channel_inv_def clients_of_def)
  show ?thesis
  proof (cases "lch_attempts (cs_channel cs) = 2")
    case True
    from leave_all_ok [OF i, of mem] c obtain acs ws where l: "leave_all xxh3 mem ?cs = Inr (?cs\<lparr>cs_accounts := acs, cs_writes := ws\<rparr>)"
      "released (ran (clients_of cs)) (cs_accounts cs, cs_writes cs) (acs, ws)" by auto
    let ?cs' = "set_clients None (?cs\<lparr>cs_accounts := acs, cs_writes := ws\<rparr>)"
    have "on_channel_event xxh3 mem BEV_TIMEOUT cs = Inr ?cs'" using l(1) True by (simp add: on_channel_event_def)
    moreover have "channel_inv xxh3 ?cs'" using released_inv [OF l(2)] d by (intro channel_inv_set) simp_all
    ultimately show ?thesis using True l(2) d by simp
  next
    case False
    then show ?thesis using i c d inv by (auto simp: on_channel_event_def Let_def)
  qed
qed

subsection \<open>Runs\<close>

text \<open>
  The first byte and the character number of a message of the channel, and whether the channel may send it: it only
  tells about characters that were sent to it and have not left.
\<close>

definition message_token :: "bytes \<Rightarrow> u32" where
  "message_token inp = word_of_int (le_val (take 4 (drop 1 inp)))"

definition sensible :: "channel_state \<Rightarrow> bytes \<Rightarrow> bool" where
  "sensible cs inp \<longleftrightarrow>
     (lch_connected (cs_channel cs) \<and> 5 \<le> length inp \<and> inp ! 0 \<in> {0, 1} \<longrightarrow> clients_of cs (message_token inp) \<noteq> None)"

text \<open>All that can happen to a channel. A character is sent to it at most once at a time, and timeouts only
  occur while there is no connection. Meanwhile clients log in and out.\<close>

inductive channel_run :: "(bytes \<Rightarrow> u64) \<Rightarrow> channel_state \<Rightarrow> bool" for xxh3 where
  init: "accounts_inv acs \<Longrightarrow>
    channel_run xxh3 \<lparr>cs_channel = \<lparr>lch_clients = None, lch_connected = False, lch_attempts = 0, lch_out = []\<rparr>, cs_accounts = acs, cs_writes = []\<rparr>"
| assign: "channel_run xxh3 cs \<Longrightarrow> clients_of cs cid = None \<Longrightarrow> assign_channel xxh3 True fd cid cs = Inr (cs', r) \<Longrightarrow> channel_run xxh3 cs'"
| read: "channel_run xxh3 cs \<Longrightarrow> sensible cs inp \<Longrightarrow> on_channel_read xxh3 mem True inp cs = Inr (cs', rest) \<Longrightarrow> channel_run xxh3 cs'"
| event: "channel_run xxh3 cs \<Longrightarrow> (ev = BEV_TIMEOUT \<Longrightarrow> \<not> lch_connected (cs_channel cs)) \<Longrightarrow>
    on_channel_event xxh3 mem ev cs = Inr cs' \<Longrightarrow> channel_run xxh3 cs'"
| others: "channel_run xxh3 cs \<Longrightarrow> accounts_inv acs \<Longrightarrow> channel_run xxh3 (cs\<lparr>cs_accounts := acs\<rparr>)"

lemma read_ok:
  assumes inv: "channel_inv xxh3 cs" and s: "sensible cs inp"
  shows "\<exists>cs' rest. on_channel_read xxh3 mem True inp cs = Inr (cs', rest) \<and> channel_inv xxh3 cs'"
proof (cases "lch_connected (cs_channel cs)")
  case False
  show ?thesis
  proof (cases inp)
    case Nil
    then show ?thesis using False inv by (simp add: on_channel_read_def)
  next
    case (Cons b rest)
    from greeting_ok [OF inv, of mem b] obtain cs' where "channel_greeting xxh3 mem True b cs = Inr cs'" "channel_inv xxh3 cs'" by blast
    then show ?thesis using False Cons by (simp add: on_channel_read_def)
  qed
next
  case True
  show ?thesis
  proof (cases "5 \<le> length inp \<and> inp ! 0 \<in> {0, 1}")
    case c: True
    then have tok: "clients_of cs (message_token inp) \<noteq> None" using s True by (simp add: sensible_def)
    show ?thesis
    proof (cases "inp ! 0 = 0")
      case z: True
      from tok obtain chr where "clients_of cs (message_token inp) = Some chr" by blast
      from accept_ok [OF inv this] show ?thesis using True c z by (auto simp: on_channel_read_def Let_def message_token_def)
    next
      case z: False
      from leaves_ok [OF inv tok, of mem] show ?thesis using True c z by (auto simp: on_channel_read_def Let_def message_token_def)
    qed
  next
    case False
    then show ?thesis using True inv by (auto simp: on_channel_read_def Let_def)
  qed
qed

lemma event_ok:
  assumes inv: "channel_inv xxh3 cs" and t: "ev = BEV_TIMEOUT \<Longrightarrow> \<not> lch_connected (cs_channel cs)"
  shows "\<exists>cs'. on_channel_event xxh3 mem ev cs = Inr cs' \<and> channel_inv xxh3 cs'"
proof (cases ev)
  case BEV_TIMEOUT
  then show ?thesis using timeout_ok [OF inv t, of mem] by blast
next
  case BEV_EOF_OR_ERROR
  have "channel_inv xxh3 (on_channel (\<lambda>ch. ch\<lparr>lch_attempts := 0, lch_connected := False\<rparr>) cs)" using inv by (simp add: channel_inv_def)
  then show ?thesis using BEV_EOF_OR_ERROR by (simp add: on_channel_event_def)
qed (use inv channel_inv_set(3) in \<open>simp_all add: on_channel_event_def\<close>)

lemma channel_run_inv: "channel_run xxh3 cs \<Longrightarrow> channel_inv xxh3 cs"
proof (induction rule: channel_run.induct)
  case (init acs)
  then show ?case by (simp add: channel_inv_def)
next
  case (assign cs cid fd cs' r)
  show ?case
  proof (cases "fd \<noteq> - 1 \<and> lch_connected (cs_channel cs)")
    case True
    then show ?thesis using assign_ok [OF assign.IH assign.hyps(2), of fd] assign.hyps(3) by auto
  next
    case False
    then show ?thesis using assign.IH assign.hyps(3) by (auto simp: assign_channel_def split: if_splits)
  qed
next
  case (read cs inp mem cs' rest)
  then show ?case using read_ok [OF read.IH read.hyps(2), of mem] by auto
next
  case (event cs ev mem cs')
  then show ?case using event_ok [OF event.IH, of ev mem] by auto
next
  case (others cs acs)
  then show ?case by (simp add: channel_inv_def)
qed

subsection \<open>Properties\<close>

lemma message_token_le [simp]: "message_token (b # le_bytes 4 (uint token) @ rest) = token"
  by (simp add: message_token_def)



text \<open>A channel before the first connection.\<close>

definition new_channel :: channel_state where
  "new_channel = \<lparr>cs_channel = \<lparr>lch_clients = None, lch_connected = False, lch_attempts = 0, lch_out = []\<rparr>,
     cs_accounts = \<lparr>ac_heap = Map.empty, ac_HEAD = None\<rparr>, cs_writes = []\<rparr>"

lemma new_channel_run: "channel_run xxh3 new_channel"
  unfolding new_channel_def by (rule channel_run.init, rule account_run_inv, rule account_run.init)



end
