(* ===== verification/Login_Handlers.thy ===== *)
theory Login_Handlers
  imports Accounts Character_Packets
begin

text \<open>
  The handlers of the login server (\<^verbatim>\<open>src/src/login/handlers.c\<close>). A handler that needs the
  database is a coroutine: \<open>handle\<close> is called until it returns a status that is not positive, a
  positive one being what it waits for, and \<open>state\<close> is where it goes on.

  The database is the environment. \<open>ls_replies\<close> holds what the coming calls of
  \<open>database_request_execute\<close> deliver, a status and, if it is 0, the result of the request; \<open>ls_log\<close>
  records every such call with its request. A result that does not belong to the request would be
  another member of the union, which is the error \<open>Wrong_result\<close>. The hash function of passwords
  (Argon2), the numbers \<open>random\<close> delivers, the addresses \<open>malloc\<close> delivers and whether there is memory
  for requests are arguments or part of the state.

  Strings with their length are byte lists: the bytes that the length covers.
\<close>

subsection \<open>State\<close>

datatype db_request =
    TRY_CREATE_ACCOUNT bytes bytes u64
  | GET_ACCOUNT_CREDENTIALS bytes
  | GET_ACCOUNT u32
  | UPDATE_ACCOUNT u32 bytes bool bool u8
  | GET_CHARACTERS_FOR_ACCOUNT_FOR_WORLD u32 u8
  | GET_CHARACTER_EXISTS bytes
  | TRY_CREATE_CHARACTER bytes u32 u8 u32 u16 u8 u8 u32 u32 "equipment list"

record db_character =
  dc_id :: u32
  dc_name :: bytes
  dc_job :: u16
  dc_level :: u8
  dc_exp :: int
  dc_maxHp :: int
  dc_hp :: int
  dc_maxMp :: int
  dc_mp :: int
  dc_str :: int
  dc_dex :: int
  dc_int :: int
  dc_luk :: int
  dc_ap :: int
  dc_sp :: int
  dc_fame :: int
  dc_gender :: u8
  dc_skin :: u8
  dc_face :: u32
  dc_hair :: u32
  dc_equipment :: "u32 list"

datatype db_result =
    Account_created bool u32
  | Account_credentials bool u32 bytes u64
  | Account_row bytes u8 bool u8
  | Character_created bool u32
  | Character_exists bool
  | Characters "db_character list"
  | No_result

datatype lerror = Null_node | Bad_node | Null_handler | Null_request | Out_of_replies | Wrong_result | Endless | Overrun | No_equip_info | Aborted

datatype login_message =
    Login_failure nat
  | Login_success u32 u8 bytes nat
  | Pin_mode nat
  | Server_list u8 nat bytes
  | Server_list_end
  | Server_status nat
  | Character_list "character_stats list" nat
  | Name_check_response bytes bool
  | Create_character_response character_stats
  | Login_error u8
  | Channel_ip u32 u16 u32

text \<open>The call of the packet builder that produces the bytes, on the array they are written to.\<close>

definition with_size :: "nat \<Rightarrow> werror + bytes \<Rightarrow> werror + bytes \<times> nat" where
  "with_size n r = map_sum id (\<lambda>bs. (bs, n)) r"

fun login_message_packet :: "login_message \<Rightarrow> bytes \<Rightarrow> werror + bytes \<times> nat" where
  "login_message_packet (Login_failure reason) pkt = with_size LOGIN_FAILURE_PACKET_LENGTH (login_failure_packet reason pkt)"
| "login_message_packet (Login_success aid gender name pic) pkt = login_success_packet aid gender (of_nat (length name)) name pic pkt"
| "login_message_packet (Pin_mode mode) pkt = with_size PIN_PACKET_LENGTH (pin_packet mode pkt)"
| "login_message_packet (Server_list world flag mes) pkt = server_list_packet world flag (of_nat (length mes)) mes pkt"
| "login_message_packet Server_list_end pkt = with_size SERVER_LIST_END_PACKET_LENGTH (server_list_end_packet pkt)"
| "login_message_packet (Server_status status) pkt = with_size SERVER_STATUS_PACKET_LENGTH (server_status_packet status pkt)"
| "login_message_packet (Character_list chars pic) pkt = character_list_packet 0 (of_nat (length chars)) chars (of_nat pic) pkt"
| "login_message_packet (Name_check_response name available) pkt = name_check_response_packet (of_nat (length name)) name available pkt"
| "login_message_packet (Create_character_response chr) pkt = create_character_response_packet chr pkt"
| "login_message_packet (Login_error err) pkt = with_size LOGIN_ERROR_PACKET_LENGTH (login_error_packet err pkt)"
| "login_message_packet (Channel_ip addr port token) pkt = with_size CHANNEL_IP_PACKET_LENGTH (channel_ip_packet addr port token pkt)"

definition LOGIN_FAILURE_REASON_INCORRECT_PASSWORD :: nat where "LOGIN_FAILURE_REASON_INCORRECT_PASSWORD = 4"
definition LOGIN_FAILURE_REASON_LOGGED_IN :: nat where "LOGIN_FAILURE_REASON_LOGGED_IN = 7"
definition LOGIN_FAILURE_REASON_TOS :: nat where "LOGIN_FAILURE_REASON_TOS = 23"
definition PIC_STATUS_REGISTER :: nat where "PIC_STATUS_REGISTER = 0"
definition PIC_STATUS_REQUEST :: nat where "PIC_STATUS_REQUEST = 1"

text \<open>\<open>struct Client\<close> without the session and the handler, and what the handlers work on.\<close>

record login_client =
  lc_node :: "nat option"
  lc_account :: account
  lc_world :: u8
  lc_channel :: u8
  lc_loggedIn :: bool

record login_state =
  ls_accounts :: accounts
  ls_client :: login_client
  ls_replies :: "(int \<times> db_result) list"
  ls_log :: "(db_request \<times> int \<times> db_result) list"
  ls_random :: "nat \<Rightarrow> u64"

definition on_client :: "(login_client \<Rightarrow> login_client) \<Rightarrow> login_state \<Rightarrow> login_state" where
  "on_client f st = st\<lparr>ls_client := f (ls_client st)\<rparr>"

definition on_account :: "(account \<Rightarrow> account) \<Rightarrow> login_state \<Rightarrow> login_state" where
  "on_account f = on_client (\<lambda>c. c\<lparr>lc_account := f (lc_account c)\<rparr>)"

text \<open>The progress of the request a handler waits for: the handler's state, the request and the
  result.\<close>

record db_task =
  tk_state :: nat
  tk_request :: "db_request option"
  tk_result :: db_result

text \<open>What \<open>handle\<close> returns: the status and the packet (\<open>None\<close> if its size is 0).\<close>

type_synonym handled = "int \<times> login_message option"

subsection \<open>Requests\<close>

definition database_request_execute :: "db_task \<Rightarrow> login_state \<Rightarrow> lerror + int \<times> db_task \<times> login_state" where
  "database_request_execute tk st =
     (case tk_request tk of
        None \<Rightarrow> Inl Null_request
      | Some req \<Rightarrow>
          (case ls_replies st of
             [] \<Rightarrow> Inl Out_of_replies
           | (status, res) # rs \<Rightarrow>
               Inr (status, tk\<lparr>tk_result := res\<rparr>, st\<lparr>ls_replies := rs, ls_log := ls_log st @ [(req, status, res)]\<rparr>)))"

text \<open>
  Every handler starts a request and continues it like this: the state is increased before the first
  call and again when a call has returned 0.
\<close>

definition advance_task :: "db_task \<Rightarrow> db_task" where
  "advance_task tk = tk\<lparr>tk_state := tk_state tk + 1\<rparr>"

definition continue_request :: "db_task \<Rightarrow> login_state \<Rightarrow> lerror + int \<times> db_task \<times> login_state" where
  "continue_request tk st =
     (case database_request_execute tk st of
        Inl err \<Rightarrow> Inl err
      | Inr (status, tk, st) \<Rightarrow> Inr (status, if status = 0 then advance_task tk else tk, st))"

definition started :: "bool \<Rightarrow> db_request \<Rightarrow> db_task \<Rightarrow> db_task" where
  "started mem req tk = advance_task (tk\<lparr>tk_request := (if mem then Some req else None)\<rparr>)"

definition start_request :: "bool \<Rightarrow> db_request \<Rightarrow> db_task \<Rightarrow> login_state \<Rightarrow> lerror + int \<times> db_task \<times> login_state" where
  "start_request mem req tk st = continue_request (started mem req tk) st"

text \<open>The id of the account of this client.\<close>

definition client_id :: "login_state \<Rightarrow> lerror + u32" where
  "client_id st =
     (case lc_node (ls_client st) of
        None \<Rightarrow> Inl Null_node
      | Some a \<Rightarrow> map_sum (\<lambda>_. Bad_node) id (account_get_id (ls_accounts st) a))"

definition gender_to_u8 :: "account_gender \<Rightarrow> u8" where
  "gender_to_u8 g = (case g of ACCOUNT_GENDER_UNSPECIFIED \<Rightarrow> 10 | ACCOUNT_GENDER_MALE \<Rightarrow> 0 | ACCOUNT_GENDER_FEMALE \<Rightarrow> 1)"

definition pic_status :: "account \<Rightarrow> nat" where
  "pic_status acc = (if acc_picLength acc = 0 then PIC_STATUS_REGISTER else PIC_STATUS_REQUEST)"

definition success_message :: "login_state \<Rightarrow> lerror + login_message" where
  "success_message st =
     (let acc = lc_account (ls_client st)
      in map_sum id (\<lambda>aid. Login_success aid (gender_to_u8 (acc_gender acc)) (take (unat (acc_nameLength acc)) (acc_name acc)) (pic_status acc))
           (client_id st))"

subsection \<open>Logging in\<close>

record login_handler =
  lh_task :: db_task
  lh_name :: bytes
  lh_pass :: bytes
  lh_hwid :: bytes

definition new_task :: db_task where
  "new_task = \<lparr>tk_state = 0, tk_request = None, tk_result = No_result\<rparr>"

text \<open>The arrays have room for 12 bytes; \<open>None\<close>: no memory.\<close>

definition login_handler_create :: "bool \<Rightarrow> bytes \<Rightarrow> bytes \<Rightarrow> bytes \<Rightarrow> lerror + login_handler option" where
  "login_handler_create mem name pass hwid =
     (if \<not> mem then Inr None
      else if length name > 12 \<or> length pass > 12 then Inl Overrun
      else Inr (Some \<lparr>lh_task = new_task, lh_name = name, lh_pass = pass, lh_hwid = hwid\<rparr>))"

text \<open>\<open>account_login\<close> for this client: the node is stored even if it is null.\<close>

definition enter_account :: "(accounts \<Rightarrow> nat option) \<Rightarrow> u32 \<Rightarrow> login_state \<Rightarrow> lerror + login_state" where
  "enter_account alloc aid st =
     (case account_login (alloc (ls_accounts st)) aid (ls_accounts st) of
        None \<Rightarrow> Inl Endless
      | Some (Inl err) \<Rightarrow> Inl Bad_node
      | Some (Inr (acs, node)) \<Rightarrow> Inr (on_client (\<lambda>c. c\<lparr>lc_node := node\<rparr>) (st\<lparr>ls_accounts := acs\<rparr>)))"

text \<open>
  One pass through the block of the current state: \<open>Some\<close> is the value that is returned, \<open>None\<close> goes
  on with the next block. The salt consists of two numbers from \<open>random\<close>.
\<close>

definition next_salt :: "login_state \<Rightarrow> u64 \<times> login_state" where
  "next_salt st = (or (push_bit 32 (ls_random st 0)) (ls_random st 1), st\<lparr>ls_random := (\<lambda>n. ls_random st (n + 2))\<rparr>)"

definition awaited :: "login_handler \<Rightarrow> lerror + int \<times> db_task \<times> login_state \<Rightarrow> lerror + handled option \<times> login_handler \<times> login_state" where
  "awaited h r =
     (case r of
        Inl err \<Rightarrow> Inl err
      | Inr (status, tk, st) \<Rightarrow> Inr (if status \<noteq> 0 then Some (status, None) else None, h\<lparr>lh_task := tk\<rparr>, st))"

definition login_created :: "bool \<Rightarrow> (accounts \<Rightarrow> nat option) \<Rightarrow> login_handler \<Rightarrow> login_state \<Rightarrow> lerror + handled option \<times> login_handler \<times> login_state" where
  "login_created mem alloc h st =
     (case tk_result (lh_task h) of
        Account_created created aid \<Rightarrow>
          if created
          then (case enter_account alloc aid st of
                  Inl err \<Rightarrow> Inl err
                | Inr st \<Rightarrow>
                    Inr (Some (0, Some (Login_failure LOGIN_FAILURE_REASON_TOS)), h\<lparr>lh_task := advance_task (lh_task h)\<rparr>,
                         on_account (\<lambda>_. account_get_default_account (of_nat (length (lh_name h))) (lh_name h)) st))
          else awaited h (start_request mem (GET_ACCOUNT_CREDENTIALS (lh_name h)) (lh_task h) st)
      | _ \<Rightarrow> Inl Wrong_result)"

definition set_name :: "bytes \<Rightarrow> account \<Rightarrow> account" where
  "set_name name acc = acc\<lparr>acc_nameLength := of_nat (length name), acc_name := name @ drop (length name) (acc_name acc)\<rparr>"

definition login_authenticate ::
  "(bytes \<Rightarrow> u64 \<Rightarrow> bytes) \<Rightarrow> bool \<Rightarrow> (accounts \<Rightarrow> nat option) \<Rightarrow> login_handler \<Rightarrow> login_state \<Rightarrow> lerror + handled option \<times> login_handler \<times> login_state" where
  "login_authenticate argon mem alloc h st =
     (case tk_result (lh_task h) of
        Account_credentials found aid hash salt \<Rightarrow>
          if \<not> found then Inr (None, h\<lparr>lh_task := (lh_task h)\<lparr>tk_state := 0\<rparr>\<rparr>, st)
          else if argon (lh_pass h) salt \<noteq> hash
          then Inr (Some (0, Some (Login_failure LOGIN_FAILURE_REASON_INCORRECT_PASSWORD)), h, st)
          else (case enter_account alloc aid st of
                  Inl err \<Rightarrow> Inl err
                | Inr st \<Rightarrow>
                    if lc_node (ls_client st) = None
                    then Inr (Some (0, Some (Login_failure LOGIN_FAILURE_REASON_LOGGED_IN)), h, st)
                    else awaited h (start_request mem (GET_ACCOUNT aid) (lh_task h) (on_account (set_name (lh_name h)) st)))
      | _ \<Rightarrow> Inl Wrong_result)"

text \<open>The length of the PIC is converted to \<open>uint8_t\<close>.\<close>

definition load_account :: "bytes \<Rightarrow> u8 \<Rightarrow> bool \<Rightarrow> u8 \<Rightarrow> account \<Rightarrow> account" where
  "load_account pic tos gender_null gender acc =
     acc\<lparr>acc_picLength := of_nat (length pic), acc_pic := pic @ drop (length pic) (acc_pic acc), acc_tos := (tos = 1),
         acc_gender := (if gender_null then ACCOUNT_GENDER_UNSPECIFIED else if gender = 0 then ACCOUNT_GENDER_MALE else ACCOUNT_GENDER_FEMALE)\<rparr>"

definition login_load :: "login_handler \<Rightarrow> login_state \<Rightarrow> lerror + handled option \<times> login_handler \<times> login_state" where
  "login_load h st =
     (case tk_result (lh_task h) of
        Account_row pic tos gender_null gender \<Rightarrow>
          if length pic > 16 then Inl Overrun
          else let st = on_account (load_account pic tos gender_null gender) st
               in map_sum id (\<lambda>msg. (Some (0, Some msg), h, st)) (success_message st)
      | _ \<Rightarrow> Inl Wrong_result)"

definition login_block ::
  "(bytes \<Rightarrow> u64 \<Rightarrow> bytes) \<Rightarrow> bool \<Rightarrow> (accounts \<Rightarrow> nat option) \<Rightarrow> login_handler \<Rightarrow> login_state \<Rightarrow> lerror + handled option \<times> login_handler \<times> login_state" where
  "login_block argon mem alloc h st =
     (let n = tk_state (lh_task h)
      in if n = 0 then let (salt, st) = next_salt st
                       in awaited h (start_request mem (TRY_CREATE_ACCOUNT (lh_name h) (argon (lh_pass h) salt) salt) (lh_task h) st)
         else if n = 1 \<or> n = 3 \<or> n = 5 then awaited h (continue_request (lh_task h) st)
         else if n = 2 then login_created mem alloc h st
         else if n = 4 then login_authenticate argon mem alloc h st
         else if n = 6 then login_load h st
         else Inl Endless)"

lemma awaited_continue:
  assumes "awaited h r = Inr (None, h', st')" "r = continue_request tk st"
  shows "length (ls_replies st') < length (ls_replies st)"
  using assms by (auto simp: awaited_def continue_request_def database_request_execute_def split: sum.splits option.splits list.splits if_splits prod.splits)

lemma enter_account_keeps:
  assumes "enter_account alloc aid st = Inr st'"
  shows "ls_replies st' = ls_replies st" "ls_log st' = ls_log st" "lc_account (ls_client st') = lc_account (ls_client st)"
  using assms by (auto simp: enter_account_def on_client_def split: option.splits sum.splits)

lemma login_block_measure:
  assumes "login_block argon mem alloc h st = Inr (None, h', st')"
  shows "length (ls_replies st') * 2 + (if tk_state (lh_task h') = 4 then 1 else 0) < length (ls_replies st) * 2 + (if tk_state (lh_task h) = 4 then 1 else 0)"
  using assms
  by (auto simp: login_block_def next_salt_def start_request_def login_created_def login_authenticate_def login_load_def Let_def map_sum_def
      on_account_def on_client_def
      split: if_splits db_result.splits sum.splits dest!: awaited_continue dest: enter_account_keeps(1))

function login_handler_handle ::
  "(bytes \<Rightarrow> u64 \<Rightarrow> bytes) \<Rightarrow> bool \<Rightarrow> (accounts \<Rightarrow> nat option) \<Rightarrow> login_handler \<Rightarrow> login_state \<Rightarrow> lerror + handled \<times> login_handler \<times> login_state" where
  "login_handler_handle argon mem alloc h st =
     (case login_block argon mem alloc h st of
        Inl err \<Rightarrow> Inl err
      | Inr (Some r, h, st) \<Rightarrow> Inr (r, h, st)
      | Inr (None, h, st) \<Rightarrow> login_handler_handle argon mem alloc h st)"
  by pat_completeness auto
termination
  by (relation "measure (\<lambda>(argon, mem, alloc, h, st). length (ls_replies st) * 2 + (if tk_state (lh_task h) = 4 then 1 else 0))")
    (auto dest!: login_block_measure)

declare login_handler_handle.simps [simp del]

subsection \<open>Logging out\<close>

definition leave_account :: "login_state \<Rightarrow> lerror + login_state" where
  "leave_account st =
     (case lc_node (ls_client st) of
        None \<Rightarrow> Inl Null_node
      | Some a \<Rightarrow>
          (case account_logout a (ls_accounts st) of
             Inl err \<Rightarrow> Inl Bad_node
           | Inr acs \<Rightarrow> Inr (on_client (\<lambda>c. c\<lparr>lc_node := None\<rparr>) (st\<lparr>ls_accounts := acs\<rparr>))))"

definition leave_unless_in_channel :: "login_state \<Rightarrow> lerror + login_state" where
  "leave_unless_in_channel st = (if lc_loggedIn (ls_client st) then Inr st else leave_account st)"

text \<open>\<open>gender\<close> of the request is 0 for male and 1 otherwise, here and for \<open>gender_handler_handle\<close> the
  value of the enumeration.\<close>

definition update_account :: "bool \<Rightarrow> login_state \<Rightarrow> lerror + db_request" where
  "update_account logout st =
     (let acc = lc_account (ls_client st)
      in map_sum id (\<lambda>aid. UPDATE_ACCOUNT aid (take (unat (acc_picLength acc)) (acc_pic acc)) (acc_tos acc)
             (acc_gender acc = ACCOUNT_GENDER_UNSPECIFIED)
             (if logout then if acc_gender acc = ACCOUNT_GENDER_MALE then 0 else 1 else gender_to_u8 (acc_gender acc)))
           (client_id st))"

definition logout_waiting :: "lerror + int \<times> db_task \<times> login_state \<Rightarrow> lerror + int \<times> db_task \<times> login_state" where
  "logout_waiting r =
     (case r of
        Inl err \<Rightarrow> Inl err
      | Inr (status, tk, st) \<Rightarrow>
          if status < 0 \<or> status = 0 then map_sum id (\<lambda>st. (status, tk, st)) (leave_unless_in_channel st)
          else Inr (status, tk, st))"

definition logout_handler_handle :: "bool \<Rightarrow> db_task \<Rightarrow> login_state \<Rightarrow> lerror + int \<times> db_task \<times> login_state" where
  "logout_handler_handle mem tk st =
     (if tk_state tk = 0
      then (case update_account True st of Inl err \<Rightarrow> Inl err | Inr req \<Rightarrow> logout_waiting (start_request mem req tk st))
      else if tk_state tk = 1 then logout_waiting (continue_request tk st)
      else if tk_state tk = 2 then map_sum id (\<lambda>st. (0, tk, st)) (leave_unless_in_channel st)
      else Inr (0, tk, st))"

subsection \<open>Terms of service, gender and PIN\<close>

definition handle_tos :: "bool \<Rightarrow> login_state \<Rightarrow> lerror + handled \<times> login_state" where
  "handle_tos accept st =
     (let st = on_account (\<lambda>acc. acc\<lparr>acc_tos := accept\<rparr>) st
      in if \<not> accept then Inr ((- 1, None), st)
         else map_sum id (\<lambda>msg. ((0, Some msg), st)) (success_message st))"

text \<open>The handler is only created if no gender was chosen.\<close>

definition gender_handler_create :: "bool \<Rightarrow> account_gender \<Rightarrow> login_state \<Rightarrow> lerror + handled \<times> db_task option \<times> login_state" where
  "gender_handler_create mem gender st =
     (if gender \<noteq> ACCOUNT_GENDER_UNSPECIFIED
      then let st = on_account (\<lambda>acc. acc\<lparr>acc_gender := gender\<rparr>) st
           in map_sum id (\<lambda>msg. ((0, Some msg), None, st)) (success_message st)
      else if \<not> mem then Inr ((- 1, None), None, st)
      else Inr ((1, None), Some new_task, st))"

definition gender_handler_handle :: "bool \<Rightarrow> db_task \<Rightarrow> login_state \<Rightarrow> lerror + handled \<times> db_task \<times> login_state" where
  "gender_handler_handle mem tk st =
     (let waiting = map_sum id (\<lambda>(status, tk, st). ((status, None :: login_message option), tk, st))
      in if tk_state tk = 0
         then (case update_account False st of
                 Inl err \<Rightarrow> Inl err
               | Inr req \<Rightarrow> if \<not> mem then Inr ((- 1, None), tk, st) else waiting (start_request mem req tk st))
         else if tk_state tk = 1 then waiting (continue_request tk st)
         else Inr ((0, None), tk, st))"

definition handle_pin :: "u8 \<Rightarrow> u8 \<Rightarrow> handled" where
  "handle_pin c2 c3 = (if c2 = 1 \<and> c3 = 0 then (0, Some (Pin_mode 0)) else (- 1, None))"

definition handle_server_list :: "login_message list" where
  "handle_server_list =
     [Server_list 0 3 [72, 101, 108, 108, 111, 33], Server_list 1 2 [72, 111, 119, 100, 121, 33], Server_list_end]"

definition handle_server_status :: "u8 \<Rightarrow> handled" where
  "handle_server_status world = (0, Some (Server_status (if world = 0 then 0 else 1)))"

subsection \<open>Characters\<close>

text \<open>
  The handlers for characters wait alike: a negative status ends them (\<open>goto fail\<close>), with that status
  or with \<open>-1\<close>, a positive one is returned, and 0 goes on to the last block, \<open>finish\<close>.
\<close>

definition query_handle ::
  "bool \<Rightarrow> (login_state \<Rightarrow> lerror + db_request) \<Rightarrow> (int \<Rightarrow> int) \<Rightarrow> (db_task \<Rightarrow> login_state \<Rightarrow> lerror + login_message) \<Rightarrow> db_task \<Rightarrow> login_state \<Rightarrow>
   lerror + handled \<times> db_task \<times> login_state" where
  "query_handle mem request failed finish tk st =
     (let waiting = (\<lambda>r. case r of
                Inl err \<Rightarrow> Inl err
              | Inr (status, tk, st) \<Rightarrow>
                  if status < 0 then Inr ((failed status, None), tk, st)
                  else if status > 0 then Inr ((status, None), tk, st)
                  else map_sum id (\<lambda>msg. ((0, Some msg), tk, st)) (finish tk st))
      in if tk_state tk = 0
         then (case request st of
                 Inl err \<Rightarrow> Inl err
               | Inr req \<Rightarrow> if \<not> mem then Inr ((- 1, None), tk, st) else waiting (start_request mem req tk st))
         else if tk_state tk = 1 then waiting (continue_request tk st)
         else if tk_state tk = 2 then map_sum id (\<lambda>msg. ((0, Some msg), tk, st)) (finish tk st)
         else Inl Aborted)"

definition character_list_handler_create :: "bool \<Rightarrow> u8 \<Rightarrow> u8 \<Rightarrow> login_state \<Rightarrow> db_task option \<times> login_state" where
  "character_list_handler_create mem world channel st =
     (if mem then (Some new_task, on_client (\<lambda>c. c\<lparr>lc_world := world, lc_channel := channel\<rparr>) st) else (None, st))"

definition no_equipment_ids :: "equipment_id list" where
  "no_equipment_ids = replicate EQUIP_SLOT_COUNT \<lparr>ap_isEmpty = True, ap_id = 0\<rparr>"

definition wear :: "nat \<Rightarrow> u32 \<Rightarrow> equipment_id list \<Rightarrow> lerror + equipment_id list" where
  "wear slot iid es =
     (let i = unat (equip_slot_to_compact slot)
      in if i < length es then Inr (es[i := \<lparr>ap_isEmpty = False, ap_id = iid\<rparr>]) else Inl Overrun)"

fun wear_all :: "(nat \<times> u32) list \<Rightarrow> equipment_id list \<Rightarrow> lerror + equipment_id list" where
  "wear_all [] es = Inr es"
| "wear_all ((slot, iid) # ws) es = (case wear slot iid es of Inl err \<Rightarrow> Inl err | Inr es \<Rightarrow> wear_all ws es)"

text \<open>The maximal and the current values of HP and MP are exchanged.\<close>

definition listed_character :: "db_character \<Rightarrow> lerror + character_stats" where
  "listed_character d =
     map_sum id (\<lambda>es.
       \<lparr>st_id = dc_id d,
        st_info = \<lparr>appearance = \<lparr>ap_nameLength = of_nat (length (dc_name d)), ap_name = dc_name d, ap_gender = (dc_gender d \<noteq> 0),
            ap_skin = dc_skin d, ap_face = dc_face d, ap_hair = dc_hair d, ap_gachaExp = 0, ap_map = 0, ap_spawnPoint = 0,
            ap_equipments = es\<rparr>,
          in_level = dc_level d, in_job = unat (dc_job d), in_fame = dc_fame d\<rparr>,
        st_str = dc_str d, st_dex = dc_dex d, st_int = dc_int d, st_luk = dc_luk d,
        st_maxHp = dc_hp d, st_hp = dc_maxHp d, st_maxMp = dc_mp d, st_mp = dc_maxMp d,
        st_ap = dc_ap d, st_sp = dc_sp d, st_exp = dc_exp d\<rparr>)
       (wear_all (map (\<lambda>iid. (equip_slot_from_id iid, iid)) (dc_equipment d)) no_equipment_ids)"

fun listed_characters :: "db_character list \<Rightarrow> lerror + character_stats list" where
  "listed_characters [] = Inr []"
| "listed_characters (d # ds) =
     (case listed_character d of
        Inl err \<Rightarrow> Inl err
      | Inr c \<Rightarrow> map_sum id (\<lambda>cs. c # cs) (listed_characters ds))"

text \<open>The array on the stack has room for 6 characters.\<close>

definition character_list_finish :: "db_task \<Rightarrow> login_state \<Rightarrow> lerror + login_message" where
  "character_list_finish tk st =
     (case tk_result tk of
        Characters ds \<Rightarrow>
          if length ds > 6 then Inl Overrun
          else map_sum id (\<lambda>cs. Character_list cs (pic_status (lc_account (ls_client st)))) (listed_characters ds)
      | _ \<Rightarrow> Inl Wrong_result)"

definition character_list_handler_handle :: "bool \<Rightarrow> db_task \<Rightarrow> login_state \<Rightarrow> lerror + handled \<times> db_task \<times> login_state" where
  "character_list_handler_handle mem =
     query_handle mem (\<lambda>st. map_sum id (\<lambda>aid. GET_CHARACTERS_FOR_ACCOUNT_FOR_WORLD aid (lc_world (ls_client st))) (client_id st))
       (\<lambda>status. status) character_list_finish"

record name_check_handler =
  nh_task :: db_task
  nh_name :: bytes

definition name_check_handler_create :: "bool \<Rightarrow> bytes \<Rightarrow> lerror + name_check_handler option" where
  "name_check_handler_create mem name =
     (if \<not> mem then Inr None else if length name > 12 then Inl Overrun else Inr (Some \<lparr>nh_task = new_task, nh_name = name\<rparr>))"

definition name_check_handler_handle :: "bool \<Rightarrow> name_check_handler \<Rightarrow> login_state \<Rightarrow> lerror + handled \<times> name_check_handler \<times> login_state" where
  "name_check_handler_handle mem h st =
     map_sum id (\<lambda>(r, tk, st). (r, h\<lparr>nh_task := tk\<rparr>, st))
       (query_handle mem (\<lambda>_. Inr (GET_CHARACTER_EXISTS (nh_name h))) (\<lambda>_. - 1)
          (\<lambda>tk st. case tk_result tk of Character_exists exists \<Rightarrow> Inr (Name_check_response (nh_name h) (\<not> exists)) | _ \<Rightarrow> Inl Wrong_result)
          (nh_task h) st)"

record create_character_handler =
  ch_task :: db_task
  ch_name :: bytes
  ch_job :: u16
  ch_gender :: u8
  ch_skin :: u8
  ch_hair :: u32
  ch_face :: u32
  ch_top :: u32
  ch_bottom :: u32
  ch_shoes :: u32
  ch_weapon :: u32

definition create_character_handler_create ::
  "bool \<Rightarrow> bytes \<Rightarrow> u16 \<Rightarrow> u8 \<Rightarrow> u8 \<Rightarrow> u32 \<Rightarrow> u32 \<Rightarrow> u32 \<Rightarrow> u32 \<Rightarrow> u32 \<Rightarrow> u32 \<Rightarrow> lerror + create_character_handler option" where
  "create_character_handler_create mem name job gender skin hair face coat bottom shoes weapon =
     (if \<not> mem then Inr None else if length name > 12 then Inl Overrun
      else Inr (Some \<lparr>ch_task = new_task, ch_name = name, ch_job = job, ch_gender = gender, ch_skin = skin, ch_hair = hair, ch_face = face,
        ch_top = coat, ch_bottom = bottom, ch_shoes = shoes, ch_weapon = weapon\<rparr>))"

definition create_character_request :: "(u32 \<Rightarrow> equip_info option) \<Rightarrow> create_character_handler \<Rightarrow> login_state \<Rightarrow> lerror + db_request" where
  "create_character_request wze h st =
     (case client_id st of
        Inl err \<Rightarrow> Inl err
      | Inr aid \<Rightarrow>
          let equips = map wze [ch_top h, ch_bottom h, ch_shoes h, ch_weapon h]
          in if None \<in> set equips then Inl No_equip_info
             else Inr (TRY_CREATE_CHARACTER (ch_name h) aid (lc_world (ls_client st)) 10000 (ch_job h) (ch_gender h) (ch_skin h) (ch_hair h) (ch_face h)
               (map (\<lambda>e. equipment_from_info (the e)) equips)))"

text \<open>Whether the character was created is not looked at.\<close>

definition create_character_finish :: "create_character_handler \<Rightarrow> db_task \<Rightarrow> login_state \<Rightarrow> lerror + login_message" where
  "create_character_finish h tk st =
     (case tk_result tk of
        Character_created created cid \<Rightarrow>
          map_sum id (\<lambda>es. Create_character_response
            \<lparr>st_id = cid,
             st_info = \<lparr>appearance = \<lparr>ap_nameLength = of_nat (length (ch_name h)), ap_name = ch_name h, ap_gender = (ch_gender h \<noteq> 0),
                 ap_skin = ch_skin h, ap_face = ch_face h, ap_hair = ch_hair h, ap_gachaExp = 0, ap_map = 10000, ap_spawnPoint = 0,
                 ap_equipments = es\<rparr>,
               in_level = 1, in_job = unat (ch_job h), in_fame = 0\<rparr>,
             st_str = 12, st_dex = 5, st_int = 4, st_luk = 4, st_maxHp = 50, st_hp = 50, st_maxMp = 5, st_mp = 5,
             st_ap = 0, st_sp = 0, st_exp = 0\<rparr>)
            (wear_all [(EQUIP_SLOT_TOP_OR_OVERALL, ch_top h), (EQUIP_SLOT_BOTTOM, ch_bottom h), (EQUIP_SLOT_SHOES, ch_shoes h),
                       (EQUIP_SLOT_WEAPON, ch_weapon h)] no_equipment_ids)
      | _ \<Rightarrow> Inl Wrong_result)"

definition create_character_handler_handle ::
  "bool \<Rightarrow> (u32 \<Rightarrow> equip_info option) \<Rightarrow> create_character_handler \<Rightarrow> login_state \<Rightarrow> lerror + handled \<times> create_character_handler \<times> login_state" where
  "create_character_handler_handle mem wze h st =
     map_sum id (\<lambda>(r, tk, st). (r, h\<lparr>ch_task := tk\<rparr>, st))
       (query_handle mem (create_character_request wze h) (\<lambda>_. - 1) (create_character_finish h) (ch_task h) st)"

subsection \<open>Entering a channel\<close>

text \<open>
  \<open>fd\<close> is what \<open>assign_channel\<close> returns, \<open>addr\<close> the address of the channel in the configuration. The
  result is the status, the file descriptor to wait for and the packet.
\<close>

record pic_handler =
  ph_characterId :: u32
  ph_pic :: bytes
  ph_state :: nat

type_synonym channel_result = "int \<times> int \<times> login_message option"

definition enter_channel ::
  "int \<Rightarrow> u32 \<times> u16 \<Rightarrow> int \<Rightarrow> pic_handler \<Rightarrow> login_state \<Rightarrow> lerror + channel_result \<times> pic_handler \<times> login_state" where
  "enter_channel fd addr status h st =
     (if ph_state h = 0
      then if fd \<noteq> - 1 then Inr ((1, fd, None), h\<lparr>ph_state := 1\<rparr>, st) else Inr ((0, 0, Some (Login_error 10)), h, st)
      else if ph_state h = 1
      then if status = 1
           then (case lc_node (ls_client st) of
                   None \<Rightarrow> Inl Null_node
                 | Some a \<Rightarrow>
                     (case account_set_cid a (ph_characterId h) (ls_accounts st) of
                        Inl err \<Rightarrow> Inl Bad_node
                      | Inr acs \<Rightarrow>
                          Inr ((0, 0, Some (Channel_ip (fst addr) (snd addr) (ph_characterId h))), h,
                               on_client (\<lambda>c. c\<lparr>lc_loggedIn := True\<rparr>) (st\<lparr>ls_accounts := acs\<rparr>))))
           else Inr ((0, 0, Some (Login_error 10)), h, st)
      else Inr ((- 1, 0, None), h, st))"

definition register_pic_handler_create :: "bool \<Rightarrow> u32 \<Rightarrow> bytes \<Rightarrow> login_state \<Rightarrow> lerror + pic_handler option \<times> login_state" where
  "register_pic_handler_create mem cid pic st =
     (if \<not> mem then Inr (None, st)
      else if length pic > 16 then Inl Overrun
      else Inr (Some \<lparr>ph_characterId = cid, ph_pic = pic, ph_state = 0\<rparr>,
        on_account (\<lambda>acc. acc\<lparr>acc_picLength := of_nat (length pic), acc_pic := pic @ drop (length pic) (acc_pic acc)\<rparr>) st))"

definition register_pic_handler_handle ::
  "int \<Rightarrow> u32 \<times> u16 \<Rightarrow> int \<Rightarrow> pic_handler \<Rightarrow> login_state \<Rightarrow> lerror + channel_result \<times> pic_handler \<times> login_state" where
  "register_pic_handler_handle fd addr status h st = enter_channel fd addr status h st"

text \<open>\<open>strncpy\<close> stops at a zero byte and fills up with zeros.\<close>

definition strncpy :: "bytes \<Rightarrow> bytes" where
  "strncpy bs = (let s = takeWhile (\<lambda>b. b \<noteq> 0) bs in s @ replicate (length bs - length s) 0)"

definition verify_pic_handler_create :: "bool \<Rightarrow> u32 \<Rightarrow> bytes \<Rightarrow> lerror + pic_handler option" where
  "verify_pic_handler_create mem cid pic =
     (if \<not> mem then Inr None
      else if length pic > 16 then Inl Overrun
      else Inr (Some \<lparr>ph_characterId = cid, ph_pic = strncpy pic, ph_state = 0\<rparr>))"

definition verify_pic_handler_handle ::
  "int \<Rightarrow> u32 \<times> u16 \<Rightarrow> int \<Rightarrow> pic_handler \<Rightarrow> login_state \<Rightarrow> lerror + channel_result \<times> pic_handler \<times> login_state" where
  "verify_pic_handler_handle fd addr status h st =
     (let acc = lc_account (ls_client st)
      in if unat (acc_picLength acc) \<noteq> length (ph_pic h) then Inr ((0, 0, None), h, st)
         else if take (length (ph_pic h)) (acc_pic acc) \<noteq> ph_pic h then Inr ((0, 0, None), h, st)
         else enter_channel fd addr status h st)"

subsection \<open>Authentication\<close>

text \<open>
  A login as it runs: the handler is created, \<open>handle\<close> is called and returns what it waits for, and
  meanwhile other clients may log in and out as long as they leave the node of this client alone. What
  the database will deliver is never known in advance.
\<close>

inductive login_run ::
  "(bytes \<Rightarrow> u64 \<Rightarrow> bytes) \<Rightarrow> bool \<Rightarrow> (accounts \<Rightarrow> nat option) \<Rightarrow> bytes \<Rightarrow> bytes \<Rightarrow> login_handler \<Rightarrow> login_state \<Rightarrow> bool"
  for argon mem alloc name pass where
  create: "login_handler_create True name pass hwid = Inr (Some h) \<Longrightarrow> login_run argon mem alloc name pass h st"
| wait: "login_run argon mem alloc name pass h st \<Longrightarrow>
    login_handler_handle argon mem alloc h st = Inr ((status, m), h', st') \<Longrightarrow> 0 < status \<Longrightarrow> login_run argon mem alloc name pass h' st'"
| others: "login_run argon mem alloc name pass h st \<Longrightarrow>
    (\<And>a. lc_node (ls_client st) = Some a \<Longrightarrow> ac_heap acs a = ac_heap (ls_accounts st) a) \<Longrightarrow>
    login_run argon mem alloc name pass h (st\<lparr>ls_accounts := acs, ls_replies := rs, ls_random := rnd\<rparr>)"

text \<open>The database has delivered credentials for the name that match the password, and the client holds
  the node of that account.\<close>

definition authentic :: "(bytes \<Rightarrow> u64 \<Rightarrow> bytes) \<Rightarrow> bytes \<Rightarrow> bytes \<Rightarrow> u32 \<Rightarrow> login_state \<Rightarrow> bool" where
  "authentic argon name pass aid st \<longleftrightarrow>
     (\<exists>salt. (GET_ACCOUNT_CREDENTIALS name, 0, Account_credentials True aid (argon pass salt) salt) \<in> set (ls_log st)) \<and>
     (\<exists>a n. lc_node (ls_client st) = Some a \<and> ac_heap (ls_accounts st) a = Some n \<and> an_id n = aid)"

definition login_inv :: "(bytes \<Rightarrow> u64 \<Rightarrow> bytes) \<Rightarrow> bytes \<Rightarrow> bytes \<Rightarrow> login_handler \<Rightarrow> login_state \<Rightarrow> bool" where
  "login_inv argon name pass h st \<longleftrightarrow>
     lh_name h = name \<and> lh_pass h = pass \<and> tk_state (lh_task h) < 7 \<and>
     (tk_state (lh_task h) = 3 \<longrightarrow> tk_request (lh_task h) \<in> {None, Some (GET_ACCOUNT_CREDENTIALS name)}) \<and>
     (tk_state (lh_task h) = 4 \<longrightarrow> (GET_ACCOUNT_CREDENTIALS name, 0, tk_result (lh_task h)) \<in> set (ls_log st)) \<and>
     (tk_state (lh_task h) \<in> {5, 6} \<longrightarrow> (\<exists>aid. authentic argon name pass aid st))"

lemma continue_request_cases:
  assumes "continue_request tk st = Inr (status, tk', st')"
  obtains req res rs where "tk_request tk = Some req" "ls_replies st = (status, res) # rs"
    "tk' = (if status = 0 then advance_task (tk\<lparr>tk_result := res\<rparr>) else tk\<lparr>tk_result := res\<rparr>)"
    "st' = st\<lparr>ls_replies := rs, ls_log := ls_log st @ [(req, status, res)]\<rparr>"
  using assms by (auto simp: continue_request_def database_request_execute_def split: option.splits list.splits)

lemma awaited_cases:
  assumes "awaited h r = Inr (x, h', st')"
  obtains status tk where "r = Inr (status, tk, st')" "x = (if status \<noteq> 0 then Some (status, None) else None)" "h' = h\<lparr>lh_task := tk\<rparr>"
  using assms by (auto simp: awaited_def split: sum.splits if_splits)

lemma authentic_mono:
  "authentic argon name pass aid st \<Longrightarrow> authentic argon name pass aid (st\<lparr>ls_replies := rs, ls_log := ls_log st @ es\<rparr>)"
  by (auto simp: authentic_def)

lemma account_login_node:
  assumes "account_login new aid st = Some (Inr (st', Some a))"
  shows "\<exists>n. ac_heap st' a = Some n \<and> an_id n = aid"
  using assms by (auto simp: account_login_def Let_def change_def split: option.splits sum.splits if_splits)

lemma enter_account_authentic:
  assumes "enter_account alloc aid st = Inr st'" "lc_node (ls_client st') = Some a"
  shows "\<exists>n. ac_heap (ls_accounts st') a = Some n \<and> an_id n = aid"
  using assms account_login_node by (fastforce simp: enter_account_def on_client_def split: option.splits sum.splits)

text \<open>Every block keeps the invariant, unless it returns a final answer, which is a success only if the
  client is authentic.\<close>

definition good_answer :: "(bytes \<Rightarrow> u64 \<Rightarrow> bytes) \<Rightarrow> bytes \<Rightarrow> bytes \<Rightarrow> handled option \<Rightarrow> login_handler \<Rightarrow> login_state \<Rightarrow> bool" where
  "good_answer argon name pass x h st \<longleftrightarrow>
     (case x of
        None \<Rightarrow> login_inv argon name pass h st
      | Some (status, m) \<Rightarrow>
          (0 < status \<longrightarrow> login_inv argon name pass h st) \<and>
          (\<forall>aid g n p. m = Some (Login_success aid g n p) \<longrightarrow> authentic argon name pass aid st))"

lemma continue_good:
  assumes i: "login_inv argon name pass h st" and n: "tk_state (lh_task h) \<in> {1, 3, 5}"
    and a: "awaited h (continue_request (lh_task h) st) = Inr (x, h', st')"
  shows "good_answer argon name pass x h' st'"
proof -
  obtain status tk where r: "continue_request (lh_task h) st = Inr (status, tk, st')"
    and x: "x = (if status \<noteq> 0 then Some (status, None) else None)" "h' = h\<lparr>lh_task := tk\<rparr>" using awaited_cases [OF a] by metis
  obtain req res rs where req: "tk_request (lh_task h) = Some req"
    and tk: "tk = (if status = 0 then advance_task ((lh_task h)\<lparr>tk_result := res\<rparr>) else (lh_task h)\<lparr>tk_result := res\<rparr>)"
    and st': "st' = st\<lparr>ls_replies := rs, ls_log := ls_log st @ [(req, status, res)]\<rparr>" using continue_request_cases [OF r] by metis
  let ?n = "tk_state (lh_task h)"
  have fields: "tk_state tk = ?n + (if status = 0 then 1 else 0)" "tk_request tk = Some req" "tk_result tk = res"
    using req by (simp_all add: tk advance_task_def)
  note I = i [unfolded login_inv_def]
  have a5: "\<exists>aid. authentic argon name pass aid st'" if "?n = 5" using that I authentic_mono st' by fastforce
  have a3: "req = GET_ACCOUNT_CREDENTIALS name" if "?n = 3" using that I req by simp
  have "login_inv argon name pass h' st'"
    unfolding login_inv_def x(2) using n I a5 a3 fields st' by (cases "status = 0") auto
  then show ?thesis using x(1) by (auto simp: good_answer_def)
qed

lemma start_good:
  assumes i: "login_inv argon name pass (h\<lparr>lh_task := started mem req (lh_task h)\<rparr>) st" and n: "tk_state (lh_task h) \<in> {0, 2, 4}"
    and a: "awaited h (start_request mem req (lh_task h) st) = Inr (x, h', st')"
  shows "good_answer argon name pass x h' st'"
proof (rule continue_good [OF i])
  show "tk_state (lh_task (h\<lparr>lh_task := started mem req (lh_task h)\<rparr>)) \<in> {1, 3, 5}"
    using n by (auto simp: started_def advance_task_def)
  obtain status tk where "continue_request (started mem req (lh_task h)) st = Inr (status, tk, st')"
    "x = (if status \<noteq> 0 then Some (status, None) else None)" "h' = h\<lparr>lh_task := tk\<rparr>"
    using awaited_cases [OF a] unfolding start_request_def by metis
  then show "awaited (h\<lparr>lh_task := started mem req (lh_task h)\<rparr>)
      (continue_request (lh_task (h\<lparr>lh_task := started mem req (lh_task h)\<rparr>)) st) = Inr (x, h', st')"
    by (simp add: awaited_def)
qed

lemma login_created_good:
  assumes i: "login_inv argon name pass h st" and n: "tk_state (lh_task h) = 2" and a: "login_created mem alloc h st = Inr (x, h', st')"
  shows "good_answer argon name pass x h' st'"
proof -
  obtain created aid where c: "tk_result (lh_task h) = Account_created created aid"
    using a by (auto simp: login_created_def split: db_result.splits)
  show ?thesis
  proof (cases created)
    case True
    then show ?thesis using a c by (auto simp: login_created_def good_answer_def split: sum.splits)
  next
    case False
    let ?h = "h\<lparr>lh_task := started mem (GET_ACCOUNT_CREDENTIALS (lh_name h)) (lh_task h)\<rparr>"
    have "login_inv argon name pass ?h st" using i n by (simp add: login_inv_def started_def advance_task_def)
    then show ?thesis using n a c False by (intro start_good) (auto simp: login_created_def)
  qed
qed

lemma login_authenticate_good:
  assumes i: "login_inv argon name pass h st" and n: "tk_state (lh_task h) = 4" and a: "login_authenticate argon mem alloc h st = Inr (x, h', st')"
  shows "good_answer argon name pass x h' st'"
proof -
  obtain found aid hash salt where c: "tk_result (lh_task h) = Account_credentials found aid hash salt"
    using a by (auto simp: login_authenticate_def split: db_result.splits)
  have log: "(GET_ACCOUNT_CREDENTIALS name, 0, Account_credentials found aid hash salt) \<in> set (ls_log st)"
    and h: "lh_name h = name" "lh_pass h = pass" using i n c by (auto simp: login_inv_def)
  consider (none) "\<not> found" | (wrong) "found" "argon pass salt \<noteq> hash" | (right) found "argon pass salt = hash" by blast
  then show ?thesis
  proof cases
    case none
    then show ?thesis using a c i by (auto simp: login_authenticate_def good_answer_def login_inv_def)
  next
    case wrong
    then show ?thesis using a c h by (auto simp: login_authenticate_def good_answer_def)
  next
    case right
    then obtain st1 where st1: "enter_account alloc aid st = Inr st1" using a c h by (auto simp: login_authenticate_def split: sum.splits)
    show ?thesis
    proof (cases "lc_node (ls_client st1)")
      case None
      then show ?thesis using a c h right st1 by (auto simp: login_authenticate_def good_answer_def)
    next
      case (Some b)
      let ?st = "on_account (set_name name) st1"
      let ?h = "h\<lparr>lh_task := started mem (GET_ACCOUNT aid) (lh_task h)\<rparr>"
      have "authentic argon name pass aid ?st"
        using log right enter_account_authentic [OF st1 Some] enter_account_keeps(2) [OF st1] Some
        by (auto simp: authentic_def on_account_def on_client_def)
      then have "login_inv argon name pass ?h ?st" using h n by (auto simp: login_inv_def started_def advance_task_def)
      then show ?thesis using n a c h right st1 Some by (intro start_good) (auto simp: login_authenticate_def)
    qed
  qed
qed

lemma login_load_good:
  assumes i: "login_inv argon name pass h st" and n: "tk_state (lh_task h) = 6" and a: "login_load h st = Inr (x, h', st')"
  shows "good_answer argon name pass x h' st'"
proof -
  obtain aid where au: "authentic argon name pass aid st" using i n by (auto simp: login_inv_def)
  obtain pic tos gn g where c: "tk_result (lh_task h) = Account_row pic tos gn g" "length pic \<le> 16"
    using a by (auto simp: login_load_def split: db_result.splits if_splits)
  let ?st = "on_account (load_account pic tos gn g) st"
  have "authentic argon name pass aid ?st" using au by (simp add: authentic_def on_account_def on_client_def)
  moreover have "client_id ?st = Inr aid" using au by (auto simp: authentic_def client_id_def account_get_id_def on_account_def on_client_def)
  ultimately show ?thesis using a c by (auto simp: login_load_def good_answer_def success_message_def Let_def)
qed

lemma login_block_good:
  assumes i: "login_inv argon name pass h st" and a: "login_block argon mem alloc h st = Inr (x, h', st')"
  shows "good_answer argon name pass x h' st'"
proof -
  consider "tk_state (lh_task h) = 0" | "tk_state (lh_task h) \<in> {1, 3, 5}" | "tk_state (lh_task h) = 2" | "tk_state (lh_task h) = 4" | "tk_state (lh_task h) = 6"
    using i by (force simp: login_inv_def)
  then show ?thesis
  proof cases
    case 1
    obtain salt st1 where s: "next_salt st = (salt, st1)" by fastforce
    let ?h = "h\<lparr>lh_task := started mem (TRY_CREATE_ACCOUNT (lh_name h) (argon (lh_pass h) salt) salt) (lh_task h)\<rparr>"
    have "login_inv argon name pass ?h st1" using i 1 by (simp add: login_inv_def started_def advance_task_def)
    then show ?thesis using a 1 s by (intro start_good) (auto simp: login_block_def)
  qed (use i a continue_good login_created_good login_authenticate_good login_load_good in \<open>auto simp: login_block_def\<close>)
qed

lemma login_handle_good:
  assumes "login_inv argon name pass h st" "login_handler_handle argon mem alloc h st = Inr (r, h', st')"
  shows "good_answer argon name pass (Some r) h' st'"
  using assms
proof (induction argon mem alloc h st rule: login_handler_handle.induct)
  case (1 argon mem alloc h st)
  obtain x h1 st1 where b: "login_block argon mem alloc h st = Inr (x, h1, st1)"
    using "1.prems"(2) by (auto simp: login_handler_handle.simps [of argon mem alloc h st] split: sum.splits)
  from login_block_good [OF "1.prems"(1) b] have g: "good_answer argon name pass x h1 st1" .
  show ?case
  proof (cases x)
    case None
    then have "login_inv argon name pass h1 st1" using g by (simp add: good_answer_def)
    with "1.IH" [OF b] None "1.prems"(2) b show ?thesis by (simp add: login_handler_handle.simps [of argon mem alloc h st])
  next
    case (Some r1)
    then show ?thesis using g b "1.prems"(2) by (simp add: login_handler_handle.simps [of argon mem alloc h st])
  qed
qed

lemma login_run_inv: "login_run argon mem alloc name pass h st \<Longrightarrow> login_inv argon name pass h st"
proof (induction rule: login_run.induct)
  case (create hwid h st)
  then show ?case by (auto simp: login_handler_create_def login_inv_def new_task_def split: if_splits)
next
  case (wait h st status m h' st')
  then show ?case using login_handle_good [OF wait.IH wait.hyps(2)] by (simp add: good_answer_def)
next
  case (others h st acs rnd rs)
  have "authentic argon name pass aid (st\<lparr>ls_accounts := acs, ls_replies := rs, ls_random := rnd\<rparr>)" if "authentic argon name pass aid st" for aid
    using that others.hyps(2) by (auto simp: authentic_def)
  then show ?case using others.IH by (auto simp: login_inv_def)
qed


subsection \<open>Errors\<close>

text \<open>Requests are there while they are waited for, and the list of accounts is in order.\<close>

definition login_ready :: "login_handler \<Rightarrow> login_state \<Rightarrow> bool" where
  "login_ready h st \<longleftrightarrow>
     (odd (tk_state (lh_task h)) \<longrightarrow> tk_request (lh_task h) \<noteq> None) \<and> (\<exists>xs. listed (ls_accounts st) xs)"

definition database_fault :: "lerror \<Rightarrow> bool" where
  "database_fault err \<longleftrightarrow> err \<in> {Out_of_replies, Wrong_result, Overrun}"

definition safe_block :: "lerror + handled option \<times> login_handler \<times> login_state \<Rightarrow> bool" where
  "safe_block r \<longleftrightarrow>
     (case r of
        Inl err \<Rightarrow> database_fault err
      | Inr (x, h, st) \<Rightarrow> (case x of None \<Rightarrow> True | Some (status, _) \<Rightarrow> 0 < status) \<longrightarrow> login_ready h st)"

lemma awaited_continue_safe:
  assumes "tk_request tk \<noteq> None" "\<exists>xs. listed (ls_accounts st) xs"
  shows "safe_block (awaited h (continue_request tk st))"
  using assms
  by (auto simp: awaited_def continue_request_def database_request_execute_def database_fault_def login_ready_def advance_task_def safe_block_def
      split: list.split)

lemma awaited_start_safe: "\<exists>xs. listed (ls_accounts st) xs \<Longrightarrow> safe_block (awaited h (start_request True req tk st))"
  unfolding start_request_def by (rule awaited_continue_safe) (simp_all add: started_def advance_task_def)

lemma enter_account_safe:
  assumes "\<exists>xs. listed (ls_accounts st) xs" and "\<And>a. alloc (ls_accounts st) = Some a \<Longrightarrow> a \<notin> dom (ac_heap (ls_accounts st))"
  shows "\<exists>st'. enter_account alloc aid st = Inr st' \<and> (\<exists>xs. listed (ls_accounts st') xs)"
proof (cases "alloc (ls_accounts st)")
  case None
  then show ?thesis using assms(1) by (simp add: enter_account_def account_login_def on_client_def)
next
  case (Some a)
  with assms obtain xs where "listed (ls_accounts st) xs" "a \<notin> dom (ac_heap (ls_accounts st))" by blast
  from login_outcome [OF this, of aid] assms(1) Some show ?thesis
    by (cases "aid \<in> fst ` ran (logged (ls_accounts st))") (auto simp: enter_account_def on_client_def)
qed

lemma login_block_safe:
  assumes i: "login_inv argon name pass h st" and rd: "login_ready h st"
    and fresh: "\<And>acs a. alloc acs = Some a \<Longrightarrow> a \<notin> dom (ac_heap acs)"
  shows "safe_block (login_block argon True alloc h st)"
proof -
  have l: "\<exists>xs. listed (ls_accounts st) xs" using rd by (simp add: login_ready_def)
  have enter: "\<exists>st'. enter_account alloc aid st = Inr st' \<and> (\<exists>xs. listed (ls_accounts st') xs)" for aid
    by (rule enter_account_safe [OF l fresh])
  let ?n = "tk_state (lh_task h)"
  consider "?n = 0" | "?n \<in> {1, 3, 5}" | "?n = 2" | "?n = 4" | "?n = 6" using i by (force simp: login_inv_def)
  then show ?thesis
  proof cases
    case 1
    then show ?thesis using awaited_start_safe l by (simp add: login_block_def next_salt_def)
  next
    case 2
    then have "tk_request (lh_task h) \<noteq> None" using rd by (auto simp: login_ready_def)
    then have "safe_block (awaited h (continue_request (lh_task h) st))" by (rule awaited_continue_safe [OF _ l])
    then show ?thesis using 2 by (auto simp: login_block_def)
  next
    case 3
    show ?thesis
    proof (cases "tk_result (lh_task h)")
      case (Account_created created aid)
      then show ?thesis using 3 enter [of aid] awaited_start_safe [OF l] by (auto simp: login_block_def login_created_def safe_block_def [of "Inr _"])
    qed (use 3 in \<open>simp_all add: login_block_def login_created_def database_fault_def safe_block_def\<close>)
  next
    case 4
    show ?thesis
    proof (cases "tk_result (lh_task h)")
      case (Account_credentials found aid hash salt)
      from enter [of aid] obtain st1 where st1: "enter_account alloc aid st = Inr st1" "\<exists>xs. listed (ls_accounts st1) xs" by blast
      then have "\<exists>xs. listed (ls_accounts (on_account (set_name (lh_name h)) st1)) xs" by (simp add: on_account_def on_client_def)
      from awaited_start_safe [OF this] st1 l 4 Account_credentials show ?thesis
        by (auto simp: login_block_def login_authenticate_def login_ready_def safe_block_def [of "Inr _"])
    qed (use 4 in \<open>simp_all add: login_block_def login_authenticate_def database_fault_def safe_block_def\<close>)
  next
    case 5
    then obtain aid where "authentic argon name pass aid st" using i by (auto simp: login_inv_def)
    then have "client_id (on_account f st) = Inr aid" for f by (auto simp: authentic_def client_id_def account_get_id_def on_account_def on_client_def)
    then show ?thesis using 5
      by (cases "tk_result (lh_task h)") (simp_all add: login_block_def login_load_def database_fault_def safe_block_def success_message_def Let_def)
  qed
qed

lemma login_handle_safe:
  assumes "login_inv argon name pass h st" "login_ready h st" "mem" and "\<And>acs a. alloc acs = Some a \<Longrightarrow> a \<notin> dom (ac_heap acs)"
  shows "case login_handler_handle argon mem alloc h st of
      Inl err \<Rightarrow> database_fault err
    | Inr ((status, m), h', st') \<Rightarrow> 0 < status \<longrightarrow> login_ready h' st'"
  using assms
proof (induction argon mem alloc h st rule: login_handler_handle.induct)
  case (1 argon mem alloc h st)
  have s: "safe_block (login_block argon mem alloc h st)" using login_block_safe [OF "1.prems"(1,2,4)] "1.prems"(3) by simp
  show ?case
  proof (cases "login_block argon mem alloc h st")
    case (Inl err)
    then show ?thesis using s by (simp add: safe_block_def login_handler_handle.simps [of argon mem alloc h st])
  next
    case (Inr y)
    obtain x h1 st1 where b: "login_block argon mem alloc h st = Inr (x, h1, st1)" using Inr by (cases y) auto
    show ?thesis
    proof (cases x)
      case None
      have "login_inv argon name pass h1 st1" "login_ready h1 st1"
        using None login_block_good [OF "1.prems"(1) b] s b by (simp_all add: good_answer_def safe_block_def)
      from "1.IH" [OF b refl None refl this "1.prems"(3,4)] None b show ?thesis
        by (simp add: login_handler_handle.simps [of argon mem alloc h st])
    next
      case (Some r)
      then show ?thesis using s b by (auto simp: safe_block_def login_handler_handle.simps [of argon mem alloc h st] split: prod.splits)
    qed
  qed
qed

text \<open>A handler that waits has a request.\<close>

lemma awaited_waits:
  assumes "awaited h r = Inr (Some (status, m), h', st')" "r = continue_request tk st"
  shows "tk_request (lh_task h') \<noteq> None"
  using assms by (auto simp: advance_task_def elim!: awaited_cases continue_request_cases split: if_splits)

lemma login_block_waits:
  assumes "login_block argon mem alloc h st = Inr (Some (status, m), h', st')" "0 < status"
  shows "tk_request (lh_task h') \<noteq> None"
  using assms
  by (auto simp: login_block_def next_salt_def start_request_def login_created_def login_authenticate_def login_load_def success_message_def Let_def map_sum_def
      simp del: not_None_eq split: if_splits db_result.splits sum.splits dest: awaited_waits)

lemma login_handle_waits:
  assumes "login_handler_handle argon mem alloc h st = Inr ((status, m), h', st')" "0 < status"
  shows "tk_request (lh_task h') \<noteq> None"
  using assms
proof (induction argon mem alloc h st rule: login_handler_handle.induct)
  case (1 argon mem alloc h st)
  obtain x h1 st1 where b: "login_block argon mem alloc h st = Inr (x, h1, st1)"
    using "1.prems"(1) by (auto simp: login_handler_handle.simps [of argon mem alloc h st] split: sum.splits)
  show ?case
  proof (cases x)
    case None
    then show ?thesis using "1.IH" [OF b refl None refl] "1.prems" b by (simp add: login_handler_handle.simps [of argon mem alloc h st])
  next
    case (Some r)
    then show ?thesis using login_block_waits "1.prems" b by (simp add: login_handler_handle.simps [of argon mem alloc h st])
  qed
qed

lemma login_run_waits: "login_run argon mem alloc name pass h st \<Longrightarrow> odd (tk_state (lh_task h)) \<Longrightarrow> tk_request (lh_task h) \<noteq> None"
proof (induction rule: login_run.induct)
  case (create hwid h st)
  then show ?case by (auto simp: login_handler_create_def new_task_def split: if_splits)
qed (use login_handle_waits in auto)


text \<open>A client that sends the name \<open>A\<close> and the password \<open>B\<close> of account 7. (The hash is the password.)\<close>

definition fresh_client :: login_client where
  "fresh_client = \<lparr>lc_node = None, lc_account = account_get_default_account 0 [], lc_world = 0, lc_channel = 0, lc_loggedIn = False\<rparr>"

definition sample_state :: "(int \<times> db_result) list \<Rightarrow> login_state" where
  "sample_state rs = \<lparr>ls_accounts = \<lparr>ac_heap = Map.empty, ac_HEAD = None\<rparr>, ls_client = fresh_client, ls_replies = rs, ls_log = [], ls_random = (\<lambda>_. 0)\<rparr>"

definition sample_handler :: login_handler where
  "sample_handler = \<lparr>lh_task = new_task, lh_name = [65], lh_pass = [66], lh_hwid = replicate 10 0\<rparr>"

definition sample_alloc :: "accounts \<Rightarrow> nat option" where
  "sample_alloc acs = (if ac_HEAD acs = None \<and> ac_heap acs 5 = None then Some 5 else None)"

definition sample_replies :: "(int \<times> db_result) list" where
  "sample_replies = [(0, Account_created False 0), (0, Account_credentials True 7 [66] 5), (0, Account_row [] 1 False 0)]"

lemma sample_run: "login_run (\<lambda>pass salt. pass) True sample_alloc [65] [66] sample_handler (sample_state rs)"
  by (rule login_run.create [of _ _ "replicate 10 0"]) (simp add: login_handler_create_def sample_handler_def)

lemma sample_login:
  "account_login (Some 5) 7 \<lparr>ac_heap = Map.empty, ac_HEAD = None\<rparr> =
     Some (Inr (\<lparr>ac_heap = [5 \<mapsto> \<lparr>an_prev = None, an_next = None, an_id = 7, an_cid = 0\<rparr>], ac_HEAD = Some 5\<rparr>, Some 5))"
  by (simp add: account_login_def find_account.simps [of _ _ None])

lemmas login_eval = login_handler_handle.simps login_block_def next_salt_def start_request_def started_def continue_request_def
  database_request_execute_def awaited_def advance_task_def login_created_def login_authenticate_def enter_account_def login_load_def
  load_account_def on_account_def on_client_def success_message_def client_id_def account_get_id_def gender_to_u8_def pic_status_def set_name_def



end
