(* ===== verification/Database_Lock.thy ===== *)
theory Database_Lock
  imports Prelude
begin

text \<open>
  The lock of a connection to the database (\<^verbatim>\<open>src/src/database.c\<close>): the clients of a worker share one
  connection, and whoever wants it while it is in use waits in a queue for a descriptor to become
  readable. The queue is a linked list on the heap, modelled as a map from addresses to nodes; \<open>malloc\<close>
  and \<open>eventfd\<close> deliver what they are given as arguments. The conversions of event masks between MariaDB,
  \<open>poll\<close> and libevent are here as well (the latter from \<^verbatim>\<open>src/src/login/server.c\<close>).
\<close>

subsection \<open>The queue\<close>

record lock_queue_node =
  qn_next :: "nat option"
  qn_value :: int

record lock_queue =
  lq_heap :: "nat \<rightharpoonup> lock_queue_node"
  lq_head :: "nat option"
  lq_last :: "nat option"

datatype lock_error = Null_queue_node

text \<open>\<open>last\<close> is not initialised, and not read while the queue is empty.\<close>

definition lock_queue_init :: "lock_queue \<Rightarrow> lock_queue" where
  "lock_queue_init q = q\<lparr>lq_head := None\<rparr>"

definition queue_node :: "lock_queue \<Rightarrow> nat option \<Rightarrow> lock_error + nat \<times> lock_queue_node" where
  "queue_node q p = (case p of None \<Rightarrow> Inl Null_queue_node | Some a \<Rightarrow> (case lq_heap q a of None \<Rightarrow> Inl Null_queue_node | Some n \<Rightarrow> Inr (a, n)))"

definition lock_queue_enqueue :: "nat option \<Rightarrow> int \<Rightarrow> lock_queue \<Rightarrow> lock_error + lock_queue \<times> int" where
  "lock_queue_enqueue new v q =
     (case new of
        None \<Rightarrow> Inr (q, - 1)
      | Some a \<Rightarrow>
          let q = q\<lparr>lq_heap := (lq_heap q)(a \<mapsto> \<lparr>qn_next = None, qn_value = v\<rparr>)\<rparr>
          in if lq_head q = None then Inr (q\<lparr>lq_head := Some a, lq_last := Some a\<rparr>, 0)
             else map_sum id (\<lambda>(b, n). (q\<lparr>lq_heap := (lq_heap q)(b \<mapsto> n\<lparr>qn_next := Some a\<rparr>), lq_last := Some a\<rparr>, 0))
                    (queue_node q (lq_last q)))"

definition lock_queue_dequeue :: "lock_queue \<Rightarrow> lock_error + lock_queue \<times> int" where
  "lock_queue_dequeue q =
     (case queue_node q (lq_head q) of
        Inl err \<Rightarrow> Inl err
      | Inr (a, n) \<Rightarrow>
          let q = q\<lparr>lq_heap := (lq_heap q)(a := None), lq_head := qn_next n\<rparr>
          in if lq_head q = None then Inr (q, - 1) else map_sum id (\<lambda>(_, m). (q, qn_value m)) (queue_node q (lq_head q)))"

definition lock_queue_empty :: "lock_queue \<Rightarrow> bool" where
  "lock_queue_empty q = (lq_head q = None)"

subsection \<open>The lock\<close>

text \<open>\<open>-2\<close>: the caller has the connection; \<open>-1\<close>: failure; otherwise the descriptor to wait for.\<close>

definition database_connection_lock :: "nat option \<Rightarrow> int \<Rightarrow> lock_queue \<Rightarrow> lock_error + lock_queue \<times> int" where
  "database_connection_lock new fd q =
     (if lock_queue_empty q
      then map_sum id (\<lambda>(q, r). if r = - 1 then (q, - 1) else (q, - 2)) (lock_queue_enqueue new (- 1) q)
      else if fd = - 1 then Inr (q, - 1)
      else map_sum id (\<lambda>(q, r). if r = - 1 then (q, - 1) else (q, fd)) (lock_queue_enqueue new fd q))"

text \<open>The result is the descriptor to which 1 is written; writing to \<open>-1\<close> has no effect.\<close>

definition database_connection_unlock :: "lock_queue \<Rightarrow> lock_error + lock_queue \<times> int" where
  "database_connection_unlock q = lock_queue_dequeue q"

subsection \<open>Masks of events\<close>

definition POLLIN :: int where "POLLIN = 1"
definition POLLPRI :: int where "POLLPRI = 2"
definition POLLOUT :: int where "POLLOUT = 4"
definition EV_READ :: int where "EV_READ = 2"
definition EV_WRITE :: int where "EV_WRITE = 4"
definition MYSQL_WAIT_READ :: int where "MYSQL_WAIT_READ = 1"
definition MYSQL_WAIT_WRITE :: int where "MYSQL_WAIT_WRITE = 2"
definition MYSQL_WAIT_EXCEPT :: int where "MYSQL_WAIT_EXCEPT = 4"

text \<open>\<open>if (events & a) ret |= b\<close>\<close>

definition add_flag :: "int \<Rightarrow> int \<Rightarrow> int \<Rightarrow> int \<Rightarrow> int" where
  "add_flag events a b ret = (if and events a \<noteq> 0 then or ret b else ret)"

definition mariadb_to_poll :: "int \<Rightarrow> int" where
  "mariadb_to_poll status =
     add_flag status MYSQL_WAIT_EXCEPT POLLPRI (add_flag status MYSQL_WAIT_WRITE POLLOUT (add_flag status MYSQL_WAIT_READ POLLIN 0))"

definition poll_to_mariadb :: "int \<Rightarrow> int" where
  "poll_to_mariadb status =
     add_flag status POLLOUT MYSQL_WAIT_WRITE (add_flag status POLLPRI MYSQL_WAIT_EXCEPT (add_flag status POLLIN MYSQL_WAIT_READ 0))"

definition poll_to_libevent :: "int \<Rightarrow> int" where
  "poll_to_libevent events = (if events < 0 then events else add_flag events POLLOUT EV_WRITE (add_flag events POLLIN EV_READ 0))"

text \<open>The first test is on \<open>ret\<close>, which is 0, instead of on \<open>events\<close>.\<close>

definition libevent_to_poll :: "int \<Rightarrow> int" where
  "libevent_to_poll events = (let ret = 0 in let ret = add_flag ret EV_READ POLLIN ret in add_flag events EV_WRITE POLLOUT ret)"

lemmas flag_defs = POLLIN_def POLLPRI_def POLLOUT_def EV_READ_def EV_WRITE_def MYSQL_WAIT_READ_def MYSQL_WAIT_WRITE_def
  MYSQL_WAIT_EXCEPT_def add_flag_def

text \<open>Nothing is lost between MariaDB and \<open>poll\<close>.\<close>

lemma mariadb_poll_roundtrip:
  assumes "status \<in> {0..7}"
  shows "poll_to_mariadb (mariadb_to_poll status) = status"
proof -
  have "status \<in> {0, 1, 2, 3, 4, 5, 6, 7}" using assms by auto
  then show ?thesis by (elim insertE) (simp_all add: poll_to_mariadb_def mariadb_to_poll_def flag_defs)
qed

text \<open>Readiness to read is lost between libevent and \<open>poll\<close>.\<close>

lemma libevent_poll_loses_read: "libevent_to_poll (poll_to_libevent POLLIN) = 0"
  by (simp add: libevent_to_poll_def poll_to_libevent_def flag_defs)

subsection \<open>Queues in the store\<close>

fun linked :: "(nat \<rightharpoonup> lock_queue_node) \<Rightarrow> nat option \<Rightarrow> nat list \<Rightarrow> int list \<Rightarrow> bool" where
  "linked h p [] [] \<longleftrightarrow> p = None"
| "linked h p (a # as) (v # vs) \<longleftrightarrow> p = Some a \<and> (\<exists>n. h a = Some n \<and> qn_value n = v \<and> linked h (qn_next n) as vs)"
| "linked h p _ _ \<longleftrightarrow> False"

definition waiting :: "lock_queue \<Rightarrow> nat list \<Rightarrow> int list \<Rightarrow> bool" where
  "waiting q as vs \<longleftrightarrow> linked (lq_heap q) (lq_head q) as vs \<and> distinct as \<and> (as \<noteq> [] \<longrightarrow> lq_last q = Some (last as))"

text \<open>The queue holds these values, the first one in front.\<close>

definition holds_queue :: "lock_queue \<Rightarrow> int list \<Rightarrow> bool" where
  "holds_queue q vs \<longleftrightarrow> (\<exists>as. waiting q as vs)"

lemma linked_length: "linked h p as vs \<Longrightarrow> length as = length vs"
  by (induction h p as vs rule: linked.induct) auto

lemma linked_dom: "linked h p as vs \<Longrightarrow> set as \<subseteq> dom h"
  by (induction h p as vs rule: linked.induct) auto

lemma linked_frame: "a \<notin> set as \<Longrightarrow> linked (h(a := x)) p as vs = linked h p as vs"
  by (induction h p as vs rule: linked.induct) auto

lemma linked_head: "linked h p as vs \<Longrightarrow> p = None \<longleftrightarrow> vs = []"
  by (induction h p as vs rule: linked.induct) auto

lemma linked_snoc:
  assumes "linked h p as vs" "as \<noteq> []" "distinct as" "h (last as) = Some n" "a \<notin> set as" "h a = Some \<lparr>qn_next = None, qn_value = v\<rparr>"
  shows "linked (h(last as \<mapsto> n\<lparr>qn_next := Some a\<rparr>)) p (as @ [a]) (vs @ [v])"
  using assms
proof (induction h p as vs rule: linked.induct)
  case (2 h p b as w vs)
  show ?case
  proof (cases "as = []")
    case True
    then have "vs = []" using "2.prems" linked_length by fastforce
    then show ?thesis using 2 True by auto
  next
    case False
    then have "b \<noteq> last as" using "2.prems"(3) last_in_set by fastforce
    then show ?thesis using 2 False by auto
  qed
qed auto

lemma enqueue_waiting:
  assumes "waiting q as vs" "a \<notin> dom (lq_heap q)"
  shows "\<exists>q'. lock_queue_enqueue (Some a) v q = Inr (q', 0) \<and> waiting q' (as @ [a]) (vs @ [v])"
proof (cases "as = []")
  case True
  then show ?thesis using assms by (cases vs) (auto simp: waiting_def lock_queue_enqueue_def)
next
  case False
  have l: "linked (lq_heap q) (lq_head q) as vs" "distinct as" "lq_last q = Some (last as)" using assms(1) False by (auto simp: waiting_def)
  have a: "a \<notin> set as" using linked_dom [OF l(1)] assms(2) by blast
  have "lq_head q \<noteq> None" using linked_head [OF l(1)] linked_length [OF l(1)] False by auto
  moreover obtain n where n: "lq_heap q (last as) = Some n" using linked_dom [OF l(1)] last_in_set [OF False] by blast
  moreover have "a \<noteq> last as" using a last_in_set [OF False] by auto
  moreover have "linked ((lq_heap q)(a \<mapsto> \<lparr>qn_next = None, qn_value = v\<rparr>, last as \<mapsto> n\<lparr>qn_next := Some a\<rparr>)) (lq_head q) (as @ [a]) (vs @ [v])"
    by (rule linked_snoc) (use l False n a \<open>a \<noteq> last as\<close> in \<open>simp_all add: linked_frame\<close>)
  ultimately show ?thesis using l a by (auto simp: waiting_def lock_queue_enqueue_def queue_node_def)
qed

lemma dequeue_waiting:
  assumes "waiting q as (v # vs)"
  shows "\<exists>q'. lock_queue_dequeue q = Inr (q', case vs of [] \<Rightarrow> - 1 | w # _ \<Rightarrow> w) \<and> waiting q' (tl as) vs"
proof -
  obtain a as' n where as: "as = a # as'" "lq_head q = Some a" "lq_heap q a = Some n" "linked (lq_heap q) (qn_next n) as' vs"
    using assms by (cases as) (auto simp: waiting_def)
  have a: "a \<notin> set as'" using assms as by (simp add: waiting_def)
  let ?q = "q\<lparr>lq_heap := (lq_heap q)(a := None), lq_head := qn_next n\<rparr>"
  have l: "linked (lq_heap ?q) (lq_head ?q) as' vs" using as(4) a by (simp add: linked_frame)
  have w: "waiting ?q as' vs" using l assms as(1) by (auto simp: waiting_def)
  show ?thesis
  proof (cases vs)
    case Nil
    then show ?thesis using w as linked_head [OF as(4)] by (simp add: lock_queue_dequeue_def queue_node_def)
  next
    case (Cons x xs)
    then obtain b m where "qn_next n = Some b" "lq_heap ?q b = Some m" "qn_value m = x" using l by (cases as') auto
    then show ?thesis using w as Cons by (simp add: lock_queue_dequeue_def queue_node_def)
  qed
qed

subsection \<open>Fairness\<close>

text \<open>
  What the clients of a connection do, one call after another: \<open>reqs\<close> are the results of the successful
  calls of \<open>lock\<close>, \<open>granted\<close> those of them that have got the connection (at once if the result is \<open>-2\<close>, else
  when \<open>unlock\<close> wrote to the descriptor), and \<open>n\<close> is how often it was given back. Whoever calls \<open>unlock\<close> has
  the connection.
\<close>

inductive lock_run ::
  "(nat option \<Rightarrow> int \<Rightarrow> 'q \<Rightarrow> 'e + 'q \<times> int) \<Rightarrow> ('q \<Rightarrow> 'e + 'q \<times> int) \<Rightarrow> ('q \<Rightarrow> nat \<Rightarrow> bool) \<Rightarrow> 'q \<Rightarrow> 'q \<Rightarrow> int list \<Rightarrow> int list \<Rightarrow> nat \<Rightarrow> bool"
  for lock unlock fresh q0 where
  start: "lock_run lock unlock fresh q0 q0 [] [] 0"
| failed: "lock_run lock unlock fresh q0 q reqs granted n \<Longrightarrow> new = None \<or> fresh q (the new) \<Longrightarrow> - 1 \<le> fd \<Longrightarrow>
    lock new fd q = Inr (q', - 1) \<Longrightarrow> lock_run lock unlock fresh q0 q' reqs granted n"
| at_once: "lock_run lock unlock fresh q0 q reqs granted n \<Longrightarrow> new = None \<or> fresh q (the new) \<Longrightarrow> - 1 \<le> fd \<Longrightarrow>
    lock new fd q = Inr (q', - 2) \<Longrightarrow> lock_run lock unlock fresh q0 q' (reqs @ [- 2]) (granted @ [- 2]) n"
| queued: "lock_run lock unlock fresh q0 q reqs granted n \<Longrightarrow> new = None \<or> fresh q (the new) \<Longrightarrow> - 1 \<le> fd \<Longrightarrow>
    lock new fd q = Inr (q', r) \<Longrightarrow> 0 \<le> r \<Longrightarrow> lock_run lock unlock fresh q0 q' (reqs @ [r]) granted n"
| unlock: "lock_run lock unlock fresh q0 q reqs granted n \<Longrightarrow> n < length granted \<Longrightarrow> unlock q = Inr (q', w) \<Longrightarrow>
    lock_run lock unlock fresh q0 q' reqs (if w = - 1 then granted else granted @ [w]) (n + 1)"

text \<open>A lock that keeps who waits in a queue: the first element stands for the holder.\<close>

locale queue_lock =
  fixes queue :: "'q \<Rightarrow> int list \<Rightarrow> bool"
    and fresh :: "'q \<Rightarrow> nat \<Rightarrow> bool"
    and lock :: "nat option \<Rightarrow> int \<Rightarrow> 'q \<Rightarrow> 'e + 'q \<times> int"
    and unlock :: "'q \<Rightarrow> 'e + 'q \<times> int"
  assumes lock_none: "queue q vs \<Longrightarrow> lock None fd q = Inr (q, - 1)"
    and lock_free: "queue q [] \<Longrightarrow> fresh q a \<Longrightarrow> \<exists>q'. lock (Some a) fd q = Inr (q', - 2) \<and> queue q' [- 1]"
    and lock_no_fd: "queue q (v # vs) \<Longrightarrow> lock new (- 1) q = Inr (q, - 1)"
    and lock_busy: "queue q (v # vs) \<Longrightarrow> fresh q a \<Longrightarrow> fd \<noteq> - 1 \<Longrightarrow> \<exists>q'. lock (Some a) fd q = Inr (q', fd) \<and> queue q' (v # vs @ [fd])"
    and unlock_head: "queue q (v # vs) \<Longrightarrow> \<exists>q'. unlock q = Inr (q', case vs of [] \<Rightarrow> - 1 | w # _ \<Rightarrow> w) \<and> queue q' vs"
begin

lemma lock_cases:
  assumes "queue q vs" "new = None \<or> fresh q (the new)"
  obtains "lock new fd q = Inr (q, - 1)"
  | q' where "vs = []" "lock new fd q = Inr (q', - 2)" "queue q' [- 1]"
  | v ws q' where "vs = v # ws" "fd \<noteq> - 1" "lock new fd q = Inr (q', fd)" "queue q' (v # ws @ [fd])"
proof (cases new)
  case None
  then show ?thesis using that(1) lock_none [OF assms(1)] by simp
next
  case (Some a)
  then have f: "fresh q a" using assms(2) by simp
  show ?thesis
  proof (cases vs)
    case Nil
    then show ?thesis using lock_free [of q a fd] assms(1) f Some that(2) by blast
  next
    case (Cons v ws)
    then show ?thesis using lock_no_fd [of q v ws new] lock_busy [of q v ws a fd] assms(1) f Some that(1,3) by (cases "fd = - 1") auto
  qed
qed

lemma lock_never_fails: "queue q vs \<Longrightarrow> new = None \<or> fresh q (the new) \<Longrightarrow> \<exists>q' r. lock new fd q = Inr (q', r)"
  using lock_cases by metis

text \<open>The holder is the last one that got the lock, and the others wait in the order in which they asked
  for it.\<close>

definition orderly :: "'q \<Rightarrow> int list \<Rightarrow> int list \<Rightarrow> nat \<Rightarrow> bool" where
  "orderly q reqs granted n \<longleftrightarrow>
     (\<exists>vs. queue q vs \<and> reqs = granted @ tl vs \<and> length granted = n + (if vs = [] then 0 else 1) \<and> (\<forall>w\<in>set (tl vs). 0 \<le> w))"

lemma orderlyE:
  assumes "orderly q reqs granted n"
  obtains vs where "queue q vs" "reqs = granted @ tl vs" "length granted = n + (if vs = [] then 0 else 1)" "\<forall>w\<in>set (tl vs). 0 \<le> w"
  using assms unfolding orderly_def by blast

lemma orderlyI:
  assumes "queue q vs" "reqs = granted @ tl vs" "length granted = n + (if vs = [] then 0 else 1)" "\<forall>w\<in>set (tl vs). 0 \<le> w"
  shows "orderly q reqs granted n"
  unfolding orderly_def using assms by blast

lemma failed_orderly:
  assumes "orderly q reqs granted n" "new = None \<or> fresh q (the new)" "- 1 \<le> fd" "lock new fd q = Inr (q', - 1)"
  shows "orderly q' reqs granted n"
proof -
  obtain vs where vs: "queue q vs" using assms(1) by (rule orderlyE)
  have "q' = q" using assms(3,4) by (cases rule: lock_cases [OF vs(1) assms(2), of fd]) simp_all
  then show ?thesis using assms(1) by simp
qed

lemma at_once_orderly:
  assumes "orderly q reqs granted n" "new = None \<or> fresh q (the new)" "- 1 \<le> fd" "lock new fd q = Inr (q', - 2)"
  shows "orderly q' (reqs @ [- 2]) (granted @ [- 2]) n"
proof -
  obtain vs where vs: "queue q vs" "reqs = granted @ tl vs" "length granted = n + (if vs = [] then 0 else 1)"
    using assms(1) by (rule orderlyE)
  have "vs = []" "queue q' [- 1]" using assms(3,4) by (cases rule: lock_cases [OF vs(1) assms(2), of fd]; simp)+
  then show ?thesis using vs by (intro orderlyI [of _ "[- 1]"]) simp_all
qed

lemma queued_orderly:
  assumes "orderly q reqs granted n" "new = None \<or> fresh q (the new)" "lock new fd q = Inr (q', r)" "0 \<le> r"
  shows "orderly q' (reqs @ [r]) granted n"
proof -
  obtain vs where vs: "queue q vs" "reqs = granted @ tl vs" "length granted = n + (if vs = [] then 0 else 1)" "\<forall>w\<in>set (tl vs). 0 \<le> w"
    using assms(1) by (rule orderlyE)
  have "vs \<noteq> [] \<and> queue q' (vs @ [r])" using assms(3,4) by (cases rule: lock_cases [OF vs(1) assms(2), of fd]) simp_all
  then show ?thesis using vs assms(4) by (intro orderlyI [of _ "vs @ [r]"]) (auto simp: tl_append2)
qed

lemma unlock_orderly:
  assumes "orderly q reqs granted n" "n < length granted" "unlock q = Inr (q', w)"
  shows "orderly q' reqs (if w = - 1 then granted else granted @ [w]) (n + 1)"
proof -
  obtain vs where vs: "queue q vs" "reqs = granted @ tl vs" "length granted = n + (if vs = [] then 0 else 1)" "\<forall>w\<in>set (tl vs). 0 \<le> w"
    using assms(1) by (rule orderlyE)
  obtain v ws where ws: "vs = v # ws" using vs(3) assms(2) by (cases vs) simp_all
  have "queue q' ws" "w = (case ws of [] \<Rightarrow> - 1 | w # _ \<Rightarrow> w)" using unlock_head [of q v ws] vs(1) ws assms(3) by simp_all
  then show ?thesis using vs ws by (intro orderlyI [of _ ws]) (auto split: list.splits)
qed

lemma run_orderly:
  assumes "lock_run lock unlock fresh q0 q reqs granted n" "queue q0 []"
  shows "orderly q reqs granted n"
  using assms(1)
proof (induction rule: lock_run.induct)
  case start
  then show ?case using assms(2) by (intro orderlyI [of _ "[]"]) simp_all
next
  case (failed q reqs granted n new fd q')
  show ?case by (rule failed_orderly [OF failed.IH failed.hyps(2-4)])
next
  case (at_once q reqs granted n new fd q')
  show ?case by (rule at_once_orderly [OF at_once.IH at_once.hyps(2-4)])
next
  case (queued q reqs granted n new fd q' r)
  show ?case by (rule queued_orderly [OF queued.IH queued.hyps(2,4,5)])
next
  case (unlock q reqs granted n q' w)
  show ?case by (rule unlock_orderly [OF unlock.IH unlock.hyps(2,3)])
qed

text \<open>Whoever has the lock can give it back.\<close>

lemma unlock_never_fails:
  assumes "lock_run lock unlock fresh q0 q reqs granted n" "queue q0 []" "n < length granted"
  shows "\<exists>q' w. unlock q = Inr (q', w)"
proof -
  obtain vs where "queue q vs" "length granted = n + (if vs = [] then 0 else 1)"
    using run_orderly [OF assms(1,2)] by (rule orderlyE)
  then show ?thesis using assms(3) unlock_head by (cases vs) fastforce+
qed

end

definition unused :: "lock_queue \<Rightarrow> nat \<Rightarrow> bool" where
  "unused q a = (lq_heap q a = None)"

lemma holds_queue_empty: "holds_queue q vs \<Longrightarrow> lock_queue_empty q \<longleftrightarrow> vs = []"
  by (auto simp: holds_queue_def waiting_def lock_queue_empty_def dest: linked_head)

lemma enqueue_queue:
  assumes "holds_queue q vs" "unused q a"
  shows "\<exists>q'. lock_queue_enqueue (Some a) v q = Inr (q', 0) \<and> holds_queue q' (vs @ [v])"
  using enqueue_waiting [of q _ vs a v] assms by (fastforce simp: holds_queue_def unused_def)

interpretation db_lock: queue_lock holds_queue unused database_connection_lock database_connection_unlock
proof unfold_locales
  fix q :: lock_queue and vs fd
  assume "holds_queue q vs"
  then show "database_connection_lock None fd q = Inr (q, - 1)"
    by (simp add: database_connection_lock_def lock_queue_enqueue_def)
next
  fix q a fd
  assume "holds_queue q []" "unused q a"
  from enqueue_queue [OF this, of "- 1"] holds_queue_empty [OF this(1)]
  show "\<exists>q'. database_connection_lock (Some a) fd q = Inr (q', - 2) \<and> holds_queue q' [- 1]" by (auto simp: database_connection_lock_def)
next
  fix q v vs new
  assume "holds_queue q (v # vs)"
  then show "database_connection_lock new (- 1) q = Inr (q, - 1)" using holds_queue_empty by (simp add: database_connection_lock_def)
next
  fix q v vs a and fd :: int
  assume "holds_queue q (v # vs)" "unused q a" "fd \<noteq> - 1"
  from enqueue_queue [OF this(1,2), of fd] holds_queue_empty [OF this(1)] this(3)
  show "\<exists>q'. database_connection_lock (Some a) fd q = Inr (q', fd) \<and> holds_queue q' (v # vs @ [fd])" by (auto simp: database_connection_lock_def)
next
  fix q v vs
  assume "holds_queue q (v # vs)"
  then show "\<exists>q'. database_connection_unlock q = Inr (q', case vs of [] \<Rightarrow> - 1 | w # _ \<Rightarrow> w) \<and> holds_queue q' vs"
    using dequeue_waiting unfolding holds_queue_def database_connection_unlock_def by meson
qed

definition no_queue :: lock_queue where
  "no_queue = \<lparr>lq_heap = Map.empty, lq_head = None, lq_last = None\<rparr>"

lemma no_queue_empty: "holds_queue (lock_queue_init no_queue) []"
  unfolding holds_queue_def by (rule exI [of _ "[]"]) (simp add: waiting_def lock_queue_init_def no_queue_def)

text \<open>
  C21: The lock of a database connection is mutually exclusive and fair. Whatever the clients of a worker
  do, one at a time has the connection; it is granted in the order in which it was asked for, whoever
  asked is still waiting or has got it; and neither asking for it nor giving it back can fail on a bad
  pointer.
\<close>

theorem connection_lock_is_fair:
  assumes "lock_run database_connection_lock database_connection_unlock unused (lock_queue_init no_queue) q reqs granted n"
  shows "(\<exists>waiters. reqs = granted @ waiters \<and> (length granted = n \<longrightarrow> waiters = [])) \<and> length granted \<in> {n, n + 1} \<and>
    (length granted = n \<longleftrightarrow> lock_queue_empty q) \<and>
    (\<forall>new fd. new = None \<or> unused q (the new) \<longrightarrow> (\<exists>q' r. database_connection_lock new fd q = Inr (q', r))) \<and>
    (n < length granted \<longrightarrow> (\<exists>q' w. database_connection_unlock q = Inr (q', w)))"
proof -
  obtain vs where vs: "holds_queue q vs" "reqs = granted @ tl vs" "length granted = n + (if vs = [] then 0 else 1)"
    using db_lock.run_orderly [OF assms no_queue_empty] by (rule db_lock.orderlyE)
  show ?thesis
  proof (intro conjI allI impI)
    show "\<exists>waiters. reqs = granted @ waiters \<and> (length granted = n \<longrightarrow> waiters = [])" using vs(2,3) by auto
    show "length granted \<in> {n, n + 1}" using vs(3) by simp
    show "length granted = n \<longleftrightarrow> lock_queue_empty q" using vs(3) holds_queue_empty [OF vs(1)] by simp
    show "\<exists>q' r. database_connection_lock new fd q = Inr (q', r)" if "new = None \<or> unused q (the new)" for new fd
      by (rule db_lock.lock_never_fails [OF vs(1) that])
    show "\<exists>q' w. database_connection_unlock q = Inr (q', w)" if "n < length granted"
      by (rule db_lock.unlock_never_fails [OF assms no_queue_empty that])
  qed
qed

text \<open>A client gets the connection, a second one waits and gets it when the first one has given it back.\<close>

lemma two_clients:
  "\<exists>q. lock_run database_connection_lock database_connection_unlock unused (lock_queue_init no_queue) q [- 2, 7] [- 2, 7] 1"
proof -
  let ?run = "lock_run database_connection_lock database_connection_unlock unused (lock_queue_init no_queue)"
  note eval = database_connection_lock_def database_connection_unlock_def lock_queue_enqueue_def lock_queue_dequeue_def queue_node_def
    lock_queue_empty_def lock_queue_init_def no_queue_def unused_def
  let ?q1 = "\<lparr>lq_heap = [5 \<mapsto> \<lparr>qn_next = None, qn_value = - 1\<rparr>], lq_head = Some 5, lq_last = Some 5\<rparr>"
  let ?q2 = "\<lparr>lq_heap = [6 \<mapsto> \<lparr>qn_next = None, qn_value = 7\<rparr>, 5 \<mapsto> \<lparr>qn_next = Some 6, qn_value = - 1\<rparr>], lq_head = Some 5, lq_last = Some 6\<rparr>"
  have "?run ?q1 ([] @ [- 2]) ([] @ [- 2]) 0"
    by (rule lock_run.at_once [OF lock_run.start, of "Some 5" _ _ 3]) (simp_all add: eval)
  then have "?run ?q2 (([] @ [- 2]) @ [7]) ([] @ [- 2]) 0"
    by (rule lock_run.queued [of _ _ _ _ _ _ _ _ "Some 6" 7]) (simp_all add: eval)
  then have "\<exists>q. ?run q (([] @ [- 2]) @ [7]) (if 7 = (- 1 :: int) then [] @ [- 2] else ([] @ [- 2]) @ [7]) (0 + 1)"
    by (intro exI, rule lock_run.unlock) (simp_all add: eval)
  then show ?thesis by simp
qed

theorem connection_lock_is_fair_witness:
  "\<exists>q. lock_run database_connection_lock database_connection_unlock unused (lock_queue_init no_queue) q [- 2, 7] [- 2, 7] 1 \<and>
     \<not> lock_queue_empty q \<and> (\<exists>q' w. database_connection_unlock q = Inr (q', w))"
proof -
  obtain q where r: "lock_run database_connection_lock database_connection_unlock unused (lock_queue_init no_queue) q [- 2, 7] [- 2, 7] 1"
    using two_clients by blast
  from connection_lock_is_fair [OF this] have "\<not> lock_queue_empty q" "\<exists>q' w. database_connection_unlock q = Inr (q', w)" by simp_all
  with r show ?thesis by blast
qed

end
