(* ===== verification/Login_Server.thy ===== *)
theory Login_Server
  imports Login_Handlers Database_Lock Reader Client
begin

text \<open>
  The packets of the login server (\<^verbatim>\<open>src/src/login/main.c\<close>): what a packet of a client does, and how
  the handler it started goes on when the lock of the database connection, the database or a channel is
  ready.

  The handler of a client is a value of \<open>pending\<close> that stands for the pair of \<open>client->type\<close> and
  \<open>client->handler\<close>. \<open>sv_event\<close> is \<open>userEvent\<close> of the session, what the client waits for (\<open>session_set_event\<close>, which
  is assumed to find memory), and \<open>sv_sent\<close> what was written to it. \<open>lock\<close> is what \<open>database_connection_lock\<close> returns:
  \<open>-2\<close> if the connection was free, \<open>-1\<close> on failure, otherwise a descriptor to wait for; what the client
  does with the lock is recorded in \<open>sv_conn\<close>. A function that returns an \<open>int\<close> in C returns it here with the state.
\<close>

subsection \<open>State\<close>

datatype pending =
    PACKET_TYPE_LOGIN login_handler
  | PACKET_TYPE_GENDER db_task
  | PACKET_TYPE_CHARACTER_LIST db_task
  | PACKET_TYPE_NAME_CHECK name_check_handler
  | PACKET_TYPE_CREATE_CHARACTER create_character_handler
  | PACKET_TYPE_REGISTER_PIC pic_handler
  | PACKET_TYPE_VERIFY_PIC pic_handler
  | Logging_out db_task
  | No_handler

datatype resume = On_resume_packet | On_lock_ready | On_resume_disconnect | On_lock_ready_disconnect

text \<open>An event that is not persistent is pending until it fires; with no flags it never does.\<close>

record user_event =
  ue_events :: int
  ue_resume :: resume
  ue_pending :: bool

datatype conn_event = Lock_returned int | Lock_ready | Unlocked

record server_state =
  sv_login :: login_state
  sv_handler :: pending
  sv_event :: "user_event option"
  sv_conn :: "conn_event list"
  sv_sent :: "login_message list"

text \<open>What the code gets from elsewhere: the hash of passwords, memory, fresh addresses, the equipment data,
  the descriptor \<open>assign_channel\<close> returns, and the address of a channel in the configuration.\<close>

record login_env =
  le_argon :: "bytes \<Rightarrow> u64 \<Rightarrow> bytes"
  le_mem :: bool
  le_alloc :: "accounts \<Rightarrow> nat option"
  le_equips :: "u32 \<Rightarrow> equip_info option"
  le_channel_fd :: int
  le_channel_addr :: "u8 \<Rightarrow> u8 \<Rightarrow> u32 \<times> u16"

definition login_session_write :: "login_message option \<Rightarrow> server_state \<Rightarrow> server_state" where
  "login_session_write m sv = (case m of None \<Rightarrow> sv | Some msg \<Rightarrow> sv\<lparr>sv_sent := sv_sent sv @ [msg]\<rparr>)"

definition session_set_event :: "int \<Rightarrow> resume \<Rightarrow> server_state \<Rightarrow> server_state" where
  "session_set_event status r sv =
     (let events = poll_to_libevent status
      in sv\<lparr>sv_event := Some \<lparr>ue_events = events, ue_resume = r, ue_pending = (events \<noteq> 0)\<rparr>\<rparr>)"

text \<open>It is only asked for while there is an event.\<close>

definition session_get_event_disposition :: "server_state \<Rightarrow> int" where
  "session_get_event_disposition sv = (case sv_event sv of None \<Rightarrow> 0 | Some e \<Rightarrow> libevent_to_poll (ue_events e))"

definition set_event_if_changed :: "int \<Rightarrow> resume \<Rightarrow> server_state \<Rightarrow> server_state" where
  "set_event_if_changed status r sv = (if status \<noteq> session_get_event_disposition sv then session_set_event status r sv else sv)"

definition on_conn :: "conn_event \<Rightarrow> server_state \<Rightarrow> server_state" where
  "on_conn e sv = sv\<lparr>sv_conn := sv_conn sv @ [e]\<rparr>"

definition on_client_create :: "login_state \<Rightarrow> server_state" where
  "on_client_create st =
     \<lparr>sv_login = on_client (\<lambda>c. c\<lparr>lc_node := None, lc_loggedIn := False\<rparr>) st, sv_handler = No_handler, sv_event = None, sv_conn = [], sv_sent = []\<rparr>"

subsection \<open>Going on with a handler\<close>

text \<open>The call of \<open>handle\<close> for the handlers that use the database.\<close>

fun handle_pending :: "login_env \<Rightarrow> pending \<Rightarrow> login_state \<Rightarrow> lerror + handled \<times> pending \<times> login_state" where
  "handle_pending env (PACKET_TYPE_LOGIN h) st =
     map_sum id (\<lambda>(r, h, st). (r, PACKET_TYPE_LOGIN h, st)) (login_handler_handle (le_argon env) (le_mem env) (le_alloc env) h st)"
| "handle_pending env (PACKET_TYPE_GENDER tk) st =
     map_sum id (\<lambda>(r, tk, st). (r, PACKET_TYPE_GENDER tk, st)) (gender_handler_handle (le_mem env) tk st)"
| "handle_pending env (PACKET_TYPE_CHARACTER_LIST tk) st =
     map_sum id (\<lambda>(r, tk, st). (r, PACKET_TYPE_CHARACTER_LIST tk, st)) (character_list_handler_handle (le_mem env) tk st)"
| "handle_pending env (PACKET_TYPE_NAME_CHECK h) st =
     map_sum id (\<lambda>(r, h, st). (r, PACKET_TYPE_NAME_CHECK h, st)) (name_check_handler_handle (le_mem env) h st)"
| "handle_pending env (PACKET_TYPE_CREATE_CHARACTER h) st =
     map_sum id (\<lambda>(r, h, st). (r, PACKET_TYPE_CREATE_CHARACTER h, st)) (create_character_handler_handle (le_mem env) (le_equips env) h st)"
| "handle_pending env _ st = Inl Null_handler"

text \<open>A positive status is waited for; otherwise the lock is given back, the handler is destroyed and, unless
  it failed, its packet is sent.\<close>

definition after_handle ::
  "(int \<Rightarrow> resume \<Rightarrow> server_state \<Rightarrow> server_state) \<Rightarrow> int \<Rightarrow> server_state \<Rightarrow> handled \<times> pending \<times> login_state \<Rightarrow> int \<times> server_state" where
  "after_handle wait ret sv r =
     (case r of
        ((status, m), h, st) \<Rightarrow>
          if status > 0 then (ret, wait status On_resume_packet (sv\<lparr>sv_login := st, sv_handler := h\<rparr>))
          else let sv = on_conn Unlocked (sv\<lparr>sv_login := st, sv_handler := No_handler\<rparr>)
               in if status < 0 then (status, sv) else (0, login_session_write m sv))"

definition lock_and_write :: "login_env \<Rightarrow> int \<Rightarrow> server_state \<Rightarrow> lerror + int \<times> server_state" where
  "lock_and_write env lock sv =
     (let sv = on_conn (Lock_returned lock) sv
      in if lock = - 2 then map_sum id (after_handle session_set_event 0 sv) (handle_pending env (sv_handler sv) (sv_login sv))
         else if lock = - 1 then Inr (- 1, sv)
         else Inr (0, session_set_event POLLIN On_lock_ready sv))"

definition on_database_lock_ready :: "login_env \<Rightarrow> server_state \<Rightarrow> lerror + int \<times> server_state" where
  "on_database_lock_ready env sv =
     (let sv = on_conn Lock_ready sv
      in case sv_handler sv of
           PACKET_TYPE_REGISTER_PIC _ \<Rightarrow> Inr (- 1, sv)
         | PACKET_TYPE_VERIFY_PIC _ \<Rightarrow> Inr (- 1, sv)
         | h \<Rightarrow> map_sum id (after_handle session_set_event 1 sv) (handle_pending env h (sv_login sv)))"

text \<open>\<open>status\<close> is the number read from the descriptor of the channel.\<close>

definition channel_addr :: "login_env \<Rightarrow> login_state \<Rightarrow> u32 \<times> u16" where
  "channel_addr env st = le_channel_addr env (lc_world (ls_client st)) (lc_channel (ls_client st))"

definition resume_pic ::
  "(int \<Rightarrow> u32 \<times> u16 \<Rightarrow> int \<Rightarrow> pic_handler \<Rightarrow> login_state \<Rightarrow> lerror + channel_result \<times> pic_handler \<times> login_state) \<Rightarrow>
   login_env \<Rightarrow> int \<Rightarrow> pic_handler \<Rightarrow> server_state \<Rightarrow> lerror + int \<times> server_state" where
  "resume_pic handle env status h sv =
     map_sum id (\<lambda>((_, _, m), _, st). (0, login_session_write m (sv\<lparr>sv_login := st, sv_handler := No_handler\<rparr>)))
       (handle (le_channel_fd env) (channel_addr env (sv_login sv)) status h (sv_login sv))"

definition on_resume_client_packet :: "login_env \<Rightarrow> int \<Rightarrow> server_state \<Rightarrow> lerror + int \<times> server_state" where
  "on_resume_client_packet env status sv =
     (case sv_handler sv of
        PACKET_TYPE_REGISTER_PIC h \<Rightarrow> resume_pic register_pic_handler_handle env status h sv
      | PACKET_TYPE_VERIFY_PIC h \<Rightarrow> resume_pic verify_pic_handler_handle env status h sv
      | h \<Rightarrow> map_sum id (after_handle set_event_if_changed 1 sv) (handle_pending env h (sv_login sv)))"

subsection \<open>Packets\<close>

definition ACCOUNT_MAX_NAME_LENGTH :: u16 where "ACCOUNT_MAX_NAME_LENGTH = 12"
definition ACCOUNT_MAX_PASSWORD_LENGTH :: u16 where "ACCOUNT_MAX_PASSWORD_LENGTH = 12"
definition ACCOUNT_PIC_MAX_LENGTH :: u16 where "ACCOUNT_PIC_MAX_LENGTH = 16"
definition ACCOUNT_HWID_LENGTH :: nat where "ACCOUNT_HWID_LENGTH = 10"

text \<open>\<open>READ_OR_KICK\<close> and \<open>READER_END\<close>: \<open>-1\<close> is returned unless there is a value, or everything was read.\<close>

definition read_or_kick :: "'a rop \<Rightarrow> reader \<Rightarrow> ('a \<Rightarrow> reader \<Rightarrow> 'r option) \<Rightarrow> 'r option" where
  "read_or_kick f r k = (case f r of (r, None) \<Rightarrow> None | (r, Some v) \<Rightarrow> k v r)"

definition reader_finish :: "'a \<Rightarrow> reader \<Rightarrow> 'a option" where
  "reader_finish v r = (if reader_end r then Some v else None)"

definition skip_sized :: "reader \<Rightarrow> (reader \<Rightarrow> 'r option) \<Rightarrow> 'r option" where
  "skip_sized r k = read_or_kick reader_u16 r (\<lambda>len r. k (reader_skip (unat len) r))"

definition read_login :: "reader \<Rightarrow> (bytes \<times> bytes \<times> bytes) option" where
  "read_login r =
     read_or_kick (reader_sized_string ACCOUNT_MAX_NAME_LENGTH) r (\<lambda>name r.
     read_or_kick (reader_sized_string ACCOUNT_MAX_PASSWORD_LENGTH) r (\<lambda>pass r.
     read_or_kick (reader_array ACCOUNT_HWID_LENGTH) r (\<lambda>hwid r. reader_finish (name, pass, hwid) (reader_skip 17 r))))"

definition read_world :: "reader \<Rightarrow> (u8 \<times> u8) option" where
  "read_world r =
     read_or_kick reader_u8 (reader_skip 1 r) (\<lambda>world r.
     read_or_kick reader_u8 r (\<lambda>channel r. reader_finish (world, channel) (reader_skip 4 r)))"

definition read_gender :: "reader \<Rightarrow> account_gender option" where
  "read_gender r =
     read_or_kick reader_u8 r (\<lambda>ok r.
       if ok = 1
       then read_or_kick reader_u8 r (\<lambda>gender r.
              reader_finish (if gender = 0 then ACCOUNT_GENDER_MALE else ACCOUNT_GENDER_FEMALE) r)
       else reader_finish ACCOUNT_GENDER_UNSPECIFIED r)"

record new_character =
  nc_name :: bytes
  nc_job :: u32
  nc_face :: u32
  nc_hair :: u32
  nc_hair_color :: u32
  nc_skin :: u32
  nc_coat :: u32
  nc_bottom :: u32
  nc_shoes :: u32
  nc_weapon :: u32
  nc_gender :: u8

definition read_new_character :: "reader \<Rightarrow> new_character option" where
  "read_new_character r =
     read_or_kick (reader_sized_string (of_nat CHARACTER_MAX_NAME_LENGTH)) r (\<lambda>name r.
     read_or_kick reader_u32 r (\<lambda>job r.
     read_or_kick reader_u32 r (\<lambda>face r.
     read_or_kick reader_u32 r (\<lambda>hair r.
     read_or_kick reader_u32 r (\<lambda>hair_color r.
     read_or_kick reader_u32 r (\<lambda>skin r.
     read_or_kick reader_u32 r (\<lambda>coat r.
     read_or_kick reader_u32 r (\<lambda>bottom r.
     read_or_kick reader_u32 r (\<lambda>shoes r.
     read_or_kick reader_u32 r (\<lambda>weapon r.
     read_or_kick reader_u8 r (\<lambda>gender r.
       reader_finish \<lparr>nc_name = name, nc_job = job, nc_face = face, nc_hair = hair, nc_hair_color = hair_color, nc_skin = skin, nc_coat = coat,
         nc_bottom = bottom, nc_shoes = shoes, nc_weapon = weapon, nc_gender = gender\<rparr> r)))))))))))"

definition read_register_pic :: "reader \<Rightarrow> (u32 \<times> bytes) option" where
  "read_register_pic r =
     read_or_kick reader_u32 (reader_skip 1 r) (\<lambda>cid r.
     skip_sized r (\<lambda>r. skip_sized r (\<lambda>r.
     read_or_kick (reader_sized_string ACCOUNT_PIC_MAX_LENGTH) r (\<lambda>pic r. reader_finish (cid, pic) r))))"

definition read_verify_pic :: "reader \<Rightarrow> (u32 \<times> bytes) option" where
  "read_verify_pic r =
     read_or_kick (reader_sized_string ACCOUNT_PIC_MAX_LENGTH) r (\<lambda>pic r.
     read_or_kick reader_u32 r (\<lambda>cid r.
     skip_sized r (\<lambda>r. skip_sized r (\<lambda>r. reader_finish (cid, pic) r))))"

text \<open>What a packet asks for, by its opcode; \<open>None\<close>: the packet is malformed.\<close>

datatype request =
    Login bytes bytes bytes
  | Server_list_request
  | Select_world u8 u8
  | World_status u8
  | Tos bool
  | Gender account_gender
  | Pin u8 u8
  | Check_name bytes
  | Create_character new_character
  | Register_pic u32 bytes
  | Verify_pic u32 bytes
  | Ignored

definition parse_packet :: "u16 \<Rightarrow> bytes \<Rightarrow> request option" where
  "parse_packet opcode body =
     (let r = reader_init (length body) body
      in if opcode = 0x01 then map_option (\<lambda>(name, pass, hwid). Login name pass hwid) (read_login r)
         else if opcode = 0x04 \<or> opcode = 0x0B then Some Server_list_request
         else if opcode = 0x05 then map_option (\<lambda>(world, channel). Select_world world channel) (read_world r)
         else if opcode = 0x06 then read_or_kick reader_u8 r (\<lambda>world r. reader_finish (World_status world) (reader_skip 1 r))
         else if opcode = 0x07 then read_or_kick reader_u8 r (\<lambda>tos r. reader_finish (Tos (tos = 1)) r)
         else if opcode = 0x08 then map_option Gender (read_gender r)
         else if opcode = 0x09 then read_or_kick reader_u8 r (\<lambda>c2 r. read_or_kick reader_u8 r (\<lambda>c3 r. reader_finish (Pin c2 c3) r))
         else if opcode = 0x15 then read_or_kick (reader_sized_string (of_nat CHARACTER_MAX_NAME_LENGTH)) r (\<lambda>name r. reader_finish (Check_name name) r)
         else if opcode = 0x16 then map_option Create_character (read_new_character r)
         else if opcode = 0x1D then map_option (\<lambda>(cid, pic). Register_pic cid pic) (read_register_pic r)
         else if opcode = 0x1E then map_option (\<lambda>(cid, pic). Verify_pic cid pic) (read_verify_pic r)
         else Some Ignored)"

definition start_handler :: "login_env \<Rightarrow> int \<Rightarrow> ('h \<Rightarrow> pending) \<Rightarrow> lerror + 'h option \<Rightarrow> server_state \<Rightarrow> lerror + int \<times> server_state" where
  "start_handler env lock f r sv =
     (case r of
        Inl err \<Rightarrow> Inl err
      | Inr None \<Rightarrow> lock_and_write env lock (sv\<lparr>sv_handler := No_handler\<rparr>)
      | Inr (Some h) \<Rightarrow> lock_and_write env lock (sv\<lparr>sv_handler := f h\<rparr>))"

definition job_of_choice :: "u32 \<Rightarrow> u16" where
  "job_of_choice job = (if job = 0 then of_nat JOB_NOBLESSE else if job = 1 then of_nat JOB_BEGINNER else of_nat JOB_LEGEND)"

definition send_handled :: "handled \<times> login_state \<Rightarrow> server_state \<Rightarrow> int \<times> server_state" where
  "send_handled r sv =
     (case r of ((status, m), st) \<Rightarrow> if status \<noteq> 0 then (- 1, sv\<lparr>sv_login := st\<rparr>) else (0, login_session_write m (sv\<lparr>sv_login := st\<rparr>)))"

text \<open>The result of \<open>lock_and_write\<close> is not returned for a name check, and the answer to a PIC that is being
  registered is waited for in any case.\<close>

fun handle_request :: "login_env \<Rightarrow> int \<Rightarrow> request \<Rightarrow> server_state \<Rightarrow> lerror + int \<times> server_state" where
  "handle_request env lock (Login name pass hwid) sv =
     start_handler env lock PACKET_TYPE_LOGIN (login_handler_create (le_mem env) name pass hwid) sv"
| "handle_request env lock Server_list_request sv = Inr (0, sv\<lparr>sv_sent := sv_sent sv @ handle_server_list\<rparr>)"
| "handle_request env lock (Select_world world channel) sv =
     (case character_list_handler_create (le_mem env) world channel (sv_login sv) of
        (h, st) \<Rightarrow> start_handler env lock PACKET_TYPE_CHARACTER_LIST (Inr h) (sv\<lparr>sv_login := st\<rparr>))"
| "handle_request env lock (World_status world) sv = Inr (0, login_session_write (snd (handle_server_status world)) sv)"
| "handle_request env lock (Tos accept) sv = map_sum id (\<lambda>r. send_handled r sv) (handle_tos accept (sv_login sv))"
| "handle_request env lock (Gender gender) sv =
     (case gender_handler_create (le_mem env) gender (sv_login sv) of
        Inl err \<Rightarrow> Inl err
      | Inr ((status, m), h, st) \<Rightarrow>
          if status > 0 then start_handler env lock PACKET_TYPE_GENDER (Inr h) (sv\<lparr>sv_login := st\<rparr>)
          else Inr (send_handled ((status, m), st) sv))"
| "handle_request env lock (Pin c2 c3) sv = Inr (send_handled (handle_pin c2 c3, sv_login sv) sv)"
| "handle_request env lock (Check_name name) sv =
     map_sum id (\<lambda>(_, sv). (0, sv)) (start_handler env lock PACKET_TYPE_NAME_CHECK (name_check_handler_create (le_mem env) name) sv)"
| "handle_request env lock (Create_character c) sv =
     start_handler env lock PACKET_TYPE_CREATE_CHARACTER
       (create_character_handler_create (le_mem env) (nc_name c) (job_of_choice (nc_job c)) (nc_gender c) (ucast (nc_skin c))
          (nc_hair c + nc_hair_color c) (nc_face c) (nc_coat c) (nc_bottom c) (nc_shoes c) (nc_weapon c)) sv"
| "handle_request env lock (Register_pic cid pic) sv =
     (case register_pic_handler_create (le_mem env) cid pic (sv_login sv) of
        Inl err \<Rightarrow> Inl err
      | Inr (None, st) \<Rightarrow> Inr (- 1, sv\<lparr>sv_login := st\<rparr>)
      | Inr (Some h, st) \<Rightarrow>
          map_sum id (\<lambda>((status, fd, m), h, st). (0, session_set_event status On_resume_packet (sv\<lparr>sv_login := st, sv_handler := PACKET_TYPE_REGISTER_PIC h\<rparr>)))
            (register_pic_handler_handle (le_channel_fd env) (channel_addr env st) 0 h st))"
| "handle_request env lock (Verify_pic cid pic) sv =
     (case verify_pic_handler_create (le_mem env) cid pic of
        Inl err \<Rightarrow> Inl err
      | Inr None \<Rightarrow> Inr (- 1, sv)
      | Inr (Some h) \<Rightarrow>
          map_sum id (\<lambda>((status, fd, m), h, st).
             if status > 0 then (0, session_set_event status On_resume_packet (sv\<lparr>sv_login := st, sv_handler := PACKET_TYPE_VERIFY_PIC h\<rparr>))
             else if status < 0 then (- 1, sv\<lparr>sv_login := st, sv_handler := No_handler\<rparr>)
             else (0, login_session_write m (sv\<lparr>sv_login := st, sv_handler := No_handler\<rparr>)))
            (verify_pic_handler_handle (le_channel_fd env) (channel_addr env (sv_login sv)) 0 h (sv_login sv)))"
| "handle_request env lock Ignored sv = Inr (0, sv)"

definition on_client_packet :: "login_env \<Rightarrow> int \<Rightarrow> bytes \<Rightarrow> server_state \<Rightarrow> lerror + int \<times> server_state" where
  "on_client_packet env lock pkt sv =
     (if length pkt < 2 then Inr (- 1, sv)
      else case parse_packet (word_of_int (le_val (take 2 pkt))) (drop 2 pkt) of
             None \<Rightarrow> Inr (- 1, sv)
           | Some req \<Rightarrow> handle_request env lock req sv)"

subsection \<open>Disconnecting\<close>

definition after_logout ::
  "(int \<Rightarrow> resume \<Rightarrow> server_state \<Rightarrow> server_state) \<Rightarrow> int \<Rightarrow> bool \<Rightarrow> server_state \<Rightarrow> int \<times> db_task \<times> login_state \<Rightarrow> int \<times> server_state" where
  "after_logout wait ret destroyed sv r =
     (case r of
        (status, tk, st) \<Rightarrow>
          if status > 0 then (ret, wait status On_resume_disconnect (sv\<lparr>sv_login := st, sv_handler := Logging_out tk\<rparr>))
          else (0, on_conn Unlocked (sv\<lparr>sv_login := st, sv_handler := (if destroyed then No_handler else Logging_out tk)\<rparr>)))"

definition handle_logout ::
  "(int \<Rightarrow> resume \<Rightarrow> server_state \<Rightarrow> server_state) \<Rightarrow> int \<Rightarrow> bool \<Rightarrow> login_env \<Rightarrow> server_state \<Rightarrow> lerror + int \<times> server_state" where
  "handle_logout wait ret destroyed env sv =
     (case sv_handler sv of
        Logging_out tk \<Rightarrow> map_sum id (after_logout wait ret destroyed sv) (logout_handler_handle (le_mem env) tk (sv_login sv))
      | _ \<Rightarrow> Inl Null_handler)"

text \<open>If the connection cannot be locked, nothing happens. A logout that is over at once leaves its handler
  behind.\<close>

definition on_client_disconnect :: "login_env \<Rightarrow> int \<Rightarrow> server_state \<Rightarrow> lerror + server_state" where
  "on_client_disconnect env lock sv =
     (if lc_node (ls_client (sv_login sv)) = None then Inr sv
      else let sv = on_conn (Lock_returned lock) (sv\<lparr>sv_handler := (if le_mem env then Logging_out new_task else No_handler)\<rparr>)
           in if lock = - 2 then map_sum id snd (handle_logout session_set_event 0 False env sv)
              else if lock \<noteq> - 1 then Inr (session_set_event POLLIN On_lock_ready_disconnect sv)
              else Inr sv)"

definition on_database_lock_ready_disconnect :: "login_env \<Rightarrow> server_state \<Rightarrow> lerror + int \<times> server_state" where
  "on_database_lock_ready_disconnect env sv = handle_logout session_set_event 1 True env (on_conn Lock_ready sv)"

definition on_resume_client_disconnect :: "login_env \<Rightarrow> server_state \<Rightarrow> lerror + int \<times> server_state" where
  "on_resume_client_disconnect env sv = handle_logout set_event_if_changed 1 True env sv"

subsection \<open>What a packet can do\<close>

text \<open>Strings from a packet fit into the arrays they are copied to.\<close>

lemma read_or_kick_SomeE:
  assumes "read_or_kick f r k = Some x"
  obtains v r' where "f r = (r', Some v)" "k v r' = Some x"
  using assms by (auto simp: read_or_kick_def split: prod.splits option.splits)

lemma sized_string_bound: "reader_sized_string m r = (r', Some v) \<Longrightarrow> length v \<le> unat m"
  by (auto simp: reader_sized_string_def bytes_at_def word_le_nat_alt not_less split: prod.splits option.splits if_splits)

lemma sized_string_bounds:
  "reader_sized_string ACCOUNT_MAX_NAME_LENGTH r = (r', Some v) \<Longrightarrow> length v \<le> 12"
  "reader_sized_string ACCOUNT_MAX_PASSWORD_LENGTH r = (r', Some v) \<Longrightarrow> length v \<le> 12"
  "reader_sized_string (of_nat CHARACTER_MAX_NAME_LENGTH) r = (r', Some v) \<Longrightarrow> length v \<le> 12"
  "reader_sized_string ACCOUNT_PIC_MAX_LENGTH r = (r', Some v) \<Longrightarrow> length v \<le> 16"
  using sized_string_bound [of 12 r r' v] sized_string_bound [of 16 r r' v]
  by (simp_all add: ACCOUNT_MAX_NAME_LENGTH_def ACCOUNT_MAX_PASSWORD_LENGTH_def CHARACTER_MAX_NAME_LENGTH_def ACCOUNT_PIC_MAX_LENGTH_def)

fun fits_arrays :: "request \<Rightarrow> bool" where
  "fits_arrays (Login name pass hwid) \<longleftrightarrow> length name \<le> 12 \<and> length pass \<le> 12"
| "fits_arrays (Check_name name) \<longleftrightarrow> length name \<le> 12"
| "fits_arrays (Create_character c) \<longleftrightarrow> length (nc_name c) \<le> 12"
| "fits_arrays (Register_pic cid pic) \<longleftrightarrow> length pic \<le> 16"
| "fits_arrays (Verify_pic cid pic) \<longleftrightarrow> length pic \<le> 16"
| "fits_arrays _ \<longleftrightarrow> True"

lemma reader_finish_Some [simp]: "reader_finish v r = Some x \<longleftrightarrow> reader_end r \<and> x = v"
  by (auto simp: reader_finish_def)

lemma read_login_fits: "read_login r = Some (name, pass, hwid) \<Longrightarrow> fits_arrays (Login name pass hwid)"
  by (auto simp: read_login_def elim!: read_or_kick_SomeE dest: sized_string_bounds)

lemma read_new_character_fits: "read_new_character r = Some c \<Longrightarrow> fits_arrays (Create_character c)"
  by (auto simp: read_new_character_def elim!: read_or_kick_SomeE dest: sized_string_bounds)

lemma read_register_pic_fits: "read_register_pic r = Some (cid, pic) \<Longrightarrow> fits_arrays (Register_pic cid pic)"
  by (auto simp: read_register_pic_def skip_sized_def elim!: read_or_kick_SomeE dest: sized_string_bounds)

lemma read_verify_pic_fits: "read_verify_pic r = Some (cid, pic) \<Longrightarrow> fits_arrays (Verify_pic cid pic)"
  by (auto simp: read_verify_pic_def skip_sized_def elim!: read_or_kick_SomeE dest: sized_string_bounds)

lemma parse_packet_fits: "parse_packet opcode body = Some req \<Longrightarrow> fits_arrays req"
  using read_login_fits read_new_character_fits read_register_pic_fits read_verify_pic_fits
  by (auto simp: parse_packet_def Let_def split: if_splits elim!: read_or_kick_SomeE dest: sized_string_bounds)

text \<open>Errors that only the database or unknown equipment can cause.\<close>

definition outside_fault :: "lerror \<Rightarrow> bool" where
  "outside_fault err \<longleftrightarrow> err \<in> {Out_of_replies, Wrong_result, Overrun, No_equip_info}"

definition only_faults :: "lerror + 'a \<Rightarrow> bool" where
  "only_faults r \<longleftrightarrow> (case r of Inl err \<Rightarrow> outside_fault err | Inr _ \<Rightarrow> True)"

lemma only_faults_simps [simp]:
  "only_faults (Inl err) = outside_fault err" "only_faults (Inr x)" "only_faults (map_sum id f r) = only_faults r"
  by (simp_all add: only_faults_def) (cases r, simp_all)

lemma only_faults_case:
  "only_faults r \<Longrightarrow> (\<And>x. only_faults (f x)) \<Longrightarrow> only_faults (case r of Inl err \<Rightarrow> Inl err | Inr x \<Rightarrow> f x)"
  by (cases r) simp_all

lemma outside_faults [simp]: "outside_fault Out_of_replies" "outside_fault Wrong_result" "outside_fault Overrun" "outside_fault No_equip_info"
  by (simp_all add: outside_fault_def)

lemma start_request_faults [simp]: "only_faults (start_request True req tk st)"
  by (simp add: start_request_def started_def continue_request_def database_request_execute_def advance_task_def split: list.splits)

lemma query_faults:
  assumes "only_faults (request st)" "\<And>tk st. only_faults (finish tk st)" "tk_state tk = 0"
  shows "only_faults (query_handle True request failed finish tk st)"
  unfolding query_handle_def using assms by (auto simp: Let_def intro!: only_faults_case split: prod.splits)

lemma wear_all_faults [simp]: "only_faults (wear_all ws es)"
  by (induction ws es rule: wear_all.induct) (auto simp: wear_def Let_def intro!: only_faults_case)

lemma listed_characters_faults [simp]: "only_faults (listed_characters ds)"
  by (induction ds) (auto simp: listed_character_def intro!: only_faults_case)

lemma finish_faults [simp]: "only_faults (character_list_finish tk st)" "only_faults (create_character_finish h tk st)"
  by (simp_all add: character_list_finish_def create_character_finish_def del: wear_all.simps split: db_result.splits)

text \<open>A client that is logged in, on a server with memory.\<close>

definition logged_in :: "login_env \<Rightarrow> server_state \<Rightarrow> bool" where
  "logged_in env sv \<longleftrightarrow>
     le_mem env \<and> (\<exists>xs. listed (ls_accounts (sv_login sv)) xs) \<and> (\<forall>acs a. le_alloc env acs = Some a \<longrightarrow> a \<notin> dom (ac_heap acs)) \<and>
     (\<exists>aid. client_id (sv_login sv) = Inr aid)"

lemma client_id_node: "client_id st = Inr aid \<Longrightarrow> \<exists>a n. lc_node (ls_client st) = Some a \<and> ac_heap (ls_accounts st) a = Some n"
  by (auto simp: client_id_def account_get_id_def split: option.splits)

lemma client_id_on_client: "lc_node (f (ls_client st)) = lc_node (ls_client st) \<Longrightarrow> client_id (on_client f st) = client_id st"
  by (simp add: client_id_def on_client_def split: option.split)

lemma client_id_on_account [simp]: "client_id (on_account f st) = client_id st"
  by (simp add: on_account_def client_id_on_client)

lemma handle_new_faults:
  assumes "logged_in env sv" "st = sv_login sv \<or> (\<exists>w c. st = on_client (\<lambda>x. x\<lparr>lc_world := w, lc_channel := c\<rparr>) (sv_login sv))"
  shows "login_handler_create True name pass hwid = Inr (Some h) \<Longrightarrow> only_faults (handle_pending env (PACKET_TYPE_LOGIN h) st)"
    and "only_faults (handle_pending env (PACKET_TYPE_GENDER new_task) st)"
    and "only_faults (handle_pending env (PACKET_TYPE_CHARACTER_LIST new_task) st)"
    and "nh_task nh = new_task \<Longrightarrow> only_faults (handle_pending env (PACKET_TYPE_NAME_CHECK nh) st)"
    and "ch_task ch = new_task \<Longrightarrow> only_faults (handle_pending env (PACKET_TYPE_CREATE_CHARACTER ch) st)"
proof -
  have mem: "le_mem env" and alloc: "\<And>acs a. le_alloc env acs = Some a \<Longrightarrow> a \<notin> dom (ac_heap acs)"
    and l: "\<exists>xs. listed (ls_accounts st) xs" and "\<exists>aid. client_id st = Inr aid"
    using assms by (auto simp: logged_in_def client_id_on_client) (auto simp: on_client_def)
  then obtain aid where cid: "client_id st = Inr aid" by blast
  show "only_faults (handle_pending env (PACKET_TYPE_LOGIN h) st)" if c: "login_handler_create True name pass hwid = Inr (Some h)"
  proof -
    have "login_inv (le_argon env) name pass h st" by (rule login_run_inv [OF login_run.create [OF c]])
    moreover have "login_ready h st" using c l by (auto simp: login_handler_create_def login_ready_def new_task_def split: if_splits)
    ultimately show ?thesis using login_handle_safe [of "le_argon env" name pass h st "le_mem env" "le_alloc env"] mem alloc
      by (cases "login_handler_handle (le_argon env) (le_mem env) (le_alloc env) h st") (auto simp: outside_fault_def database_fault_def)
  qed
  show "only_faults (handle_pending env (PACKET_TYPE_GENDER new_task) st)"
    using mem cid by (simp add: gender_handler_handle_def new_task_def update_account_def Let_def)
  show "only_faults (handle_pending env (PACKET_TYPE_CHARACTER_LIST new_task) st)"
    using mem cid by (simp add: character_list_handler_handle_def query_faults new_task_def)
  show "only_faults (handle_pending env (PACKET_TYPE_NAME_CHECK nh) st)" if "nh_task nh = new_task"
    using mem that by (auto simp: name_check_handler_handle_def new_task_def intro!: query_faults split: db_result.splits)
  show "only_faults (handle_pending env (PACKET_TYPE_CREATE_CHARACTER ch) st)" if "ch_task ch = new_task"
    using mem cid that by (auto simp: create_character_handler_handle_def create_character_request_def new_task_def Let_def intro!: query_faults)
qed

lemma lock_and_write_faults:
  assumes "only_faults (handle_pending env (sv_handler sv) (sv_login sv))"
  shows "only_faults (lock_and_write env lock sv) \<and> (lock \<noteq> - 2 \<longrightarrow> (\<exists>r. lock_and_write env lock sv = Inr r))"
  using assms by (auto simp: lock_and_write_def Let_def on_conn_def)

lemma success_message_faults: "client_id st = Inr aid \<Longrightarrow> \<exists>m. success_message st = Inr m"
  by (simp add: success_message_def Let_def)

lemma request_faults:
  assumes l: "logged_in env sv" and f: "fits_arrays req"
  shows "only_faults (handle_request env lock req sv) \<and> (lock \<noteq> - 2 \<longrightarrow> (\<exists>r. handle_request env lock req sv = Inr r))"
proof -
  have mem: "le_mem env" using l by (simp add: logged_in_def)
  obtain aid where cid: "client_id (sv_login sv) = Inr aid" using l by (auto simp: logged_in_def)
  note new = handle_new_faults [OF l disjI1 [OF refl]]
  have wr: "only_faults (lock_and_write env lock (sv\<lparr>sv_handler := h\<rparr>)) \<and> (lock \<noteq> - 2 \<longrightarrow> (\<exists>r. lock_and_write env lock (sv\<lparr>sv_handler := h\<rparr>) = Inr r))"
    if "only_faults (handle_pending env h (sv_login sv))" for h using that lock_and_write_faults [of env "sv\<lparr>sv_handler := h\<rparr>"] by simp
  show ?thesis
  proof (cases req)
    case (Login name pass hwid)
    then obtain h where "login_handler_create True name pass hwid = Inr (Some h)" using f by (simp add: login_handler_create_def)
    then show ?thesis using Login mem wr [OF new(1)] by (simp add: start_handler_def)
  next
    case (Select_world w c)
    have "only_faults (handle_pending env (PACKET_TYPE_CHARACTER_LIST new_task) (on_client (\<lambda>x. x\<lparr>lc_world := w, lc_channel := c\<rparr>) (sv_login sv)))"
      by (rule handle_new_faults [OF l]) blast
    then show ?thesis
      using lock_and_write_faults [of env "sv\<lparr>sv_login := on_client (\<lambda>x. x\<lparr>lc_world := w, lc_channel := c\<rparr>) (sv_login sv),
        sv_handler := PACKET_TYPE_CHARACTER_LIST new_task\<rparr>"] Select_world mem
      by (simp add: character_list_handler_create_def start_handler_def)
  next
    case (Tos accept)
    have "\<exists>m. success_message (on_account (\<lambda>acc. acc\<lparr>acc_tos := accept\<rparr>) (sv_login sv)) = Inr m" by (rule success_message_faults) (simp add: cid)
    then show ?thesis using Tos by (auto simp: handle_tos_def Let_def)
  next
    case (Gender g)
    have "\<exists>m. success_message (on_account (\<lambda>acc. acc\<lparr>acc_gender := g\<rparr>) (sv_login sv)) = Inr m" by (rule success_message_faults) (simp add: cid)
    then show ?thesis using Gender mem wr [OF new(2)] by (auto simp: gender_handler_create_def start_handler_def Let_def)
  next
    case (Check_name n)
    then show ?thesis using f mem wr [OF new(4), of "\<lparr>nh_task = new_task, nh_name = n\<rparr>"]
      by (auto simp: name_check_handler_create_def start_handler_def)
  next
    case (Create_character c)
    then show ?thesis using f mem wr [OF new(5)] by (simp add: create_character_handler_create_def start_handler_def)
  next
    case (Register_pic c pic)
    then show ?thesis using f mem by (auto simp: register_pic_handler_create_def register_pic_handler_handle_def enter_channel_def)
  next
    case (Verify_pic c pic)
    then show ?thesis using f mem by (auto simp: verify_pic_handler_create_def verify_pic_handler_handle_def enter_channel_def Let_def)
  qed simp_all
qed


text \<open>The account 7 at the address 5, whose client sends a packet that is too short.\<close>

definition sample_logged_in :: server_state where
  "sample_logged_in =
     (let acs = \<lparr>ac_heap = [5 \<mapsto> \<lparr>an_prev = None, an_next = None, an_id = 7, an_cid = 0\<rparr>], ac_HEAD = Some 5\<rparr>;
          st = (sample_state [])\<lparr>ls_accounts := acs, ls_client := fresh_client\<lparr>lc_node := Some 5\<rparr>\<rparr>
      in \<lparr>sv_login = st, sv_handler = No_handler, sv_event = None, sv_conn = [], sv_sent = []\<rparr>)"

definition sample_env :: login_env where
  "sample_env = \<lparr>le_argon = (\<lambda>pass salt. pass), le_mem = True, le_alloc = sample_alloc, le_equips = (\<lambda>_. None), le_channel_fd = - 1,
     le_channel_addr = (\<lambda>_ _. (0, 0))\<rparr>"


text \<open>A client with a wrong PIC gets nowhere: nothing is sent to it or to a channel, and it waits for nothing.\<close>

theorem wrong_pic_has_no_effect:
  assumes "le_mem env" "length pic \<le> 16"
    and "strncpy pic \<noteq> take (unat (acc_picLength (lc_account (ls_client (sv_login sv))))) (acc_pic (lc_account (ls_client (sv_login sv))))"
  shows "handle_request env lock (Verify_pic cid pic) sv = Inr (0, sv\<lparr>sv_handler := No_handler\<rparr>)"
  using assms by (auto simp: verify_pic_handler_create_def verify_pic_handler_handle_def login_session_write_def Let_def)

text \<open>But it may register a new one over it, whatever it was.\<close>

theorem pic_can_be_replaced:
  assumes "le_mem env" "length pic \<le> 16"
  shows "\<exists>sv'. handle_request env lock (Register_pic cid pic) sv = Inr (0, sv') \<and>
    (let acc = lc_account (ls_client (sv_login sv')) in acc_picLength acc = of_nat (length pic) \<and> take (length pic) (acc_pic acc) = pic)"
  using assms
  by (auto simp: register_pic_handler_create_def register_pic_handler_handle_def enter_channel_def session_set_event_def on_account_def on_client_def Let_def)

text \<open>A client that is not logged in and accepts the terms of service makes the server follow a null pointer.\<close>

theorem unauthenticated_tos_crashes:
  assumes "lc_node (ls_client (sv_login sv)) = None"
  shows "on_client_packet env lock [7, 0, 1] sv = Inl Null_node"
proof -
  have "parse_packet 7 [1] = Some (Tos True)" by code_simp
  then show ?thesis using assms
    by (simp add: on_client_packet_def handle_tos_def success_message_def client_id_def on_account_def on_client_def Let_def)
qed

end
