(* ===== verification/Login_Sessions.thy ===== *)
theory Login_Sessions
  imports Login_Server
begin

text \<open>
  The sessions of the login server (\<^verbatim>\<open>src/src/login/server.c\<close>): how packets, events a client waits for, lost
  connections and the end of the server drive the callbacks of \<open>Login_Server\<close>. A session is put together
  with its client. \<open>se_reading\<close> tells whether the session reads from its connection
  (\<open>EV_READ\<close> of the buffer event, which libevent itself disables when the connection has ended), and
  \<open>se_alive\<close> whether the session still exists.
\<close>

subsection \<open>Operations\<close>

datatype session_state = SESSION_STATE_CONNECTING | SESSION_STATE_CONNECTED | SESSION_STATE_DISCONNECTING | SESSION_STATE_KICKING

record login_session =
  se_state :: session_state
  se_reading :: bool
  se_client :: server_state
  se_alive :: bool

text \<open>\<open>ok\<close>: the filter could be created. Without it the session reads nothing.\<close>

definition finalize_session_connect :: "bool \<Rightarrow> login_session \<Rightarrow> int \<times> login_session" where
  "finalize_session_connect ok se =
     (let se = se\<lparr>se_state := SESSION_STATE_CONNECTED\<rparr> in if ok then (0, se\<lparr>se_reading := True\<rparr>) else (- 1, se))"

text \<open>The client is created, \<open>on_client_connect\<close> accepts it at once, and the result of
  \<open>finalize_session_connect\<close> is not looked at. The state was not initialised.\<close>

definition session_connect :: "session_state \<Rightarrow> bool \<Rightarrow> login_state \<Rightarrow> login_session" where
  "session_connect uninit ok st =
     snd (finalize_session_connect ok \<lparr>se_state = uninit, se_reading = False, se_client = on_client_create st, se_alive = True\<rparr>)"

text \<open>\<open>onClientDisconnect\<close>, after which the session is destroyed unless there is something to wait for.\<close>

definition disconnect_session :: "login_env \<Rightarrow> int \<Rightarrow> login_session \<Rightarrow> lerror + bool \<times> login_session" where
  "disconnect_session env lock se =
     (case on_client_disconnect env lock (se_client se) of
        Inl err \<Rightarrow> Inl err
      | Inr sv \<Rightarrow>
          if sv_event sv = None then Inr (True, se\<lparr>se_client := sv, se_alive := False\<rparr>)
          else Inr (False, se\<lparr>se_client := sv, se_state := SESSION_STATE_DISCONNECTING\<rparr>))"

definition kick_session :: "login_env \<Rightarrow> int \<Rightarrow> login_session \<Rightarrow> lerror + bool \<times> login_session" where
  "kick_session env lock se = disconnect_session env lock se"

text \<open>\<open>onResume\<close>; \<open>status\<close> is the number that can be read from the descriptor of a channel.\<close>

definition on_resume :: "login_env \<Rightarrow> int \<Rightarrow> resume \<Rightarrow> server_state \<Rightarrow> lerror + int \<times> server_state" where
  "on_resume env status r sv =
     (case r of
        On_resume_packet \<Rightarrow> on_resume_client_packet env status sv
      | On_lock_ready \<Rightarrow> on_database_lock_ready env sv
      | On_resume_disconnect \<Rightarrow> on_resume_client_disconnect env sv
      | On_lock_ready_disconnect \<Rightarrow> on_database_lock_ready_disconnect env sv)"

definition fired :: "server_state \<Rightarrow> server_state" where
  "fired sv = sv\<lparr>sv_event := map_option (\<lambda>e. e\<lparr>ue_pending := False\<rparr>) (sv_event sv)\<rparr>"

definition on_user_fd_ready :: "login_env \<Rightarrow> int \<Rightarrow> int \<Rightarrow> bool \<Rightarrow> login_session \<Rightarrow> lerror + login_session" where
  "on_user_fd_ready env lock status ok se =
     (case sv_event (se_client se) of
        None \<Rightarrow> Inl Null_handler
      | Some e \<Rightarrow>
          (case on_resume env status (ue_resume e) (fired (se_client se)) of
             Inl err \<Rightarrow> Inl err
           | Inr (status, sv) \<Rightarrow>
               if status > 0 then Inr (se\<lparr>se_client := sv\<rparr>)
               else let se = se\<lparr>se_client := sv\<lparr>sv_event := None\<rparr>\<rparr>
                    in if status < 0 then map_sum id snd (kick_session env lock se)
                       else case se_state se of
                              SESSION_STATE_CONNECTING \<Rightarrow>
                                (case finalize_session_connect ok se of
                                   (r, se) \<Rightarrow> if r = - 1 then map_sum id snd (kick_session env lock se) else Inr (se\<lparr>se_reading := True\<rparr>))
                            | SESSION_STATE_KICKING \<Rightarrow> map_sum id snd (kick_session env lock se)
                            | SESSION_STATE_DISCONNECTING \<Rightarrow> Inr (se\<lparr>se_alive := False\<rparr>)
                            | SESSION_STATE_CONNECTED \<Rightarrow> Inr (se\<lparr>se_reading := True\<rparr>)))"

text \<open>\<open>lock\<close> is for the packet, \<open>lock'\<close> for the logout if the client is kicked.\<close>

definition on_session_read :: "login_env \<Rightarrow> int \<Rightarrow> int \<Rightarrow> bytes \<Rightarrow> login_session \<Rightarrow> lerror + login_session" where
  "on_session_read env lock lock' pkt se =
     (case on_client_packet env lock pkt (se_client se) of
        Inl err \<Rightarrow> Inl err
      | Inr (status, sv) \<Rightarrow>
          let se = se\<lparr>se_client := sv\<rparr>
          in if status = 0 \<and> sv_event sv \<noteq> None then Inr (se\<lparr>se_reading := False\<rparr>)
             else if status < 0 then map_sum id snd (kick_session env lock' se)
             else Inr se)"

text \<open>The connection has ended or cannot be read.\<close>

definition on_session_event :: "login_env \<Rightarrow> int \<Rightarrow> login_session \<Rightarrow> lerror + login_session" where
  "on_session_event env lock se = map_sum id snd (disconnect_session env lock (se\<lparr>se_reading := False\<rparr>))"

text \<open>The server stops: what \<open>on_session_thread_assign\<close> does with each session.\<close>

definition stop_session :: "login_env \<Rightarrow> int \<Rightarrow> login_session \<Rightarrow> lerror + login_session" where
  "stop_session env lock se =
     (if se_state se = SESSION_STATE_DISCONNECTING then Inr se
      else if sv_event (se_client se) = None then map_sum id snd (kick_session env lock se)
      else Inr (se\<lparr>se_state := SESSION_STATE_KICKING\<rparr>))"

subsection \<open>The lock of the connection\<close>

text \<open>What a client has of the connection to the database, after what it did with the lock: it must not
  ask for the connection twice, and not give back what it has not got.\<close>

datatype lock_state = Free | Queued | Got | Misused

fun lock_step :: "lock_state \<Rightarrow> conn_event \<Rightarrow> lock_state" where
  "lock_step Free (Lock_returned r) = (if r = - 2 then Got else if r = - 1 then Free else Queued)"
| "lock_step Queued Lock_ready = Got"
| "lock_step Got Unlocked = Free"
| "lock_step _ _ = Misused"

definition lock_status :: "server_state \<Rightarrow> lock_state" where
  "lock_status sv = foldl lock_step Free (sv_conn sv)"

text \<open>
  A session as it runs. A packet or the end of the connection comes only while the session reads, and
  not once it is being disconnected; an event comes while it is pending. In between, other clients and the
  database do what they do.
\<close>

inductive session_run :: "login_env \<Rightarrow> login_session \<Rightarrow> bool" for env where
  connect: "session_run env (session_connect s ok st)"
| packet: "session_run env se \<Longrightarrow> se_alive se \<Longrightarrow> se_reading se \<Longrightarrow> se_state se \<noteq> SESSION_STATE_DISCONNECTING \<Longrightarrow>
    on_session_read env lock lock' pkt se = Inr se' \<Longrightarrow> session_run env se'"
| event: "session_run env se \<Longrightarrow> se_alive se \<Longrightarrow> sv_event (se_client se) = Some e \<Longrightarrow> ue_pending e \<Longrightarrow>
    on_user_fd_ready env lock status ok se = Inr se' \<Longrightarrow> session_run env se'"
| eof: "session_run env se \<Longrightarrow> se_alive se \<Longrightarrow> se_reading se \<Longrightarrow> se_state se \<noteq> SESSION_STATE_DISCONNECTING \<Longrightarrow>
    on_session_event env lock se = Inr se' \<Longrightarrow> session_run env se'"
| stop: "session_run env se \<Longrightarrow> se_alive se \<Longrightarrow> stop_session env lock se = Inr se' \<Longrightarrow> session_run env se'"
| others: "session_run env se \<Longrightarrow>
    session_run env (se\<lparr>se_client := (se_client se)\<lparr>sv_login := (sv_login (se_client se))\<lparr>ls_accounts := acs, ls_replies := rs, ls_random := rnd\<rparr>\<rparr>\<rparr>)"

text \<open>What a client that waits has of the connection.\<close>

fun is_pic :: "pending \<Rightarrow> bool" where
  "is_pic (PACKET_TYPE_REGISTER_PIC _) = True"
| "is_pic (PACKET_TYPE_VERIFY_PIC _) = True"
| "is_pic _ = False"

definition expected :: "resume \<Rightarrow> pending \<Rightarrow> lock_state" where
  "expected r h =
     (case r of
        On_resume_packet \<Rightarrow> if is_pic h then Free else Got
      | On_lock_ready \<Rightarrow> if is_pic h then Misused else Queued
      | On_resume_disconnect \<Rightarrow> Got
      | On_lock_ready_disconnect \<Rightarrow> Queued)"

definition leaving :: "resume \<Rightarrow> bool" where
  "leaving r \<longleftrightarrow> r \<in> {On_resume_disconnect, On_lock_ready_disconnect}"

text \<open>The lock is used properly, and the client does not leave unless \<open>d\<close>, and then it does.\<close>

definition settled :: "bool \<Rightarrow> server_state \<Rightarrow> bool" where
  "settled d sv \<longleftrightarrow>
     lock_status sv \<noteq> Misused \<and>
     (case sv_event sv of
        None \<Rightarrow> lock_status sv = Free
      | Some e \<Rightarrow> lock_status sv = expected (ue_resume e) (sv_handler sv) \<and> (leaving (ue_resume e) \<longleftrightarrow> d))"

lemma lock_status_on_conn [simp]: "lock_status (on_conn e sv) = lock_step (lock_status sv) e"
  by (simp add: lock_status_def on_conn_def)

lemma lock_status_cong: "sv_conn sv' = sv_conn sv \<Longrightarrow> lock_status sv' = lock_status sv"
  by (simp add: lock_status_def)

lemma lock_status_update [simp]:
  "lock_status (sv\<lparr>sv_login := st\<rparr>) = lock_status sv" "lock_status (sv\<lparr>sv_handler := h\<rparr>) = lock_status sv"
  "lock_status (sv\<lparr>sv_event := e\<rparr>) = lock_status sv" "lock_status (sv\<lparr>sv_sent := ms\<rparr>) = lock_status sv"
  "lock_status (session_set_event status r sv) = lock_status sv" "lock_status (login_session_write m sv) = lock_status sv"
  by (simp_all add: lock_status_def session_set_event_def login_session_write_def Let_def split: option.split)

lemma set_event_fields [simp]:
  "sv_handler (session_set_event status r sv) = sv_handler sv"
  "\<exists>e. sv_event (session_set_event status r sv) = Some e"
  "sv_event (login_session_write m sv) = sv_event sv" "sv_handler (login_session_write m sv) = sv_handler sv"
  "sv_event (on_conn c sv) = sv_event sv" "sv_handler (on_conn c sv) = sv_handler sv" "sv_login (on_conn c sv) = sv_login sv"
  by (simp_all add: session_set_event_def login_session_write_def on_conn_def Let_def split: option.split)

lemma settled_set_event:
  "settled d (session_set_event status r sv) \<longleftrightarrow> lock_status sv \<noteq> Misused \<and> lock_status sv = expected r (sv_handler sv) \<and> (leaving r \<longleftrightarrow> d)"
  by (simp add: settled_def session_set_event_def Let_def)

lemma settled_free: "sv_event sv = None \<Longrightarrow> settled d sv \<longleftrightarrow> lock_status sv = Free"
  by (auto simp: settled_def)

lemma handle_pending_kind: "handle_pending env h st = Inr (r, h', st') \<Longrightarrow> \<not> is_pic h'"
  by (cases h) (auto simp: map_sum_def split: sum.splits prod.splits)

text \<open>A handler that was started: it waits with the connection, or it has given it back.\<close>

lemma after_handle_start:
  assumes "after_handle session_set_event ret sv (r, h, st) = (status, sv')" "lock_status sv = Got" "\<not> is_pic h" "sv_event sv = None" "ret = 0"
  shows "settled False sv' \<and> status \<le> 0 \<and> (status < 0 \<longrightarrow> sv_event sv' = None)"
  using assms
  by (auto simp: after_handle_def Let_def settled_set_event expected_def leaving_def settled_free split: prod.splits if_splits)

lemma lock_and_write_settled:
  assumes "lock_and_write env lock sv = Inr (status, sv')" "sv_event sv = None" "lock_status sv = Free" "\<not> is_pic (sv_handler sv)"
  shows "settled False sv' \<and> status \<le> 0 \<and> (status < 0 \<longrightarrow> sv_event sv' = None)"
proof -
  let ?sv = "on_conn (Lock_returned lock) sv"
  consider "lock = - 2" | "lock = - 1" | "lock \<noteq> - 1" "lock \<noteq> - 2" by blast
  then show ?thesis
  proof cases
    case 1
    then obtain r h st where h: "handle_pending env (sv_handler sv) (sv_login sv) = Inr (r, h, st)"
      "after_handle session_set_event 0 ?sv (r, h, st) = (status, sv')"
      using assms(1) by (auto simp: lock_and_write_def Let_def map_sum_def split: sum.splits)
    show ?thesis by (rule after_handle_start [OF h(2) _ handle_pending_kind [OF h(1)]]) (use 1 assms in simp_all)
  qed (use assms in \<open>auto simp: lock_and_write_def Let_def settled_set_event expected_def leaving_def settled_free\<close>)
qed

lemma start_handler_settled:
  assumes "start_handler env lock f r sv = Inr (status, sv')" "sv_event sv = None" "lock_status sv = Free" "\<And>h. \<not> is_pic (f h)"
  shows "settled False sv' \<and> status \<le> 0 \<and> (status < 0 \<longrightarrow> sv_event sv' = None)"
  using assms lock_and_write_settled [of env lock _ status sv']
  by (auto simp: start_handler_def split: sum.splits option.splits)

lemma request_settled:
  assumes "handle_request env lock req sv = Inr (status, sv')" "sv_event sv = None" "lock_status sv = Free"
  shows "settled False sv' \<and> status \<le> 0 \<and> (status < 0 \<longrightarrow> sv_event sv' = None)"
proof (cases req)
  case (Select_world w c)
  then show ?thesis using assms start_handler_settled [of env lock PACKET_TYPE_CHARACTER_LIST] by (simp split: prod.splits)
next
  case (Gender g)
  then show ?thesis using assms start_handler_settled [of env lock PACKET_TYPE_GENDER]
    by (auto simp: send_handled_def settled_free split: sum.splits if_splits)
next
  case (Check_name n)
  then obtain r where "start_handler env lock PACKET_TYPE_NAME_CHECK (name_check_handler_create (le_mem env) n) sv = Inr (r, sv')" "status = 0"
    using assms(1) by (auto simp: map_sum_def split: sum.splits)
  then show ?thesis using start_handler_settled [of env lock PACKET_TYPE_NAME_CHECK _ sv r sv'] assms by simp
next
  case (Register_pic cid pic)
  then show ?thesis using assms
    by (auto simp: map_sum_def settled_set_event settled_free expected_def leaving_def split: sum.splits option.splits)
next
  case (Verify_pic cid pic)
  then show ?thesis using assms
    by (auto simp: map_sum_def settled_set_event settled_free expected_def leaving_def split: sum.splits option.splits if_splits)
next
  case (Tos accept)
  then show ?thesis using assms by (auto simp: map_sum_def send_handled_def settled_free split: sum.splits prod.splits if_splits)
next
  case (Login n pw hw)
  then show ?thesis using assms start_handler_settled [of env lock PACKET_TYPE_LOGIN] by simp
next
  case (Create_character c)
  then show ?thesis using assms start_handler_settled [of env lock PACKET_TYPE_CREATE_CHARACTER] by simp
qed (use assms in \<open>auto simp: send_handled_def settled_free split: prod.splits if_splits\<close>)

lemma packet_settled:
  assumes "on_client_packet env lock pkt sv = Inr (status, sv')" "sv_event sv = None" "lock_status sv = Free"
  shows "settled False sv' \<and> status \<le> 0 \<and> (status < 0 \<longrightarrow> sv_event sv' = None)"
  using assms request_settled [of env lock _ sv status sv'] by (auto simp: on_client_packet_def settled_free split: if_splits option.splits)

lemma logout_start_settled:
  assumes "handle_logout session_set_event 0 False env sv = Inr (status, sv')" "lock_status sv = Got" "sv_event sv = None"
  shows "settled True sv'"
  using assms
  by (auto simp: handle_logout_def after_logout_def map_sum_def settled_set_event settled_free expected_def leaving_def
      split: pending.splits sum.splits if_splits)

lemma disconnect_settled:
  assumes "on_client_disconnect env lock sv = Inr sv'" "sv_event sv = None" "lock_status sv = Free"
  shows "settled True sv'"
proof (cases "lock = - 2 \<and> lc_node (ls_client (sv_login sv)) \<noteq> None")
  case True
  let ?sv = "on_conn (Lock_returned lock) (sv\<lparr>sv_handler := (if le_mem env then Logging_out new_task else No_handler)\<rparr>)"
  obtain status where "handle_logout session_set_event 0 False env ?sv = Inr (status, sv')"
    using assms(1) True by (auto simp: on_client_disconnect_def Let_def map_sum_def split: sum.splits)
  then show ?thesis by (rule logout_start_settled) (use True assms in simp_all)
next
  case False
  then show ?thesis using assms
    by (auto simp: on_client_disconnect_def Let_def settled_set_event settled_free expected_def leaving_def split: if_splits)
qed

text \<open>Going on: the client waits on as before, or it has nothing of the connection any more.\<close>

definition goes_on :: "bool \<Rightarrow> int \<times> server_state \<Rightarrow> bool" where
  "goes_on d r \<longleftrightarrow> (if fst r > 0 then settled d (snd r) \<and> sv_event (snd r) \<noteq> None else lock_status (snd r) = Free)"

lemma logout_ready_goes_on:
  assumes "handle_logout session_set_event 1 True env sv = Inr r" "lock_status sv = Got"
  shows "goes_on True r"
  using assms
  by (auto simp: handle_logout_def after_logout_def map_sum_def goes_on_def settled_set_event expected_def leaving_def
      split: pending.splits sum.splits if_splits)

lemma keep_event:
  assumes "sv_event sv = Some e" "ue_resume e = r" "lock_status sv = expected r (sv_handler sv)" "lock_status sv \<noteq> Misused"
  shows "settled (leaving r) (set_event_if_changed status r sv) \<and> sv_event (set_event_if_changed status r sv) \<noteq> None"
  using assms by (auto simp: set_event_if_changed_def settled_set_event settled_def session_set_event_def Let_def)

lemma logout_resume_goes_on:
  assumes "handle_logout set_event_if_changed 1 True env sv = Inr r" "lock_status sv = Got"
    and e: "sv_event sv = Some e" "ue_resume e = On_resume_disconnect"
  shows "goes_on True r"
proof -
  obtain tk status tk' st where r: "r = after_logout set_event_if_changed 1 True sv (status, tk', st)"
    using assms(1) by (auto simp: handle_logout_def map_sum_def split: pending.splits sum.splits)
  have "settled True (set_event_if_changed status On_resume_disconnect (sv\<lparr>sv_login := st, sv_handler := Logging_out tk'\<rparr>)) \<and>
      sv_event (set_event_if_changed status On_resume_disconnect (sv\<lparr>sv_login := st, sv_handler := Logging_out tk'\<rparr>)) \<noteq> None"
    using keep_event [of "sv\<lparr>sv_login := st, sv_handler := Logging_out tk'\<rparr>" e On_resume_disconnect status] assms(2) e
    by (simp add: expected_def leaving_def)
  then show ?thesis using r assms(2) by (auto simp: after_logout_def goes_on_def)
qed

lemma handle_ready_goes_on:
  assumes "map_sum id (after_handle session_set_event 1 sv) (handle_pending env h st) = Inr r" "lock_status sv = Got"
  shows "goes_on False r"
proof -
  obtain x h' st' where h: "handle_pending env h st = Inr (x, h', st')" "r = after_handle session_set_event 1 sv (x, h', st')"
    using assms(1) by (auto simp: map_sum_def split: sum.splits)
  then show ?thesis using handle_pending_kind [OF h(1)] assms(2)
    by (cases x) (auto simp: after_handle_def Let_def goes_on_def settled_set_event expected_def leaving_def)
qed

lemma handle_resume_goes_on:
  assumes "map_sum id (after_handle set_event_if_changed 1 sv) (handle_pending env h st) = Inr r" "lock_status sv = Got"
    and e: "sv_event sv = Some e" "ue_resume e = On_resume_packet"
  shows "goes_on False r"
proof -
  obtain status m h' st' where h: "handle_pending env h st = Inr ((status, m), h', st')"
    "r = after_handle set_event_if_changed 1 sv ((status, m), h', st')"
    using assms(1) by (auto simp: map_sum_def split: sum.splits)
  have "settled False (set_event_if_changed status On_resume_packet (sv\<lparr>sv_login := st', sv_handler := h'\<rparr>)) \<and>
      sv_event (set_event_if_changed status On_resume_packet (sv\<lparr>sv_login := st', sv_handler := h'\<rparr>)) \<noteq> None"
    using keep_event [of "sv\<lparr>sv_login := st', sv_handler := h'\<rparr>" e On_resume_packet status] handle_pending_kind [OF h(1)] assms(2) e
    by (simp add: expected_def leaving_def)
  then show ?thesis using h assms(2) by (auto simp: after_handle_def Let_def goes_on_def)
qed

lemma fired_fields [simp]:
  "lock_status (fired sv) = lock_status sv" "sv_handler (fired sv) = sv_handler sv" "sv_login (fired sv) = sv_login sv"
  "sv_event (fired sv) = map_option (\<lambda>e. e\<lparr>ue_pending := False\<rparr>) (sv_event sv)"
  by (simp_all add: fired_def)

lemma resume_pic_free:
  assumes "resume_pic f env status h sv = Inr r" "lock_status sv = Free"
  shows "goes_on d r"
  using assms by (auto simp: resume_pic_def map_sum_def goes_on_def split: sum.splits)

lemma resume_goes_on:
  assumes "on_resume env status (ue_resume e) (fired sv) = Inr r" "sv_event sv = Some e" "settled d sv"
  shows "goes_on d r"
proof -
  have l: "lock_status sv = expected (ue_resume e) (sv_handler sv)" "leaving (ue_resume e) \<longleftrightarrow> d" "lock_status sv \<noteq> Misused"
    using assms(2,3) by (auto simp: settled_def)
  have f: "sv_event (fired sv) = Some (e\<lparr>ue_pending := False\<rparr>)" using assms(2) by simp
  show ?thesis
  proof (cases "ue_resume e")
    case On_resume_packet
    show ?thesis
    proof (cases "is_pic (sv_handler sv)")
      case True
      then have "lock_status sv = Free" using l(1) On_resume_packet by (simp add: expected_def)
      with True show ?thesis using assms(1) On_resume_packet resume_pic_free [of _ env status _ "fired sv" r]
        by (cases "sv_handler sv") (auto simp: on_resume_def on_resume_client_packet_def)
    next
      case False
      then have "map_sum id (after_handle set_event_if_changed 1 (fired sv)) (handle_pending env (sv_handler sv) (sv_login sv)) = Inr r"
        using assms(1) On_resume_packet by (cases "sv_handler sv") (simp_all add: on_resume_def on_resume_client_packet_def)
      then have "goes_on False r"
        by (rule handle_resume_goes_on [OF _ _ f]) (use l False On_resume_packet in \<open>simp_all add: expected_def\<close>)
      then show ?thesis using l(2) On_resume_packet by (simp add: leaving_def)
    qed
  next
    case On_lock_ready
    then have "\<not> is_pic (sv_handler sv)" "lock_status sv = Queued" using l(1,3) by (auto simp: expected_def split: if_splits)
    then have "map_sum id (after_handle session_set_event 1 (on_conn Lock_ready (fired sv))) (handle_pending env (sv_handler sv) (sv_login sv)) = Inr r"
      "lock_status (on_conn Lock_ready (fired sv)) = Got"
      using assms(1) On_lock_ready by (cases "sv_handler sv"; simp add: on_resume_def on_database_lock_ready_def Let_def)+
    then have "goes_on False r" by (rule handle_ready_goes_on)
    then show ?thesis using l(2) On_lock_ready by (simp add: leaving_def)
  next
    case On_resume_disconnect
    then have "goes_on True r" using assms(1) l f
      by (intro logout_resume_goes_on [of env "fired sv" r "e\<lparr>ue_pending := False\<rparr>"]) (simp_all add: on_resume_def on_resume_client_disconnect_def expected_def)
    then show ?thesis using l(2) On_resume_disconnect by (simp add: leaving_def)
  next
    case On_lock_ready_disconnect
    then have "goes_on True r" using assms(1) l
      by (intro logout_ready_goes_on [of env "on_conn Lock_ready (fired sv)" r])
        (simp_all add: on_resume_def on_database_lock_ready_disconnect_def expected_def)
    then show ?thesis using l(2) On_lock_ready_disconnect by (simp add: leaving_def)
  qed
qed

subsection \<open>The lock is used properly\<close>

definition session_inv :: "login_session \<Rightarrow> bool" where
  "session_inv se \<longleftrightarrow>
     settled (se_state se = SESSION_STATE_DISCONNECTING) (se_client se) \<and>
     (\<not> se_alive se \<longrightarrow> sv_event (se_client se) = None) \<and>
     (se_alive se \<and> se_reading se \<and> se_state se \<noteq> SESSION_STATE_DISCONNECTING \<longrightarrow> sv_event (se_client se) = None)"

lemma kick_inv:
  assumes "disconnect_session env lock se = Inr (b, se')" "sv_event (se_client se) = None" "lock_status (se_client se) = Free" "se_alive se"
  shows "session_inv se'"
proof -
  obtain sv where sv: "on_client_disconnect env lock (se_client se) = Inr sv" using assms(1) by (auto simp: disconnect_session_def split: sum.splits)
  from disconnect_settled [OF this assms(2,3)] have s: "settled True sv" .
  show ?thesis
  proof (cases "sv_event sv")
    case None
    then show ?thesis using assms(1) sv s by (auto simp: disconnect_session_def session_inv_def settled_free)
  next
    case (Some e)
    then show ?thesis using assms(1,4) sv s by (auto simp: disconnect_session_def session_inv_def)
  qed
qed

lemma kicked_inv:
  assumes "map_sum id snd (disconnect_session env lock se) = Inr se'" "sv_event (se_client se) = None" "lock_status (se_client se) = Free" "se_alive se"
  shows "session_inv se'"
proof (cases "disconnect_session env lock se")
  case (Inr y)
  with assms(1) have "disconnect_session env lock se = Inr (fst y, se')" by (cases y) simp
  then show ?thesis by (rule kick_inv [OF _ assms(2-4)])
qed (use assms(1) in simp)

lemma read_inv:
  assumes "on_session_read env lock lock' pkt se = Inr se'" "session_inv se" "se_alive se" "se_reading se" "se_state se \<noteq> SESSION_STATE_DISCONNECTING"
  shows "session_inv se'"
proof -
  obtain status sv where p: "on_client_packet env lock pkt (se_client se) = Inr (status, sv)"
    using assms(1) by (auto simp: on_session_read_def split: sum.splits)
  have e: "sv_event (se_client se) = None" using assms(2-5) by (simp add: session_inv_def)
  then have "lock_status (se_client se) = Free" using assms(2) by (simp add: session_inv_def settled_free)
  from packet_settled [OF p e this] have s: "settled False sv" "status \<le> 0" "status < 0 \<longrightarrow> sv_event sv = None" by simp_all
  show ?thesis
  proof (cases "status < 0")
    case True
    then have "map_sum id snd (disconnect_session env lock' (se\<lparr>se_client := sv\<rparr>)) = Inr se'"
      using assms(1) p by (simp add: on_session_read_def kick_session_def)
    then show ?thesis by (rule kicked_inv) (use s True settled_free assms(3) in simp_all)
  next
    case False
    then show ?thesis using assms s p by (auto simp: on_session_read_def session_inv_def Let_def split: if_splits)
  qed
qed

lemma event_inv:
  assumes "on_user_fd_ready env lock status ok se = Inr se'" "session_inv se" "sv_event (se_client se) = Some e" "se_alive se"
  shows "session_inv se'"
proof -
  obtain r sv where p: "on_resume env status (ue_resume e) (fired (se_client se)) = Inr (r, sv)"
    using assms(1,3) by (auto simp: on_user_fd_ready_def split: sum.splits)
  let ?d = "se_state se = SESSION_STATE_DISCONNECTING"
  have g: "goes_on ?d (r, sv)" by (rule resume_goes_on [OF p assms(3)]) (use assms(2) in \<open>simp add: session_inv_def\<close>)
  show ?thesis
  proof (cases "r > 0")
    case True
    then show ?thesis using assms g p by (auto simp: on_user_fd_ready_def goes_on_def session_inv_def)
  next
    case False
    then have f: "lock_status (sv\<lparr>sv_event := None\<rparr>) = Free" using g by (simp add: goes_on_def)
    let ?se = "se\<lparr>se_client := sv\<lparr>sv_event := None\<rparr>\<rparr>"
    have k: "session_inv se'" if "map_sum id snd (disconnect_session env lock x) = Inr se'" "se_client x = se_client ?se" "se_alive x" for x
      by (rule kicked_inv [OF that(1)]) (use that(2,3) f in simp_all)
    have i: "session_inv x" if "se_client x = se_client ?se" for x using that f by (simp add: session_inv_def settled_free)
    show ?thesis using assms(1,3,4) False p k [of ?se] k [of "?se\<lparr>se_state := SESSION_STATE_CONNECTED\<rparr>"]
        i [of "?se\<lparr>se_alive := False\<rparr>"] i [of "?se\<lparr>se_reading := True\<rparr>"] i [of "?se\<lparr>se_state := SESSION_STATE_CONNECTED, se_reading := True\<rparr>"]
      by (auto simp: on_user_fd_ready_def kick_session_def finalize_session_connect_def Let_def split: if_splits session_state.splits)
  qed
qed

lemma session_run_inv: "session_run env se \<Longrightarrow> session_inv se"
proof (induction rule: session_run.induct)
  case (connect s ok st)
  have "lock_status (on_client_create st) = Free" "sv_event (on_client_create st) = None" by (simp_all add: lock_status_def on_client_create_def)
  then show ?case by (simp add: session_connect_def finalize_session_connect_def session_inv_def settled_free Let_def)
next
  case (packet se lock lock' pkt se')
  then show ?case using read_inv by blast
next
  case (event se e lock status ok se')
  then show ?case using event_inv by blast
next
  case (eof se lock se')
  then have "sv_event (se_client se) = None" by (simp add: session_inv_def)
  then show ?case using eof kicked_inv [of env lock "se\<lparr>se_reading := False\<rparr>" se'] by (simp add: on_session_event_def session_inv_def settled_free)
next
  case (stop se lock se')
  show ?case
  proof (cases "se_state se = SESSION_STATE_DISCONNECTING \<or> sv_event (se_client se) = None")
    case True
    then show ?thesis using stop kicked_inv [of env lock se se']
      by (auto simp: stop_session_def kick_session_def session_inv_def settled_free split: if_splits)
  next
    case False
    then show ?thesis using stop by (auto simp: stop_session_def session_inv_def)
  qed
next
  case (others se acs rs rnd)
  then show ?case by (auto simp: session_inv_def settled_def split: option.splits)
qed


text \<open>A client asks whether the name \<open>A\<close> is taken while the connection to the database is in use.\<close>

lemma name_check_parsed: "parse_packet 0x15 [1, 0, 65] = Some (Check_name [65])"
  by code_simp

definition waiting_session :: login_session where
  "waiting_session =
     (let h = PACKET_TYPE_NAME_CHECK \<lparr>nh_task = new_task, nh_name = [65]\<rparr>
      in (session_connect SESSION_STATE_CONNECTING True (sample_state []))
           \<lparr>se_reading := False,
            se_client := \<lparr>sv_login = sv_login (on_client_create (sample_state [])), sv_handler = h,
              sv_event = Some \<lparr>ue_events = EV_READ, ue_resume = On_lock_ready, ue_pending = True\<rparr>, sv_conn = [Lock_returned 7], sv_sent = []\<rparr>\<rparr>)"

lemma waiting_session_run: "session_run sample_env waiting_session"
proof (rule session_run.packet [OF session_run.connect [of _ SESSION_STATE_CONNECTING True "sample_state []"], of _ 7 0 "[0x15, 0, 1, 0, 65]"])
  show "on_session_read sample_env 7 0 [0x15, 0, 1, 0, 65] (session_connect SESSION_STATE_CONNECTING True (sample_state [])) = Inr waiting_session"
    by (simp add: on_session_read_def on_client_packet_def name_check_parsed start_handler_def name_check_handler_create_def lock_and_write_def
        sample_env_def session_connect_def finalize_session_connect_def on_client_create_def session_set_event_def on_conn_def waiting_session_def
        poll_to_libevent_def flag_defs Let_def)
qed (simp_all add: session_connect_def finalize_session_connect_def Let_def)


subsection \<open>What goes wrong\<close>

text \<open>
  A client that was kicked still reads. If it closes its connection while its logout waits for the
  database, the logout is started again: the client asks for the connection it already has, the event
  of the first logout is gone, and nobody gives the connection back.
\<close>

theorem kicked_client_blocks_connection:
  assumes "le_mem env" and "lc_node (ls_client (sv_login (se_client se))) = Some a" and "ac_heap (ls_accounts (sv_login (se_client se))) a = Some n"
    and "ls_replies (sv_login (se_client se)) = (POLLIN, res) # rs" and "se_reading se" and "sv_event (se_client se) = None"
    and "lock_status (se_client se) = Free" and "0 \<le> fd"
  shows "\<exists>se1 se2. on_session_read env lock (- 2) [0] se = Inr se1 \<and> se_reading se1 \<and> lock_status (se_client se1) = Got \<and>
    on_session_event env fd se1 = Inr se2 \<and> lock_status (se_client se2) = Misused \<and>
    map_option ue_resume (sv_event (se_client se2)) = Some On_lock_ready_disconnect"
  using assms
  by (simp add: on_session_read_def on_session_event_def on_client_packet_def kick_session_def disconnect_session_def on_client_disconnect_def
      handle_logout_def after_logout_def logout_handler_handle_def update_account_def client_id_def account_get_id_def new_task_def
      start_request_def started_def continue_request_def database_request_execute_def advance_task_def logout_waiting_def POLLIN_def
      session_set_event_def Let_def)

text \<open>A handler that waits until the database can be written to, and has to wait for that again, waits
  forever: the event is only set again if the flags have changed.\<close>

theorem waiting_to_write_twice_is_stuck:
  assumes "sv_event (se_client se) = Some \<lparr>ue_events = EV_WRITE, ue_resume = On_resume_packet, ue_pending = True\<rparr>"
    and "handle_pending env (sv_handler (se_client se)) (sv_login (se_client se)) = Inr ((POLLOUT, m), h, st)"
  shows "\<exists>se'. on_user_fd_ready env lock status ok se = Inr se' \<and> se_reading se' = se_reading se \<and>
    map_option ue_pending (sv_event (se_client se')) = Some False"
proof -
  let ?sv = "fired (se_client se)"
  have "\<not> is_pic (sv_handler (se_client se))" using assms(2) by (cases "sv_handler (se_client se)") auto
  then have "on_resume env status On_resume_packet ?sv = Inr (1, ?sv\<lparr>sv_login := st, sv_handler := h\<rparr>)"
    using assms
    by (cases "sv_handler (se_client se)") (simp_all add: on_resume_def on_resume_client_packet_def after_handle_def set_event_if_changed_def
        session_get_event_disposition_def libevent_to_poll_def flag_defs)
  then show ?thesis using assms(1) by (simp add: on_user_fd_ready_def)
qed

text \<open>A client whose character cannot be sent to a channel when it registers its PIC is never told: it waits
  for an event without flags.\<close>

theorem register_pic_without_channel_is_stuck:
  assumes "le_mem env" "le_channel_fd env = - 1" "length pic \<le> 16"
  shows "\<exists>sv'. handle_request env lock (Register_pic cid pic) sv = Inr (0, sv') \<and> sv_sent sv' = sv_sent sv \<and>
    map_option ue_pending (sv_event sv') = Some False"
  using assms
  by (simp add: register_pic_handler_create_def register_pic_handler_handle_def enter_channel_def session_set_event_def poll_to_libevent_def flag_defs)

end
