(* ===== verification/Session_List.thy ===== *)
theory Session_List
  imports Prelude
begin

text \<open>
  The array of sessions of a worker of the login server (\<^verbatim>\<open>src/src/login/server.c\<close>): it grows and shrinks
  with the number of sessions, a session that is freed is replaced by the last one, and the container of
  every session points back to its slot. A pointer to a slot is the address of the memory with the index.
  \<open>sl_room\<close> is the number of sessions the memory really has room for, \<open>sl_slots\<close> the containers of the sessions in
  use (\<open>None\<close>: not set yet), and \<open>sl_links\<close> what the containers point to. \<open>realloc\<close> delivers an address as an
  argument, \<open>None\<close> if there is no memory.
\<close>

record session_list =
  sl_base :: "nat option"
  sl_room :: nat
  sl_capacity :: nat
  sl_slots :: "nat option list"
  sl_links :: "nat \<rightharpoonup> nat \<times> nat"

datatype list_error = Null_sessions | Null_container | Out_of_memory_bounds

abbreviation sl_count :: "session_list \<Rightarrow> nat" where
  "sl_count l \<equiv> length (sl_slots l)"

definition session_list_init :: "nat option \<Rightarrow> session_list option" where
  "session_list_init new =
     (case new of None \<Rightarrow> None | Some b \<Rightarrow> Some \<lparr>sl_base = Some b, sl_room = 1, sl_capacity = 1, sl_slots = [], sl_links = Map.empty\<rparr>)"

text \<open>The loop that lets the containers point to the new memory.\<close>

fun relink :: "nat \<Rightarrow> nat \<Rightarrow> nat option list \<Rightarrow> (nat \<rightharpoonup> nat \<times> nat) \<Rightarrow> list_error + (nat \<rightharpoonup> nat \<times> nat)" where
  "relink b i [] m = Inr m"
| "relink b i (None # cs) m = Inl Null_container"
| "relink b i (Some c # cs) m = relink b (i + 1) cs (m(c \<mapsto> (b, i)))"

definition move_to :: "nat option \<Rightarrow> session_list \<Rightarrow> list_error + session_list" where
  "move_to new l =
     (if new = sl_base l then Inr l
      else case new of
             None \<Rightarrow> if sl_slots l = [] then Inr (l\<lparr>sl_base := None\<rparr>) else Inl Null_sessions
           | Some b \<Rightarrow> map_sum id (\<lambda>m. l\<lparr>sl_base := Some b, sl_links := m\<rparr>) (relink b 0 (sl_slots l) (sl_links l)))"

text \<open>The result is the index of the new session, \<open>None\<close> without memory.\<close>

definition session_list_allocate :: "nat option \<Rightarrow> session_list \<Rightarrow> list_error + session_list \<times> nat option" where
  "session_list_allocate new l =
     (let take_slot = (\<lambda>l. if sl_count l < sl_room l then Inr (l\<lparr>sl_slots := sl_slots l @ [None]\<rparr>, Some (sl_count l)) else Inl Out_of_memory_bounds)
      in if sl_count l = sl_capacity l
         then if new = None then Inr (l, None)
              else case move_to new l of
                     Inl err \<Rightarrow> Inl err
                   | Inr l \<Rightarrow> take_slot (l\<lparr>sl_room := sl_capacity l * 2, sl_capacity := sl_capacity l * 2\<rparr>)
         else take_slot l)"

definition session_list_get :: "nat \<Rightarrow> session_list \<Rightarrow> nat option option" where
  "session_list_get i l = (if i \<ge> sl_count l then None else Some (sl_slots l ! i))"

text \<open>The capacity is not reduced with the memory, and the result of \<open>realloc\<close> is not checked.\<close>

definition shrink :: "nat option \<Rightarrow> session_list \<Rightarrow> list_error + session_list" where
  "shrink new l = move_to new (l\<lparr>sl_room := (if new = None then 0 else sl_capacity l div 2)\<rparr>)"

definition session_list_free :: "nat option \<Rightarrow> nat \<Rightarrow> session_list \<Rightarrow> list_error + session_list" where
  "session_list_free new i l =
     (if i \<ge> sl_count l then Inl Out_of_memory_bounds
      else case sl_base l of
             None \<Rightarrow> Inl Null_sessions
           | Some b \<Rightarrow>
               let moved = last (sl_slots l); n = sl_count l - 1; l = l\<lparr>sl_slots := butlast ((sl_slots l)[i := moved])\<rparr>
               in if i \<noteq> n \<and> moved = None then Inl Null_container
                  else let l = (if i \<noteq> n then l\<lparr>sl_links := (sl_links l)(the moved \<mapsto> (b, i))\<rparr> else l)
                       in if n < sl_capacity l div 4 then shrink new l else Inr l)"

text \<open>
  A connection is taken over by \<open>on_session_thread_assign\<close>: \<open>init\<close> is whether \<open>init_session\<close> succeeds, \<open>c\<close> the
  container that \<open>onClientCreate\<close> delivers; if there is none, the slot is given back.
\<close>

definition session_assign :: "nat option \<Rightarrow> nat option \<Rightarrow> bool \<Rightarrow> nat option \<Rightarrow> session_list \<Rightarrow> list_error + session_list" where
  "session_assign new shrunk init c l =
     (case session_list_allocate new l of
        Inl err \<Rightarrow> Inl err
      | Inr (l, None) \<Rightarrow> Inr l
      | Inr (l, Some i) \<Rightarrow>
          if \<not> init \<or> c = None then session_list_free shrunk i l
          else case sl_base l of
                 None \<Rightarrow> Inl Null_sessions
               | Some b \<Rightarrow> Inr (l\<lparr>sl_slots := (sl_slots l)[i := c], sl_links := (sl_links l)(the c \<mapsto> (b, i))\<rparr>))"

subsection \<open>Every container points to its session\<close>

definition backlinked :: "session_list \<Rightarrow> bool" where
  "backlinked l \<longleftrightarrow>
     distinct (sl_slots l) \<and>
     (\<forall>i < sl_count l. \<exists>c b. sl_slots l ! i = Some c \<and> sl_base l = Some b \<and> sl_links l c = Some (b, i))"

lemma relink_spec:
  assumes "relink b i cs m = Inr m'" "distinct cs"
  shows "(\<forall>j < length cs. \<exists>c. cs ! j = Some c \<and> m' c = Some (b, i + j)) \<and> (\<forall>c. Some c \<notin> set cs \<longrightarrow> m' c = m c)"
  using assms
proof (induction b i cs m rule: relink.induct)
  case (3 b i c cs m)
  have "relink b (i + 1) cs (m(c \<mapsto> (b, i))) = Inr m'" using "3.prems"(1) by (simp only: relink.simps)
  note I = "3.IH" [OF this]
  have IH: "\<exists>d. cs ! j = Some d \<and> m' d = Some (b, i + 1 + j)" if "j < length cs" for j using I that "3.prems"(2) by simp
  have k: "m' d = (m(c \<mapsto> (b, i))) d" if "Some d \<notin> set cs" for d using I that "3.prems"(2) by simp
  have "m' c = Some (b, i)" using k [of c] "3.prems"(2) by simp
  then have "\<exists>d. (Some c # cs) ! j = Some d \<and> m' d = Some (b, i + j)" if "j < length (Some c # cs)" for j
    using that IH [of "j - 1"] by (cases j) auto
  then show ?case using k by auto
qed auto

text \<open>Moving the memory, which may be called for lists of which only the addresses are out of date.\<close>

lemma move_to_backlinked:
  assumes "move_to new l = Inr l'" "backlinked l"
  shows "backlinked l' \<and> sl_slots l' = sl_slots l \<and> sl_capacity l' = sl_capacity l \<and> (sl_slots l \<noteq> [] \<longrightarrow> sl_base l' = new)"
proof (cases "new = sl_base l \<or> new = None")
  case True
  then show ?thesis using assms by (auto simp: move_to_def backlinked_def split: if_splits)
next
  case False
  then obtain b m where b: "new = Some b" "relink b 0 (sl_slots l) (sl_links l) = Inr m" "l' = l\<lparr>sl_base := Some b, sl_links := m\<rparr>"
    using assms(1) by (auto simp: move_to_def map_sum_def split: sum.splits)
  then show ?thesis using relink_spec [OF b(2)] assms(2) by (auto simp: backlinked_def)
qed

lemma shrink_backlinked:
  assumes "shrink new l = Inr l'" "backlinked l"
  shows "backlinked l' \<and> sl_slots l' = sl_slots l"
  using move_to_backlinked [of new _ l'] assms by (fastforce simp: shrink_def backlinked_def)

lemma relink_total: "None \<notin> set cs \<Longrightarrow> \<exists>m'. relink b i cs m = Inr m'"
  by (induction b i cs m rule: relink.induct) auto

lemma move_to_total:
  assumes "backlinked l"
  shows "\<exists>l'. move_to (Some b) l = Inr l'"
proof -
  have "None \<notin> set (sl_slots l)" using assms by (auto simp: backlinked_def in_set_conv_nth)
  then obtain m where "relink b 0 (sl_slots l) (sl_links l) = Inr m" using relink_total by blast
  then show ?thesis by (simp add: move_to_def)
qed

text \<open>Taking a slot out: the last one takes its place.\<close>

lemma last_takes_place:
  assumes "backlinked l" "i < sl_count l" "sl_base l = Some b" "last (sl_slots l) = Some c"
  shows "backlinked (l\<lparr>sl_slots := butlast ((sl_slots l)[i := Some c]),
    sl_links := (if i \<noteq> sl_count l - 1 then (sl_links l)(c \<mapsto> (b, i)) else sl_links l)\<rparr>)" (is "backlinked ?l")
    and "set (butlast ((sl_slots l)[i := Some c])) = set (sl_slots l) - {sl_slots l ! i}"
proof -
  obtain cs where cs: "sl_slots l = cs @ [Some c]" using assms(2,4) by (cases "sl_slots l" rule: rev_cases) auto
  have d: "distinct cs" "Some c \<notin> set cs" using assms(1) cs by (auto simp: backlinked_def)
  have lk: "\<exists>e. cs ! j = Some e \<and> sl_links l e = Some (b, j)" if "j < length cs" for j
  proof -
    have "j < sl_count l" using cs that by simp
    then have "\<exists>e. sl_slots l ! j = Some e \<and> sl_links l e = Some (b, j)" using assms(1,3) unfolding backlinked_def by auto
    then show ?thesis using cs that by (simp add: nth_append)
  qed
  have "butlast ((sl_slots l)[i := Some c]) = (if i < length cs then cs[i := Some c] else cs)"
    using assms(2) cs by (auto simp: list_update_append butlast_append)
  moreover have "backlinked ?l"
  proof (cases "i < length cs")
    case True
    have "distinct (cs[i := Some c])" using d by (simp add: distinct_list_update)
    moreover have "\<exists>e. cs[i := Some c] ! j = Some e \<and> ((sl_links l)(c \<mapsto> (b, i))) e = Some (b, j)" if j: "j < length cs" for j
    proof -
      obtain e where e: "cs ! j = Some e" "sl_links l e = Some (b, j)" using lk [OF j] by blast
      then have "e \<noteq> c" using d(2) nth_mem [OF j] by auto
      then show ?thesis using e j by (cases "j = i") simp_all
    qed
    ultimately show ?thesis using True cs assms(3) by (auto simp: backlinked_def list_update_append butlast_append)
  next
    case False
    then have "i = length cs" using assms(2) cs by simp
    then show ?thesis using lk d cs assms(3) by (auto simp: backlinked_def list_update_append butlast_append)
  qed
  moreover have "set (if i < length cs then cs[i := Some c] else cs) = set (sl_slots l) - {sl_slots l ! i}"
  proof (cases "i < length cs")
    case True
    then have "cs ! i \<in> set cs" by simp
    then have "cs ! i \<noteq> Some c" using d(2) by metis
    then show ?thesis using True cs d by (auto simp: nth_append set_update_distinct)
  next
    case False
    then have "i = length cs" using assms(2) cs by simp
    then show ?thesis using cs d by auto
  qed
  ultimately show "backlinked ?l" "set (butlast ((sl_slots l)[i := Some c])) = set (sl_slots l) - {sl_slots l ! i}"
    by simp_all
qed

lemma free_backlinked:
  assumes "backlinked l" "session_list_free new i l = Inr l'"
  shows "backlinked l' \<and> set (sl_slots l') = set (sl_slots l) - {sl_slots l ! i}"
proof -
  have i: "i < sl_count l" using assms(2) by (auto simp: session_list_free_def split: if_splits)
  then obtain b c where bc: "sl_base l = Some b" "last (sl_slots l) = Some c"
  proof -
    have "sl_slots l \<noteq> []" "sl_count l - 1 < sl_count l" using i by auto
    then show ?thesis using that assms(1) last_conv_nth [of "sl_slots l"] unfolding backlinked_def by metis
  qed
  let ?l = "l\<lparr>sl_slots := butlast ((sl_slots l)[i := Some c]),
    sl_links := (if i \<noteq> sl_count l - 1 then (sl_links l)(c \<mapsto> (b, i)) else sl_links l)\<rparr>"
  note t = last_takes_place [OF assms(1) i bc]
  have "l' = ?l \<or> shrink new ?l = Inr l'"
    using assms(2) i bc by (auto simp: session_list_free_def Let_def split: if_splits)
  then show ?thesis
  proof
    assume "shrink new ?l = Inr l'"
    from shrink_backlinked [OF this t(1)] t(2) show ?thesis by simp
  qed (use t in simp)
qed

lemma allocate_backlinked:
  assumes "backlinked l" "session_list_allocate new l = Inr (l', Some i)"
  shows "\<exists>l0. backlinked l0 \<and> sl_slots l0 = sl_slots l \<and> i = sl_count l \<and> l' = l0\<lparr>sl_slots := sl_slots l @ [None]\<rparr> \<and> sl_count l < sl_room l0"
proof (cases "sl_count l = sl_capacity l")
  case True
  then obtain l2 where "move_to new l = Inr l2" using assms(2) by (auto simp: session_list_allocate_def Let_def split: if_splits sum.splits)
  from move_to_backlinked [OF this assms(1)] this True assms(2) show ?thesis
    by (auto simp: session_list_allocate_def Let_def backlinked_def split: if_splits
        intro!: exI [of _ "l2\<lparr>sl_room := sl_capacity l * 2, sl_capacity := sl_capacity l * 2\<rparr>"])
next
  case False
  then show ?thesis using assms by (auto simp: session_list_allocate_def Let_def split: if_splits intro!: exI [of _ l])
qed

text \<open>Giving back a slot that was not used.\<close>

lemma free_unused:
  assumes "backlinked l0" "session_list_free new (sl_count l0) (l0\<lparr>sl_slots := sl_slots l0 @ [None]\<rparr>) = Inr l'"
  shows "backlinked l' \<and> sl_slots l' = sl_slots l0"
proof -
  have "l' = l0 \<or> shrink new l0 = Inr l'"
    using assms(2) by (auto simp: session_list_free_def Let_def split: if_splits option.splits)
  then show ?thesis using assms(1) shrink_backlinked by blast
qed

lemma assign_backlinked:
  assumes l: "backlinked l" and a: "session_assign new shrunk init c l = Inr l'" and c: "c \<noteq> None \<Longrightarrow> c \<notin> set (sl_slots l)"
  shows "backlinked l' \<and> (sl_slots l' = sl_slots l \<or> sl_slots l' = sl_slots l @ [c])"
proof -
  obtain l1 x where al: "session_list_allocate new l = Inr (l1, x)" using a by (auto simp: session_assign_def split: sum.splits)
  show ?thesis
  proof (cases x)
    case None
    then have "l1 = l" using al by (auto simp: session_list_allocate_def Let_def split: if_splits sum.splits)
    then show ?thesis using None al a l by (simp add: session_assign_def)
  next
    case (Some i)
    obtain l0 where l0: "backlinked l0" "sl_slots l0 = sl_slots l" "i = sl_count l0" "l1 = l0\<lparr>sl_slots := sl_slots l0 @ [None]\<rparr>"
      using allocate_backlinked [OF l] al Some by metis
    show ?thesis
    proof (cases "\<not> init \<or> c = None")
      case True
      then show ?thesis using free_unused [OF l0(1), of shrunk l'] a al Some l0 by (auto simp: session_assign_def)
    next
      case False
      then obtain d b where d: "c = Some d" "sl_base l0 = Some b" using a al Some l0(4) by (auto simp: session_assign_def split: option.splits)
      then have l': "l' = l0\<lparr>sl_slots := sl_slots l @ [Some d], sl_links := (sl_links l0)(d \<mapsto> (b, i))\<rparr>"
        using a al Some l0 False by (simp add: session_assign_def)
      have "Some d \<notin> set (sl_slots l)" using c d(1) by simp
      have "\<exists>e. (sl_slots l @ [Some d]) ! j = Some e \<and> ((sl_links l0)(d \<mapsto> (b, i))) e = Some (b, j)" if j: "j < sl_count l + 1" for j
      proof (cases "j < sl_count l")
        case True
        then obtain e where e: "sl_slots l ! j = Some e" "sl_links l0 e = Some (b, j)" using l0(1,2) d(2) by (auto simp: backlinked_def)
        moreover have "e \<noteq> d" using nth_mem [OF True] e(1) \<open>Some d \<notin> set (sl_slots l)\<close> by metis
        ultimately show ?thesis using True by (simp add: nth_append)
      qed (use j l0 in \<open>simp add: nth_append\<close>)
      then show ?thesis using l' l0 d \<open>Some d \<notin> set (sl_slots l)\<close> by (auto simp: backlinked_def)
    qed
  qed
qed

text \<open>The list of a worker, as connections come and go.\<close>

inductive list_run :: "session_list \<Rightarrow> bool" where
  init: "session_list_init new = Some l \<Longrightarrow> list_run l"
| assign: "list_run l \<Longrightarrow> (c \<noteq> None \<Longrightarrow> c \<notin> set (sl_slots l)) \<Longrightarrow> session_assign new shrunk ini c l = Inr l' \<Longrightarrow> list_run l'"
| free: "list_run l \<Longrightarrow> session_list_free new i l = Inr l' \<Longrightarrow> list_run l'"

lemma list_run_backlinked: "list_run l \<Longrightarrow> backlinked l"
proof (induction rule: list_run.induct)
  case (init new l)
  then show ?case by (auto simp: session_list_init_def backlinked_def split: option.splits)
next
  case (assign l c new shrunk ini l')
  then show ?case using assign_backlinked by blast
next
  case (free l new i l')
  then show ?case using free_backlinked by blast
qed


text \<open>Three sessions come and go; the memory then has room for two of them, but a third one is still put into
  it.\<close>

definition list_at :: "nat \<Rightarrow> nat \<Rightarrow> nat option list \<Rightarrow> (nat \<rightharpoonup> nat \<times> nat) \<Rightarrow> session_list" where
  "list_at k cap cs m = \<lparr>sl_base = Some 9, sl_room = k, sl_capacity = cap, sl_slots = cs, sl_links = m\<rparr>"

lemmas list_eval = list_at_def session_assign_def session_list_allocate_def session_list_free_def shrink_def move_to_def session_list_init_def

lemma list_assign:
  "list_run l \<Longrightarrow> session_assign (Some 9) (Some 9) True (Some c) l = Inr l' \<Longrightarrow> Some c \<notin> set (sl_slots l) \<Longrightarrow> list_run l'"
  by (rule list_run.assign [of l "Some c" "Some 9" "Some 9" True])

lemma three_sessions: "\<exists>m. list_run (list_at 4 4 [Some 5, Some 6, Some 7] m)"
proof -
  have "list_run (list_at 1 1 [] Map.empty)" by (rule list_run.init [of "Some 9"]) (simp add: list_eval)
  then have "list_run (list_at 1 1 [Some 5] [5 \<mapsto> (9, 0)])" by (rule list_assign [where c = 5]) (simp_all add: list_eval)
  then have "list_run (list_at 2 2 [Some 5, Some 6] [5 \<mapsto> (9, 0), 6 \<mapsto> (9, 1)])" by (rule list_assign [where c = 6]) (simp_all add: list_eval)
  then have "list_run (list_at 4 4 [Some 5, Some 6, Some 7] [5 \<mapsto> (9, 0), 6 \<mapsto> (9, 1), 7 \<mapsto> (9, 2)])"
    by (rule list_assign [where c = 7]) (simp_all add: list_eval numeral_2_eq_2)
  then show ?thesis by blast
qed

theorem third_session_overflows:
  "\<exists>l. list_run l \<and> sl_count l = 2 \<and> sl_room l = 2 \<and> session_list_allocate new l = Inl Out_of_memory_bounds"
proof -
  obtain m where "list_run (list_at 4 4 [Some 5, Some 6, Some 7] m)" using three_sessions by blast
  then have "list_run (list_at 4 4 [Some 5, Some 6] m)" by (rule list_run.free [of _ "Some 9" 2]) (simp add: list_eval)
  then have "list_run (list_at 4 4 [Some 5] m)" by (rule list_run.free [of _ "Some 9" 1]) (simp add: list_eval)
  then have "list_run (list_at 2 4 [] m)" by (rule list_run.free [of _ "Some 9" 0]) (simp add: list_eval)
  then have "list_run (list_at 2 4 [Some 5] (m(5 \<mapsto> (9, 0))))" by (rule list_assign [where c = 5]) (simp_all add: list_eval)
  then have "list_run (list_at 2 4 [Some 5, Some 6] (m(5 \<mapsto> (9, 0), 6 \<mapsto> (9, 1))))" by (rule list_assign [where c = 6]) (simp_all add: list_eval)
  moreover have "session_list_allocate new (list_at 2 4 [Some 5, Some 6] (m(5 \<mapsto> (9, 0), 6 \<mapsto> (9, 1)))) = Inl Out_of_memory_bounds"
    by (simp add: list_eval)
  ultimately show ?thesis by (intro exI [of _ "list_at 2 4 [Some 5, Some 6] (m(5 \<mapsto> (9, 0), 6 \<mapsto> (9, 1)))"]) (simp add: list_at_def)
qed


end
