(* ===== verification/Foothold_Tree.thy ===== *)
theory Foothold_Tree
  imports Prelude "HOL-Library.Multiset" "HOL-Library.Signed_Division"
begin

text \<open>
  The R-tree of the footholds of a map (\<^verbatim>\<open>src/src/wz.c\<close>): \<open>insert_foothold\<close> puts a foothold into the leaf
  whose bounding rectangle grows least and splits full nodes on the way back to the root;
  \<open>foothold_tree_find_below\<close> looks for the nearest foothold below a point and skips subtrees by their
  bounding rectangles.

  A node has up to three children or footholds. The tree is a datatype: the \<open>parent\<close> pointers that the
  code follows back to the root are the returns of the recursion. Coordinates are 16-bit; areas are
  computed in 32 bits, with the wrap-around written out where the result of the C arithmetic is too
  large.
\<close>

subsection \<open>Rectangles\<close>

record point =
  pt_x :: int
  pt_y :: int

record foothold =
  fh_id :: u32
  fh_p1 :: point
  fh_p2 :: point

text \<open>South is down and the vertical coordinate grows downwards.\<close>

record rectangle =
  rc_sw :: point
  rc_ne :: point

definition foothold_mbr :: "foothold \<Rightarrow> rectangle" where
  "foothold_mbr fh =
     \<lparr>rc_sw = \<lparr>pt_x = min (pt_x (fh_p1 fh)) (pt_x (fh_p2 fh)), pt_y = max (pt_y (fh_p1 fh)) (pt_y (fh_p2 fh))\<rparr>,
      rc_ne = \<lparr>pt_x = max (pt_x (fh_p1 fh)) (pt_x (fh_p2 fh)), pt_y = min (pt_y (fh_p1 fh)) (pt_y (fh_p2 fh))\<rparr>\<rparr>"

definition rectangle_mbr :: "rectangle \<Rightarrow> rectangle \<Rightarrow> rectangle" where
  "rectangle_mbr r1 r2 =
     \<lparr>rc_sw = \<lparr>pt_x = min (pt_x (rc_sw r1)) (pt_x (rc_sw r2)), pt_y = max (pt_y (rc_sw r1)) (pt_y (rc_sw r2))\<rparr>,
      rc_ne = \<lparr>pt_x = max (pt_x (rc_ne r1)) (pt_x (rc_ne r2)), pt_y = min (pt_y (rc_ne r1)) (pt_y (rc_ne r2))\<rparr>\<rparr>"

definition rectangle_intersection :: "rectangle \<Rightarrow> rectangle \<Rightarrow> rectangle" where
  "rectangle_intersection r1 r2 =
     (let swx = max (pt_x (rc_sw r1)) (pt_x (rc_sw r2)); swy = min (pt_y (rc_sw r1)) (pt_y (rc_sw r2));
          nex = min (pt_x (rc_ne r1)) (pt_x (rc_ne r2)); ney = max (pt_y (rc_ne r1)) (pt_y (rc_ne r2))
      in if swx > nex \<or> swy < ney then \<lparr>rc_sw = \<lparr>pt_x = 0, pt_y = 0\<rparr>, rc_ne = \<lparr>pt_x = 0, pt_y = 0\<rparr>\<rparr>
         else \<lparr>rc_sw = \<lparr>pt_x = swx, pt_y = swy\<rparr>, rc_ne = \<lparr>pt_x = nex, pt_y = ney\<rparr>\<rparr>)"

definition rectangle_area :: "rectangle \<Rightarrow> int" where
  "rectangle_area r = to_i32 ((pt_x (rc_ne r) - pt_x (rc_sw r)) * (pt_y (rc_sw r) - pt_y (rc_ne r)))"

definition rectangle_length :: "rectangle \<Rightarrow> int" where
  "rectangle_length r = to_i16 ((pt_x (rc_ne r) - pt_x (rc_sw r)) + (pt_y (rc_sw r) - pt_y (rc_ne r)))"

definition white_space_area_2 :: "rectangle \<Rightarrow> rectangle \<Rightarrow> int" where
  "white_space_area_2 r1 r2 =
     (let cover = to_i32 (rectangle_area r1 + rectangle_area r2 - rectangle_area (rectangle_intersection r1 r2))
      in to_i32 (rectangle_area (rectangle_mbr r1 r2) - cover))"

definition white_space_length_2 :: "rectangle \<Rightarrow> rectangle \<Rightarrow> int" where
  "white_space_length_2 r1 r2 =
     (let cover = rectangle_length r1 + rectangle_length r2 - rectangle_length (rectangle_intersection r1 r2)
      in rectangle_length (rectangle_mbr r1 r2) - cover)"

definition white_space_area_3 :: "rectangle \<Rightarrow> rectangle \<Rightarrow> rectangle \<Rightarrow> int" where
  "white_space_area_3 r1 r2 r3 =
     (let i1 = rectangle_intersection r1 r2; i2 = rectangle_intersection r1 r3; i3 = rectangle_intersection r2 r3;
          i4 = rectangle_intersection i1 r3;
          cover = to_i32 (rectangle_area r1 + rectangle_area r2 + rectangle_area r3 - rectangle_area i1 - rectangle_area i2
            - rectangle_area i3 + rectangle_area i4)
      in to_i32 (rectangle_area (rectangle_mbr (rectangle_mbr r1 r2) r3) - cover))"

definition white_space_length_3 :: "rectangle \<Rightarrow> rectangle \<Rightarrow> rectangle \<Rightarrow> int" where
  "white_space_length_3 r1 r2 r3 =
     (let i1 = rectangle_intersection r1 r2; i2 = rectangle_intersection r1 r3; i3 = rectangle_intersection r2 r3;
          i4 = rectangle_intersection i1 r3;
          cover = rectangle_length r1 + rectangle_length r2 + rectangle_length r3 - rectangle_length i1 - rectangle_length i2
            - rectangle_length i3 + rectangle_length i4
      in to_i16 (rectangle_length (rectangle_mbr (rectangle_mbr r1 r2) r3) - cover))"

definition mbr_all :: "rectangle list \<Rightarrow> rectangle" where
  "mbr_all rs = foldl rectangle_mbr (hd rs) (tl rs)"

subsection \<open>Trees\<close>

datatype rtree = Leaf rectangle "foothold list" | Node rectangle "rtree list"

fun tree_bound :: "rtree \<Rightarrow> rectangle" where
  "tree_bound (Leaf b fs) = b"
| "tree_bound (Node b cs) = b"

text \<open>ChooseLeaf: how much a child would grow, as an area or, when no area is involved, as a length.\<close>

definition growth :: "rectangle \<Rightarrow> rectangle \<Rightarrow> int \<times> bool" where
  "growth b r =
     (let bounding = rectangle_mbr b r; m = to_i32 (rectangle_area bounding - rectangle_area b);
          len = (rectangle_area bounding = 0 \<and> m = 0)
      in (if len then rectangle_length bounding - rectangle_length b else m, len))"

definition choose_step :: "rectangle list \<Rightarrow> rectangle \<Rightarrow> nat \<times> int \<times> bool \<Rightarrow> nat \<Rightarrow> nat \<times> int \<times> bool" where
  "choose_step bs r st i =
     (case (st, growth (bs ! i) r) of
        ((min_index, min_measure, min_is_length), (msr, len)) \<Rightarrow>
          if \<not> min_is_length \<and> \<not> len
          then if msr = min_measure
               then if rectangle_area (bs ! i) < rectangle_area (bs ! min_index) then (i, min_measure, min_is_length) else st
               else if msr < min_measure then (i, msr, min_is_length) else st
          else if min_is_length \<and> len
          then if msr = min_measure
               then if rectangle_length (bs ! i) < rectangle_length (bs ! min_index) then (i, min_measure, min_is_length) else st
               else if msr < min_measure then (i, msr, min_is_length) else st
          else if len then (i, msr, True)
          else st)"

definition choose_child :: "rectangle list \<Rightarrow> rectangle \<Rightarrow> nat" where
  "choose_child bs r = fst (foldl (choose_step bs r) (0, growth (bs ! 0) r) [1..<length bs])"

text \<open>
  SplitNode: four rectangles are divided three to one or two to two. \<open>sp_one\<close> tells which, and
  \<open>sp_w0\<close>, \<open>sp_w1\<close> are \<open>which[0]\<close> and \<open>which[1]\<close>: the one that moves to the new node, or the two that
  stay.
\<close>

record split =
  sp_area :: int
  sp_length :: int
  sp_one :: bool
  sp_w0 :: nat
  sp_w1 :: nat

definition line_length :: "rectangle \<Rightarrow> rectangle \<Rightarrow> rectangle \<Rightarrow> int" where
  "line_length r1 r2 r3 =
     (if rectangle_area (rectangle_mbr (rectangle_mbr r1 r2) r3) = 0 then white_space_length_3 r1 r2 r3 else 0)"

definition leaf_split_one :: "rectangle list \<Rightarrow> split \<Rightarrow> nat \<Rightarrow> split" where
  "leaf_split_one rs sp i =
     (let r = rs ! i; r1 = rs ! 0; r2 = (if i = 1 then rs ! 2 else rs ! 1); r3 = (if i = 3 then rs ! 2 else rs ! 3);
          area = to_i32 (rectangle_area r + white_space_area_3 r1 r2 r3);
          len = (if rectangle_area r = 0 then rectangle_length r else 0);
          sp = sp\<lparr>sp_length := to_i32 (sp_length sp + line_length r1 r2 r3)\<rparr>
      in if area < sp_area sp then sp\<lparr>sp_area := area, sp_length := len, sp_w0 := i\<rparr>
         else if area = sp_area sp \<and> len < sp_length sp then sp\<lparr>sp_length := len, sp_w0 := i\<rparr>
         else sp)"

text \<open>The two indices below 4 other than \<open>i\<close> and \<open>j\<close>.\<close>

definition others :: "nat \<Rightarrow> nat \<Rightarrow> nat \<times> nat" where
  "others i j = (let ns = filter (\<lambda>k. k \<noteq> i \<and> k \<noteq> j) [0..<4] in (ns ! 0, ns ! 1))"

text \<open>\<open>r2\<close> is \<open>child_rects[i]\<close>, and not \<open>child_rects[j]\<close>, in the code.\<close>

definition leaf_split_two :: "rectangle list \<Rightarrow> split \<Rightarrow> nat \<times> nat \<Rightarrow> split" where
  "leaf_split_two rs sp ij =
     (case ij of (i, j) \<Rightarrow>
        let r1 = rs ! i; r2 = (if j = 3 then rs ! 3 else rs ! i); r3 = rs ! fst (others i j); r4 = rs ! snd (others i j);
            area1 = white_space_area_2 r1 r2; area2 = white_space_area_2 r3 r4;
            length1 = (if area1 = 0 \<and> rectangle_area r1 = 0 then white_space_length_2 r1 r2 else 0);
            length2 = (if area2 = 0 \<and> rectangle_area r3 = 0 then white_space_length_2 r3 r4 else 0)
        in if to_i32 (area1 + area2) < sp_area sp
           then \<lparr>sp_area = to_i32 (area1 + area2), sp_length = length1 + length2, sp_one = False, sp_w0 = i, sp_w1 = j\<rparr>
           else if to_i32 (area1 + area2) = sp_area sp \<and> length1 + length2 < sp_length sp
           then sp\<lparr>sp_length := length1 + length2, sp_one := False, sp_w0 := i, sp_w1 := j\<rparr>
           else sp)"

definition pairs :: "(nat \<times> nat) list" where
  "pairs = [(0, 1), (0, 2), (0, 3), (1, 2), (1, 3), (2, 3)]"

definition leaf_split :: "rectangle list \<Rightarrow> split" where
  "leaf_split rs =
     (let sp = \<lparr>sp_area = to_i32 (rectangle_area (rs ! 0) + white_space_area_3 (rs ! 1) (rs ! 2) (rs ! 3)),
                sp_length = (if rectangle_area (rs ! 0) = 0 then rectangle_length (rs ! 0) else 0) + line_length (rs ! 1) (rs ! 2) (rs ! 3),
                sp_one = True, sp_w0 = 0, sp_w1 = 0\<rparr>
      in foldl (leaf_split_two rs) (foldl (leaf_split_one rs) sp [1, 2, 3]) pairs)"

text \<open>For inner nodes \<open>sp_area\<close> is \<open>min_measure\<close>, and whether it is a length comes with it.\<close>

definition node_split_one :: "rectangle list \<Rightarrow> split \<times> bool \<Rightarrow> nat \<Rightarrow> split \<times> bool" where
  "node_split_one rs st i =
     (case st of (sp, min_is_length) \<Rightarrow>
        let r1 = rs ! 0; r2 = (if i = 1 then rs ! 2 else rs ! 1); r3 = (if i = 3 then rs ! 2 else rs ! 3);
            msr = white_space_area_3 r1 r2 r3;
            is_length = (rectangle_area r1 = 0 \<and> rectangle_area r2 = 0 \<and> msr = 0);
            msr = (if is_length then white_space_length_3 r1 r2 r3 else msr)
        in if min_is_length = is_length \<and> msr < sp_area sp then (sp\<lparr>sp_area := msr, sp_w0 := i\<rparr>, min_is_length)
           else if is_length then (sp\<lparr>sp_area := msr, sp_w0 := i\<rparr>, True)
           else st)"

definition node_split_two :: "rectangle list \<Rightarrow> split \<times> bool \<Rightarrow> nat \<times> nat \<Rightarrow> split \<times> bool" where
  "node_split_two rs st ij =
     (case (st, ij) of ((sp, min_is_length), (i, j)) \<Rightarrow>
        let r1 = rs ! i; r2 = rs ! j; r3 = rs ! fst (others i j); r4 = rs ! snd (others i j);
            m1 = white_space_area_2 r1 r2; m2 = white_space_area_2 r3 r4;
            is_length = (rectangle_area r1 = 0 \<and> m1 = 0 \<and> rectangle_area r3 = 0 \<and> m2 = 0);
            msr = (if is_length then white_space_length_2 r1 r2 + white_space_length_2 r3 r4 else to_i32 (m1 + m2));
            sp' = sp\<lparr>sp_area := msr, sp_one := False, sp_w0 := i, sp_w1 := j\<rparr>
        in if min_is_length = is_length \<and> msr < sp_area sp then (sp', min_is_length)
           else if is_length then (sp', True)
           else st)"

definition node_split :: "rectangle list \<Rightarrow> split" where
  "node_split rs =
     (let m = white_space_area_3 (rs ! 1) (rs ! 2) (rs ! 3);
          min_is_length = (rectangle_area (rs ! 1) = 0 \<and> rectangle_area (rs ! 2) = 0 \<and> m = 0);
          sp = \<lparr>sp_area = (if min_is_length then white_space_length_3 (rs ! 1) (rs ! 2) (rs ! 3) else m), sp_length = 0,
                sp_one = True, sp_w0 = 0, sp_w1 = 0\<rparr>
      in fst (foldl (node_split_two rs) (foldl (node_split_one rs) (sp, min_is_length) [1, 2, 3]) pairs))"

text \<open>What stays in the node and what moves to the new one.\<close>

definition divide :: "split \<Rightarrow> 'a list \<Rightarrow> 'a list \<times> 'a list" where
  "divide sp xs =
     (if sp_one sp then (map (\<lambda>i. xs ! i) (filter (\<lambda>i. i \<noteq> sp_w0 sp) [0..<4]), [xs ! sp_w0 sp])
      else ([xs ! sp_w0 sp, xs ! sp_w1 sp], map (\<lambda>i. xs ! i) (filter (\<lambda>i. i \<noteq> sp_w0 sp \<and> i \<noteq> sp_w1 sp) [0..<4])))"

subsection \<open>Insertion\<close>

text \<open>
  What an insertion did to a subtree. \<open>Grown\<close>: there was room in the leaf, the bounds of the
  ancestors are enlarged. \<open>Attached\<close>: a new node found room in an inner node, the bounds of the
  ancestors are computed afresh. \<open>Halves\<close>: the subtree was divided into two.
\<close>

datatype insertion = Grown rtree | Attached rtree | Halves rtree rtree

definition make_leaf :: "foothold list \<Rightarrow> rtree" where
  "make_leaf fs = Leaf (mbr_all (map foothold_mbr fs)) fs"

definition make_node :: "rtree list \<Rightarrow> rtree" where
  "make_node cs = Node (mbr_all (map tree_bound cs)) cs"

definition regrow :: "rectangle \<Rightarrow> rtree list \<Rightarrow> nat \<Rightarrow> insertion \<Rightarrow> insertion" where
  "regrow b cs i res =
     (case res of
        Grown t \<Rightarrow> Grown (Node (rectangle_mbr b (tree_bound t)) (cs[i := t]))
      | Attached t \<Rightarrow> Attached (make_node (cs[i := t]))
      | Halves t n \<Rightarrow>
          if length cs < 3 then Attached (make_node (cs[i := t] @ [n]))
          else (case divide (node_split (map tree_bound (cs[i := t] @ [n]))) (cs[i := t] @ [n]) of
                  (stay, move) \<Rightarrow> Halves (make_node stay) (make_node move)))"

function insert_below :: "foothold \<Rightarrow> rtree \<Rightarrow> insertion" where
  "insert_below fh (Leaf b fs) =
     (if length fs < 3 then Grown (Leaf (rectangle_mbr b (foothold_mbr fh)) (fs @ [fh]))
      else (case divide (leaf_split (map foothold_mbr (fs @ [fh]))) (fs @ [fh]) of
              (stay, move) \<Rightarrow> Halves (make_leaf stay) (make_leaf move)))"
| "insert_below fh (Node b cs) =
     (let i = choose_child (map tree_bound cs) (foothold_mbr fh)
      in if i < length cs then regrow b cs i (insert_below fh (cs ! i)) else Grown (Node b cs))"
  by pat_completeness auto
termination
  by (relation "measure (size \<circ> snd)") (auto simp: less_Suc_eq_le intro!: size_list_estimation' [OF nth_mem order_refl])

definition insert_foothold :: "rtree option \<Rightarrow> foothold \<Rightarrow> rtree option" where
  "insert_foothold root fh =
     (case root of
        None \<Rightarrow> Some (Leaf (foothold_mbr fh) [fh])
      | Some t \<Rightarrow>
          Some (case insert_below fh t of
                  Grown t \<Rightarrow> t
                | Attached t \<Rightarrow> t
                | Halves t n \<Rightarrow> Node (rectangle_mbr (tree_bound t) (tree_bound n)) [t, n]))"

subsection \<open>Search\<close>

definition get_distance_below :: "foothold \<Rightarrow> point \<Rightarrow> int" where
  "get_distance_below fh p =
     (let p1 = fh_p1 fh; p2 = fh_p2 fh
      in to_i16 (if pt_x p1 = pt_x p2 then min (pt_y p1) (pt_y p2) - pt_y p
                 else to_i32 ((pt_y p2 - pt_y p1) * (pt_x p - pt_x p1)) sdiv (pt_x p2 - pt_x p1) + pt_y p1 - pt_y p))"

definition skipped :: "foothold \<Rightarrow> point \<Rightarrow> bool" where
  "skipped fh p \<longleftrightarrow>
     (let p1 = fh_p1 fh; p2 = fh_p2 fh
      in pt_x p1 > pt_x p \<and> pt_x p2 > pt_x p \<or> pt_x p1 < pt_x p \<and> pt_x p2 < pt_x p \<or> pt_y p1 < pt_y p \<and> pt_y p2 < pt_y p \<or>
         pt_x p1 = pt_x p2 \<and> (pt_x p \<noteq> pt_x p1 \<or> pt_y p > pt_y p1 \<or> pt_y p > pt_y p2) \<or>
         get_distance_below fh p < 0)"

definition keep_nearer :: "point \<Rightarrow> foothold option \<times> int \<Rightarrow> foothold option \<Rightarrow> foothold option \<times> int" where
  "keep_nearer p st current =
     (case current of
        None \<Rightarrow> st
      | Some fh \<Rightarrow> if get_distance_below fh p < snd st then (Some fh, get_distance_below fh p) else st)"

definition nearest :: "point \<Rightarrow> foothold option list \<Rightarrow> foothold option" where
  "nearest p cs = fst (foldl (keep_nearer p) (None, 32767) cs)"

fun tree_find_below :: "rtree \<Rightarrow> point \<Rightarrow> foothold option" where
  "tree_find_below (Leaf b fs) p =
     (if pt_x (rc_sw b) > pt_x p \<or> pt_y (rc_sw b) < pt_y p then None
      else nearest p (map (\<lambda>fh. if skipped fh p then None else Some fh) fs))"
| "tree_find_below (Node b cs) p =
     (if pt_x (rc_sw b) > pt_x p \<or> pt_y (rc_sw b) < pt_y p then None
      else nearest p (map (\<lambda>c. tree_find_below c p) cs))"

text \<open>\<open>None\<close> if the tree has no root, which the code does not check.\<close>

definition foothold_tree_find_below :: "rtree option \<Rightarrow> point \<Rightarrow> foothold option option" where
  "foothold_tree_find_below root p = map_option (\<lambda>t. tree_find_below t p) root"

subsection \<open>Bounding rectangles\<close>

definition covers :: "rectangle \<Rightarrow> rectangle \<Rightarrow> bool" where
  "covers r1 r2 \<longleftrightarrow> pt_x (rc_sw r1) \<le> pt_x (rc_sw r2) \<and> pt_y (rc_sw r2) \<le> pt_y (rc_sw r1) \<and>
     pt_x (rc_ne r2) \<le> pt_x (rc_ne r1) \<and> pt_y (rc_ne r1) \<le> pt_y (rc_ne r2)"

lemma covers_refl: "covers r r"
  by (simp add: covers_def)

lemma covers_trans: "covers r1 r2 \<Longrightarrow> covers r2 r3 \<Longrightarrow> covers r1 r3"
  by (auto simp: covers_def)

lemma covers_mbr: "covers (rectangle_mbr r1 r2) r1" "covers (rectangle_mbr r1 r2) r2"
  by (simp_all add: covers_def rectangle_mbr_def)

lemma covers_grow: "covers b q \<Longrightarrow> covers (rectangle_mbr b r) q"
  using covers_mbr(1) covers_trans by blast

lemma covers_foldl: "covers (foldl rectangle_mbr r rs) r \<and> (\<forall>q \<in> set rs. covers (foldl rectangle_mbr r rs) q)"
proof (induction rs arbitrary: r)
  case (Cons q rs)
  from Cons [of "rectangle_mbr r q"] show ?case using covers_trans covers_mbr [of r q] by (auto; blast)
qed (simp add: covers_refl)

lemma covers_all: "q \<in> set rs \<Longrightarrow> covers (mbr_all rs) q"
  unfolding mbr_all_def using covers_foldl [of "hd rs" "tl rs"] by (cases rs) auto

subsection \<open>The invariant\<close>

text \<open>All leaves are at the same depth, every node has one to three entries, and every bound covers
  what is below it.\<close>

fun rtree_ok :: "nat \<Rightarrow> rtree \<Rightarrow> bool" where
  "rtree_ok h (Leaf b fs) \<longleftrightarrow> h = 0 \<and> fs \<noteq> [] \<and> length fs \<le> 3 \<and> (\<forall>fh \<in> set fs. covers b (foothold_mbr fh))"
| "rtree_ok h (Node b cs) \<longleftrightarrow>
     h \<noteq> 0 \<and> cs \<noteq> [] \<and> length cs \<le> 3 \<and> (\<forall>c \<in> set cs. rtree_ok (h - 1) c \<and> covers b (tree_bound c))"

fun footholds :: "rtree \<Rightarrow> foothold multiset" where
  "footholds (Leaf b fs) = mset fs"
| "footholds (Node b cs) = sum_list (map footholds cs)"

lemma in_footholds: "fh \<in># sum_list (map footholds cs) \<longleftrightarrow> (\<exists>c \<in> set cs. fh \<in># footholds c)"
  by (induction cs) auto

lemma make_leaf_ok: "fs \<noteq> [] \<Longrightarrow> length fs \<le> 3 \<Longrightarrow> rtree_ok 0 (make_leaf fs)" "footholds (make_leaf fs) = mset fs"
  by (simp_all add: make_leaf_def covers_all)

lemma make_node_ok:
  "cs \<noteq> [] \<Longrightarrow> length cs \<le> 3 \<Longrightarrow> \<forall>c \<in> set cs. rtree_ok h c \<Longrightarrow> rtree_ok (Suc h) (make_node cs)"
  "footholds (make_node cs) = sum_list (map footholds cs)"
  by (simp_all add: make_node_def covers_all)

subsection \<open>Choices\<close>

lemma choose_step_index: "fst (choose_step bs r st i) = fst st \<or> fst (choose_step bs r st i) = i"
  by (auto simp: choose_step_def split: prod.split)

lemma choose_child_less: "bs \<noteq> [] \<Longrightarrow> choose_child bs r < length bs"
proof -
  assume bs: "bs \<noteq> []"
  have "fst (foldl (choose_step bs r) st is) < length bs" if "fst st < length bs" "\<forall>i \<in> set is. i < length bs" for st "is"
    using that
  proof (induction "is" arbitrary: st)
    case (Cons i ns)
    have "fst (choose_step bs r st i) < length bs" using choose_step_index [of bs r st i] Cons.prems by auto
    then show ?case using Cons by simp
  qed simp
  then show ?thesis unfolding choose_child_def using bs by simp
qed

definition split_ok :: "split \<Rightarrow> bool" where
  "split_ok sp \<longleftrightarrow> (if sp_one sp then sp_w0 sp < 4 else (sp_w0 sp, sp_w1 sp) \<in> set pairs)"

lemma foldl_keeps: "P s \<Longrightarrow> (\<And>s x. x \<in> set xs \<Longrightarrow> P s \<Longrightarrow> P (f s x)) \<Longrightarrow> P (foldl f s xs)"
  by (induction xs arbitrary: s) auto

definition one_ok :: "split \<Rightarrow> bool" where
  "one_ok sp \<longleftrightarrow> sp_one sp \<and> sp_w0 sp < 4"

lemma if_two: "P x \<Longrightarrow> P y \<Longrightarrow> P z \<Longrightarrow> P (if a then x else if b then y else z)"
  by simp

lemma one_steps_ok:
  assumes "i < 4"
  shows "one_ok sp \<Longrightarrow> one_ok (leaf_split_one rs sp i)" "one_ok (fst st) \<Longrightarrow> one_ok (fst (node_split_one rs st i))"
proof -
  show "one_ok (leaf_split_one rs sp i)" if "one_ok sp"
    unfolding leaf_split_one_def Let_def by (rule if_two [where P = one_ok]) (use that assms in \<open>simp_all add: one_ok_def\<close>)
  show "one_ok (fst (node_split_one rs st i))" if "one_ok (fst st)"
    unfolding node_split_one_def Let_def case_prod_unfold
    by (rule if_two [where P = "\<lambda>st. one_ok (fst st)"]) (use that assms in \<open>simp_all add: one_ok_def\<close>)
qed

lemma two_steps_ok:
  assumes "ij \<in> set pairs"
  shows "split_ok sp \<Longrightarrow> split_ok (leaf_split_two rs sp ij)" "split_ok (fst st) \<Longrightarrow> split_ok (fst (node_split_two rs st ij))"
proof -
  show "split_ok (leaf_split_two rs sp ij)" if "split_ok sp"
    unfolding leaf_split_two_def Let_def case_prod_unfold
    by (rule if_two [where P = split_ok]) (use that assms in \<open>simp_all add: split_ok_def\<close>)
  show "split_ok (fst (node_split_two rs st ij))" if "split_ok (fst st)"
    unfolding node_split_two_def Let_def case_prod_unfold
    by (rule if_two [where P = "\<lambda>st. split_ok (fst st)"]) (use that assms in \<open>simp_all add: split_ok_def\<close>)
qed

lemma leaf_split_ok: "split_ok (leaf_split rs)"
proof -
  have "one_ok (foldl (leaf_split_one rs) sp [1, 2, 3])" if "one_ok sp" for sp
    by (rule foldl_keeps [where P = one_ok, OF that]) (rule one_steps_ok(1), auto)
  then have "split_ok (foldl (leaf_split_one rs) \<lparr>sp_area = a, sp_length = l, sp_one = True, sp_w0 = 0, sp_w1 = 0\<rparr> [1, 2, 3])" for a l
    by (metis one_ok_def split_ok_def split.select_convs(3,4) zero_less_numeral)
  then show ?thesis unfolding leaf_split_def Let_def by (rule foldl_keeps [where P = split_ok]) (rule two_steps_ok(1))
qed

lemma node_split_ok: "split_ok (node_split rs)"
proof -
  have "one_ok (fst (foldl (node_split_one rs) st [1, 2, 3]))" if "one_ok (fst st)" for st
    by (rule foldl_keeps [where P = "\<lambda>st. one_ok (fst st)", OF that]) (rule one_steps_ok(2), auto)
  then have "split_ok (fst (foldl (node_split_one rs) (\<lparr>sp_area = a, sp_length = 0, sp_one = True, sp_w0 = 0, sp_w1 = 0\<rparr>, b) [1, 2, 3]))" for a b
    by (metis one_ok_def split_ok_def split.select_convs(3,4) zero_less_numeral fst_conv)
  then show ?thesis
    unfolding node_split_def Let_def by (rule foldl_keeps [where P = "\<lambda>st. split_ok (fst st)"]) (rule two_steps_ok(2))
qed

lemma divide_ok:
  assumes "split_ok sp" "length xs = 4" "divide sp xs = (stay, move)"
  shows "mset stay + mset move = mset xs" "stay \<noteq> []" "move \<noteq> []" "length stay \<le> 3" "length move \<le> 3"
proof -
  obtain a b c d where xs: "xs = [a, b, c, d]" using assms(2) by (auto simp: eval_nat_numeral length_Suc_conv)
  have up: "[0..<4] = [0, 1, 2, 3 :: nat]" by code_simp
  have "sp_one sp \<and> sp_w0 sp \<in> {0, 1, 2, 3} \<or> \<not> sp_one sp \<and> (sp_w0 sp, sp_w1 sp) \<in> set pairs"
    using assms(1) by (auto simp: split_ok_def split: if_split_asm)
  then have "mset stay + mset move = mset xs \<and> stay \<noteq> [] \<and> move \<noteq> [] \<and> length stay \<le> 3 \<and> length move \<le> 3"
    using assms(3) unfolding xs by (auto simp: divide_def up pairs_def)
  then show "mset stay + mset move = mset xs" "stay \<noteq> []" "move \<noteq> []" "length stay \<le> 3" "length move \<le> 3" by simp_all
qed

subsection \<open>Insertion keeps the invariant\<close>

definition insertion_ok :: "nat \<Rightarrow> foothold multiset \<Rightarrow> insertion \<Rightarrow> bool" where
  "insertion_ok h fs res \<longleftrightarrow>
     (case res of
        Grown t \<Rightarrow> rtree_ok h t \<and> footholds t = fs
      | Attached t \<Rightarrow> rtree_ok h t \<and> footholds t = fs
      | Halves t n \<Rightarrow> rtree_ok h t \<and> rtree_ok h n \<and> footholds t + footholds n = fs)"

lemma sum_list_update:
  fixes f :: "'a \<Rightarrow> 'b :: comm_monoid_add"
  assumes "i < length xs"
  shows "sum_list (map f (xs[i := x])) + f (xs ! i) = sum_list (map f xs) + f x"
  using assms by (induction xs arbitrary: i) (auto simp: ac_simps split: nat.split)

lemma sum_list_divide:
  fixes f :: "'a \<Rightarrow> 'b :: comm_monoid_add"
  assumes "mset stay + mset move = mset xs"
  shows "sum_list (map f stay) + sum_list (map f move) = sum_list (map f xs)"
proof -
  have "mset (stay @ move) = mset xs" using assms by simp
  then have "mset (map f (stay @ move)) = mset (map f xs)" by (metis mset_map)
  from mset_eq_setD [OF this] show ?thesis
    by (metis \<open>mset (map f (stay @ move)) = mset (map f xs)\<close> map_append sum_list_append sum_mset_sum_list)
qed

lemma regrow_ok:
  assumes ok: "rtree_ok (Suc h) (Node b cs)" and i: "i < length cs"
    and res: "insertion_ok h (add_mset fh (footholds (cs ! i))) res"
  shows "insertion_ok (Suc h) (add_mset fh (footholds (Node b cs))) (regrow b cs i res)"
proof -
  have cs: "cs \<noteq> []" "length cs \<le> 3" "\<forall>c \<in> set cs. rtree_ok h c" "\<forall>c \<in> set cs. covers b (tree_bound c)" using ok by auto
  have upd: "sum_list (map footholds (cs[i := t])) + footholds (cs ! i) = sum_list (map footholds cs) + footholds t" for t
    by (rule sum_list_update [OF i])
  have sub: "\<forall>c \<in> set (cs[i := t]). rtree_ok h c" if "rtree_ok h t" for t
    using that cs(3) set_update_subset_insert [of cs i t] by blast
  show ?thesis
  proof (cases res)
    case (Grown t)
    then have t: "rtree_ok h t" "footholds t = add_mset fh (footholds (cs ! i))" using res by (simp_all add: insertion_ok_def)
    have "covers (rectangle_mbr b (tree_bound t)) (tree_bound c)" if "c \<in> set (cs[i := t])" for c
    proof -
      from that have "c = t \<or> c \<in> set cs" using set_update_subset_insert [of cs i t] by blast
      then show ?thesis using cs(4) covers_mbr(2) covers_grow by blast
    qed
    then show ?thesis using Grown t cs sub [OF t(1)] upd [of t] by (simp add: insertion_ok_def regrow_def)
  next
    case (Attached t)
    then have t: "rtree_ok h t" "footholds t = add_mset fh (footholds (cs ! i))" using res by (simp_all add: insertion_ok_def)
    then show ?thesis
      using Attached cs sub [OF t(1)] upd [of t] make_node_ok(1) [of "cs[i := t]" h] make_node_ok(2) by (simp add: insertion_ok_def regrow_def)
  next
    case (Halves t n)
    then have t: "rtree_ok h t" "rtree_ok h n" "footholds t + footholds n = add_mset fh (footholds (cs ! i))"
      using res by (simp_all add: insertion_ok_def)
    let ?cs = "cs[i := t] @ [n]"
    have all: "\<forall>c \<in> set ?cs. rtree_ok h c" using sub [OF t(1)] t(2) by auto
    have "sum_list (map footholds ?cs) + footholds (cs ! i) = sum_list (map footholds cs) + (footholds t + footholds n)"
      using upd [of t] by (simp add: ac_simps)
    then have tot: "sum_list (map footholds ?cs) = add_mset fh (sum_list (map footholds cs))" using t(3) by simp
    show ?thesis
    proof (cases "length cs < 3")
      case True
      then show ?thesis
        using Halves tot make_node_ok(1) [of ?cs h] make_node_ok(2) all by (simp add: insertion_ok_def regrow_def)
    next
      case False
      obtain stay move where d: "divide (node_split (map tree_bound ?cs)) ?cs = (stay, move)" by fastforce
      have "length ?cs = 4" using False cs(2) by simp
      note D = divide_ok [OF node_split_ok this d]
      have "set stay \<union> set move = set ?cs" using D(1) by (metis set_mset_mset set_mset_union)
      then have "rtree_ok (Suc h) (make_node stay)" "rtree_ok (Suc h) (make_node move)"
        using all D by (auto intro!: make_node_ok(1))
      then show ?thesis
        using Halves False d tot sum_list_divide [OF D(1), of footholds] make_node_ok(2)
        by (simp add: insertion_ok_def regrow_def)
    qed
  qed
qed

lemma insert_below_ok: "rtree_ok h t \<Longrightarrow> insertion_ok h (add_mset fh (footholds t)) (insert_below fh t)"
proof (induction fh t arbitrary: h rule: insert_below.induct)
  case (1 fh b fs)
  show ?case
  proof (cases "length fs < 3")
    case True
    then show ?thesis using 1 by (auto simp: insertion_ok_def covers_grow covers_mbr)
  next
    case False
    obtain stay move where d: "divide (leaf_split (map foothold_mbr (fs @ [fh]))) (fs @ [fh]) = (stay, move)" by fastforce
    have "length (fs @ [fh]) = 4" using 1 False by simp
    note D = divide_ok [OF leaf_split_ok this d]
    show ?thesis using 1 False d D make_leaf_ok by (simp add: insertion_ok_def)
  qed
next
  case (2 fh b cs)
  let ?i = "choose_child (map tree_bound cs) (foothold_mbr fh)"
  obtain k where k: "h = Suc k" using 2(2) by (cases h) auto
  have i: "?i < length cs" using choose_child_less [of "map tree_bound cs"] 2(2) by simp
  then have "rtree_ok k (cs ! ?i)" using 2(2) k by simp
  from regrow_ok [OF 2(2) [unfolded k] i 2(1) [OF refl i this]] show ?case
    using i k by (simp add: Let_def)
qed

lemma insert_foothold_ok:
  assumes "rtree_ok h t"
  shows "\<exists>h' t'. insert_foothold (Some t) fh = Some t' \<and> rtree_ok h' t' \<and> footholds t' = add_mset fh (footholds t)"
  using insert_below_ok [OF assms, of fh]
  by (cases "insert_below fh t") (force simp: insertion_ok_def insert_foothold_def covers_mbr intro: exI [of _ "Suc h"])+

subsection \<open>Search finds the nearest foothold\<close>

definition reachable_below :: "point \<Rightarrow> foothold \<Rightarrow> bool" where
  "reachable_below p fh \<longleftrightarrow> \<not> skipped fh p \<and> get_distance_below fh p < 32767"

text \<open>The specification: some nearest one of the footholds below the point, nothing if there is none.\<close>

definition nearest_below :: "point \<Rightarrow> foothold set \<Rightarrow> foothold option \<Rightarrow> bool" where
  "nearest_below p fs r \<longleftrightarrow>
     (case r of
        None \<Rightarrow> \<forall>fh \<in> fs. \<not> reachable_below p fh
      | Some fh \<Rightarrow> fh \<in> fs \<and> reachable_below p fh \<and> (\<forall>g \<in> fs. reachable_below p g \<longrightarrow> get_distance_below fh p \<le> get_distance_below g p))"

definition best_so_far :: "point \<Rightarrow> foothold option set \<Rightarrow> foothold option \<times> int \<Rightarrow> bool" where
  "best_so_far p cs st \<longleftrightarrow>
     (case fst st of None \<Rightarrow> snd st = 32767 | Some fh \<Rightarrow> Some fh \<in> cs \<and> snd st = get_distance_below fh p \<and> snd st < 32767) \<and>
     (\<forall>g. Some g \<in> cs \<longrightarrow> snd st \<le> get_distance_below g p)"

lemma keep_nearer_best: "best_so_far p cs st \<Longrightarrow> best_so_far p (insert c cs) (keep_nearer p st c)"
  by (cases c; cases "fst st") (auto simp: best_so_far_def keep_nearer_def)

lemma nearest_best: "\<exists>d. best_so_far p (set cs) (nearest p cs, d)"
proof -
  have "best_so_far p (ds \<union> set cs) (foldl (keep_nearer p) st cs)" if "best_so_far p ds st" for st ds
    using that
  proof (induction cs arbitrary: st ds)
    case (Cons c cs)
    from Cons.IH [OF keep_nearer_best [OF Cons.prems, of c]] show ?case by simp
  qed simp
  from this [of "{}" "(None, 32767)"] have "best_so_far p (set cs) (foldl (keep_nearer p) (None, 32767) cs)"
    by (simp add: best_so_far_def)
  then show ?thesis unfolding nearest_def by (metis prod.collapse)
qed

text \<open>A point that a bound excludes has nothing below it there.\<close>

lemma outside_unreachable:
  assumes "pt_x (rc_sw b) > pt_x p \<or> pt_y (rc_sw b) < pt_y p" and "covers b (foothold_mbr fh)"
  shows "\<not> reachable_below p fh"
  using assms by (auto simp: reachable_below_def skipped_def covers_def foothold_mbr_def Let_def)

lemma rtree_ok_covers: "rtree_ok h t \<Longrightarrow> fh \<in># footholds t \<Longrightarrow> covers (tree_bound t) (foothold_mbr fh)"
proof (induction t arbitrary: h)
  case (Node b cs)
  from Node.prems obtain c where "c \<in> set cs" "fh \<in># footholds c" by (auto simp: in_footholds)
  with Node show ?case using covers_trans by fastforce
qed auto

lemma nearest_belowI:
  assumes "best_so_far p cs (r, d)" and "\<And>fh. Some fh \<in> cs \<Longrightarrow> fh \<in> fs \<and> \<not> skipped fh p"
    and "\<And>g. g \<in> fs \<Longrightarrow> reachable_below p g \<Longrightarrow> \<exists>fh. Some fh \<in> cs \<and> get_distance_below fh p \<le> get_distance_below g p"
  shows "nearest_below p fs r"
proof (cases r)
  case None
  have "\<not> reachable_below p g" if "g \<in> fs" for g
  proof
    assume "reachable_below p g"
    with assms(3) [OF that] assms(1) None show False
      by (force simp: best_so_far_def reachable_below_def)
  qed
  then show ?thesis using None by (simp add: nearest_below_def)
next
  case (Some fh)
  then show ?thesis using assms by (fastforce simp: best_so_far_def nearest_below_def reachable_below_def)
qed

lemma tree_find_below_ok: "rtree_ok h t \<Longrightarrow> nearest_below p (set_mset (footholds t)) (tree_find_below t p)"
proof (induction t arbitrary: h)
  case (Leaf b fs)
  show ?case
  proof (cases "pt_x (rc_sw b) > pt_x p \<or> pt_y (rc_sw b) < pt_y p")
    case True
    then show ?thesis using Leaf outside_unreachable [OF True] by (auto simp: nearest_below_def)
  next
    case False
    let ?cs = "map (\<lambda>fh. if skipped fh p then None else Some fh) fs"
    obtain d where "best_so_far p (set ?cs) (nearest p ?cs, d)" using nearest_best by blast
    then have "nearest_below p (set fs) (nearest p ?cs)"
      by (rule nearest_belowI) (auto simp: reachable_below_def split: if_split_asm intro: rev_image_eqI)
    then show ?thesis using False by simp
  qed
next
  case (Node b cs)
  have fs: "set_mset (footholds (Node b cs)) = (\<Union>c \<in> set cs. set_mset (footholds c))" by (auto simp: in_footholds)
  show ?case
  proof (cases "pt_x (rc_sw b) > pt_x p \<or> pt_y (rc_sw b) < pt_y p")
    case True
    then show ?thesis
      using outside_unreachable [OF True rtree_ok_covers [OF Node.prems, unfolded tree_bound.simps]] by (simp add: nearest_below_def)
  next
    case False
    let ?cs = "map (\<lambda>c. tree_find_below c p) cs"
    obtain d where best: "best_so_far p (set ?cs) (nearest p ?cs, d)" using nearest_best by blast
    have IH: "nearest_below p (set_mset (footholds c)) (tree_find_below c p)" if "c \<in> set cs" for c
      using Node that by auto
    have "nearest_below p (set_mset (footholds (Node b cs))) (nearest p ?cs)"
      unfolding fs
    proof (rule nearest_belowI [OF best])
      fix fh
      assume "Some fh \<in> set ?cs"
      then obtain c where "c \<in> set cs" "tree_find_below c p = Some fh" by auto
      with IH [of c] show "fh \<in> (\<Union>c \<in> set cs. set_mset (footholds c)) \<and> \<not> skipped fh p"
        by (auto simp: nearest_below_def reachable_below_def)
    next
      fix g
      assume "g \<in> (\<Union>c \<in> set cs. set_mset (footholds c))" "reachable_below p g"
      then obtain c where c: "c \<in> set cs" "g \<in># footholds c" by auto
      with IH [OF c(1)] \<open>reachable_below p g\<close> obtain fh where
        "tree_find_below c p = Some fh" "get_distance_below fh p \<le> get_distance_below g p"
        by (auto simp: nearest_below_def split: option.split_asm)
      with c(1) show "\<exists>fh. Some fh \<in> set ?cs \<and> get_distance_below fh p \<le> get_distance_below g p" by force
    qed
    then show ?thesis using False by simp
  qed
qed

subsection \<open>Properties\<close>

definition tree_of :: "foothold list \<Rightarrow> rtree option" where
  "tree_of fhs = foldl insert_foothold None fhs"

lemma tree_of_ok: "fhs \<noteq> [] \<Longrightarrow> \<exists>h t. tree_of fhs = Some t \<and> rtree_ok h t \<and> footholds t = mset fhs"
proof (induction fhs rule: rev_induct)
  case (snoc fh fhs)
  show ?case
  proof (cases "fhs = []")
    case True
    have "rtree_ok 0 (Leaf (foothold_mbr fh) [fh])" by (simp add: covers_refl)
    then show ?thesis using True by (auto simp: tree_of_def insert_foothold_def)
  next
    case False
    with snoc.IH obtain h t where t: "tree_of fhs = Some t" "rtree_ok h t" "footholds t = mset fhs" by blast
    from insert_foothold_ok [OF t(2), of fh] t show ?thesis by (auto simp: tree_of_def)
  qed
qed simp

text \<open>
  C32: The tree holds the footholds that were put in, each as often as it was put in, and is
  balanced: whatever nodes are split on the way, all leaves have the same depth, all nodes have one
  to three entries, and every bounding rectangle covers everything below it.
\<close>

theorem foothold_tree_balanced:
  assumes "fhs \<noteq> []"
  shows "\<exists>h t. tree_of fhs = Some t \<and> rtree_ok h t \<and> footholds t = mset fhs"
  using assms by (rule tree_of_ok)

text \<open>Six footholds: a floor of four pieces, a platform above it and a wall.\<close>

definition some_footholds :: "foothold list" where
  "some_footholds =
     map (\<lambda>(i, x1, y1, x2, y2). \<lparr>fh_id = i, fh_p1 = \<lparr>pt_x = x1, pt_y = y1\<rparr>, fh_p2 = \<lparr>pt_x = x2, pt_y = y2\<rparr>\<rparr>)
       [(1, 0, 100, 90, 100), (2, 90, 100, 180, 100), (3, 180, 100, 270, 130), (4, 270, 130, 360, 130), (5, 40, 20, 130, 20), (6, 0, 0, 0, 100)]"

theorem foothold_tree_balanced_witness:
  "\<exists>h t. tree_of some_footholds = Some t \<and> rtree_ok h t \<and> footholds t = mset some_footholds"
  by (rule foothold_tree_balanced) (simp add: some_footholds_def)

text \<open>
  C8: Searching the tree gives the same answer as looking at every foothold: for every list of
  footholds and every point, the result is a nearest one of those below the point, and there is no
  result only if there is none (or none closer than 32767). Skipping subtrees by their bounding
  rectangles never skips an answer.
\<close>

theorem foothold_search_agrees_with_linear_search:
  assumes "fhs \<noteq> []"
  shows "\<exists>r. foothold_tree_find_below (tree_of fhs) p = Some r \<and> nearest_below p (set fhs) r"
  using tree_of_ok [OF assms] tree_find_below_ok by (fastforce simp: foothold_tree_find_below_def)

theorem foothold_search_agrees_with_linear_search_witness:
  "\<exists>r. foothold_tree_find_below (tree_of some_footholds) \<lparr>pt_x = 100, pt_y = 50\<rparr> = Some r \<and>
     nearest_below \<lparr>pt_x = 100, pt_y = 50\<rparr> (set some_footholds) r"
  by (rule foothold_search_agrees_with_linear_search) (simp add: some_footholds_def)

end
