(* ===== verification/World_Events.thy ===== *)
theory World_Events
  imports Keyed_Set
begin

text \<open>
  Events of the world (\<^verbatim>\<open>src/src/channel/events.c\<close> and the event functions of
  \<^verbatim>\<open>src/src/channel/server.c\<close>): an event has properties with listeners and one timer with a callback.
  The ships, trains and lifts go round in three phases, the area bosses are made available again at
  intervals, and so are the monsters.

  The callbacks of the macro \<open>DEFINE_TRANSPORT_EVENT_FUNCTIONS\<close> are constructors of \<open>callback\<close>, run by
  \<open>run_callback\<close>. The hash set of properties and that of maps are those of \<open>Keyed_Set\<close>, so that an
  operation may fail to return, which is \<open>None\<close>. A listener that has been removed leaves a null pointer in
  the array: \<open>pr_listeners\<close> has \<open>False\<close> there. What \<open>evuser_trigger\<close> is called for is part of the result.
\<close>

subsection \<open>Changing an element in place\<close>

text \<open>An assignment through the pointer that \<open>hash_set_u32_get\<close> returns.\<close>

definition hash_set_modify :: "('d \<Rightarrow> 'k) \<Rightarrow> 'k \<Rightarrow> ('d \<Rightarrow> 'd) \<Rightarrow> 'd hash_set \<Rightarrow> 'd hash_set" where
  "hash_set_modify key k f hs = fst (hash_set_foreach_keep (\<lambda>d c. (if key d = k then f d else d, c)) hs ())"

lemma foreach_slots_map: "elems sts (fst (foreach_slots (\<lambda>d c. (g d, c)) sts ds c)) = map g (elems sts ds)"
proof (induction sts arbitrary: ds)
  case (Cons st sts)
  show ?case by (cases ds; cases st; cases "hd ds") (simp_all add: Cons case_prod_unfold)
qed (cases ds; simp)

lemma map_of_modify:
  assumes "\<And>d. key (f d) = key d"
  shows "map_of (map (\<lambda>d. (key d, d)) (map (\<lambda>d. if key d = k then f d else d) ds)) =
    (map_of (map (\<lambda>d. (key d, d)) ds))(k := map_option f (map_of (map (\<lambda>d. (key d, d)) ds) k))"
  by (induction ds) (auto simp: assms fun_eq_iff)

lemma hash_set_modify_ok:
  assumes inv: "hash_set_inv hash key hs" and f: "\<And>d. key (f d) = key d"
  shows "hash_set_inv hash key (hash_set_modify key k f hs)"
    "hash_set_map key (hash_set_modify key k f hs) = (hash_set_map key hs)(k := map_option f (hash_set_map key hs k))"
proof -
  let ?g = "\<lambda>d. if key d = k then f d else d"
  show "hash_set_inv hash key (hash_set_modify key k f hs)"
    unfolding hash_set_modify_def by (rule hash_set_foreach_ok(1) [OF inv]) (simp add: f)
  have "hash_set_map key (hash_set_modify key k f hs) = map_of (map (\<lambda>d. (key d, d)) (map ?g (elems (states hs) (data hs))))"
    unfolding hash_set_map_def hash_set_modify_def hash_set_foreach_keep_def
    by (simp add: case_prod_unfold foreach_slots_map)
  also have "\<dots> = (hash_set_map key hs)(k := map_option f (hash_set_map key hs k))"
    unfolding hash_set_map_def by (rule map_of_modify) (rule f)
  finally show "hash_set_map key (hash_set_modify key k f hs) = (hash_set_map key hs)(k := map_option f (hash_set_map key hs k))" .
qed

subsection \<open>Events\<close>

datatype transport = Boat | Train | Subway | Genie | Airplane | Elevator

datatype callback = Arrive transport | Close_gates transport | Depart transport | Area_boss_reset | Global_respawn_reset

record event_property =
  pr_id :: u32
  pr_value :: int
  pr_listeners :: "bool list"

text \<open>\<open>evt_timer\<close> has the seconds for which the timer has been set, \<open>None\<close> if it is not pending.\<close>

record event =
  evt_properties :: "event_property hash_set"
  evt_timer :: "nat option"
  evt_f :: "callback option"

datatype event_error = No_property | No_listener

definition event_set_property :: "(bytes \<Rightarrow> u64) \<Rightarrow> bool \<Rightarrow> u32 \<Rightarrow> int \<Rightarrow> event \<Rightarrow> (event \<times> nat list) option" where
  "event_set_property xxh3 mem p v e =
     (case hash_set_u32_get xxh3 pr_id (evt_properties e) p of
        None \<Rightarrow> None
      | Some None \<Rightarrow>
          map_option (\<lambda>(hs, r). (e\<lparr>evt_properties := hs\<rparr>, []))
            (hash_set_u32_insert xxh3 pr_id mem (evt_properties e) \<lparr>pr_id = p, pr_value = v, pr_listeners = []\<rparr>)
      | Some (Some pr) \<Rightarrow>
          Some (e\<lparr>evt_properties := hash_set_modify pr_id p (\<lambda>q. q\<lparr>pr_value := v\<rparr>) (evt_properties e)\<rparr>,
                filter (\<lambda>i. pr_listeners pr ! i) [0..<length (pr_listeners pr)]))"

definition event_has_property :: "(bytes \<Rightarrow> u64) \<Rightarrow> u32 \<Rightarrow> event \<Rightarrow> bool option" where
  "event_has_property xxh3 p e = map_option (\<lambda>pr. pr \<noteq> None) (hash_set_u32_get xxh3 pr_id (evt_properties e) p)"

definition event_get_property :: "(bytes \<Rightarrow> u64) \<Rightarrow> u32 \<Rightarrow> event \<Rightarrow> (event_error + int) option" where
  "event_get_property xxh3 p e =
     map_option (\<lambda>pr. case pr of None \<Rightarrow> Inl No_property | Some pr \<Rightarrow> Inr (pr_value pr)) (hash_set_u32_get xxh3 pr_id (evt_properties e) p)"

definition event_add_listener :: "(bytes \<Rightarrow> u64) \<Rightarrow> u32 \<Rightarrow> event \<Rightarrow> (event_error + event \<times> nat) option" where
  "event_add_listener xxh3 p e =
     map_option (\<lambda>pr. case pr of
         None \<Rightarrow> Inl No_property
       | Some pr \<Rightarrow>
           Inr (e\<lparr>evt_properties := hash_set_modify pr_id p (\<lambda>q. q\<lparr>pr_listeners := pr_listeners q @ [True]\<rparr>) (evt_properties e)\<rparr>,
                length (pr_listeners pr)))
       (hash_set_u32_get xxh3 pr_id (evt_properties e) p)"

definition event_remove_listener :: "(bytes \<Rightarrow> u64) \<Rightarrow> u32 \<Rightarrow> nat \<Rightarrow> event \<Rightarrow> (event_error + event) option" where
  "event_remove_listener xxh3 p l e =
     map_option (\<lambda>pr. case pr of
         None \<Rightarrow> Inl No_property
       | Some pr \<Rightarrow>
           if l < length (pr_listeners pr) \<and> pr_listeners pr ! l
           then Inr (e\<lparr>evt_properties := hash_set_modify pr_id p (\<lambda>q. q\<lparr>pr_listeners := (pr_listeners q)[l := False]\<rparr>) (evt_properties e)\<rparr>)
           else Inl No_listener)
       (hash_set_u32_get xxh3 pr_id (evt_properties e) p)"

definition event_schedule :: "callback \<Rightarrow> nat \<Rightarrow> event \<Rightarrow> event" where
  "event_schedule f sec e = e\<lparr>evt_timer := Some sec, evt_f := Some f\<rparr>"

subsection \<open>The events of the game\<close>

text \<open>The numbers of the events; the property that a transport sets is number 0 for all of them.\<close>

fun event_number :: "transport \<Rightarrow> nat" where
  "event_number Boat = 0"
| "event_number Train = 1"
| "event_number Subway = 2"
| "event_number Genie = 3"
| "event_number Airplane = 4"
| "event_number Elevator = 5"

definition PROPERTY_SAILING :: u32 where
  "PROPERTY_SAILING = 0"

definition EVENT_AREA_BOSS_PROPERTY_RESET :: u32 where
  "EVENT_AREA_BOSS_PROPERTY_RESET = 0"

definition set_and_sched :: "(bytes \<Rightarrow> u64) \<Rightarrow> bool \<Rightarrow> u32 \<Rightarrow> int \<Rightarrow> nat \<Rightarrow> callback \<Rightarrow> event \<Rightarrow> (event \<times> nat list) option" where
  "set_and_sched xxh3 mem p v sec f e =
     map_option (\<lambda>(e, ls). (event_schedule f sec e, ls)) (event_set_property xxh3 mem p v e)"

text \<open>A callback, with the set \<open>MAPS\<close> of the maps where the area boss is out.\<close>

fun run_callback :: "(bytes \<Rightarrow> u64) \<Rightarrow> bool \<Rightarrow> callback \<Rightarrow> u32 hash_set \<times> event \<Rightarrow> ((u32 hash_set \<times> event) \<times> nat list) option" where
  "run_callback xxh3 mem (Arrive t) (maps, e) =
     map_option (\<lambda>(e, ls). ((maps, e), ls)) (set_and_sched xxh3 mem PROPERTY_SAILING 0 4 (Close_gates t) e)"
| "run_callback xxh3 mem (Close_gates t) (maps, e) =
     map_option (\<lambda>(e, ls). ((maps, e), ls)) (set_and_sched xxh3 mem PROPERTY_SAILING 1 1 (Depart t) e)"
| "run_callback xxh3 mem (Depart t) (maps, e) =
     map_option (\<lambda>(e, ls). ((maps, e), ls)) (set_and_sched xxh3 mem PROPERTY_SAILING 2 10 (Arrive t) e)"
| "run_callback xxh3 mem Area_boss_reset (maps, e) =
     map_option (\<lambda>(e, ls). ((hash_set_u32_clear maps, event_schedule Area_boss_reset 15 e), ls))
       (event_set_property xxh3 mem EVENT_AREA_BOSS_PROPERTY_RESET 0 e)"
| "run_callback xxh3 mem Global_respawn_reset (maps, e) =
     map_option (\<lambda>(e, ls). ((maps, event_schedule Global_respawn_reset 10 e), ls)) (event_set_property xxh3 mem 0 0 e)"

text \<open>The timer of an event expires.\<close>

definition on_event :: "(bytes \<Rightarrow> u64) \<Rightarrow> bool \<Rightarrow> u32 hash_set \<times> event \<Rightarrow> ((u32 hash_set \<times> event) \<times> nat list) option" where
  "on_event xxh3 mem s =
     (case s of (maps, e) \<Rightarrow>
        case evt_f e of None \<Rightarrow> None | Some f \<Rightarrow> run_callback xxh3 mem f (maps, e\<lparr>evt_timer := None\<rparr>))"

definition event_transport_init :: "(bytes \<Rightarrow> u64) \<Rightarrow> bool \<Rightarrow> transport \<Rightarrow> event list \<Rightarrow> (event list \<times> nat list) option" where
  "event_transport_init xxh3 mem t es =
     map_option (\<lambda>(e, ls). (es[event_number t := e], ls))
       (set_and_sched xxh3 mem PROPERTY_SAILING 0 4 (Close_gates t) (es ! event_number t))"

definition event_area_boss_init :: "(bytes \<Rightarrow> u64) \<Rightarrow> bool \<Rightarrow> event \<Rightarrow> ((u32 hash_set \<times> event) \<times> nat list) option" where
  "event_area_boss_init xxh3 mem e =
     (case hash_set_u32_create mem of None \<Rightarrow> None | Some maps \<Rightarrow> run_callback xxh3 mem Area_boss_reset (maps, e))"

definition event_area_boss_register :: "(bytes \<Rightarrow> u64) \<Rightarrow> bool \<Rightarrow> u32 \<Rightarrow> u32 hash_set \<Rightarrow> (u32 hash_set \<times> bool) option" where
  "event_area_boss_register xxh3 mem m maps =
     (case hash_set_u32_get xxh3 id maps m of
        None \<Rightarrow> None
      | Some (Some _) \<Rightarrow> Some (maps, True)
      | Some None \<Rightarrow> map_option (\<lambda>(hs, r). (hs, False)) (hash_set_u32_insert xxh3 id mem maps m))"

definition event_global_respawn_init :: "(bytes \<Rightarrow> u64) \<Rightarrow> bool \<Rightarrow> event \<Rightarrow> (event \<times> nat list) option" where
  "event_global_respawn_init xxh3 mem e =
     map_option (\<lambda>(e, ls). (event_schedule Global_respawn_reset 10 e, ls)) (event_set_property xxh3 mem 0 0 e)"

subsection \<open>Properties\<close>

abbreviation event_ok :: "(bytes \<Rightarrow> u64) \<Rightarrow> event \<Rightarrow> bool" where
  "event_ok xxh3 e \<equiv> hash_set_inv (hash_u32 xxh3) pr_id (evt_properties e)"

definition property_of :: "event \<Rightarrow> u32 \<Rightarrow> event_property option" where
  "property_of e p = hash_set_map pr_id (evt_properties e) p"

text \<open>What setting a property does: the value is stored under the same listeners, and those that have not
  been removed are triggered.\<close>

lemma event_set_property_ok:
  assumes "event_ok xxh3 e"
  shows "\<exists>e' ls. event_set_property xxh3 True p v e = Some (e', ls) \<and> event_ok xxh3 e' \<and> evt_timer e' = evt_timer e \<and> evt_f e' = evt_f e \<and>
    (case property_of e p of
       None \<Rightarrow> property_of e' p = Some \<lparr>pr_id = p, pr_value = v, pr_listeners = []\<rparr> \<and> ls = []
     | Some pr \<Rightarrow> property_of e' p = Some (pr\<lparr>pr_value := v\<rparr>) \<and> ls = filter (\<lambda>i. pr_listeners pr ! i) [0..<length (pr_listeners pr)])"
proof (cases "property_of e p")
  case None
  then obtain hs where "hash_set_u32_insert xxh3 pr_id True (evt_properties e) \<lparr>pr_id = p, pr_value = v, pr_listeners = []\<rparr> = Some (hs, 0)"
    "hash_set_inv (hash_u32 xxh3) pr_id hs" "hash_set_map pr_id hs = (hash_set_map pr_id (evt_properties e))(p \<mapsto> \<lparr>pr_id = p, pr_value = v, pr_listeners = []\<rparr>)"
    using u32.insert_law [OF assms, of "\<lparr>pr_id = p, pr_value = v, pr_listeners = []\<rparr>"] by (auto simp: property_of_def)
  then show ?thesis using None u32.get_law [OF assms, of p] by (simp add: event_set_property_def property_of_def)
next
  case (Some pr)
  then show ?thesis
    using u32.get_law [OF assms, of p] hash_set_modify_ok [OF assms, of "\<lambda>q. q\<lparr>pr_value := v\<rparr>" p]
    by (simp add: event_set_property_def property_of_def)
qed

text \<open>The phases of a transport: the value of the property, the time until the next phase, and the callback.\<close>

fun phase :: "transport \<Rightarrow> nat \<Rightarrow> int \<times> nat \<times> callback" where
  "phase t 0 = (0, 4, Close_gates t)"
| "phase t (Suc 0) = (1, 1, Depart t)"
| "phase t _ = (2, 10, Arrive t)"

definition in_phase :: "(bytes \<Rightarrow> u64) \<Rightarrow> transport \<Rightarrow> nat \<Rightarrow> event \<Rightarrow> bool" where
  "in_phase xxh3 t k e \<longleftrightarrow> event_ok xxh3 e \<and>
     (\<exists>pr. property_of e PROPERTY_SAILING = Some pr \<and> (pr_value pr, evt_timer e, evt_f e) = (case phase t k of (v, sec, f) \<Rightarrow> (v, Some sec, Some f)))"

lemma set_and_sched_phase:
  assumes "event_ok xxh3 e" and "phase t k = (v, sec, f)"
  shows "\<exists>e' ls. set_and_sched xxh3 True PROPERTY_SAILING v sec f e = Some (e', ls) \<and> in_phase xxh3 t k e' \<and>
    (\<forall>pr. property_of e PROPERTY_SAILING = Some pr \<longrightarrow>
       ls = filter (\<lambda>i. pr_listeners pr ! i) [0..<length (pr_listeners pr)] \<and>
       map_option pr_listeners (property_of e' PROPERTY_SAILING) = Some (pr_listeners pr))"
proof -
  from event_set_property_ok [OF assms(1), of PROPERTY_SAILING v] obtain e' ls where
    e': "event_set_property xxh3 True PROPERTY_SAILING v e = Some (e', ls)" "event_ok xxh3 e'"
    and pr: "case property_of e PROPERTY_SAILING of
       None \<Rightarrow> property_of e' PROPERTY_SAILING = Some \<lparr>pr_id = PROPERTY_SAILING, pr_value = v, pr_listeners = []\<rparr> \<and> ls = []
     | Some pr \<Rightarrow> property_of e' PROPERTY_SAILING = Some (pr\<lparr>pr_value := v\<rparr>) \<and> ls = filter (\<lambda>i. pr_listeners pr ! i) [0..<length (pr_listeners pr)]"
    by blast
  have same: "property_of (event_schedule f sec e') = property_of e'" by (simp add: fun_eq_iff property_of_def event_schedule_def)
  have "in_phase xxh3 t k (event_schedule f sec e')"
    using assms(2) e'(2) pr unfolding in_phase_def same by (auto simp: event_schedule_def split: option.split_asm)
  then show ?thesis
    using e'(1) pr same by (auto simp: set_and_sched_def split: option.split_asm)
qed

text \<open>The states a transport gets into: it is set up, its timer expires, and listeners come and go.\<close>

inductive transport_run :: "(bytes \<Rightarrow> u64) \<Rightarrow> transport \<Rightarrow> event \<Rightarrow> bool" for xxh3 t where
  init: "event_ok xxh3 e \<Longrightarrow> event_transport_init xxh3 True t es = Some (es', ls) \<Longrightarrow>
    event_number t < length es \<Longrightarrow> es ! event_number t = e \<Longrightarrow> transport_run xxh3 t (es' ! event_number t)"
| fire: "transport_run xxh3 t e \<Longrightarrow> on_event xxh3 True (maps, e) = Some ((maps', e'), ls) \<Longrightarrow> transport_run xxh3 t e'"
| listen: "transport_run xxh3 t e \<Longrightarrow> event_add_listener xxh3 PROPERTY_SAILING e = Some (Inr (e', l)) \<Longrightarrow> transport_run xxh3 t e'"
| ignore: "transport_run xxh3 t e \<Longrightarrow> event_remove_listener xxh3 PROPERTY_SAILING l e = Some (Inr e') \<Longrightarrow> transport_run xxh3 t e'"

lemma on_event_phase:
  assumes "in_phase xxh3 t k e" and "k < 3"
  shows "\<exists>e' ls. on_event xxh3 True (maps, e) = Some ((maps, e'), ls) \<and> in_phase xxh3 t ((k + 1) mod 3) e' \<and>
    (\<forall>pr. property_of e PROPERTY_SAILING = Some pr \<longrightarrow>
       ls = filter (\<lambda>i. pr_listeners pr ! i) [0..<length (pr_listeners pr)] \<and>
       map_option pr_listeners (property_of e' PROPERTY_SAILING) = Some (pr_listeners pr))"
proof -
  let ?e = "e\<lparr>evt_timer := None\<rparr>"
  have ok: "event_ok xxh3 ?e" and same: "property_of ?e = property_of e"
    using assms(1) by (simp_all add: in_phase_def property_of_def fun_eq_iff)
  note S = set_and_sched_phase [OF ok, of t, unfolded same]
  from assms(2) consider "k = 0" | "k = 1" | "k = 2" by linarith
  then show ?thesis
  proof cases
    case 1
    then show ?thesis using assms(1) S [of 1 1 1 "Depart t"] by (auto simp: on_event_def in_phase_def)
  next
    case 2
    then show ?thesis using assms(1) S [of 2 2 10 "Arrive t"] by (auto simp: on_event_def in_phase_def numeral_2_eq_2)
  next
    case 3
    then show ?thesis using assms(1) S [of 0 0 4 "Close_gates t"] by (auto simp: on_event_def in_phase_def numeral_2_eq_2)
  qed
qed

lemma in_phase_listeners:
  assumes "in_phase xxh3 t k e"
  shows "in_phase xxh3 t k (e\<lparr>evt_properties := hash_set_modify pr_id PROPERTY_SAILING (\<lambda>q. q\<lparr>pr_listeners := f (pr_listeners q)\<rparr>) (evt_properties e)\<rparr>)"
  using assms hash_set_modify_ok [of "hash_u32 xxh3" pr_id "evt_properties e" "\<lambda>q. q\<lparr>pr_listeners := f (pr_listeners q)\<rparr>" PROPERTY_SAILING]
  by (auto simp: in_phase_def property_of_def)

lemma transport_run_phase: "transport_run xxh3 t e \<Longrightarrow> \<exists>k < 3. in_phase xxh3 t k e"
proof (induction rule: transport_run.induct)
  case (init e es es' ls)
  from set_and_sched_phase [OF init(1), of t 0 0 4 "Close_gates t"] init(2-4) show ?case
    by (auto simp: event_transport_init_def intro!: exI [of _ 0])
next
  case (fire e maps maps' e' ls)
  then obtain k where k: "k < 3" "in_phase xxh3 t k e" by blast
  from on_event_phase [OF k(2,1), of maps] fire(2) show ?case by (auto intro: exI [of _ "(k + 1) mod 3"])
next
  case (listen e e' l)
  then obtain k where k: "k < 3" "in_phase xxh3 t k e" by blast
  from in_phase_listeners [OF k(2), of "\<lambda>ls. ls @ [True]"] k(1) listen(2) show ?case
    by (auto simp: event_add_listener_def split: option.split_asm)
next
  case (ignore e l e')
  then obtain k where k: "k < 3" "in_phase xxh3 t k e" by blast
  from in_phase_listeners [OF k(2), of "\<lambda>ls. ls[l := False]"] k(1) ignore(2) show ?case
    by (auto simp: event_remove_listener_def split: option.split_asm if_split_asm)
qed

text \<open>
  C34: A transport never stops. In every state that it gets into, whatever listeners come and go, the
  timer is pending; when it expires, the transport moves on to the next of its three phases (arrived
  for 4 seconds, gates closed for 1 second, under way for 10 seconds), triggers exactly the
  listeners that are registered, and sets the timer again.
\<close>

theorem transport_keeps_going:
  assumes "transport_run xxh3 t e"
  shows "\<exists>k pr. k < 3 \<and> property_of e PROPERTY_SAILING = Some pr \<and> pr_value pr = int k \<and> evt_timer e = Some ([4, 1, 10] ! k) \<and>
    (\<forall>maps. \<exists>e' pr'. on_event xxh3 True (maps, e) = Some ((maps, e'), filter (\<lambda>i. pr_listeners pr ! i) [0..<length (pr_listeners pr)]) \<and>
       property_of e' PROPERTY_SAILING = Some pr' \<and> pr_value pr' = int ((k + 1) mod 3) \<and> pr_listeners pr' = pr_listeners pr \<and>
       evt_timer e' = Some ([4, 1, 10] ! ((k + 1) mod 3)))"
proof -
  have phase: "\<exists>pr. property_of e PROPERTY_SAILING = Some pr \<and> pr_value pr = int k \<and> evt_timer e = Some ([4, 1, 10] ! k)"
    if "k < 3" "in_phase xxh3 t k e" for k e
  proof -
    from that(1) consider "k = 0" | "k = 1" | "k = 2" by linarith
    then show ?thesis using that(2) by cases (auto simp: in_phase_def numeral_2_eq_2)
  qed
  from transport_run_phase [OF assms] obtain k where k: "k < 3" "in_phase xxh3 t k e" by blast
  from phase [OF this] obtain pr where pr: "property_of e PROPERTY_SAILING = Some pr" "pr_value pr = int k" "evt_timer e = Some ([4, 1, 10] ! k)"
    by blast
  have next_phase: "\<exists>e' pr'. on_event xxh3 True (maps, e) = Some ((maps, e'), filter (\<lambda>i. pr_listeners pr ! i) [0..<length (pr_listeners pr)]) \<and>
       property_of e' PROPERTY_SAILING = Some pr' \<and> pr_value pr' = int ((k + 1) mod 3) \<and> pr_listeners pr' = pr_listeners pr \<and>
       evt_timer e' = Some ([4, 1, 10] ! ((k + 1) mod 3))" for maps
  proof -
    from on_event_phase [OF k(2,1), of maps] pr(1) obtain e' where
      e': "on_event xxh3 True (maps, e) = Some ((maps, e'), filter (\<lambda>i. pr_listeners pr ! i) [0..<length (pr_listeners pr)])"
        "in_phase xxh3 t ((k + 1) mod 3) e'" "map_option pr_listeners (property_of e' PROPERTY_SAILING) = Some (pr_listeners pr)" by auto
    from phase [OF _ e'(2)] e'(1,3) show ?thesis by auto
  qed
  from k(1) pr next_phase show ?thesis by blast
qed

definition no_properties :: "event_property hash_set" where
  "no_properties = \<lparr>capacity = 1, count = 0, states = [Free], data = [None], iterating = False\<rparr>"

theorem transport_keeps_going_witness:
  "\<exists>e pr. transport_run (\<lambda>_. 0) Train e \<and> property_of e PROPERTY_SAILING = Some pr \<and> (\<exists>k < 3. pr_value pr = int k \<and> evt_timer e = Some ([4, 1, 10] ! k))"
proof -
  let ?e = "\<lparr>evt_properties = no_properties, evt_timer = None, evt_f = None\<rparr>"
  have ok: "event_ok (\<lambda>_. 0) ?e" by (simp add: no_properties_def hash_set_inv_def table_ok_def)
  from set_and_sched_phase [OF ok, of Train 0 0 4 "Close_gates Train"] obtain e' ls where
    "set_and_sched (\<lambda>_. 0) True PROPERTY_SAILING 0 4 (Close_gates Train) ?e = Some (e', ls)" by auto
  then have "event_transport_init (\<lambda>_. 0) True Train (replicate 8 ?e) = Some ((replicate 8 ?e)[1 := e'], ls)"
    by (simp add: event_transport_init_def)
  from transport_run.init [OF ok this] have run: "transport_run (\<lambda>_. 0) Train ((replicate 8 ?e)[1 := e'] ! 1)" by simp
  from transport_keeps_going [OF run] run show ?thesis by blast
qed

text \<open>
  An area boss is handed out once per interval: registering a map tells whether the boss has been
  out there since the last reset and records that it has, and a reset makes it available again
  everywhere.
\<close>

theorem area_boss_once_per_reset:
  assumes "hash_set_inv (hash_u32 xxh3) id maps"
  shows "\<exists>maps'. event_area_boss_register xxh3 True m maps = Some (maps', m \<in> dom (hash_set_map id maps)) \<and>
    hash_set_inv (hash_u32 xxh3) id maps' \<and> dom (hash_set_map id maps') = insert m (dom (hash_set_map id maps)) \<and>
    hash_set_inv (hash_u32 xxh3) id (hash_set_u32_clear maps') \<and> dom (hash_set_map id (hash_set_u32_clear maps')) = {}"
proof -
  have "\<exists>maps'. event_area_boss_register xxh3 True m maps = Some (maps', m \<in> dom (hash_set_map id maps)) \<and>
      hash_set_inv (hash_u32 xxh3) id maps' \<and> dom (hash_set_map id maps') = insert m (dom (hash_set_map id maps))"
    using u32.get_law [OF assms, of m] u32.insert_law [OF assms, of m] assms
    by (cases "hash_set_map id maps m") (auto simp: event_area_boss_register_def)
  then show ?thesis using hash_set_clear_ok by (fastforce simp: hash_set_u32_clear_def)
qed

theorem area_boss_once_per_reset_witness:
  "\<exists>maps'. event_area_boss_register (\<lambda>_. 0) True 100040105 \<lparr>capacity = 1, count = 0, states = [Free], data = [None], iterating = False\<rparr> =
     Some (maps', False) \<and> dom (hash_set_map id maps') = {100040105}"
proof -
  let ?maps = "\<lparr>capacity = 1, count = 0, states = [Free], data = [None], iterating = False\<rparr> :: u32 hash_set"
  have "hash_set_inv (hash_u32 (\<lambda>_. 0)) id ?maps" by (simp add: hash_set_inv_def table_ok_def)
  moreover have "hash_set_map id ?maps = Map.empty" by (simp add: hash_set_map_def)
  ultimately show ?thesis using area_boss_once_per_reset [of "\<lambda>_. 0" ?maps 100040105] by auto
qed

end
