(* ===== verification/Rooms.thy ===== *)
theory Rooms
  imports Keyed_Set
begin

text \<open>
  Rooms (\<^verbatim>\<open>src/src/channel/server.c\<close>): a room is one game map with its sessions and its timers, and it
  lives as long as it has either of them or is kept alive explicitly.

  Timer handles are objects on the heap (\<open>rm_handles\<close>, from addresses to handles) that know their index in the
  room's array \<open>rm_timers\<close>; a handle that is removed is replaced by the last one. \<open>malloc\<close> delivers the address
  of a new handle as an argument, \<open>None\<close> without memory, and \<open>grow\<close> says whether \<open>realloc\<close> succeeds. Using a
  handle that is not there is \<open>Bad_handle\<close>, using a room after it has been destroyed is \<open>Dead_room\<close>. Of the
  sessions only the number matters here. The functions of the event library that set a timer are taken to
  succeed, as the code does.
\<close>

record ('f, 'd) timer_handle =
  th_index :: nat
  th_data :: 'd
  th_f :: 'f
  th_msec :: u64

record ('f, 'd) room =
  rm_id :: u32
  rm_sessionCount :: nat
  rm_timerCapacity :: nat
  rm_timers :: "nat list"
  rm_handles :: "nat \<rightharpoonup> ('f, 'd) timer_handle"
  rm_keepAlive :: bool
  rm_destroyed :: bool

datatype room_error = Bad_handle | Dead_room

definition create_room :: "bool \<Rightarrow> bool \<Rightarrow> bool \<Rightarrow> u32 \<Rightarrow> ('f, 'd) room option" where
  "create_room mem1 mem2 mem3 rid =
     (if mem1 \<and> mem2 \<and> mem3
      then Some \<lparr>rm_id = rid, rm_sessionCount = 0, rm_timerCapacity = 1, rm_timers = [], rm_handles = Map.empty,
                 rm_keepAlive = False, rm_destroyed = False\<rparr>
      else None)"

definition destroy_room :: "('f, 'd) room \<Rightarrow> ('f, 'd) room" where
  "destroy_room r = r\<lparr>rm_handles := Map.empty, rm_timers := [], rm_destroyed := True\<rparr>"

definition room_keep_alive :: "('f, 'd) room \<Rightarrow> ('f, 'd) room" where
  "room_keep_alive r = r\<lparr>rm_keepAlive := True\<rparr>"

definition room_break_off :: "('f, 'd) room \<Rightarrow> ('f, 'd) room" where
  "room_break_off r =
     (let r = r\<lparr>rm_keepAlive := False\<rparr> in if length (rm_timers r) = 0 \<and> rm_sessionCount r = 0 then destroy_room r else r)"

definition room_add_timer ::
  "nat option \<Rightarrow> bool \<Rightarrow> u64 \<Rightarrow> 'f \<Rightarrow> 'd \<Rightarrow> ('f, 'd) room \<Rightarrow> ('f, 'd) room \<times> nat option" where
  "room_add_timer new grow msec f d r =
     (case new of
        None \<Rightarrow> (r, None)
      | Some h \<Rightarrow>
          let full = (length (rm_timers r) = rm_timerCapacity r)
          in if full \<and> \<not> grow then (r, None)
             else let r = (if full then r\<lparr>rm_timerCapacity := rm_timerCapacity r * 2\<rparr> else r)
                  in (r\<lparr>rm_handles := (rm_handles r)(h \<mapsto> \<lparr>th_index = length (rm_timers r), th_data = d, th_f = f, th_msec = msec\<rparr>),
                        rm_timers := rm_timers r @ [h]\<rparr>, Some h))"

text \<open>The last handle takes the place of the one that goes.\<close>

definition take_handle_out :: "nat \<Rightarrow> ('f, 'd) room \<Rightarrow> room_error + ('f, 'd) room" where
  "take_handle_out h r =
     (case rm_handles r h of
        None \<Rightarrow> Inl Bad_handle
      | Some th \<Rightarrow>
          if th_index th \<ge> length (rm_timers r) then Inl Bad_handle
          else let l = last (rm_timers r); ts = (rm_timers r)[th_index th := l]
               in (case rm_handles r l of
                     None \<Rightarrow> Inl Bad_handle
                   | Some lt \<Rightarrow>
                       Inr (r\<lparr>rm_handles := ((rm_handles r)(l \<mapsto> lt\<lparr>th_index := th_index th\<rparr>))(h := None), rm_timers := butlast ts\<rparr>)))"

definition destroy_if_idle :: "('f, 'd) room \<Rightarrow> ('f, 'd) room" where
  "destroy_if_idle r = (if length (rm_timers r) = 0 \<and> rm_sessionCount r = 0 \<and> \<not> rm_keepAlive r then destroy_room r else r)"

definition room_stop_timer :: "nat \<Rightarrow> ('f, 'd) room \<Rightarrow> room_error + ('f, 'd) room" where
  "room_stop_timer h r = (if rm_destroyed r then Inl Dead_room else map_sum id destroy_if_idle (take_handle_out h r))"

text \<open>\<open>call f d r\<close> is what the callback \<open>f\<close> does to the room; the handle is still in the array when it runs.\<close>

definition on_timer_expired :: "('f \<Rightarrow> 'd \<Rightarrow> ('f, 'd) room \<Rightarrow> ('f, 'd) room) \<Rightarrow> nat \<Rightarrow> ('f, 'd) room \<Rightarrow> room_error + ('f, 'd) room" where
  "on_timer_expired call h r =
     (case rm_handles r h of
        None \<Rightarrow> Inl Bad_handle
      | Some th \<Rightarrow>
          let r = call (th_f th) (th_data th) r
          in if rm_destroyed r then Inl Dead_room else map_sum id destroy_if_idle (take_handle_out h r))"

definition timer_get_data :: "nat \<Rightarrow> ('f, 'd) room \<Rightarrow> 'd option" where
  "timer_get_data h r = map_option th_data (rm_handles r h)"

definition timer_set_data :: "nat \<Rightarrow> 'd \<Rightarrow> ('f, 'd) room \<Rightarrow> ('f, 'd) room" where
  "timer_set_data h d r = r\<lparr>rm_handles := (rm_handles r)(h := map_option (\<lambda>th. th\<lparr>th_data := d\<rparr>) (rm_handles r h))\<rparr>"

subsection \<open>The invariant\<close>

text \<open>The array and the handles know each other.\<close>

definition timers_ok :: "('f, 'd) room \<Rightarrow> bool" where
  "timers_ok r \<longleftrightarrow> distinct (rm_timers r) \<and> set (rm_timers r) = dom (rm_handles r) \<and>
     (\<forall>i < length (rm_timers r). map_option th_index (rm_handles r (rm_timers r ! i)) = Some i) \<and>
     length (rm_timers r) \<le> rm_timerCapacity r \<and> 0 < rm_timerCapacity r"

text \<open>What the callbacks see of the timers.\<close>

definition pending :: "('f, 'd) room \<Rightarrow> nat \<rightharpoonup> 'f \<times> 'd" where
  "pending r h = map_option (\<lambda>th. (th_f th, th_data th)) (rm_handles r h)"

definition idle :: "('f, 'd) room \<Rightarrow> bool" where
  "idle r \<longleftrightarrow> pending r = Map.empty \<and> rm_sessionCount r = 0 \<and> \<not> rm_keepAlive r"

lemma pending_empty: "timers_ok r \<Longrightarrow> pending r = Map.empty \<longleftrightarrow> length (rm_timers r) = 0"
proof -
  assume "timers_ok r"
  then have "set (rm_timers r) = dom (pending r)" by (auto simp: timers_ok_def pending_def)
  then show ?thesis by (metis dom_eq_empty_conv length_0_conv set_empty)
qed

lemma room_add_timer_ok:
  assumes "timers_ok r" and "h \<notin> dom (rm_handles r)"
  shows "\<exists>r'. room_add_timer (Some h) True msec f d r = (r', Some h) \<and> timers_ok r' \<and> pending r' = (pending r)(h \<mapsto> (f, d)) \<and>
    rm_destroyed r' = rm_destroyed r \<and> rm_sessionCount r' = rm_sessionCount r \<and> rm_keepAlive r' = rm_keepAlive r"
proof -
  let ?th = "\<lparr>th_index = length (rm_timers r), th_data = d, th_f = f, th_msec = msec\<rparr>"
  let ?cap = "if length (rm_timers r) = rm_timerCapacity r then rm_timerCapacity r * 2 else rm_timerCapacity r"
  let ?r = "r\<lparr>rm_timerCapacity := ?cap, rm_handles := (rm_handles r)(h \<mapsto> ?th), rm_timers := rm_timers r @ [h]\<rparr>"
  have h: "h \<notin> set (rm_timers r)" using assms by (simp add: timers_ok_def)
  then have "rm_timers r ! i \<noteq> h" if "i < length (rm_timers r)" for i using that nth_mem by metis
  then have "timers_ok ?r" using assms h by (auto simp: timers_ok_def nth_append less_Suc_eq)
  moreover have "room_add_timer (Some h) True msec f d r = (?r, Some h)"
    by (auto simp: room_add_timer_def Let_def)
  ultimately show ?thesis by (auto simp: pending_def fun_eq_iff)
qed

lemma take_handle_out_ok:
  assumes ok: "timers_ok r" and h: "h \<in> dom (rm_handles r)"
  shows "\<exists>r'. take_handle_out h r = Inr r' \<and> timers_ok r' \<and> pending r' = (pending r)(h := None) \<and>
    rm_destroyed r' = rm_destroyed r \<and> rm_sessionCount r' = rm_sessionCount r \<and> rm_keepAlive r' = rm_keepAlive r"
proof -
  note T = ok [unfolded timers_ok_def]
  from h obtain th where th: "rm_handles r h = Some th" by blast
  have "h \<in> set (rm_timers r)" using T h by simp
  then obtain i where i: "i < length (rm_timers r)" "rm_timers r ! i = h" by (auto simp: in_set_conv_nth)
  have idx: "th_index th = i" using T i th by fastforce
  let ?l = "last (rm_timers r)" and ?n = "length (rm_timers r) - 1"
  have l: "?l = rm_timers r ! ?n" "?l \<in> set (rm_timers r)" using i(1) by (cases "rm_timers r = []"; simp add: last_conv_nth)+
  then obtain lt where lt: "rm_handles r ?l = Some lt" using T by blast
  let ?hs = "((rm_handles r)(?l \<mapsto> lt\<lparr>th_index := i\<rparr>))(h := None)" and ?ts = "butlast ((rm_timers r)[i := ?l])"
  let ?r = "r\<lparr>rm_handles := ?hs, rm_timers := ?ts\<rparr>"
  have eq: "take_handle_out h r = Inr ?r"
    using th lt i(1) idx by (simp add: take_handle_out_def Let_def)
  have n: "?n < length (rm_timers r)" using i(1) by simp
  have nth: "?ts ! k = (if k = i then ?l else rm_timers r ! k)" if "k < ?n" for k
    using that by (simp add: nth_butlast nth_list_update)
  have ne: "rm_timers r ! k \<noteq> rm_timers r ! k'" if "k < length (rm_timers r)" "k' < length (rm_timers r)" "k \<noteq> k'" for k k'
    using T that by (simp add: nth_eq_iff_index_eq)
  have index: "map_option th_index (?hs (?ts ! k)) = Some k" if k: "k < ?n" for k
  proof (cases "k = i")
    case True
    then have "?l \<noteq> h" using ne [OF i(1) n] k i l(1) by auto
    then show ?thesis using True nth [OF k] by simp
  next
    case False
    have "rm_timers r ! k \<noteq> h" "rm_timers r ! k \<noteq> ?l" using ne [of k i] ne [OF _ n, of k] k i l(1) False by auto
    then show ?thesis using T nth [OF k] False k by simp
  qed
  have set_ts: "set ?ts = dom ?hs"
  proof -
    have "set ?ts = (\<lambda>k. ?ts ! k) ` {..<?n}" by (auto simp: set_conv_nth)
    also have "\<dots> = set (rm_timers r) - {h}"
    proof (intro equalityI subsetI)
      fix x
      assume "x \<in> (\<lambda>k. ?ts ! k) ` {..<?n}"
      then obtain k where k: "k < ?n" "x = ?ts ! k" by auto
      then have "k < length (rm_timers r)" by simp
      then show "x \<in> set (rm_timers r) - {h}"
        using nth [OF k(1)] l ne [OF i(1) n] ne [of k i] i k by (cases "k = i") auto
    next
      fix x
      assume "x \<in> set (rm_timers r) - {h}"
      then obtain k where k: "k < length (rm_timers r)" "x = rm_timers r ! k" "k \<noteq> i" using i(2) by (auto simp: in_set_conv_nth)
      show "x \<in> (\<lambda>k. ?ts ! k) ` {..<?n}"
      proof (cases "k = ?n")
        case True
        then have "i < ?n" "x = ?ts ! i" using k i(1) nth [of i] l(1) by auto
        then show ?thesis by blast
      next
        case False
        then have "k < ?n" "x = ?ts ! k" using k nth [of k] by auto
        then show ?thesis by blast
      qed
    qed
    also have "\<dots> = dom ?hs" using T lt by (auto split: if_split_asm)
    finally show ?thesis .
  qed
  have "distinct ?ts"
  proof -
    have "card (dom (rm_handles r)) = length (rm_timers r)" using T distinct_card by metis
    then have "card (set ?ts) = length ?ts" using set_ts h lt by (simp add: card_Diff_singleton insert_absorb domI)
    then show ?thesis by (rule card_distinct)
  qed
  moreover have "length ?ts \<le> rm_timerCapacity r" using T by (simp add: le_diff_conv)
  ultimately have "timers_ok ?r" using T index set_ts by (simp add: timers_ok_def)
  moreover have "pending ?r = (pending r)(h := None)" using lt by (auto simp: pending_def fun_eq_iff)
  ultimately show ?thesis using eq by simp
qed

text \<open>One timer less, and the room gone if that was what kept it.\<close>

definition without_timer :: "nat \<Rightarrow> ('f, 'd) room \<Rightarrow> room_error + ('f, 'd) room \<Rightarrow> bool" where
  "without_timer h r res \<longleftrightarrow>
     (\<exists>r1. timers_ok r1 \<and> pending r1 = (pending r)(h := None) \<and> rm_sessionCount r1 = rm_sessionCount r \<and>
        rm_keepAlive r1 = rm_keepAlive r \<and> res = Inr (if idle r1 then destroy_room r1 else r1))"

lemma take_out_without:
  assumes "timers_ok r" "\<not> rm_destroyed r" "h \<in> dom (rm_handles r)"
  shows "without_timer h r (map_sum id destroy_if_idle (take_handle_out h r))"
proof -
  from take_handle_out_ok [OF assms(1,3)] assms(2) obtain r1 where
    r1: "take_handle_out h r = Inr r1" "timers_ok r1" "pending r1 = (pending r)(h := None)" "rm_sessionCount r1 = rm_sessionCount r"
      "rm_keepAlive r1 = rm_keepAlive r" by auto
  have "destroy_if_idle r1 = (if idle r1 then destroy_room r1 else r1)"
    using pending_empty [OF r1(2)] by (auto simp: destroy_if_idle_def idle_def)
  then show ?thesis unfolding without_timer_def by (intro exI [of _ r1]) (simp add: r1)
qed

subsection \<open>Properties\<close>

text \<open>
  C35: Timers and the life of a room. As long as array and handles agree, adding a timer adds exactly
  that one and stopping one removes exactly that one, whatever its place in the array; array and
  handles agree again afterwards, and the room is destroyed exactly when its last timer is gone, no
  session is left and it is not kept alive. The same holds when a timer expires, for every callback
  that keeps the agreement, does not stop its own timer and does not destroy the room.
\<close>

theorem timers_keep_rooms_alive:
  assumes ok: "timers_ok r" and live: "\<not> rm_destroyed r"
  shows "(\<forall>h msec f d. h \<notin> dom (rm_handles r) \<longrightarrow>
      (\<exists>r'. room_add_timer (Some h) True msec f d r = (r', Some h) \<and> timers_ok r' \<and> \<not> rm_destroyed r' \<and> pending r' = (pending r)(h \<mapsto> (f, d)))) \<and>
    (\<forall>h \<in> dom (rm_handles r). without_timer h r (room_stop_timer h r)) \<and>
    (\<forall>h th call. rm_handles r h = Some th \<longrightarrow> timers_ok (call (th_f th) (th_data th) r) \<longrightarrow> h \<in> dom (rm_handles (call (th_f th) (th_data th) r)) \<longrightarrow>
      \<not> rm_destroyed (call (th_f th) (th_data th) r) \<longrightarrow> without_timer h (call (th_f th) (th_data th) r) (on_timer_expired call h r))"
proof (intro conjI allI ballI impI)
  show "\<exists>r'. room_add_timer (Some h) True msec f d r = (r', Some h) \<and> timers_ok r' \<and> \<not> rm_destroyed r' \<and> pending r' = (pending r)(h \<mapsto> (f, d))"
    if "h \<notin> dom (rm_handles r)" for h msec f d
    using room_add_timer_ok [OF ok that, of msec f d] live by auto
qed (use ok live in \<open>simp_all add: room_stop_timer_def on_timer_expired_def Let_def take_out_without\<close>)

theorem timers_keep_rooms_alive_witness:
  "\<exists>r :: (nat, nat) room. create_room True True True 100000000 = Some r \<and>
     (\<exists>r'. room_add_timer (Some 5) True 1000 0 7 r = (r', Some 5) \<and> room_stop_timer 5 r' = Inr (destroy_room (r'\<lparr>rm_timers := [], rm_handles := Map.empty\<rparr>)))"
proof -
  let ?r = "\<lparr>rm_id = 100000000, rm_sessionCount = 0, rm_timerCapacity = 1, rm_timers = [], rm_handles = Map.empty,
    rm_keepAlive = False, rm_destroyed = False\<rparr> :: (nat, nat) room"
  have "timers_ok ?r" by (simp add: timers_ok_def)
  with timers_keep_rooms_alive [of ?r] obtain r' where
    r': "room_add_timer (Some 5) True 1000 0 7 ?r = (r', Some 5)" "timers_ok r'" "\<not> rm_destroyed r'" "pending r' = [5 \<mapsto> (0, 7)]"
    by (fastforce simp: pending_def)
  have "room_stop_timer 5 r' = Inr (destroy_room (r'\<lparr>rm_timers := [], rm_handles := Map.empty\<rparr>))"
    using r'(1) by (auto simp: room_add_timer_def room_stop_timer_def take_handle_out_def destroy_if_idle_def Let_def)
  then show ?thesis using r'(1) by (auto simp: create_room_def)
qed

end
