(* ===== verification/Registries.thy ===== *)
theory Registries
  imports Keyed_Set
begin

text \<open>
  Two registries on top of the hash set with 32-bit keys: which thread serves a map
  (\<^verbatim>\<open>src/src/channel/thread-coordinator.c\<close>) and the parties (\<^verbatim>\<open>src/src/party.c\<close>). All operations run under
  a lock. An operation of the hash set may not return, which is \<open>None\<close>; \<open>mem\<close> says whether memory is available.
\<close>

subsection \<open>Threads of maps\<close>

record thread_pair =
  tp_map :: u32
  tp_thread :: nat

type_synonym coordinator = "thread_pair hash_set"

definition map_thread_coordinator_create :: "bool \<Rightarrow> coordinator option" where
  "map_thread_coordinator_create mem = (if mem then hash_set_u32_create mem else None)"

text \<open>The new pair is looked up again after it has been inserted; every map is given to thread 0.\<close>

definition map_thread_coordinator_ref :: "(bytes \<Rightarrow> u64) \<Rightarrow> bool \<Rightarrow> coordinator \<Rightarrow> u32 \<Rightarrow> (coordinator \<times> int) option" where
  "map_thread_coordinator_ref xxh3 mem mgr m =
     (case hash_set_u32_get xxh3 tp_map mgr m of
        None \<Rightarrow> None
      | Some (Some p) \<Rightarrow> Some (mgr, int (tp_thread p))
      | Some None \<Rightarrow>
          (case hash_set_u32_insert xxh3 tp_map mem mgr \<lparr>tp_map = m, tp_thread = 0\<rparr> of
             None \<Rightarrow> None
           | Some (mgr, r) \<Rightarrow>
               if r = - 1 then Some (mgr, - 1)
               else (case hash_set_u32_get xxh3 tp_map mgr m of
                       Some (Some p) \<Rightarrow> Some (mgr, int (tp_thread p))
                     | _ \<Rightarrow> None)))"

definition map_thread_coordinator_get :: "(bytes \<Rightarrow> u64) \<Rightarrow> coordinator \<Rightarrow> u32 \<Rightarrow> int option" where
  "map_thread_coordinator_get xxh3 mgr m =
     (case hash_set_u32_get xxh3 tp_map mgr m of
        None \<Rightarrow> None
      | Some None \<Rightarrow> Some (- 1)
      | Some (Some p) \<Rightarrow> Some (int (tp_thread p)))"

definition map_thread_coordinator_unref :: "(bytes \<Rightarrow> u64) \<Rightarrow> bool \<Rightarrow> coordinator \<Rightarrow> u32 \<Rightarrow> coordinator option" where
  "map_thread_coordinator_unref xxh3 mem mgr m = hash_set_u32_remove xxh3 tp_map mem mgr m"

definition map_thread_coordinator_destroy :: "coordinator option \<Rightarrow> coordinator option" where
  "map_thread_coordinator_destroy mgr = None"

abbreviation coordinator_ok :: "(bytes \<Rightarrow> u64) \<Rightarrow> coordinator \<Rightarrow> bool" where
  "coordinator_ok xxh3 mgr \<equiv> hash_set_inv (hash_u32 xxh3) tp_map mgr"

text \<open>A map that has been referenced is served by a thread until it is released, once for every
  reference: a second reference adds nothing.\<close>

lemma coordinator_ref:
  assumes "coordinator_ok xxh3 mgr"
  shows "\<exists>mgr' th. map_thread_coordinator_ref xxh3 True mgr m = Some (mgr', int th) \<and> coordinator_ok xxh3 mgr' \<and>
    map_thread_coordinator_get xxh3 mgr' m = Some (int th) \<and>
    (\<forall>k. k \<noteq> m \<longrightarrow> map_thread_coordinator_get xxh3 mgr' k = map_thread_coordinator_get xxh3 mgr k)"
proof (cases "hash_set_map tp_map mgr m")
  case None
  from u32.insert_law [OF assms, of "\<lparr>tp_map = m, tp_thread = 0\<rparr>"] None obtain mgr' where
    i: "hash_set_u32_insert xxh3 tp_map True mgr \<lparr>tp_map = m, tp_thread = 0\<rparr> = Some (mgr', 0)" "coordinator_ok xxh3 mgr'"
      "hash_set_map tp_map mgr' = (hash_set_map tp_map mgr)(m \<mapsto> \<lparr>tp_map = m, tp_thread = 0\<rparr>)" by auto
  note get = u32.get_law [OF assms] u32.get_law [OF i(2)]
  have "map_thread_coordinator_ref xxh3 True mgr m = Some (mgr', int 0)"
    using None i by (simp add: map_thread_coordinator_ref_def get)
  moreover have "map_thread_coordinator_get xxh3 mgr' m = Some (int 0)"
    "\<forall>k. k \<noteq> m \<longrightarrow> map_thread_coordinator_get xxh3 mgr' k = map_thread_coordinator_get xxh3 mgr k"
    using i(3) by (simp_all add: map_thread_coordinator_get_def get)
  ultimately show ?thesis using i(2) by blast
next
  case (Some p)
  then show ?thesis
    using assms u32.get_law [OF assms, of m] by (auto simp: map_thread_coordinator_ref_def map_thread_coordinator_get_def)
qed

lemma coordinator_unref:
  assumes "coordinator_ok xxh3 mgr" and "hash_set_map tp_map mgr m \<noteq> None"
  shows "\<exists>mgr'. map_thread_coordinator_unref xxh3 mem mgr m = Some mgr' \<and> coordinator_ok xxh3 mgr' \<and>
    map_thread_coordinator_get xxh3 mgr' m = Some (- 1)"
proof -
  from u32.remove_law [OF assms, of mem] obtain mgr' where
    m': "hash_set_u32_remove xxh3 tp_map mem mgr m = Some mgr'" "coordinator_ok xxh3 mgr'" "hash_set_map tp_map mgr' = (hash_set_map tp_map mgr)(m := None)"
    by blast
  then show ?thesis
    using u32.get_law [OF m'(2), of m] by (auto simp: map_thread_coordinator_unref_def map_thread_coordinator_get_def)
qed

subsection \<open>Parties\<close>

text \<open>
  Parties are objects on the heap (\<open>ps_heap\<close>); the set has pairs of the party's number and its address.
  \<open>malloc\<close> delivers the address of the new party as an argument. \<open>get_party_by_id\<close> returns the pointer
  to the pair in the set where a pointer to the party is declared: the result here is the pair.
\<close>

record party =
  pa_id :: u32
  pa_leader :: u32
  pa_memberCount :: u8

record party_storage =
  pas_id :: u32
  pas_party :: nat

record parties =
  ps_running :: u32
  ps_set :: "party_storage hash_set"
  ps_heap :: "nat \<rightharpoonup> party"

text \<open>\<open>mtx\<close> is what \<open>mtx_init\<close> returns; the number of the first party is 1.\<close>

definition parties_init :: "int \<Rightarrow> bool \<Rightarrow> parties option \<times> int" where
  "parties_init mtx mem =
     (if mtx = - 1 then (None, - 1)
      else case hash_set_u32_create mem of
             None \<Rightarrow> (None, - 1)
           | Some hs \<Rightarrow> (Some \<lparr>ps_running = 1, ps_set = hs, ps_heap = Map.empty\<rparr>, 0))"

definition parties_terminate :: "parties option \<Rightarrow> parties option" where
  "parties_terminate ps = None"

definition get_party_by_id :: "(bytes \<Rightarrow> u64) \<Rightarrow> u32 \<Rightarrow> parties \<Rightarrow> party_storage option option" where
  "get_party_by_id xxh3 pid ps = hash_set_u32_get xxh3 pas_id (ps_set ps) pid"

definition party_create :: "(bytes \<Rightarrow> u64) \<Rightarrow> bool \<Rightarrow> nat option \<Rightarrow> u32 \<Rightarrow> parties \<Rightarrow> (parties \<times> nat option) option" where
  "party_create xxh3 mem new leader ps =
     (case new of
        None \<Rightarrow> Some (ps, None)
      | Some a \<Rightarrow>
          let pid = ps_running ps;
              ps = ps\<lparr>ps_running := pid + 1, ps_heap := (ps_heap ps)(a \<mapsto> \<lparr>pa_id = pid, pa_leader = leader, pa_memberCount = 0\<rparr>)\<rparr>
          in map_option (\<lambda>(hs, r). (ps\<lparr>ps_set := hs\<rparr>, Some a)) (hash_set_u32_insert xxh3 pas_id mem (ps_set ps) \<lparr>pas_id = pid, pas_party = a\<rparr>))"

definition party_destroy :: "(bytes \<Rightarrow> u64) \<Rightarrow> bool \<Rightarrow> nat \<Rightarrow> parties \<Rightarrow> parties option" where
  "party_destroy xxh3 mem a ps =
     (case ps_heap ps a of
        None \<Rightarrow> None
      | Some p \<Rightarrow> map_option (\<lambda>hs. ps\<lparr>ps_set := hs\<rparr>) (hash_set_u32_remove xxh3 pas_id mem (ps_set ps) (pa_id p)))"

definition party_get_id :: "nat \<Rightarrow> parties \<Rightarrow> u32 option" where
  "party_get_id a ps = map_option pa_id (ps_heap ps a)"

definition party_get_leader_id :: "nat \<Rightarrow> parties \<Rightarrow> u32 option" where
  "party_get_leader_id a ps = map_option pa_leader (ps_heap ps a)"

definition party_set_leader_id :: "nat \<Rightarrow> u32 \<Rightarrow> parties \<Rightarrow> parties" where
  "party_set_leader_id a leader ps = ps\<lparr>ps_heap := (ps_heap ps)(a := map_option (\<lambda>p. p\<lparr>pa_leader := leader\<rparr>) (ps_heap ps a))\<rparr>"

abbreviation parties_ok :: "(bytes \<Rightarrow> u64) \<Rightarrow> parties \<Rightarrow> bool" where
  "parties_ok xxh3 ps \<equiv> hash_set_inv (hash_u32 xxh3) pas_id (ps_set ps)"

text \<open>A party is found under its number, with its leader, until it is destroyed.\<close>

lemma party_created:
  assumes "parties_ok xxh3 ps" and "hash_set_map pas_id (ps_set ps) (ps_running ps) = None"
  shows "\<exists>ps'. party_create xxh3 True (Some a) leader ps = Some (ps', Some a) \<and> parties_ok xxh3 ps' \<and>
    party_get_id a ps' = Some (ps_running ps) \<and> party_get_leader_id a ps' = Some leader \<and>
    get_party_by_id xxh3 (ps_running ps) ps' = Some (Some \<lparr>pas_id = ps_running ps, pas_party = a\<rparr>)"
proof -
  let ?d = "\<lparr>pas_id = ps_running ps, pas_party = a\<rparr>"
  from u32.insert_law [OF assms(1), of ?d] assms(2) obtain hs where
    hs: "hash_set_u32_insert xxh3 pas_id True (ps_set ps) ?d = Some (hs, 0)" "hash_set_inv (hash_u32 xxh3) pas_id hs"
      "hash_set_map pas_id hs = (hash_set_map pas_id (ps_set ps))(ps_running ps \<mapsto> ?d)" by auto
  then show ?thesis
    using u32.get_law [OF hs(2), of "ps_running ps"]
    by (simp add: party_create_def Let_def party_get_id_def party_get_leader_id_def get_party_by_id_def)
qed

lemma party_destroyed:
  assumes "parties_ok xxh3 ps" and "ps_heap ps a = Some p" and "hash_set_map pas_id (ps_set ps) (pa_id p) \<noteq> None"
  shows "\<exists>ps'. party_destroy xxh3 mem a ps = Some ps' \<and> parties_ok xxh3 ps' \<and> get_party_by_id xxh3 (pa_id p) ps' = Some None"
proof -
  from u32.remove_law [OF assms(1,3), of mem] obtain hs where
    hs: "hash_set_u32_remove xxh3 pas_id mem (ps_set ps) (pa_id p) = Some hs" "hash_set_inv (hash_u32 xxh3) pas_id hs"
      "hash_set_map pas_id hs = (hash_set_map pas_id (ps_set ps))(pa_id p := None)" by blast
  then show ?thesis
    using u32.get_law [OF hs(2), of "pa_id p"] assms(2) by (simp add: party_destroy_def get_party_by_id_def)
qed

end
