(* ===== verification/Conversations.thy ===== *)
theory Conversations
  imports Quests
begin

text \<open>
  Conversations with scripts: the instances of \<^verbatim>\<open>src/src/channel/scripting/script-manager.c\<close>, and the
  functions of \<^verbatim>\<open>src/src/channel/client.c\<close> that start a script for a player, show its questions and pass the
  answers on (\<open>client_npc_talk\<close> to \<open>client_close_script\<close>, \<open>client_send_ok\<close> to \<open>client_message\<close>,
  \<open>client_launch_portal_script\<close>). The interpreter is the library Lua.
\<close>

subsection \<open>Scripts and their instances\<close>

text \<open>
  A script has a Lua state, on whose stack lie the threads of its instances. A thread is a number. \<open>None\<close> as
  the script of an instance is the default script.
\<close>

record lua_script =
  ls_name :: bytes
  ls_threads :: "nat list"

record script_manager =
  sm_def :: lua_script
  sm_scripts :: "lua_script list"
  sm_entryPoints :: "bytes list"

record script_instance =
  si_thread :: nat
  si_script :: "nat option"
  si_entry :: bytes
  si_started :: bool

datatype script_error = No_handle | No_entry

definition script_of :: "nat option \<Rightarrow> script_manager \<Rightarrow> lua_script" where
  "script_of i sm = (case i of None \<Rightarrow> sm_def sm | Some i \<Rightarrow> sm_scripts sm ! i)"

definition on_script :: "nat option \<Rightarrow> (lua_script \<Rightarrow> lua_script) \<Rightarrow> script_manager \<Rightarrow> script_manager" where
  "on_script i f sm =
     (case i of None \<Rightarrow> sm\<lparr>sm_def := f (sm_def sm)\<rparr> | Some i \<Rightarrow> sm\<lparr>sm_scripts := (sm_scripts sm)[i := f (sm_scripts sm ! i)]\<rparr>)"

definition find_script :: "script_manager \<Rightarrow> bytes \<Rightarrow> nat option" where
  "find_script sm name = find (\<lambda>i. ls_name (sm_scripts sm ! i) = name) [0..<length (sm_scripts sm)]"

text \<open>\<open>thread\<close> is the result of \<open>lua_newthread\<close>, which pushes it; \<open>mem\<close>: whether \<open>malloc\<close> succeeds, which is not
  looked at.\<close>

definition script_manager_alloc ::
  "bool \<Rightarrow> nat option \<Rightarrow> script_manager \<Rightarrow> bytes \<Rightarrow> nat \<Rightarrow> script_error + script_manager \<times> script_instance option" where
  "script_manager_alloc mem thread sm name entry =
     (let i = find_script sm name
      in if \<not> mem then Inl No_handle
         else case thread of
                None \<Rightarrow> Inr (sm, None)
              | Some t \<Rightarrow>
                  if entry \<ge> length (sm_entryPoints sm) then Inl No_entry
                  else Inr (on_script i (\<lambda>s. s\<lparr>ls_threads := ls_threads s @ [t]\<rparr>) sm,
                         Some \<lparr>si_thread = t, si_script = i, si_entry = sm_entryPoints sm ! entry, si_started = False\<rparr>))"

datatype lua_status = Lua_ok | Lua_yield | Lua_error

text \<open>\<open>resume\<close> is \<open>lua_resume\<close> on the thread: with the function to be called if it is the first time, otherwise with
  the value that the script waits for. It delivers a status and a number of results.\<close>

definition script_manager_run ::
  "(nat \<Rightarrow> bytes option \<Rightarrow> int \<Rightarrow> 'w \<Rightarrow> (lua_status \<times> int) \<times> 'w) \<Rightarrow> script_instance \<Rightarrow> int \<Rightarrow> 'w \<Rightarrow>
   script_result \<times> script_instance \<times> 'w" where
  "script_manager_run resume si v w =
     (case resume (si_thread si) (if si_started si then None else Some (si_entry si)) v w of
        ((status, results), w) \<Rightarrow>
          (case status of
             Lua_ok \<Rightarrow> Script_success
           | Lua_yield \<Rightarrow> if results = 1 then Script_kick else Script_next
           | Lua_error \<Rightarrow> Script_failure,
           si\<lparr>si_started := True\<rparr>, w))"

definition script_manager_free :: "script_instance option \<Rightarrow> script_manager \<Rightarrow> script_manager" where
  "script_manager_free h sm =
     (case h of
        None \<Rightarrow> sm
      | Some si \<Rightarrow> on_script (si_script si) (\<lambda>s. s\<lparr>ls_threads := remove1 (si_thread si) (ls_threads s)\<rparr>) sm)"

subsection \<open>Starting a script\<close>

text \<open>\<open>snprintf\<close> into an array of \<open>n\<close> characters; what is used of the array afterwards.\<close>

definition script_name :: "nat \<Rightarrow> bytes \<Rightarrow> bytes" where
  "script_name n s = take (n - 1) (s @ [46, 108, 117, 97])"

definition decimal :: "int \<Rightarrow> bytes" where
  "decimal v = (if v < 0 then [45] else []) @ dec_digits (nat \<bar>v\<bar>)"

text \<open>\<open>alloc\<close> is \<open>script_manager_alloc\<close> on the manager at hand; \<open>run\<close> may call the operations of the client.\<close>

definition client_npc_talk :: "(bytes \<Rightarrow> 'i option) \<Rightarrow> 'i interpreter \<Rightarrow> 'i talker \<Rightarrow> u32 \<Rightarrow> quest_error + 'i talker \<times> client_result" where
  "client_npc_talk alloc run t npc =
     (if tk_script t \<noteq> None then Inr (t, Success)
      else let t = t\<lparr>tk_npc := npc, tk_script := alloc (script_name 12 (decimal (sint npc)))\<rparr>
           in if tk_script t = None then Inr (t, Error) else map_sum id after_script (run t))"

text \<open>Neither the old script nor the result of the allocation is looked at.\<close>

definition client_launch_map_script :: "(bytes \<Rightarrow> 'i option) \<Rightarrow> 'i interpreter \<Rightarrow> 'i talker \<Rightarrow> bytes \<Rightarrow> quest_error + 'i talker \<times> client_result" where
  "client_launch_map_script alloc run t name =
     (let t = t\<lparr>tk_script := alloc (script_name 32 name)\<rparr>
      in if tk_script t = None then Inl Null_pointer else map_sum id after_script (run t))"

definition client_launch_portal_script :: "(bytes \<Rightarrow> 'i option) \<Rightarrow> 'i interpreter \<Rightarrow> 'i talker \<Rightarrow> bytes \<Rightarrow> quest_error + 'i talker \<times> client_result" where
  "client_launch_portal_script alloc run t name =
     (if tk_script t \<noteq> None then Inr (t, Success)
      else let t = t\<lparr>tk_script := alloc (script_name 21 name)\<rparr>
           in if tk_script t = None then Inl Null_pointer else map_sum id after_script (run t))"

definition client_close_script :: "'i talker \<Rightarrow> 'i talker" where
  "client_close_script t = t\<lparr>tk_script := None\<rparr>"

subsection \<open>Questions\<close>

definition ask :: "script_state \<Rightarrow> nat \<Rightarrow> bytes \<Rightarrow> u8 \<Rightarrow> 'i talker \<Rightarrow> 'i talker" where
  "ask st kind msg speaker t =
     t\<lparr>tk_question := st, tk_client := send To_session (Npc_dialogue (tk_npc t) kind msg speaker) (tk_client t)\<rparr>"

definition client_send_ok :: "'i talker \<Rightarrow> bytes \<Rightarrow> u8 \<Rightarrow> 'i talker" where
  "client_send_ok t msg speaker = ask Ask_ok 0 msg speaker t"

definition client_send_yes_no :: "'i talker \<Rightarrow> bytes \<Rightarrow> u8 \<Rightarrow> 'i talker" where
  "client_send_yes_no t msg speaker = ask Ask_yes_no 1 msg speaker t"

definition client_send_simple :: "'i talker \<Rightarrow> bytes \<Rightarrow> u8 \<Rightarrow> u32 \<Rightarrow> 'i talker" where
  "client_send_simple t msg speaker selections = ask Ask_simple 4 msg speaker (t\<lparr>tk_min := 1, tk_max := selections\<rparr>)"

definition client_send_next :: "'i talker \<Rightarrow> bytes \<Rightarrow> u8 \<Rightarrow> 'i talker" where
  "client_send_next t msg speaker = ask Ask_next 5 msg speaker t"

definition client_send_prev_next :: "'i talker \<Rightarrow> bytes \<Rightarrow> u8 \<Rightarrow> 'i talker" where
  "client_send_prev_next t msg speaker = ask Ask_prev_next 6 msg speaker t"

definition client_send_prev :: "'i talker \<Rightarrow> bytes \<Rightarrow> u8 \<Rightarrow> 'i talker" where
  "client_send_prev t msg speaker = ask Ask_prev 7 msg speaker t"

definition client_send_accept_decline :: "'i talker \<Rightarrow> bytes \<Rightarrow> u8 \<Rightarrow> 'i talker" where
  "client_send_accept_decline t msg speaker = ask Ask_accept_decline 12 msg speaker t"

definition client_send_get_number :: "'i talker \<Rightarrow> bytes \<Rightarrow> u8 \<Rightarrow> int \<Rightarrow> int \<Rightarrow> int \<Rightarrow> 'i talker" where
  "client_send_get_number t msg speaker dflt lo hi =
     t\<lparr>tk_question := Ask_number, tk_min := word_of_int lo, tk_max := word_of_int hi,
       tk_client := send To_session (Npc_get_number (tk_npc t) msg speaker dflt lo hi) (tk_client t)\<rparr>"

definition client_message :: "client \<Rightarrow> bytes \<Rightarrow> client" where
  "client_message c msg = send To_session (Server_message msg) c"

definition client_show_info :: "client \<Rightarrow> bytes \<Rightarrow> client" where
  "client_show_info c path = send To_session (Show_info path) c"

definition client_show_intro :: "client \<Rightarrow> bytes \<Rightarrow> client" where
  "client_show_intro c path = send To_session (Show_intro path) c"

definition client_open_storage :: "'i talker \<Rightarrow> 'i talker" where
  "client_open_storage t =
     t\<lparr>tk_client := send To_session (Open_storage (chr_storage (cl_character (tk_client t))) (tk_npc t)) (tk_client t)\<rparr>"

subsection \<open>Answers\<close>

text \<open>What an answer leads to: a ban that leaves the script alone, the end of the script with or without a
  ban, or its continuation with a value.\<close>

datatype reaction = Reject | Close | Close_and_ban | Resume int

text \<open>The question the answer names must be the last one.\<close>

definition names_question :: "u8 \<Rightarrow> script_state \<Rightarrow> bool" where
  "names_question prev st \<longleftrightarrow>
     (if prev = 0 then st \<in> {Ask_ok, Ask_next, Ask_prev_next, Ask_prev}
      else if prev = 1 then st = Ask_yes_no
      else if prev = 3 then st = Ask_number
      else if prev = 4 then st = Ask_simple
      else if prev = 12 then st = Ask_accept_decline
      else False)"

definition two_ways :: "script_state \<Rightarrow> bool" where
  "two_ways st \<longleftrightarrow> st \<in> {Ask_yes_no, Ask_prev_next, Ask_prev, Ask_accept_decline}"

definition reaction_to :: "script_state \<Rightarrow> u32 \<Rightarrow> u32 \<Rightarrow> u8 \<Rightarrow> u8 \<Rightarrow> u32 \<Rightarrow> reaction" where
  "reaction_to st lo hi prev action selection =
     (let empty_dialogue = (st = Ask_number \<or> st = Ask_simple)
      in if st \<noteq> Ask_warp \<and> \<not> names_question prev st then Reject
         else if empty_dialogue \<and> action = 0 \<or> \<not> empty_dialogue \<and> action = - 1 then Close
         else if empty_dialogue \<and> action \<noteq> 1 then Close_and_ban
         else if (st = Ask_ok \<or> st = Ask_next) \<and> action \<noteq> 1 \<or> two_ways st \<and> action \<noteq> 0 \<and> action \<noteq> 1 then Close_and_ban
         else if st = Ask_ok \<or> st = Ask_next then Resume 1
         else if two_ways st then Resume (if action = 0 then - 1 else 1)
         else if empty_dialogue
         then if ucast action < lo \<or> ucast action > hi then Close_and_ban else Resume (sint selection)
         else Resume 0)"

definition client_script_cont ::
  "(int \<Rightarrow> 'i interpreter) \<Rightarrow> 'i talker \<Rightarrow> u8 \<Rightarrow> u8 \<Rightarrow> u32 \<Rightarrow> quest_error + 'i talker \<times> client_result" where
  "client_script_cont run t prev action selection =
     (if tk_script t = None then Inr (t, Success)
      else case reaction_to (tk_question t) (tk_min t) (tk_max t) prev action selection of
             Reject \<Rightarrow> Inr (t, Ban)
           | Close \<Rightarrow> Inr (t\<lparr>tk_script := None\<rparr>, Success)
           | Close_and_ban \<Rightarrow> Inr (t\<lparr>tk_script := None\<rparr>, Ban)
           | Resume v \<Rightarrow> map_sum id after_script (run v t))"


subsection \<open>What a script is given\<close>

fun offered :: "script_state \<Rightarrow> int \<Rightarrow> bool" where
  "offered Ask_ok v = (v = 1)"
| "offered Ask_next v = (v = 1)"
| "offered Ask_warp v = (v = 0)"
| "offered Ask_number v = True"
| "offered Ask_simple v = True"
| "offered st v = (v = 1 \<or> v = - 1)"

lemma resumed_as_offered: "reaction_to st lo hi prev action selection = Resume v \<Longrightarrow> offered st v"
  by (cases st) (auto simp: reaction_to_def two_ways_def Let_def split: if_splits)

lemma resumed_by_its_answer: "reaction_to st lo hi prev action selection = Resume v \<Longrightarrow> st = Ask_warp \<or> names_question prev st"
  by (auto simp: reaction_to_def Let_def split: if_splits)


lemma questions_kinds:
  "tk_question (client_send_ok t msg s) = Ask_ok" "tk_question (client_send_yes_no t msg s) = Ask_yes_no"
  "tk_question (client_send_simple t msg s n) = Ask_simple" "tk_question (client_send_next t msg s) = Ask_next"
  "tk_question (client_send_prev_next t msg s) = Ask_prev_next" "tk_question (client_send_prev t msg s) = Ask_prev"
  "tk_question (client_send_accept_decline t msg s) = Ask_accept_decline" "tk_question (client_send_get_number t msg s d lo hi) = Ask_number"
  by (simp_all add: ask_def client_send_ok_def client_send_yes_no_def client_send_simple_def client_send_next_def
    client_send_prev_next_def client_send_prev_def client_send_accept_decline_def client_send_get_number_def)

definition undecided :: "nat talker" where
  "undecided = client_send_yes_no \<lparr>tk_client = beginner_client, tk_script = Some 5, tk_qid = 0, tk_npc = 9010000,
     tk_question = Ask_ok, tk_min = 0, tk_max = 0\<rparr> [63] 0"


subsection \<open>What is not checked\<close>

text \<open>The bounds of a question for a number are compared with the action of the answer, not with the number.\<close>

theorem numbers_not_checked:
  assumes "tk_script t = Some i" and "tk_question t = Ask_number" and "tk_min t \<le> 1" and "1 \<le> tk_max t"
  shows "client_script_cont run t 3 1 selection = map_sum id after_script (run (sint selection) t)"
proof -
  have "tk_max t \<noteq> 0" "\<not> 1 < tk_min t" using assms(3,4) by auto
  then show ?thesis
    using assms(1,2) by (simp add: client_script_cont_def reaction_to_def names_question_def two_ways_def Let_def)
qed

theorem large_minimum_bans:
  assumes "tk_script t = Some i" and "tk_question t = Ask_number" and "1 < tk_min t"
  shows "client_script_cont run t 3 1 selection = Inr (t\<lparr>tk_script := None\<rparr>, Ban)"
  using assms by (simp add: client_script_cont_def reaction_to_def names_question_def two_ways_def Let_def)

text \<open>A script for a map takes the place of one that is waiting, which is not freed.\<close>

theorem map_script_forgets: "client_launch_map_script alloc run t name = client_launch_map_script alloc run (t\<lparr>tk_script := i\<rparr>) name"
  by (simp add: client_launch_map_script_def)

subsection \<open>The threads of the scripts\<close>

definition valid_script :: "script_manager \<Rightarrow> nat option \<Rightarrow> bool" where
  "valid_script sm i \<longleftrightarrow> (case i of None \<Rightarrow> True | Some i \<Rightarrow> i < length (sm_scripts sm))"

text \<open>What happens to a manager and the instances that are in use; the library delivers new threads.\<close>

inductive scripts_step :: "script_manager \<times> script_instance list \<Rightarrow> script_manager \<times> script_instance list \<Rightarrow> bool" where
  alloc: "script_manager_alloc mem (Some t) sm name entry = Inr (sm', Some si) \<Longrightarrow> \<forall>i. valid_script sm i \<longrightarrow> t \<notin> set (ls_threads (script_of i sm)) \<Longrightarrow>
    scripts_step (sm, live) (sm', si # live)"
| no_thread: "script_manager_alloc mem None sm name entry = Inr (sm', None) \<Longrightarrow> scripts_step (sm, live) (sm', live)"
| run: "si \<in> set live \<Longrightarrow> script_manager_run resume si v () = (res, si', ()) \<Longrightarrow> scripts_step (sm, live) (sm, si' # remove1 si live)"
| free: "si \<in> set live \<Longrightarrow> scripts_step (sm, live) (script_manager_free (Some si) sm, remove1 si live)"
| free_null: "scripts_step (sm, live) (script_manager_free None sm, live)"

definition threads_of :: "nat option \<Rightarrow> script_instance list \<Rightarrow> nat multiset" where
  "threads_of i live = image_mset si_thread (filter_mset (\<lambda>si. si_script si = i) (mset live))"

definition scripts_ok :: "script_manager \<times> script_instance list \<Rightarrow> bool" where
  "scripts_ok s \<longleftrightarrow>
     (\<forall>si \<in> set (snd s). valid_script (fst s) (si_script si)) \<and>
     (\<forall>i. valid_script (fst s) i \<longrightarrow> mset (ls_threads (script_of i (fst s))) = threads_of i (snd s))"

lemma script_of_on_script:
  "valid_script sm i \<Longrightarrow> script_of j (on_script i f sm) = (if j = i then f (script_of i sm) else script_of j sm)"
  by (auto simp: script_of_def on_script_def valid_script_def split: option.splits)

lemma valid_on_script [simp]: "valid_script (on_script i f sm) j = valid_script sm j"
  by (auto simp: valid_script_def on_script_def split: option.splits)

lemma find_script_valid: "valid_script sm (find_script sm name)"
  by (auto simp: valid_script_def find_script_def find_Some_iff split: option.split)

lemma threads_of_remove1: "si \<in> set live \<Longrightarrow> threads_of i (remove1 si live) = threads_of i live - (if si_script si = i then {#si_thread si#} else {#})"
  by (auto simp: threads_of_def image_mset_Diff)

lemma threads_of_Cons: "threads_of i (si # live) = threads_of i live + (if si_script si = i then {#si_thread si#} else {#})"
  by (simp add: threads_of_def)

lemma threads_of_has: "si \<in> set live \<Longrightarrow> si_script si = i \<Longrightarrow> si_thread si \<in># threads_of i live"
  by (auto simp: threads_of_def)

lemma scripts_step_ok: "scripts_step s s' \<Longrightarrow> scripts_ok s \<Longrightarrow> scripts_ok s'"
proof (induction rule: scripts_step.induct)
  case (alloc mem t sm name entry sm' si live)
  define i where "i = find_script sm name"
  have sm': "sm' = on_script i (\<lambda>s. s\<lparr>ls_threads := ls_threads s @ [t]\<rparr>) sm" and si: "si_thread si = t" "si_script si = i"
    using alloc(1) by (auto simp: script_manager_alloc_def i_def Let_def split: if_splits)
  show ?case using alloc.prems find_script_valid [of sm name]
    by (auto simp: scripts_ok_def sm' script_of_on_script i_def [symmetric] threads_of_Cons si)
next
  case (no_thread mem sm name entry sm' live)
  then show ?case by (auto simp: script_manager_alloc_def Let_def split: if_splits)
next
  case (run si live resume v res si' sm)
  have "si_thread si' = si_thread si" "si_script si' = si_script si"
    using run(2) by (auto simp: script_manager_run_def split: prod.splits)
  with run show ?case
    by (auto simp: scripts_ok_def threads_of_Cons threads_of_remove1 threads_of_has dest: notin_set_remove1 set_remove1_subset [THEN subsetD])
next
  case (free si live sm)
  then show ?case
    by (auto simp: scripts_ok_def script_manager_free_def script_of_on_script threads_of_remove1
      dest: set_remove1_subset [THEN subsetD])
next
  case (free_null sm live)
  then show ?case by (simp add: script_manager_free_def)
qed

lemma scripts_steps_ok: "scripts_step\<^sup>*\<^sup>* s s' \<Longrightarrow> scripts_ok s \<Longrightarrow> scripts_ok s'"
  by (induction rule: rtranclp_induct) (auto intro: scripts_step_ok)

text \<open>
  C27: After every sequence of allocations, runs and releases of script instances, the threads on the stack of a
  script are exactly those of its instances in use: none is lost, released twice or left behind, and when no instance is
  in use the stacks are as empty as at the start.
\<close>

theorem script_threads_in_use:
  assumes "scripts_step\<^sup>*\<^sup>* (sm, []) (sm', live)" and "\<forall>i. valid_script sm i \<longrightarrow> ls_threads (script_of i sm) = []" and "valid_script sm' i"
  shows "mset (ls_threads (script_of i sm')) = threads_of i live"
proof -
  have "scripts_ok (sm, [])" using assms(2) by (simp add: scripts_ok_def threads_of_def)
  with assms(1) have "scripts_ok (sm', live)" by (rule scripts_steps_ok)
  then show ?thesis using assms(3) by (simp add: scripts_ok_def)
qed


definition one_script :: script_manager where
  "one_script = \<lparr>sm_def = \<lparr>ls_name = [100], ls_threads = []\<rparr>, sm_scripts = [], sm_entryPoints = [[114]]\<rparr>"

theorem script_threads_in_use_witness:
  "\<exists>sm' si. script_manager_alloc True (Some 7) one_script [57] 0 = Inr (sm', Some si) \<and>
     scripts_step\<^sup>*\<^sup>* (one_script, []) (sm', [si]) \<and> mset (ls_threads (script_of None sm')) = {#7#}"
proof -
  let ?si = "\<lparr>si_thread = 7, si_script = None, si_entry = [114], si_started = False\<rparr>"
  let ?sm = "one_script\<lparr>sm_def := \<lparr>ls_name = [100], ls_threads = [7]\<rparr>\<rparr>"
  have a: "script_manager_alloc True (Some 7) one_script [57] 0 = Inr (?sm, Some ?si)"
    by (simp add: script_manager_alloc_def find_script_def one_script_def on_script_def)
  have e: "ls_threads (script_of i one_script) = []" if "valid_script one_script i" for i
    using that by (simp add: one_script_def script_of_def valid_script_def split: option.splits)
  have s: "scripts_step\<^sup>*\<^sup>* (one_script, []) (?sm, [?si])"
    by (rule r_into_rtranclp, rule scripts_step.alloc [OF a]) (simp add: e)
  have "mset (ls_threads (script_of None ?sm)) = threads_of None [?si]"
    by (rule script_threads_in_use [OF s]) (simp_all add: e valid_script_def)
  then show ?thesis using a s by (force simp: threads_of_def)
qed

end
