(* ===== verification/Calendar.thy ===== *)
theory Calendar
  imports Prelude
begin

text \<open>
  The two functions of the C library that convert between a \<open>time_t\<close> and a date in UTC, as far as
  \<^verbatim>\<open>src/src/channel/client.c\<close> uses them (\<open>gmtime_r\<close> and \<open>timegm\<close> of complete dates). The year is counted from
  zero, the month and the day from one, as in a row of the database.
\<close>

record date =
  dt_year :: int
  dt_month :: int
  dt_day :: int
  dt_hour :: int
  dt_minute :: int
  dt_second :: int

definition leap :: "int \<Rightarrow> bool" where
  "leap y \<longleftrightarrow> y mod 4 = 0 \<and> (y mod 100 \<noteq> 0 \<or> y mod 400 = 0)"

definition year_length :: "int \<Rightarrow> int" where
  "year_length y = (if leap y then 366 else 365)"

definition month_lengths :: "int \<Rightarrow> int list" where
  "month_lengths y = [31, if leap y then 29 else 28, 31, 30, 31, 30, 31, 31, 30, 31, 30, 31]"

text \<open>The days between the beginning of 1970 and that of a year.\<close>

definition days_before_year :: "int \<Rightarrow> int" where
  "days_before_year y = 365 * (y - 1970) + ((y - 1) div 4 - (y - 1) div 100 + (y - 1) div 400) - 477"

function year_of_day :: "int \<Rightarrow> int \<Rightarrow> int \<times> int" where
  "year_of_day y d =
     (if d < 0 then year_of_day (y - 1) (d + year_length (y - 1))
      else if d < year_length y then (y, d)
      else year_of_day (y + 1) (d - year_length y))"
  by auto
termination
  by (relation "measure (\<lambda>(y, d). if d < 0 then nat (1000 - d) else nat d)") (auto simp: year_length_def split: if_splits)

declare year_of_day.simps [simp del]

fun month_of_day :: "int list \<Rightarrow> int \<Rightarrow> int \<Rightarrow> int \<times> int" where
  "month_of_day (l # m # ls) k d = (if d < l then (k, d) else month_of_day (m # ls) (k + 1) (d - l))"
| "month_of_day _ k d = (k, d)"

definition gmtime :: "int \<Rightarrow> date" where
  "gmtime t =
     (let (y, d) = year_of_day 1970 (t div 86400);
          (m, d) = month_of_day (month_lengths y) 1 d;
          s = t mod 86400
      in \<lparr>dt_year = y, dt_month = m, dt_day = d + 1, dt_hour = s div 3600, dt_minute = s mod 3600 div 60, dt_second = s mod 60\<rparr>)"

definition timegm :: "date \<Rightarrow> int" where
  "timegm dt =
     (days_before_year (dt_year dt) + sum_list (take (nat (dt_month dt - 1)) (month_lengths (dt_year dt))) + (dt_day dt - 1)) * 86400 +
     dt_hour dt * 3600 + dt_minute dt * 60 + dt_second dt"

subsection \<open>They are inverse to each other\<close>

lemma div_step: "(0::int) < k \<Longrightarrow> y div k - (y - 1) div k = (if y mod k = 0 then 1 else 0)"
proof -
  assume k: "0 < k"
  have "(y - 1) div k = (if y mod k = 0 then y div k - 1 else y div k)"
  proof (cases "y mod k = 0")
    case True
    then obtain q where "y = k * q" by (metis mult_div_mod_eq add.right_neutral)
    moreover have "(k * q - 1) div k = q - 1"
      by (rule int_div_pos_eq [where r = "k - 1"]) (use k in \<open>auto simp: algebra_simps\<close>)
    ultimately show ?thesis using k by simp
  next
    case False
    then have r: "1 \<le> y mod k" "y mod k < k" using k pos_mod_bound [OF k, of y] pos_mod_sign [OF k, of y] by auto
    have "(y - 1) div k = y div k"
      by (rule int_div_pos_eq [where r = "y mod k - 1"]) (use r in \<open>auto simp: algebra_simps\<close>)
    then show ?thesis using False by simp
  qed
  then show ?thesis by simp
qed

lemma next_year: "days_before_year (y + 1) = days_before_year y + year_length y"
proof -
  define l where "l = (if y mod 4 = 0 then 1 else 0 :: int) - (if y mod 100 = 0 then 1 else 0) + (if y mod 400 = 0 then 1 else 0)"
  have m: "y mod 100 = 0 \<Longrightarrow> y mod 4 = 0" "y mod 400 = 0 \<Longrightarrow> y mod 100 = 0"
    using mod_mod_cancel [of 4 100 y] mod_mod_cancel [of 100 400 y] by simp_all
  have l: "year_length y = 365 + l"
  proof (cases "y mod 100 = 0")
    case True
    with m(1) show ?thesis by (simp add: year_length_def leap_def l_def)
  next
    case False
    moreover have "y mod 400 \<noteq> 0" using m(2) False by metis
    ultimately show ?thesis by (simp add: year_length_def leap_def l_def)
  qed
  have "365 * (y + 1 - 1970) + (a - b + c) - 477 = 365 * (y - 1970) + (a' - b' + c') - 477 + (365 + l)"
    if "a - a' = (if y mod 4 = 0 then 1 else 0)" "b - b' = (if y mod 100 = 0 then 1 else 0)" "c - c' = (if y mod 400 = 0 then 1 else 0)"
    for a a' b b' c c' :: int
    unfolding l_def that [symmetric] by simp
  from this [OF div_step div_step div_step] show ?thesis unfolding days_before_year_def l add_diff_cancel_right' by simp
qed

lemma clock: "(s::int) div 3600 * 3600 + s mod 3600 div 60 * 60 + s mod 60 = s"
proof -
  have "s mod 3600 div 60 * 60 + s mod 60 = s mod 3600"
    using div_mult_mod_eq [of "s mod 3600" 60] mod_mod_cancel [of 60 3600 s] by simp
  then show ?thesis using div_mult_mod_eq [of s 3600] by linarith
qed

lemma year_of_day_sound:
  "year_of_day y d = (y', d') \<Longrightarrow> days_before_year y' + d' = days_before_year y + d \<and> 0 \<le> d' \<and> d' < year_length y'"
proof (induction y d arbitrary: y' d' rule: year_of_day.induct)
  case (1 y d)
  have r: "year_of_day y d =
     (if d < 0 then year_of_day (y - 1) (d + year_length (y - 1))
      else if d < year_length y then (y, d) else year_of_day (y + 1) (d - year_length y))"
    by (rule year_of_day.simps)
  show ?case
  proof (cases "d < 0")
    case True
    then have "year_of_day (y - 1) (d + year_length (y - 1)) = (y', d')" using 1(3) r by simp
    from 1(1) [OF True this] next_year [of "y - 1"] show ?thesis by simp
  next
    case False
    show ?thesis
    proof (cases "d < year_length y")
      case True
      then show ?thesis using False 1(3) r by simp
    next
      case F: False
      then have "year_of_day (y + 1) (d - year_length y) = (y', d')" using False 1(3) r by simp
      from 1(2) [OF False F this] next_year [of y] show ?thesis by simp
    qed
  qed
qed

lemma month_of_day_sound:
  "month_of_day ls k d = (m, d') \<Longrightarrow> ls \<noteq> [] \<Longrightarrow>
     k \<le> m \<and> sum_list (take (nat (m - k)) ls) + d' = d"
proof (induction ls k d rule: month_of_day.induct)
  case (1 l l' ls k d)
  show ?case
  proof (cases "d < l")
    case True
    then show ?thesis using 1(2) by simp
  next
    case False
    then have "k + 1 \<le> m" "sum_list (take (nat (m - (k + 1))) (l' # ls)) + d' = d - l"
      using 1(1) 1(2) by auto
    moreover from this have "nat (m - k) = Suc (nat (m - (k + 1)))" by simp
    ultimately show ?thesis by simp
  qed
qed auto

theorem timegm_gmtime: "timegm (gmtime t) = t"
proof -
  obtain y d where y: "year_of_day 1970 (t div 86400) = (y, d)" by fastforce
  obtain m e where m: "month_of_day (month_lengths y) 1 d = (m, e)" by fastforce
  have "days_before_year y + d = t div 86400" using year_of_day_sound [OF y] by (simp add: days_before_year_def)
  moreover have "sum_list (take (nat (m - 1)) (month_lengths y)) + e = d"
    using month_of_day_sound [OF m] by (simp add: month_lengths_def)
  moreover note clock [of "t mod 86400"]
  moreover have "t div 86400 * 86400 + t mod 86400 = t" by (rule div_mult_mod_eq)
  moreover have "timegm (gmtime t) = (days_before_year y + sum_list (take (nat (m - 1)) (month_lengths y)) + e) * 86400 +
      (t mod 86400 div 3600 * 3600 + t mod 86400 mod 3600 div 60 * 60 + t mod 86400 mod 60)"
    by (simp only: timegm_def gmtime_def y m Let_def prod.case date.simps add_diff_cancel_right' add.assoc)
  ultimately show ?thesis by (simp only: add.assoc)
qed

lemma gmtime_example: "gmtime 90061 = \<lparr>dt_year = 1970, dt_month = 1, dt_day = 2, dt_hour = 1, dt_minute = 1, dt_second = 1\<rparr>"
  by (simp add: gmtime_def year_of_day.simps year_length_def leap_def month_lengths_def)

end
