(* ===== verification/Character_Rows.thy ===== *)
theory Character_Rows
  imports Quests Calendar
begin

text \<open>
  What of a character goes into the database (\<^verbatim>\<open>src/src/channel/client.c\<close>: \<open>on_id_allocate_database_unlocked\<close>,
  \<open>start_save\<close>, the callbacks \<open>add_quest\<close> to \<open>add_monster_book_entry\<close>, and the same work in \<open>client_resume\<close> when a
  player leaves), with the structs of \<^verbatim>\<open>src/src/database.h\<close> and \<open>do_allocate_ids\<close> of \<^verbatim>\<open>src/src/database.c\<close>.

  An array with a count is a list, and a string with its length the bytes that the length covers. The fields that
  are not assigned (the expiration of items, \<open>hands\<close>, the storage) are left out.
\<close>

subsection \<open>Rows\<close>

record database_item =
  di_id :: u64
  di_itemId :: u32
  di_owner :: bytes
  di_flags :: u8
  di_giver :: bytes

record database_equipment =
  de_id :: u64
  de_item :: database_item
  de_level :: int
  de_slots :: int
  de_str :: int
  de_dex :: int
  de_int :: int
  de_luk :: int
  de_hp :: int
  de_mp :: int
  de_atk :: int
  de_matk :: int
  de_def :: int
  de_mdef :: int
  de_acc :: int
  de_avoid :: int
  de_speed :: int
  de_jump :: int

record database_character_equipment =
  ce_id :: u64
  ce_equip :: database_equipment

record slotted_equipment =
  se_slot :: u8
  se_equip :: database_character_equipment

record slotted_item =
  sl_slot :: u8
  sl_count :: int
  sl_item :: database_item

record database_progress =
  pr_questId :: u16
  pr_progressId :: u32
  pr_progress :: int

record database_info_progress =
  ip_infoId :: u16
  ip_progressLength :: u8
  ip_progress :: bytes

record database_completed_quest =
  dcq_id :: u16
  dcq_time :: date

record database_skill =
  ds_id :: u32
  ds_level :: int
  ds_masterLevel :: int

record database_monster_book_entry =
  dm_id :: u32
  dm_quantity :: int

record database_key_map_entry =
  dk_key :: u32
  dk_type :: u8
  dk_action :: u32

record update_character =
  uc_id :: u32
  uc_accountId :: u32
  uc_map :: u32
  uc_spawnPoint :: u8
  uc_job :: u16
  uc_level :: u8
  uc_exp :: int
  uc_maxHp :: int
  uc_hp :: int
  uc_maxMp :: int
  uc_mp :: int
  uc_str :: int
  uc_dex :: int
  uc_int :: int
  uc_luk :: int
  uc_ap :: int
  uc_sp :: int
  uc_fame :: int
  uc_skin :: u8
  uc_face :: u32
  uc_hair :: u32
  uc_mesos :: int
  uc_equipSlots :: u8
  uc_useSlots :: u8
  uc_setupSlots :: u8
  uc_etcSlots :: u8
  uc_equippedEquipment :: "database_character_equipment list"
  uc_equipmentInventory :: "slotted_equipment list"
  uc_inventoryItems :: "slotted_item list"
  uc_quests :: "u16 list"
  uc_progresses :: "database_progress list"
  uc_questInfos :: "database_info_progress list"
  uc_completedQuests :: "database_completed_quest list"
  uc_skills :: "database_skill list"
  uc_monsterBook :: "database_monster_book_entry list"
  uc_keyMap :: "database_key_map_entry list"

text \<open>\<open>Use_after_free\<close>: the function goes on after it has freed what it works on.\<close>

datatype save_error = Save_error quest_error | Use_after_free

subsection \<open>Identifiers\<close>

record id_request =
  ar_id :: u64
  ar_equipId :: u64
  ar_itemId :: u32

record allocate_ids =
  al_id :: u32
  al_accountId :: u32
  al_items :: "u32 list"
  al_equippedEquipment :: "id_request list"
  al_equipmentInventory :: "id_request list"

definition new_item :: "item_entry \<Rightarrow> bool" where
  "new_item e \<longleftrightarrow> \<not> ie_isEmpty e \<and> item_uid (ii_item (ie_item e)) = 0"

definition new_equip :: "equip_entry \<Rightarrow> bool" where
  "new_equip e \<longleftrightarrow> \<not> ee_isEmpty e \<and> eq_uid (ee_equip e) = 0"

definition used_items :: "inventory \<Rightarrow> item_entry list" where
  "used_items t = take (unat (inv_slotCount t)) (inv_items t)"

definition used_equips :: "character \<Rightarrow> equip_entry list" where
  "used_equips chr = take (equip_slot_count chr) (eqi_items (equipmentInventory chr))"

definition id_request_of :: "equip_entry \<Rightarrow> id_request" where
  "id_request_of e =
     \<lparr>ar_id = item_uid (eq_item (ee_equip e)), ar_equipId = equipId (ee_equip e), ar_itemId = itemId (eq_item (ee_equip e))\<rparr>"

definition id_allocation :: "character \<Rightarrow> allocate_ids" where
  "id_allocation chr =
     \<lparr>al_id = chr_id chr, al_accountId = chr_accountId chr,
      al_items = map entry_id (filter new_item (concat (map used_items (chr_inventory chr)))),
      al_equippedEquipment = map id_request_of (filter new_equip (take EQUIP_SLOT_COUNT (equippedEquipment chr))),
      al_equipmentInventory = map id_request_of (filter new_equip (used_equips chr))\<rparr>"

text \<open>
  When the player leaves, the equipment of the inventory is written to the array for the equipment that is worn, from
  its beginning, and the counted entries of the array that is meant stay zero.
\<close>

definition no_request :: id_request where
  "no_request = \<lparr>ar_id = 0, ar_equipId = 0, ar_itemId = 0\<rparr>"

definition logout_id_allocation :: "character \<Rightarrow> allocate_ids" where
  "logout_id_allocation chr =
     (let r = id_allocation chr; worn = al_equippedEquipment r; kept = al_equipmentInventory r
      in r\<lparr>al_equippedEquipment := take (length worn) (kept @ drop (length kept) worn),
           al_equipmentInventory := replicate (length kept) no_request\<rparr>)"

text \<open>
  The statements insert rows into the tables for items, equipment and equipment of characters; \<open>mysql_stmt_insert_id\<close>
  delivers the identifiers of the new rows (\<open>items n\<close>, \<open>equips n\<close>, \<open>owned n\<close> for the \<open>n\<close>-th insertion). The first two
  passes are only for the rows without an identifier.
\<close>

fun number_rows :: "(id_request \<Rightarrow> bool) \<Rightarrow> (u64 \<Rightarrow> id_request \<Rightarrow> id_request) \<Rightarrow> (nat \<Rightarrow> u64) \<Rightarrow> nat \<Rightarrow> id_request list \<Rightarrow> id_request list \<times> nat" where
  "number_rows lacks f ids n [] = ([], n)"
| "number_rows lacks f ids n (r # rs) =
     (if lacks r then (case number_rows lacks f ids (Suc n) rs of (rs, n) \<Rightarrow> (f (ids n) r # rs, n))
      else (case number_rows lacks f ids n rs of (rs, n) \<Rightarrow> (r # rs, n)))"

record allocated_ids =
  ai_items :: "u64 list"
  ai_equippedEquipment :: "u64 list"
  ai_equipmentInventory :: "u64 list"


definition do_allocate_ids ::
  "(nat \<Rightarrow> u64) \<Rightarrow> (nat \<Rightarrow> u64) \<Rightarrow> (nat \<Rightarrow> u64) \<Rightarrow> allocate_ids \<Rightarrow> allocate_ids \<times> allocated_ids" where
  "do_allocate_ids item_ids equip_ids owned_ids r =
     (let n = length (al_items r);
          with_item = (\<lambda>i q. q\<lparr>ar_id := i\<rparr>);
          (worn, m) = number_rows (\<lambda>q. ar_id q = 0) with_item item_ids n (al_equippedEquipment r);
          (kept, m) = number_rows (\<lambda>q. ar_id q = 0) with_item item_ids m (al_equipmentInventory r);
          with_equip = (\<lambda>i q. q\<lparr>ar_equipId := i\<rparr>);
          (worn, m) = number_rows (\<lambda>q. ar_equipId q = 0) with_equip equip_ids 0 worn;
          (kept, m) = number_rows (\<lambda>q. ar_equipId q = 0) with_equip equip_ids m kept;
          w = length worn
      in (r\<lparr>al_equippedEquipment := worn, al_equipmentInventory := kept\<rparr>,
          \<lparr>ai_items = map item_ids [0..<n], ai_equippedEquipment = map owned_ids [0..<w],
           ai_equipmentInventory = map owned_ids [w..<w + length kept]\<rparr>))"

text \<open>The new identifiers are handed out in the order of the request; \<open>None\<close>: there are too few.\<close>

fun give_ids :: "('e \<Rightarrow> bool) \<Rightarrow> ('a \<Rightarrow> 'e \<Rightarrow> 'e) \<Rightarrow> 'e list \<Rightarrow> 'a list \<Rightarrow> ('e list \<times> 'a list) option" where
  "give_ids new f [] ids = Some ([], ids)"
| "give_ids new f (e # es) ids =
     (if new e
      then (case ids of [] \<Rightarrow> None | i # ids \<Rightarrow> map_option (\<lambda>(es, ids). (f i e # es, ids)) (give_ids new f es ids))
      else map_option (\<lambda>(es, ids). (e # es, ids)) (give_ids new f es ids))"

definition set_item_id :: "u64 \<Rightarrow> item_entry \<Rightarrow> item_entry" where
  "set_item_id i e = e\<lparr>ie_item := (ie_item e)\<lparr>ii_item := (ii_item (ie_item e))\<lparr>item_uid := i\<rparr>\<rparr>\<rparr>"

definition set_equip_ids :: "id_request \<times> u64 \<Rightarrow> equip_entry \<Rightarrow> equip_entry" where
  "set_equip_ids r e =
     (case r of (q, i) \<Rightarrow>
        e\<lparr>ee_equip := (ee_equip e)\<lparr>eq_item := (eq_item (ee_equip e))\<lparr>item_uid := ar_id q\<rparr>, equipId := ar_equipId q, eq_uid := i\<rparr>\<rparr>)"

fun give_item_ids :: "inventory list \<Rightarrow> u64 list \<Rightarrow> (inventory list \<times> u64 list) option" where
  "give_item_ids [] ids = Some ([], ids)"
| "give_item_ids (t # ts) ids =
     Option.bind (give_ids new_item set_item_id (used_items t) ids) (\<lambda>(es, ids).
       map_option (\<lambda>(ts, ids). (t\<lparr>inv_items := es @ drop (unat (inv_slotCount t)) (inv_items t)\<rparr> # ts, ids)) (give_item_ids ts ids))"

definition take_ids :: "allocate_ids \<times> allocated_ids \<Rightarrow> character \<Rightarrow> character option" where
  "take_ids answer chr =
     (case answer of (r, ids) \<Rightarrow>
        Option.bind (give_item_ids (chr_inventory chr) (ai_items ids)) (\<lambda>(ts, _).
        Option.bind (give_ids new_equip set_equip_ids (take EQUIP_SLOT_COUNT (equippedEquipment chr))
          (zip (al_equippedEquipment r) (ai_equippedEquipment ids))) (\<lambda>(worn, _).
        Option.bind (give_ids new_equip set_equip_ids (used_equips chr)
          (zip (al_equipmentInventory r) (ai_equipmentInventory ids))) (\<lambda>(kept, _).
        Some (chr\<lparr>chr_inventory := ts,
          equippedEquipment := worn @ drop EQUIP_SLOT_COUNT (equippedEquipment chr),
          equipmentInventory := (equipmentInventory chr)\<lparr>eqi_items :=
            kept @ drop (equip_slot_count chr) (eqi_items (equipmentInventory chr))\<rparr>\<rparr>)))))"

subsection \<open>Saving\<close>

definition save_item :: "item \<Rightarrow> database_item" where
  "save_item it =
     \<lparr>di_id = item_uid it, di_itemId = itemId it, di_owner = take (unat (ownerLength it)) (owner it), di_flags = ucast (flags it),
      di_giver = take (unat (giftFromLength it)) (giftFrom it)\<rparr>"

definition save_equipment :: "equipment \<Rightarrow> database_character_equipment" where
  "save_equipment e =
     \<lparr>ce_id = eq_uid e,
      ce_equip = \<lparr>de_id = equipId e, de_item = save_item (eq_item e), de_level = eq_level e, de_slots = eq_slots e,
        de_str = eq_str e, de_dex = eq_dex e, de_int = eq_int e, de_luk = eq_luk e, de_hp = eq_hp e, de_mp = eq_mp e,
        de_atk = eq_atk e, de_matk = eq_matk e, de_def = eq_def e, de_mdef = eq_mdef e, de_acc = eq_acc e,
        de_avoid = eq_avoid e, de_speed = eq_speed e, de_jump = eq_jump e\<rparr>\<rparr>"

definition saved_worn :: "character \<Rightarrow> database_character_equipment list" where
  "saved_worn chr = map (\<lambda>e. save_equipment (ee_equip e)) (filter (\<lambda>e. \<not> ee_isEmpty e) (take EQUIP_SLOT_COUNT (equippedEquipment chr)))"

definition saved_kept :: "character \<Rightarrow> slotted_equipment list" where
  "saved_kept chr =
     map (\<lambda>(i, e). \<lparr>se_slot = of_nat i, se_equip = save_equipment (ee_equip e)\<rparr>)
       (filter (\<lambda>(i, e). \<not> ee_isEmpty e) (enumerate 0 (used_equips chr)))"

definition saved_stacks :: "inventory \<Rightarrow> slotted_item list" where
  "saved_stacks t =
     map (\<lambda>(i, e). \<lparr>sl_slot = of_nat i, sl_count = entry_quantity e, sl_item = save_item (ii_item (ie_item e))\<rparr>)
       (filter (\<lambda>(i, e). \<not> ie_isEmpty e) (enumerate 0 (used_items t)))"

definition add_quest :: "quest \<Rightarrow> u16 list \<Rightarrow> quest \<times> u16 list" where
  "add_quest q ids = (q, ids @ [q_id q])"

definition progress_rows :: "quest \<Rightarrow> (u32 \<times> int) list \<Rightarrow> database_progress list" where
  "progress_rows q mobs =
     map (\<lambda>i. \<lparr>pr_questId = q_id q, pr_progressId = fst (mobs ! i), pr_progress = to_i16 (q_progress q ! i)\<rparr>)
       [0..<unat (q_progressCount q)]"

text \<open>Without a requirement for monsters, \<open>req\<close> is not initialised, which only matters if there is progress.\<close>

definition add_progress ::
  "surroundings \<Rightarrow> quest \<Rightarrow> quest_error + database_progress list \<Rightarrow> quest \<times> (quest_error + database_progress list)" where
  "add_progress sr q r =
     (q, case r of
           Inl err \<Rightarrow> Inl err
         | Inr rows \<Rightarrow>
             (case sr_quest sr (q_id q) of
                None \<Rightarrow> Inl Null_pointer
              | Some info \<Rightarrow>
                  let mobs = first_mobs (qd_endRequirements info); n = unat (q_progressCount q)
                  in if length mobs < n \<or> length (q_progress q) < n then Inl Outside_array
                     else Inr (rows @ progress_rows q mobs)))"

definition stored_text :: "nat \<Rightarrow> bytes \<Rightarrow> bytes" where
  "stored_text n s = (let t = takeWhile (\<lambda>b. b \<noteq> 0) (take n s) in t @ replicate (n - length t) 0)"

definition add_quest_info ::
  "quest_info_progress \<Rightarrow> database_info_progress list \<Rightarrow> quest_info_progress \<times> database_info_progress list" where
  "add_quest_info info rows =
     (info, rows @ [\<lparr>ip_infoId = qi_id info, ip_progressLength = qi_length info,
        ip_progress = stored_text (unat (qi_length info)) (qi_value info)\<rparr>])"

definition add_completed_quest ::
  "completed_quest \<Rightarrow> database_completed_quest list \<Rightarrow> completed_quest \<times> database_completed_quest list" where
  "add_completed_quest q rows = (q, rows @ [\<lparr>dcq_id = cq_id q, dcq_time = gmtime (cq_time q)\<rparr>])"

definition add_skill :: "skill \<Rightarrow> database_skill list \<Rightarrow> skill \<times> database_skill list" where
  "add_skill s rows = (s, rows @ [\<lparr>ds_id = sk_id s, ds_level = sk_level s, ds_masterLevel = sk_masterLevel s\<rparr>])"

definition add_monster_book_entry ::
  "monster_book_entry \<Rightarrow> database_monster_book_entry list \<Rightarrow> monster_book_entry \<times> database_monster_book_entry list" where
  "add_monster_book_entry e rows = (e, rows @ [\<lparr>dm_id = mb_id e, dm_quantity = mb_count e\<rparr>])"

definition saved_keys :: "character \<Rightarrow> database_key_map_entry list" where
  "saved_keys chr =
     map (\<lambda>(i, k). \<lparr>dk_key = of_nat i, dk_type = km_type k, dk_action = km_action k\<rparr>)
       (filter (\<lambda>(i, k). km_type k \<noteq> 0) (enumerate 0 (take KEYMAP_MAX_KEYS (keyMap chr))))"

text \<open>The part of the request that is copied from the fields of the character.\<close>

definition saved_stats :: "u32 \<Rightarrow> character \<Rightarrow> update_character" where
  "saved_stats town chr =
     \<lparr>uc_id = chr_id chr, uc_accountId = chr_accountId chr, uc_map = town, uc_spawnPoint = chr_spawnPoint chr,
      uc_job = of_nat (chr_job chr), uc_level = chr_level chr, uc_exp = chr_exp chr, uc_maxHp = chr_maxHp chr, uc_hp = chr_hp chr,
      uc_maxMp = chr_maxMp chr, uc_mp = chr_mp chr, uc_str = chr_str chr, uc_dex = chr_dex chr, uc_int = chr_int chr,
      uc_luk = chr_luk chr, uc_ap = chr_ap chr, uc_sp = chr_sp chr, uc_fame = chr_fame chr, uc_skin = chr_skin chr,
      uc_face = chr_face chr, uc_hair = chr_hair chr, uc_mesos = chr_mesos chr,
      uc_equipSlots = eqi_slotCount (equipmentInventory chr), uc_useSlots = inv_slotCount (chr_inventory chr ! 0),
      uc_setupSlots = inv_slotCount (chr_inventory chr ! 1), uc_etcSlots = inv_slotCount (chr_inventory chr ! 2),
      uc_equippedEquipment = [], uc_equipmentInventory = [], uc_inventoryItems = [], uc_quests = [], uc_progresses = [],
      uc_questInfos = [], uc_completedQuests = [], uc_skills = [], uc_monsterBook = [], uc_keyMap = []\<rparr>"

text \<open>The sets with numbers of 32 bits may shrink while they are visited.\<close>

definition update_request :: "surroundings \<Rightarrow> u32 \<Rightarrow> character \<Rightarrow> quest_error + character \<times> update_character" where
  "update_request sr town chr =
     (if MAX_ITEM_COUNT < equip_slot_count chr \<or> list_ex (\<lambda>t. MAX_ITEM_COUNT < unat (inv_slotCount t)) (chr_inventory chr)
      then Inl Outside_array
      else
        let ids = snd (hash_set_u16_foreach add_quest (quests chr) []);
            infos = snd (hash_set_u16_foreach add_quest_info (questInfos chr) []);
            completed = snd (hash_set_u16_foreach add_completed_quest (completedQuests chr) [])
        in case snd (hash_set_u16_foreach (add_progress sr) (quests chr) (Inr [])) of
             Inl err \<Rightarrow> Inl err
           | Inr progresses \<Rightarrow>
               (case endless (hash_set_u32_foreach (sr_hash sr) sk_id (sr_mem sr For_table) add_skill (skills chr) []) of
                  Inl err \<Rightarrow> Inl err
                | Inr (sks, skill_rows) \<Rightarrow>
                    (case endless (hash_set_u32_foreach (sr_hash sr) mb_id (sr_mem sr For_table) add_monster_book_entry (monsterBook chr) []) of
                       Inl err \<Rightarrow> Inl err
                     | Inr (book, book_rows) \<Rightarrow>
                         Inr (chr\<lparr>skills := sks, monsterBook := book\<rparr>,
                           (saved_stats town chr)\<lparr>uc_equippedEquipment := saved_worn chr, uc_equipmentInventory := saved_kept chr,
                             uc_inventoryItems := concat (map saved_stacks (chr_inventory chr)), uc_quests := ids,
                             uc_progresses := progresses, uc_questInfos := infos, uc_completedQuests := completed,
                             uc_skills := skill_rows, uc_monsterBook := book_rows, uc_keyMap := saved_keys chr\<rparr>))))"

text \<open>The allocations of \<open>start_save\<close>: up to the array for quests, a failure ends the connection; after the later
  ones, the function goes on with what it has freed. For the array for skills the wrong pointer is tested.\<close>

datatype save_alloc =
    Alloc_save | Alloc_params | Alloc_quests | Alloc_progresses | Alloc_infos | Alloc_completed | Alloc_skills | Alloc_book
  | Alloc_keys | Alloc_request

datatype save_start = Kicked | Saving update_character

definition start_save ::
  "(save_alloc \<Rightarrow> bool) \<Rightarrow> surroundings \<Rightarrow> u32 \<Rightarrow> allocate_ids \<times> allocated_ids \<Rightarrow> character \<Rightarrow> save_error + character \<times> save_start" where
  "start_save mem sr town answer chr =
     (case take_ids answer chr of
        None \<Rightarrow> Inl (Save_error Outside_array)
      | Some chr \<Rightarrow>
          if \<not> mem Alloc_save \<or> \<not> mem Alloc_params then Inr (chr, Kicked)
          else case update_request sr town chr of
                 Inl err \<Rightarrow> Inl (Save_error err)
               | Inr (chr', uc) \<Rightarrow>
                   if \<not> mem Alloc_quests then Inr (chr, Kicked)
                   else if \<not> list_all mem [Alloc_progresses, Alloc_infos, Alloc_completed, Alloc_book, Alloc_keys, Alloc_request]
                   then Inl Use_after_free
                   else if \<not> mem Alloc_skills \<and> uc_skills uc \<noteq> [] then Inl (Save_error Null_pointer)
                   else Inr (chr', Saving uc))"

text \<open>When the player leaves, the number of the account is not part of the request, and a failed allocation
  destroys the client. The array for the keys is the last one.\<close>

datatype logout_start = Destroyed | Storing update_character

definition logout_save ::
  "(save_alloc \<Rightarrow> bool) \<Rightarrow> surroundings \<Rightarrow> u32 \<Rightarrow> allocate_ids \<times> allocated_ids \<Rightarrow> character \<Rightarrow> save_error + character \<times> logout_start" where
  "logout_save mem sr town answer chr =
     (case take_ids answer chr of
        None \<Rightarrow> Inl (Save_error Outside_array)
      | Some chr \<Rightarrow>
          (case update_request sr town chr of
             Inl err \<Rightarrow> Inl (Save_error err)
           | Inr (chr', uc) \<Rightarrow>
               if \<not> list_all mem [Alloc_quests, Alloc_progresses, Alloc_infos, Alloc_completed, Alloc_book, Alloc_keys, Alloc_request]
               then Inr (chr, Destroyed)
               else if \<not> mem Alloc_skills \<and> uc_skills uc \<noteq> [] then Inl (Save_error Null_pointer)
               else Inr (chr', Storing (uc\<lparr>uc_accountId := 0\<rparr>))))"

end
