(* ===== verification/Identifiers.thy ===== *)
theory Identifiers
  imports Character_Rows
begin

text \<open>
  Before a character is saved, what it has got since the last time is given identifiers by the database
  (\<open>id_allocation\<close>, \<open>do_allocate_ids\<close>, \<open>take_ids\<close> of \<open>Character_Rows\<close>). The lists that the three functions exchange have
  the same order, so that nothing is left without an identifier. The request that is made when a player leaves is not
  that of a regular save.
\<close>

subsection \<open>Lists\<close>

lemma number_rows_filter:
  assumes "\<And>n q. \<not> lacks (f (ids n) q)" and "number_rows lacks f ids n rs = (rs', m)"
  shows "length rs' = length rs" "filter lacks rs' = []" "list_all2 (\<lambda>r r'. r' = r \<or> (\<exists>n. r' = f (ids n) r)) rs rs'"
  using assms(2)
proof (induction rs arbitrary: n rs')
  case (Cons r rs)
  {
    case 1
    then show ?case using Cons.IH(1) by (auto split: if_splits prod.splits)
  next
    case 2
    then show ?case using Cons.IH(2) assms(1) by (auto split: if_splits prod.splits)
  next
    case 3
    then show ?case using Cons.IH(3) by (auto split: if_splits prod.splits)
  }
qed simp_all

lemma give_ids_all:
  assumes "length (filter new es) \<le> length ids" and "\<forall>i \<in> set ids. \<forall>e. new e \<longrightarrow> \<not> new (f i e)"
    and g: "\<And>i e. g (f i e) = g e"
  shows "\<exists>es'. give_ids new f es ids = Some (es', drop (length (filter new es)) ids) \<and> filter new es' = [] \<and> length es' = length es \<and>
    map g es' = map g es"
  using assms(1,2)
proof (induction es arbitrary: ids)
  case (Cons e es)
  show ?case
  proof (cases "new e")
    case True
    then obtain i js where ids: "ids = i # js" using Cons.prems(1) by (cases ids) auto
    with Cons.IH [of js] Cons.prems True obtain es' where es': "give_ids new f es js = Some (es', drop (length (filter new es)) js)"
        "filter new es' = []" "length es' = length es" "map g es' = map g es" by auto
    then show ?thesis using True Cons.prems ids by (intro exI [of _ "f i e # es'"]) (auto simp: g)
  next
    case False
    with Cons.IH [of ids] Cons.prems obtain es' where es': "give_ids new f es ids = Some (es', drop (length (filter new es)) ids)"
        "filter new es' = []" "length es' = length es" "map g es' = map g es" by auto
    then show ?thesis using False by (intro exI [of _ "e # es'"]) auto
  qed
qed simp

subsection \<open>Everything has an identifier\<close>

definition no_item_id :: "inventory \<Rightarrow> inventory" where
  "no_item_id t = t\<lparr>inv_items := map (set_item_id 0) (inv_items t)\<rparr>"

definition no_equip_ids :: "equip_entry \<Rightarrow> equip_entry" where
  "no_equip_ids = set_equip_ids (no_request, 0)"

text \<open>A character, identifiers apart.\<close>

definition unnumbered :: "character \<Rightarrow> character" where
  "unnumbered chr =
     chr\<lparr>chr_inventory := map no_item_id (chr_inventory chr), equippedEquipment := map no_equip_ids (equippedEquipment chr),
       equipmentInventory := (equipmentInventory chr)\<lparr>eqi_items := map no_equip_ids (eqi_items (equipmentInventory chr))\<rparr>\<rparr>"

lemma no_ids_set [simp]: "set_item_id 0 (set_item_id i e) = set_item_id 0 e" "no_equip_ids (set_equip_ids p d) = no_equip_ids d"
  by (simp_all add: set_item_id_def set_equip_ids_def no_equip_ids_def case_prod_unfold)

lemma give_item_ids_all:
  assumes "length (filter new_item (concat (map used_items ts))) \<le> length ids" and "0 \<notin> set ids"
  shows "\<exists>ts' ids'. give_item_ids ts ids = Some (ts', ids') \<and> filter new_item (concat (map used_items ts')) = [] \<and>
    map no_item_id ts' = map no_item_id ts"
  using assms
proof (induction ts arbitrary: ids)
  case (Cons t ts)
  let ?n = "length (filter new_item (used_items t))"
  have "length (filter new_item (used_items t)) \<le> length ids" "\<forall>i \<in> set ids. \<forall>e. new_item e \<longrightarrow> \<not> new_item (set_item_id i e)"
    using Cons.prems by simp (use Cons.prems(2) in \<open>auto simp: new_item_def set_item_id_def\<close>)
  from give_ids_all [OF this, of "set_item_id 0"] obtain es where es: "give_ids new_item set_item_id (used_items t) ids = Some (es, drop ?n ids)"
      "filter new_item es = []" "length es = length (used_items t)"
      "map (set_item_id 0) es = map (set_item_id 0) (used_items t)" by auto
  have "0 \<notin> set (drop ?n ids)" using Cons.prems(2) set_drop_subset [of ?n ids] by blast
  moreover have "length (filter new_item (concat (map used_items ts))) \<le> length (drop ?n ids)" using Cons.prems(1) by simp
  ultimately obtain ts' ids' where ts': "give_item_ids ts (drop ?n ids) = Some (ts', ids')"
      "filter new_item (concat (map used_items ts')) = []" "map no_item_id ts' = map no_item_id ts" using Cons.IH by blast
  let ?t = "t\<lparr>inv_items := es @ drop (unat (inv_slotCount t)) (inv_items t)\<rparr>"
  have "used_items ?t = es" using es(3) by (simp add: used_items_def min_def)
  moreover have "no_item_id ?t = no_item_id t"
  proof -
    from es(4) have "map (set_item_id 0) es @ map (set_item_id 0) (drop (unat (inv_slotCount t)) (inv_items t)) = map (set_item_id 0) (inv_items t)"
      by (simp add: used_items_def flip: map_append)
    then show ?thesis by (simp add: no_item_id_def)
  qed
  ultimately show ?case
    using es ts' by (intro exI [of _ "?t # ts'"] exI [of _ ids']) simp
qed simp

text \<open>
  C14: A save leaves nothing without an identifier: whatever a character has got since the last time, in the inventories, worn
  or in the bag, the answer to its request has an identifier for each, the identifiers are taken, the next request
  asks for nothing, and apart from identifiers the character is unchanged.
\<close>

theorem nothing_without_id:
  assumes "\<And>n. item_ids n \<noteq> 0" "\<And>n. equip_ids n \<noteq> 0" "\<And>n. owned_ids n \<noteq> 0"
  shows "\<exists>chr'. take_ids (do_allocate_ids item_ids equip_ids owned_ids (id_allocation chr)) chr = Some chr' \<and>
    al_items (id_allocation chr') = [] \<and> al_equippedEquipment (id_allocation chr') = [] \<and> al_equipmentInventory (id_allocation chr') = [] \<and>
    unnumbered chr' = unnumbered chr"
proof -
  let ?r = "id_allocation chr"
  obtain worn m1 where w1: "number_rows (\<lambda>q. ar_id q = 0) (\<lambda>i q. q\<lparr>ar_id := i\<rparr>) item_ids (length (al_items ?r)) (al_equippedEquipment ?r) = (worn, m1)"
    by fastforce
  obtain kept m2 where k1: "number_rows (\<lambda>q. ar_id q = 0) (\<lambda>i q. q\<lparr>ar_id := i\<rparr>) item_ids m1 (al_equipmentInventory ?r) = (kept, m2)" by fastforce
  obtain worn' m3 where w2: "number_rows (\<lambda>q. ar_equipId q = 0) (\<lambda>i q. q\<lparr>ar_equipId := i\<rparr>) equip_ids 0 worn = (worn', m3)" by fastforce
  obtain kept' m4 where k2: "number_rows (\<lambda>q. ar_equipId q = 0) (\<lambda>i q. q\<lparr>ar_equipId := i\<rparr>) equip_ids m3 kept = (kept', m4)" by fastforce
  have len: "length worn' = length (al_equippedEquipment ?r)" "length kept' = length (al_equipmentInventory ?r)"
    using number_rows_filter(1) [OF _ w1] number_rows_filter(1) [OF _ w2] number_rows_filter(1) [OF _ k1] number_rows_filter(1) [OF _ k2] assms
    by simp_all
  let ?w = "length worn'"
  have answer: "do_allocate_ids item_ids equip_ids owned_ids ?r =
      (?r\<lparr>al_equippedEquipment := worn', al_equipmentInventory := kept'\<rparr>,
       \<lparr>ai_items = map item_ids [0..<length (al_items ?r)], ai_equippedEquipment = map owned_ids [0..<?w],
        ai_equipmentInventory = map owned_ids [?w..<?w + length kept']\<rparr>)"
    by (simp add: do_allocate_ids_def Let_def w1 w2 k1 k2)
  have "length (filter new_item (concat (map used_items (chr_inventory chr)))) \<le> length (map item_ids [0..<length (al_items ?r)])"
    "0 \<notin> set (map item_ids [0..<length (al_items ?r)])" using assms(1) by (simp add: id_allocation_def) (use assms(1) in auto)
  from give_item_ids_all [OF this] obtain ts ids' where
    ts: "give_item_ids (chr_inventory chr) (map item_ids [0..<length (al_items ?r)]) = Some (ts, ids')"
      "filter new_item (concat (map used_items ts)) = []" "map no_item_id ts = map no_item_id (chr_inventory chr)" by blast
  have equips: "\<exists>es'. give_ids new_equip set_equip_ids es (zip qs (map owned_ids ks)) = Some (es', drop (length (filter new_equip es)) (zip qs (map owned_ids ks))) \<and>
      filter new_equip es' = [] \<and> length es' = length es \<and> map no_equip_ids es' = map no_equip_ids es"
    if l: "length qs = length (filter new_equip es)" "length ks = length (filter new_equip es)" for es qs ks
  proof -
    have "length (filter new_equip es) \<le> length (zip qs (map owned_ids ks))"
      "\<forall>i \<in> set (zip qs (map owned_ids ks)). \<forall>e. new_equip e \<longrightarrow> \<not> new_equip (set_equip_ids i e)"
      using l assms(3) by (auto simp: new_equip_def set_equip_ids_def dest!: set_zip_rightD)
    from give_ids_all [OF this, of no_equip_ids] show ?thesis by simp
  qed
  have "length (al_equippedEquipment ?r) = length (filter new_equip (take EQUIP_SLOT_COUNT (equippedEquipment chr)))"
    "length (al_equipmentInventory ?r) = length (filter new_equip (used_equips chr))" by (simp_all add: id_allocation_def)
  with equips [of worn' "take EQUIP_SLOT_COUNT (equippedEquipment chr)" "[0..<?w]"] equips [of kept' "used_equips chr" "[?w..<?w + length kept']"] len
  obtain es ks where
    es: "give_ids new_equip set_equip_ids (take EQUIP_SLOT_COUNT (equippedEquipment chr)) (zip worn' (map owned_ids [0..<?w])) =
        Some (es, drop (length (filter new_equip (take EQUIP_SLOT_COUNT (equippedEquipment chr)))) (zip worn' (map owned_ids [0..<?w])))"
      "filter new_equip es = []" "length es = length (take EQUIP_SLOT_COUNT (equippedEquipment chr))"
      "map no_equip_ids es = map no_equip_ids (take EQUIP_SLOT_COUNT (equippedEquipment chr))" and
    ks: "give_ids new_equip set_equip_ids (used_equips chr) (zip kept' (map owned_ids [?w..<?w + length kept'])) =
        Some (ks, drop (length (filter new_equip (used_equips chr))) (zip kept' (map owned_ids [?w..<?w + length kept'])))"
      "filter new_equip ks = []" "length ks = length (used_equips chr)" "map no_equip_ids ks = map no_equip_ids (used_equips chr)"
    by auto
  let ?chr = "chr\<lparr>chr_inventory := ts, equippedEquipment := es @ drop EQUIP_SLOT_COUNT (equippedEquipment chr),
    equipmentInventory := (equipmentInventory chr)\<lparr>eqi_items := ks @ drop (equip_slot_count chr) (eqi_items (equipmentInventory chr))\<rparr>\<rparr>"
  have "take_ids (do_allocate_ids item_ids equip_ids owned_ids ?r) chr = Some ?chr"
    unfolding answer by (simp add: take_ids_def ts(1) es(1) ks(1))
  moreover have "al_items (id_allocation ?chr) = []" using ts(2) by (simp add: id_allocation_def)
  moreover have "al_equippedEquipment (id_allocation ?chr) = []" using es(2,3) by (simp add: id_allocation_def min_def)
  moreover have "al_equipmentInventory (id_allocation ?chr) = []"
  proof -
    have "used_equips ?chr = ks" using ks(3) by (simp add: used_equips_def equip_slot_count_def min_def)
    then show ?thesis using ks(2) by (simp add: id_allocation_def)
  qed
  moreover have "unnumbered ?chr = unnumbered chr"
  proof -
    have "map no_equip_ids (es @ drop EQUIP_SLOT_COUNT (equippedEquipment chr)) = map no_equip_ids (equippedEquipment chr)"
      unfolding map_append es(4) by (simp flip: map_append)
    moreover have "map no_equip_ids (ks @ drop (equip_slot_count chr) (eqi_items (equipmentInventory chr))) = map no_equip_ids (eqi_items (equipmentInventory chr))"
      unfolding map_append ks(4) used_equips_def by (simp flip: map_append)
    ultimately show ?thesis using ts(3) by (simp add: unnumbered_def)
  qed
  ultimately show ?thesis by blast
qed

definition counter :: "nat \<Rightarrow> u64" where
  "counter n = of_nat (n mod 1000 + 1)"

theorem nothing_without_id_witness:
  "\<exists>chr'. take_ids (do_allocate_ids counter counter counter (id_allocation (cl_character armed))) (cl_character armed) = Some chr' \<and>
     length (al_equipmentInventory (id_allocation (cl_character armed))) = 1 \<and> al_equipmentInventory (id_allocation chr') = [] \<and>
     unnumbered chr' = unnumbered (cl_character armed)"
proof -
  have c: "counter n \<noteq> 0" for n
  proof
    assume "counter n = 0"
    then have "2 ^ 64 dvd n mod 1000 + 1" by (simp only: counter_def word_of_nat_eq_0_iff) simp
    then have "2 ^ 64 \<le> n mod 1000 + 1" by (rule dvd_imp_le) simp
    then show False using mod_less_divisor [of 1000 n] by simp
  qed
  have "length (al_equipmentInventory (id_allocation (cl_character armed))) = 1"
    by (simp add: id_allocation_def used_equips_def equip_slot_count_def armed_def new_equip_def sword_def no_equip_def equipment_from_info_def)
  with nothing_without_id [of counter counter counter "cl_character armed"] c show ?thesis by blast
qed

text \<open>When the player leaves, every new piece of equipment in the bag is asked for as item number 0, and the requests for
  what is worn are overwritten.\<close>

theorem logout_asks_for_item_0:
  "al_equipmentInventory (logout_id_allocation chr) = replicate (length (filter new_equip (used_equips chr))) no_request"
  by (simp add: logout_id_allocation_def id_allocation_def Let_def)

end
