(* ===== verification/Character_Load.thy ===== *)
theory Character_Load
  imports Character_Rows
begin

text \<open>
  A character is made from the rows of the database when a player logs in (\<^verbatim>\<open>src/src/channel/client.c\<close>,
  \<open>client_resume\<close>, state 3). Besides the rows, the function looks at the descriptions of equipment, items and
  quests (\<open>surroundings\<close>) and the portal named \<open>sp\<close> of the map; the counters in \<open>monsterQuests\<close> and the items in
  \<open>itemQuests\<close> are computed anew.
\<close>

subsection \<open>The result of the request\<close>

record slotted_storage_equipment =
  sse_slot :: u8
  sse_equip :: database_equipment

record character_row =
  cw_name :: bytes
  cw_map :: u32
  cw_job :: u16
  cw_level :: u8
  cw_exp :: int
  cw_maxHp :: int
  cw_hp :: int
  cw_maxMp :: int
  cw_mp :: int
  cw_str :: int
  cw_dex :: int
  cw_int :: int
  cw_luk :: int
  cw_hpmp :: int
  cw_ap :: int
  cw_sp :: int
  cw_fame :: int
  cw_gender :: u8
  cw_skin :: u8
  cw_face :: u32
  cw_hair :: u32
  cw_mesos :: int
  cw_equipSlots :: u8
  cw_useSlots :: u8
  cw_setupSlots :: u8
  cw_etcSlots :: u8
  cw_equippedEquipment :: "database_character_equipment list"
  cw_equipmentInventory :: "slotted_equipment list"
  cw_inventoryItems :: "slotted_item list"
  cw_storage_id :: u64
  cw_storage_slots :: u8
  cw_storage_mesos :: int
  cw_storageItems :: "slotted_item list"
  cw_storageEquipment :: "slotted_storage_equipment list"
  cw_quests :: "u16 list"
  cw_progresses :: "database_progress list"
  cw_questInfos :: "database_info_progress list"
  cw_completedQuests :: "database_completed_quest list"
  cw_skills :: "database_skill list"
  cw_monsterBook :: "database_monster_book_entry list"
  cw_keyMap :: "database_key_map_entry list"

text \<open>One row after the other, until one cannot be used.\<close>

fun each :: "('a \<Rightarrow> 's \<Rightarrow> 'e + 's) \<Rightarrow> 'a list \<Rightarrow> 's \<Rightarrow> 'e + 's" where
  "each f [] s = Inr s"
| "each f (x # xs) s = (case f x s of Inl err \<Rightarrow> Inl err | Inr s \<Rightarrow> each f xs s)"

subsection \<open>Fields\<close>

definition load_stats :: "u8 \<Rightarrow> character_row \<Rightarrow> character \<Rightarrow> character" where
  "load_stats portal row chr =
     chr\<lparr>chr_nameLength := of_nat (length (cw_name row)), chr_name := cw_name row @ drop (length (cw_name row)) (chr_name chr),
       chr_map := cw_map row, chr_chair := 0, chr_seat := - 1, chr_spawnPoint := portal, chr_level := cw_level row,
       chr_job := unat (cw_job row), chr_exp := cw_exp row, chr_maxHp := cw_maxHp row, chr_eMaxHp := 0, chr_hp := cw_hp row,
       chr_maxMp := cw_maxMp row, chr_eMaxMp := 0, chr_mp := cw_mp row, chr_str := cw_str row, chr_estr := 0,
       chr_dex := cw_dex row, chr_edex := 0, chr_int := cw_int row, chr_eint := 0, chr_luk := cw_luk row, chr_eluk := 0,
       chr_hpmp := cw_hpmp row, chr_ap := cw_ap row, chr_sp := cw_sp row, chr_fame := cw_fame row, chr_gender := cw_gender row \<noteq> 0,
       chr_skin := cw_skin row, chr_face := cw_face row, chr_hair := cw_hair row, chr_mesos := cw_mesos row, chr_gachaExp := 0\<rparr>"

definition load_slot_counts :: "character_row \<Rightarrow> character \<Rightarrow> character" where
  "load_slot_counts row chr =
     chr\<lparr>equipmentInventory := (equipmentInventory chr)\<lparr>eqi_slotCount := cw_equipSlots row\<rparr>,
       chr_inventory := map (\<lambda>(t, n). t\<lparr>inv_slotCount := n\<rparr>)
         (zip (chr_inventory chr) [cw_useSlots row, cw_setupSlots row, cw_etcSlots row, 252])\<rparr>"

subsection \<open>Equipment and items\<close>

definition fill_item :: "database_item \<Rightarrow> item \<Rightarrow> item" where
  "fill_item r it = it\<lparr>item_uid := di_id r, itemId := di_itemId r, ownerLength := 0, flags := ucast (di_flags r), giftFromLength := 0\<rparr>"

definition fill_equipment :: "u64 \<Rightarrow> u64 \<Rightarrow> database_equipment \<Rightarrow> bool \<Rightarrow> equipment \<Rightarrow> equipment" where
  "fill_equipment uid eid r cash e =
     e\<lparr>eq_uid := uid, equipId := eid, eq_item := (fill_item (de_item r) (eq_item e))\<lparr>expiration := - 1\<rparr>,
       eq_level := de_level r, eq_slots := de_slots r, eq_str := de_str r, eq_dex := de_dex r, eq_int := de_int r,
       eq_luk := de_luk r, eq_hp := de_hp r, eq_mp := de_mp r, eq_atk := de_atk r, eq_matk := de_matk r, eq_def := de_def r,
       eq_mdef := de_mdef r, eq_acc := de_acc r, eq_avoid := de_avoid r, eq_hands := 0, eq_speed := de_speed r,
       eq_jump := de_jump r, eq_cash := cash\<rparr>"

definition row_id :: "database_character_equipment \<Rightarrow> u32" where
  "row_id r = di_itemId (de_item (ce_equip r))"

definition fill_entry :: "database_character_equipment \<Rightarrow> bool \<Rightarrow> equip_entry \<Rightarrow> equip_entry" where
  "fill_entry r cash e =
     \<lparr>ee_isEmpty = False, ee_equip = fill_equipment (ce_id r) (de_id (ce_equip r)) (ce_equip r) cash (ee_equip e)\<rparr>"

text \<open>What is worn goes where the kind of the item belongs; the number of the slot is not in the row.\<close>

definition worn_index :: "u32 \<Rightarrow> nat" where
  "worn_index iid = unat (equip_slot_to_compact (equip_slot_from_id iid))"

definition load_worn :: "surroundings \<Rightarrow> database_character_equipment \<Rightarrow> character \<Rightarrow> quest_error + character" where
  "load_worn sr r chr =
     (let i = worn_index (row_id r)
      in if EQUIP_SLOT_COUNT \<le> i then Inl Outside_array
         else case sr_equip sr (row_id r) of
                None \<Rightarrow> Inl Null_pointer
              | Some info \<Rightarrow>
                  let e = fill_entry r (info_cash info) (worn chr i)
                  in Inr (add_stats (ee_equip e) (set_worn i e chr)))"

definition load_kept :: "surroundings \<Rightarrow> slotted_equipment \<Rightarrow> character \<Rightarrow> quest_error + character" where
  "load_kept sr r chr =
     (let i = unat (se_slot r)
      in if MAX_ITEM_COUNT \<le> i then Inl Outside_array
         else case sr_equip sr (row_id (se_equip r)) of
                None \<Rightarrow> Inl Null_pointer
              | Some info \<Rightarrow> Inr (set_equip_slot i (fill_entry (se_equip r) (info_cash info) (equip_slot chr i)) chr))"

text \<open>The number of the inventory is an \<open>uint8_t\<close>. The expiration is left alone.\<close>

definition load_stack :: "slotted_item \<Rightarrow> character \<Rightarrow> quest_error + character" where
  "load_stack r chr =
     (let iv = unat (ucast (di_itemId (sl_item r) div 1000000 - 2) :: u8); i = unat (sl_slot r)
      in if 4 \<le> iv \<or> MAX_ITEM_COUNT \<le> i then Inl Outside_array
         else Inr (set_item_slot iv i
           \<lparr>ie_isEmpty = False,
            ie_item = \<lparr>ii_item = fill_item (sl_item r) (ii_item (ie_item (item_slot chr iv i))), quantity = sl_count r\<rparr>\<rparr> chr))"

definition empty_worn :: "character \<Rightarrow> character" where
  "empty_worn chr =
     chr\<lparr>equippedEquipment := map (\<lambda>e. e\<lparr>ee_isEmpty := True\<rparr>) (take EQUIP_SLOT_COUNT (equippedEquipment chr)) @
       drop EQUIP_SLOT_COUNT (equippedEquipment chr)\<rparr>"

definition empty_kept :: "character \<Rightarrow> character" where
  "empty_kept chr =
     chr\<lparr>equipmentInventory := (equipmentInventory chr)\<lparr>eqi_items := map (\<lambda>e. e\<lparr>ee_isEmpty := True\<rparr>) (used_equips chr) @
       drop (equip_slot_count chr) (eqi_items (equipmentInventory chr))\<rparr>\<rparr>"

definition empty_inventory :: "inventory \<Rightarrow> inventory" where
  "empty_inventory t =
     t\<lparr>inv_items := map (\<lambda>e. e\<lparr>ie_isEmpty := True\<rparr>) (used_items t) @ drop (unat (inv_slotCount t)) (inv_items t)\<rparr>"

text \<open>The storage. The members of the union that are not assigned are \<open>stale\<close>.\<close>

definition load_stored_equipment :: "surroundings \<Rightarrow> equipment \<Rightarrow> slotted_storage_equipment \<Rightarrow> storage \<Rightarrow> quest_error + storage" where
  "load_stored_equipment sr stale r sto =
     (let i = unat (sse_slot r); e = sse_equip r
      in if length (sto_storage sto) \<le> i then Inl Outside_array
         else case sr_equip sr (di_itemId (de_item e)) of
                None \<Rightarrow> Inl Null_pointer
              | Some info \<Rightarrow> Inr (sto\<lparr>sto_storage := (sto_storage sto)[i := Stored_equip (fill_equipment (de_id e) 0 e (info_cash info) stale)]\<rparr>))"

definition load_stored_item :: "item \<Rightarrow> slotted_item \<Rightarrow> storage \<Rightarrow> quest_error + storage" where
  "load_stored_item stale r sto =
     (let i = unat (sl_slot r); it = sl_item r
      in if length (sto_storage sto) \<le> i then Inl Outside_array
         else Inr (sto\<lparr>sto_storage := (sto_storage sto)[i := Stored_item
           \<lparr>ii_item = (fill_item it stale)\<lparr>ownerLength := of_nat (length (di_owner it)),
              owner := di_owner it @ drop (length (di_owner it)) (owner stale), expiration := - 1\<rparr>,
            quantity = sl_count r\<rparr>]\<rparr>))"

definition load_storage :: "surroundings \<Rightarrow> equipment \<Rightarrow> character_row \<Rightarrow> storage \<Rightarrow> quest_error + storage" where
  "load_storage sr stale row sto =
     (let sto = sto\<lparr>sto_id := cw_storage_id row, sto_slots := cw_storage_slots row,
            sto_count := of_nat (length (cw_storageItems row) + length (cw_storageEquipment row)), sto_mesos := cw_storage_mesos row\<rparr>
      in case each (load_stored_equipment sr stale) (cw_storageEquipment row) sto of
           Inl err \<Rightarrow> Inl err
         | Inr sto \<Rightarrow> each (load_stored_item (eq_item stale)) (cw_storageItems row) sto)"

definition load_projectile :: "character \<Rightarrow> character" where
  "load_projectile chr =
     (let chr = chr\<lparr>activeProjectile := - 1\<rparr>
      in if ee_isEmpty (worn chr (unat (equip_slot_to_compact EQUIP_SLOT_WEAPON))) then chr else advance_projectile 0 chr)"

subsection \<open>Quests\<close>

text \<open>The items of the end requirements of a started quest that the player does not have.\<close>

definition check_missing :: "surroundings \<Rightarrow> requirement \<Rightarrow> character \<Rightarrow> quest_error + character" where
  "check_missing sr r chr =
     (case r of
        Needs_item iid n \<Rightarrow>
          (case sr_item sr iid of
             None \<Rightarrow> Inl Null_pointer
           | Some info \<Rightarrow>
               if \<not> info_quest info then Inr chr
               else let iv = (ucast (iid div 1000000) :: u8)
                    in if iv \<noteq> 1 \<and> 4 \<le> unat (iv - 2) then Inl Outside_array
                       else let total = (if iv = 1 then int (length (Quests.equips_of chr iid))
                                         else sum_list (map entry_quantity (stacks_of chr (unat (iv - 2)) iid)))
                            in if n \<le> total then Inr chr
                               else map_sum id (\<lambda>(hs, _). chr\<lparr>itemQuests := hs\<rparr>)
                                      (endless (hash_set_u32_insert (sr_hash sr) id (sr_mem sr For_element) (itemQuests chr) iid)))
      | _ \<Rightarrow> Inr chr)"

definition load_quest :: "surroundings \<Rightarrow> u16 \<Rightarrow> character \<Rightarrow> quest_error + character" where
  "load_quest sr qid chr =
     (case endless (hash_set_u16_insert (sr_hash sr) q_id (sr_mem sr For_quest) (quests chr) (new_quest qid)) of
        Inl err \<Rightarrow> Inl err
      | Inr (qs, _) \<Rightarrow>
          (case sr_quest sr qid of
             None \<Rightarrow> Inl Null_pointer
           | Some info \<Rightarrow> each (check_missing sr) (qd_endRequirements info) (chr\<lparr>quests := qs\<rparr>)))"

text \<open>The loops that look for the counter of a monster have no bound; \<open>amount\<close> is an \<open>int16_t\<close>.\<close>

definition load_progress :: "surroundings \<Rightarrow> database_progress \<Rightarrow> character \<Rightarrow> quest_error + character" where
  "load_progress sr r chr =
     (case get_quest sr chr (pr_questId r) of
        Inl err \<Rightarrow> Inl err
      | Inr None \<Rightarrow> Inl Null_pointer
      | Inr (Some q) \<Rightarrow>
          (case sr_quest sr (q_id q) of
             None \<Rightarrow> Inl Null_pointer
           | Some info \<Rightarrow>
               let mobs = first_mobs (qd_endRequirements info)
               in case find (\<lambda>j. fst (mobs ! j) = pr_progressId r) [0..<length mobs] of
                    None \<Rightarrow> Inl Outside_array
                  | Some j \<Rightarrow>
                      (case (if pr_progress r < to_i16 (snd (mobs ! j)) then need_monster sr (pr_progressId r) (monsterQuests chr)
                             else Inr (monsterQuests chr)) of
                         Inl err \<Rightarrow> Inl err
                       | Inr ms \<Rightarrow>
                           if progress_slots \<le> j then Inl Outside_array
                           else Inr (chr\<lparr>monsterQuests := ms,
                             quests := modify_element q_id (q_id q)
                               (\<lambda>q. q\<lparr>q_progress := (q_progress q)[j := pr_progress r], q_progressCount := q_progressCount q + 1\<rparr>) (quests chr)\<rparr>))))"

definition load_info :: "surroundings \<Rightarrow> database_info_progress \<Rightarrow> quest_info_progress hash_set \<Rightarrow> quest_error + quest_info_progress hash_set" where
  "load_info sr r hs =
     (let n = unat (ip_progressLength r)
      in if 12 < n then Inl Outside_array
         else map_sum id fst (endless (hash_set_u16_insert (sr_hash sr) qi_id (sr_mem sr For_element) hs
           \<lparr>qi_id = ip_infoId r, qi_length = ip_progressLength r, qi_value = take n (ip_progress r) @ replicate (12 - n) 0\<rparr>)))"

definition load_completed :: "surroundings \<Rightarrow> database_completed_quest \<Rightarrow> completed_quest hash_set \<Rightarrow> quest_error + completed_quest hash_set" where
  "load_completed sr r hs =
     map_sum id fst (endless (hash_set_u16_insert (sr_hash sr) cq_id (sr_mem sr For_element) hs
       \<lparr>cq_id = dcq_id r, cq_time = timegm (dcq_time r)\<rparr>))"

definition load_skill :: "surroundings \<Rightarrow> database_skill \<Rightarrow> skill hash_set \<Rightarrow> quest_error + skill hash_set" where
  "load_skill sr r hs =
     map_sum id fst (endless (hash_set_u32_insert (sr_hash sr) sk_id (sr_mem sr For_element) hs
       \<lparr>sk_id = ds_id r, sk_level = ds_level r, sk_masterLevel = ds_masterLevel r\<rparr>))"

definition load_book_entry :: "surroundings \<Rightarrow> database_monster_book_entry \<Rightarrow> monster_book_entry hash_set \<Rightarrow> quest_error + monster_book_entry hash_set" where
  "load_book_entry sr r hs =
     map_sum id fst (endless (hash_set_u32_insert (sr_hash sr) mb_id (sr_mem sr For_element) hs
       \<lparr>mb_id = dm_id r, mb_count = dm_quantity r\<rparr>))"

definition load_key :: "database_key_map_entry \<Rightarrow> key_map_entry list \<Rightarrow> quest_error + key_map_entry list" where
  "load_key r ks =
     (if KEYMAP_MAX_KEYS \<le> unat (dk_key r) then Inl Outside_array
      else Inr (ks[unat (dk_key r) := \<lparr>km_type = dk_type r, km_action = dk_action r\<rparr>]))"

subsection \<open>The whole character\<close>

definition load_items :: "surroundings \<Rightarrow> equipment \<Rightarrow> character_row \<Rightarrow> character \<Rightarrow> quest_error + character" where
  "load_items sr stale row chr =
     (case each (load_worn sr) (cw_equippedEquipment row) (empty_worn chr) of
        Inl err \<Rightarrow> Inl err
      | Inr chr \<Rightarrow>
          (case each (load_kept sr) (cw_equipmentInventory row) (empty_kept chr) of
             Inl err \<Rightarrow> Inl err
           | Inr chr \<Rightarrow>
               (case each load_stack (cw_inventoryItems row) (chr\<lparr>chr_inventory := map empty_inventory (chr_inventory chr)\<rparr>) of
                  Inl err \<Rightarrow> Inl err
                | Inr chr \<Rightarrow> map_sum id (\<lambda>sto. load_projectile (chr\<lparr>chr_storage := sto\<rparr>)) (load_storage sr stale row (chr_storage chr)))))"

definition empty_set :: "'d hash_set" where
  "empty_set = the (hash_set_init True)"

definition load_quests :: "surroundings \<Rightarrow> character_row \<Rightarrow> character \<Rightarrow> quest_error + character" where
  "load_quests sr row chr =
     (case each (load_quest sr) (cw_quests row) (chr\<lparr>quests := empty_set, monsterQuests := empty_set, itemQuests := empty_set\<rparr>) of
        Inl err \<Rightarrow> Inl err
      | Inr chr \<Rightarrow> each (load_progress sr) (cw_progresses row) chr)"

definition load_sets :: "surroundings \<Rightarrow> character_row \<Rightarrow> character \<Rightarrow> quest_error + character" where
  "load_sets sr row chr =
     (case each (load_info sr) (cw_questInfos row) empty_set of Inl err \<Rightarrow> Inl err | Inr infos \<Rightarrow>
      (case each (load_completed sr) (cw_completedQuests row) empty_set of Inl err \<Rightarrow> Inl err | Inr completed \<Rightarrow>
       (case each (load_skill sr) (cw_skills row) empty_set of Inl err \<Rightarrow> Inl err | Inr sks \<Rightarrow>
        (case each (load_book_entry sr) (cw_monsterBook row) empty_set of Inl err \<Rightarrow> Inl err | Inr book \<Rightarrow>
         map_sum id (\<lambda>ks. chr\<lparr>questInfos := infos, completedQuests := completed, skills := sks, monsterBook := book, keyMap := ks\<rparr>)
           (each load_key (cw_keyMap row) (replicate KEYMAP_MAX_KEYS \<lparr>km_type = 0, km_action = 0\<rparr>))))))"

text \<open>\<open>portal\<close>: the number of the portal \<open>sp\<close> of the map, if the map has one; \<open>mem\<close>: whether the seven sets can be
  created. \<open>None\<close>: no memory.\<close>

definition load_character ::
  "bool \<Rightarrow> surroundings \<Rightarrow> (u32 \<Rightarrow> u8 option) \<Rightarrow> equipment \<Rightarrow> character_row \<Rightarrow> character \<Rightarrow> quest_error + character option" where
  "load_character mem sr portal stale row chr =
     (case portal (cw_map row) of
        None \<Rightarrow> Inl Null_pointer
      | Some p \<Rightarrow>
          if CHARACTER_MAX_NAME_LENGTH < length (cw_name row) then Inl Outside_array
          else case load_items sr stale row (load_slot_counts row (load_stats p row chr)) of
                 Inl err \<Rightarrow> Inl err
               | Inr chr \<Rightarrow>
                   if \<not> mem then Inr None
                   else case load_quests sr row chr of
                          Inl err \<Rightarrow> Inl err
                        | Inr chr \<Rightarrow> map_sum id Some (load_sets sr row chr))"

end
