(* ===== verification/Row_Writers.thy ===== *)
theory Row_Writers
  imports Character_Load
begin

text \<open>
  Loading fills tables: every row goes to the slot it names, and what is written depends on the row and on the
  old content of this slot only. The locale has the contract of such a function and what follows for a list of
  rows with different slots, in any order; it is interpreted on the functions for worn equipment, for the equipment
  and the stacks of the inventories, and for keys.
\<close>

locale row_writer =
  fixes write_row :: "'r \<Rightarrow> 's \<Rightarrow> 'e + 's"
    and look :: "'s \<Rightarrow> 'i \<Rightarrow> 'x"
    and slot_of_row :: "'r \<Rightarrow> 'i"
    and entry :: "'r \<Rightarrow> 'x \<Rightarrow> 'x"
    and fits :: "'r \<Rightarrow> bool"
    and ok :: "'s \<Rightarrow> bool"
    and frame :: "'s \<Rightarrow> 'z"
  assumes step: "fits r \<Longrightarrow> ok s \<Longrightarrow>
    \<exists>s'. write_row r s = Inr s' \<and> ok s' \<and> frame s' = frame s \<and>
      (\<forall>i. look s' i = (if i = slot_of_row r then entry r (look s i) else look s i))"
begin

lemma all_rows:
  assumes "\<forall>r \<in> set rows. fits r" and "distinct (map slot_of_row rows)" and "ok s"
  shows "\<exists>s'. each write_row rows s = Inr s' \<and> ok s' \<and> frame s' = frame s \<and>
    (\<forall>r \<in> set rows. look s' (slot_of_row r) = entry r (look s (slot_of_row r))) \<and>
    (\<forall>i. i \<notin> slot_of_row ` set rows \<longrightarrow> look s' i = look s i)"
  using assms
proof (induction rows arbitrary: s)
  case (Cons r rows)
  from step [of r s] Cons.prems obtain s1 where s1: "write_row r s = Inr s1" "ok s1" "frame s1 = frame s"
      "\<And>i. look s1 i = (if i = slot_of_row r then entry r (look s i) else look s i)" by auto
  from Cons.IH [of s1] Cons.prems s1(2) obtain s' where s': "each write_row rows s1 = Inr s'" "ok s'" "frame s' = frame s1"
      "\<forall>r \<in> set rows. look s' (slot_of_row r) = entry r (look s1 (slot_of_row r))"
      "\<forall>i. i \<notin> slot_of_row ` set rows \<longrightarrow> look s' i = look s1 i" by auto
  have "slot_of_row r \<notin> slot_of_row ` set rows" using Cons.prems(2) by simp
  then have "look s1 (slot_of_row q) = look s (slot_of_row q)" if "q \<in> set rows" for q
    using s1(4) [of "slot_of_row q"] that by (metis image_eqI)
  then show ?case using s1 s' \<open>slot_of_row r \<notin> slot_of_row ` set rows\<close> by simp
qed simp

text \<open>If a table is written out slot by slot, whatever the order of the rows, then every slot that was written
  out is filled with its row, and no other slot is touched.\<close>

lemma written_out:
  assumes rows: "set rows = (\<lambda>i. row i) ` A" "distinct (map slot_of_row rows)" and at: "\<forall>i \<in> A. slot_of_row (row i) = i \<and> fits (row i)"
    and ok: "ok s"
  shows "\<exists>s'. each write_row rows s = Inr s' \<and> ok s' \<and> frame s' = frame s \<and>
    (\<forall>i. look s' i = (if i \<in> A then entry (row i) (look s i) else look s i))"
proof -
  have "\<forall>r \<in> set rows. fits r" using rows(1) at by auto
  from all_rows [OF this rows(2) ok] obtain s' where s': "each write_row rows s = Inr s'" "ok s'" "frame s' = frame s"
      "\<forall>r \<in> set rows. look s' (slot_of_row r) = entry r (look s (slot_of_row r))"
      "\<forall>i. i \<notin> slot_of_row ` set rows \<longrightarrow> look s' i = look s i" by blast
  have "slot_of_row ` set rows = A" using rows(1) at by force
  moreover have "look s' i = entry (row i) (look s i)" if "i \<in> A" for i
    using s'(4) rows(1) at that by force
  ultimately show ?thesis using s' by auto
qed

end

subsection \<open>Keys\<close>

definition key_at :: "key_map_entry list \<Rightarrow> nat \<Rightarrow> key_map_entry option" where
  "key_at ks i = (if i < length ks then Some (ks ! i) else None)"

interpretation keys: row_writer load_key key_at "\<lambda>r. unat (dk_key r)"
  "\<lambda>r. map_option (\<lambda>_. \<lparr>km_type = dk_type r, km_action = dk_action r\<rparr>)" "\<lambda>r. unat (dk_key r) < KEYMAP_MAX_KEYS"
  "\<lambda>ks. length ks = KEYMAP_MAX_KEYS" length
  by unfold_locales (auto simp: load_key_def key_at_def)

subsection \<open>Equipment\<close>

definition known :: "surroundings \<Rightarrow> u32 \<Rightarrow> bool" where
  "known sr iid \<longleftrightarrow> sr_equip sr iid \<noteq> None"

definition cash_of :: "surroundings \<Rightarrow> u32 \<Rightarrow> bool" where
  "cash_of sr iid = info_cash (the (sr_equip sr iid))"

definition but_worn :: "character \<Rightarrow> character" where
  "but_worn chr = chr\<lparr>equippedEquipment := [], chr_estr := 0, chr_edex := 0, chr_eint := 0, chr_eluk := 0, chr_eMaxHp := 0, chr_eMaxMp := 0\<rparr>"

definition worn_at :: "character \<Rightarrow> nat \<Rightarrow> equip_entry option" where
  "worn_at chr i = (if i < length (equippedEquipment chr) then Some (worn chr i) else None)"

interpretation worn_rows: row_writer "load_worn sr" worn_at "\<lambda>r. worn_index (row_id r)" "\<lambda>r. map_option (fill_entry r (cash_of sr (row_id r)))"
  "\<lambda>r. worn_index (row_id r) < EQUIP_SLOT_COUNT \<and> known sr (row_id r)" "\<lambda>chr. length (equippedEquipment chr) = EQUIP_SLOT_COUNT" but_worn
  for sr
  by unfold_locales
    (auto simp: load_worn_def known_def cash_of_def worn_at_def worn_def set_worn_def add_stats_def but_worn_def Let_def)

definition but_kept :: "character \<Rightarrow> character" where
  "but_kept chr = chr\<lparr>equipmentInventory := (equipmentInventory chr)\<lparr>eqi_items := []\<rparr>\<rparr>"

definition kept_at :: "character \<Rightarrow> nat \<Rightarrow> equip_entry option" where
  "kept_at chr i = (if i < length (eqi_items (equipmentInventory chr)) then Some (equip_slot chr i) else None)"

interpretation kept_rows: row_writer "load_kept sr" kept_at "\<lambda>r. unat (se_slot r)"
  "\<lambda>r. map_option (fill_entry (se_equip r) (cash_of sr (row_id (se_equip r))))"
  "\<lambda>r. unat (se_slot r) < MAX_ITEM_COUNT \<and> known sr (row_id (se_equip r))"
  "\<lambda>chr. length (eqi_items (equipmentInventory chr)) = MAX_ITEM_COUNT" but_kept
  for sr
  by unfold_locales
    (auto simp: load_kept_def known_def cash_of_def kept_at_def equip_slot_def set_equip_slot_def but_kept_def Let_def)

subsection \<open>Stacks\<close>

definition row_inventory :: "slotted_item \<Rightarrow> nat" where
  "row_inventory r = unat (ucast (di_itemId (sl_item r) div 1000000 - 2) :: u8)"

definition stack_entry :: "slotted_item \<Rightarrow> item_entry \<Rightarrow> item_entry" where
  "stack_entry r e =
     \<lparr>ie_isEmpty = False, ie_item = \<lparr>ii_item = fill_item (sl_item r) (ii_item (ie_item e)), quantity = sl_count r\<rparr>\<rparr>"

definition tables_ok :: "character \<Rightarrow> bool" where
  "tables_ok chr \<longleftrightarrow> length (chr_inventory chr) = 4 \<and> (\<forall>t \<in> set (chr_inventory chr). length (inv_items t) = MAX_ITEM_COUNT)"

definition but_stacks :: "character \<Rightarrow> character" where
  "but_stacks chr = chr\<lparr>chr_inventory := map (\<lambda>t. t\<lparr>inv_items := []\<rparr>) (chr_inventory chr)\<rparr>"

definition stack_at :: "character \<Rightarrow> nat \<times> nat \<Rightarrow> item_entry option" where
  "stack_at chr p = (if fst p < 4 \<and> snd p < MAX_ITEM_COUNT then Some (item_slot chr (fst p) (snd p)) else None)"

lemma set_item_slot_tables:
  assumes "tables_ok chr"
  shows "tables_ok (set_item_slot iv i e chr)"
proof (cases "iv < length (chr_inventory chr)")
  case True
  let ?t = "(chr_inventory chr ! iv)\<lparr>inv_items := (inv_items (chr_inventory chr ! iv))[i := e]\<rparr>"
  have "set (chr_inventory (set_item_slot iv i e chr)) \<subseteq> insert ?t (set (chr_inventory chr))"
    using set_update_subset_insert [of "chr_inventory chr" iv ?t] by (simp add: set_item_slot_def)
  moreover have "length (inv_items ?t) = MAX_ITEM_COUNT" using assms nth_mem [OF True] by (simp add: tables_ok_def)
  ultimately show ?thesis using assms by (auto simp: tables_ok_def set_item_slot_def)
next
  case False
  then show ?thesis using assms by (simp add: set_item_slot_def list_update_beyond)
qed

lemma set_item_slot_but: "but_stacks (set_item_slot iv i e chr) = but_stacks chr"
  by (simp add: but_stacks_def set_item_slot_def map_update list_update_same_conv) (metis list_update_beyond list_update_id map_update not_le nth_map)

interpretation stack_rows: row_writer load_stack stack_at "\<lambda>r. (row_inventory r, unat (sl_slot r))"
  "\<lambda>r. map_option (stack_entry r)" "\<lambda>r. row_inventory r < 4 \<and> unat (sl_slot r) < MAX_ITEM_COUNT" tables_ok but_stacks
proof
  fix r s
  assume f: "row_inventory r < 4 \<and> unat (sl_slot r) < MAX_ITEM_COUNT" and ok: "tables_ok s"
  let ?iv = "row_inventory r" and ?i = "unat (sl_slot r)"
  let ?s = "set_item_slot ?iv ?i (stack_entry r (item_slot s ?iv ?i)) s"
  have "load_stack r s = Inr ?s"
    using f by (simp add: load_stack_def row_inventory_def stack_entry_def Let_def)
  moreover have "stack_at ?s p = (if p = (?iv, ?i) then map_option (stack_entry r) (stack_at s p) else stack_at s p)" for p
  proof -
    have l: "?iv < length (chr_inventory s)" "\<And>iv. iv < 4 \<Longrightarrow> length (inv_items (chr_inventory s ! iv)) = MAX_ITEM_COUNT"
      using ok f by (auto simp: tables_ok_def)
    show ?thesis
      using f l by (cases p) (auto simp: stack_at_def item_slot_def set_item_slot_def nth_list_update)
  qed
  ultimately show "\<exists>s'. load_stack r s = Inr s' \<and> tables_ok s' \<and> but_stacks s' = but_stacks s \<and>
      (\<forall>p. stack_at s' p = (if p = (?iv, ?i) then map_option (stack_entry r) (stack_at s p) else stack_at s p))"
    using set_item_slot_tables [OF ok] set_item_slot_but by blast
qed

end
