(* ===== verification/Set_Reload.thy ===== *)
theory Set_Reload
  imports Character_Load
begin

text \<open>
  The sets of a character through the database: \<open>foreach\<close> writes a row for every element, and inserting what is
  read from these rows, in any order, into an empty set gives a set with the same content.
\<close>

subsection \<open>Writing\<close>

definition elements :: "'d hash_set \<Rightarrow> 'd list" where
  "elements hs = elems (states hs) (data hs)"

lemma elements_distinct: "hash_set_inv hash key hs \<Longrightarrow> distinct (map key (elements hs))"
  by (simp add: hash_set_inv_def elements_def)

lemma in_elements:
  assumes "hash_set_inv hash key hs"
  shows "d \<in> set (elements hs) \<longleftrightarrow> hash_set_map key hs (key d) = Some d"
  using hash_set_map_iff [of key hs "key d" d] elements_distinct [OF assms] by (simp add: elements_def)

lemma collect_rows: "fold (\<lambda>d c. c @ [h d]) ds rows = rows @ map h ds"
  by (induction ds arbitrary: rows) simp_all

lemma foreach_list_same: "fst (foreach_list (\<lambda>d c. (d, f d c)) ds c) = ds"
  by (induction ds arbitrary: c) (simp_all add: case_prod_unfold)

lemma foreach_slots_same: "fst (foreach_slots (\<lambda>d c. (d, f d c)) sts ds c) = ds"
proof (induction sts ds arbitrary: c rule: list_induct2')
  case (4 st sts x ds)
  then show ?case by (cases st; cases x) (simp_all add: case_prod_unfold)
qed simp_all

lemma foreach_keep_rows:
  assumes "hash_set_inv hash key hs"
  shows "hash_set_foreach_keep (\<lambda>d c. (d, c @ [h d])) hs [] = (hs, map h (elements hs))"
proof -
  have "snd (hash_set_foreach_keep (\<lambda>d c. (d, c @ [h d])) hs []) = map h (elements hs)"
    using hash_set_foreach_ok(3) [OF assms, of "\<lambda>d c. (d, c @ [h d])" "[]"] by (simp add: collect_rows elements_def)
  moreover have "fst (hash_set_foreach_keep (\<lambda>d c. (d, c @ [h d])) hs []) = hs"
    by (simp add: hash_set_foreach_keep_def case_prod_unfold foreach_slots_same)
  ultimately show ?thesis by (simp add: prod_eq_iff)
qed

lemma foreach_shrink_rows:
  assumes "hash_set_inv hash key hs"
  shows "\<exists>hs'. hash_set_foreach_shrink hash key mem (\<lambda>d c. (d, c @ [h d])) hs [] = Some (hs', map h (elements hs)) \<and>
    hash_set_inv hash key hs' \<and> hash_set_map key hs' = hash_set_map key hs"
proof -
  let ?b = "hs\<lparr>iterating := True\<rparr>" and ?a = "hs\<lparr>iterating := False\<rparr>"
  have b: "hash_set_inv hash key ?b" "elements ?b = elements hs" "?b\<lparr>iterating := False\<rparr> = ?a"
    using assms by (simp_all add: hash_set_inv_def elements_def)
  have a: "hash_set_inv hash key ?a" "hash_set_map key ?a = hash_set_map key hs"
    using assms by (simp_all add: hash_set_inv_def hash_set_map_def)
  show ?thesis
  proof (cases "count ?a < capacity ?a div 4")
    case True
    with realloc_set_ok [OF a(1) True, of mem] a b foreach_keep_rows [OF b(1), of h] show ?thesis
      by (auto simp: hash_set_foreach_shrink_def Let_def)
  next
    case False
    with a b foreach_keep_rows [OF b(1), of h] show ?thesis by (auto simp: hash_set_foreach_shrink_def Let_def)
  qed
qed

subsection \<open>Reading\<close>

definition insert_row :: "('k \<Rightarrow> nat) \<Rightarrow> ('d \<Rightarrow> 'k) \<Rightarrow> ('r \<Rightarrow> 'd) \<Rightarrow> 'r \<Rightarrow> 'd hash_set \<Rightarrow> quest_error + 'd hash_set" where
  "insert_row hash key g r hs = map_sum id fst (endless (hash_set_insert hash key True hs (g r)))"

lemma empty_set_ok: "hash_set_inv hash key empty_set" "hash_set_map key empty_set = Map.empty" "elements empty_set = []"
  by (simp_all add: empty_set_def hash_set_init_def hash_set_inv_def table_ok_def hash_set_map_def elements_def)

lemma each_insert:
  assumes "hash_set_inv hash key hs" and "distinct (map (\<lambda>r. key (g r)) rows)"
    and "\<forall>r \<in> set rows. hash_set_map key hs (key (g r)) = None"
  shows "\<exists>hs'. each (insert_row hash key g) rows hs = Inr hs' \<and> hash_set_inv hash key hs' \<and>
    (\<forall>r \<in> set rows. hash_set_map key hs' (key (g r)) = Some (g r)) \<and>
    (\<forall>k. k \<notin> (\<lambda>r. key (g r)) ` set rows \<longrightarrow> hash_set_map key hs' k = hash_set_map key hs k)"
  using assms
proof (induction rows arbitrary: hs)
  case (Cons r rows)
  from hash_set_insert_ok [OF Cons.prems(1), of "g r"] Cons.prems(3) obtain hs1 where
    hs1: "hash_set_insert hash key True hs (g r) = Some (hs1, 0)" "hash_set_inv hash key hs1"
      "hash_set_map key hs1 = (hash_set_map key hs)(key (g r) \<mapsto> g r)" by auto
  have new: "key (g r) \<notin> (\<lambda>r. key (g r)) ` set rows" using Cons.prems(2) by simp
  have "hash_set_map key hs1 (key (g q)) = None" if "q \<in> set rows" for q
  proof -
    have "key (g q) \<noteq> key (g r)" using new that by (metis imageI)
    then show ?thesis using Cons.prems(3) hs1(3) that by simp
  qed
  with Cons.IH [of hs1] hs1(2) Cons.prems(2) obtain hs' where hs': "each (insert_row hash key g) rows hs1 = Inr hs'"
      "hash_set_inv hash key hs'" "\<forall>r \<in> set rows. hash_set_map key hs' (key (g r)) = Some (g r)"
      "\<forall>k. k \<notin> (\<lambda>r. key (g r)) ` set rows \<longrightarrow> hash_set_map key hs' k = hash_set_map key hs1 k" by auto
  have "insert_row hash key g r hs = Inr hs1" by (simp add: insert_row_def hs1(1) endless_def)
  moreover have "hash_set_map key hs' (key (g r)) = Some (g r)" using hs'(4) new hs1(3) by simp
  ultimately show ?case using hs' hs1(3) by auto
qed simp

text \<open>\<open>nrm\<close>: what of an element its row has.\<close>

lemma reload_set:
  assumes inv: "hash_set_inv hash key hs" and rows: "mset rows = mset (map f (elements hs))"
    and g: "\<And>d. d \<in> set (elements hs) \<Longrightarrow> g (f d) = nrm d" and key: "\<And>d. key (nrm d) = key d"
  shows "\<exists>hs'. each (insert_row hash key g) rows empty_set = Inr hs' \<and> hash_set_inv hash key hs' \<and>
    hash_set_map key hs' = (\<lambda>k. map_option nrm (hash_set_map key hs k))"
proof -
  have "mset (map (\<lambda>r. key (g r)) rows) = mset (map (\<lambda>d. key (g (f d))) (elements hs))"
    using arg_cong [OF rows, of "image_mset (\<lambda>r. key (g r))"] by (simp add: multiset.map_comp comp_def)
  also have "map (\<lambda>d. key (g (f d))) (elements hs) = map key (elements hs)" using g key by simp
  finally have d: "distinct (map (\<lambda>r. key (g r)) rows)"
    using elements_distinct [OF inv] mset_eq_imp_distinct_iff by blast
  have set: "set rows = f ` set (elements hs)" using rows by (metis set_mset_mset set_map)
  have "\<forall>r \<in> set rows. hash_set_map key empty_set (key (g r)) = None" by (simp add: empty_set_ok(2))
  from each_insert [where key = key and g = g and hash = hash, OF empty_set_ok(1) d this] empty_set_ok(2) [of key] obtain hs' where hs': "each (insert_row hash key g) rows empty_set = Inr hs'"
      "hash_set_inv hash key hs'" "\<forall>r \<in> set rows. hash_set_map key hs' (key (g r)) = Some (g r)"
      "\<forall>k. k \<notin> (\<lambda>r. key (g r)) ` set rows \<longrightarrow> hash_set_map key hs' k = None" by auto
  have "hash_set_map key hs' k = map_option nrm (hash_set_map key hs k)" for k
  proof (cases "hash_set_map key hs k")
    case None
    have "k \<notin> (\<lambda>r. key (g r)) ` set rows"
    proof
      assume "k \<in> (\<lambda>r. key (g r)) ` set rows"
      then obtain d where "d \<in> set (elements hs)" "k = key d" using set g key by auto
      with None show False using in_elements [OF inv, of d] by simp
    qed
    with hs'(4) None show ?thesis by simp
  next
    case (Some d)
    then have k: "key d = k" "d \<in> set (elements hs)"
      using hash_set_map_iff [of key hs k d] elements_distinct [OF inv] by (auto simp: elements_def)
    then have "f d \<in> set rows" "g (f d) = nrm d" using set g by auto
    with hs'(3) k(1) key [of d] Some show ?thesis by auto
  qed
  with hs' show ?thesis by blast
qed

lemma reload_same:
  assumes "hash_set_inv hash key hs" and "mset rows = mset (map f (elements hs))" and "\<And>d. d \<in> set (elements hs) \<Longrightarrow> g (f d) = d"
  shows "\<exists>hs'. each (insert_row hash key g) rows empty_set = Inr hs' \<and> hash_set_inv hash key hs' \<and> hash_set_map key hs' = hash_set_map key hs"
  using reload_set [where nrm = "\<lambda>d. d" and hash = hash and key = key and hs = hs and rows = rows and f = f and g = g] assms
  by (simp add: option.map_ident)

subsection \<open>Sets that may have an element twice\<close>

text \<open>Without the condition that the keys are different, an insertion still comes to an end.\<close>

definition bag_ok :: "('k \<Rightarrow> nat) \<Rightarrow> ('d \<Rightarrow> 'k) \<Rightarrow> 'd hash_set \<Rightarrow> bool" where
  "bag_ok hash key hs \<longleftrightarrow> table_ok hash key (capacity hs) (states hs) (data hs) \<and> count hs = length (elements hs)"

lemma bag_insert_slot:
  assumes ok: "bag_ok hash key hs" and room: "count hs < capacity hs"
  shows "\<exists>hs'. insert_slot hash key hs d = Some (hs', 0) \<and> bag_ok hash key hs' \<and> set (elements hs') = insert d (set (elements hs))"
proof -
  note T = ok [unfolded bag_ok_def elements_def]
  obtain j where "j < capacity hs" "states hs ! j \<noteq> Occupied" using exists_unoccupied T room by metis
  then obtain i where i: "probe (\<lambda>i. states hs ! i \<noteq> Occupied) (capacity hs) (hash (key d) mod capacity hs) = Some i"
    "table_ok hash key (capacity hs) ((states hs)[i := Occupied]) ((data hs)[i := Some d])"
    "mset (elems ((states hs)[i := Occupied]) ((data hs)[i := Some d])) = add_mset d (mset (elems (states hs) (data hs)))"
    using occupy_probed [of hash key "capacity hs" "states hs" "data hs" j "\<lambda>st. st \<noteq> Occupied" d] T by auto
  show ?thesis
    using i(2) arg_cong [OF i(3), of size] arg_cong [OF i(3), of set_mset] T
    by (simp add: insert_slot_def i(1) bag_ok_def elements_def)
qed

lemma bag_insert:
  assumes ok: "bag_ok hash key hs"
  shows "\<exists>hs'. hash_set_insert hash key True hs d = Some (hs', 0) \<and> bag_ok hash key hs' \<and> set (elements hs') = insert d (set (elements hs))"
proof (cases "count hs = capacity hs")
  case False
  have "count hs \<le> capacity hs" using ok count_le_cap by (metis bag_ok_def elements_def)
  with False bag_insert_slot [OF ok, of d] show ?thesis by (simp add: hash_set_insert_def)
next
  case True
  let ?cap = "capacity hs"
  have t: "table_ok hash key ?cap (states hs) (data hs)" and cnt: "length (elems (states hs) (data hs)) = ?cap"
    using ok True unfolding bag_ok_def elements_def by metis+
  note T = table_okD [OF t]
  have "\<forall>i < length (states hs). states hs ! i = Occupied \<and> data hs ! i \<noteq> None"
    using all_occupied [OF t cnt] T(2,4) by fastforce
  then have full: "elems (states hs) (data hs) = map the (data hs)" "None \<notin> set (data hs)"
    using elems_full [of "states hs" "data hs"] T(2,3) by simp_all
  have "\<forall>x \<in> set (data hs). x \<noteq> None" "length (data hs) \<le> ?cap * 2" "0 < ?cap * 2" using full(2) T(1,3) by (metis, simp, simp)
  then obtain sts ds where r: "rehash hash key (?cap * 2) (data hs) (new_table (?cap * 2)) = Some (sts, ds)"
    "table_ok hash key (?cap * 2) sts ds" "mset (elems sts ds) = mset (map the (data hs))"
    using rehash_new_table [of "data hs" "?cap * 2" hash key] by blast
  let ?hs = "hs\<lparr>data := ds, states := sts, capacity := ?cap * 2\<rparr>"
  have m: "mset (elements ?hs) = mset (elements hs)" using r(3) full(1) by (simp add: elements_def)
  then have "set (elements ?hs) = set (elements hs)" "length (elements ?hs) = length (elements hs)"
    by (metis set_mset_mset, metis size_mset)
  moreover from this have "bag_ok hash key ?hs" using ok r(2) by (simp add: bag_ok_def)
  ultimately show ?thesis
    using bag_insert_slot [of hash key ?hs d] True r(1) T(1) by (simp add: hash_set_insert_def)
qed

end
