(* ===== verification/Quest_Reload.thy ===== *)
theory Quest_Reload
  imports Set_Reload Quest_Counters
begin

text \<open>
  Quests through the database: the started quests come back with the progress that counts, and the two sets that are
  not stored are computed to what they should be, the counters of monsters (\<open>counters_ok\<close> of \<open>Quest_Counters\<close>)
  and the items that are missing.
\<close>

subsection \<open>Progress\<close>

definition mobs_for :: "surroundings \<Rightarrow> quest \<Rightarrow> (u32 \<times> int) list" where
  "mobs_for sr q = (case sr_quest sr (q_id q) of None \<Rightarrow> [] | Some info \<Rightarrow> first_mobs (qd_endRequirements info))"

text \<open>What can be stored: numbers of 16 bits, and every kind of monster at most once in a requirement.\<close>

definition hunt_fits :: "surroundings \<Rightarrow> quest \<Rightarrow> bool" where
  "hunt_fits sr q \<longleftrightarrow>
     hunt_ok sr q \<and> distinct (map fst (mobs_for sr q)) \<and> (\<forall>(m, n) \<in> set (mobs_for sr q). n \<le> 32767) \<and>
     (\<forall>p \<in> set (q_progress q). - 32768 \<le> p \<and> p \<le> 32767)"

definition rows_of :: "surroundings \<Rightarrow> quest \<Rightarrow> database_progress list" where
  "rows_of sr q = progress_rows q (mobs_for sr q)"

definition row_at :: "surroundings \<Rightarrow> quest \<Rightarrow> nat \<Rightarrow> database_progress" where
  "row_at sr q j = \<lparr>pr_questId = q_id q, pr_progressId = fst (mobs_for sr q ! j), pr_progress = q_progress q ! j\<rparr>"

lemma hunt_fitsD:
  assumes "hunt_fits sr q"
  shows "\<exists>info. sr_quest sr (q_id q) = Some info \<and> mobs_for sr q = first_mobs (qd_endRequirements info)"
    and "unat (q_progressCount q) = length (mobs_for sr q)" "length (mobs_for sr q) \<le> 4" "length (q_progress q) = 5"
    "distinct (map fst (mobs_for sr q))"
    and "j < length (mobs_for sr q) \<Longrightarrow> 0 < snd (mobs_for sr q ! j) \<and> to_i16 (snd (mobs_for sr q ! j)) = snd (mobs_for sr q ! j)"
    and "j < 5 \<Longrightarrow> to_i16 (q_progress q ! j) = q_progress q ! j"
proof -
  obtain info where info: "sr_quest sr (q_id q) = Some info" "quest_info_ok info" "length (q_progress q) = progress_slots"
      "unat (q_progressCount q) = length (first_mobs (qd_endRequirements info))"
    using assms by (auto simp: hunt_fits_def hunt_ok_def)
  then have m: "mobs_for sr q = first_mobs (qd_endRequirements info)" by (simp add: mobs_for_def)
  show "\<exists>info. sr_quest sr (q_id q) = Some info \<and> mobs_for sr q = first_mobs (qd_endRequirements info)" using info(1) m by blast
  show "unat (q_progressCount q) = length (mobs_for sr q)" "length (mobs_for sr q) \<le> 4" "length (q_progress q) = 5"
    using info m by (simp_all add: quest_info_ok_def Let_def progress_slots_def)
  show "distinct (map fst (mobs_for sr q))" using assms by (simp add: hunt_fits_def)
  show "j < length (mobs_for sr q) \<Longrightarrow> 0 < snd (mobs_for sr q ! j) \<and> to_i16 (snd (mobs_for sr q ! j)) = snd (mobs_for sr q ! j)"
  proof -
    assume "j < length (mobs_for sr q)"
    then have j: "mobs_for sr q ! j \<in> set (mobs_for sr q)" by simp
    then have "0 < snd (mobs_for sr q ! j)" using info(2) m by (auto simp: quest_info_ok_def Let_def)
    moreover have "snd (mobs_for sr q ! j) \<le> 32767" using j assms by (auto simp: hunt_fits_def)
    ultimately show ?thesis by (simp add: to_i16_id)
  qed
  show "j < 5 \<Longrightarrow> to_i16 (q_progress q ! j) = q_progress q ! j"
    using assms info(3) by (intro to_i16_id) (auto simp: hunt_fits_def progress_slots_def)
qed

lemma rows_of_nth:
  assumes "hunt_fits sr q"
  shows "rows_of sr q = map (row_at sr q) [0..<length (mobs_for sr q)]"
  using hunt_fitsD(2,3) [OF assms] hunt_fitsD(7) [OF assms] by (auto simp: rows_of_def progress_rows_def row_at_def)

lemma row_at_inj:
  assumes "hunt_fits sr q" "i < length (mobs_for sr q)" "j < length (mobs_for sr q)"
  shows "row_at sr q i = row_at sr q j \<longleftrightarrow> i = j"
proof
  assume "row_at sr q i = row_at sr q j"
  then have "map fst (mobs_for sr q) ! i = map fst (mobs_for sr q) ! j" using assms(2,3) by (simp add: row_at_def)
  then show "i = j" using nth_eq_iff_index_eq [OF hunt_fitsD(5) [OF assms(1)], of i j] assms(2,3) by simp
qed simp

lemma find_row:
  assumes "hunt_fits sr q" "j < length (mobs_for sr q)"
  shows "find (\<lambda>i. fst (mobs_for sr q ! i) = fst (mobs_for sr q ! j)) [0..<length (mobs_for sr q)] = Some j"
proof -
  have "fst (mobs_for sr q ! i) = fst (mobs_for sr q ! j) \<longleftrightarrow> i = j" if "i < length (mobs_for sr q)" for i
    using hunt_fitsD(5) [OF assms(1)] assms(2) that nth_eq_iff_index_eq [of "map fst (mobs_for sr q)" i j] by simp
  then show ?thesis using assms(2) by (auto simp: find_Some_iff intro!: exI [of _ j])
qed

subsection \<open>The loop over the rows of progress\<close>

definition still_open :: "surroundings \<Rightarrow> u32 \<Rightarrow> database_progress \<Rightarrow> bool" where
  "still_open sr mid r \<longleftrightarrow>
     pr_progressId r = mid \<and>
     (\<exists>n. map_of (mobs_for sr (new_quest (pr_questId r))) mid = Some n \<and> pr_progress r < n)"

definition open_rows :: "surroundings \<Rightarrow> database_progress list \<Rightarrow> u32 \<Rightarrow> int" where
  "open_rows sr rows mid = int (length (filter (still_open sr mid) rows))"

definition partial :: "surroundings \<Rightarrow> database_progress list \<Rightarrow> quest \<Rightarrow> quest" where
  "partial sr rows q =
     \<lparr>q_id = q_id q, q_progressCount = of_nat (length (filter (\<lambda>r. pr_questId r = q_id q) rows)),
      q_progress = map (\<lambda>j. if j < length (mobs_for sr q) \<and> row_at sr q j \<in> set rows then q_progress q ! j else 0) [0..<5]\<rparr>"

definition loaded_progress :: "surroundings \<Rightarrow> (u16 \<Rightarrow> quest option) \<Rightarrow> database_progress list \<Rightarrow> character \<Rightarrow> bool" where
  "loaded_progress sr m rows chr \<longleftrightarrow>
     hash_set_inv (hash_u16 (sr_hash sr)) q_id (quests chr) \<and> monsters_inv sr (monsterQuests chr) \<and>
     hash_set_map q_id (quests chr) = (\<lambda>k. map_option (partial sr rows) (m k)) \<and>
     counts (open_rows sr rows) (hash_set_map mr_id (monsterQuests chr))"

lemma partial_id [simp]: "q_id (partial sr rows q) = q_id q"
  by (simp add: partial_def)

lemma mobs_for_id: "q_id q = q_id q' \<Longrightarrow> mobs_for sr q = mobs_for sr q'"
  by (simp add: mobs_for_def)

lemma map_of_mobs:
  assumes "hunt_fits sr q" "j < length (mobs_for sr q)"
  shows "map_of (mobs_for sr q) (fst (mobs_for sr q ! j)) = Some (snd (mobs_for sr q ! j))"
  using assms hunt_fitsD(5) [OF assms(1)] by (intro map_of_is_SomeI) simp_all

lemma still_open_row:
  assumes "hunt_fits sr q" "j < length (mobs_for sr q)"
  shows "still_open sr mid (row_at sr q j) \<longleftrightarrow> fst (mobs_for sr q ! j) = mid \<and> q_progress q ! j < snd (mobs_for sr q ! j)"
proof -
  have "mobs_for sr (new_quest (q_id q)) = mobs_for sr q" by (rule mobs_for_id) (simp add: new_quest_def)
  then show ?thesis using map_of_mobs [OF assms] by (auto simp: still_open_def row_at_def)
qed

lemma partial_step:
  assumes fits: "hunt_fits sr q" and j: "j < length (mobs_for sr q)" and new: "row_at sr q j \<notin> set rows"
  shows "(partial sr rows q)\<lparr>q_progress := (q_progress (partial sr rows q))[j := q_progress q ! j],
      q_progressCount := q_progressCount (partial sr rows q) + 1\<rparr> = partial sr (rows @ [row_at sr q j]) q"
proof -
  have "j < 5" using j hunt_fitsD(3) [OF fits] by simp
  have "(map (\<lambda>i. if i < length (mobs_for sr q) \<and> row_at sr q i \<in> set rows then q_progress q ! i else 0) [0..<5])[j := q_progress q ! j] =
      map (\<lambda>i. if i < length (mobs_for sr q) \<and> row_at sr q i \<in> set (rows @ [row_at sr q j]) then q_progress q ! i else 0) [0..<5]"
    (is "?L = ?R")
  proof (rule nth_equalityI)
    fix i
    assume i: "i < length ?L"
    then show "?L ! i = ?R ! i" using j \<open>j < 5\<close> row_at_inj [OF fits, of i j] by (cases "i = j") auto
  qed simp
  then show ?thesis by (simp add: partial_def row_at_def add.commute)
qed

lemma partial_other:
  assumes "q_id q' \<noteq> q_id q"
  shows "partial sr (rows @ [row_at sr q j]) q' = partial sr rows q'"
  using assms by (auto simp: partial_def row_at_def)

lemma load_progress_step:
  assumes ok: "loaded_progress sr m rows chr" and mem: "sr_mem sr For_monster"
    and q: "m (q_id q) = Some q" "hunt_fits sr q" "j < length (mobs_for sr q)" and new: "row_at sr q j \<notin> set rows"
    and ids: "\<And>k q. m k = Some q \<Longrightarrow> q_id q = k"
    and room: "\<And>mid. open_rows sr (rows @ [row_at sr q j]) mid \<le> 127"
  shows "\<exists>qs ms. load_progress sr (row_at sr q j) chr = Inr (chr\<lparr>monsterQuests := ms, quests := qs\<rparr>) \<and>
    loaded_progress sr m (rows @ [row_at sr q j]) (chr\<lparr>monsterQuests := ms, quests := qs\<rparr>)"
proof -
  let ?r = "row_at sr q j" and ?mid = "fst (mobs_for sr q ! j)" and ?n = "snd (mobs_for sr q ! j)"
  have inv: "hash_set_inv (hash_u16 (sr_hash sr)) q_id (quests chr)" "monsters_inv sr (monsterQuests chr)"
    and M: "hash_set_map q_id (quests chr) = (\<lambda>k. map_option (partial sr rows) (m k))"
    and C: "counts (open_rows sr rows) (hash_set_map mr_id (monsterQuests chr))"
    using ok by (auto simp: loaded_progress_def)
  obtain info where info: "sr_quest sr (q_id q) = Some info" "mobs_for sr q = first_mobs (qd_endRequirements info)"
    using hunt_fitsD(1) [OF q(2)] by blast
  have got: "get_quest sr chr (q_id q) = Inr (Some (partial sr rows q))"
    using u16.get_law [OF inv(1), of "q_id q"] M q(1) by (simp add: get_quest_def endless_def)
  have w: "open_rows sr (rows @ [?r]) = (open_rows sr rows)(?mid := open_rows sr rows ?mid + (if q_progress q ! j < ?n then 1 else 0))"
    using still_open_row [OF q(2,3)] by (auto simp: fun_eq_iff open_rows_def)
  have "\<exists>ms. (if q_progress q ! j < ?n then need_monster sr ?mid (monsterQuests chr) else Inr (monsterQuests chr)) = Inr ms \<and>
      monsters_inv sr ms \<and> counts (open_rows sr (rows @ [?r])) (hash_set_map mr_id ms)"
  proof (cases "q_progress q ! j < ?n")
    case True
    have "0 \<le> open_rows sr rows ?mid" "open_rows sr rows ?mid < 127" using room [of ?mid] True by (simp_all add: open_rows_def w)
    from need_counts [OF inv(2) C this mem] True show ?thesis by (simp add: w)
  next
    case False
    then have "open_rows sr (rows @ [?r]) = open_rows sr rows" by (simp add: w)
    then show ?thesis using False inv(2) C by simp
  qed
  then obtain ms where ms: "(if q_progress q ! j < ?n then need_monster sr ?mid (monsterQuests chr) else Inr (monsterQuests chr)) = Inr ms"
      "monsters_inv sr ms" "counts (open_rows sr (rows @ [?r])) (hash_set_map mr_id ms)" by blast
  let ?f = "\<lambda>q'. q'\<lparr>q_progress := (q_progress q')[j := q_progress q ! j], q_progressCount := q_progressCount q' + 1\<rparr>"
  let ?qs = "modify_element q_id (q_id q) ?f (quests chr)"
  have qs: "hash_set_inv (hash_u16 (sr_hash sr)) q_id ?qs"
      "hash_set_map q_id ?qs = (hash_set_map q_id (quests chr))(q_id q := map_option ?f (hash_set_map q_id (quests chr) (q_id q)))"
    using modify_element_ok [OF inv(1), of ?f "q_id q"] by simp_all
  have "hash_set_map q_id ?qs k = map_option (partial sr (rows @ [?r])) (m k)" for k
  proof (cases "k = q_id q")
    case True
    then show ?thesis using qs(2) M q(1) partial_step [OF q(2,3) new] by simp
  next
    case False
    then have "partial sr (rows @ [?r]) q' = partial sr rows q'" if "m k = Some q'" for q'
      using ids [OF that] by (intro partial_other) simp
    then show ?thesis using False qs(2) M by (cases "m k") auto
  qed
  then have "loaded_progress sr m (rows @ [?r]) (chr\<lparr>monsterQuests := ms, quests := ?qs\<rparr>)"
    using qs(1) ms(2,3) by (simp add: loaded_progress_def fun_eq_iff)
  moreover have "load_progress sr ?r chr = Inr (chr\<lparr>monsterQuests := ms, quests := ?qs\<rparr>)"
  proof -
    have "j < progress_slots" "to_i16 ?n = ?n" using q(3) hunt_fitsD(3,6) [OF q(2)] by (auto simp: progress_slots_def)
    then show ?thesis
      using got info find_row [OF q(2,3)] ms(1) by (simp add: load_progress_def row_at_def Let_def cong: if_cong)
  qed
  ultimately show ?thesis by blast
qed


lemma open_rows_append: "open_rows sr (xs @ ys) mid = open_rows sr xs mid + open_rows sr ys mid"
  by (simp add: open_rows_def)

lemma load_all_progress:
  assumes "loaded_progress sr m seen chr" and "sr_mem sr For_monster"
    and "\<forall>r \<in> set rows. \<exists>q j. m (q_id q) = Some q \<and> j < length (mobs_for sr q) \<and> r = row_at sr q j"
    and "distinct (seen @ rows)" and "\<And>k q. m k = Some q \<Longrightarrow> q_id q = k \<and> hunt_fits sr q"
    and "\<And>mid. open_rows sr (seen @ rows) mid \<le> 127"
  shows "\<exists>qs ms. each (load_progress sr) rows chr = Inr (chr\<lparr>monsterQuests := ms, quests := qs\<rparr>) \<and>
    loaded_progress sr m (seen @ rows) (chr\<lparr>monsterQuests := ms, quests := qs\<rparr>)"
  using assms(1,3,4,6)
proof (induction rows arbitrary: seen chr)
  case Nil
  then show ?case by (intro exI [of _ "quests chr"] exI [of _ "monsterQuests chr"]) simp
next
  case (Cons r rows)
  obtain q j where q: "m (q_id q) = Some q" "j < length (mobs_for sr q)" "r = row_at sr q j" using Cons.prems(2) by auto
  have "open_rows sr (seen @ [r]) mid \<le> open_rows sr (seen @ r # rows) mid" for mid
    using open_rows_append [of sr "seen @ [r]" rows mid] by (simp add: open_rows_def)
  then have room: "open_rows sr (seen @ [row_at sr q j]) mid \<le> 127" for mid using Cons.prems(4) [of mid] q(3) order_trans by blast
  have new: "row_at sr q j \<notin> set seen" using Cons.prems(3) q(3) by simp
  have "\<exists>qs ms. load_progress sr (row_at sr q j) chr = Inr (chr\<lparr>monsterQuests := ms, quests := qs\<rparr>) \<and>
      loaded_progress sr m (seen @ [row_at sr q j]) (chr\<lparr>monsterQuests := ms, quests := qs\<rparr>)"
  proof (rule load_progress_step)
    show "loaded_progress sr m seen chr" by (rule Cons.prems(1))
    show "hunt_fits sr q" using assms(5) [OF q(1)] ..
    show "\<And>k q. m k = Some q \<Longrightarrow> q_id q = k" using assms(5) by blast
  qed (rule assms(2) q(1) q(2) new room)+
  then obtain qs ms where one: "load_progress sr r chr = Inr (chr\<lparr>monsterQuests := ms, quests := qs\<rparr>)"
      "loaded_progress sr m (seen @ [r]) (chr\<lparr>monsterQuests := ms, quests := qs\<rparr>)" using q(3) by blast
  have "\<exists>qs' ms'. each (load_progress sr) rows (chr\<lparr>monsterQuests := ms, quests := qs\<rparr>) =
        Inr (chr\<lparr>monsterQuests := ms, quests := qs\<rparr>\<lparr>monsterQuests := ms', quests := qs'\<rparr>) \<and>
      loaded_progress sr m ((seen @ [r]) @ rows) (chr\<lparr>monsterQuests := ms, quests := qs\<rparr>\<lparr>monsterQuests := ms', quests := qs'\<rparr>)"
    by (rule Cons.IH [OF one(2)]) (use Cons.prems in simp_all)
  then show ?case using one(1) by auto
qed

subsection \<open>All rows of progress\<close>

definition stored_quest :: "quest \<Rightarrow> quest" where
  "stored_quest q =
     q\<lparr>q_progress := take (unat (q_progressCount q)) (q_progress q) @ replicate (progress_slots - unat (q_progressCount q)) 0\<rparr>"

definition all_rows_of :: "surroundings \<Rightarrow> quest list \<Rightarrow> database_progress list" where
  "all_rows_of sr ds = concat (map (rows_of sr) ds)"

lemma rows_of_id: "r \<in> set (rows_of sr q) \<Longrightarrow> pr_questId r = q_id q"
  by (auto simp: rows_of_def progress_rows_def)

lemma rows_of_one:
  assumes "distinct (map q_id ds)" and "q \<in> set ds"
  shows "filter (\<lambda>r. pr_questId r = q_id q) (all_rows_of sr ds) = rows_of sr q"
  using assms
proof (induction ds)
  case (Cons d ds)
  have same: "filter (\<lambda>r. pr_questId r = q_id q) (rows_of sr d) = (if q_id d = q_id q then rows_of sr d else [])" for d
    using rows_of_id [of _ sr d] by (auto simp: filter_empty_conv)
  have none: "filter (\<lambda>r. pr_questId r = q_id d) (all_rows_of sr ds) = []"
  proof -
    have "pr_questId r \<noteq> q_id d" if "r \<in> set (all_rows_of sr ds)" for r
    proof -
      obtain d' where "d' \<in> set ds" "pr_questId r = q_id d'" using \<open>r \<in> set (all_rows_of sr ds)\<close> rows_of_id by (force simp: all_rows_of_def)
      then show ?thesis using Cons.prems(1) by (metis distinct.simps(2) image_eqI list.set_map list.simps(9))
    qed
    then show ?thesis by (simp add: filter_empty_conv)
  qed
  show ?case
  proof (cases "q = d")
    case True
    then show ?thesis using same [of d] none by (simp add: all_rows_of_def)
  next
    case False
    then have "q \<in> set ds" "q_id d \<noteq> q_id q" using Cons.prems by auto
    then show ?thesis using Cons same [of d] by (simp add: all_rows_of_def)
  qed
qed simp

lemma all_rows_distinct:
  assumes "distinct (map q_id ds)" and "\<forall>q \<in> set ds. hunt_fits sr q"
  shows "distinct (all_rows_of sr ds)"
  using assms
proof (induction ds)
  case (Cons d ds)
  have "distinct (rows_of sr d)"
    using rows_of_nth [of sr d] row_at_inj [of sr d] Cons.prems(2) by (auto simp: distinct_map inj_on_def)
  moreover have "set (rows_of sr d) \<inter> set (all_rows_of sr ds) = {}"
  proof (rule ccontr)
    assume "set (rows_of sr d) \<inter> set (all_rows_of sr ds) \<noteq> {}"
    then obtain r d' where "r \<in> set (rows_of sr d)" "d' \<in> set ds" "r \<in> set (rows_of sr d')" by (auto simp: all_rows_of_def)
    then have "q_id d \<in> q_id ` set ds" using rows_of_id by (metis image_eqI)
    then show False using Cons.prems(1) by simp
  qed
  ultimately show ?case using Cons by (simp add: all_rows_of_def)
qed (simp add: all_rows_of_def)

lemma filter_length_mset: "mset xs = mset ys \<Longrightarrow> length (filter P xs) = length (filter P ys)"
  by (metis mset_filter size_mset)

lemma stored_partial:
  assumes "distinct (map q_id ds)" and "q \<in> set ds" and fits: "hunt_fits sr q" and rows: "mset rows = mset (all_rows_of sr ds)"
  shows "partial sr rows q = stored_quest q"
proof -
  let ?n = "length (mobs_for sr q)"
  have "length (filter (\<lambda>r. pr_questId r = q_id q) rows) = length (rows_of sr q)"
    unfolding filter_length_mset [OF rows] rows_of_one [OF assms(1,2)] ..
  then have n: "of_nat (length (filter (\<lambda>r. pr_questId r = q_id q) rows)) = q_progressCount q"
    by (simp add: rows_of_nth [OF fits] flip: hunt_fitsD(2) [OF fits])
  have "set (rows_of sr q) \<subseteq> set rows" using mset_eq_setD [OF rows] assms(2) by (auto simp: all_rows_of_def)
  then have r: "row_at sr q j \<in> set rows" if "j < ?n" for j using that by (auto simp: rows_of_nth [OF fits])
  have "map (\<lambda>j. if j < ?n \<and> row_at sr q j \<in> set rows then q_progress q ! j else 0) [0..<5] = take ?n (q_progress q) @ replicate (5 - ?n) 0"
    by (rule nth_equalityI) (use r hunt_fitsD(3,4) [OF fits] in \<open>auto simp: nth_append\<close>)
  then show ?thesis using n hunt_fitsD(2) [OF fits] by (simp add: partial_def stored_quest_def progress_slots_def)
qed

lemma zip_upt: "length xs \<le> length ys \<Longrightarrow> zip xs ys = map (\<lambda>i. (xs ! i, ys ! i)) [0..<length xs]"
  by (rule nth_equalityI) auto

lemma sum_list_indicator: "sum_list (map (\<lambda>x. if P x then 1 else 0) xs) = int (length (filter P xs))"
  by (induction xs) simp_all

lemma open_rows_quest:
  assumes "hunt_fits sr q"
  shows "open_rows sr (rows_of sr q) mid = open_counters sr q mid"
proof -
  let ?ms = "mobs_for sr q"
  obtain info where info: "sr_quest sr (q_id q) = Some info" "?ms = first_mobs (qd_endRequirements info)" using hunt_fitsD(1) [OF assms] by blast
  have "open_rows sr (rows_of sr q) mid = int (length (filter (\<lambda>j. fst (?ms ! j) = mid \<and> q_progress q ! j < snd (?ms ! j)) [0..<length ?ms]))"
    using still_open_row [OF assms] unfolding open_rows_def rows_of_nth [OF assms] filter_map length_map
    by (intro arg_cong [where f = "\<lambda>xs. int (length xs)"] filter_cong) auto
  moreover have "open_counters sr q mid = sum_list (map (\<lambda>j. if fst (?ms ! j) = mid \<and> q_progress q ! j < snd (?ms ! j) then 1 else 0) [0..<length ?ms])"
    using hunt_fitsD(3,4) [OF assms] info by (simp add: open_counters_def zip_upt case_prod_unfold comp_def)
  ultimately show ?thesis by (simp add: sum_list_indicator)
qed

lemma open_rows_all:
  assumes "\<forall>q \<in> set ds. hunt_fits sr q"
  shows "open_rows sr (all_rows_of sr ds) mid = sum_list (map (\<lambda>q. open_counters sr q mid) ds)"
  using assms
proof (induction ds)
  case (Cons q ds)
  then show ?case using open_rows_append [of sr "rows_of sr q" "all_rows_of sr ds" mid] open_rows_quest [of sr q mid]
    by (simp add: all_rows_of_def)
qed (simp add: all_rows_of_def open_rows_def)

lemma waiting_elements:
  assumes inv: "hash_set_inv hash q_id hs"
  shows "waiting sr (hash_set_map q_id hs) mid = sum_list (map (\<lambda>q. open_counters sr q mid) (elements hs))"
proof -
  note d = elements_distinct [OF inv]
  have dom: "dom (hash_set_map q_id hs) = q_id ` set (elements hs)" by (simp add: dom_hash_set_map elements_def)
  have inj: "inj_on q_id (set (elements hs))" using d by (simp add: distinct_map)
  have "the (hash_set_map q_id hs (q_id q)) = q" if "q \<in> set (elements hs)" for q
    using in_elements [OF inv, of q] that by simp
  then show ?thesis
    unfolding waiting_def dom sum.reindex [OF inj] using d
    by (subst sum.distinct_set_conv_list) (simp_all add: distinct_map cong: map_cong)
qed

lemma stored_quest_simps [simp]:
  "q_id (stored_quest q) = q_id q" "q_progressCount (stored_quest q) = q_progressCount q"
  by (simp_all add: stored_quest_def)

lemma stored_quest_ok:
  assumes "hunt_fits sr q"
  shows "hunt_ok sr (stored_quest q)" "open_counters sr (stored_quest q) mid = open_counters sr q mid"
proof -
  let ?n = "unat (q_progressCount q)"
  have n: "?n = length (mobs_for sr q)" "?n \<le> 4" "length (q_progress q) = 5" using hunt_fitsD(2-4) [OF assms] by simp_all
  show "hunt_ok sr (stored_quest q)"
    using assms n by (auto simp: hunt_fits_def hunt_ok_def stored_quest_def progress_slots_def)
  obtain info where info: "sr_quest sr (q_id q) = Some info" "mobs_for sr q = first_mobs (qd_endRequirements info)" using hunt_fitsD(1) [OF assms] by blast
  have "zip (mobs_for sr q) (q_progress (stored_quest q)) = zip (mobs_for sr q) (q_progress q)"
    by (rule nth_equalityI) (use n in \<open>auto simp: stored_quest_def progress_slots_def nth_append\<close>)
  then show "open_counters sr (stored_quest q) mid = open_counters sr q mid" using info by (simp add: open_counters_def)
qed

text \<open>
  The quests that are loaded from the rows of a set of quests with correct counters, and the counters that are
  loaded with them.
\<close>

lemma progress_reloaded:
  assumes inv: "hash_set_inv (hash_u16 (sr_hash sr)) q_id hs" and fits: "\<forall>q \<in> set (elements hs). hunt_fits sr q"
    and cnt: "\<And>mid. waiting sr (hash_set_map q_id hs) mid \<le> 127" and mem: "sr_mem sr For_monster"
    and rows: "mset rows = mset (all_rows_of sr (elements hs))"
    and fresh: "hash_set_inv (hash_u16 (sr_hash sr)) q_id (quests chr)" "monsterQuests chr = empty_set"
      "hash_set_map q_id (quests chr) = (\<lambda>k. map_option (\<lambda>_. new_quest k) (hash_set_map q_id hs k))"
  shows "\<exists>qs ms. each (load_progress sr) rows chr = Inr (chr\<lparr>monsterQuests := ms, quests := qs\<rparr>) \<and>
    hash_set_inv (hash_u16 (sr_hash sr)) q_id qs \<and> monsters_inv sr ms \<and>
    hash_set_map q_id qs = (\<lambda>k. map_option stored_quest (hash_set_map q_id hs k)) \<and>
    counters_ok sr (hash_set_map q_id qs) (hash_set_map mr_id ms)"
proof -
  let ?m = "hash_set_map q_id hs" and ?ds = "elements hs"
  note d = elements_distinct [OF inv]
  have m: "q_id q = k \<and> hunt_fits sr q \<and> q \<in> set ?ds" if "?m k = Some q" for k q
    using that hash_set_map_iff [of q_id hs k q] d fits by (auto simp: elements_def)
  have "partial sr [] q = new_quest k" if "?m k = Some q" for k q
    using m [OF that] by (simp add: partial_def new_quest_def progress_slots_def map_replicate_const)
  then have "hash_set_map q_id (quests chr) = (\<lambda>k. map_option (partial sr []) (?m k))"
    using fresh(3) by (auto simp: fun_eq_iff map_option_case split: option.split)
  then have start: "loaded_progress sr ?m [] chr"
    using fresh(1,2) by (simp add: loaded_progress_def empty_set_ok counts_def open_rows_def)
  have total: "open_rows sr rows mid = waiting sr ?m mid" for mid
  proof -
    have "open_rows sr rows mid = open_rows sr (all_rows_of sr ?ds) mid"
      unfolding open_rows_def filter_length_mset [OF rows] ..
    then show ?thesis using open_rows_all [OF fits, of mid] waiting_elements [OF inv, of sr mid] by simp
  qed
  have "\<forall>r \<in> set rows. \<exists>q j. ?m (q_id q) = Some q \<and> j < length (mobs_for sr q) \<and> r = row_at sr q j"
  proof
    fix r assume "r \<in> set rows"
    then have "r \<in> set (all_rows_of sr ?ds)" using mset_eq_setD [OF rows] by simp
    then obtain q where q: "q \<in> set ?ds" "r \<in> set (rows_of sr q)" by (auto simp: all_rows_of_def)
    then have "hunt_fits sr q" "?m (q_id q) = Some q" using fits in_elements [OF inv, of q] by auto
    then show "\<exists>q j. ?m (q_id q) = Some q \<and> j < length (mobs_for sr q) \<and> r = row_at sr q j"
      using q(2) by (intro exI [of _ q]) (auto simp: rows_of_nth)
  qed
  moreover have "distinct ([] @ rows)" using all_rows_distinct [OF d fits] mset_eq_imp_distinct_iff [OF rows] by simp
  ultimately obtain qs ms where r: "each (load_progress sr) rows chr = Inr (chr\<lparr>monsterQuests := ms, quests := qs\<rparr>)"
      "loaded_progress sr ?m rows (chr\<lparr>monsterQuests := ms, quests := qs\<rparr>)"
    using load_all_progress [OF start mem, of rows] m total cnt by auto
  have stored: "hash_set_map q_id qs = (\<lambda>k. map_option stored_quest (?m k))"
    using r(2) m stored_partial [OF d _ _ rows] by (auto simp: loaded_progress_def fun_eq_iff map_option_case split: option.split)
  have "waiting sr (hash_set_map q_id qs) mid = waiting sr ?m mid" for mid
  proof -
    have "dom (hash_set_map q_id qs) = dom ?m" by (auto simp: stored dom_def)
    then show ?thesis unfolding waiting_def using m stored_quest_ok(2) by (intro sum.cong) (auto simp: stored)
  qed
  then have "waiting sr (hash_set_map q_id qs) = open_rows sr rows" using total by (simp add: fun_eq_iff)
  then have "counters_ok sr (hash_set_map q_id qs) (hash_set_map mr_id ms)" using r(2) by (simp add: loaded_progress_def)
  moreover have "hash_set_inv (hash_u16 (sr_hash sr)) q_id qs" "monsters_inv sr ms" using r(2) by (simp_all add: loaded_progress_def)
  ultimately show ?thesis using r(1) stored by blast
qed


subsection \<open>The quests and the items they miss\<close>

text \<open>How much the player has of an item.\<close>

definition owned_amount :: "character \<Rightarrow> u32 \<Rightarrow> int" where
  "owned_amount chr iid =
     (let iv = unat (ucast (iid div 1000000) :: u8)
      in if iv = 1 then int (length (Quests.equips_of chr iid)) else sum_list (map entry_quantity (stacks_of chr (iv - 2) iid)))"

fun wanted :: "surroundings \<Rightarrow> character \<Rightarrow> requirement \<Rightarrow> u32 set" where
  "wanted sr chr (Needs_item iid n) =
     (case sr_item sr iid of None \<Rightarrow> {} | Some info \<Rightarrow> if info_quest info \<and> owned_amount chr iid < n then {iid} else {})"
| "wanted sr chr _ = {}"

fun item_known :: "surroundings \<Rightarrow> requirement \<Rightarrow> bool" where
  "item_known sr (Needs_item iid n) =
     (case sr_item sr iid of
        None \<Rightarrow> False
      | Some info \<Rightarrow> info_quest info \<longrightarrow> (let iv = unat (ucast (iid div 1000000) :: u8) in 1 \<le> iv \<and> iv \<le> 5))"
| "item_known sr _ = True"

definition wanted_by :: "surroundings \<Rightarrow> character \<Rightarrow> u16 \<Rightarrow> u32 set" where
  "wanted_by sr chr qid =
     (case sr_quest sr qid of None \<Rightarrow> {} | Some info \<Rightarrow> \<Union> (wanted sr chr ` set (qd_endRequirements info)))"

definition quest_known :: "surroundings \<Rightarrow> u16 \<Rightarrow> bool" where
  "quest_known sr qid \<longleftrightarrow> (case sr_quest sr qid of None \<Rightarrow> False | Some info \<Rightarrow> \<forall>r \<in> set (qd_endRequirements info). item_known sr r)"

definition same_bags :: "character \<Rightarrow> character \<Rightarrow> bool" where
  "same_bags chr chr' \<longleftrightarrow> equipmentInventory chr' = equipmentInventory chr \<and> chr_inventory chr' = chr_inventory chr"

lemma same_bags_wanted:
  assumes "same_bags chr chr'"
  shows "wanted sr chr' = wanted sr chr" "wanted_by sr chr' = wanted_by sr chr"
proof -
  have "Quests.equips_of chr' = Quests.equips_of chr" "stacks_of chr' = stacks_of chr"
    using assms by (simp_all add: fun_eq_iff same_bags_def Quests.equips_of_def stacks_of_def equip_slot_count_def slot_count_def)
  then have "owned_amount chr' iid = owned_amount chr iid" for iid by (simp only: owned_amount_def)
  then have "wanted sr chr' r = wanted sr chr r" for r by (cases r) (simp_all split: option.split)
  then show w: "wanted sr chr' = wanted sr chr" by (rule ext)
  show "wanted_by sr chr' = wanted_by sr chr" unfolding wanted_by_def w ..
qed

definition items_bag :: "surroundings \<Rightarrow> u32 hash_set \<Rightarrow> bool" where
  "items_bag sr = bag_ok (hash_u32 (sr_hash sr)) id"

lemma minus_2_u8:
  fixes iv :: u8
  assumes "1 \<le> unat iv" "unat iv \<le> 5" "iv \<noteq> 1"
  shows "unat (iv - 2) = unat iv - 2" "unat iv \<noteq> 1"
proof -
  show "unat iv \<noteq> 1" using assms(3) by (metis unsigned_1 word_unat_eq_iff)
  then have "(2 :: u8) \<le> iv" using assms(1) by (simp add: word_le_nat_alt)
  then show "unat (iv - 2) = unat iv - 2" by (simp add: unat_sub)
qed

lemma check_missing_ok:
  assumes known: "item_known sr r" and bag: "items_bag sr (itemQuests chr)" and mem: "sr_mem sr For_element"
  shows "\<exists>hs. check_missing sr r chr = Inr (chr\<lparr>itemQuests := hs\<rparr>) \<and> items_bag sr hs \<and>
    set (elements hs) = wanted sr chr r \<union> set (elements (itemQuests chr))"
proof -
  have same: "\<exists>hs. Inr chr = (Inr (chr\<lparr>itemQuests := hs\<rparr>) :: quest_error + character) \<and> items_bag sr hs \<and> set (elements hs) = {} \<union> set (elements (itemQuests chr))"
    using bag by (intro exI [of _ "itemQuests chr"]) simp
  show ?thesis
  proof (cases r)
    case (Needs_item iid n)
    then obtain info where info: "sr_item sr iid = Some info" using known by (auto split: option.splits)
    let ?iv = "ucast (iid div 1000000) :: u8"
    show ?thesis
    proof (cases "info_quest info")
      case False
      then show ?thesis using same Needs_item info by (simp add: check_missing_def)
    next
      case True
      then have iv: "1 \<le> unat ?iv" "unat ?iv \<le> 5" using known Needs_item info by (simp_all add: Let_def)
      have total: "(if ?iv = 1 then int (length (Quests.equips_of chr iid))
          else sum_list (map entry_quantity (stacks_of chr (unat (?iv - 2)) iid))) = owned_amount chr iid"
        using minus_2_u8 [OF iv] by (simp add: owned_amount_def Let_def)
      have room: "\<not> (?iv \<noteq> 1 \<and> 4 \<le> unat (?iv - 2))" using minus_2_u8 [OF iv] iv by auto
      have e: "check_missing sr r chr = (if n \<le> owned_amount chr iid then Inr chr
          else map_sum id (\<lambda>(hs, _). chr\<lparr>itemQuests := hs\<rparr>) (endless (hash_set_u32_insert (sr_hash sr) id (sr_mem sr For_element) (itemQuests chr) iid)))"
        unfolding check_missing_def Needs_item requirement.case info option.case Let_def total using True room by (simp only: if_False if_True not_True_eq_False)
      from bag_insert [OF bag [unfolded items_bag_def], of iid] obtain hs where hs: "hash_set_insert (hash_u32 (sr_hash sr)) id True (itemQuests chr) iid = Some (hs, 0)"
          "items_bag sr hs" "set (elements hs) = insert iid (set (elements (itemQuests chr)))" unfolding items_bag_def by blast
      show ?thesis
      proof (cases "n \<le> owned_amount chr iid")
        case True
        then show ?thesis using same e Needs_item info by simp
      next
        case False
        then show ?thesis using e hs mem Needs_item info True by (auto simp: endless_def hash_set_u32_insert_def)
      qed
    qed
  qed (use same in \<open>simp_all add: check_missing_def\<close>)
qed

lemma each_missing_ok:
  assumes "\<forall>r \<in> set rs. item_known sr r" and "items_bag sr (itemQuests chr)" and mem: "sr_mem sr For_element"
  shows "\<exists>hs. each (check_missing sr) rs chr = Inr (chr\<lparr>itemQuests := hs\<rparr>) \<and> items_bag sr hs \<and>
    set (elements hs) = \<Union> (wanted sr chr ` set rs) \<union> set (elements (itemQuests chr))"
  using assms(1,2)
proof (induction rs arbitrary: chr)
  case Nil
  then show ?case by (intro exI [of _ "itemQuests chr"]) simp
next
  case (Cons r rs)
  from check_missing_ok [of sr r chr] Cons.prems mem obtain hs1 where hs1: "check_missing sr r chr = Inr (chr\<lparr>itemQuests := hs1\<rparr>)"
      "items_bag sr hs1" "set (elements hs1) = wanted sr chr r \<union> set (elements (itemQuests chr))" by auto
  from Cons.IH [of "chr\<lparr>itemQuests := hs1\<rparr>"] Cons.prems(1) hs1(2) obtain hs where
    "each (check_missing sr) rs (chr\<lparr>itemQuests := hs1\<rparr>) = Inr (chr\<lparr>itemQuests := hs\<rparr>)" "items_bag sr hs"
    "set (elements hs) = \<Union> (wanted sr chr ` set rs) \<union> set (elements hs1)"
    using same_bags_wanted(1) [of chr "chr\<lparr>itemQuests := hs1\<rparr>" sr] by (auto simp: same_bags_def)
  then show ?case using hs1 by auto
qed

lemma quests_loaded:
  assumes "\<forall>qid \<in> set ids. quest_known sr qid" and "distinct ids" and "\<forall>qid \<in> set ids. hash_set_map q_id (quests chr) qid = None"
    and "hash_set_inv (hash_u16 (sr_hash sr)) q_id (quests chr)" and "items_bag sr (itemQuests chr)"
    and mem: "sr_mem sr For_element" "sr_mem sr For_quest"
  shows "\<exists>qs hs. each (load_quest sr) ids chr = Inr (chr\<lparr>quests := qs, itemQuests := hs\<rparr>) \<and>
    hash_set_inv (hash_u16 (sr_hash sr)) q_id qs \<and> items_bag sr hs \<and>
    hash_set_map q_id qs = (\<lambda>k. if k \<in> set ids then Some (new_quest k) else hash_set_map q_id (quests chr) k) \<and>
    set (elements hs) = \<Union> (wanted_by sr chr ` set ids) \<union> set (elements (itemQuests chr))"
  using assms(1-5)
proof (induction ids arbitrary: chr)
  case Nil
  then show ?case by (intro exI [of _ "quests chr"] exI [of _ "itemQuests chr"]) simp
next
  case (Cons qid ids)
  obtain info where info: "sr_quest sr qid = Some info" "\<forall>r \<in> set (qd_endRequirements info). item_known sr r"
    using Cons.prems(1) by (auto simp: quest_known_def split: option.splits)
  have "hash_set_map q_id (quests chr) (q_id (new_quest qid)) = None" using Cons.prems(3) by (simp add: new_quest_def)
  from hash_set_insert_ok [OF Cons.prems(4) this] obtain qs1 where
    qs1: "hash_set_insert (hash_u16 (sr_hash sr)) q_id True (quests chr) (new_quest qid) = Some (qs1, 0)"
      "hash_set_inv (hash_u16 (sr_hash sr)) q_id qs1" "hash_set_map q_id qs1 = (hash_set_map q_id (quests chr))(qid \<mapsto> new_quest qid)"
    by (auto simp: new_quest_def)
  from each_missing_ok [OF info(2), of "chr\<lparr>quests := qs1\<rparr>"] Cons.prems(5) mem(1) obtain hs1 where
    hs1: "each (check_missing sr) (qd_endRequirements info) (chr\<lparr>quests := qs1\<rparr>) = Inr (chr\<lparr>quests := qs1, itemQuests := hs1\<rparr>)" "items_bag sr hs1"
      "set (elements hs1) = wanted_by sr chr qid \<union> set (elements (itemQuests chr))"
    using same_bags_wanted(1) [of chr "chr\<lparr>quests := qs1\<rparr>" sr] by (auto simp: same_bags_def wanted_by_def info(1))
  let ?c = "chr\<lparr>quests := qs1, itemQuests := hs1\<rparr>"
  have one: "load_quest sr qid chr = Inr ?c" using qs1(1) mem(2) info(1) hs1(1) by (simp add: load_quest_def endless_def hash_set_u16_insert_def)
  have "\<forall>k \<in> set ids. hash_set_map q_id (quests ?c) k = None" using Cons.prems(2,3) qs1(3) by auto
  with Cons.IH [of ?c] Cons.prems(1,2) qs1(2) hs1(2) obtain qs hs where rest: "each (load_quest sr) ids ?c = Inr (?c\<lparr>quests := qs, itemQuests := hs\<rparr>)"
      "hash_set_inv (hash_u16 (sr_hash sr)) q_id qs" "items_bag sr hs"
      "hash_set_map q_id qs = (\<lambda>k. if k \<in> set ids then Some (new_quest k) else hash_set_map q_id (quests ?c) k)"
      "set (elements hs) = \<Union> (wanted_by sr ?c ` set ids) \<union> set (elements (itemQuests ?c))" by auto
  have "wanted_by sr ?c = wanted_by sr chr" by (rule same_bags_wanted) (simp add: same_bags_def)
  then have "set (elements hs) = \<Union> (wanted_by sr chr ` set (qid # ids)) \<union> set (elements (itemQuests chr))" using rest(5) hs1(3) by (simp add: Un_ac)
  moreover have "hash_set_map q_id qs = (\<lambda>k. if k \<in> set (qid # ids) then Some (new_quest k) else hash_set_map q_id (quests chr) k)"
    using rest(4) qs1(3) by (auto simp: fun_eq_iff)
  moreover have "each (load_quest sr) (qid # ids) chr = Inr (chr\<lparr>quests := qs, itemQuests := hs\<rparr>)" using one rest(1) by simp
  ultimately show ?case using rest(2,3) by blast
qed

text \<open>All of it: from the rows of the quests of a character, in any order.\<close>

lemma quests_reloaded:
  assumes inv: "hash_set_inv (hash_u16 (sr_hash sr)) q_id hs" and fits: "\<forall>q \<in> set (elements hs). hunt_fits sr q \<and> quest_known sr (q_id q)"
    and cnt: "\<And>mid. waiting sr (hash_set_map q_id hs) mid \<le> 127"
    and mem: "sr_mem sr For_monster" "sr_mem sr For_element" "sr_mem sr For_quest"
    and rows: "mset (cw_quests row) = mset (map q_id (elements hs))" "mset (cw_progresses row) = mset (all_rows_of sr (elements hs))"
  shows "\<exists>qs ms its. load_quests sr row chr = Inr (chr\<lparr>quests := qs, monsterQuests := ms, itemQuests := its\<rparr>) \<and>
    hash_set_map q_id qs = (\<lambda>k. map_option stored_quest (hash_set_map q_id hs k)) \<and>
    quests_ok sr (chr\<lparr>quests := qs, monsterQuests := ms, itemQuests := its\<rparr>) \<and>
    set (elements its) = \<Union> (wanted_by sr chr ` dom (hash_set_map q_id hs))"
proof -
  let ?c = "chr\<lparr>quests := empty_set, monsterQuests := empty_set, itemQuests := empty_set\<rparr>"
  have ids: "set (cw_quests row) = dom (hash_set_map q_id hs)" "distinct (cw_quests row)"
    using mset_eq_setD [OF rows(1)] mset_eq_imp_distinct_iff [OF rows(1)] elements_distinct [OF inv]
    by (simp_all add: dom_hash_set_map elements_def)
  have bag: "items_bag sr (itemQuests ?c)" by (simp add: items_bag_def bag_ok_def empty_set_def hash_set_init_def table_ok_def elements_def)
  have known: "\<forall>qid \<in> set (cw_quests row). quest_known sr qid" using fits by (simp add: ids(1) dom_hash_set_map flip: elements_def)
  have none: "\<forall>qid \<in> set (cw_quests row). hash_set_map q_id (quests ?c) qid = None" by (simp add: empty_set_ok)
  have inv0: "hash_set_inv (hash_u16 (sr_hash sr)) q_id (quests ?c)" by (simp add: empty_set_ok)
  from quests_loaded [OF known ids(2) none inv0 bag mem(2,3)] obtain qs0 its where
    one: "each (load_quest sr) (cw_quests row) ?c = Inr (?c\<lparr>quests := qs0, itemQuests := its\<rparr>)"
      "hash_set_inv (hash_u16 (sr_hash sr)) q_id qs0"
      "hash_set_map q_id qs0 = (\<lambda>k. if k \<in> set (cw_quests row) then Some (new_quest k) else hash_set_map q_id (quests ?c) k)"
      "set (elements its) = \<Union> (wanted_by sr ?c ` set (cw_quests row)) \<union> set (elements (itemQuests ?c))"
    by blast
  let ?d = "?c\<lparr>quests := qs0, itemQuests := its\<rparr>"
  have "hash_set_map q_id (quests ?d) = (\<lambda>k. map_option (\<lambda>_. new_quest k) (hash_set_map q_id hs k))"
    by (auto simp: fun_eq_iff one(3) ids(1) domIff empty_set_ok)
  moreover have "\<forall>q \<in> set (elements hs). hunt_fits sr q" using fits by blast
  ultimately obtain qs ms where two: "each (load_progress sr) (cw_progresses row) ?d = Inr (?d\<lparr>monsterQuests := ms, quests := qs\<rparr>)"
      "hash_set_inv (hash_u16 (sr_hash sr)) q_id qs" "monsters_inv sr ms"
      "hash_set_map q_id qs = (\<lambda>k. map_option stored_quest (hash_set_map q_id hs k))"
      "counters_ok sr (hash_set_map q_id qs) (hash_set_map mr_id ms)"
    using progress_reloaded [OF inv _ cnt mem(1) rows(2), of ?d] one(2) by auto
  have "hunt_ok sr q" if h: "hash_set_map q_id qs k = Some q" for k q
  proof -
    obtain q' where "hash_set_map q_id hs k = Some q'" "q = stored_quest q'" using h two(4) by auto
    moreover from this have "q' \<in> set (elements hs)"
      using hash_set_map_iff [of q_id hs k q'] elements_distinct [OF inv] by (simp add: elements_def)
    ultimately show ?thesis using fits stored_quest_ok(1) by blast
  qed
  then have "quests_ok sr (chr\<lparr>quests := qs, monsterQuests := ms, itemQuests := its\<rparr>)" using two by (simp add: quests_ok_def)
  moreover have "load_quests sr row chr = Inr (chr\<lparr>quests := qs, monsterQuests := ms, itemQuests := its\<rparr>)"
    using one(1) two(1) by (simp add: load_quests_def)
  moreover have "wanted_by sr ?c = wanted_by sr chr" by (rule same_bags_wanted) (simp add: same_bags_def)
  moreover have "set (elements (itemQuests ?c)) = {}" by (simp add: empty_set_ok)
  ultimately show ?thesis using two(4) one(4) ids(1) by auto
qed

end
