(* ===== verification/Save_Load.thy ===== *)
theory Save_Load
  imports Row_Writers Quest_Reload
begin

text \<open>
  Equipment and items through the database: what is worn, the equipment of the inventory and the stacks come back in
  their slots from the rows that were written for them, in whatever order these are delivered. What rows do not keep
  (owner, giver, expiration, the numbers for the cash shop) is blanked out by \<open>bare_item\<close>.
\<close>

subsection \<open>What rows keep\<close>

text \<open>The parts of items and equipment that are not stored, or not read, are blanked out.\<close>

definition bare_item :: "item \<Rightarrow> item" where
  "bare_item it = it\<lparr>cashId := 0, sn := 0, ownerLength := 0, owner := [], expiration := 0, giftFromLength := 0, giftFrom := []\<rparr>"

definition bare_equipment :: "equipment \<Rightarrow> equipment" where
  "bare_equipment e = e\<lparr>eq_item := bare_item (eq_item e), eq_hands := 0\<rparr>"

definition equip_view :: "equip_entry \<Rightarrow> equipment option" where
  "equip_view e = (if ee_isEmpty e then None else Some (bare_equipment (ee_equip e)))"

definition stack_view :: "item_entry \<Rightarrow> (item \<times> int) option" where
  "stack_view e = (if ie_isEmpty e then None else Some (bare_item (ii_item (ie_item e)), entry_quantity e))"

definition equip_fits :: "surroundings \<Rightarrow> equipment \<Rightarrow> bool" where
  "equip_fits sr e \<longleftrightarrow> known sr (itemId (eq_item e)) \<and> cash_of sr (itemId (eq_item e)) = eq_cash e \<and> flags (eq_item e) < 256"

definition stack_fits :: "nat \<Rightarrow> item_entry \<Rightarrow> bool" where
  "stack_fits iv e \<longleftrightarrow> unat (entry_id e div 1000000) = iv + 2 \<and> flags (ii_item (ie_item e)) < 256"

lemma small_flags: "(f :: u32) < 256 \<Longrightarrow> ucast (ucast f :: u8) = f"
proof -
  assume "f < 256"
  then have "unat f < 256" by (simp add: word_less_nat_alt)
  then have "unat (ucast (ucast f :: u8) :: u32) = unat f" by (simp add: unsigned_ucast_eq unsigned_take_bit_eq take_bit_nat_eq_self)
  then show ?thesis by (simp only: word_unat_eq_iff)
qed

lemma item_row: "flags it < 256 \<Longrightarrow> bare_item (fill_item (save_item it) it') = bare_item it"
  by (simp add: bare_item_def fill_item_def save_item_def small_flags)

lemma row_id_saved [simp]: "row_id (save_equipment e) = itemId (eq_item e)"
  by (simp add: row_id_def save_equipment_def save_item_def)

lemma equipment_row:
  assumes "equip_fits sr e"
  shows "equip_view (fill_entry (save_equipment e) (cash_of sr (itemId (eq_item e))) x) = Some (bare_equipment e)"
  using assms
  by (cases e) (simp add: equip_view_def fill_entry_def fill_equipment_def save_equipment_def bare_equipment_def equip_fits_def
      bare_item_def fill_item_def save_item_def small_flags)

subsection \<open>Lists by their indices\<close>

lemma filter_nth: "filter P xs = map (nth xs) (filter (\<lambda>i. P (xs ! i)) [0..<length xs])"
proof -
  have "filter P xs = filter P (map (nth xs) [0..<length xs])" by (simp add: map_nth)
  then show ?thesis by (simp add: filter_map comp_def)
qed

lemma enumerate_nth: "enumerate 0 xs = map (\<lambda>i. (i, xs ! i)) [0..<length xs]"
  by (rule nth_equalityI) (simp_all add: nth_enumerate_eq)

lemma filter_enumerate: "map f (filter P (enumerate 0 xs)) = map (\<lambda>i. f (i, xs ! i)) (filter (\<lambda>i. P (i, xs ! i)) [0..<length xs])"
  by (simp add: enumerate_nth filter_map comp_def)

lemma distinct_pairs:
  assumes "distinct ks" and "\<And>k. distinct (f k)"
  shows "distinct (concat (map (\<lambda>k. map (Pair k) (f k)) ks))"
  using assms(1)
proof (induction ks)
  case (Cons k ks)
  then show ?case using assms(2) by (auto simp: distinct_map inj_on_def)
qed simp

lemma mset_rows:
  assumes "mset rows = mset (map row is)" and "\<And>i. i \<in> set is \<Longrightarrow> ix (row i) = i" and "distinct is"
  shows "set rows = row ` set is" "distinct (map ix rows)"
proof -
  show "set rows = row ` set is" using mset_eq_setD [OF assms(1)] by simp
  have "mset (map ix rows) = mset (map ix (map row is))" using arg_cong [OF assms(1), of "image_mset ix"] unfolding mset_map .
  also have "map ix (map row is) = is" using assms(2) by (simp add: map_idI)
  finally show "distinct (map ix rows)" using assms(3) mset_eq_imp_distinct_iff by blast
qed


subsection \<open>Worn equipment\<close>

definition worn_fits :: "surroundings \<Rightarrow> character \<Rightarrow> bool" where
  "worn_fits sr chr \<longleftrightarrow>
     length (equippedEquipment chr) = EQUIP_SLOT_COUNT \<and>
     (\<forall>i < EQUIP_SLOT_COUNT. \<not> ee_isEmpty (worn chr i) \<longrightarrow>
        equip_fits sr (ee_equip (worn chr i)) \<and> worn_index (itemId (eq_item (ee_equip (worn chr i)))) = i)"

definition worn_row :: "character \<Rightarrow> nat \<Rightarrow> database_character_equipment" where
  "worn_row chr i = save_equipment (ee_equip (worn chr i))"

definition worn_slots :: "character \<Rightarrow> nat list" where
  "worn_slots chr = filter (\<lambda>i. \<not> ee_isEmpty (worn chr i)) [0..<EQUIP_SLOT_COUNT]"

lemma saved_worn_rows:
  assumes "worn_fits sr chr"
  shows "saved_worn chr = map (worn_row chr) (worn_slots chr)"
proof -
  have "take EQUIP_SLOT_COUNT (equippedEquipment chr) = equippedEquipment chr" using assms by (simp add: worn_fits_def)
  then have "saved_worn chr = map (\<lambda>e. save_equipment (ee_equip e)) (map (nth (equippedEquipment chr)) (worn_slots chr))"
    using assms unfolding saved_worn_def worn_slots_def worn_def by (subst filter_nth) (simp add: worn_fits_def)
  then show ?thesis by (simp add: worn_row_def worn_def)
qed

lemma empty_worn_at:
  "length (equippedEquipment s) = EQUIP_SLOT_COUNT \<Longrightarrow> i < EQUIP_SLOT_COUNT \<Longrightarrow> worn (empty_worn s) i = (worn s i)\<lparr>ee_isEmpty := True\<rparr>"
  "length (equippedEquipment s) = EQUIP_SLOT_COUNT \<Longrightarrow> length (equippedEquipment (empty_worn s)) = EQUIP_SLOT_COUNT"
  by (simp_all add: empty_worn_def worn_def nth_append)

lemma extra_stats_loaded:
  assumes "each (load_worn sr) rows s = Inr s'" and "distinct (map (\<lambda>r. worn_index (row_id r)) rows)"
    and "\<forall>r \<in> set rows. ee_isEmpty (worn s (worn_index (row_id r)))" and "extra_stats_ok s" and "length (equippedEquipment s) = EQUIP_SLOT_COUNT"
  shows "extra_stats_ok s'"
  using assms
proof (induction rows arbitrary: s)
  case (Cons r rows)
  let ?i = "worn_index (row_id r)"
  obtain s1 where s1: "load_worn sr r s = Inr s1" "each (load_worn sr) rows s1 = Inr s'" using Cons.prems(1) by (auto split: sum.splits)
  then have i: "?i < EQUIP_SLOT_COUNT" by (auto simp: load_worn_def Let_def split: if_splits)
  obtain info where "sr_equip sr (row_id r) = Some info"
      "s1 = add_stats (ee_equip (fill_entry r (info_cash info) (worn s ?i))) (set_worn ?i (fill_entry r (info_cash info) (worn s ?i)) s)"
    using s1(1) by (auto simp: load_worn_def Let_def split: if_splits option.splits)
  moreover have "\<not> ee_isEmpty (fill_entry r (info_cash info) (worn s ?i))" by (simp add: fill_entry_def)
  ultimately obtain e where e: "s1 = add_stats (ee_equip e) (set_worn ?i e s)" "\<not> ee_isEmpty e" by blast
  have "extra_stats_ok s1"
    using Cons.prems(3-5) i e by (simp add: extra_stats_ok_def Let_def add_stats_def set_worn_def worn_def worn_total_update)
  moreover have "ee_isEmpty (worn s1 (worn_index (row_id q)))" if q: "q \<in> set rows" for q
  proof -
    have "?i \<notin> (\<lambda>r. worn_index (row_id r)) ` set rows" using Cons.prems(2) by simp
    then have "worn_index (row_id q) \<noteq> ?i" using q by (metis image_eqI)
    then show ?thesis using Cons.prems(3) q e by (simp add: worn_def set_worn_def add_stats_def)
  qed
  moreover have "length (equippedEquipment s1) = EQUIP_SLOT_COUNT" using Cons.prems(5) e by (simp add: set_worn_def add_stats_def)
  ultimately show ?case using Cons.IH [OF s1(2)] Cons.prems(2) by simp
qed simp

lemma worn_total_empty: "\<forall>e \<in> set es. ee_isEmpty e \<Longrightarrow> worn_total f es = 0"
  unfolding worn_total_def by (induction es) simp_all

lemma worn_reloaded:
  assumes fits: "worn_fits sr chr" and rows: "mset rows = mset (saved_worn chr)"
    and old: "length (equippedEquipment s) = EQUIP_SLOT_COUNT"
    and zero: "chr_estr s = 0" "chr_edex s = 0" "chr_eint s = 0" "chr_eluk s = 0" "chr_eMaxHp s = 0" "chr_eMaxMp s = 0"
  shows "\<exists>s'. each (load_worn sr) rows (empty_worn s) = Inr s' \<and> length (equippedEquipment s') = EQUIP_SLOT_COUNT \<and>
    but_worn s' = but_worn s \<and> extra_stats_ok s' \<and> (\<forall>i < EQUIP_SLOT_COUNT. equip_view (worn s' i) = equip_view (worn chr i))"
proof -
  let ?A = "worn_slots chr" and ?ix = "\<lambda>r. worn_index (row_id r)"
  have at: "?ix (worn_row chr i) = i \<and> equip_fits sr (ee_equip (worn chr i)) \<and> i < EQUIP_SLOT_COUNT" if "i \<in> set ?A" for i
    using fits that by (auto simp: worn_row_def worn_slots_def worn_fits_def)
  have "distinct ?A" by (simp add: worn_slots_def)
  then have R: "set rows = worn_row chr ` set ?A" "distinct (map ?ix rows)"
    using mset_rows [where ix = ?ix, OF rows [unfolded saved_worn_rows [OF fits]]] at by blast+
  have ok: "\<forall>i \<in> set ?A. ?ix (worn_row chr i) = i \<and> ?ix (worn_row chr i) < EQUIP_SLOT_COUNT \<and> known sr (row_id (worn_row chr i))"
    using at by (auto simp: worn_row_def equip_fits_def)
  from worn_rows.written_out [OF R ok empty_worn_at(2) [OF old]] obtain s' where
    s': "each (load_worn sr) rows (empty_worn s) = Inr s'" "length (equippedEquipment s') = EQUIP_SLOT_COUNT"
      "but_worn s' = but_worn (empty_worn s)"
      "\<And>i. worn_at s' i = (if i \<in> set ?A then map_option (fill_entry (worn_row chr i) (cash_of sr (row_id (worn_row chr i)))) (worn_at (empty_worn s) i)
         else worn_at (empty_worn s) i)" by blast
  have "equip_view (worn s' i) = equip_view (worn chr i)" if i: "i < EQUIP_SLOT_COUNT" for i
  proof (cases "i \<in> set ?A")
    case True
    then have "worn s' i = fill_entry (worn_row chr i) (cash_of sr (row_id (worn_row chr i))) (worn (empty_worn s) i)"
      using s'(2) s'(4) [of i] empty_worn_at(2) [OF old] i by (simp add: worn_at_def)
    then show ?thesis using equipment_row [of sr "ee_equip (worn chr i)"] at [OF True] True
      by (simp add: worn_row_def worn_slots_def equip_view_def [of "worn chr i"])
  next
    case False
    then have "worn s' i = worn (empty_worn s) i" using s'(2) s'(4) [of i] empty_worn_at(2) [OF old] i by (simp add: worn_at_def)
    then show ?thesis using False i by (simp add: equip_view_def worn_slots_def empty_worn_at(1) [OF old])
  qed
  moreover have "extra_stats_ok s'"
  proof (rule extra_stats_loaded [OF s'(1) R(2)])
    have "\<forall>e \<in> set (equippedEquipment (empty_worn s)). ee_isEmpty e" using old by (auto simp: empty_worn_def)
    then show "extra_stats_ok (empty_worn s)" using zero by (simp add: extra_stats_ok_def Let_def worn_total_empty) (simp add: empty_worn_def)
    show "\<forall>r \<in> set rows. ee_isEmpty (worn (empty_worn s) (?ix r))" using R(1) at by (auto simp: empty_worn_at(1) [OF old])
  qed (rule empty_worn_at(2) [OF old])
  moreover have "but_worn (empty_worn s) = but_worn s" by (simp add: but_worn_def empty_worn_def)
  ultimately show ?thesis using s' by auto
qed

subsection \<open>Equipment in the inventory\<close>

definition kept_fits :: "surroundings \<Rightarrow> character \<Rightarrow> bool" where
  "kept_fits sr chr \<longleftrightarrow>
     length (eqi_items (equipmentInventory chr)) = MAX_ITEM_COUNT \<and> equip_slot_count chr \<le> MAX_ITEM_COUNT \<and>
     (\<forall>i < equip_slot_count chr. \<not> ee_isEmpty (equip_slot chr i) \<longrightarrow> equip_fits sr (ee_equip (equip_slot chr i)))"

definition kept_row :: "character \<Rightarrow> nat \<Rightarrow> slotted_equipment" where
  "kept_row chr i = \<lparr>se_slot = of_nat i, se_equip = save_equipment (ee_equip (equip_slot chr i))\<rparr>"

definition kept_slots :: "character \<Rightarrow> nat list" where
  "kept_slots chr = filter (\<lambda>i. \<not> ee_isEmpty (equip_slot chr i)) [0..<equip_slot_count chr]"

lemma used_equips_nth: "kept_fits sr chr \<Longrightarrow> length (used_equips chr) = equip_slot_count chr \<and> (\<forall>i < equip_slot_count chr. used_equips chr ! i = equip_slot chr i)"
  by (auto simp: kept_fits_def used_equips_def equip_slot_def)

lemma saved_kept_rows:
  assumes "kept_fits sr chr"
  shows "saved_kept chr = map (kept_row chr) (kept_slots chr)"
proof -
  have "filter (\<lambda>i. \<not> ee_isEmpty (used_equips chr ! i)) [0..<equip_slot_count chr] = kept_slots chr"
    unfolding kept_slots_def by (rule filter_cong) (use used_equips_nth [OF assms] in auto)
  then show ?thesis
    unfolding saved_kept_def filter_enumerate using used_equips_nth [OF assms] by (auto simp: kept_row_def kept_slots_def)
qed

lemma kept_reloaded:
  assumes fits: "kept_fits sr chr" and rows: "mset rows = mset (saved_kept chr)"
    and old: "length (eqi_items (equipmentInventory s)) = MAX_ITEM_COUNT" "equip_slot_count s = equip_slot_count chr"
  shows "\<exists>s'. each (load_kept sr) rows (empty_kept s) = Inr s' \<and> but_kept s' = but_kept s \<and>
    length (eqi_items (equipmentInventory s')) = MAX_ITEM_COUNT \<and>
    (\<forall>i < equip_slot_count chr. equip_view (equip_slot s' i) = equip_view (equip_slot chr i))"
proof -
  let ?A = "kept_slots chr" and ?ix = "\<lambda>r. unat (se_slot r)"
  have n: "equip_slot_count chr \<le> MAX_ITEM_COUNT" using fits by (simp add: kept_fits_def)
  have at: "?ix (kept_row chr i) = i \<and> equip_fits sr (ee_equip (equip_slot chr i)) \<and> i < equip_slot_count chr" if i: "i \<in> set ?A" for i
  proof -
    have "i < 256" using i n by (simp add: kept_slots_def MAX_ITEM_COUNT_def)
    then show ?thesis using fits i by (auto simp: kept_row_def kept_slots_def kept_fits_def unat_of_nat)
  qed
  have "distinct ?A" by (simp add: kept_slots_def)
  then have R: "set rows = kept_row chr ` set ?A" "distinct (map ?ix rows)"
    using mset_rows [where ix = ?ix, OF rows [unfolded saved_kept_rows [OF fits]]] at by blast+
  have ok: "\<forall>i \<in> set ?A. ?ix (kept_row chr i) = i \<and> ?ix (kept_row chr i) < MAX_ITEM_COUNT \<and> known sr (row_id (se_equip (kept_row chr i)))"
    using at n by (fastforce simp: kept_row_def equip_fits_def)
  have used: "used_equips s = take (equip_slot_count chr) (eqi_items (equipmentInventory s))" by (simp add: used_equips_def old)
  have len: "length (eqi_items (equipmentInventory (empty_kept s))) = MAX_ITEM_COUNT" using old n by (simp add: empty_kept_def used)
  have empty: "ee_isEmpty (equip_slot (empty_kept s) i)" if "i < equip_slot_count chr" for i
    using that old n by (simp add: empty_kept_def equip_slot_def used nth_append)
  from kept_rows.written_out [OF R ok len] obtain s' where
    s': "each (load_kept sr) rows (empty_kept s) = Inr s'" "length (eqi_items (equipmentInventory s')) = MAX_ITEM_COUNT"
      "but_kept s' = but_kept (empty_kept s)"
      "\<And>i. kept_at s' i = (if i \<in> set ?A
         then map_option (fill_entry (se_equip (kept_row chr i)) (cash_of sr (row_id (se_equip (kept_row chr i))))) (kept_at (empty_kept s) i)
         else kept_at (empty_kept s) i)" by blast
  have "equip_view (equip_slot s' i) = equip_view (equip_slot chr i)" if i: "i < equip_slot_count chr" for i
  proof (cases "i \<in> set ?A")
    case True
    then have "equip_slot s' i = fill_entry (se_equip (kept_row chr i)) (cash_of sr (row_id (se_equip (kept_row chr i)))) (equip_slot (empty_kept s) i)"
      using s'(2) s'(4) [of i] len i n by (simp add: kept_at_def)
    then show ?thesis using equipment_row [of sr "ee_equip (equip_slot chr i)"] at [OF True] True
      by (simp add: kept_row_def kept_slots_def equip_view_def [of "equip_slot chr i"])
  next
    case False
    then have "equip_slot s' i = equip_slot (empty_kept s) i" using s'(2) s'(4) [of i] len i n by (simp add: kept_at_def)
    then show ?thesis using False i empty [OF i] by (simp add: equip_view_def kept_slots_def)
  qed
  moreover have "but_kept (empty_kept s) = but_kept s" by (simp add: but_kept_def empty_kept_def)
  ultimately show ?thesis using s' by auto
qed


subsection \<open>Stacks\<close>

definition stacks_fit :: "character \<Rightarrow> bool" where
  "stacks_fit chr \<longleftrightarrow>
     tables_ok chr \<and>
     (\<forall>iv < 4. slot_count chr iv \<le> MAX_ITEM_COUNT \<and>
        (\<forall>i < slot_count chr iv. \<not> ie_isEmpty (item_slot chr iv i) \<longrightarrow> stack_fits iv (item_slot chr iv i)))"

definition stack_row :: "character \<Rightarrow> nat \<times> nat \<Rightarrow> slotted_item" where
  "stack_row chr p =
     (let e = item_slot chr (fst p) (snd p)
      in \<lparr>sl_slot = of_nat (snd p), sl_count = entry_quantity e, sl_item = save_item (ii_item (ie_item e))\<rparr>)"

definition full_slots :: "character \<Rightarrow> nat \<Rightarrow> nat list" where
  "full_slots chr iv = filter (\<lambda>i. \<not> ie_isEmpty (item_slot chr iv i)) [0..<slot_count chr iv]"

definition stack_slots :: "character \<Rightarrow> (nat \<times> nat) list" where
  "stack_slots chr = concat (map (\<lambda>iv. map (Pair iv) (full_slots chr iv)) [0..<4])"

lemma used_items_nth:
  assumes "stacks_fit chr" "iv < 4"
  shows "length (used_items (chr_inventory chr ! iv)) = slot_count chr iv"
    "i < slot_count chr iv \<Longrightarrow> used_items (chr_inventory chr ! iv) ! i = item_slot chr iv i"
proof -
  have "chr_inventory chr ! iv \<in> set (chr_inventory chr)" using assms by (simp add: stacks_fit_def tables_ok_def)
  then have "length (inv_items (chr_inventory chr ! iv)) = MAX_ITEM_COUNT" "slot_count chr iv \<le> MAX_ITEM_COUNT"
    using assms by (auto simp: stacks_fit_def tables_ok_def)
  then show "length (used_items (chr_inventory chr ! iv)) = slot_count chr iv"
    "i < slot_count chr iv \<Longrightarrow> used_items (chr_inventory chr ! iv) ! i = item_slot chr iv i"
    by (simp_all add: used_items_def slot_count_def item_slot_def)
qed

lemma saved_stacks_rows:
  assumes "stacks_fit chr"
  shows "concat (map saved_stacks (chr_inventory chr)) = map (stack_row chr) (stack_slots chr)"
proof -
  have one: "saved_stacks (chr_inventory chr ! iv) = map (\<lambda>i. stack_row chr (iv, i)) (full_slots chr iv)" if iv: "iv < 4" for iv
  proof -
    have "filter (\<lambda>i. \<not> ie_isEmpty (used_items (chr_inventory chr ! iv) ! i)) [0..<slot_count chr iv] = full_slots chr iv"
      unfolding full_slots_def by (rule filter_cong) (use used_items_nth [OF assms iv] in auto)
    then show ?thesis
      unfolding saved_stacks_def filter_enumerate using used_items_nth [OF assms iv] by (auto simp: stack_row_def full_slots_def Let_def)
  qed
  have "length (chr_inventory chr) = 4" using assms by (simp add: stacks_fit_def tables_ok_def)
  then have "map saved_stacks (chr_inventory chr) = map (\<lambda>iv. saved_stacks (chr_inventory chr ! iv)) [0..<4]"
    by (intro nth_equalityI) simp_all
  also have "\<dots> = map (\<lambda>iv. map (stack_row chr) (map (Pair iv) (full_slots chr iv))) [0..<4]" by (simp add: one comp_def)
  finally show ?thesis by (simp add: stack_slots_def map_concat comp_def)
qed

lemma stack_row_inventory:
  assumes "stack_fits iv (item_slot chr iv i)" "iv < 4"
  shows "row_inventory (stack_row chr (iv, i)) = iv"
proof -
  let ?k = "entry_id (item_slot chr iv i) div 1000000"
  have k: "unat ?k = iv + 2" using assms by (simp add: stack_fits_def)
  then have "(2 :: u32) \<le> ?k" by (simp add: word_le_nat_alt)
  then have "unat (?k - 2) = iv" using k by (simp add: unat_sub)
  then show ?thesis using assms(2) by (simp add: row_inventory_def stack_row_def save_item_def entry_id_def Let_def unsigned_ucast_eq unsigned_take_bit_eq take_bit_nat_eq_self)
qed

definition emptied :: "character \<Rightarrow> character" where
  "emptied chr = chr\<lparr>chr_inventory := map empty_inventory (chr_inventory chr)\<rparr>"

lemma emptied_ok:
  assumes "tables_ok s" and "\<forall>iv < 4. slot_count s iv \<le> MAX_ITEM_COUNT"
  shows "tables_ok (emptied s)" "but_stacks (emptied s) = but_stacks s"
    "iv < 4 \<Longrightarrow> i < slot_count s iv \<Longrightarrow> ie_isEmpty (item_slot (emptied s) iv i)"
proof -
  have l: "length (inv_items t) = MAX_ITEM_COUNT \<and> unat (inv_slotCount t) \<le> MAX_ITEM_COUNT" if "t \<in> set (chr_inventory s)" for t
    using that assms by (auto simp: tables_ok_def slot_count_def in_set_conv_nth)
  show "tables_ok (emptied s)" using assms(1) l by (auto simp: tables_ok_def emptied_def empty_inventory_def used_items_def)
  show "but_stacks (emptied s) = but_stacks s" by (simp add: but_stacks_def emptied_def empty_inventory_def)
  show "ie_isEmpty (item_slot (emptied s) iv i)" if "iv < 4" "i < slot_count s iv"
  proof -
    have "chr_inventory s ! iv \<in> set (chr_inventory s)" using assms(1) that(1) by (simp add: tables_ok_def)
    from l [OF this] that assms(1) show ?thesis
      by (simp add: emptied_def empty_inventory_def used_items_def item_slot_def slot_count_def tables_ok_def nth_append)
  qed
qed

lemma stacks_reloaded:
  assumes fits: "stacks_fit chr" and rows: "mset rows = mset (concat (map saved_stacks (chr_inventory chr)))"
    and old: "tables_ok s" "\<forall>iv < 4. slot_count s iv = slot_count chr iv"
  shows "\<exists>s'. each load_stack rows (emptied s) = Inr s' \<and> tables_ok s' \<and> but_stacks s' = but_stacks s \<and>
    (\<forall>iv < 4. \<forall>i < slot_count chr iv. stack_view (item_slot s' iv i) = stack_view (item_slot chr iv i))"
proof -
  let ?A = "stack_slots chr" and ?ix = "\<lambda>r. (row_inventory r, unat (sl_slot r))"
  have n: "slot_count chr iv \<le> MAX_ITEM_COUNT" if "iv < 4" for iv using fits that by (simp add: stacks_fit_def)
  have A: "(iv, i) \<in> set ?A \<longleftrightarrow> iv < 4 \<and> i < slot_count chr iv \<and> \<not> ie_isEmpty (item_slot chr iv i)" for iv i
    by (auto simp: stack_slots_def full_slots_def)
  have at: "?ix (stack_row chr p) = p" if h: "p \<in> set ?A" for p
  proof -
    obtain iv i where p: "p = (iv, i)" by (cases p)
    then have p: "p = (iv, i)" "iv < 4" "i < slot_count chr iv" "\<not> ie_isEmpty (item_slot chr iv i)" using h A [of iv i] by simp_all
    then have "i < 256" using n [of iv] by (simp add: MAX_ITEM_COUNT_def)
    moreover have "stack_fits iv (item_slot chr iv i)" using fits p by (simp add: stacks_fit_def)
    ultimately show ?thesis using p stack_row_inventory [of iv chr i] by (simp add: stack_row_def Let_def unat_of_nat)
  qed
  have "distinct ?A" unfolding stack_slots_def by (rule distinct_pairs) (simp_all add: full_slots_def)
  then have R: "set rows = stack_row chr ` set ?A" "distinct (map ?ix rows)"
    using mset_rows [where ix = ?ix, OF rows [unfolded saved_stacks_rows [OF fits]]] at by blast+
  have ok: "\<forall>p \<in> set ?A. ?ix (stack_row chr p) = p \<and> row_inventory (stack_row chr p) < 4 \<and> unat (sl_slot (stack_row chr p)) < MAX_ITEM_COUNT"
  proof
    fix p assume p: "p \<in> set ?A"
    then have "fst p < 4" "snd p < slot_count chr (fst p)" using A [of "fst p" "snd p"] by simp_all
    then show "?ix (stack_row chr p) = p \<and> row_inventory (stack_row chr p) < 4 \<and> unat (sl_slot (stack_row chr p)) < MAX_ITEM_COUNT"
      using at [OF p] n [of "fst p"] by (auto simp: prod_eq_iff)
  qed
  have s0: "\<forall>iv < 4. slot_count s iv \<le> MAX_ITEM_COUNT" using old(2) n by simp
  note E = emptied_ok [OF old(1) s0]
  from stack_rows.written_out [OF R ok E(1)] obtain s' where
    s': "each load_stack rows (emptied s) = Inr s'" "tables_ok s'" "but_stacks s' = but_stacks (emptied s)"
      "\<And>p. stack_at s' p = (if p \<in> set ?A then map_option (stack_entry (stack_row chr p)) (stack_at (emptied s) p) else stack_at (emptied s) p)"
    by blast
  have "stack_view (item_slot s' iv i) = stack_view (item_slot chr iv i)" if iv: "iv < 4" "i < slot_count chr iv" for iv i
  proof (cases "(iv, i) \<in> set ?A")
    case True
    then have "item_slot s' iv i = stack_entry (stack_row chr (iv, i)) (item_slot (emptied s) iv i)"
      using s'(4) [of "(iv, i)"] iv n [OF iv(1)] by (simp add: stack_at_def)
    moreover have "flags (ii_item (ie_item (item_slot chr iv i))) < 256" using fits True A [of iv i] by (simp add: stacks_fit_def stack_fits_def)
    ultimately show ?thesis using True A [of iv i]
      by (simp add: stack_view_def stack_entry_def stack_row_def Let_def item_row entry_quantity_def)
  next
    case False
    then have "item_slot s' iv i = item_slot (emptied s) iv i" using s'(4) [of "(iv, i)"] iv n [OF iv(1)] by (simp add: stack_at_def)
    then show ?thesis using False iv A [of iv i] E(3) [of iv i] old(2) by (simp add: stack_view_def)
  qed
  then show ?thesis using s' E(2) by auto
qed

end
