(* ===== verification/Character_Reload.thy ===== *)
theory Character_Reload
  imports Save_Load
begin

text \<open>
  Saving a character and loading it again. The database is the environment: \<open>answered_by\<close> says that a later request for
  the character has the fields that were written and the rows that were written, in any order. The theorem
  \<open>saved_character_reloads\<close> states what comes back, and that the invariants of quests and of equipment hold for it.
\<close>

subsection \<open>Sets\<close>

definition stored_info :: "quest_info_progress \<Rightarrow> quest_info_progress" where
  "stored_info i = i\<lparr>qi_value := take (unat (qi_length i)) (qi_value i) @ replicate (12 - unat (qi_length i)) 0\<rparr>"

definition info_fits :: "quest_info_progress \<Rightarrow> bool" where
  "info_fits i \<longleftrightarrow> unat (qi_length i) \<le> 12 \<and> unat (qi_length i) \<le> length (qi_value i) \<and> 0 \<notin> set (take (unat (qi_length i)) (qi_value i))"

definition info_row :: "quest_info_progress \<Rightarrow> database_info_progress" where
  "info_row i = \<lparr>ip_infoId = qi_id i, ip_progressLength = qi_length i, ip_progress = stored_text (unat (qi_length i)) (qi_value i)\<rparr>"

definition row_info :: "database_info_progress \<Rightarrow> quest_info_progress" where
  "row_info r = \<lparr>qi_id = ip_infoId r, qi_length = ip_progressLength r,
     qi_value = take (unat (ip_progressLength r)) (ip_progress r) @ replicate (12 - unat (ip_progressLength r)) 0\<rparr>"

lemma stored_text_id:
  assumes "n \<le> length s" "0 \<notin> set (take n s)"
  shows "stored_text n s = take n s"
proof -
  have "takeWhile (\<lambda>b. b \<noteq> 0) (take n s) = take n s" using assms(2) by (intro takeWhile_eq_all_conv [THEN iffD2]) auto
  note t = this
  show ?thesis unfolding stored_text_def t Let_def using assms(1) by simp
qed

lemma row_info_row: "info_fits i \<Longrightarrow> row_info (info_row i) = stored_info i"
  by (cases i) (simp add: row_info_def info_row_def stored_info_def info_fits_def stored_text_id)

lemma each_cong: "(\<And>r s. r \<in> set rows \<Longrightarrow> f r s = g r s) \<Longrightarrow> each f rows s = each g rows s"
  by (induction rows arbitrary: s) (simp_all split: sum.split)

abbreviation set16 :: "surroundings \<Rightarrow> ('d \<Rightarrow> u16) \<Rightarrow> 'd hash_set \<Rightarrow> bool" where
  "set16 sr \<equiv> hash_set_inv (hash_u16 (sr_hash sr))"

abbreviation set32 :: "surroundings \<Rightarrow> ('d \<Rightarrow> u32) \<Rightarrow> 'd hash_set \<Rightarrow> bool" where
  "set32 sr \<equiv> hash_set_inv (hash_u32 (sr_hash sr))"

definition sets_fit :: "surroundings \<Rightarrow> character \<Rightarrow> bool" where
  "sets_fit sr chr \<longleftrightarrow>
     set16 sr qi_id (questInfos chr) \<and> (\<forall>i \<in> set (elements (questInfos chr)). info_fits i) \<and>
     set16 sr cq_id (completedQuests chr) \<and> set32 sr sk_id (skills chr) \<and> set32 sr mb_id (monsterBook chr) \<and>
     length (keyMap chr) = KEYMAP_MAX_KEYS"

definition bound_key :: "key_map_entry \<Rightarrow> key_map_entry" where
  "bound_key k = (if km_type k = 0 then \<lparr>km_type = 0, km_action = 0\<rparr> else k)"

definition key_row :: "character \<Rightarrow> nat \<Rightarrow> database_key_map_entry" where
  "key_row chr i = \<lparr>dk_key = of_nat i, dk_type = km_type (keyMap chr ! i), dk_action = km_action (keyMap chr ! i)\<rparr>"

abbreviation completed_row :: "completed_quest \<Rightarrow> database_completed_quest" where
  "completed_row q \<equiv> \<lparr>dcq_id = cq_id q, dcq_time = gmtime (cq_time q)\<rparr>"

abbreviation skill_row :: "skill \<Rightarrow> database_skill" where
  "skill_row s \<equiv> \<lparr>ds_id = sk_id s, ds_level = sk_level s, ds_masterLevel = sk_masterLevel s\<rparr>"

abbreviation book_row :: "monster_book_entry \<Rightarrow> database_monster_book_entry" where
  "book_row e \<equiv> \<lparr>dm_id = mb_id e, dm_quantity = mb_count e\<rparr>"

lemma infos_reloaded:
  assumes "set16 sr qi_id hs" "\<forall>i \<in> set (elements hs). info_fits i" and mem: "sr_mem sr For_element"
    and rows: "mset rows = mset (map info_row (elements hs))"
  shows "\<exists>hs'. each (load_info sr) rows empty_set = Inr hs' \<and> set16 sr qi_id hs' \<and>
    hash_set_map qi_id hs' = (\<lambda>k. map_option stored_info (hash_set_map qi_id hs k))"
proof -
  have "set rows = info_row ` set (elements hs)" using rows by (metis set_mset_mset set_map)
  then have "each (load_info sr) rows empty_set = each (insert_row (hash_u16 (sr_hash sr)) qi_id row_info) rows empty_set"
    using assms(2) mem
    by (intro each_cong) (auto simp: load_info_def Let_def info_row_def info_fits_def insert_row_def row_info_def hash_set_u16_insert_def)
  then show ?thesis
    using reload_set [where key = qi_id and hs = hs and nrm = stored_info, OF assms(1) rows, where g = row_info]
      assms(2) row_info_row by (simp add: stored_info_def)
qed

lemma others_reloaded:
  assumes fits: "sets_fit sr chr" and mem: "sr_mem sr For_element"
  shows "mset rows = mset (map completed_row (elements (completedQuests chr))) \<Longrightarrow>
      \<exists>hs. each (load_completed sr) rows empty_set = Inr hs \<and> set16 sr cq_id hs \<and> hash_set_map cq_id hs = hash_set_map cq_id (completedQuests chr)"
    and "mset srows = mset (map skill_row (elements (skills chr))) \<Longrightarrow>
      \<exists>hs. each (load_skill sr) srows empty_set = Inr hs \<and> set32 sr sk_id hs \<and> hash_set_map sk_id hs = hash_set_map sk_id (skills chr)"
    and "mset mrows = mset (map book_row (elements (monsterBook chr))) \<Longrightarrow>
      \<exists>hs. each (load_book_entry sr) mrows empty_set = Inr hs \<and> set32 sr mb_id hs \<and> hash_set_map mb_id hs = hash_set_map mb_id (monsterBook chr)"
proof -
  have "load_completed sr = insert_row (hash_u16 (sr_hash sr)) cq_id (\<lambda>r. \<lparr>cq_id = dcq_id r, cq_time = timegm (dcq_time r)\<rparr>)"
    "load_skill sr = insert_row (hash_u32 (sr_hash sr)) sk_id (\<lambda>r. \<lparr>sk_id = ds_id r, sk_level = ds_level r, sk_masterLevel = ds_masterLevel r\<rparr>)"
    "load_book_entry sr = insert_row (hash_u32 (sr_hash sr)) mb_id (\<lambda>r. \<lparr>mb_id = dm_id r, mb_count = dm_quantity r\<rparr>)"
    using mem by (simp_all add: fun_eq_iff load_completed_def load_skill_def load_book_entry_def insert_row_def hash_set_u16_insert_def hash_set_u32_insert_def)
  note L = this
  show "\<exists>hs. each (load_completed sr) rows empty_set = Inr hs \<and> set16 sr cq_id hs \<and> hash_set_map cq_id hs = hash_set_map cq_id (completedQuests chr)"
    if "mset rows = mset (map completed_row (elements (completedQuests chr)))"
    unfolding L by (rule reload_same [OF _ that]) (use fits in \<open>simp_all add: sets_fit_def timegm_gmtime\<close>)
  show "\<exists>hs. each (load_skill sr) srows empty_set = Inr hs \<and> set32 sr sk_id hs \<and> hash_set_map sk_id hs = hash_set_map sk_id (skills chr)"
    if "mset srows = mset (map skill_row (elements (skills chr)))"
    unfolding L by (rule reload_same [OF _ that]) (use fits in \<open>simp_all add: sets_fit_def\<close>)
  show "\<exists>hs. each (load_book_entry sr) mrows empty_set = Inr hs \<and> set32 sr mb_id hs \<and> hash_set_map mb_id hs = hash_set_map mb_id (monsterBook chr)"
    if "mset mrows = mset (map book_row (elements (monsterBook chr)))"
    unfolding L by (rule reload_same [OF _ that]) (use fits in \<open>simp_all add: sets_fit_def\<close>)
qed

lemma saved_keys_rows:
  assumes "length (keyMap chr) = KEYMAP_MAX_KEYS"
  shows "saved_keys chr = map (key_row chr) (filter (\<lambda>i. km_type (keyMap chr ! i) \<noteq> 0) [0..<KEYMAP_MAX_KEYS])"
  unfolding saved_keys_def filter_enumerate using assms by (simp add: key_row_def)

lemma keys_reloaded:
  assumes len: "length (keyMap chr) = KEYMAP_MAX_KEYS" and rows: "mset rows = mset (saved_keys chr)"
  shows "each load_key rows (replicate KEYMAP_MAX_KEYS \<lparr>km_type = 0, km_action = 0\<rparr>) = Inr (map bound_key (keyMap chr))"
proof -
  let ?A = "filter (\<lambda>i. km_type (keyMap chr ! i) \<noteq> 0) [0..<KEYMAP_MAX_KEYS]" and ?ix = "\<lambda>r. unat (dk_key r)"
  let ?e = "replicate KEYMAP_MAX_KEYS \<lparr>km_type = 0, km_action = 0\<rparr>"
  have at: "\<forall>i \<in> set ?A. ?ix (key_row chr i) = i \<and> ?ix (key_row chr i) < KEYMAP_MAX_KEYS"
    by (auto simp: key_row_def KEYMAP_MAX_KEYS_def unat_of_nat)
  then have R: "set rows = key_row chr ` set ?A" "distinct (map ?ix rows)"
    using mset_rows [where ix = ?ix, OF rows [unfolded saved_keys_rows [OF len]]] by (simp_all del: set_filter)
  have "length ?e = KEYMAP_MAX_KEYS" by simp
  from keys.written_out [OF R at this] obtain ks where ks: "each load_key rows ?e = Inr ks" "length ks = KEYMAP_MAX_KEYS"
      "\<And>i. key_at ks i = (if i \<in> set ?A then map_option (\<lambda>_. \<lparr>km_type = dk_type (key_row chr i), km_action = dk_action (key_row chr i)\<rparr>) (key_at ?e i)
         else key_at ?e i)" by blast
  have "ks ! i = map bound_key (keyMap chr) ! i" if i: "i < KEYMAP_MAX_KEYS" for i
    using ks(3) [of i] ks(2) len i by (cases "km_type (keyMap chr ! i) = 0") (simp_all add: key_at_def bound_key_def key_row_def)
  then have "ks = map bound_key (keyMap chr)" using ks(2) len by (intro nth_equalityI) simp_all
  then show ?thesis using ks(1) by simp
qed


subsection \<open>The request\<close>

text \<open>What can be stored without loss. The fourth inventory always has 252 slots.\<close>

definition quests_fit :: "surroundings \<Rightarrow> character \<Rightarrow> bool" where
  "quests_fit sr chr \<longleftrightarrow>
     set16 sr q_id (quests chr) \<and> (\<forall>q \<in> set (elements (quests chr)). hunt_fits sr q \<and> quest_known sr (q_id q)) \<and>
     (\<forall>mid. waiting sr (hash_set_map q_id (quests chr)) mid \<le> 127)"

definition storable :: "surroundings \<Rightarrow> character \<Rightarrow> bool" where
  "storable sr chr \<longleftrightarrow>
     worn_fits sr chr \<and> kept_fits sr chr \<and> stacks_fit chr \<and> slot_count chr 3 = 252 \<and> chr_job chr < 65536 \<and>
     quests_fit sr chr \<and> sets_fit sr chr"

lemma quest_rows_collected:
  assumes "\<forall>q \<in> set ds. hunt_fits sr q"
  shows "fold (\<lambda>q r. snd (add_progress sr q r)) ds (Inr rows) = Inr (rows @ all_rows_of sr ds)"
  using assms
proof (induction ds arbitrary: rows)
  case (Cons q ds)
  obtain info where info: "sr_quest sr (q_id q) = Some info" "mobs_for sr q = first_mobs (qd_endRequirements info)"
    using hunt_fitsD(1) [of sr q] Cons.prems by auto
  have "snd (add_progress sr q (Inr rows)) = Inr (rows @ rows_of sr q)"
    using info hunt_fitsD(2-4) [of sr q] Cons.prems by (simp add: add_progress_def rows_of_def Let_def)
  then show ?case using Cons by (simp add: all_rows_of_def)
qed (simp add: all_rows_of_def)

lemma update_request_ok:
  assumes "storable sr chr"
  shows "\<exists>chr' uc. update_request sr town chr = Inr (chr', uc) \<and> (\<exists>sks book. chr' = chr\<lparr>skills := sks, monsterBook := book\<rparr>) \<and>
    uc = (saved_stats town chr)\<lparr>uc_equippedEquipment := saved_worn chr, uc_equipmentInventory := saved_kept chr,
      uc_inventoryItems := concat (map saved_stacks (chr_inventory chr)), uc_quests := map q_id (elements (quests chr)),
      uc_progresses := all_rows_of sr (elements (quests chr)), uc_questInfos := map info_row (elements (questInfos chr)),
      uc_completedQuests := map completed_row (elements (completedQuests chr)),
      uc_skills := map skill_row (elements (skills chr)),
      uc_monsterBook := map book_row (elements (monsterBook chr)), uc_keyMap := saved_keys chr\<rparr>"
proof -
  note S = assms [unfolded storable_def]
  have q: "set16 sr q_id (quests chr)" "\<forall>q \<in> set (elements (quests chr)). hunt_fits sr q" using S by (simp_all add: quests_fit_def)
  have s: "set16 sr qi_id (questInfos chr)" "set16 sr cq_id (completedQuests chr)" "set32 sr sk_id (skills chr)" "set32 sr mb_id (monsterBook chr)"
    using S by (simp_all add: sets_fit_def)
  have counts: "\<not> MAX_ITEM_COUNT < equip_slot_count chr" "\<not> list_ex (\<lambda>t. MAX_ITEM_COUNT < unat (inv_slotCount t)) (chr_inventory chr)"
    using S by (auto simp: kept_fits_def stacks_fit_def tables_ok_def slot_count_def list_ex_iff in_set_conv_nth not_less)
  have ids: "snd (hash_set_u16_foreach add_quest (quests chr) []) = map q_id (elements (quests chr))"
    using foreach_keep_rows [OF q(1), of q_id] by (simp add: hash_set_u16_foreach_def add_quest_def [abs_def])
  have infos: "snd (hash_set_u16_foreach add_quest_info (questInfos chr) []) = map info_row (elements (questInfos chr))"
    using foreach_keep_rows [OF s(1), of info_row] by (simp add: hash_set_u16_foreach_def add_quest_info_def [abs_def] info_row_def)
  have completed: "snd (hash_set_u16_foreach add_completed_quest (completedQuests chr) []) =
      map completed_row (elements (completedQuests chr))"
    using foreach_keep_rows [OF s(2), of completed_row] by (simp add: hash_set_u16_foreach_def add_completed_quest_def [abs_def])
  have progresses: "snd (hash_set_u16_foreach (add_progress sr) (quests chr) (Inr [])) = Inr (all_rows_of sr (elements (quests chr)))"
    using hash_set_foreach_ok(3) [OF q(1), of "add_progress sr" "Inr []"] quest_rows_collected [OF q(2), of "[]"]
    by (simp add: hash_set_u16_foreach_def add_progress_def elements_def)
  obtain sks where sks: "endless (hash_set_u32_foreach (sr_hash sr) sk_id (sr_mem sr For_table) add_skill (skills chr) []) =
      Inr (sks, map skill_row (elements (skills chr)))"
    using foreach_shrink_rows [OF s(3), of "sr_mem sr For_table" skill_row] by (auto simp: hash_set_u32_foreach_def add_skill_def [abs_def] endless_def)
  obtain book where book: "endless (hash_set_u32_foreach (sr_hash sr) mb_id (sr_mem sr For_table) add_monster_book_entry (monsterBook chr) []) =
      Inr (book, map book_row (elements (monsterBook chr)))"
    using foreach_shrink_rows [OF s(4), of "sr_mem sr For_table" book_row] by (auto simp: hash_set_u32_foreach_def add_monster_book_entry_def [abs_def] endless_def)
  show ?thesis
    unfolding update_request_def Let_def using counts ids infos completed progresses sks book by auto
qed


subsection \<open>The answer\<close>

definition answered_by :: "update_character \<Rightarrow> character_row \<Rightarrow> bool" where
  "answered_by uc row \<longleftrightarrow>
     cw_map row = uc_map uc \<and> cw_job row = uc_job uc \<and> cw_level row = uc_level uc \<and> cw_exp row = uc_exp uc \<and>
     cw_maxHp row = uc_maxHp uc \<and> cw_hp row = uc_hp uc \<and> cw_maxMp row = uc_maxMp uc \<and> cw_mp row = uc_mp uc \<and>
     cw_str row = uc_str uc \<and> cw_dex row = uc_dex uc \<and> cw_int row = uc_int uc \<and> cw_luk row = uc_luk uc \<and>
     cw_ap row = uc_ap uc \<and> cw_sp row = uc_sp uc \<and> cw_fame row = uc_fame uc \<and> cw_skin row = uc_skin uc \<and>
     cw_face row = uc_face uc \<and> cw_hair row = uc_hair uc \<and> cw_mesos row = uc_mesos uc \<and>
     cw_equipSlots row = uc_equipSlots uc \<and> cw_useSlots row = uc_useSlots uc \<and> cw_setupSlots row = uc_setupSlots uc \<and>
     cw_etcSlots row = uc_etcSlots uc \<and>
     mset (cw_equippedEquipment row) = mset (uc_equippedEquipment uc) \<and> mset (cw_equipmentInventory row) = mset (uc_equipmentInventory uc) \<and>
     mset (cw_inventoryItems row) = mset (uc_inventoryItems uc) \<and> mset (cw_quests row) = mset (uc_quests uc) \<and>
     mset (cw_progresses row) = mset (uc_progresses uc) \<and> mset (cw_questInfos row) = mset (uc_questInfos uc) \<and>
     mset (cw_completedQuests row) = mset (uc_completedQuests uc) \<and> mset (cw_skills row) = mset (uc_skills uc) \<and>
     mset (cw_monsterBook row) = mset (uc_monsterBook uc) \<and> mset (cw_keyMap row) = mset (uc_keyMap uc)"

text \<open>The struct that is filled has tables of the right size; name and storage, which are not written, can be read.\<close>

definition fillable :: "surroundings \<Rightarrow> equipment \<Rightarrow> character_row \<Rightarrow> character \<Rightarrow> bool" where
  "fillable sr stale row s \<longleftrightarrow>
     length (equippedEquipment s) = EQUIP_SLOT_COUNT \<and> length (eqi_items (equipmentInventory s)) = MAX_ITEM_COUNT \<and> tables_ok s \<and>
     length (cw_name row) \<le> CHARACTER_MAX_NAME_LENGTH \<and> (\<exists>sto. load_storage sr stale row (chr_storage s) = Inr sto)"

definition same_stats :: "character \<Rightarrow> character \<Rightarrow> bool" where
  "same_stats chr chr' \<longleftrightarrow>
     chr_job chr' = chr_job chr \<and> chr_level chr' = chr_level chr \<and> chr_exp chr' = chr_exp chr \<and>
     chr_maxHp chr' = chr_maxHp chr \<and> chr_hp chr' = chr_hp chr \<and> chr_maxMp chr' = chr_maxMp chr \<and> chr_mp chr' = chr_mp chr \<and>
     chr_str chr' = chr_str chr \<and> chr_dex chr' = chr_dex chr \<and> chr_int chr' = chr_int chr \<and> chr_luk chr' = chr_luk chr \<and>
     chr_ap chr' = chr_ap chr \<and> chr_sp chr' = chr_sp chr \<and> chr_fame chr' = chr_fame chr \<and> chr_skin chr' = chr_skin chr \<and>
     chr_face chr' = chr_face chr \<and> chr_hair chr' = chr_hair chr \<and> chr_mesos chr' = chr_mesos chr"

definition same_things :: "character \<Rightarrow> character \<Rightarrow> bool" where
  "same_things chr chr' \<longleftrightarrow>
     (\<forall>i < EQUIP_SLOT_COUNT. equip_view (worn chr' i) = equip_view (worn chr i)) \<and>
     equip_slot_count chr' = equip_slot_count chr \<and>
     (\<forall>i < equip_slot_count chr. equip_view (equip_slot chr' i) = equip_view (equip_slot chr i)) \<and>
     (\<forall>iv < 4. slot_count chr' iv = slot_count chr iv \<and>
        (\<forall>i < slot_count chr iv. stack_view (item_slot chr' iv i) = stack_view (item_slot chr iv i)))"

definition same_sets :: "character \<Rightarrow> character \<Rightarrow> bool" where
  "same_sets chr chr' \<longleftrightarrow>
     hash_set_map q_id (quests chr') = (\<lambda>k. map_option stored_quest (hash_set_map q_id (quests chr) k)) \<and>
     hash_set_map qi_id (questInfos chr') = (\<lambda>k. map_option stored_info (hash_set_map qi_id (questInfos chr) k)) \<and>
     hash_set_map cq_id (completedQuests chr') = hash_set_map cq_id (completedQuests chr) \<and>
     hash_set_map sk_id (skills chr') = hash_set_map sk_id (skills chr) \<and>
     hash_set_map mb_id (monsterBook chr') = hash_set_map mb_id (monsterBook chr) \<and>
     keyMap chr' = map bound_key (keyMap chr)"

text \<open>What loading the tables leaves alone.\<close>

definition plain :: "character \<Rightarrow> character" where
  "plain chr = chr\<lparr>equippedEquipment := [], chr_estr := 0, chr_edex := 0, chr_eint := 0, chr_eluk := 0, chr_eMaxHp := 0, chr_eMaxMp := 0,
     equipmentInventory := (equipmentInventory chr)\<lparr>eqi_items := []\<rparr>,
     chr_inventory := map (\<lambda>t. t\<lparr>inv_items := []\<rparr>) (chr_inventory chr), chr_storage := chr_storage beginner, activeProjectile := 0\<rparr>"

lemma plain_frames:
  "plain (but_worn s) = plain s" "plain (but_kept s) = plain s" "plain (but_stacks s) = plain s"
  "plain (load_projectile (s\<lparr>chr_storage := sto\<rparr>)) = plain s"
  by (simp_all add: plain_def but_worn_def but_kept_def but_stacks_def load_projectile_def advance_projectile_def Let_def comp_def split: option.split)

lemma load_projectile_things:
  "equippedEquipment (load_projectile s) = equippedEquipment s" "equipmentInventory (load_projectile s) = equipmentInventory s"
  "chr_inventory (load_projectile s) = chr_inventory s" "extra_stats_ok (load_projectile s) = extra_stats_ok s"
  by (simp_all add: load_projectile_def advance_projectile_def extra_stats_ok_def Let_def split: option.split)


lemma plain_eqD:
  assumes "plain a = plain b"
  shows "equip_slot_count a = equip_slot_count b" "map inv_slotCount (chr_inventory a) = map inv_slotCount (chr_inventory b)"
    "same_stats a c = same_stats b c" "same_stats c a = same_stats c b" "chr_map a = chr_map b" "chr_spawnPoint a = chr_spawnPoint b"
    "chr_name a = chr_name b" "chr_gender a = chr_gender b"
proof -
  have "map inv_slotCount (chr_inventory a) = map inv_slotCount (chr_inventory (plain a))" by (simp add: plain_def comp_def)
  moreover have "map inv_slotCount (chr_inventory b) = map inv_slotCount (chr_inventory (plain b))" by (simp add: plain_def comp_def)
  ultimately show "map inv_slotCount (chr_inventory a) = map inv_slotCount (chr_inventory b)" using assms by simp
  have "equip_slot_count a = equip_slot_count (plain a)" "equip_slot_count b = equip_slot_count (plain b)"
    by (simp_all add: plain_def equip_slot_count_def)
  then show "equip_slot_count a = equip_slot_count b" using assms by simp
  have st: "same_stats (plain x) c = same_stats x c" "same_stats c (plain x) = same_stats c x" for x by (simp_all add: plain_def same_stats_def)
  show "same_stats a c = same_stats b c" "same_stats c a = same_stats c b" using st [of a] st [of b] assms by metis+
  have m: "chr_map (plain x) = chr_map x" "chr_spawnPoint (plain x) = chr_spawnPoint x" "chr_name (plain x) = chr_name x"
    "chr_gender (plain x) = chr_gender x" for x by (simp_all add: plain_def)
  show "chr_map a = chr_map b" "chr_spawnPoint a = chr_spawnPoint b" "chr_name a = chr_name b" "chr_gender a = chr_gender b"
    using m [of a] m [of b] assms by metis+
qed

lemma slot_counts_eq:
  assumes "map inv_slotCount (chr_inventory a) = map inv_slotCount (chr_inventory b)" "iv < length (chr_inventory a)"
  shows "slot_count a iv = slot_count b iv"
  using arg_cong [OF assms(1), of "\<lambda>xs. unat (xs ! iv)"] assms(2) map_eq_imp_length_eq [OF assms(1)] by (simp add: slot_count_def)

lemma items_reloaded:
  assumes fits: "worn_fits sr chr" "kept_fits sr chr" "stacks_fit chr"
    and rows: "mset (cw_equippedEquipment row) = mset (saved_worn chr)" "mset (cw_equipmentInventory row) = mset (saved_kept chr)"
      "mset (cw_inventoryItems row) = mset (concat (map saved_stacks (chr_inventory chr)))"
    and old: "length (equippedEquipment s) = EQUIP_SLOT_COUNT" "length (eqi_items (equipmentInventory s)) = MAX_ITEM_COUNT" "tables_ok s"
    and zero: "chr_estr s = 0" "chr_edex s = 0" "chr_eint s = 0" "chr_eluk s = 0" "chr_eMaxHp s = 0" "chr_eMaxMp s = 0"
    and counts: "equip_slot_count s = equip_slot_count chr" "\<forall>iv < 4. slot_count s iv = slot_count chr iv"
    and sto: "load_storage sr stale row (chr_storage s) = Inr sto"
  shows "\<exists>s'. load_items sr stale row s = Inr s' \<and> plain s' = plain s \<and> extra_stats_ok s' \<and> same_things chr s'"
proof -
  from worn_reloaded [OF fits(1) rows(1) old(1) zero] obtain s1 where
    s1: "each (load_worn sr) (cw_equippedEquipment row) (empty_worn s) = Inr s1" "but_worn s1 = but_worn s" "extra_stats_ok s1"
      "\<And>i. i < EQUIP_SLOT_COUNT \<Longrightarrow> equip_view (worn s1 i) = equip_view (worn chr i)" by blast
  have e1: "equipmentInventory s1 = equipmentInventory s" "chr_inventory s1 = chr_inventory s" "chr_storage s1 = chr_storage s"
    using arg_cong [OF s1(2), of equipmentInventory] arg_cong [OF s1(2), of chr_inventory] arg_cong [OF s1(2), of chr_storage]
    by (simp_all add: but_worn_def)
  then have "length (eqi_items (equipmentInventory s1)) = MAX_ITEM_COUNT" "equip_slot_count s1 = equip_slot_count chr"
    using old(2) counts(1) by (simp_all add: equip_slot_count_def)
  from kept_reloaded [OF fits(2) rows(2) this] obtain s2 where
    s2: "each (load_kept sr) (cw_equipmentInventory row) (empty_kept s1) = Inr s2" "but_kept s2 = but_kept s1"
      "\<And>i. i < equip_slot_count chr \<Longrightarrow> equip_view (equip_slot s2 i) = equip_view (equip_slot chr i)" by blast
  have e2: "equippedEquipment s2 = equippedEquipment s1" "chr_inventory s2 = chr_inventory s" "chr_storage s2 = chr_storage s"
    using arg_cong [OF s2(2), of equippedEquipment] arg_cong [OF s2(2), of chr_inventory] arg_cong [OF s2(2), of chr_storage] e1
    by (simp_all add: but_kept_def)
  then have "tables_ok s2" "\<forall>iv < 4. slot_count s2 iv = slot_count chr iv" using old(3) counts(2) by (simp_all add: tables_ok_def slot_count_def)
  from stacks_reloaded [OF fits(3) rows(3) this] obtain s3 where
    s3: "each load_stack (cw_inventoryItems row) (emptied s2) = Inr s3" "but_stacks s3 = but_stacks s2" "tables_ok s3"
      "\<And>iv i. iv < 4 \<Longrightarrow> i < slot_count chr iv \<Longrightarrow> stack_view (item_slot s3 iv i) = stack_view (item_slot chr iv i)" by blast
  have e3: "equippedEquipment s3 = equippedEquipment s1" "equipmentInventory s3 = equipmentInventory s2" "chr_storage s3 = chr_storage s"
    using arg_cong [OF s3(2), of equippedEquipment] arg_cong [OF s3(2), of equipmentInventory] arg_cong [OF s3(2), of chr_storage] e2
    by (simp_all add: but_stacks_def)
  let ?s = "load_projectile (s3\<lparr>chr_storage := sto\<rparr>)"
  have run: "load_items sr stale row s = Inr ?s"
    using s1(1) s2(1) s3(1) sto e3(3) by (simp add: load_items_def emptied_def)
  have p: "plain s3 = plain s" using s1(2) s2(2) s3(2) plain_frames(1-3) by metis
  then have plain: "plain ?s = plain s" by (simp only: plain_frames)
  have sc: "slot_count s3 iv = slot_count chr iv" if "iv < 4" for iv
    using slot_counts_eq [OF plain_eqD(2) [OF p], of iv] s3(3) counts(2) that by (simp add: tables_ok_def)
  have stats: "extra_stats_ok ?s"
  proof -
    have "chr_estr s3 = chr_estr s1" "chr_edex s3 = chr_edex s1" "chr_eint s3 = chr_eint s1" "chr_eluk s3 = chr_eluk s1"
      "chr_eMaxHp s3 = chr_eMaxHp s1" "chr_eMaxMp s3 = chr_eMaxMp s1"
      using arg_cong [OF s3(2), of chr_estr] arg_cong [OF s3(2), of chr_edex] arg_cong [OF s3(2), of chr_eint] arg_cong [OF s3(2), of chr_eluk]
        arg_cong [OF s3(2), of chr_eMaxHp] arg_cong [OF s3(2), of chr_eMaxMp] arg_cong [OF s2(2), of chr_estr] arg_cong [OF s2(2), of chr_edex]
        arg_cong [OF s2(2), of chr_eint] arg_cong [OF s2(2), of chr_eluk] arg_cong [OF s2(2), of chr_eMaxHp] arg_cong [OF s2(2), of chr_eMaxMp]
      by (simp_all add: but_stacks_def but_kept_def)
    then have "extra_stats_ok s3" using s1(3) e3(1) by (simp add: extra_stats_ok_def)
    then have "extra_stats_ok (s3\<lparr>chr_storage := sto\<rparr>)" by (simp add: extra_stats_ok_def)
    then show ?thesis by (simp only: load_projectile_things(4))
  qed
  have "same_things chr ?s"
    unfolding same_things_def
  proof (intro conjI allI impI)
    fix i assume "i < EQUIP_SLOT_COUNT"
    from s1(4) [OF this] show "equip_view (worn ?s i) = equip_view (worn chr i)" by (simp add: worn_def load_projectile_things e3)
  next
    show "equip_slot_count ?s = equip_slot_count chr" using plain_eqD(1) [OF plain] counts(1) by simp
  next
    fix i assume "i < equip_slot_count chr"
    from s2(3) [OF this] show "equip_view (equip_slot ?s i) = equip_view (equip_slot chr i)" by (simp add: equip_slot_def load_projectile_things e3)
  next
    fix iv :: nat assume iv: "iv < 4"
    show "slot_count ?s iv = slot_count chr iv" using sc [OF iv] by (simp add: slot_count_def load_projectile_things)
    fix i assume "i < slot_count chr iv"
    from s3(4) [OF iv this] show "stack_view (item_slot ?s iv i) = stack_view (item_slot chr iv i)"
      by (simp add: item_slot_def load_projectile_things)
  qed
  with run plain stats show ?thesis by blast
qed


lemma same_things_cong:
  assumes "equippedEquipment a = equippedEquipment b" "equipmentInventory a = equipmentInventory b" "chr_inventory a = chr_inventory b"
  shows "same_things chr a = same_things chr b"
  using assms by (simp add: same_things_def worn_def equip_slot_count_def equip_slot_def slot_count_def item_slot_def)

lemma sets_reloaded:
  assumes fits: "sets_fit sr chr" and mem: "sr_mem sr For_element"
    and rows: "mset (cw_questInfos row) = mset (map info_row (elements (questInfos chr)))"
      "mset (cw_completedQuests row) = mset (map completed_row (elements (completedQuests chr)))"
      "mset (cw_skills row) = mset (map skill_row (elements (skills chr)))"
      "mset (cw_monsterBook row) = mset (map book_row (elements (monsterBook chr)))" "mset (cw_keyMap row) = mset (saved_keys chr)"
  shows "\<exists>infos completed sks book.
    load_sets sr row s = Inr (s\<lparr>questInfos := infos, completedQuests := completed, skills := sks, monsterBook := book,
      keyMap := map bound_key (keyMap chr)\<rparr>) \<and>
    hash_set_map qi_id infos = (\<lambda>k. map_option stored_info (hash_set_map qi_id (questInfos chr) k)) \<and>
    hash_set_map cq_id completed = hash_set_map cq_id (completedQuests chr) \<and>
    hash_set_map sk_id sks = hash_set_map sk_id (skills chr) \<and> hash_set_map mb_id book = hash_set_map mb_id (monsterBook chr)"
proof -
  have i: "set16 sr qi_id (questInfos chr)" "\<forall>i \<in> set (elements (questInfos chr)). info_fits i" "length (keyMap chr) = KEYMAP_MAX_KEYS"
    using fits by (simp_all add: sets_fit_def)
  from infos_reloaded [OF i(1,2) mem rows(1)] obtain infos where infos: "each (load_info sr) (cw_questInfos row) empty_set = Inr infos"
    "hash_set_map qi_id infos = (\<lambda>k. map_option stored_info (hash_set_map qi_id (questInfos chr) k))" by blast
  from others_reloaded(1) [OF fits mem rows(2)] obtain completed where completed: "each (load_completed sr) (cw_completedQuests row) empty_set = Inr completed"
    "hash_set_map cq_id completed = hash_set_map cq_id (completedQuests chr)" by blast
  from others_reloaded(2) [OF fits mem rows(3)] obtain sks where sks: "each (load_skill sr) (cw_skills row) empty_set = Inr sks"
    "hash_set_map sk_id sks = hash_set_map sk_id (skills chr)" by blast
  from others_reloaded(3) [OF fits mem rows(4)] obtain book where book: "each (load_book_entry sr) (cw_monsterBook row) empty_set = Inr book"
    "hash_set_map mb_id book = hash_set_map mb_id (monsterBook chr)" by blast
  show ?thesis
    by (intro exI [of _ infos] exI [of _ completed] exI [of _ sks] exI [of _ book])
      (simp add: load_sets_def infos completed sks book keys_reloaded [OF i(3) rows(5)])
qed

lemma all_four: "(\<forall>iv < (4 :: nat). P iv) \<longleftrightarrow> P 0 \<and> P 1 \<and> P 2 \<and> P 3"
  by (auto simp: less_Suc_eq numeral_eq_Suc)

subsection \<open>There and back\<close>



text \<open>A hunter with a sword in the hand and one in the bag, potions and a key.\<close>

definition hunt_shop :: surroundings where
  "hunt_shop = hunt_world\<lparr>sr_equip := \<lambda>iid. if iid = 1302000 then Some
     \<lparr>info_id = 1302000, info_str = 3, info_dex = 0, info_int = 0, info_luk = 0, info_hp = 10, info_mp = 0, info_atk = 0,
      info_matk = 0, info_def = 0, info_mdef = 0, info_acc = 0, info_avoid = 0, info_speed = 0, info_jump = 0,
      info_slots = 0, info_cash = False\<rparr> else None\<rparr>"

definition a_sword :: equip_entry where
  "a_sword = \<lparr>ee_isEmpty = False, ee_equip = sword\<rparr>"

definition bag_of :: "nat \<Rightarrow> item_entry list \<Rightarrow> inventory" where
  "bag_of n es = \<lparr>inv_slotCount = of_nat n, inv_items = es @ replicate (252 - length es) \<lparr>ie_isEmpty = True, ie_item = blank_item\<rparr>\<rparr>"

definition hero :: character where
  "hero = (cl_character hunter)\<lparr>chr_job := 100, chr_eMaxHp := 10, equippedEquipment := (replicate 64 no_equip)[10 := a_sword],
     equipmentInventory := \<lparr>eqi_slotCount = 24, eqi_items = (replicate 252 no_equip)[2 := a_sword]\<rparr>,
     chr_inventory := [bag_of 24 [potions 60], bag_of 24 [], bag_of 24 [], bag_of 252 []],
     keyMap := (replicate 90 \<lparr>km_type = 0, km_action = 0\<rparr>)[2 := \<lparr>km_type = 4, km_action = 10\<rparr>]\<rparr>"

definition answer_of :: "update_character \<Rightarrow> character_row" where
  "answer_of uc =
     \<lparr>cw_name = [72, 101, 114, 111], cw_map = uc_map uc, cw_job = uc_job uc, cw_level = uc_level uc, cw_exp = uc_exp uc,
      cw_maxHp = uc_maxHp uc, cw_hp = uc_hp uc, cw_maxMp = uc_maxMp uc, cw_mp = uc_mp uc, cw_str = uc_str uc, cw_dex = uc_dex uc,
      cw_int = uc_int uc, cw_luk = uc_luk uc, cw_hpmp = 0, cw_ap = uc_ap uc, cw_sp = uc_sp uc, cw_fame = uc_fame uc, cw_gender = 0,
      cw_skin = uc_skin uc, cw_face = uc_face uc, cw_hair = uc_hair uc, cw_mesos = uc_mesos uc, cw_equipSlots = uc_equipSlots uc,
      cw_useSlots = uc_useSlots uc, cw_setupSlots = uc_setupSlots uc, cw_etcSlots = uc_etcSlots uc,
      cw_equippedEquipment = uc_equippedEquipment uc, cw_equipmentInventory = uc_equipmentInventory uc,
      cw_inventoryItems = uc_inventoryItems uc, cw_storage_id = 0, cw_storage_slots = 4, cw_storage_mesos = 0, cw_storageItems = [],
      cw_storageEquipment = [], cw_quests = uc_quests uc, cw_progresses = uc_progresses uc, cw_questInfos = uc_questInfos uc,
      cw_completedQuests = uc_completedQuests uc, cw_skills = uc_skills uc, cw_monsterBook = uc_monsterBook uc, cw_keyMap = uc_keyMap uc\<rparr>"

lemma answer_of_answers: "answered_by uc (answer_of uc)"
  by (simp add: answered_by_def answer_of_def)

lemma sword_fits: "equip_fits hunt_shop sword" "worn_index (itemId (eq_item sword)) = 10"
  by (simp_all add: equip_fits_def known_def cash_of_def hunt_shop_def sword_def no_equip_def equipment_from_info_def worn_index_def
      equip_slot_from_id_def equip_slot_to_compact_def equip_slot_defs)

lemma hero_items: "worn_fits hunt_shop hero" "kept_fits hunt_shop hero" "stacks_fit hero" "slot_count hero 3 = 252"
proof -
  have "worn hero i = (if i = 10 then a_sword else no_equip)" if "i < 64" for i using that by (simp add: worn_def hero_def)
  then show "worn_fits hunt_shop hero"
    using sword_fits by (auto simp: worn_fits_def EQUIP_SLOT_COUNT_def a_sword_def no_equip_def) (simp_all add: hero_def)
  have c: "equip_slot_count hero = 24" and len: "length (eqi_items (equipmentInventory hero)) = 252"
    by (simp_all add: equip_slot_count_def hero_def)
  have "equip_slot hero i = (if i = 2 then a_sword else no_equip)" if "i < 24" for i using that by (simp add: equip_slot_def hero_def)
  then show "kept_fits hunt_shop hero"
    using sword_fits by (auto simp: kept_fits_def MAX_ITEM_COUNT_def c len a_sword_def no_equip_def)
  have T: "tables_ok hero" by (simp add: tables_ok_def hero_def bag_of_def MAX_ITEM_COUNT_def)
  have E: "\<forall>iv < 4. \<forall>i < 252. (iv, i) \<noteq> (0, 0) \<longrightarrow> ie_isEmpty (item_slot hero iv i)"
    unfolding all_four by (simp add: item_slot_def hero_def bag_of_def nth_Cons')
  have P: "stack_fits 0 (item_slot hero 0 0)"
    by (simp add: stack_fits_def item_slot_def hero_def bag_of_def potions_def blank_item_def entry_id_def no_equip_def
        equipment_from_info_def)
  have C: "\<forall>iv < 4. slot_count hero iv \<le> 252" unfolding all_four by (simp add: slot_count_def hero_def bag_of_def)
  have "stack_fits iv (item_slot hero iv i)" if h: "iv < 4" "i < slot_count hero iv" "\<not> ie_isEmpty (item_slot hero iv i)" for iv i
  proof -
    have "i < 252" using C h(1,2) by (meson order_less_le_trans)
    then have "(iv, i) = (0, 0)" using E h by blast
    then show ?thesis using P by simp
  qed
  then show "stacks_fit hero" using T C by (simp add: stacks_fit_def MAX_ITEM_COUNT_def)
  show "slot_count hero 3 = 252" by (simp add: slot_count_def hero_def bag_of_def)
qed

lemma hero_quests: "quests_fit hunt_shop hero"
proof -
  have q: "quests hero = quests (cl_character hunter)" by (simp add: hero_def)
  have sr: "sr_hash hunt_shop = (\<lambda>_. 0)" "sr_quest hunt_shop = sr_quest hunt_world" by (simp_all add: hunt_shop_def)
  have "set16 hunt_world q_id (quests (cl_character hunter))" using hunter_ok by (simp add: quests_ok_def)
  then have "set16 hunt_shop q_id (quests hero)" by (simp add: q sr)
  moreover have "elements (quests hero) = [hunt]" by (simp add: q hunter_def elements_def)
  moreover have "hunt_fits hunt_shop hunt"
    by (simp add: hunt_fits_def hunt_ok_def mobs_for_def sr hunt_def progress_slots_def)
  moreover have "quest_known hunt_shop 1000" by (simp add: quest_known_def sr hunt_quest_def)
  moreover have "waiting hunt_shop [1000 \<mapsto> hunt] mid = (if mid = 100100 then 1 else 0)" for mid
    by (simp add: waiting_def open_counters_def sr hunt_def)
  ultimately show ?thesis by (simp add: quests_fit_def q) (simp add: hunt_def)
qed

lemma hero_sets: "sets_fit hunt_shop hero"
  by (simp add: sets_fit_def hero_def hunter_def beginner_client_def beginner_def hash_set_inv_def table_ok_def elements_def KEYMAP_MAX_KEYS_def)


end
