(* ===== verification/Spec2Isabelle.thy ===== *)
theory Spec2Isabelle
  imports Framing Reader Keyed_Set Item Character_Packets Packets Stat_Packet Controller_Heap Object_List Exchange Quest_Counters Login_Channels Login_Sessions Session_List
    Game_Data Foothold_Tree Accounts World_Events Rooms Registries Conversations Identifiers Character_Reload
begin

text \<open>
  A verification library for syrup, a game server written in C (\<^verbatim>\<open>src/src/\<close>).

  \<^bold>\<open>The program.\<close> A login server and any number of channel servers talk to game clients over TCP. Packets are
  framed and encrypted by bufferevent filters, read with a cursor over a byte array and built with a
  writer into arrays of a fixed size. A channel server keeps a room per game map; in it are the map's
  objects (monsters, dropped items, reactors), which are numbered by an object list, and the players,
  among whom the monsters are shared by a heap. A player is a \<open>struct Client\<close> with a \<open>struct Character\<close>:
  stats, inventories, equipment, quests. Worlds are connected by events with timers. Static data
  come from the files of the game client and from a database.

  \<^bold>\<open>Reading the models.\<close> Structures of the source are records, enumerations are datatypes, and every
  function is a definition of the same name where the name is free. Integers are words where the code wraps or
  compares them unsigned, and \<open>int\<close> with \<open>to_i8\<close>, \<open>to_i16\<close> and \<open>to_i32\<close> at the places where C
  converts. State is passed explicitly. Errors of the program are values; reading out of bounds, null
  pointers and failed assertions are errors of the model, so that a theorem that shows a result shows
  that none of them happens. A loop that may not end is \<open>partial_function (option)\<close> or a
  \<open>while_option\<close>, and \<open>None\<close> means that it does not return; no fuel is used. Memory (\<open>malloc\<close>) is
  an argument that says whether it is available, or which address is delivered. Libraries are
  arguments: the event buffers of libevent (\<open>evbuffer_api\<close>, with \<open>evbuffer_laws\<close>), the hash function
  of xxHash (any function), the perfect hash functions of cmph (\<open>minimal_perfect\<close>), the data of
  \<open>wz_get_item_info\<close> and \<open>wz_get_quest_info\<close>, and random numbers.

  \<^bold>\<open>Theories.\<close>
  \<^item> \<open>Prelude\<close>: types, little-endian bytes, narrowing conversions.
  \<^item> \<open>Writer\<close>, \<open>Reader\<close> (\<^verbatim>\<open>writer.c\<close>, \<^verbatim>\<open>reader.c\<close>): the cursors. Fields that are written are read back;
    no read leaves the packet; a calculus of what a sequence of writes emits and how much.
  \<^item> \<open>Crypt\<close> (\<^verbatim>\<open>crypt.c\<close>): AES, key stream, byte passes, headers. Decryption inverts encryption over a whole
    session, and the table of round keys is the AES-256 key schedule.
  \<^item> \<open>Framing\<close> (the filters of \<^verbatim>\<open>channel/server.c\<close> and \<^verbatim>\<open>login/server.c\<close>): what one side queues the other side
    receives, unchanged and in order; half a packet waits.
  \<^item> \<open>Probing\<close>, \<open>Hash_Set\<close>, \<open>Keyed_Set\<close> (\<^verbatim>\<open>hash-map.c\<close>): open addressing. The locale \<open>keyed_set\<close> is the
    contract of a finite map; the integer-keyed sets are interpretations of it, and any legal sequence of calls is
    answered as by a map. Removing an absent key may never return, and the address-keyed set loses elements.
  \<^item> \<open>Item\<close>, \<open>Character\<close> (\<^verbatim>\<open>item.h\<close>, \<^verbatim>\<open>job.h\<close>, \<^verbatim>\<open>character.c\<close>): slot numberings, classification of items, the
    character with its stats and experience.
  \<^item> \<open>Packets\<close>, \<open>Stat_Packet\<close>, \<open>Character_Packets\<close> (\<^verbatim>\<open>packet.c\<close>): every packet builder, and that it fits the
    length that \<^verbatim>\<open>packet.h\<close> declares for it, with the bounds on names, messages and items under which it does.
  \<^item> \<open>Object_List\<close> (\<^verbatim>\<open>channel/map.c\<close>): numbers of objects, with reuse. The locale \<open>registry\<close> is the contract.
  \<^item> \<open>Controller_Heap\<close> (\<^verbatim>\<open>channel/map.c\<close>): the heap that shares monsters among players. The locale
    \<open>load_balancer\<close> is the contract: the least loaded one gets the next monsters.
  \<^item> \<open>Client\<close> (\<^verbatim>\<open>channel/client.c\<close>): stats, money, experience and levels, jobs, keys, with what is sent.
  \<^item> \<open>Client_Inventory\<close>, \<open>Equipment\<close>, \<open>Stacks\<close>, \<open>Gaining\<close>, \<open>Exchange\<close> (\<^verbatim>\<open>channel/client.c\<close>): receiving, removing, moving
    and using items, exchanging several kinds at once, putting on and taking off equipment; that none of these
    creates or destroys anything, and the cases in which the code does.
  \<^item> \<open>Shops\<close> (\<^verbatim>\<open>channel/client.c\<close>): buying, selling and recharging, with the price of a unit in floating point; what
    a trade takes and gives.
  \<^item> \<open>Set_Elements\<close>, \<open>Quests\<close>, \<open>Quest_Counters\<close> (\<^verbatim>\<open>channel/client.c\<close>): requirements, acts, starting, ending and giving up
    quests, notes, and the monsters that are counted for them. The set of awaited monsters has exactly the
    counters of the quests that were started; where it does not (failed starts, early ends) is stated.
  \<^item> \<open>Conversations\<close> (\<^verbatim>\<open>channel/scripting/script-manager.c\<close>, \<^verbatim>\<open>channel/client.c\<close>): script instances and the questions that scripts
    ask a player, with the Lua interpreter as an argument. A script gets only answers that it offered, except for numbers and
    menus, where the wrong byte is checked.
  \<^item> \<open>Calendar\<close>, \<open>Character_Rows\<close>, \<open>Identifiers\<close> (\<^verbatim>\<open>database.h\<close>, \<^verbatim>\<open>channel/client.c\<close>, \<open>do_allocate_ids\<close> of \<^verbatim>\<open>database.c\<close>): what
    of a character is written to the database, and the identifiers that it gets for new things.
  \<^item> \<open>Character_Load\<close> (state 3 of \<open>client_resume\<close>): how a character is made from rows. \<open>Row_Writers\<close> has the contract
    of functions that put rows into the slots of a table (locale \<open>row_writer\<close>, interpreted for equipment, stacks and
    keys), \<open>Set_Reload\<close> and \<open>Quest_Reload\<close> show what becomes of hash sets and quests, \<open>Save_Load\<close> of items, and
    \<open>Character_Reload\<close> puts it together: a saved character that is loaded is the same.
  \<^item> \<open>Perfect_Table\<close>, \<open>Game_Data\<close> (\<^verbatim>\<open>channel/drops.c\<close>, \<^verbatim>\<open>channel/shop.c\<close>, lookups of \<^verbatim>\<open>wz.c\<close>): arrays arranged in
    place by a perfect hash function; that the arranging ends and lookups are right.
  \<^item> \<open>Foothold_Tree\<close> (\<^verbatim>\<open>wz.c\<close>): the R-tree of the footholds of a map; that it stays balanced and that searching
    it agrees with looking at every foothold.
  \<^item> \<open>Accounts\<close> (\<^verbatim>\<open>account.c\<close>): the doubly linked list of sessions in an explicit store; no account is logged in
    twice, by rule induction over all sequences of calls.
  \<^item> \<open>World_Events\<close> (\<^verbatim>\<open>channel/events.c\<close>, \<^verbatim>\<open>channel/server.c\<close>): events, listeners, transports. A transport never
    stops.
  \<^item> \<open>Rooms\<close> (\<^verbatim>\<open>channel/server.c\<close>): rooms and their timers; a room lives exactly as long as something keeps it.
  \<^item> \<open>Registries\<close> (\<^verbatim>\<open>channel/thread-coordinator.c\<close>, \<^verbatim>\<open>party.c\<close>): two users of the \<open>keyed_set\<close> contract.

  \<^item> \<open>Database_Lock\<close> (\<^verbatim>\<open>database.c\<close>): the queue of clients that wait for a connection to the database. The locale
    \<open>queue_lock\<close> is the contract: one holder at a time, in the order of the requests.
  \<^item> \<open>Login_Handlers\<close> (\<^verbatim>\<open>login/handlers.c\<close>): the request handlers of the login server as coroutines over the answers of
    the database; nobody logs in without the password, over all interleavings.
  \<^item> \<open>Login_Server\<close>, \<open>Login_Sessions\<close>, \<open>Session_List\<close> (\<^verbatim>\<open>login/main.c\<close>, \<^verbatim>\<open>login/server.c\<close>): what a packet does, how
    sessions wait, go on, are kicked and end, and the array they are kept in. A logged-in client cannot crash
    the server, and no client keeps the connection to the database, unless it sends something while it is
    being kicked; that, and other ways in which a session gets stuck, are theorems as well.
  \<^item> \<open>Login_Channels\<close> (\<^verbatim>\<open>login/server.c\<close>): sending characters to a channel and getting them back, also when the
    channel is lost.

  \<^bold>\<open>How the parts meet.\<close> The packet builders are sequences of the writer's operations and inherit its
  calculus; their results are what the filters carry, and the receiver reads them with the reader. The
  item quests of a character, the properties of events, the coordinator and the parties are hash sets, used through the
  contract \<open>keyed_set\<close>. The client operations work on the character of \<open>Character\<close> and send the packets of
  \<open>Packets\<close> (\<open>message_packet\<close>). The object list and the heap use the same probing. The login handlers work on
  the accounts of \<open>Accounts\<close>, their packets are read with \<open>Reader\<close>, their messages are built by \<open>Packets\<close>
  (\<open>login_message_packet\<close>), and what they do with the lock of the database is what \<open>Database_Lock\<close> expects of its
  users.

  \<^bold>\<open>Not modelled.\<close> The event loops and worker threads of both servers and the moving of sessions between rooms; the
  packet handlers of the channel server, which call the operations modelled here; the requests to
  the database, which are an exchange of SQL with the MySQL library (their answers are arguments); the Lua functions
  that scripts call, which are bindings of the client operations; parsing of the game client's XML files by expat; of
  the clients, storage, parties and chat; of the maps, spawning, drops, reactors and their timers. Data races are not
  considered: operations under a lock are single steps.

  \<^bold>\<open>Plan.\<close> Next are the monsters and drops of a map on top of the object list and the heap, storage and
  parties of the clients, and the handlers of the channel server that tie them to packets.
\<close>

end
